(* ===== verification/Go_Prelude.thy ===== *)
theory Go_Prelude
  imports Main "HOL-Library.Char_ord" "HOL-Library.List_Lexorder" "HOL-Library.Product_Lexorder"
    "HOL-Library.Word"
begin

text \<open>
  Shared material of the development: Go strings as byte lists (\<open>string\<close>, ordered
  lexicographically by byte value as Go's \<open><\<close> on strings is), the functions of Go's
  \<open>strings\<close>, \<open>strconv\<close> and \<open>sort\<close> packages the program uses, fallible results as
  sums (\<open>Inl\<close> an error, \<open>Inr\<close> a value), 64-bit signed wrap-around, and the
  generic lemmas on them.  \<open>strings.ToUpper\<close>, \<open>strings.ToLower\<close>, \<open>strings.EqualFold\<close>
  and \<open>strings.TrimSpace\<close> are modelled on ASCII: a byte above 127 is left as it is.
\<close>

named_theorems go_string \<comment> \<open>evaluation rules of the string functions\<close>
named_theorems res_split \<comment> \<open>inversion of successful results\<close>

section \<open>Results\<close>

fun and_then :: "'e + 'a \<Rightarrow> ('a \<Rightarrow> 'e + 'b) \<Rightarrow> 'e + 'b" where
  "and_then (Inl e) f = Inl e"
| "and_then (Inr x) f = f x"

lemma and_then_Inr [res_split]:
  "and_then r f = Inr y \<longleftrightarrow> (\<exists>x. r = Inr x \<and> f x = Inr y)"
  by (cases r) auto

lemma and_then_Inl:
  "and_then r f = Inl e \<longleftrightarrow> r = Inl e \<or> (\<exists>x. r = Inr x \<and> f x = Inl e)"
  by (cases r) auto

text \<open>A Go loop that maps a fallible function over a slice and stops at the first error.\<close>

fun map_res :: "('a \<Rightarrow> 'e + 'b) \<Rightarrow> 'a list \<Rightarrow> 'e + 'b list" where
  "map_res f [] = Inr []"
| "map_res f (x # xs) =
     (case f x of Inl e \<Rightarrow> Inl e
      | Inr y \<Rightarrow> (case map_res f xs of Inl e \<Rightarrow> Inl e | Inr ys \<Rightarrow> Inr (y # ys)))"

lemma map_res_Inr:
  "map_res f xs = Inr ys \<longleftrightarrow> list_all2 (\<lambda>x y. f x = Inr y) xs ys"
proof (induction xs arbitrary: ys)
  case (Cons x xs)
  show ?case
  proof (cases "map_res f xs")
    case (Inr zs)
    with Cons.IH [of zs] Cons.IH show ?thesis
      by (cases ys; cases "f x") auto
  next
    case (Inl e)
    with Cons.IH show ?thesis by (cases ys; cases "f x") auto
  qed
qed auto

lemma map_res_length [dest]: "map_res f xs = Inr ys \<Longrightarrow> length ys = length xs"
  by (auto simp: map_res_Inr dest: list_all2_lengthD)

lemma map_res_total: "(\<And>x. x \<in> set xs \<Longrightarrow> f x = Inr (g x)) \<Longrightarrow> map_res f xs = Inr (map g xs)"
  by (induction xs) auto

lemma map_res_cong [fundef_cong]:
  "xs = ys \<Longrightarrow> (\<And>x. x \<in> set ys \<Longrightarrow> f x = g x) \<Longrightarrow> map_res f xs = map_res g ys"
  by (induction ys arbitrary: xs) (auto split: sum.splits)

section \<open>Strings\<close>

text \<open>Characters of the source that a literal cannot show.\<close>

definition nl :: string where "nl = [CHR 0x0A]"
definition tab :: string where "tab = [CHR 0x09]"
definition quot :: string where "quot = [CHR 0x22]"

text \<open>\<open>strings.HasPrefix\<close>, \<open>strings.HasSuffix\<close>, \<open>strings.IndexByte\<close>,
  \<open>strings.LastIndexByte\<close>: a missing byte is \<open>None\<close> where Go returns -1.\<close>

definition has_prefix :: "string \<Rightarrow> string \<Rightarrow> bool" where
  "has_prefix s p \<longleftrightarrow> take (length p) s = p"

definition has_suffix :: "string \<Rightarrow> string \<Rightarrow> bool" where
  "has_suffix s p \<longleftrightarrow> length p \<le> length s \<and> drop (length s - length p) s = p"

fun index_byte :: "char \<Rightarrow> string \<Rightarrow> nat option" where
  "index_byte c [] = None"
| "index_byte c (x # xs) = (if x = c then Some 0 else map_option Suc (index_byte c xs))"

fun last_index_byte :: "char \<Rightarrow> string \<Rightarrow> nat option" where
  "last_index_byte c [] = None"
| "last_index_byte c (x # xs) =
     (case last_index_byte c xs of
        Some i \<Rightarrow> Some (Suc i)
      | None \<Rightarrow> if x = c then Some 0 else None)"

lemma has_prefix_append [simp]: "has_prefix (p @ s) p"
  by (simp add: has_prefix_def)

lemma has_prefix_conv: "has_prefix s p \<longleftrightarrow> (\<exists>t. s = p @ t)"
  unfolding has_prefix_def by (metis append_eq_conv_conj append_take_drop_id)

lemma has_suffix_append [simp]: "has_suffix (s @ p) p"
  by (simp add: has_suffix_def)

lemma index_byte_None: "index_byte c s = None \<longleftrightarrow> c \<notin> set s"
  by (induction s) auto

lemma index_byte_append: "c \<notin> set a \<Longrightarrow> index_byte c (a @ c # b) = Some (length a)"
  by (induction a) auto

lemma index_byte_Some:
  "index_byte c s = Some i \<Longrightarrow> s = take i s @ c # drop (Suc i) s \<and> c \<notin> set (take i s) \<and> i < length s"
  by (induction s arbitrary: i) (auto split: if_splits)

lemma last_index_byte_None: "last_index_byte c s = None \<longleftrightarrow> c \<notin> set s"
  by (induction s) (auto split: option.splits)

lemma last_index_byte_append:
  "c \<notin> set b \<Longrightarrow> last_index_byte c (a @ c # b) = Some (length a)"
  by (induction a) (auto simp: last_index_byte_None split: option.splits)

text \<open>\<open>strings.Split(s, c)\<close> for a one-byte separator, and \<open>strings.Join\<close>.\<close>

fun split_on :: "char \<Rightarrow> string \<Rightarrow> string list" where
  "split_on c [] = [[]]"
| "split_on c (x # xs) =
     (if x = c then [] # split_on c xs
      else case split_on c xs of [] \<Rightarrow> [[x]] | s # ss \<Rightarrow> (x # s) # ss)"

fun join :: "string \<Rightarrow> string list \<Rightarrow> string" where
  "join sep [] = []"
| "join sep [s] = s"
| "join sep (s # t # ss) = s @ sep @ join sep (t # ss)"

lemma split_on_nonempty [simp]: "split_on c s \<noteq> []"
  by (induction s) (auto split: list.splits)

lemma split_on_no_sep: "t \<in> set (split_on c s) \<Longrightarrow> c \<notin> set t"
proof (induction s arbitrary: t)
  case (Cons x xs)
  then show ?case
    by (cases "split_on c xs") (auto split: if_splits)
qed simp

lemma join_split_on: "join [c] (split_on c s) = s"
proof (induction s)
  case (Cons x xs)
  obtain t ts where "split_on c xs = t # ts" by (cases "split_on c xs") auto
  with Cons show ?case by (cases ts) auto
qed simp

lemma split_on_no: "c \<notin> set s \<Longrightarrow> split_on c s = [s]"
  by (induction s) auto

lemma split_on_append: "c \<notin> set s \<Longrightarrow> split_on c (s @ c # r) = s # split_on c r"
  by (induction s) auto

lemma split_on_join:
  "ss \<noteq> [] \<Longrightarrow> (\<And>s. s \<in> set ss \<Longrightarrow> c \<notin> set s) \<Longrightarrow> split_on c (join [c] ss) = ss"
  by (induction "[c]" ss rule: join.induct) (auto simp: split_on_no split_on_append)

lemma join_Cons: "ss \<noteq> [] \<Longrightarrow> join sep (s # ss) = s @ sep @ join sep ss"
  by (cases ss) auto

lemma set_join: "set (join sep ss) \<subseteq> set sep \<union> \<Union> (set ` set ss)"
  by (induction sep ss rule: join.induct) auto

text \<open>\<open>strings.ToUpper\<close>, \<open>strings.ToLower\<close>, \<open>strings.EqualFold\<close>, \<open>strings.TrimSpace\<close>.\<close>

definition byte_val :: "char \<Rightarrow> nat" where "byte_val c = of_char c"

definition is_lower :: "char \<Rightarrow> bool" where "is_lower c \<longleftrightarrow> CHR ''a'' \<le> c \<and> c \<le> CHR ''z''"
definition is_upper :: "char \<Rightarrow> bool" where "is_upper c \<longleftrightarrow> CHR ''A'' \<le> c \<and> c \<le> CHR ''Z''"
definition is_digit :: "char \<Rightarrow> bool" where "is_digit c \<longleftrightarrow> CHR ''0'' \<le> c \<and> c \<le> CHR ''9''"

definition up_char :: "char \<Rightarrow> char" where
  "up_char c = (if is_lower c then char_of (byte_val c - 32) else c)"

definition low_char :: "char \<Rightarrow> char" where
  "low_char c = (if is_upper c then char_of (byte_val c + 32) else c)"

definition to_upper :: "string \<Rightarrow> string" where "to_upper s = map up_char s"
definition to_lower :: "string \<Rightarrow> string" where "to_lower s = map low_char s"
definition equal_fold :: "string \<Rightarrow> string \<Rightarrow> bool" where
  "equal_fold a b \<longleftrightarrow> to_lower a = to_lower b"

definition is_space :: "char \<Rightarrow> bool" where
  "is_space c \<longleftrightarrow> c \<in> {CHR 0x09, CHR 0x0A, CHR 0x0B, CHR 0x0C, CHR 0x0D, CHR '' ''}"

definition trim_space :: "string \<Rightarrow> string" where
  "trim_space s = rev (dropWhile is_space (rev (dropWhile is_space s)))"

text \<open>\<open>strings.Trim(s, cutset)\<close> for a one-byte cutset.\<close>

definition trim_char :: "char \<Rightarrow> string \<Rightarrow> string" where
  "trim_char c s = rev (dropWhile ((=) c) (rev (dropWhile ((=) c) s)))"

section \<open>Decimal numbers\<close>

definition digit_char :: "nat \<Rightarrow> char" where "digit_char d = char_of (48 + d)"
definition digit_val :: "char \<Rightarrow> nat" where "digit_val c = byte_val c - 48"

text \<open>\<open>strconv.FormatInt(i, 10)\<close>, \<open>fmt\<close>'s \<open>%d\<close>.\<close>

fun dec :: "nat \<Rightarrow> string" where
  "dec n = (if n < 10 then [digit_char n] else dec (n div 10) @ [digit_char (n mod 10)])"

declare dec.simps [simp del]

definition itoa :: "int \<Rightarrow> string" where
  "itoa i = (if i < 0 then CHR ''-'' # dec (nat (- i)) else dec (nat i))"

text \<open>\<open>strconv.ParseInt(s, 10, 64)\<close>: an optional sign, at least one digit, in range.\<close>

fun parse_digits :: "nat \<Rightarrow> string \<Rightarrow> nat option" where
  "parse_digits acc [] = Some acc"
| "parse_digits acc (c # cs) =
     (if is_digit c then parse_digits (10 * acc + digit_val c) cs else None)"

definition parse_nat :: "string \<Rightarrow> nat option" where
  "parse_nat s = (if s = [] then None else parse_digits 0 s)"

definition parse_int64 :: "string \<Rightarrow> int option" where
  "parse_int64 s =
     (let neg = has_prefix s ''-''; t = (if neg \<or> has_prefix s ''+'' then drop 1 s else s)
      in case parse_nat t of
           None \<Rightarrow> None
         | Some n \<Rightarrow>
             (let i = (if neg then - int n else int n)
              in if - (2 ^ 63) \<le> i \<and> i < 2 ^ 63 then Some i else None))"

lemma is_digit_of_char: "is_digit c \<longleftrightarrow> 48 \<le> byte_val c \<and> byte_val c \<le> 57"
  by (simp add: is_digit_def byte_val_def less_eq_char_def)

lemma digit_char_val:
  assumes "d < 10"
  shows "byte_val (digit_char d) = 48 + d"
  using assms by (simp add: byte_val_def digit_char_def)

lemma digit_char_props [simp]:
  "d < 10 \<Longrightarrow> is_digit (digit_char d)" "d < 10 \<Longrightarrow> digit_val (digit_char d) = d"
  by (simp_all add: is_digit_of_char digit_val_def digit_char_val)

lemma dec_nonempty [simp]: "dec n \<noteq> []"
  by (subst dec.simps) simp

lemma dec_digits: "c \<in> set (dec n) \<Longrightarrow> is_digit c"
proof (induction n rule: dec.induct)
  case (1 n)
  show ?case
  proof (cases "n < 10")
    case True
    with "1.prems" show ?thesis by (subst (asm) dec.simps) simp
  next
    case False
    with "1.prems" have "c \<in> set (dec (n div 10)) \<or> c = digit_char (n mod 10)"
      by (subst (asm) dec.simps) auto
    with "1.IH" [OF False] show ?thesis by auto
  qed
qed

lemma parse_digits_append:
  "parse_digits acc (s @ t) =
     (case parse_digits acc s of None \<Rightarrow> None | Some a \<Rightarrow> parse_digits a t)"
  by (induction s arbitrary: acc) auto

lemma parse_digits_dec: "parse_digits 0 (dec n) = Some n"
proof (induction n rule: dec.induct)
  case (1 n)
  show ?case
  proof (cases "n < 10")
    case True
    then show ?thesis by (subst dec.simps) simp
  next
    case False
    with "1.IH" show ?thesis
      by (subst dec.simps) (simp add: parse_digits_append)
  qed
qed

lemma parse_nat_dec [simp]: "parse_nat (dec n) = Some n"
  by (simp add: parse_nat_def parse_digits_dec)

lemma dec_inj: "dec m = dec n \<Longrightarrow> m = n"
  using parse_digits_dec by (metis option.inject)

lemma dec_hd_not_sign: "dec n \<noteq> CHR ''-'' # s" "dec n \<noteq> CHR ''+'' # s"
  using dec_digits [of "hd (dec n)" n] by (auto simp: is_digit_def less_eq_char_def)

lemma parse_int64_itoa:
  assumes "- (2 ^ 63) \<le> i" and "i < 2 ^ 63"
  shows "parse_int64 (itoa i) = Some i"
proof (cases "i < 0")
  case True
  with assms show ?thesis
    by (simp add: parse_int64_def itoa_def has_prefix_def Let_def)
next
  case False
  have "\<not> has_prefix (dec (nat i)) ''-''" "\<not> has_prefix (dec (nat i)) ''+''"
    using dec_hd_not_sign by (auto simp: has_prefix_conv)
  with False assms show ?thesis
    by (simp add: parse_int64_def itoa_def Let_def)
qed

section \<open>Signed 64-bit integers\<close>

text \<open>The value of a Go \<open>int64\<close> expression whose exact value is \<open>i\<close>.\<close>

definition wrap64 :: "int \<Rightarrow> int" where
  "wrap64 i = (i + 2 ^ 63) mod 2 ^ 64 - 2 ^ 63"

lemma wrap64_id [simp]: "- (2 ^ 63) \<le> i \<Longrightarrow> i < 2 ^ 63 \<Longrightarrow> wrap64 i = i"
  by (simp add: wrap64_def)

section \<open>Lists\<close>

lemma sorted_wrt_filter [intro]: "sorted_wrt P xs \<Longrightarrow> sorted_wrt P (filter Q xs)"
  by (induction xs) auto

lemma sort_key_take_set: "set (take n (sort_key f xs)) \<subseteq> set xs"
  by (metis set_sort set_take_subset)

lemmas go_eval = nl_def tab_def quot_def has_prefix_def has_suffix_def up_char_def low_char_def
  to_upper_def to_lower_def equal_fold_def is_space_def is_lower_def is_upper_def trim_space_def
  trim_char_def byte_val_def less_eq_char_def

end
