(* ===== verification/Dedup_Records.thy ===== *)
theory Dedup_Records
  imports Go_Prelude
begin

text \<open>
  \<open>dedup.go\<close>: the read-time deduplication.  The two compaction loops are modelled as they
  run, on an array (a list updated by index) that they read and overwrite at once; they are
  proved equal to pure list functions, and \<open>sortAndDedup\<close> as a whole to a specification
  that does not sort: one record per entity in entity order, the newest one, the later input
  record on a tie.
\<close>

section \<open>The loops on the array\<close>

text \<open>The \<open>for _, r := range records\<close> loop of \<open>dedupLatest\<close>; the state is the array, the
  write index \<open>n\<close>, and \<open>(prevEntity, pending)\<close> once \<open>first\<close> is false.\<close>

fun dedupLatest_loop ::
  "('a \<Rightarrow> string) \<Rightarrow> nat list \<Rightarrow> 'a list \<Rightarrow> nat \<Rightarrow> (string \<times> 'a) option
   \<Rightarrow> 'a list \<times> nat \<times> (string \<times> 'a) option" where
  "dedupLatest_loop ek [] rs n st = (rs, n, st)"
| "dedupLatest_loop ek (i # is) rs n st =
     (let r = rs ! i; e = ek r in
      case st of
        None \<Rightarrow> dedupLatest_loop ek is rs n (Some (e, r))
      | Some (prevEntity, pending) \<Rightarrow>
          if e \<noteq> prevEntity
          then dedupLatest_loop ek is (rs[n := pending]) (Suc n) (Some (e, r))
          else dedupLatest_loop ek is rs n (Some (e, r)))"

definition dedupLatest :: "('a \<Rightarrow> string) \<Rightarrow> 'a list \<Rightarrow> 'a list" where
  "dedupLatest ek records =
     (if records = [] then records
      else case dedupLatest_loop ek [0..<length records] records 0 None of
             (rs, n, None) \<Rightarrow> take (Suc n) rs
           | (rs, n, Some (_, pending)) \<Rightarrow> take (Suc n) (rs[n := pending]))"

text \<open>The loop of \<open>dedupReplicas\<close>; \<open>prev\<close> is \<open>(prevEntity, prevVersion)\<close>.\<close>

fun dedupReplicas_loop ::
  "('a \<Rightarrow> string) \<Rightarrow> ('a \<Rightarrow> int) \<Rightarrow> nat list \<Rightarrow> 'a list \<Rightarrow> nat \<Rightarrow> (string \<times> int) option
   \<Rightarrow> 'a list \<times> nat" where
  "dedupReplicas_loop ek vo [] rs n prev = (rs, n)"
| "dedupReplicas_loop ek vo (i # is) rs n prev =
     (let r = rs ! i; k = (ek r, vo r) in
      if prev = Some k then dedupReplicas_loop ek vo is rs n prev
      else dedupReplicas_loop ek vo is (rs[n := r]) (Suc n) (Some k))"

definition dedupReplicas :: "('a \<Rightarrow> string) \<Rightarrow> ('a \<Rightarrow> int) \<Rightarrow> 'a list \<Rightarrow> 'a list" where
  "dedupReplicas ek vo records =
     (if records = [] then records
      else case dedupReplicas_loop ek vo [0..<length records] records 0 None of
             (rs, n) \<Rightarrow> take n rs)"

definition sortAndDedup ::
  "'a list \<Rightarrow> ('a \<Rightarrow> string) option \<Rightarrow> ('a \<Rightarrow> int) option \<Rightarrow> bool \<Rightarrow> 'a list" where
  "sortAndDedup records entityKey versionOf includeHistory =
     (case (entityKey, versionOf) of
        (Some ek, Some vo) \<Rightarrow>
          (let sorted_rs = sort_key (\<lambda>r. (ek r, vo r)) records
           in if includeHistory then dedupReplicas ek vo sorted_rs
              else dedupLatest ek sorted_rs)
      | _ \<Rightarrow> records)"

section \<open>The loops as list functions\<close>

fun latest_ref :: "('a \<Rightarrow> 'k) \<Rightarrow> 'a list \<Rightarrow> 'a list" where
  "latest_ref ek [] = []"
| "latest_ref ek [r] = [r]"
| "latest_ref ek (r # s # rs) =
     (if ek r = ek s then latest_ref ek (s # rs) else r # latest_ref ek (s # rs))"

fun replicas_ref :: "('a \<Rightarrow> 'k) \<Rightarrow> 'k option \<Rightarrow> 'a list \<Rightarrow> 'a list" where
  "replicas_ref k prev [] = []"
| "replicas_ref k prev (r # rs) =
     (if prev = Some (k r) then replicas_ref k prev rs
      else r # replicas_ref k (Some (k r)) rs)"

lemma upt_Cons: "i < j \<Longrightarrow> [i..<j] = i # [Suc i..<j]"
  by (rule upt_conv_Cons)

text \<open>The write index stays behind the read index, so a write never clobbers unread input.\<close>

lemma dedupLatest_loop_ref:
  "n < i \<Longrightarrow> i \<le> length rs \<Longrightarrow>
   \<exists>rs' n' q. dedupLatest_loop ek [i..<length rs] rs n (Some (ek p, p)) = (rs', n', Some (ek q, q))
     \<and> n' < length rs' \<and> take n' rs' @ [q] = take n rs @ latest_ref ek (p # drop i rs)"
proof (induction "length rs - i" arbitrary: i n p rs)
  case 0
  then show ?case by auto
next
  case (Suc k)
  then have i: "i < length rs" and k: "k = length rs - Suc i" by auto
  let ?r = "rs ! i"
  have d: "drop i rs = ?r # drop (Suc i) rs" using i by (simp add: Cons_nth_drop_Suc)
  show ?case
  proof (cases "ek ?r = ek p")
    case True
    then show ?thesis
      using Suc.hyps(1) [of rs "Suc i" n ?r] k i Suc.prems
      by (simp add: upt_Cons Let_def d)
  next
    case False
    let ?rs = "rs[n := p]"
    have "take (Suc n) ?rs = take n rs @ [p]" "drop (Suc i) ?rs = drop (Suc i) rs"
      using Suc.prems i by (simp_all add: take_Suc_conv_app_nth)
    with False show ?thesis
      using Suc.hyps(1) [of ?rs "Suc i" "Suc n" ?r] k i Suc.prems
      by (simp add: upt_Cons Let_def d)
  qed
qed

lemma dedupLatest_ref: "dedupLatest ek rs = latest_ref ek rs"
proof (cases rs)
  case (Cons r rest)
  have "\<exists>rs' n' q. dedupLatest_loop ek [1..<length rs] rs 0 (Some (ek r, r)) = (rs', n', Some (ek q, q))
     \<and> n' < length rs' \<and> take n' rs' @ [q] = latest_ref ek (r # drop 1 rs)"
    using dedupLatest_loop_ref [of 0 1 rs ek r] Cons by simp
  then obtain rs' n' q where
    l: "dedupLatest_loop ek [1..<length rs] rs 0 (Some (ek r, r)) = (rs', n', Some (ek q, q))"
      "n' < length rs'" "take n' rs' @ [q] = latest_ref ek rs"
    using Cons by auto
  have "[0..<length rs] = 0 # [1..<length rs]" "rs ! 0 = r" "rs \<noteq> []"
    using Cons by (simp_all add: upt_rec)
  with l show ?thesis
    by (simp add: dedupLatest_def Let_def take_Suc_conv_app_nth)
qed (simp add: dedupLatest_def)

lemma dedupReplicas_loop_ref:
  "n \<le> i \<Longrightarrow> i \<le> length rs \<Longrightarrow>
   \<exists>rs' n'. dedupReplicas_loop ek vo [i..<length rs] rs n prev = (rs', n')
     \<and> take n' rs' = take n rs @ replicas_ref (\<lambda>r. (ek r, vo r)) prev (drop i rs)"
proof (induction "length rs - i" arbitrary: i n prev rs)
  case 0
  then show ?case by auto
next
  case (Suc k)
  then have i: "i < length rs" and k: "k = length rs - Suc i" by auto
  let ?r = "rs ! i" and ?rs = "rs[n := rs ! i]"
  have d: "drop i rs = ?r # drop (Suc i) rs" using i by (simp add: Cons_nth_drop_Suc)
  have w: "take (Suc n) ?rs = take n rs @ [?r]" "drop (Suc i) ?rs = drop (Suc i) rs"
    using Suc.prems i by (simp_all add: take_Suc_conv_app_nth)
  show ?case
    using Suc.hyps(1) [of rs "Suc i" n prev] Suc.hyps(1) [of ?rs "Suc i" "Suc n" "Some (ek ?r, vo ?r)"]
      k i Suc.prems w
    by (cases "prev = Some (ek ?r, vo ?r)") (simp_all add: upt_Cons Let_def d)
qed

lemma dedupReplicas_ref: "dedupReplicas ek vo rs = replicas_ref (\<lambda>r. (ek r, vo r)) None rs"
proof -
  obtain rs' n' where "dedupReplicas_loop ek vo [0..<length rs] rs 0 None = (rs', n')"
    "take n' rs' = replicas_ref (\<lambda>r. (ek r, vo r)) None rs"
    using dedupReplicas_loop_ref [of 0 0 rs ek vo None] by auto
  then show ?thesis by (simp add: dedupReplicas_def)
qed

section \<open>What the sorted scan selects\<close>

text \<open>The specification: the newest record of an entity, the later one in input order on a tie.\<close>

definition newer :: "('a \<Rightarrow> int) \<Rightarrow> 'a \<Rightarrow> 'a option \<Rightarrow> 'a option" where
  "newer vo r acc = (case acc of None \<Rightarrow> Some r | Some a \<Rightarrow> if vo a \<le> vo r then Some r else Some a)"

definition latest_of :: "('a \<Rightarrow> string) \<Rightarrow> ('a \<Rightarrow> int) \<Rightarrow> 'a list \<Rightarrow> string \<Rightarrow> 'a" where
  "latest_of ek vo rs e = the (fold (newer vo) (filter (\<lambda>r. ek r = e) rs) None)"

lemma fold_newer_Some:
  "fold (newer vo) xs (Some a) =
     (case fold (newer vo) xs None of None \<Rightarrow> Some a
      | Some b \<Rightarrow> if vo a \<le> vo b then Some b else Some a)"
proof (induction xs arbitrary: a)
  case (Cons x xs)
  show ?case
    using Cons [of x] Cons [of a] by (auto simp: newer_def split: option.splits)
qed simp

lemma last_insort:
  "sorted (map f ys) \<Longrightarrow> last (insort_key f x ys) =
     (if ys = [] \<or> f (last ys) < f x then x else last ys)"
proof (induction ys)
  case (Cons y ys)
  then have "ys \<noteq> [] \<longrightarrow> \<not> (f x \<le> f y \<and> f (last ys) < f x)"
    by (metis last_in_set leD order_trans sorted_simps(2) list.simps(9) image_eqI set_map)
  with Cons show ?case by (cases "ys = []") auto
qed simp

lemma last_sort_newer:
  "xs \<noteq> [] \<Longrightarrow> fold (newer vo) xs None = Some (last (sort_key vo xs))"
proof (induction xs)
  case (Cons x xs)
  show ?case
  proof (cases "xs = []")
    case False
    with Cons have "fold (newer vo) xs None = Some (last (sort_key vo xs))" by simp
    moreover have "newer vo x None = Some x" by (simp add: newer_def)
    moreover have "sort_key vo xs \<noteq> []" using False by (metis set_empty set_sort)
    ultimately show ?thesis
      by (auto simp: fold_newer_Some last_insort)
  qed (simp add: newer_def)
qed simp

lemma sort_key_same_fst:
  "(\<And>r. r \<in> set xs \<Longrightarrow> f r = e) \<Longrightarrow> sort_key (\<lambda>r. (f r, g r)) xs = sort_key g xs"
proof (induction xs)
  case (Cons x xs)
  have "insort_key (\<lambda>r. (f r, g r)) x ys = insort_key g x ys" if "\<And>y. y \<in> set ys \<Longrightarrow> f y = e" for ys
    using that Cons.prems by (induction ys) auto
  from this [of "sort_key g xs"] Cons.prems
  have "insort_key (\<lambda>r. (f r, g r)) x (sort_key g xs) = insort_key g x (sort_key g xs)"
    by (metis set_sort list.set_intros(2))
  moreover have "sort_key (\<lambda>r. (f r, g r)) xs = sort_key g xs" using Cons by simp
  ultimately show ?case by simp
qed simp

lemma latest_ref_groups:
  fixes ek :: "'a \<Rightarrow> 'k::linorder"
  shows "sorted (map ek xs) \<Longrightarrow>
    latest_ref ek xs = map (\<lambda>e. last (filter (\<lambda>r. ek r = e) xs)) (remdups_adj (map ek xs))"
proof (induction ek xs rule: latest_ref.induct)
  case (3 ek r s rs)
  let ?g = "\<lambda>xs e. last (filter (\<lambda>r. ek r = e) xs)"
  have s: "\<And>e. e \<in> set (remdups_adj (map ek (s # rs))) \<Longrightarrow> filter (\<lambda>r. ek r = e) (s # rs) \<noteq> []"
    by (auto simp: filter_empty_conv)
  show ?case
  proof (cases "ek r = ek s")
    case True
    have "?g (r # s # rs) e = ?g (s # rs) e" if "e \<in> set (remdups_adj (map ek (s # rs)))" for e
      using s [OF that] by auto
    with True 3 show ?thesis by (simp cong: map_cong)
  next
    case False
    have ne: "\<forall>x \<in> set (s # rs). ek x \<noteq> ek r"
      using 3(3) False by fastforce
    then have r: "filter (\<lambda>x. ek x = ek r) (s # rs) = []"
      by (metis (mono_tags, lifting) filter_False)
    have "?g (r # s # rs) e = ?g (s # rs) e" if "e \<in> set (remdups_adj (map ek (s # rs)))" for e
      using that ne by (auto simp del: filter.simps(2)) (auto)
    then have "map (?g (r # s # rs)) (remdups_adj (map ek (s # rs)))
        = map (?g (s # rs)) (remdups_adj (map ek (s # rs)))" by (rule map_cong [OF refl])
    with False 3 r show ?thesis by simp
  qed
qed auto

lemma remdups_adj_sorted_distinct:
  "sorted xs \<Longrightarrow> distinct (remdups_adj xs)" for xs :: "'k::linorder list"
  by (induction xs rule: remdups_adj.induct) fastforce+

lemma remdups_adj_sorted: "sorted xs \<Longrightarrow> remdups_adj xs = sorted_list_of_set (set xs)"
  for xs :: "'k::linorder list"
  using sorted_list_of_set.idem_if_sorted_distinct [of "remdups_adj xs"]
  by (simp add: sorted_remdups_adj remdups_adj_sorted_distinct)

lemma sorted_map_fst: "sorted (map (\<lambda>r. (f r, g r)) xs) \<Longrightarrow> sorted (map f xs)"
  by (induction xs) (auto simp: less_eq_prod_def intro: less_imp_le)

text \<open>C13.  With both keys configured and no history, deduplication returns one record per
  entity, in entity order: the record with the greatest version, the later one in the input
  (the lex-later file) when several share it.  The in-place loop and the sort are gone from
  the specification.\<close>

theorem sortAndDedup_latest:
  "sortAndDedup rs (Some ek) (Some vo) False =
     map (latest_of ek vo rs) (sorted_list_of_set (ek ` set rs))"
proof -
  let ?k = "\<lambda>r. (ek r, vo r)" and ?s = "sort_key (\<lambda>r. (ek r, vo r)) rs"
  have srt: "sorted (map ek ?s)" by (rule sorted_map_fst [of ek vo]) simp
  have sel: "last (filter (\<lambda>r. ek r = e) ?s) = latest_of ek vo rs e" if "e \<in> ek ` set rs" for e
  proof -
    let ?f = "filter (\<lambda>r. ek r = e) rs"
    have "?f \<noteq> []" using that by (auto simp: filter_empty_conv)
    moreover have "filter (\<lambda>r. ek r = e) ?s = sort_key vo ?f"
      using sort_key_same_fst [of ?f ek e vo] by (simp add: filter_sort)
    ultimately show ?thesis by (simp add: latest_of_def last_sort_newer del: sort_key_def)
  qed
  have "sortAndDedup rs (Some ek) (Some vo) False = latest_ref ek ?s"
    by (simp add: sortAndDedup_def Let_def dedupLatest_ref)
  also have "\<dots> = map (\<lambda>e. last (filter (\<lambda>r. ek r = e) ?s)) (sorted_list_of_set (ek ` set rs))"
    by (simp add: latest_ref_groups [OF srt] remdups_adj_sorted [OF srt])
  also have "\<dots> = map (latest_of ek vo rs) (sorted_list_of_set (ek ` set rs))"
    using sel by simp
  finally show ?thesis .
qed

lemma find_filter_hd: "find P xs = (case filter P xs of [] \<Rightarrow> None | x # _ \<Rightarrow> Some x)"
  by (induction xs) auto

lemma remdups_adj_hd_tl: "remdups_adj (x # xs) = x # tl (remdups_adj (x # xs))"
  by (metis list.collapse list.sel(3) remdups_adj_Cons_alt)

lemma replicas_ref_tail:
  fixes k :: "'a \<Rightarrow> 'k::linorder"
  shows "sorted (map k (r # rs)) \<Longrightarrow>
    replicas_ref k (Some (k r)) rs =
      map (\<lambda>e. hd (filter (\<lambda>x. k x = e) rs)) (tl (remdups_adj (map k (r # rs))))"
proof (induction rs arbitrary: r)
  case (Cons s ss)
  have srt: "sorted (map k (s # ss))" using Cons.prems by simp
  obtain t where R: "remdups_adj (k s # map k ss) = k s # t"
    using remdups_adj_hd_tl [of "k s" "map k ss"] by metis
  then have "k s \<notin> set t"
    using remdups_adj_sorted_distinct [OF srt] by (metis distinct.simps(2) list.simps(9))
  then have ne: "\<forall>e \<in> set t. k s \<noteq> e" by metis
  have hd_cong: "map (\<lambda>e. hd (filter (\<lambda>x. k x = e) (s # ss))) t
      = map (\<lambda>e. hd (filter (\<lambda>x. k x = e) ss)) t"
    using ne by (intro map_cong) auto
  have IH: "replicas_ref k (Some (k s)) ss = map (\<lambda>e. hd (filter (\<lambda>x. k x = e) ss)) t"
    using Cons.IH [OF srt] R by simp
  show ?case
  proof (cases "k r = k s")
    case True
    then have "tl (remdups_adj (map k (r # s # ss))) = t" using R by simp
    with True IH hd_cong show ?thesis by (simp del: filter.simps)
  next
    case False
    then have "tl (remdups_adj (map k (r # s # ss))) = k s # t" using R by simp
    with False IH hd_cong show ?thesis by simp
  qed
qed simp

lemma replicas_ref_groups:
  fixes k :: "'a \<Rightarrow> 'k::linorder"
  assumes "sorted (map k xs)"
  shows "replicas_ref k None xs = map (\<lambda>e. hd (filter (\<lambda>x. k x = e) xs)) (remdups_adj (map k xs))"
proof (cases xs)
  case (Cons r rs)
  obtain t where R: "remdups_adj (k r # map k rs) = k r # t"
    using remdups_adj_hd_tl [of "k r" "map k rs"] by metis
  then have "k r \<notin> set t"
    using remdups_adj_sorted_distinct [OF assms] Cons by (metis distinct.simps(2) list.simps(9))
  then have ne: "\<forall>e \<in> set t. k r \<noteq> e" by metis
  have "map (\<lambda>e. hd (filter (\<lambda>x. k x = e) (r # rs))) t
      = map (\<lambda>e. hd (filter (\<lambda>x. k x = e) rs)) t"
    using ne by (intro map_cong) auto
  with R Cons replicas_ref_tail [of k r rs] assms show ?thesis by simp
qed simp

text \<open>With history kept, deduplication returns one record per (entity, version) pair, in
  that order: the first such record of the input.\<close>

theorem sortAndDedup_history:
  "sortAndDedup rs (Some ek) (Some vo) True =
     map (\<lambda>k. hd (filter (\<lambda>r. (ek r, vo r) = k) rs)) (sorted_list_of_set ((\<lambda>r. (ek r, vo r)) ` set rs))"
proof -
  let ?k = "\<lambda>r. (ek r, vo r)" and ?s = "sort_key (\<lambda>r. (ek r, vo r)) rs"
  have srt: "sorted (map ?k ?s)" by simp
  have "filter (\<lambda>r. ?k r = e) ?s = filter (\<lambda>r. ?k r = e) rs" for e
    by (rule sort_key_stable)
  moreover have "remdups_adj (map ?k ?s) = sorted_list_of_set (?k ` set rs)"
    using remdups_adj_sorted [OF srt] by simp
  ultimately show ?thesis
    using replicas_ref_groups [OF srt] by (simp add: sortAndDedup_def Let_def dedupReplicas_ref)
qed

end
