(* ===== verification/Catalog_Sql.thy ===== *)
theory Catalog_Sql
  imports Go_Prelude
begin

text \<open>
  \<open>internal/catalog\<close>: the table names (\<open>names.go\<close>), the SQL statements the runtime and the
  tools execute (\<open>sql.go\<close>) and the DDL (\<open>ddl.go\<close>), as the texts the code renders.  The
  column lists are definitions of their own, because the meaning of the statements on the
  tables (theory \<open>Catalog_Db\<close>) is defined over the same lists.  \<open>pgx.Identifier.Sanitize\<close>
  is the parameter \<open>san\<close>; \<open>pgx_sanitize\<close> states what its documentation promises.
\<close>

type_synonym sanitizer = "string list \<Rightarrow> string"

text \<open>Documented behaviour of \<open>pgx.Identifier.Sanitize\<close> on parts without quotes.\<close>

definition pgx_sanitize :: "sanitizer \<Rightarrow> bool" where
  "pgx_sanitize san \<longleftrightarrow>
     (\<forall>parts. (\<forall>p \<in> set parts. CHR 0x22 \<notin> set p \<and> CHR 0x00 \<notin> set p) \<longrightarrow>
        san parts = join ''.'' (map (\<lambda>p. quot @ p @ quot) parts))"

section \<open>names.go\<close>

record names =
  Schema :: string
  Prefix :: string

definition TableFiles :: string where "TableFiles = ''files''"
definition TablePartitions :: string where "TablePartitions = ''partitions''"
definition TablePendingWrites :: string where "TablePendingWrites = ''pending_writes''"
definition TableMVPrefix :: string where "TableMVPrefix = ''mv_''"
definition PartColumnPrefix :: string where "PartColumnPrefix = ''part_''"
definition ExtColumnPrefix :: string where "ExtColumnPrefix = ''ext_''"

definition NewNames :: "string \<Rightarrow> string \<Rightarrow> names" where
  "NewNames schema prefix = \<lparr>Schema = schema, Prefix = prefix\<rparr>"

definition Bare :: "names \<Rightarrow> string \<Rightarrow> string" where
  "Bare n suffix = Prefix n @ suffix"

definition FilesBare :: "names \<Rightarrow> string" where "FilesBare n = Bare n TableFiles"
definition PartitionsBare :: "names \<Rightarrow> string" where "PartitionsBare n = Bare n TablePartitions"
definition PendingWritesBare :: "names \<Rightarrow> string" where
  "PendingWritesBare n = Bare n TablePendingWrites"
definition MVBare :: "names \<Rightarrow> string \<Rightarrow> string" where
  "MVBare n name = Prefix n @ TableMVPrefix @ name"

definition Qualify :: "sanitizer \<Rightarrow> names \<Rightarrow> string \<Rightarrow> string" where
  "Qualify san n table = san [Schema n, table]"

definition Files :: "sanitizer \<Rightarrow> names \<Rightarrow> string" where
  "Files san n = Qualify san n (Prefix n @ TableFiles)"
definition Partitions :: "sanitizer \<Rightarrow> names \<Rightarrow> string" where
  "Partitions san n = Qualify san n (Prefix n @ TablePartitions)"
definition PendingWrites :: "sanitizer \<Rightarrow> names \<Rightarrow> string" where
  "PendingWrites san n = Qualify san n (Prefix n @ TablePendingWrites)"
definition MV :: "sanitizer \<Rightarrow> names \<Rightarrow> string \<Rightarrow> string" where
  "MV san n name = Qualify san n (Prefix n @ TableMVPrefix @ name)"

section \<open>sql.go: column lists\<close>

abbreviation comma_sep :: string where "comma_sep \<equiv> '', ''"

definition part_col :: "string \<Rightarrow> string" where "part_col p = PartColumnPrefix @ p"
definition ext_col :: "string \<Rightarrow> string" where "ext_col e = ExtColumnPrefix @ e"

text \<open>\<open>fmt.Sprintf("$%d", i)\<close>.\<close>

definition placeholder :: "nat \<Rightarrow> string" where "placeholder i = CHR ''$'' # dec i"

definition files_insert_cols :: "string list \<Rightarrow> string list \<Rightarrow> string list" where
  "files_insert_cols parts exts =
     [''partition_key'', ''s3_key'', ''written_at_version'', ''file_size'', ''uncompressed_size'',
      ''record_count'', ''idempotency_token''] @ map part_col parts @ map ext_col exts"

text \<open>The projection of \<open>FilesQuerySQL\<close> and of \<open>IdempotencyLookupSQL\<close>.\<close>

definition file_ref_cols :: "string list \<Rightarrow> string list" where
  "file_ref_cols exts =
     [''file_id'', ''partition_key'', ''s3_key'', ''written_at_version'', ''written_at'',
      ''file_size'', ''uncompressed_size'', ''record_count'', ''feed_seq''] @ map ext_col exts"

text \<open>The projection of \<open>PollFilesSQL\<close>: \<open>feed_seq\<close> is second.\<close>

definition poll_cols :: "string list \<Rightarrow> string list" where
  "poll_cols exts =
     [''file_id'', ''feed_seq'', ''partition_key'', ''s3_key'', ''written_at_version'',
      ''written_at'', ''file_size'', ''uncompressed_size'', ''record_count''] @ map ext_col exts"

definition partition_upsert_cols :: "string list \<Rightarrow> string list" where
  "partition_upsert_cols parts =
     ''partition_key'' # map part_col parts @ [''version'', ''file_count'']"

section \<open>sql.go: statements\<close>

record select_query =
  sq_head :: string
  sq_tail :: string

definition Render :: "select_query \<Rightarrow> string \<Rightarrow> string" where
  "Render q wh = (if wh = [] then sq_head q @ sq_tail q
                  else sq_head q @ '' WHERE '' @ wh @ sq_tail q)"

definition FilesInsertSQL :: "sanitizer \<Rightarrow> names \<Rightarrow> string list \<Rightarrow> string list \<Rightarrow> string" where
  "FilesInsertSQL san n parts exts =
     (let cols = files_insert_cols parts exts;
          placeholders = map (\<lambda>i. placeholder (i + 1)) [0..<length cols]
      in ''INSERT INTO '' @ Files san n @ '' ('' @ join comma_sep cols @ '') VALUES (''
         @ join comma_sep placeholders @ '') RETURNING file_id, written_at'')"

definition FilesQuerySQL :: "sanitizer \<Rightarrow> names \<Rightarrow> string list \<Rightarrow> select_query" where
  "FilesQuerySQL san n exts =
     \<lparr>sq_head = ''SELECT '' @ join comma_sep (file_ref_cols exts) @ '' FROM '' @ Files san n,
      sq_tail = '' ORDER BY partition_key, s3_key''\<rparr>"

definition IdempotencyLookupSQL :: "sanitizer \<Rightarrow> names \<Rightarrow> string list \<Rightarrow> string" where
  "IdempotencyLookupSQL san n exts =
     ''SELECT '' @ join comma_sep (file_ref_cols exts) @ nl @ tab @ tab @ ''FROM '' @ Files san n
     @ nl @ tab @ tab @ ''WHERE partition_key = $1 AND idempotency_token = $2''"

definition PollFilesSQL :: "sanitizer \<Rightarrow> names \<Rightarrow> string list \<Rightarrow> string" where
  "PollFilesSQL san n exts =
     ''SELECT '' @ join comma_sep (poll_cols exts) @ '' FROM '' @ Files san n
     @ nl @ tab @ tab @ ''WHERE feed_seq IS NOT NULL''
     @ nl @ tab @ tab @ ''  AND feed_seq >= $1 AND feed_seq < $2''
     @ nl @ tab @ tab @ ''ORDER BY feed_seq''"

definition OffsetLatestSQL :: "sanitizer \<Rightarrow> names \<Rightarrow> string" where
  "OffsetLatestSQL san n =
     ''SELECT COALESCE(MAX(feed_seq), 0) FROM '' @ Files san n
     @ nl @ tab @ tab @ ''WHERE feed_seq IS NOT NULL''"

definition OffsetAtSQL :: "sanitizer \<Rightarrow> names \<Rightarrow> string" where
  "OffsetAtSQL san n =
     ''SELECT MIN(feed_seq) FROM '' @ Files san n
     @ nl @ tab @ tab @ ''WHERE feed_seq IS NOT NULL AND feed_seq_at >= $1''"

definition PollLagSQL :: "sanitizer \<Rightarrow> names \<Rightarrow> string" where
  "PollLagSQL san n =
     ''SELECT EXTRACT(EPOCH FROM (now() - feed_seq_at))''
     @ nl @ tab @ tab @ ''FROM '' @ Files san n @ '' WHERE feed_seq IS NOT NULL''
     @ nl @ tab @ tab @ ''ORDER BY feed_seq DESC LIMIT 1''"

definition PartitionUpsertSQL :: "sanitizer \<Rightarrow> names \<Rightarrow> string list \<Rightarrow> bool \<Rightarrow> string" where
  "PartitionUpsertSQL san n parts expectVersionZero =
     (let cols = partition_upsert_cols parts;
          placeholders = map (\<lambda>i. placeholder (i + 1)) [0..<length cols - 2] @ [''1'', ''1''];
          conflict = ''ON CONFLICT (partition_key) DO UPDATE SET'' @ nl
            @ ''        version = '' @ Partitions san n @ ''.version + 1,'' @ nl
            @ ''        file_count = '' @ Partitions san n @ ''.file_count + 1,'' @ nl
            @ ''        updated_at = now()''
            @ (if expectVersionZero then '' WHERE '' @ Partitions san n @ ''.version = 0'' else [])
      in ''INSERT INTO '' @ Partitions san n @ '' ('' @ join comma_sep cols @ '') VALUES (''
         @ join comma_sep placeholders @ '')'' @ nl @ conflict @ nl @ ''RETURNING version'')"

definition PartitionUpdateOCCSQL :: "sanitizer \<Rightarrow> names \<Rightarrow> string" where
  "PartitionUpdateOCCSQL san n =
     ''UPDATE '' @ Partitions san n @ '' SET'' @ nl
     @ ''        version = version + 1,'' @ nl
     @ ''        file_count = file_count + 1,'' @ nl
     @ ''        updated_at = now()'' @ nl
     @ ''        WHERE partition_key = $1 AND version = $2'' @ nl
     @ ''        RETURNING version''"

definition PendingWriteInsertSQL :: "sanitizer \<Rightarrow> names \<Rightarrow> string" where
  "PendingWriteInsertSQL san n = ''INSERT INTO '' @ PendingWrites san n @ '' (s3_key) VALUES ($1)''"

definition PendingWritesScanSQL :: "sanitizer \<Rightarrow> names \<Rightarrow> string" where
  "PendingWritesScanSQL san n =
     ''SELECT s3_key FROM '' @ PendingWrites san n
     @ nl @ tab @ tab @ ''WHERE intended_at < $1''
     @ nl @ tab @ tab @ ''ORDER BY intended_at''
     @ nl @ tab @ tab @ ''LIMIT $2''"

definition PendingWritesDepthSQL :: "sanitizer \<Rightarrow> names \<Rightarrow> string" where
  "PendingWritesDepthSQL san n = ''SELECT COUNT(*) FROM '' @ PendingWrites san n"

definition PendingWriteDeleteSQL :: "sanitizer \<Rightarrow> names \<Rightarrow> string" where
  "PendingWriteDeleteSQL san n = ''DELETE FROM '' @ PendingWrites san n @ '' WHERE s3_key = $1''"

definition MVInsertSQL :: "sanitizer \<Rightarrow> names \<Rightarrow> string \<Rightarrow> string list \<Rightarrow> string" where
  "MVInsertSQL san n mvName columns =
     (let cols = map (\<lambda>c. san [c]) columns;
          arrParams = map (\<lambda>i. placeholder (i + 1) @ ''::text[]'') [0..<length columns];
          colList = join comma_sep cols
      in ''INSERT INTO '' @ MV san n mvName @ '' ('' @ colList @ '') SELECT * FROM unnest(''
         @ join comma_sep arrParams @ '') ON CONFLICT ('' @ colList @ '') DO NOTHING'')"

definition MVLookupSQL :: "sanitizer \<Rightarrow> names \<Rightarrow> string \<Rightarrow> string list \<Rightarrow> select_query" where
  "MVLookupSQL san n mvName columns =
     (let colList = join comma_sep (map (\<lambda>c. san [c]) columns)
      in \<lparr>sq_head = ''SELECT '' @ colList @ '' FROM '' @ MV san n mvName,
          sq_tail = '' ORDER BY '' @ colList\<rparr>)"

section \<open>ddl.go\<close>

record ddl_ext =
  de_name :: string
  de_type :: string

record ddl_mv =
  dm_name :: string
  dm_columns :: "string list"

record ddl_input =
  Names :: names
  Parts :: "string list"
  Exts :: "ddl_ext list"
  MVs :: "ddl_mv list"

datatype ddl_error = Schema_empty | Prefix_empty | Parts_empty

definition validateDDLInput :: "ddl_input \<Rightarrow> ddl_error + unit" where
  "validateDDLInput di =
     (if Schema (Names di) = [] then Inl Schema_empty
      else if Prefix (Names di) = [] then Inl Prefix_empty
      else if Parts di = [] then Inl Parts_empty
      else Inr ())"

definition renderFiles :: "sanitizer \<Rightarrow> ddl_input \<Rightarrow> string" where
  "renderFiles san di =
     (let files = Files san (Names di); bare = FilesBare (Names di) in
      ''CREATE TABLE IF NOT EXISTS '' @ files @ '' ('' @ nl
      @ ''    file_id              BIGSERIAL PRIMARY KEY,'' @ nl
      @ ''    s3_key               TEXT NOT NULL UNIQUE,'' @ nl
      @ ''    partition_key        TEXT NOT NULL,'' @ nl
      @ concat (map (\<lambda>p. ''    '' @ PartColumnPrefix @ p @ ''            TEXT NOT NULL,'' @ nl) (Parts di))
      @ ''    file_size            BIGINT NOT NULL,'' @ nl
      @ ''    uncompressed_size    BIGINT NOT NULL,'' @ nl
      @ ''    record_count         BIGINT,'' @ nl
      @ ''    written_at_version   BIGINT,'' @ nl
      @ ''    written_at           TIMESTAMPTZ NOT NULL DEFAULT now(),'' @ nl
      @ ''    idempotency_token    TEXT,'' @ nl
      @ ''    feed_seq             BIGINT UNIQUE,'' @ nl
      @ ''    feed_seq_at          TIMESTAMPTZ''
      @ concat (map (\<lambda>e. '','' @ nl @ ''    '' @ ExtColumnPrefix @ de_name e @ ''         ''
                          @ to_upper (de_type e)) (Exts di))
      @ nl @ '');'' @ nl
      @ ''CREATE INDEX IF NOT EXISTS '' @ bare @ ''_partition_written_idx ON '' @ files
        @ '' (partition_key, written_at);'' @ nl
      @ ''CREATE INDEX IF NOT EXISTS '' @ bare @ ''_written_at_idx ON '' @ files
        @ '' (written_at);'' @ nl
      @ ''CREATE INDEX IF NOT EXISTS '' @ bare @ ''_feed_seq_idx ON '' @ files
        @ '' (feed_seq) WHERE feed_seq IS NOT NULL;'' @ nl
      @ ''CREATE INDEX IF NOT EXISTS '' @ bare @ ''_seq_scan_idx ON '' @ files
        @ '' (written_at, file_id) WHERE feed_seq IS NULL;'' @ nl
      @ (if Parts di \<noteq> [] then ''CREATE INDEX IF NOT EXISTS '' @ bare @ ''_part_idx ON '' @ files
          @ '' ('' @ join comma_sep (map part_col (Parts di)) @ '');'' @ nl else [])
      @ ''CREATE UNIQUE INDEX IF NOT EXISTS '' @ bare @ ''_token_idx ON '' @ files
        @ '' (partition_key, idempotency_token) WHERE idempotency_token IS NOT NULL;'' @ nl)"

definition renderPartitions :: "sanitizer \<Rightarrow> ddl_input \<Rightarrow> string" where
  "renderPartitions san di =
     (let parts = Partitions san (Names di) in
      ''CREATE TABLE IF NOT EXISTS '' @ parts @ '' ('' @ nl
      @ ''    partition_key   TEXT PRIMARY KEY,'' @ nl
      @ concat (map (\<lambda>p. ''    '' @ PartColumnPrefix @ p @ ''       TEXT NOT NULL,'' @ nl) (Parts di))
      @ ''    version         BIGINT NOT NULL DEFAULT 0,'' @ nl
      @ ''    file_count      INT NOT NULL DEFAULT 0,'' @ nl
      @ ''    updated_at      TIMESTAMPTZ NOT NULL DEFAULT now()'' @ nl
      @ '');'' @ nl
      @ (if Parts di \<noteq> [] then ''CREATE INDEX IF NOT EXISTS '' @ PartitionsBare (Names di)
          @ ''_part_idx ON '' @ parts @ '' ('' @ join comma_sep (map part_col (Parts di)) @ '');'' @ nl
         else []))"

definition renderPendingWrites :: "sanitizer \<Rightarrow> ddl_input \<Rightarrow> string" where
  "renderPendingWrites san di =
     (let pw = PendingWrites san (Names di) in
      ''CREATE TABLE IF NOT EXISTS '' @ pw @ '' ('' @ nl
      @ ''    s3_key       TEXT PRIMARY KEY,'' @ nl
      @ ''    intended_at  TIMESTAMPTZ NOT NULL DEFAULT now()'' @ nl
      @ '');'' @ nl
      @ ''CREATE INDEX IF NOT EXISTS '' @ PendingWritesBare (Names di) @ ''_intended_idx ON '' @ pw
        @ '' (intended_at);'' @ nl)"

definition renderMV :: "sanitizer \<Rightarrow> names \<Rightarrow> ddl_mv \<Rightarrow> string" where
  "renderMV san n mv =
     (let quoted = map (\<lambda>c. san [c]) (dm_columns mv);
          lines = map (\<lambda>c. ''    '' @ c @ '' TEXT NOT NULL'') quoted
                  @ [''    PRIMARY KEY ('' @ join comma_sep quoted @ '')'']
      in ''CREATE TABLE IF NOT EXISTS '' @ MV san n (dm_name mv) @ '' ('' @ nl
         @ join ('','' @ nl) lines @ nl @ '');'' @ nl)"

definition RenderAll :: "sanitizer \<Rightarrow> ddl_input \<Rightarrow> ddl_error + string" where
  "RenderAll san di =
     (case validateDDLInput di of
        Inl e \<Rightarrow> Inl e
      | Inr _ \<Rightarrow>
          Inr (renderFiles san di @ nl @ renderPartitions san di @ nl @ renderPendingWrites san di
               @ concat (map (\<lambda>mv. nl @ renderMV san (Names di) mv) (MVs di))))"

end
