(* ===== verification/Ext_Metadata.thy ===== *)
theory Ext_Metadata
  imports Go_Prelude "HOL-Library.Multiset"
begin

text \<open>
  \<open>metadata.go\<close> and \<open>metadata_s3.go\<close>: the typed per-file metadata, its validation against
  the declared column types, its serialization into the S3 user-metadata of the object, and the
  parser the catalog rebuild uses (\<open>recoveredFields\<close> of \<open>rebuild.go\<close>).  A Go \<open>any\<close> is a
  value of \<open>govalue\<close>; \<open>time.Time\<close> is an instant in nanoseconds.  The formatting of
  floats and times and the UUID package are parameters, collected in \<open>codecs\<close>.  A Go map is
  an association list without duplicate keys.
\<close>

section \<open>Values\<close>

datatype int_kind = KInt | KInt8 | KInt16 | KInt32 | KInt64 | KUint | KUint8 | KUint16 | KUint32 | KUint64

datatype govalue =
    GNil
  | GString string
  | GUuid "nat list"
  | GBytes16 "nat list"
  | GTime int
  | GInt int_kind int
  | GBool bool
  | GFloat32 nat
  | GFloat64 nat
  | GOther string

text \<open>The values a Go variable of an integer type can hold.\<close>

fun kind_bits :: "int_kind \<Rightarrow> nat" where
  "kind_bits KInt8 = 8" | "kind_bits KInt16 = 16" | "kind_bits KInt32 = 32"
| "kind_bits KUint8 = 8" | "kind_bits KUint16 = 16" | "kind_bits KUint32 = 32"
| "kind_bits _ = 64"

fun kind_signed :: "int_kind \<Rightarrow> bool" where
  "kind_signed k = (k \<in> {KInt, KInt8, KInt16, KInt32, KInt64})"

definition in_kind :: "int_kind \<Rightarrow> int \<Rightarrow> bool" where
  "in_kind k i = (if kind_signed k then - (2 ^ (kind_bits k - 1)) \<le> i \<and> i < 2 ^ (kind_bits k - 1)
                  else 0 \<le> i \<and> i < 2 ^ kind_bits k)"

fun wf_value :: "govalue \<Rightarrow> bool" where
  "wf_value (GInt k i) = in_kind k i"
| "wf_value _ = True"

record ext_column =
  ec_name :: string
  ec_type :: string

type_synonym metadata = "(string \<times> govalue) list"
type_synonym s3_metadata = "(string \<times> string) list"

record codecs =
  fmt_f32 :: "nat \<Rightarrow> string"
  fmt_f64 :: "nat \<Rightarrow> string"
  fmt_time :: "int \<Rightarrow> string"
  parse_time :: "string \<Rightarrow> int option"
  uuid_string :: "nat list \<Rightarrow> string"
  uuid_ok :: "string \<Rightarrow> bool"

text \<open>What the round trips rely on: a formatted time of the years 0 to 9999 (those RFC 3339 can
  write) parses to the same instant, and the canonical form of a UUID is accepted by the UUID
  parser.\<close>

definition rfc3339_range :: "int \<Rightarrow> bool" where
  "rfc3339_range t \<longleftrightarrow> - 62167219200000000000 \<le> t \<and> t < 253402300800000000000"

definition codecs_ok :: "codecs \<Rightarrow> bool" where
  "codecs_ok cd \<longleftrightarrow> (\<forall>t. rfc3339_range t \<longrightarrow> parse_time cd (fmt_time cd t) = Some t)
     \<and> (\<forall>b. uuid_ok cd (uuid_string cd b))"

text \<open>An instance of the parameters: times in decimal nanoseconds, any string a UUID.\<close>

definition parse_decimal :: "string \<Rightarrow> int option" where
  "parse_decimal s = (if has_prefix s ''-'' then map_option (\<lambda>n. - int n) (parse_nat (drop 1 s))
                      else map_option int (parse_nat s))"

definition decimal_codecs :: codecs where
  "decimal_codecs = \<lparr>fmt_f32 = dec, fmt_f64 = dec, fmt_time = itoa, parse_time = parse_decimal,
     uuid_string = (\<lambda>b. concat (map dec b)), uuid_ok = (\<lambda>_. True)\<rparr>"

lemma decimal_codecs_ok: "codecs_ok decimal_codecs"
proof -
  have "parse_decimal (itoa t) = Some t" for t
    using dec_hd_not_sign [of "nat t"]
    by (auto simp: parse_decimal_def itoa_def has_prefix_conv)
  then show ?thesis by (simp add: codecs_ok_def decimal_codecs_def)
qed

text \<open>Assignment to a Go map.\<close>

fun map_put :: "'k \<Rightarrow> 'v \<Rightarrow> ('k \<times> 'v) list \<Rightarrow> ('k \<times> 'v) list" where
  "map_put k v [] = [(k, v)]"
| "map_put k v ((k', v') # m) = (if k' = k then (k, v) # m else (k', v') # map_put k v m)"

lemma map_of_put [simp]: "map_of (map_put k v m) = (map_of m)(k \<mapsto> v)"
  by (induction m) auto

lemma set_put_keys: "fst ` set (map_put k v m) = insert k (fst ` set m)"
  by (induction k v m rule: map_put.induct) auto

lemma distinct_put [simp]: "distinct (map fst m) \<Longrightarrow> distinct (map fst (map_put k v m))"
proof (induction k v m rule: map_put.induct)
  case (2 k v k' v' m)
  then show ?case using set_put_keys [of k v m] by auto
qed simp

section \<open>metadata.go\<close>

datatype md_error = Md_unknown_key string | Md_mismatch string | Md_unrecognized string

definition checkGoTypeMatchesSQL :: "string \<Rightarrow> string \<Rightarrow> govalue \<Rightarrow> md_error + unit" where
  "checkGoTypeMatchesSQL name sqlType v =
     (if v = GNil then Inr ()
      else if sqlType = ''TEXT'' then
        (case v of GString _ \<Rightarrow> Inr () | _ \<Rightarrow> Inl (Md_mismatch name))
      else if sqlType = ''UUID'' then
        (case v of GString _ \<Rightarrow> Inr () | GUuid _ \<Rightarrow> Inr () | GBytes16 _ \<Rightarrow> Inr ()
         | _ \<Rightarrow> Inl (Md_mismatch name))
      else if sqlType = ''TIMESTAMPTZ'' then
        (case v of GTime _ \<Rightarrow> Inr () | _ \<Rightarrow> Inl (Md_mismatch name))
      else if sqlType = ''INT'' \<or> sqlType = ''BIGINT'' then
        (case v of GInt _ _ \<Rightarrow> Inr () | _ \<Rightarrow> Inl (Md_mismatch name))
      else if sqlType = ''BOOLEAN'' then
        (case v of GBool _ \<Rightarrow> Inr () | _ \<Rightarrow> Inl (Md_mismatch name))
      else if sqlType = ''NUMERIC'' then
        (case v of GString _ \<Rightarrow> Inr () | GFloat32 _ \<Rightarrow> Inr () | GFloat64 _ \<Rightarrow> Inr ()
         | GInt _ _ \<Rightarrow> Inr () | _ \<Rightarrow> Inl (Md_mismatch name))
      else Inl (Md_unrecognized sqlType))"

text \<open>The check loop of \<open>validateMetadata\<close> over the map's entries, in iteration order.\<close>

fun validate_entries :: "(string \<rightharpoonup> string) \<Rightarrow> metadata \<Rightarrow> md_error + unit" where
  "validate_entries declared [] = Inr ()"
| "validate_entries declared ((k, v) # m) =
     (case declared k of
        None \<Rightarrow> Inl (Md_unknown_key k)
      | Some sqlType \<Rightarrow>
          (case checkGoTypeMatchesSQL k sqlType v of
             Inl e \<Rightarrow> Inl e
           | Inr _ \<Rightarrow> validate_entries declared m))"

definition declared_types :: "ext_column list \<Rightarrow> string \<rightharpoonup> string" where
  "declared_types cols = map_of (rev (map (\<lambda>c. (ec_name c, to_upper (trim_space (ec_type c)))) cols))"

definition validateMetadata :: "metadata \<Rightarrow> ext_column list \<Rightarrow> md_error + unit" where
  "validateMetadata m cols = (if m = [] then Inr () else validate_entries (declared_types cols) m)"

text \<open>\<open>declaredKeysList\<close>, the list of the message for an unknown key; \<open>keys\<close> are the keys of the map in iteration order.  \<open>sink\<close> is the
  inner loop of its insertion sort, on the slice.\<close>

fun sink :: "string list \<Rightarrow> nat \<Rightarrow> string list" where
  "sink keys 0 = keys"
| "sink keys (Suc j) =
     (if keys ! Suc j < keys ! j then sink (keys[j := keys ! Suc j, Suc j := keys ! j]) j else keys)"

definition declaredKeysList :: "string list \<Rightarrow> string" where
  "declaredKeysList keys =
     (if keys = [] then ''(none)'' else join '', '' (fold (\<lambda>i ks. sink ks i) [1..<length keys] keys))"

lemma sink_insert:
  "sorted ys \<Longrightarrow> \<exists>us. sink (ys @ x # zs) (length ys) = us @ zs \<and> mset us = add_mset x (mset ys) \<and> sorted us"
proof (induction ys arbitrary: zs rule: rev_induct)
  case (snoc y ys)
  have at: "((ys @ [y]) @ x # zs) ! Suc (length ys) = x" "((ys @ [y]) @ x # zs) ! length ys = y"
    by (simp_all add: nth_append)
  show ?case
  proof (cases "x < y")
    case True
    have "((ys @ [y]) @ x # zs)[length ys := x, Suc (length ys) := y] = ys @ x # (y # zs)" by (simp add: list_update_append)
    moreover obtain us where us: "sink (ys @ x # (y # zs)) (length ys) = us @ (y # zs)" "mset us = add_mset x (mset ys)" "sorted us"
      using snoc by (meson sorted_append)
    ultimately have "sink ((ys @ [y]) @ x # zs) (length (ys @ [y])) = (us @ [y]) @ zs" using True at by simp
    moreover have "\<forall>u \<in> set us. u \<le> y"
      using us(2) snoc.prems True by (auto simp: sorted_append simp flip: set_mset_mset)
    ultimately show ?thesis using us(2,3) by (intro exI [of _ "us @ [y]"]) (simp add: sorted_append)
  next
    case False
    then have "sink ((ys @ [y]) @ x # zs) (length (ys @ [y])) = ((ys @ [y]) @ [x]) @ zs" using at by simp
    moreover have "sorted ((ys @ [y]) @ [x])" using False snoc.prems by (auto simp: sorted_append)
    ultimately show ?thesis by (intro exI [of _ "(ys @ [y]) @ [x]"]) simp
  qed
qed simp

lemma sink_sorts: "n < length keys \<Longrightarrow>
   \<exists>us. fold (\<lambda>i ks. sink ks i) [1..<Suc n] keys = us @ drop (Suc n) keys \<and> mset us = mset (take (Suc n) keys) \<and> sorted us"
proof (induction n)
  case 0
  then show ?case by (cases keys) (auto intro: exI [of _ "[hd keys]"])
next
  case (Suc n)
  then obtain us where us: "fold (\<lambda>i ks. sink ks i) [1..<Suc n] keys = us @ drop (Suc n) keys" "mset us = mset (take (Suc n) keys)" "sorted us"
    by auto
  have len: "length us = Suc n" using arg_cong [OF us(2), of size] Suc.prems by simp
  have d: "drop (Suc n) keys = keys ! Suc n # drop (Suc (Suc n)) keys" using Suc.prems by (simp add: Cons_nth_drop_Suc)
  obtain vs where vs: "sink (us @ keys ! Suc n # drop (Suc (Suc n)) keys) (Suc n) = vs @ drop (Suc (Suc n)) keys"
    "mset vs = add_mset (keys ! Suc n) (mset us)" "sorted vs" using sink_insert [OF us(3)] len by metis
  have "[1..<Suc (Suc n)] = [1..<Suc n] @ [Suc n]" by simp
  then have "fold (\<lambda>i ks. sink ks i) [1..<Suc (Suc n)] keys = sink (fold (\<lambda>i ks. sink ks i) [1..<Suc n] keys) (Suc n)"
    by (simp only: fold_append comp_apply fold.simps id_apply)
  then have "fold (\<lambda>i ks. sink ks i) [1..<Suc (Suc n)] keys = vs @ drop (Suc (Suc n)) keys" by (simp only: us(1) d vs(1))
  moreover have "mset vs = mset (take (Suc (Suc n)) keys)"
    using us(2) vs(2) Suc.prems by (simp add: take_Suc_conv_app_nth [of "Suc n"])
  ultimately show ?case using vs(3) by blast
qed

text \<open>The message does not depend on the order in which the map is iterated.\<close>

lemma declaredKeysList_sorted: "keys \<noteq> [] \<Longrightarrow> declaredKeysList keys = join '', '' (sort keys)"
proof -
  assume ne: "keys \<noteq> []"
  then obtain us where us: "fold (\<lambda>i ks. sink ks i) [1..<Suc (length keys - 1)] keys = us @ drop (Suc (length keys - 1)) keys"
    "mset us = mset (take (Suc (length keys - 1)) keys)" "sorted us" using sink_sorts [of "length keys - 1" keys] by auto
  have "Suc (length keys - 1) = length keys" using ne by simp
  with us have "fold (\<lambda>i ks. sink ks i) [1..<length keys] keys = us" "mset us = mset keys" by (simp_all only: drop_all take_all append_Nil2 order_refl)
  with us(3) have "fold (\<lambda>i ks. sink ks i) [1..<length keys] keys = sort keys" using properties_for_sort by metis
  with ne show ?thesis by (simp add: declaredKeysList_def)
qed

lemma declaredKeysList_stable:
  assumes "mset keys = mset keys'"
  shows "declaredKeysList keys = declaredKeysList keys'"
proof (cases "keys = []")
  case False
  then have "keys' \<noteq> []" using assms by auto
  moreover have "sort keys = sort keys'" using assms by (intro properties_for_sort) simp_all
  ultimately show ?thesis using False by (simp add: declaredKeysList_sorted)
qed (use assms in simp)

definition metadataValueFor :: "metadata \<Rightarrow> ext_column \<Rightarrow> govalue" where
  "metadataValueFor m c = (case map_of m (ec_name c) of None \<Rightarrow> GNil | Some v \<Rightarrow> v)"

section \<open>metadata_s3.go\<close>

definition S3MetaToken :: string where "S3MetaToken = ''s3pgstore-token''"
definition S3MetaRecordCount :: string where "S3MetaRecordCount = ''s3pgstore-records''"
definition S3MetaUncompressedSize :: string where "S3MetaUncompressedSize = ''s3pgstore-uncompressed''"
definition S3MetaWrittenAtVersion :: string where "S3MetaWrittenAtVersion = ''s3pgstore-version''"
definition S3MetaExtPrefix :: string where "S3MetaExtPrefix = ''s3pgstore-ext-''"
definition S3MetadataMaxBytes :: nat where "S3MetadataMaxBytes = 2048"

definition normalizeExtType :: "string \<Rightarrow> string" where
  "normalizeExtType t = map up_char (filter (\<lambda>c. c \<noteq> CHR '' '' \<and> c \<noteq> CHR 0x09) t)"

datatype s3md_error =
    Ext_panic \<comment> \<open>the unchecked assertion \<open>v.(string)\<close> of a TEXT column\<close>
  | Ext_expected string
  | Ext_unsupported string
  | Md_too_large nat
  | Md_bad_byte string nat

definition formatExtForS3 :: "codecs \<Rightarrow> ext_column \<Rightarrow> govalue \<Rightarrow> s3md_error + string" where
  "formatExtForS3 cd c v =
     (let T = normalizeExtType (ec_type c); unsupported = Inl (Ext_unsupported (ec_type c)) in
      if T = ''TEXT'' then (case v of GString s \<Rightarrow> Inr s | _ \<Rightarrow> Inl Ext_panic)
      else if T = ''UUID'' then
        (case v of GString s \<Rightarrow> Inr s | GUuid b \<Rightarrow> Inr (uuid_string cd b)
         | GBytes16 b \<Rightarrow> Inr (uuid_string cd b) | _ \<Rightarrow> unsupported)
      else if T = ''TIMESTAMPTZ'' then
        (case v of GTime t \<Rightarrow> Inr (fmt_time cd t) | _ \<Rightarrow> Inl (Ext_expected ''time.Time''))
      else if T = ''INT'' \<or> T = ''BIGINT'' then
        (case v of GInt k i \<Rightarrow> Inr (itoa i) | _ \<Rightarrow> unsupported)
      else if T = ''BOOLEAN'' then
        (case v of GBool b \<Rightarrow> Inr (if b then ''true'' else ''false'')
         | _ \<Rightarrow> Inl (Ext_expected ''bool''))
      else if T = ''NUMERIC'' then
        (case v of GString s \<Rightarrow> Inr s | GFloat32 f \<Rightarrow> Inr (fmt_f32 cd f)
         | GFloat64 f \<Rightarrow> Inr (fmt_f64 cd f) | GInt KInt i \<Rightarrow> Inr (itoa i)
         | GInt KInt64 i \<Rightarrow> Inr (itoa i) | _ \<Rightarrow> unsupported)
      else unsupported)"

datatype parse_error = Bad_uuid | Bad_time | Bad_integer | Bad_boolean string | Bad_type string

definition ParseExtFromS3 :: "codecs \<Rightarrow> ext_column \<Rightarrow> string \<Rightarrow> parse_error + govalue" where
  "ParseExtFromS3 cd c raw =
     (let T = normalizeExtType (ec_type c) in
      if T = ''TEXT'' then Inr (GString raw)
      else if T = ''UUID'' then (if uuid_ok cd raw then Inr (GString raw) else Inl Bad_uuid)
      else if T = ''TIMESTAMPTZ'' then
        (case parse_time cd raw of Some t \<Rightarrow> Inr (GTime t) | None \<Rightarrow> Inl Bad_time)
      else if T = ''INT'' \<or> T = ''BIGINT'' then
        (case parse_int64 raw of Some n \<Rightarrow> Inr (GInt KInt64 n) | None \<Rightarrow> Inl Bad_integer)
      else if T = ''BOOLEAN'' then
        (if raw = ''true'' then Inr (GBool True) else if raw = ''false'' then Inr (GBool False)
         else Inl (Bad_boolean raw))
      else if T = ''NUMERIC'' then Inr (GString raw)
      else Inl (Bad_type (ec_type c)))"

definition s3MetadataSize :: "s3_metadata \<Rightarrow> nat" where
  "s3MetadataSize m = sum_list (map (\<lambda>(k, v). length k + length v) m)"

definition header_byte_ok :: "char \<Rightarrow> bool" where
  "header_byte_ok c \<longleftrightarrow> c = CHR '' '' \<or> c = CHR 0x09 \<or> (0x21 \<le> byte_val c \<and> byte_val c \<le> 0x7E)"

definition validateS3HeaderValue :: "string \<Rightarrow> string \<Rightarrow> s3md_error + unit" where
  "validateS3HeaderValue key v =
     (case find (\<lambda>i. \<not> header_byte_ok (v ! i)) [0..<length v] of
        None \<Rightarrow> Inr ()
      | Some i \<Rightarrow> Inl (Md_bad_byte key i))"

text \<open>The loop of \<open>BuildS3Metadata\<close> over the extension columns.\<close>

fun put_ext_metadata ::
  "codecs \<Rightarrow> metadata \<Rightarrow> ext_column list \<Rightarrow> s3_metadata \<Rightarrow> s3md_error + s3_metadata" where
  "put_ext_metadata cd values [] out = Inr out"
| "put_ext_metadata cd values (c # cs) out =
     (let v = metadataValueFor values c in
      if v = GNil then put_ext_metadata cd values cs out
      else case formatExtForS3 cd c v of
             Inl e \<Rightarrow> Inl e
           | Inr s \<Rightarrow> put_ext_metadata cd values cs (map_put (S3MetaExtPrefix @ ec_name c) s out))"

definition BuildS3Metadata ::
  "codecs \<Rightarrow> string \<Rightarrow> int \<Rightarrow> int \<Rightarrow> int \<Rightarrow> ext_column list \<Rightarrow> metadata \<Rightarrow> s3md_error + s3_metadata" where
  "BuildS3Metadata cd token recordCount uncompressedSize writtenAtVersion exts values =
     (let out0 = (if token \<noteq> [] then [(S3MetaToken, token)] else []);
          out1 = map_put S3MetaRecordCount (itoa recordCount) out0;
          out2 = map_put S3MetaUncompressedSize (itoa uncompressedSize) out1;
          out3 = map_put S3MetaWrittenAtVersion (itoa writtenAtVersion) out2
      in case put_ext_metadata cd values exts out3 of
           Inl e \<Rightarrow> Inl e
         | Inr out \<Rightarrow>
             (let total = s3MetadataSize out in
              if total > S3MetadataMaxBytes then Inl (Md_too_large total)
              else case map_res (\<lambda>(k, v). validateS3HeaderValue k v) out of
                     Inl e \<Rightarrow> Inl e
                   | Inr _ \<Rightarrow> Inr out))"

section \<open>rebuild.go: recoveredFields\<close>

record recovered_fields =
  rf_token :: string
  rf_recordCount :: int
  rf_uncompressedSize :: int
  rf_version :: int
  rf_rawExt :: s3_metadata

text \<open>\<open>if v, ok := md[key]; ok { if n, err := ParseInt(v); err == nil { field = n } }\<close>.\<close>

definition recover_int :: "s3_metadata \<Rightarrow> string \<Rightarrow> int \<Rightarrow> int" where
  "recover_int md key dflt =
     (case map_of md key of
        None \<Rightarrow> dflt
      | Some v \<Rightarrow> (case parse_int64 v of None \<Rightarrow> dflt | Some n \<Rightarrow> n))"

fun recover_raw :: "s3_metadata \<Rightarrow> ext_column list \<Rightarrow> s3_metadata \<Rightarrow> s3_metadata" where
  "recover_raw md [] raw = raw"
| "recover_raw md (c # cs) raw =
     recover_raw md cs (case map_of md (S3MetaExtPrefix @ ec_name c) of
                          None \<Rightarrow> raw
                        | Some v \<Rightarrow> map_put (ec_name c) v raw)"

definition newRecoveredFields :: "s3_metadata \<Rightarrow> ext_column list \<Rightarrow> int \<Rightarrow> recovered_fields" where
  "newRecoveredFields md exts fallbackVersion =
     \<lparr>rf_token = (case map_of md S3MetaToken of None \<Rightarrow> [] | Some v \<Rightarrow> v),
      rf_recordCount = recover_int md S3MetaRecordCount 0,
      rf_uncompressedSize = recover_int md S3MetaUncompressedSize 0,
      rf_version = recover_int md S3MetaWrittenAtVersion fallbackVersion,
      rf_rawExt = recover_raw md exts []\<rparr>"

definition hasFooterFields :: "recovered_fields \<Rightarrow> bool" where
  "hasFooterFields r \<longleftrightarrow> rf_recordCount r > 0 \<and> rf_uncompressedSize r > 0"

fun parse_ext_loop ::
  "codecs \<Rightarrow> s3_metadata \<Rightarrow> ext_column list \<Rightarrow> metadata \<Rightarrow> parse_error + metadata" where
  "parse_ext_loop cd raw [] out = Inr out"
| "parse_ext_loop cd raw (c # cs) out =
     (case map_of raw (ec_name c) of
        None \<Rightarrow> parse_ext_loop cd raw cs out
      | Some r \<Rightarrow>
          (case ParseExtFromS3 cd c r of
             Inl e \<Rightarrow> Inl e
           | Inr v \<Rightarrow> parse_ext_loop cd raw cs (map_put (ec_name c) v out)))"

definition parseExtValues ::
  "codecs \<Rightarrow> recovered_fields \<Rightarrow> ext_column list \<Rightarrow> parse_error + metadata" where
  "parseExtValues cd r exts = parse_ext_loop cd (rf_rawExt r) exts []"

section \<open>Which accepted values the serializer accepts\<close>

lemmas type_dispatch = checkGoTypeMatchesSQL_def formatExtForS3_def ParseExtFromS3_def Let_def

definition numeric_gap :: "string \<Rightarrow> govalue \<Rightarrow> bool" where
  "numeric_gap T v \<longleftrightarrow> T = ''NUMERIC'' \<and> (case v of GInt k _ \<Rightarrow> k \<notin> {KInt, KInt64} | _ \<Rightarrow> False)"

text \<open>The validator takes the type of a column without the white space around it, the serializer without its spaces and tabs.\<close>

definition plain_type :: "string \<Rightarrow> bool" where
  "plain_type t \<longleftrightarrow> list_all (\<lambda>c. is_lower c \<or> is_upper c \<or> c = CHR '' '' \<or> c = CHR 0x09) t"

definition sql_types :: "string list" where
  "sql_types = [''TEXT'', ''UUID'', ''TIMESTAMPTZ'', ''INT'', ''BIGINT'', ''BOOLEAN'', ''NUMERIC'']"

lemma sql_types_upper: "T \<in> set sql_types \<Longrightarrow> c \<in> set T \<Longrightarrow> is_upper c"
proof -
  have "list_all (list_all is_upper) sql_types" by code_simp
  then show "T \<in> set sql_types \<Longrightarrow> c \<in> set T \<Longrightarrow> is_upper c" by (simp add: list_all_iff)
qed

lemma trim_space_split: "\<exists>as bs. s = as @ trim_space s @ bs \<and> list_all is_space (as @ bs)"
proof -
  let ?d = "dropWhile is_space s"
  have "rev ?d = takeWhile is_space (rev ?d) @ dropWhile is_space (rev ?d)" by simp
  then have "?d = rev (dropWhile is_space (rev ?d)) @ rev (takeWhile is_space (rev ?d))" by (metis rev_append rev_rev_ident)
  moreover have "s = takeWhile is_space s @ ?d" by simp
  ultimately have "s = takeWhile is_space s @ trim_space s @ rev (takeWhile is_space (rev ?d))" unfolding trim_space_def by metis
  moreover have "list_all is_space (takeWhile is_space s @ rev (takeWhile is_space (rev ?d)))"
    by (auto simp: list_all_iff dest: set_takeWhileD)
  ultimately show ?thesis by blast
qed

lemma space_no_letter: "is_space c \<Longrightarrow> \<not> is_lower c \<and> \<not> is_upper c"
  by (auto simp: is_space_def is_lower_def is_upper_def less_eq_char_def)

lemma letter_no_blank: "is_lower c \<or> is_upper c \<Longrightarrow> c \<noteq> CHR '' '' \<and> c \<noteq> CHR 0x09"
  using space_no_letter [of c] by (auto simp: is_space_def)

lemma normalize_plain:
  assumes "to_upper (trim_space t) \<in> set sql_types" "plain_type t"
  shows "normalizeExtType t = to_upper (trim_space t)"
proof -
  let ?blank = "\<lambda>c. c \<noteq> CHR '' '' \<and> c \<noteq> CHR 0x09"
  obtain as bs where t: "t = as @ trim_space t @ bs" "list_all is_space (as @ bs)" using trim_space_split by blast
  have "is_lower c \<or> is_upper c" if "c \<in> set (trim_space t)" for c
  proof -
    have "up_char c \<in> set (to_upper (trim_space t))" using that by (simp add: to_upper_def)
    then have "is_upper (up_char c)" by (rule sql_types_upper [OF assms(1)])
    then show ?thesis by (auto simp: up_char_def split: if_splits)
  qed
  then have mid: "filter ?blank (trim_space t) = trim_space t" using letter_no_blank by (simp add: filter_id_conv)
  have "\<not> ?blank c" if "c \<in> set as \<union> set bs" for c
  proof -
    have "is_space c" using t(2) that by (auto simp: list_all_iff)
    moreover have "c \<in> set t" using that by (subst t(1)) auto
    ultimately show ?thesis using assms(2) space_no_letter [of c] by (auto simp: plain_type_def list_all_iff)
  qed
  then have "filter ?blank as = []" "filter ?blank bs = []" by (auto simp: filter_empty_conv)
  then have "filter ?blank t = trim_space t" using mid by (subst t(1)) simp
  then show ?thesis by (simp add: normalizeExtType_def to_upper_def)
qed

lemma normalize_not_plain: "\<not> plain_type t \<Longrightarrow> normalizeExtType t \<notin> set sql_types"
proof
  assume np: "\<not> plain_type t" and T: "normalizeExtType t \<in> set sql_types"
  obtain c where c: "c \<in> set t" "\<not> is_lower c" "\<not> is_upper c" "c \<noteq> CHR '' ''" "c \<noteq> CHR 0x09"
    using np by (auto simp: plain_type_def list_all_iff)
  then have "up_char c \<in> set (normalizeExtType t)" by (auto simp: normalizeExtType_def)
  then show False using sql_types_upper [OF T] c(2,3) by (auto simp: up_char_def)
qed

lemma validate_accepts:
  "validateMetadata m cols = Inr () \<Longrightarrow> map_of m k = Some v \<Longrightarrow> \<exists>T. declared_types cols k = Some T \<and> checkGoTypeMatchesSQL k T v = Inr ()"
proof -
  have "validate_entries d m = Inr () \<Longrightarrow> map_of m k = Some v \<Longrightarrow> \<exists>T. d k = Some T \<and> checkGoTypeMatchesSQL k T v = Inr ()" for d
    by (induction d m rule: validate_entries.induct) (auto split: option.splits sum.splits if_splits)
  then show "validateMetadata m cols = Inr () \<Longrightarrow> map_of m k = Some v \<Longrightarrow> \<exists>T. declared_types cols k = Some T \<and> checkGoTypeMatchesSQL k T v = Inr ()"
    by (auto simp: validateMetadata_def split: if_splits)
qed

lemma declared_type:
  assumes "distinct (map ec_name cols)" "c \<in> set cols"
  shows "declared_types cols (ec_name c) = Some (to_upper (trim_space (ec_type c)))"
proof -
  let ?xs = "rev (map (\<lambda>c. (ec_name c, to_upper (trim_space (ec_type c)))) cols)"
  have "map fst ?xs = rev (map ec_name cols)" by (simp add: rev_map comp_def)
  then have "distinct (map fst ?xs)" using assms(1) by simp
  moreover have "(ec_name c, to_upper (trim_space (ec_type c))) \<in> set ?xs" using assms(2) by auto
  ultimately show ?thesis unfolding declared_types_def by (rule map_of_is_SomeI)
qed

text \<open>C15.  The validator and the S3 serializer agree but for two gaps.  Of metadata that
  \<open>validateMetadata\<close> accepts, a non-nil value is serialized exactly if the declared type of its column consists of ASCII
  letters, spaces and tabs, and not the column is \<open>NUMERIC\<close> and the value of one of the eight sized or unsigned
  integer types that \<open>formatExtForS3\<close> leaves out.  A type with another white space around it, such as
  \<open>TEXT\<close> with a line break, passes the validator, which trims it, and fails in the serializer, which does not.\<close>

theorem format_total_iff:
  assumes "validateMetadata m cols = Inr ()" "distinct (map ec_name cols)" "c \<in> set cols"
    and "metadataValueFor m c = v" "v \<noteq> GNil"
  shows "(\<exists>s. formatExtForS3 cd c v = Inr s)
    \<longleftrightarrow> plain_type (ec_type c) \<and> \<not> numeric_gap (to_upper (trim_space (ec_type c))) v"
proof -
  let ?T = "to_upper (trim_space (ec_type c))"
  have "map_of m (ec_name c) = Some v" using assms(4,5) by (auto simp: metadataValueFor_def split: option.splits)
  then have acc: "checkGoTypeMatchesSQL (ec_name c) ?T v = Inr ()"
    using validate_accepts [OF assms(1)] declared_type [OF assms(2,3)] by fastforce
  then have T: "?T \<in> set sql_types" using assms(5) by (auto simp: checkGoTypeMatchesSQL_def sql_types_def split: if_splits)
  show ?thesis
  proof (cases "plain_type (ec_type c)")
    case True
    note n = normalize_plain [OF T True]
    from T have "?T \<in> {''TEXT'', ''UUID'', ''TIMESTAMPTZ'', ''INT'', ''BIGINT'', ''BOOLEAN'', ''NUMERIC''}" by (simp add: sql_types_def)
    then show ?thesis
      using acc assms(5) n True by (elim insertE emptyE)
        (auto simp: type_dispatch numeric_gap_def split: govalue.splits int_kind.splits)
  next
    case False
    from normalize_not_plain [OF this] show ?thesis using False by (auto simp: formatExtForS3_def sql_types_def Let_def)
  qed
qed

text \<open>Both gaps.\<close>

theorem format_total_iff_witness:
  "\<not> (\<exists>s. formatExtForS3 decimal_codecs \<lparr>ec_name = ''n'', ec_type = ''numeric''\<rparr> (GInt KInt32 7) = Inr s)
   \<and> \<not> (\<exists>s. formatExtForS3 decimal_codecs \<lparr>ec_name = ''n'', ec_type = ''text'' @ [CHR 0x0A]\<rparr> (GString ''x'') = Inr s)
   \<and> (\<exists>s. formatExtForS3 decimal_codecs \<lparr>ec_name = ''n'', ec_type = '' text''\<rparr> (GString ''x'') = Inr s)"
proof -
  let ?n = "\<lparr>ec_name = ''n'', ec_type = ''numeric''\<rparr>" and ?l = "\<lparr>ec_name = ''n'', ec_type = ''text'' @ [CHR 0x0A]\<rparr>"
  let ?t = "\<lparr>ec_name = ''n'', ec_type = '' text''\<rparr>"
  have acc: "validateMetadata [(''n'', GInt KInt32 7)] [?n] = Inr ()" "validateMetadata [(''n'', GString ''x'')] [?l] = Inr ()"
    "validateMetadata [(''n'', GString ''x'')] [?t] = Inr ()" by code_simp+
  have ev: "numeric_gap (to_upper (trim_space ''numeric'')) (GInt KInt32 7)" "\<not> plain_type (''text'' @ [CHR 0x0A])"
    "plain_type '' text''" "\<not> numeric_gap (to_upper (trim_space '' text'')) (GString ''x'')" by code_simp+
  show ?thesis
    using format_total_iff [OF acc(1), of ?n "GInt KInt32 7" decimal_codecs] format_total_iff [OF acc(2), of ?l "GString ''x''" decimal_codecs]
      format_total_iff [OF acc(3), of ?t "GString ''x''" decimal_codecs] ev by (simp add: metadataValueFor_def)
qed

section \<open>Round trip through the S3 metadata\<close>

text \<open>What an accepted value comes back as, and which values come back at all: an integer must fit
  64 signed bits, a UUID given as text must be one, a time must have a four-digit year.\<close>

definition canon :: "codecs \<Rightarrow> ext_column \<Rightarrow> govalue \<Rightarrow> govalue" where
  "canon cd c v =
     (case v of
        GUuid b \<Rightarrow> GString (uuid_string cd b)
      | GBytes16 b \<Rightarrow> GString (uuid_string cd b)
      | GInt k i \<Rightarrow> (if normalizeExtType (ec_type c) = ''NUMERIC'' then GString (itoa i) else GInt KInt64 i)
      | GFloat32 f \<Rightarrow> GString (fmt_f32 cd f)
      | GFloat64 f \<Rightarrow> GString (fmt_f64 cd f)
      | _ \<Rightarrow> v)"

definition recoverable :: "codecs \<Rightarrow> ext_column \<Rightarrow> govalue \<Rightarrow> bool" where
  "recoverable cd c v \<longleftrightarrow>
     (case v of
        GInt k i \<Rightarrow> - (2 ^ 63) \<le> i \<and> i < 2 ^ 63
      | GString s \<Rightarrow> normalizeExtType (ec_type c) \<noteq> ''UUID'' \<or> uuid_ok cd s
      | GTime t \<Rightarrow> rfc3339_range t
      | _ \<Rightarrow> True)"

lemma format_parse:
  assumes "formatExtForS3 cd c v = Inr s" "recoverable cd c v" "codecs_ok cd"
  shows "ParseExtFromS3 cd c s = Inr (canon cd c v)"
proof -
  let ?T = "normalizeExtType (ec_type c)"
  have "?T \<in> {''TEXT'', ''UUID'', ''TIMESTAMPTZ'', ''INT'', ''BIGINT'', ''BOOLEAN'', ''NUMERIC''}"
    using assms(1) by (auto simp: formatExtForS3_def Let_def split: if_splits)
  then show ?thesis
    using assms by (elim insertE emptyE)
      (auto simp: type_dispatch canon_def recoverable_def codecs_ok_def parse_int64_itoa
         split: govalue.splits int_kind.splits if_splits)
qed

lemma put_ext_other:
  "put_ext_metadata cd values cs out = Inr out' \<Longrightarrow> \<not> has_prefix k S3MetaExtPrefix
   \<Longrightarrow> map_of out' k = map_of out k"
proof (induction cs arbitrary: out)
  case (Cons c cs)
  have "k \<noteq> S3MetaExtPrefix @ ec_name c" using Cons.prems(2) by auto
  with Cons show ?case by (auto simp: Let_def split: if_splits sum.splits)
qed simp

lemma put_ext_undeclared:
  "put_ext_metadata cd values cs out = Inr out' \<Longrightarrow> n \<notin> ec_name ` set cs
   \<Longrightarrow> map_of out' (S3MetaExtPrefix @ n) = map_of out (S3MetaExtPrefix @ n)"
  by (induction cs arbitrary: out) (auto simp: Let_def split: if_splits sum.splits)

lemma put_ext_declared:
  assumes "put_ext_metadata cd values cs out = Inr out'" "c \<in> set cs" "distinct (map ec_name cs)"
  shows "if metadataValueFor values c = GNil
         then map_of out' (S3MetaExtPrefix @ ec_name c) = map_of out (S3MetaExtPrefix @ ec_name c)
         else \<exists>s. formatExtForS3 cd c (metadataValueFor values c) = Inr s
                \<and> map_of out' (S3MetaExtPrefix @ ec_name c) = Some s"
  using assms
proof (induction cs arbitrary: out)
  case (Cons d cs)
  show ?case
  proof (cases "c = d")
    case True
    with Cons.prems have "ec_name d \<notin> ec_name ` set cs" by simp
    with True Cons.prems(1) put_ext_undeclared [of cd "values" cs _ out' "ec_name d"] show ?thesis
      by (auto simp: Let_def split: if_splits sum.splits)
  next
    case False
    with Cons.prems have c: "c \<in> set cs" "distinct (map ec_name cs)" "ec_name d \<notin> ec_name ` set cs"
      by auto
    then have "ec_name c \<noteq> ec_name d" by (metis image_eqI)
    from Cons.prems(1) obtain out1 where out1: "put_ext_metadata cd values cs out1 = Inr out'"
      and "out1 = out \<or> (\<exists>s. out1 = map_put (S3MetaExtPrefix @ ec_name d) s out)"
      by (auto simp: Let_def split: if_splits sum.splits)
    then have "map_of out1 (S3MetaExtPrefix @ ec_name c) = map_of out (S3MetaExtPrefix @ ec_name c)"
      using \<open>ec_name c \<noteq> ec_name d\<close> by auto
    with Cons.IH [OF out1 c(1,2)] show ?thesis by simp
  qed
qed simp

lemma recover_raw_lookup:
  "map_of (recover_raw md cs raw) n =
     (if n \<in> ec_name ` set cs
      then (case map_of md (S3MetaExtPrefix @ n) of None \<Rightarrow> map_of raw n | Some v \<Rightarrow> Some v)
      else map_of raw n)"
  by (induction cs arbitrary: raw) (auto split: option.splits)

lemma parse_ext_loop_lookup:
  assumes "\<And>c r. c \<in> set cs \<Longrightarrow> map_of raw (ec_name c) = Some r \<Longrightarrow> ParseExtFromS3 cd c r = Inr (g c)"
    and "distinct (map ec_name cs)"
  shows "\<exists>out'. parse_ext_loop cd raw cs out = Inr out' \<and>
    (\<forall>n. n \<notin> ec_name ` set cs \<longrightarrow> map_of out' n = map_of out n) \<and>
    (\<forall>c \<in> set cs. map_of out' (ec_name c) =
       (if map_of raw (ec_name c) = None then map_of out (ec_name c) else Some (g c)))"
  using assms
proof (induction cs arbitrary: out)
  case (Cons c cs)
  let ?out = "case map_of raw (ec_name c) of None \<Rightarrow> out | Some _ \<Rightarrow> map_put (ec_name c) (g c) out"
  have step: "parse_ext_loop cd raw (c # cs) out = parse_ext_loop cd raw cs ?out"
    using Cons.prems(1) [of c] by (auto split: option.splits)
  obtain out' where IH: "parse_ext_loop cd raw cs ?out = Inr out'"
    "\<And>n. n \<notin> ec_name ` set cs \<Longrightarrow> map_of out' n = map_of ?out n"
    "\<And>d. d \<in> set cs \<Longrightarrow> map_of out' (ec_name d) =
       (if map_of raw (ec_name d) = None then map_of ?out (ec_name d) else Some (g d))"
    using Cons.IH [of ?out] Cons.prems by auto
  have d: "ec_name d \<noteq> ec_name c" if "d \<in> set cs" for d
    using that Cons.prems(2) by (metis distinct.simps(2) image_eqI list.simps(9) list.set_map)
  show ?case
    unfolding step
    using IH Cons.prems(2) d by (intro exI [of _ out']) (auto split: option.splits)
qed simp

lemma build_metadata_inv:
  assumes "BuildS3Metadata cd token rc us ver exts values = Inr md"
  obtains out where "put_ext_metadata cd values exts out = Inr md"
    and "map_of out S3MetaToken = (if token = [] then None else Some token)"
    and "map_of out S3MetaRecordCount = Some (itoa rc)"
    and "map_of out S3MetaUncompressedSize = Some (itoa us)"
    and "map_of out S3MetaWrittenAtVersion = Some (itoa ver)"
    and "\<And>n. map_of out (S3MetaExtPrefix @ n) = None"
    and "s3MetadataSize md \<le> S3MetadataMaxBytes"
proof -
  let ?out = "map_put S3MetaWrittenAtVersion (itoa ver) (map_put S3MetaUncompressedSize (itoa us)
    (map_put S3MetaRecordCount (itoa rc) (if token \<noteq> [] then [(S3MetaToken, token)] else [])))"
  show thesis
    by (rule that [of ?out])
      (use assms in \<open>auto simp: BuildS3Metadata_def Let_def S3MetaToken_def S3MetaRecordCount_def
         S3MetaUncompressedSize_def S3MetaWrittenAtVersion_def S3MetaExtPrefix_def
         split: sum.splits if_splits\<close>)
qed

lemma metadata_recovered:
  assumes "BuildS3Metadata cd token rc us ver exts values = Inr md"
    and "codecs_ok cd" and "distinct (map ec_name exts)"
    and "list_all (\<lambda>i. - (2 ^ 63) \<le> i \<and> i < 2 ^ 63) [rc, us, ver]"
    and "\<And>c. c \<in> set exts \<Longrightarrow> recoverable cd c (metadataValueFor values c)"
  shows "\<exists>raw out. newRecoveredFields md exts fb =
       \<lparr>rf_token = token, rf_recordCount = rc, rf_uncompressedSize = us, rf_version = ver, rf_rawExt = raw\<rparr>
     \<and> parseExtValues cd (newRecoveredFields md exts fb) exts = Inr out
     \<and> (\<forall>c \<in> set exts. map_of out (ec_name c) =
          (if metadataValueFor values c = GNil then None
           else Some (canon cd c (metadataValueFor values c))))"
proof -
  obtain out0 where put: "put_ext_metadata cd values exts out0 = Inr md"
    and lib: "map_of out0 S3MetaToken = (if token = [] then None else Some token)"
      "map_of out0 S3MetaRecordCount = Some (itoa rc)"
      "map_of out0 S3MetaUncompressedSize = Some (itoa us)"
      "map_of out0 S3MetaWrittenAtVersion = Some (itoa ver)"
    and noext: "\<And>n. map_of out0 (S3MetaExtPrefix @ n) = None"
    using build_metadata_inv [OF assms(1)] by metis
  have np: "\<not> has_prefix S3MetaToken S3MetaExtPrefix" "\<not> has_prefix S3MetaRecordCount S3MetaExtPrefix"
    "\<not> has_prefix S3MetaUncompressedSize S3MetaExtPrefix"
    "\<not> has_prefix S3MetaWrittenAtVersion S3MetaExtPrefix"
    by (simp_all add: has_prefix_def S3MetaToken_def S3MetaRecordCount_def S3MetaExtPrefix_def
        S3MetaUncompressedSize_def S3MetaWrittenAtVersion_def)
  note keep = np [THEN put_ext_other [OF put], unfolded lib]
  let ?r = "newRecoveredFields md exts fb"
  have fields: "rf_token ?r = token" "rf_recordCount ?r = rc" "rf_uncompressedSize ?r = us"
    "rf_version ?r = ver"
    using keep assms(4) by (auto simp: newRecoveredFields_def recover_int_def parse_int64_itoa)
  let ?raw = "rf_rawExt ?r"
  have raw: "map_of ?raw (ec_name c) = map_of md (S3MetaExtPrefix @ ec_name c)" if "c \<in> set exts" for c
    using that by (auto simp: newRecoveredFields_def recover_raw_lookup split: option.splits)
  have val: "if metadataValueFor values c = GNil then map_of ?raw (ec_name c) = None
      else \<exists>s. map_of ?raw (ec_name c) = Some s
             \<and> ParseExtFromS3 cd c s = Inr (canon cd c (metadataValueFor values c))"
    if "c \<in> set exts" for c
    using put_ext_declared [OF put that assms(3)] raw [OF that] noext
      format_parse [OF _ assms(5) [OF that] assms(2)] by (auto split: if_splits)
  have parse: "ParseExtFromS3 cd c r = Inr (canon cd c (metadataValueFor values c))"
    if "c \<in> set exts" "map_of ?raw (ec_name c) = Some r" for c r
    using val [OF that(1)] that(2) by (auto split: if_splits)
  obtain out where out: "parseExtValues cd ?r exts = Inr out"
    and look: "\<forall>c \<in> set exts. map_of out (ec_name c) =
       (if map_of ?raw (ec_name c) = None then None else Some (canon cd c (metadataValueFor values c)))"
    using parse_ext_loop_lookup [of exts ?raw cd "\<lambda>c. canon cd c (metadataValueFor values c)" "[]",
        OF parse assms(3)] unfolding parseExtValues_def by auto
  have "map_of out (ec_name c) = (if metadataValueFor values c = GNil then None
          else Some (canon cd c (metadataValueFor values c)))" if "c \<in> set exts" for c
    using val [OF that] bspec [OF look that] by (auto split: if_splits)
  with out fields show ?thesis
    by (intro exI [of _ ?raw] exI [of _ out]) simp
qed

text \<open>C9.  Disaster recovery: from the user-metadata that a successful write attaches to the
  object, the rebuild recovers the token, the counts, the version and, for every declared
  column, the canonical form of the value written, or nothing where nothing was written.\<close>

theorem metadata_roundtrip:
  assumes "BuildS3Metadata cd token rc us ver exts values = Inr md"
    and "codecs_ok cd" and "distinct (map ec_name exts)"
    and "list_all (\<lambda>i. - (2 ^ 63) \<le> i \<and> i < 2 ^ 63) [rc, us, ver]"
    and "\<And>c. c \<in> set exts \<Longrightarrow> recoverable cd c (metadataValueFor values c)"
  shows "\<exists>raw out. newRecoveredFields md exts fb =
       \<lparr>rf_token = token, rf_recordCount = rc, rf_uncompressedSize = us, rf_version = ver, rf_rawExt = raw\<rparr>
     \<and> parseExtValues cd (newRecoveredFields md exts fb) exts = Inr out
     \<and> (\<forall>c \<in> set exts. map_of out (ec_name c) =
          (if metadataValueFor values c = GNil then None
           else Some (canon cd c (metadataValueFor values c))))"
  using assms by (rule metadata_recovered)

theorem metadata_roundtrip_witness:
  "\<exists>out. parseExtValues decimal_codecs
      (newRecoveredFields [(''s3pgstore-token'', ''t''), (''s3pgstore-records'', ''2''),
         (''s3pgstore-uncompressed'', ''10''), (''s3pgstore-version'', ''3''), (''s3pgstore-ext-job'', ''5'')]
         [\<lparr>ec_name = ''job'', ec_type = ''bigint''\<rparr>] 1) [\<lparr>ec_name = ''job'', ec_type = ''bigint''\<rparr>] = Inr out
    \<and> map_of out ''job'' = Some (GInt KInt64 5)"
proof -
  have build: "BuildS3Metadata decimal_codecs ''t'' 2 10 3 [\<lparr>ec_name = ''job'', ec_type = ''bigint''\<rparr>]
      [(''job'', GInt KInt32 5)] =
    Inr [(''s3pgstore-token'', ''t''), (''s3pgstore-records'', ''2''),
         (''s3pgstore-uncompressed'', ''10''), (''s3pgstore-version'', ''3''), (''s3pgstore-ext-job'', ''5'')]"
    by code_simp
  have nt: "normalizeExtType ''bigint'' = ''BIGINT''" by code_simp
  show ?thesis
    using metadata_roundtrip [OF build decimal_codecs_ok, of 1]
    by (auto simp: recoverable_def metadataValueFor_def canon_def nt)
qed

end
