(* ===== verification/Catalog_Db.thy ===== *)
theory Catalog_Db
  imports Catalog_Sql Ext_Metadata
begin

text \<open>
  The catalog tables and what the statements of \<open>sql.go\<close> do to them.  A table is a list of
  rows, in insertion order; a row is a record with one field per column of the DDL
  (\<open>renderFiles\<close>, \<open>renderPartitions\<close>, \<open>renderPendingWrites\<close>), the \<open>part_<n>\<close> and
  \<open>ext_<n>\<close> columns being maps from \<open>n\<close>.  An INSERT assigns its arguments to its column list
  by position, a SELECT projects its column list by position, both through the column lists that
  the statement texts are rendered from, so that a column out of place is a wrong result here
  too.  The UNIQUE constraints of the DDL are checked; \<open>now\<close> is the transaction's
  \<open>now()\<close>.  An error or an empty result is a value.
\<close>

section \<open>Rows and columns\<close>

datatype sqlval = Null | BigInt int | TextV string | TimeV int | ExtV govalue

record file_row =
  f_file_id :: int
  f_s3_key :: string
  f_partition_key :: string
  f_part :: "string \<Rightarrow> string option"
  f_file_size :: int
  f_uncompressed_size :: int
  f_record_count :: "int option"
  f_written_at_version :: "int option"
  f_written_at :: int
  f_token :: "string option"
  f_feed_seq :: "int option"
  f_feed_seq_at :: "int option"
  f_ext :: "string \<Rightarrow> govalue"

record part_row =
  p_partition_key :: string
  p_part :: "string \<Rightarrow> string option"
  p_version :: int
  p_file_count :: int
  p_updated_at :: int

record pending_row =
  w_s3_key :: string
  w_intended_at :: int

record catalog =
  c_files :: "file_row list"
  c_partitions :: "part_row list"
  c_pending :: "pending_row list"
  c_mv :: "string \<Rightarrow> string list list"
  c_next_id :: int

fun opt_int :: "int option \<Rightarrow> sqlval" where
  "opt_int None = Null" | "opt_int (Some i) = BigInt i"

fun opt_time :: "int option \<Rightarrow> sqlval" where
  "opt_time None = Null" | "opt_time (Some i) = TimeV i"

fun opt_text :: "string option \<Rightarrow> sqlval" where
  "opt_text None = Null" | "opt_text (Some s) = TextV s"

fun ext_sql :: "govalue \<Rightarrow> sqlval" where
  "ext_sql GNil = Null" | "ext_sql v = ExtV v"

text \<open>The value of a column of the files table, by name.\<close>

definition file_col :: "string \<Rightarrow> file_row \<Rightarrow> sqlval" where
  "file_col c r =
     (if c = ''file_id'' then BigInt (f_file_id r)
      else if c = ''s3_key'' then TextV (f_s3_key r)
      else if c = ''partition_key'' then TextV (f_partition_key r)
      else if c = ''file_size'' then BigInt (f_file_size r)
      else if c = ''uncompressed_size'' then BigInt (f_uncompressed_size r)
      else if c = ''record_count'' then opt_int (f_record_count r)
      else if c = ''written_at_version'' then opt_int (f_written_at_version r)
      else if c = ''written_at'' then TimeV (f_written_at r)
      else if c = ''idempotency_token'' then opt_text (f_token r)
      else if c = ''feed_seq'' then opt_int (f_feed_seq r)
      else if c = ''feed_seq_at'' then opt_time (f_feed_seq_at r)
      else if has_prefix c PartColumnPrefix then opt_text (f_part r (drop 5 c))
      else if has_prefix c ExtColumnPrefix then ext_sql (f_ext r (drop 4 c))
      else Null)"

text \<open>Assignment of a value to a column: \<open>None\<close> when the type or a NOT NULL constraint forbids
  it, or there is no such column.\<close>

definition set_file_col :: "string \<Rightarrow> sqlval \<Rightarrow> file_row \<Rightarrow> file_row option" where
  "set_file_col c v r =
     (if c = ''s3_key'' then (case v of TextV s \<Rightarrow> Some (r\<lparr>f_s3_key := s\<rparr>) | _ \<Rightarrow> None)
      else if c = ''partition_key'' then
        (case v of TextV s \<Rightarrow> Some (r\<lparr>f_partition_key := s\<rparr>) | _ \<Rightarrow> None)
      else if c = ''file_size'' then
        (case v of BigInt i \<Rightarrow> Some (r\<lparr>f_file_size := i\<rparr>) | _ \<Rightarrow> None)
      else if c = ''uncompressed_size'' then
        (case v of BigInt i \<Rightarrow> Some (r\<lparr>f_uncompressed_size := i\<rparr>) | _ \<Rightarrow> None)
      else if c = ''record_count'' then
        (case v of BigInt i \<Rightarrow> Some (r\<lparr>f_record_count := Some i\<rparr>)
         | Null \<Rightarrow> Some (r\<lparr>f_record_count := None\<rparr>) | _ \<Rightarrow> None)
      else if c = ''written_at_version'' then
        (case v of BigInt i \<Rightarrow> Some (r\<lparr>f_written_at_version := Some i\<rparr>)
         | Null \<Rightarrow> Some (r\<lparr>f_written_at_version := None\<rparr>) | _ \<Rightarrow> None)
      else if c = ''written_at'' then (case v of TimeV t \<Rightarrow> Some (r\<lparr>f_written_at := t\<rparr>) | _ \<Rightarrow> None)
      else if c = ''idempotency_token'' then
        (case v of TextV s \<Rightarrow> Some (r\<lparr>f_token := Some s\<rparr>)
         | Null \<Rightarrow> Some (r\<lparr>f_token := None\<rparr>) | _ \<Rightarrow> None)
      else if has_prefix c PartColumnPrefix then
        (case v of TextV s \<Rightarrow> Some (r\<lparr>f_part := (f_part r)(drop 5 c := Some s)\<rparr>) | _ \<Rightarrow> None)
      else if has_prefix c ExtColumnPrefix then
        (case v of ExtV x \<Rightarrow> Some (r\<lparr>f_ext := (f_ext r)(drop 4 c := x)\<rparr>)
         | Null \<Rightarrow> Some (r\<lparr>f_ext := (f_ext r)(drop 4 c := GNil)\<rparr>) | _ \<Rightarrow> None)
      else None)"

fun assign_cols :: "string list \<Rightarrow> sqlval list \<Rightarrow> file_row \<Rightarrow> file_row option" where
  "assign_cols [] [] r = Some r"
| "assign_cols (c # cs) (v # vs) r =
     (case set_file_col c v r of None \<Rightarrow> None | Some r' \<Rightarrow> assign_cols cs vs r')"
| "assign_cols _ _ r = None"

section \<open>Statements on the files table\<close>

datatype sql_error =
    Unique_violation string
  | Bad_argument
  | Server_error string

text \<open>A COMMIT takes effect, fails, or takes effect while its confirmation is lost.\<close>

datatype commit_outcome = Commit_ok | Commit_failed string | Commit_lost string

text \<open>A fresh row: BIGSERIAL and DEFAULT columns filled in, the others NULL.\<close>

definition blank_file :: "int \<Rightarrow> int \<Rightarrow> file_row" where
  "blank_file fid now =
     \<lparr>f_file_id = fid, f_s3_key = [], f_partition_key = [], f_part = (\<lambda>_. None), f_file_size = 0,
      f_uncompressed_size = 0, f_record_count = None, f_written_at_version = None,
      f_written_at = now, f_token = None, f_feed_seq = None, f_feed_seq_at = None, f_ext = (\<lambda>_. GNil)\<rparr>"

definition token_clash :: "file_row \<Rightarrow> file_row \<Rightarrow> bool" where
  "token_clash r s \<longleftrightarrow> f_partition_key r = f_partition_key s \<and> f_token r = f_token s \<and> f_token r \<noteq> None"

text \<open>\<open>INSERT INTO files (cols) VALUES (args) RETURNING file_id, written_at\<close>.  The sequence
  behind \<open>file_id\<close> advances even when a constraint fails.\<close>

definition sql_files_insert ::
  "int \<Rightarrow> string list \<Rightarrow> sqlval list \<Rightarrow> catalog \<Rightarrow> (sql_error + int \<times> int) \<times> catalog" where
  "sql_files_insert now cols args db =
     (let db' = db\<lparr>c_next_id := c_next_id db + 1\<rparr> in
      case assign_cols cols args (blank_file (c_next_id db) now) of
        None \<Rightarrow> (Inl Bad_argument, db)
      | Some r \<Rightarrow>
          if \<exists>s \<in> set (c_files db). f_s3_key s = f_s3_key r then (Inl (Unique_violation ''s3_key''), db')
          else if \<exists>s \<in> set (c_files db). token_clash r s then (Inl (Unique_violation ''token''), db')
          else (Inr (f_file_id r, f_written_at r), db'\<lparr>c_files := c_files db @ [r]\<rparr>))"

definition project :: "string list \<Rightarrow> file_row \<Rightarrow> sqlval list" where
  "project cols r = map (\<lambda>c. file_col c r) cols"

definition sql_files_query :: "string list \<Rightarrow> (file_row \<Rightarrow> bool) \<Rightarrow> catalog \<Rightarrow> sqlval list list" where
  "sql_files_query exts wh db =
     map (project (file_ref_cols exts))
       (sort_key (\<lambda>r. (f_partition_key r, f_s3_key r)) (filter wh (c_files db)))"

definition sql_idempotency_lookup :: "string list \<Rightarrow> string \<Rightarrow> string \<Rightarrow> catalog \<Rightarrow> sqlval list list" where
  "sql_idempotency_lookup exts key token db =
     map (project (file_ref_cols exts))
       (filter (\<lambda>r. f_partition_key r = key \<and> f_token r = Some token) (c_files db))"

text \<open>The window condition of \<open>PollFilesSQL\<close>; a NULL \<open>feed_seq\<close> fails it.\<close>

definition in_window :: "int \<Rightarrow> int \<Rightarrow> file_row \<Rightarrow> bool" where
  "in_window since until r \<longleftrightarrow>
     (case f_feed_seq r of None \<Rightarrow> False | Some s \<Rightarrow> since \<le> s \<and> s < until)"

definition feed_key :: "file_row \<Rightarrow> int" where
  "feed_key r = (case f_feed_seq r of None \<Rightarrow> 0 | Some s \<Rightarrow> s)"

definition sql_poll_files :: "string list \<Rightarrow> int \<Rightarrow> int \<Rightarrow> catalog \<Rightarrow> sqlval list list" where
  "sql_poll_files exts since until db =
     map (project (poll_cols exts)) (sort_key feed_key (filter (in_window since until) (c_files db)))"

definition sequenced :: "file_row list \<Rightarrow> int list" where
  "sequenced rows = map the (filter (\<lambda>s. s \<noteq> None) (map f_feed_seq rows))"

definition sql_offset_latest :: "catalog \<Rightarrow> int" where
  "sql_offset_latest db =
     (case sequenced (c_files db) of [] \<Rightarrow> 0 | s # ss \<Rightarrow> fold max ss s)"

definition sql_offset_at :: "int \<Rightarrow> catalog \<Rightarrow> int option" where
  "sql_offset_at t db =
     (case sequenced (filter (\<lambda>r. case f_feed_seq_at r of None \<Rightarrow> False | Some a \<Rightarrow> a \<ge> t) (c_files db)) of
        [] \<Rightarrow> None
      | s # ss \<Rightarrow> Some (fold min ss s))"

section \<open>Statements on the partitions table\<close>

definition part_find :: "string \<Rightarrow> part_row list \<Rightarrow> part_row option" where
  "part_find key rows = find (\<lambda>p. p_partition_key p = key) rows"

definition bump_part :: "int \<Rightarrow> part_row \<Rightarrow> part_row" where
  "bump_part now p = p\<lparr>p_version := p_version p + 1, p_file_count := p_file_count p + 1, p_updated_at := now\<rparr>"

definition part_update :: "string \<Rightarrow> (part_row \<Rightarrow> part_row) \<Rightarrow> part_row list \<Rightarrow> part_row list" where
  "part_update key f rows = map (\<lambda>p. if p_partition_key p = key then f p else p) rows"

text \<open>\<open>PartitionUpsertSQL\<close>: the inserted row, or the conflict branch, which the
  \<open>version = 0\<close> condition may keep from updating; then no row is returned.\<close>

definition sql_partition_upsert ::
  "int \<Rightarrow> bool \<Rightarrow> string list \<Rightarrow> string \<Rightarrow> string list \<Rightarrow> catalog \<Rightarrow> int option \<times> catalog" where
  "sql_partition_upsert now expectVersionZero parts key vals db =
     (case part_find key (c_partitions db) of
        None \<Rightarrow>
          (Some 1, db\<lparr>c_partitions := c_partitions db @
             [\<lparr>p_partition_key = key, p_part = map_of (zip parts vals), p_version = 1,
               p_file_count = 1, p_updated_at = now\<rparr>]\<rparr>)
      | Some p \<Rightarrow>
          if expectVersionZero \<and> p_version p \<noteq> 0 then (None, db)
          else (Some (p_version p + 1),
                db\<lparr>c_partitions := part_update key (bump_part now) (c_partitions db)\<rparr>))"

definition sql_partition_update_occ :: "int \<Rightarrow> string \<Rightarrow> int \<Rightarrow> catalog \<Rightarrow> int option \<times> catalog" where
  "sql_partition_update_occ now key expected db =
     (case part_find key (c_partitions db) of
        None \<Rightarrow> (None, db)
      | Some p \<Rightarrow>
          if p_version p \<noteq> expected then (None, db)
          else (Some (p_version p + 1),
                db\<lparr>c_partitions := part_update key (bump_part now) (c_partitions db)\<rparr>))"

section \<open>Statements on the orphan-tracking table and on a materialized view\<close>

definition sql_pending_insert :: "int \<Rightarrow> string \<Rightarrow> catalog \<Rightarrow> sql_error + catalog" where
  "sql_pending_insert now key db =
     (if \<exists>w \<in> set (c_pending db). w_s3_key w = key then Inl (Unique_violation ''pending_s3_key'')
      else Inr (db\<lparr>c_pending := c_pending db @ [\<lparr>w_s3_key = key, w_intended_at = now\<rparr>]\<rparr>))"

definition sql_pending_delete :: "string \<Rightarrow> catalog \<Rightarrow> catalog" where
  "sql_pending_delete key db = db\<lparr>c_pending := filter (\<lambda>w. w_s3_key w \<noteq> key) (c_pending db)\<rparr>"

definition sql_pending_scan :: "int \<Rightarrow> nat \<Rightarrow> catalog \<Rightarrow> string list" where
  "sql_pending_scan cutoff limit db =
     map w_s3_key (take limit (sort_key w_intended_at
       (filter (\<lambda>w. w_intended_at w < cutoff) (c_pending db))))"

text \<open>\<open>MVInsertSQL\<close>: the column arrays unnested into tuples; a tuple already in the table, or
  earlier in the statement, is skipped.\<close>

fun mv_add :: "string list list \<Rightarrow> string list list \<Rightarrow> string list list" where
  "mv_add rows [] = rows"
| "mv_add rows (t # ts) = mv_add (if t \<in> set rows then rows else rows @ [t]) ts"

definition unnest :: "string list list \<Rightarrow> string list list" where
  "unnest arrays = map (\<lambda>i. map (\<lambda>a. a ! i) arrays) [0..<(case arrays of [] \<Rightarrow> 0 | a # _ \<Rightarrow> length a)]"

definition sql_mv_insert :: "string \<Rightarrow> string list list \<Rightarrow> catalog \<Rightarrow> catalog" where
  "sql_mv_insert name arrays db =
     db\<lparr>c_mv := (c_mv db)(name := mv_add (c_mv db name) (unnest arrays))\<rparr>"

section \<open>FileRef and the row scans\<close>

record file_ref =
  FileID :: int
  PartitionKey :: string
  S3Key :: string
  Version :: int
  WrittenAt :: int
  RecordCount :: int
  FileSize :: int
  UncompressedSize :: int
  Extensions :: metadata
  Offset :: int

datatype scan_error = Scan_type nat | Scan_arity

fun scan_int :: "nat \<Rightarrow> sqlval \<Rightarrow> scan_error + int" where
  "scan_int _ (BigInt i) = Inr i" | "scan_int n _ = Inl (Scan_type n)"

fun scan_text :: "nat \<Rightarrow> sqlval \<Rightarrow> scan_error + string" where
  "scan_text _ (TextV s) = Inr s" | "scan_text n _ = Inl (Scan_type n)"

fun scan_time :: "nat \<Rightarrow> sqlval \<Rightarrow> scan_error + int" where
  "scan_time _ (TimeV t) = Inr t" | "scan_time n _ = Inl (Scan_type n)"

text \<open>A nullable column scanned into a pointer.\<close>

fun scan_int_ptr :: "nat \<Rightarrow> sqlval \<Rightarrow> scan_error + int option" where
  "scan_int_ptr _ (BigInt i) = Inr (Some i)" | "scan_int_ptr _ Null = Inr None"
| "scan_int_ptr n _ = Inl (Scan_type n)"

fun scan_any :: "sqlval \<Rightarrow> govalue" where
  "scan_any Null = GNil" | "scan_any (ExtV v) = v" | "scan_any (BigInt i) = GInt KInt64 i"
| "scan_any (TextV s) = GString s" | "scan_any (TimeV t) = GTime t"

text \<open>\<open>for i, c := range ExtensionColumns { if extValues[i] != nil { Extensions[c.Name] = ... } }\<close>.\<close>

fun scan_exts :: "string list \<Rightarrow> sqlval list \<Rightarrow> metadata \<Rightarrow> metadata" where
  "scan_exts (n # ns) (v # vs) m =
     scan_exts ns vs (if scan_any v \<noteq> GNil then map_put n (scan_any v) m else m)"
| "scan_exts _ _ m = m"

definition OffsetNone :: int where "OffsetNone = 0"
definition OffsetEarliest :: int where "OffsetEarliest = 1"

text \<open>The scan of a row projected by \<open>file_ref_cols\<close> (\<open>lookupTokenFileRef\<close>,
  \<open>queryFileRows\<close>).\<close>

definition scan_file_ref :: "string list \<Rightarrow> sqlval list \<Rightarrow> scan_error + file_ref" where
  "scan_file_ref exts row =
     (case row of
        vid # vkey # vs3 # vver # vat # vfs # vus # vrc # vseq # vexts \<Rightarrow>
          if length vexts \<noteq> length exts then Inl Scan_arity
          else and_then (scan_int 0 vid) (\<lambda>fid. and_then (scan_text 1 vkey) (\<lambda>key.
               and_then (scan_text 2 vs3) (\<lambda>s3. and_then (scan_int 3 vver) (\<lambda>ver.
               and_then (scan_time 4 vat) (\<lambda>at. and_then (scan_int 5 vfs) (\<lambda>fs.
               and_then (scan_int 6 vus) (\<lambda>us. and_then (scan_int 7 vrc) (\<lambda>rc.
               and_then (scan_int_ptr 8 vseq) (\<lambda>feedSeq.
                 Inr \<lparr>FileID = fid, PartitionKey = key, S3Key = s3, Version = ver, WrittenAt = at,
                      RecordCount = rc, FileSize = fs, UncompressedSize = us,
                      Extensions = scan_exts exts vexts [],
                      Offset = (case feedSeq of None \<Rightarrow> OffsetNone | Some s \<Rightarrow> s)\<rparr>)))))))))
      | _ \<Rightarrow> Inl Scan_arity)"

text \<open>The scan of a row projected by \<open>poll_cols\<close> (\<open>poll.go\<close>).\<close>

definition scan_poll_ref :: "string list \<Rightarrow> sqlval list \<Rightarrow> scan_error + file_ref" where
  "scan_poll_ref exts row =
     (case row of
        vid # vseq # vkey # vs3 # vver # vat # vfs # vus # vrc # vexts \<Rightarrow>
          if length vexts \<noteq> length exts then Inl Scan_arity
          else and_then (scan_int 0 vid) (\<lambda>fid. and_then (scan_int 1 vseq) (\<lambda>seq.
               and_then (scan_text 2 vkey) (\<lambda>key. and_then (scan_text 3 vs3) (\<lambda>s3.
               and_then (scan_int 4 vver) (\<lambda>ver. and_then (scan_time 5 vat) (\<lambda>at.
               and_then (scan_int 6 vfs) (\<lambda>fs. and_then (scan_int 7 vus) (\<lambda>us.
               and_then (scan_int 8 vrc) (\<lambda>rc.
                 Inr \<lparr>FileID = fid, PartitionKey = key, S3Key = s3, Version = ver, WrittenAt = at,
                      RecordCount = rc, FileSize = fs, UncompressedSize = us,
                      Extensions = scan_exts exts vexts [], Offset = seq\<rparr>)))))))))
      | _ \<Rightarrow> Inl Scan_arity)"

section \<open>Rows through the statements\<close>

lemma file_col_part [simp]: "file_col (part_col p) r = opt_text (f_part r p)"
  by (simp add: file_col_def part_col_def PartColumnPrefix_def has_prefix_def)

lemma file_col_ext [simp]: "file_col (ext_col e) r = ext_sql (f_ext r e)"
  by (simp add: file_col_def ext_col_def PartColumnPrefix_def ExtColumnPrefix_def has_prefix_def)

lemma set_file_col_part [simp]:
  "set_file_col (part_col p) (TextV s) r = Some (r\<lparr>f_part := (f_part r)(p := Some s)\<rparr>)"
  by (simp add: set_file_col_def part_col_def PartColumnPrefix_def has_prefix_def)

lemma set_file_col_ext [simp]:
  "set_file_col (ext_col e) (ext_sql v) r = Some (r\<lparr>f_ext := (f_ext r)(e := v)\<rparr>)"
  by (cases v) (simp_all add: set_file_col_def ext_col_def PartColumnPrefix_def ExtColumnPrefix_def has_prefix_def)

lemma assign_parts:
  "distinct ps \<Longrightarrow> length vs = length ps \<Longrightarrow>
   assign_cols (map part_col ps @ cs) (map TextV vs @ rest) r =
     assign_cols cs rest (r\<lparr>f_part := f_part r ++ map_of (zip ps vs)\<rparr>)"
proof (induction ps arbitrary: vs r)
  case (Cons p ps)
  then obtain v vs' where vs: "vs = v # vs'" by (cases vs) auto
  have "p \<notin> dom (map_of (zip ps vs'))" using Cons.prems(1) by (auto dest: map_of_SomeD set_zip_leftD)
  then have eq: "(f_part r)(p \<mapsto> v) ++ map_of (zip ps vs') = f_part r ++ map_of (zip (p # ps) vs)"
    by (auto simp: vs map_add_def fun_eq_iff domIff split: option.splits)
  have "assign_cols (map part_col (p # ps) @ cs) (map TextV vs @ rest) r =
      assign_cols cs rest (r\<lparr>f_part := (f_part r)(p \<mapsto> v) ++ map_of (zip ps vs')\<rparr>)"
    using Cons.IH [of vs' "r\<lparr>f_part := (f_part r)(p \<mapsto> v)\<rparr>"] Cons.prems vs by (simp add: fun_upd_def del: map_add_upd)
  then show ?case by (simp only: eq)
qed simp

lemma assign_exts:
  "distinct es \<Longrightarrow>
   assign_cols (map ext_col es) (map (\<lambda>e. ext_sql (g e)) es) r =
     Some (r\<lparr>f_ext := (\<lambda>e. if e \<in> set es then g e else f_ext r e)\<rparr>)"
proof (induction es arbitrary: r)
  case (Cons e es)
  then show ?case by (auto simp: fun_eq_iff intro!: arg_cong [of _ _ "\<lambda>x. f_ext_update x r"])
qed (simp add: fun_eq_iff)

text \<open>The FileRef a row denotes: NULL extension columns are absent.\<close>

definition ext_map :: "string list \<Rightarrow> file_row \<Rightarrow> metadata" where
  "ext_map exts r = map (\<lambda>e. (e, f_ext r e)) (filter (\<lambda>e. f_ext r e \<noteq> GNil) exts)"

definition ref_of :: "string list \<Rightarrow> file_row \<Rightarrow> file_ref" where
  "ref_of exts r =
     \<lparr>FileID = f_file_id r, PartitionKey = f_partition_key r, S3Key = f_s3_key r,
      Version = the (f_written_at_version r), WrittenAt = f_written_at r, RecordCount = the (f_record_count r),
      FileSize = f_file_size r, UncompressedSize = f_uncompressed_size r, Extensions = ext_map exts r,
      Offset = (case f_feed_seq r of None \<Rightarrow> OffsetNone | Some s \<Rightarrow> s)\<rparr>"

definition row_complete :: "file_row \<Rightarrow> bool" where
  "row_complete r \<longleftrightarrow> f_written_at_version r \<noteq> None \<and> f_record_count r \<noteq> None"

lemma map_put_new: "k \<notin> fst ` set m \<Longrightarrow> map_put k v m = m @ [(k, v)]"
  by (induction m) auto

lemma scan_any_ext [simp]: "scan_any (ext_sql v) = v"
  by (cases v) auto

lemma scan_exts_map:
  "distinct exts \<Longrightarrow> fst ` set m \<inter> set exts = {} \<Longrightarrow>
   scan_exts exts (map (\<lambda>e. ext_sql (f_ext r e)) exts) m = m @ ext_map exts r"
proof (induction exts arbitrary: m)
  case (Cons e es)
  then show ?case by (auto simp: ext_map_def map_put_new)
qed (simp add: ext_map_def)

lemma scan_project:
  assumes "distinct exts" "row_complete r"
  shows "scan_file_ref exts (project (file_ref_cols exts) r) = Inr (ref_of exts r)"
proof -
  have "map (\<lambda>c. file_col c r) (map ext_col exts) = map (\<lambda>e. ext_sql (f_ext r e)) exts" by simp
  moreover obtain v rc where "f_written_at_version r = Some v" "f_record_count r = Some rc"
    using assms(2) by (auto simp: row_complete_def)
  moreover have "scan_int_ptr 8 (opt_int (f_feed_seq r)) = Inr (f_feed_seq r)"
    by (cases "f_feed_seq r") auto
  ultimately show ?thesis
    using scan_exts_map [OF assms(1), of "[]" r]
    by (simp add: scan_file_ref_def project_def file_ref_cols_def ref_of_def file_col_def [of "''file_id''"]
        file_col_def [of "''s3_key''"] file_col_def [of "''partition_key''"] file_col_def [of "''file_size''"]
        file_col_def [of "''uncompressed_size''"] file_col_def [of "''record_count''"]
        file_col_def [of "''written_at_version''"] file_col_def [of "''written_at''"]
        file_col_def [of "''feed_seq''"] comp_def)
qed

lemma scan_poll_project:
  assumes "distinct exts" "row_complete r" "f_feed_seq r \<noteq> None"
  shows "scan_poll_ref exts (project (poll_cols exts) r) = Inr (ref_of exts r)"
proof -
  have "map (\<lambda>c. file_col c r) (map ext_col exts) = map (\<lambda>e. ext_sql (f_ext r e)) exts" by simp
  moreover obtain v rc s where "f_written_at_version r = Some v" "f_record_count r = Some rc" "f_feed_seq r = Some s"
    using assms(2,3) by (auto simp: row_complete_def)
  ultimately show ?thesis
    using scan_exts_map [OF assms(1), of "[]" r]
    by (simp add: scan_poll_ref_def project_def poll_cols_def ref_of_def file_col_def [of "''file_id''"]
        file_col_def [of "''s3_key''"] file_col_def [of "''partition_key''"] file_col_def [of "''file_size''"]
        file_col_def [of "''uncompressed_size''"] file_col_def [of "''record_count''"]
        file_col_def [of "''written_at_version''"] file_col_def [of "''written_at''"]
        file_col_def [of "''feed_seq''"] comp_def)
qed

end
