(* ===== verification/Filters.thy ===== *)
theory Filters
  imports Catalog_Db
begin

text \<open>
  \<open>filter.go\<close>: the typed predicates and their translation to a WHERE clause with bound
  arguments.  \<open>translate\<close> is the code, on a string builder and an argument list.
  \<open>wexpr\<close> is the SQL expression the text denotes: \<open>render\<close> gives its text and
  \<open>eval\<close> its value on a row, under a collation order \<open>clt\<close> of the database, which
  PostgreSQL's comparison of TEXT values depends on.  \<open>holds\<close> is what the constructors'
  documentation promises.  The locale \<open>col_resolver\<close> is the contract of a
  \<open>colResolver\<close>, interpreted on both resolvers of the code.
\<close>

section \<open>Filters and their translation\<close>

datatype pfilter =
    Eq string string
  | PrefixF string string
  | Between string string string
  | GE string string
  | LT string string
  | In string "string list"
  | And "pfilter list"
  | Or "pfilter list"

datatype filter_error = Unknown_column string | Between_order string string string

type_synonym colResolver = "string \<Rightarrow> filter_error + string"

definition partColResolver :: "string list \<Rightarrow> colResolver" where
  "partColResolver parts p = (if p \<notin> set parts then Inl (Unknown_column p) else Inr (PartColumnPrefix @ p))"

definition mvColResolver :: "sanitizer \<Rightarrow> string list \<Rightarrow> colResolver" where
  "mvColResolver san cols c = (if c \<notin> set cols then Inl (Unknown_column c) else Inr (san [c]))"

type_synonym builder = "string \<times> string list"

definition addArg :: "string list \<Rightarrow> string \<Rightarrow> string list \<times> string" where
  "addArg args v = (args @ [v], placeholder (length args + 1))"

fun add_args :: "string list \<Rightarrow> string list \<Rightarrow> string list \<times> string list" where
  "add_args args [] = (args, [])"
| "add_args args (v # vs) =
     (let (args1, ph) = addArg args v; (args2, phs) = add_args args1 vs in (args2, ph # phs))"

definition translate_cmp ::
  "colResolver \<Rightarrow> string \<Rightarrow> string \<Rightarrow> string \<Rightarrow> builder \<Rightarrow> filter_error + builder" where
  "translate_cmp r op c v b =
     and_then (r c) (\<lambda>col.
       let (args, ph) = addArg (snd b) v in Inr (fst b @ col @ op @ ph, args))"

fun translate :: "colResolver \<Rightarrow> pfilter \<Rightarrow> builder \<Rightarrow> filter_error + builder"
and translate_subs :: "colResolver \<Rightarrow> string \<Rightarrow> bool \<Rightarrow> pfilter list \<Rightarrow> builder \<Rightarrow> filter_error + builder" where
  "translate r (Eq c v) b = translate_cmp r '' = '' c v b"
| "translate r (PrefixF c p) b = translate_cmp r '' LIKE '' c (p @ ''%'') b"
| "translate r (Between c lo hi) b =
     and_then (r c) (\<lambda>col.
       if lo \<ge> hi then Inl (Between_order c lo hi)
       else let (args1, ph1) = addArg (snd b) lo; (args2, ph2) = addArg args1 hi
            in Inr (fst b @ ''('' @ col @ '' >= '' @ ph1 @ '' AND '' @ col @ '' < '' @ ph2 @ '')'', args2))"
| "translate r (GE c v) b = translate_cmp r '' >= '' c v b"
| "translate r (LT c v) b = translate_cmp r '' < '' c v b"
| "translate r (In c vs) b =
     and_then (r c) (\<lambda>col.
       if vs = [] then Inr (fst b @ ''FALSE'', snd b)
       else let (args, phs) = add_args (snd b) vs
            in Inr (fst b @ col @ '' IN ('' @ join comma_sep phs @ '')'', args))"
| "translate r (And fs) b =
     (if fs = [] then Inr (fst b @ ''TRUE'', snd b)
      else and_then (translate_subs r '' AND '' True fs (fst b @ ''('', snd b))
             (\<lambda>b'. Inr (fst b' @ '')'', snd b')))"
| "translate r (Or fs) b =
     (if fs = [] then Inr (fst b @ ''FALSE'', snd b)
      else and_then (translate_subs r '' OR '' True fs (fst b @ ''('', snd b))
             (\<lambda>b'. Inr (fst b' @ '')'', snd b')))"
| "translate_subs r sep first [] b = Inr b"
| "translate_subs r sep first (f # fs) b =
     and_then (translate r f (if first then b else (fst b @ sep, snd b)))
       (translate_subs r sep False fs)"

definition translateFilters :: "pfilter list \<Rightarrow> colResolver \<Rightarrow> filter_error + builder" where
  "translateFilters filters r =
     (if filters = [] then Inr ([], [])
      else if length filters = 1 then translate r (hd filters) ([], [])
      else translate r (And filters) ([], []))"

section \<open>SQL expressions\<close>

datatype cmp_op = OpEq | OpLike | OpGe | OpLt

datatype wexpr =
    Wcmp string cmp_op nat
  | Wrange string nat nat
  | Win string "nat list"
  | Wtrue
  | Wfalse
  | Wand "wexpr list"
  | Wor "wexpr list"

fun op_text :: "cmp_op \<Rightarrow> string" where
  "op_text OpEq = '' = ''" | "op_text OpLike = '' LIKE ''" | "op_text OpGe = '' >= ''" | "op_text OpLt = '' < ''"

fun render :: "wexpr \<Rightarrow> string" where
  "render (Wcmp col op i) = col @ op_text op @ placeholder i"
| "render (Wrange col i j) =
     ''('' @ col @ '' >= '' @ placeholder i @ '' AND '' @ col @ '' < '' @ placeholder j @ '')''"
| "render (Win col is) = col @ '' IN ('' @ join comma_sep (map placeholder is) @ '')''"
| "render Wtrue = ''TRUE''"
| "render Wfalse = ''FALSE''"
| "render (Wand es) = ''('' @ join '' AND '' (map render es) @ '')''"
| "render (Wor es) = ''('' @ join '' OR '' (map render es) @ '')''"

text \<open>SQL \<open>LIKE\<close> with the default escape character.\<close>

fun like :: "string \<Rightarrow> string \<Rightarrow> bool" where
  "like [] s = (s = [])"
| "like (p # ps) s =
     (if p = CHR ''%'' then like ps s \<or> (case s of [] \<Rightarrow> False | _ # t \<Rightarrow> like (p # ps) t)
      else if p = CHR 0x5C then
        (case ps of [] \<Rightarrow> False | q # qs \<Rightarrow> (case s of [] \<Rightarrow> False | c # t \<Rightarrow> c = q \<and> like qs t))
      else (case s of [] \<Rightarrow> False | c # t \<Rightarrow> (p = CHR ''_'' \<or> c = p) \<and> like ps t))"

text \<open>Value of an expression: \<open>args\<close> the bound parameters, \<open>row\<close> the value of a column
  expression.\<close>

fun eval :: "(string \<Rightarrow> string \<Rightarrow> bool) \<Rightarrow> string list \<Rightarrow> (string \<Rightarrow> string) \<Rightarrow> wexpr \<Rightarrow> bool" where
  "eval clt args row (Wcmp col op i) =
     (let v = row col; a = args ! (i - 1) in
      case op of OpEq \<Rightarrow> v = a | OpLike \<Rightarrow> like a v | OpGe \<Rightarrow> \<not> clt v a | OpLt \<Rightarrow> clt v a)"
| "eval clt args row (Wrange col i j) =
     (\<not> clt (row col) (args ! (i - 1)) \<and> clt (row col) (args ! (j - 1)))"
| "eval clt args row (Win col is) = (\<exists>i \<in> set is. row col = args ! (i - 1))"
| "eval clt args row Wtrue = True"
| "eval clt args row Wfalse = False"
| "eval clt args row (Wand es) = (\<forall>e \<in> set es. eval clt args row e)"
| "eval clt args row (Wor es) = (\<exists>e \<in> set es. eval clt args row e)"

section \<open>What a filter means\<close>

fun holds :: "(string \<Rightarrow> string \<Rightarrow> bool) \<Rightarrow> (string \<Rightarrow> string) \<Rightarrow> pfilter \<Rightarrow> bool" where
  "holds clt row (Eq c v) = (row c = v)"
| "holds clt row (PrefixF c p) = like (p @ ''%'') (row c)"
| "holds clt row (Between c lo hi) = (\<not> clt (row c) lo \<and> clt (row c) hi)"
| "holds clt row (GE c v) = (\<not> clt (row c) v)"
| "holds clt row (LT c v) = clt (row c) v"
| "holds clt row (In c vs) = (row c \<in> set vs)"
| "holds clt row (And fs) = (\<forall>f \<in> set fs. holds clt row f)"
| "holds clt row (Or fs) = (\<exists>f \<in> set fs. holds clt row f)"

definition like_special :: "char \<Rightarrow> bool" where
  "like_special c \<longleftrightarrow> c = CHR ''%'' \<or> c = CHR ''_'' \<or> c = CHR 0x5C"

lemma like_any: "like ''%'' s"
  by (induction s) auto

lemma like_prefix: "list_all (\<lambda>c. \<not> like_special c) p \<Longrightarrow> like (p @ ''%'') s = has_prefix s p"
proof (induction p arbitrary: s)
  case Nil
  then show ?case using like_any [of s] by (simp add: has_prefix_def)
next
  case (Cons c p)
  then show ?case by (cases s) (auto simp: like_special_def has_prefix_def)
qed

text \<open>The columns a filter names, whether its ranges are ordered, and the values it binds.\<close>

fun filter_cols :: "pfilter \<Rightarrow> string set" where
  "filter_cols (Eq c v) = {c}" | "filter_cols (PrefixF c p) = {c}" | "filter_cols (Between c lo hi) = {c}"
| "filter_cols (GE c v) = {c}" | "filter_cols (LT c v) = {c}" | "filter_cols (In c vs) = {c}"
| "filter_cols (And fs) = (\<Union>f \<in> set fs. filter_cols f)"
| "filter_cols (Or fs) = (\<Union>f \<in> set fs. filter_cols f)"

fun ordered :: "pfilter \<Rightarrow> bool" where
  "ordered (Between c lo hi) = (lo < hi)"
| "ordered (And fs) = (\<forall>f \<in> set fs. ordered f)"
| "ordered (Or fs) = (\<forall>f \<in> set fs. ordered f)"
| "ordered _ = True"

fun bound_values :: "pfilter \<Rightarrow> string list" where
  "bound_values (Eq c v) = [v]" | "bound_values (PrefixF c p) = [p @ ''%'']"
| "bound_values (Between c lo hi) = [lo, hi]"
| "bound_values (GE c v) = [v]" | "bound_values (LT c v) = [v]" | "bound_values (In c vs) = vs"
| "bound_values (And fs) = concat (map bound_values fs)"
| "bound_values (Or fs) = concat (map bound_values fs)"

text \<open>The expression of a filter whose first value is bound as \<open>$(k+1)\<close>.\<close>

fun compile :: "(string \<Rightarrow> string) \<Rightarrow> nat \<Rightarrow> pfilter \<Rightarrow> wexpr"
and compile_subs :: "(string \<Rightarrow> string) \<Rightarrow> nat \<Rightarrow> pfilter list \<Rightarrow> wexpr list" where
  "compile ident k (Eq c v) = Wcmp (ident c) OpEq (k + 1)"
| "compile ident k (PrefixF c p) = Wcmp (ident c) OpLike (k + 1)"
| "compile ident k (Between c lo hi) = Wrange (ident c) (k + 1) (k + 2)"
| "compile ident k (GE c v) = Wcmp (ident c) OpGe (k + 1)"
| "compile ident k (LT c v) = Wcmp (ident c) OpLt (k + 1)"
| "compile ident k (In c vs) =
     (if vs = [] then Wfalse else Win (ident c) (map (\<lambda>i. k + i + 1) [0..<length vs]))"
| "compile ident k (And fs) = (if fs = [] then Wtrue else Wand (compile_subs ident k fs))"
| "compile ident k (Or fs) = (if fs = [] then Wfalse else Wor (compile_subs ident k fs))"
| "compile_subs ident k [] = []"
| "compile_subs ident k (f # fs) =
     compile ident k f # compile_subs ident (k + length (bound_values f)) fs"

lemma compile_subs_nonempty [simp]: "compile_subs ident k fs = [] \<longleftrightarrow> fs = []"
  by (cases fs) auto

lemma add_args_eq:
  "add_args args vs = (args @ vs, map (\<lambda>i. placeholder (length args + i + 1)) [0..<length vs])"
proof (induction vs arbitrary: args)
  case (Cons v vs)
  have "[0..<Suc (length vs)] = 0 # map Suc [0..<length vs]"
    by (simp add: map_Suc_upt upt_conv_Cons del: upt_Suc)
  then show ?case by (simp add: Cons addArg_def comp_def del: upt_Suc)
qed simp

section \<open>The resolver contract\<close>

definition subs_text :: "string \<Rightarrow> bool \<Rightarrow> string list \<Rightarrow> string" where
  "subs_text sep first ts = (if first then join sep ts else concat (map (\<lambda>t. sep @ t) ts))"

lemma subs_text_Nil [simp]: "subs_text sep first [] = []"
  by (simp add: subs_text_def)

lemma subs_text_Cons: "subs_text sep first (t # ts) = (if first then t else sep @ t) @ subs_text sep False ts"
proof -
  have "join sep (t # ts) = t @ concat (map (\<lambda>t. sep @ t) ts)" for t
    by (induction ts arbitrary: t) auto
  then show ?thesis by (simp add: subs_text_def)
qed

locale col_resolver =
  fixes r :: colResolver and known :: "string set" and ident :: "string \<Rightarrow> string"
  assumes resolve: "r c = (if c \<in> known then Inr (ident c) else Inl (Unknown_column c))"
begin

definition translated :: "pfilter \<Rightarrow> builder \<Rightarrow> bool" where
  "translated f b \<longleftrightarrow>
     (if filter_cols f \<subseteq> known \<and> ordered f
      then translate r f b =
        Inr (fst b @ render (compile ident (length (snd b)) f), snd b @ bound_values f)
      else \<exists>e. translate r f b = Inl e)"

lemma translate_subs_eq:
  "\<forall>f \<in> set fs. \<forall>b. translated f b \<Longrightarrow>
   (if (\<forall>f \<in> set fs. filter_cols f \<subseteq> known \<and> ordered f)
    then translate_subs r sep first fs b =
      Inr (fst b @ subs_text sep first (map render (compile_subs ident (length (snd b)) fs)),
           snd b @ concat (map bound_values fs))
    else \<exists>e. translate_subs r sep first fs b = Inl e)"
proof (induction fs arbitrary: first b)
  case (Cons f fs)
  let ?b = "if first then b else (fst b @ sep, snd b)"
  have f: "translated f ?b" using Cons.prems by (metis list.set_intros(1))
  show ?case
  proof (cases "filter_cols f \<subseteq> known \<and> ordered f")
    case True
    let ?b' = "(fst ?b @ render (compile ident (length (snd b)) f), snd b @ bound_values f)"
    have t: "translate r f ?b = Inr ?b'" using f True by (simp add: translated_def)
    then have "translate_subs r sep first (f # fs) b = translate_subs r sep False fs ?b'" by simp
    with True Cons.IH [of False ?b'] Cons.prems show ?thesis
      by (simp add: subs_text_Cons)
  next
    case False
    then obtain e where "translate r f ?b = Inl e" using f unfolding translated_def by metis
    with False show ?thesis by auto
  qed
qed simp

lemma translate_eq: "translated f b"
proof (induction f arbitrary: b)
  case (And fs)
  have "\<forall>f \<in> set fs. \<forall>b. translated f b" using And by blast
  note sub = translate_subs_eq [OF this, of "'' AND ''" True "(fst b @ ''('', snd b)"]
  show ?case
  proof (cases "\<forall>f \<in> set fs. filter_cols f \<subseteq> known \<and> ordered f")
    case True
    with sub show ?thesis by (auto simp: translated_def subs_text_def)
  next
    case False
    with sub obtain e where "translate_subs r '' AND '' True fs (fst b @ ''('', snd b) = Inl e" by auto
    with False show ?thesis by (auto simp: translated_def)
  qed
next
  case (Or fs)
  have "\<forall>f \<in> set fs. \<forall>b. translated f b" using Or by blast
  note sub = translate_subs_eq [OF this, of "'' OR ''" True "(fst b @ ''('', snd b)"]
  show ?case
  proof (cases "\<forall>f \<in> set fs. filter_cols f \<subseteq> known \<and> ordered f")
    case True
    with sub show ?thesis by (auto simp: translated_def subs_text_def)
  next
    case False
    with sub obtain e where "translate_subs r '' OR '' True fs (fst b @ ''('', snd b) = Inl e" by auto
    with False show ?thesis by (auto simp: translated_def)
  qed
next
  case (In c vs)
  show ?case unfolding translated_def by (auto simp: resolve [of c] add_args_eq comp_def)
qed (simp_all add: translated_def, auto simp: translate_cmp_def resolve addArg_def not_le)

lemma translateFilters_eq:
  "if (\<forall>f \<in> set fs. filter_cols f \<subseteq> known \<and> ordered f)
   then translateFilters fs r = Inr (if fs = [] then [] else render (compile ident 0 (if length fs = 1 then hd fs else And fs)),
          concat (map bound_values fs))
   else \<exists>e. translateFilters fs r = Inl e"
proof (cases fs)
  case (Cons f gs)
  show ?thesis
  proof (cases gs)
    case Nil
    with Cons translate_eq [of f "([], [])"] show ?thesis
      by (auto simp: translateFilters_def translated_def split: if_splits)
  next
    case (Cons g hs)
    with \<open>fs = f # gs\<close> translate_eq [of "And fs" "([], [])"] show ?thesis
      unfolding translated_def by (auto simp: translateFilters_def simp del: translate.simps split: if_splits)
  qed
qed (simp add: translateFilters_def)

end

lemma eval_subs:
  assumes "\<And>f pre post. f \<in> set fs \<Longrightarrow>
      eval clt (pre @ bound_values f @ post) row (compile ident (length pre) f) = holds clt (\<lambda>c. row (ident c)) f"
  shows "map (eval clt (pre @ concat (map bound_values fs) @ post) row) (compile_subs ident (length pre) fs)
       = map (holds clt (\<lambda>c. row (ident c))) fs"
  using assms
proof (induction fs arbitrary: pre)
  case (Cons f fs)
  have "eval clt (pre @ bound_values f @ (concat (map bound_values fs) @ post)) row (compile ident (length pre) f)
      = holds clt (\<lambda>c. row (ident c)) f"
    by (rule Cons.prems) simp
  moreover have "map (eval clt ((pre @ bound_values f) @ concat (map bound_values fs) @ post) row)
      (compile_subs ident (length (pre @ bound_values f)) fs) = map (holds clt (\<lambda>c. row (ident c))) fs"
    by (rule Cons.IH) (use Cons.prems in simp)
  ultimately show ?case by simp
qed simp

lemma map_ball:
  assumes "map f xs = map g ys"
  shows "(\<forall>x \<in> set xs. f x) = (\<forall>y \<in> set ys. g y)"
proof -
  have "(\<forall>b \<in> set (map f xs). b) = (\<forall>b \<in> set (map g ys). b)" by (simp only: assms)
  then show ?thesis by simp
qed

lemma map_bex:
  assumes "map f xs = map g ys"
  shows "(\<exists>x \<in> set xs. f x) = (\<exists>y \<in> set ys. g y)"
proof -
  have "(\<exists>b \<in> set (map f xs). b) = (\<exists>b \<in> set (map g ys). b)" by (simp only: assms)
  then show ?thesis by simp
qed

lemma eval_compile:
  "eval clt (pre @ bound_values f @ post) row (compile ident (length pre) f)
   = holds clt (\<lambda>c. row (ident c)) f"
proof (induction f arbitrary: pre post)
  case (In c vs)
  have "row (ident c) \<in> set vs \<longleftrightarrow> (\<exists>i \<in> {0..<length vs}. row (ident c) = vs ! i)"
    by (metis atLeast0LessThan in_set_conv_nth lessThan_iff)
  then show ?case by (simp add: nth_append)
next
  case (And fs)
  show ?case
    using map_ball [OF eval_subs [of fs clt row ident pre post]] And by simp
next
  case (Or fs)
  show ?case
    using map_bex [OF eval_subs [of fs clt row ident pre post]] Or by simp
qed (auto simp: Let_def nth_append)

section \<open>The two resolvers\<close>

interpretation part: col_resolver "partColResolver parts" "set parts" part_col for parts
  by unfold_locales (simp add: partColResolver_def part_col_def)

interpretation mv: col_resolver "mvColResolver san cols" "set cols" "\<lambda>c. san [c]" for san cols
  by unfold_locales (simp add: mvColResolver_def)

lemma eval_where:
  assumes "fs \<noteq> []"
  shows "eval clt (concat (map bound_values fs)) row (compile ident 0 (if length fs = 1 then hd fs else And fs))
    \<longleftrightarrow> (\<forall>f \<in> set fs. holds clt (\<lambda>c. row (ident c)) f)"
proof (cases "length fs = 1")
  case True
  then obtain f where "fs = [f]" by (cases fs) auto
  then show ?thesis using eval_compile [of clt "[]" f "[]" row ident] by simp
next
  case False
  then show ?thesis using eval_compile [of clt "[]" "And fs" "[]" row ident] by simp
qed

section \<open>Values never reach the SQL text\<close>

text \<open>The shape of a filter: its columns and the number of its values.\<close>

fun shape :: "pfilter \<Rightarrow> pfilter" where
  "shape (Eq c v) = Eq c []" | "shape (PrefixF c p) = PrefixF c []"
| "shape (Between c lo hi) = Between c [] []"
| "shape (GE c v) = GE c []" | "shape (LT c v) = LT c []"
| "shape (In c vs) = In c (map (\<lambda>_. []) vs)"
| "shape (And fs) = And (map shape fs)"
| "shape (Or fs) = Or (map shape fs)"

lemma bound_values_shape [simp]: "length (bound_values (shape f)) = length (bound_values f)"
  by (induction f) (auto simp: length_concat comp_def cong: map_cong)

lemma compile_subs_shape:
  "(\<And>f k. f \<in> set fs \<Longrightarrow> compile ident k (shape f) = compile ident k f)
   \<Longrightarrow> compile_subs ident k (map shape fs) = compile_subs ident k fs"
  by (induction fs arbitrary: k) auto

lemma compile_shape [simp]: "compile ident k (shape f) = compile ident k f"
  by (induction f arbitrary: k) (auto simp: compile_subs_shape)

lemma compile_shape_eq: "shape f = shape g \<Longrightarrow> compile ident k f = compile ident k g"
  by (metis compile_shape)

definition file_text :: "file_row \<Rightarrow> string \<Rightarrow> string" where
  "file_text row c = (case file_col c row of TextV s \<Rightarrow> s | _ \<Rightarrow> [])"

text \<open>The filters of a read translate exactly when every column they name is a declared
  partition part and every \<open>Between\<close> is ordered.\<close>

theorem translateFilters_defined:
  "(\<exists>out. translateFilters fs (partColResolver parts) = Inr out) \<longleftrightarrow>
     list_all (\<lambda>f. filter_cols f \<subseteq> set parts \<and> ordered f) fs"
  using part.translateFilters_eq [of fs parts] by (auto simp: list_all_iff split: if_splits)

text \<open>C10.  The WHERE clause means the filters: the text the code builds is the rendering of an SQL
  expression which, with the arguments the code binds and under any collation of the database,
  selects a row of the files table exactly when every filter holds of the row's part columns.
  Without filters there is no WHERE clause and no argument.\<close>

theorem translateFilters_meaning:
  assumes "translateFilters fs (partColResolver parts) = Inr (wh, args)"
  shows "if fs = [] then wh = [] \<and> args = []
         else \<exists>e. wh = render e \<and> (\<forall>clt row. eval clt args (file_text row) e \<longleftrightarrow>
                list_all (holds clt (\<lambda>p. file_text row (part_col p))) fs)"
proof (cases "fs = []")
  case False
  let ?e = "compile part_col 0 (if length fs = 1 then hd fs else And fs)"
  have "wh = render ?e" "args = concat (map bound_values fs)"
    using part.translateFilters_eq [of fs parts] assms False by (auto split: if_splits)
  with False show ?thesis
    using eval_where [OF False, where ident = part_col]
    by (auto simp: list_all_iff intro!: exI [of _ ?e])
qed (use assms in \<open>simp add: translateFilters_def\<close>)

lemma translate_example:
  "translateFilters [Eq ''p'' ''v''] (partColResolver [''p'']) = Inr (''part_p = $1'', [''v''])"
  by code_simp

theorem translateFilters_meaning_witness:
  "\<exists>e. ''part_p = $1'' = render e \<and> (\<forall>clt row. eval clt [''v''] (file_text row) e \<longleftrightarrow>
     list_all (holds clt (\<lambda>p. file_text row (part_col p))) [Eq ''p'' ''v''])"
  using translateFilters_meaning [OF translate_example] by simp

text \<open>C14.  No value can change the statement: two lists of filters with the same columns and the
  same number of values per filter give the same text, whatever the values contain.\<close>

theorem translateFilters_text_from_shape:
  assumes "translateFilters fs (partColResolver parts) = Inr (wh, args)"
    and "translateFilters gs (partColResolver parts) = Inr (wh', args')"
    and "map shape fs = map shape gs"
  shows "wh = wh' \<and> length args = length args'"
proof -
  have len: "length fs = length gs" using assms(3) by (metis length_map)
  have "shape (if length fs = 1 then hd fs else And fs) = shape (if length gs = 1 then hd gs else And gs)"
    using assms(3) len by (cases fs; cases gs) auto
  then have c: "compile part_col 0 (if length fs = 1 then hd fs else And fs)
      = compile part_col 0 (if length gs = 1 then hd gs else And gs)" by (rule compile_shape_eq)
  have "map (\<lambda>f. length (bound_values f)) fs = map (\<lambda>f. length (bound_values f)) gs"
    using arg_cong [OF assms(3), of "map (\<lambda>f. length (bound_values f))"] by (simp add: comp_def)
  then have "length (concat (map bound_values fs)) = length (concat (map bound_values gs))"
    by (simp add: length_concat comp_def)
  with c len assms(1,2) part.translateFilters_eq [of fs parts] part.translateFilters_eq [of gs parts]
  show ?thesis by (auto split: if_splits)
qed

theorem translateFilters_text_from_shape_witness:
  "\<exists>wh. translateFilters [Eq ''p'' ''x''] (partColResolver [''p'']) = Inr (wh, [''x''])
    \<and> translateFilters [Eq ''p'' ''1 OR TRUE''] (partColResolver [''p'']) = Inr (wh, [''1 OR TRUE''])"
proof -
  obtain w1 w2 where w: "translateFilters [Eq ''p'' ''x''] (partColResolver [''p'']) = Inr (w1, [''x''])"
    "translateFilters [Eq ''p'' ''1 OR TRUE''] (partColResolver [''p'']) = Inr (w2, [''1 OR TRUE''])"
    by (simp add: translateFilters_def translate_cmp_def partColResolver_def addArg_def)
  from translateFilters_text_from_shape [OF this] w show ?thesis by simp
qed

end
