(* ===== verification/Mv_Views.thy ===== *)
theory Mv_Views
  imports Filters
begin

text \<open>
  \<open>materialized_view.go\<close>: the tuples a write contributes to each materialized view
  (\<open>resolveMVRows\<close>), their insertion in chunks of column arrays (\<open>insertMVRows\<close>), and the
  typed lookup (\<open>NewMaterializedView\<close>, \<open>Lookup\<close>).  The user's closures \<open>Of\<close> and
  \<open>From\<close> are fields; the server's order on the result and its collation are parameters of the
  lookup.
\<close>

section \<open>The write side\<close>

record 'a mv_def =
  mv_name :: string
  mv_columns :: "string list"
  mv_of :: "'a \<Rightarrow> string + string list list"

record mv_write_rows =
  mw_name :: string
  mw_columns :: "string list"
  mw_rows :: "string list list"

datatype mv_error =
    Of_failed string nat string
  | Tuple_len string nat nat nat nat
  | Mv_exec string nat sql_error

definition mv_dedup_key :: "string list \<Rightarrow> string" where
  "mv_dedup_key r = join [CHR 0x00] r"

text \<open>The inner loop over the tuples one record emits; the state is \<open>(seen, rows)\<close>.\<close>

fun mv_emit :: "'a mv_def \<Rightarrow> nat \<Rightarrow> nat \<Rightarrow> string list list \<Rightarrow> string set \<times> string list list
    \<Rightarrow> mv_error + string set \<times> string list list" where
  "mv_emit mv i j [] st = Inr st"
| "mv_emit mv i j (r # rs) (seen, rows) =
     (if length r \<noteq> length (mv_columns mv)
      then Inl (Tuple_len (mv_name mv) j i (length r) (length (mv_columns mv)))
      else let key = mv_dedup_key r in
           if key \<in> seen then mv_emit mv i (Suc j) rs (seen, rows)
           else mv_emit mv i (Suc j) rs (insert key seen, rows @ [r]))"

fun mv_records :: "'a mv_def \<Rightarrow> nat \<Rightarrow> 'a list \<Rightarrow> string set \<times> string list list
    \<Rightarrow> mv_error + string set \<times> string list list" where
  "mv_records mv i [] st = Inr st"
| "mv_records mv i (rec # recs) st =
     (case mv_of mv rec of
        Inl e \<Rightarrow> Inl (Of_failed (mv_name mv) i e)
      | Inr emitted \<Rightarrow> and_then (mv_emit mv i 0 emitted st) (mv_records mv (Suc i) recs))"

definition resolveMVRows :: "'a mv_def list \<Rightarrow> 'a list \<Rightarrow> mv_error + mv_write_rows list" where
  "resolveMVRows mvs records =
     map_res (\<lambda>mv. and_then (mv_records mv 0 records ({}, []))
                (\<lambda>(seen, rows). Inr \<lparr>mw_name = mv_name mv, mw_columns = mv_columns mv, mw_rows = rows\<rparr>)) mvs"

definition mvInsertChunkSize :: nat where "mvInsertChunkSize = 50000"

text \<open>One array per column for the rows of a chunk.\<close>

definition chunk_args :: "string list \<Rightarrow> string list list \<Rightarrow> string list list" where
  "chunk_args columns chunk = map (\<lambda>j. map (\<lambda>r. r ! j) chunk) [0..<length columns]"

text \<open>The chunk loop; \<open>fails n start\<close> is the error with which the server answers the statement
  for the view \<open>n\<close> and the rows from \<open>start\<close>, if it does.\<close>

function insert_chunks ::
  "(string \<Rightarrow> nat \<Rightarrow> sql_error option) \<Rightarrow> mv_write_rows \<Rightarrow> nat \<Rightarrow> catalog \<Rightarrow> mv_error + catalog" where
  "insert_chunks fails mv start db =
     (if start < length (mw_rows mv) then
        (let stop = min (start + mvInsertChunkSize) (length (mw_rows mv));
             chunk = take (stop - start) (drop start (mw_rows mv))
         in case fails (mw_name mv) start of
              Some e \<Rightarrow> Inl (Mv_exec (mw_name mv) start e)
            | None \<Rightarrow> insert_chunks fails mv (start + mvInsertChunkSize)
                       (sql_mv_insert (mw_name mv) (chunk_args (mw_columns mv) chunk) db))
      else Inr db)"
  by pat_completeness auto
termination
  by (relation "measure (\<lambda>(fails, mv, start, db). length (mw_rows mv) - start)")
     (auto simp: mvInsertChunkSize_def)

declare insert_chunks.simps [simp del]

fun insertMVRows ::
  "(string \<Rightarrow> nat \<Rightarrow> sql_error option) \<Rightarrow> mv_write_rows list \<Rightarrow> catalog \<Rightarrow> mv_error + catalog" where
  "insertMVRows fails [] db = Inr db"
| "insertMVRows fails (mv # mvs) db =
     (if mw_rows mv = [] then insertMVRows fails mvs db
      else and_then (insert_chunks fails mv 0 db) (insertMVRows fails mvs))"

section \<open>The lookup handle\<close>

record 'k mv_lookup_def =
  ld_name :: string
  ld_columns :: "string list"
  ld_from :: "(string list \<Rightarrow> string + 'k) option"

record 'k mv_handle =
  mh_def :: "'k mv_lookup_def"
  mh_sql :: select_query

datatype mv_new_error = Mv_not_declared string | Mv_columns_mismatch string | Mv_from_required string

definition findDeclaredMV :: "'a mv_def list \<Rightarrow> string \<Rightarrow> 'a mv_def option" where
  "findDeclaredMV mvs name = find (\<lambda>m. mv_name m = name) mvs"

definition equalSliceCase :: "string list \<Rightarrow> string list \<Rightarrow> bool" where
  "equalSliceCase a b \<longleftrightarrow>
     (if length a \<noteq> length b then False
      else list_all (\<lambda>i. equal_fold (a ! i) (b ! i)) [0..<length a])"

definition NewMaterializedView ::
  "sanitizer \<Rightarrow> names \<Rightarrow> 'a mv_def list \<Rightarrow> 'k mv_lookup_def \<Rightarrow> mv_new_error + 'k mv_handle" where
  "NewMaterializedView san n mvs d =
     (case findDeclaredMV mvs (ld_name d) of
        None \<Rightarrow> Inl (Mv_not_declared (ld_name d))
      | Some declared \<Rightarrow>
          if \<not> equalSliceCase (ld_columns d) (mv_columns declared) then Inl (Mv_columns_mismatch (ld_name d))
          else if ld_from d = None then Inl (Mv_from_required (ld_name d))
          else Inr \<lparr>mh_def = d, mh_sql = MVLookupSQL san n (ld_name d) (ld_columns d)\<rparr>)"

text \<open>The value of a column expression of a tuple of the view.\<close>

definition mv_row :: "sanitizer \<Rightarrow> string list \<Rightarrow> string list \<Rightarrow> string \<Rightarrow> string" where
  "mv_row san cols t ident =
     (case map_of (zip (map (\<lambda>c. san [c]) cols) t) ident of None \<Rightarrow> [] | Some v \<Rightarrow> v)"

datatype mv_lookup_error = Mv_filter filter_error | Mv_from nat string

fun mv_project :: "(string list \<Rightarrow> string + 'k) \<Rightarrow> nat \<Rightarrow> string list list \<Rightarrow> mv_lookup_error + 'k list" where
  "mv_project from i [] = Inr []"
| "mv_project from i (t # ts) =
     (case from t of
        Inl e \<Rightarrow> Inl (Mv_from i e)
      | Inr k \<Rightarrow> (case mv_project from (Suc i) ts of Inl e \<Rightarrow> Inl e | Inr ks \<Rightarrow> Inr (k # ks)))"

text \<open>\<open>Lookup\<close>: the filters are compiled for the view's columns; the server returns the matching
  tuples in its own order \<open>ord\<close>, comparing under its collation \<open>clt\<close>.\<close>

definition Lookup ::
  "sanitizer \<Rightarrow> (string \<Rightarrow> string \<Rightarrow> bool) \<Rightarrow> (string list list \<Rightarrow> string list list) \<Rightarrow> catalog
   \<Rightarrow> 'k mv_lookup_def \<Rightarrow> (string list \<Rightarrow> string + 'k) \<Rightarrow> pfilter list \<Rightarrow> mv_lookup_error + 'k list" where
  "Lookup san clt ord db d from filters =
     (case translateFilters filters (mvColResolver san (ld_columns d)) of
        Inl e \<Rightarrow> Inl (Mv_filter e)
      | Inr (wh, args) \<Rightarrow>
          (let sel = (if filters = [] then (\<lambda>t. True)
                      else (\<lambda>t. eval clt args (mv_row san (ld_columns d) t)
                             (compile (\<lambda>c. san [c]) 0 (if length filters = 1 then hd filters else And filters))))
           in mv_project from 0 (ord (filter sel (c_mv db (ld_name d))))))"

section \<open>Set membership\<close>

definition emitted :: "'a mv_def \<Rightarrow> 'a list \<Rightarrow> string list list" where
  "emitted mv recs = concat (map (\<lambda>r. case mv_of mv r of Inl _ \<Rightarrow> [] | Inr ts \<Rightarrow> ts) recs)"

definition nul_free :: "string list \<Rightarrow> bool" where
  "nul_free t \<longleftrightarrow> list_all (\<lambda>s. CHR 0x00 \<notin> set s) t"

lemma mv_dedup_key_inj:
  "nul_free s \<Longrightarrow> nul_free t \<Longrightarrow> s \<noteq> [] \<Longrightarrow> t \<noteq> [] \<Longrightarrow> mv_dedup_key s = mv_dedup_key t \<Longrightarrow> s = t"
  using split_on_join [of s "CHR 0x00"] split_on_join [of t "CHR 0x00"]
  unfolding mv_dedup_key_def nul_free_def list_all_iff by metis

definition mv_wf :: "'a mv_def \<Rightarrow> string set \<times> string list list \<Rightarrow> bool" where
  "mv_wf mv st \<longleftrightarrow> fst st = mv_dedup_key ` set (snd st) \<and> distinct (snd st)
     \<and> list_all (\<lambda>r. length r = length (mv_columns mv) \<and> nul_free r) (snd st)"

lemma mv_emit_spec:
  "mv_emit mv i j ts st = Inr st' \<Longrightarrow> mv_wf mv st \<Longrightarrow> mv_columns mv \<noteq> [] \<Longrightarrow> list_all nul_free ts
   \<Longrightarrow> mv_wf mv st' \<and> set (snd st') = set (snd st) \<union> set ts"
proof (induction mv i j ts st rule: mv_emit.induct)
  case (2 mv i j r rs seen rows)
  have len: "length r = length (mv_columns mv)" using "2.prems"(1) by (auto split: if_splits)
  show ?case
  proof (cases "mv_dedup_key r \<in> seen")
    case True
    then obtain s where s: "s \<in> set rows" "mv_dedup_key s = mv_dedup_key r"
      using "2.prems"(2) by (auto simp: mv_wf_def)
    then have "length s = length (mv_columns mv)" "nul_free s"
      using "2.prems"(2) by (auto simp: mv_wf_def list_all_iff)
    then have "s = r" using s(2) len "2.prems"(3,4) by (intro mv_dedup_key_inj) auto
    with s(1) have "r \<in> set rows" by simp
    with True len "2.IH"(1) [OF _ refl True] "2.prems" show ?thesis by auto
  next
    case False
    then have "r \<notin> set rows" using "2.prems"(2) by (auto simp: mv_wf_def)
    with False len "2.prems" have "mv_wf mv (insert (mv_dedup_key r) seen, rows @ [r])"
      by (auto simp: mv_wf_def)
    with False len "2.IH"(2) [OF _ refl False] "2.prems" show ?thesis by auto
  qed
qed simp

lemma mv_records_spec:
  "mv_records mv i recs st = Inr st' \<Longrightarrow> mv_wf mv st \<Longrightarrow> mv_columns mv \<noteq> [] \<Longrightarrow> list_all nul_free (emitted mv recs)
   \<Longrightarrow> mv_wf mv st' \<and> set (snd st') = set (snd st) \<union> set (emitted mv recs)"
proof (induction mv i recs st rule: mv_records.induct)
  case (2 mv i rec recs st)
  then obtain ts st1 where ts: "mv_of mv rec = Inr ts" "mv_emit mv i 0 ts st = Inr st1"
    "mv_records mv (Suc i) recs st1 = Inr st'"
    by (auto simp: and_then_Inr split: sum.splits)
  with mv_emit_spec [OF ts(2)] "2.prems" have "mv_wf mv st1" "set (snd st1) = set (snd st) \<union> set ts"
    by (auto simp: emitted_def)
  with "2.IH" [OF ts(1,3)] ts "2.prems" show ?case by (auto simp: emitted_def)
qed (simp add: emitted_def)

lemma unnest_chunk_args:
  assumes "cols \<noteq> []" "list_all (\<lambda>r. length r = length cols) chunk"
  shows "unnest (chunk_args cols chunk) = chunk"
proof -
  obtain k where "length cols = Suc k" using assms(1) by (cases cols) auto
  then have len: "(case chunk_args cols chunk of [] \<Rightarrow> 0 | a # _ \<Rightarrow> length a) = length chunk"
    by (simp add: chunk_args_def upt_conv_Cons del: upt_Suc)
  have "map (\<lambda>a. a ! i) (chunk_args cols chunk) = chunk ! i" if "i < length chunk" for i
  proof -
    have "length (chunk ! i) = length cols" using assms(2) that by (simp add: list_all_length)
    then show ?thesis using that map_nth [of "chunk ! i"] by (simp add: chunk_args_def comp_def)
  qed
  then have "unnest (chunk_args cols chunk) = map (\<lambda>i. chunk ! i) [0..<length chunk]"
    by (simp add: unnest_def len)
  then show ?thesis by (simp add: map_nth)
qed

lemma mv_add_set [simp]: "set (mv_add rows ts) = set rows \<union> set ts"
  by (induction rows ts rule: mv_add.induct) auto

lemma mv_add_distinct: "distinct rows \<Longrightarrow> distinct (mv_add rows ts)"
  by (induction rows ts rule: mv_add.induct) auto

lemma mv_add_append: "mv_add rows (s @ t) = mv_add (mv_add rows s) t"
  by (induction rows s rule: mv_add.induct) auto

text \<open>The chunks together add what one statement would: the chunk size does not matter.\<close>

lemma insert_chunks_ok:
  assumes "mw_columns mv \<noteq> []" "list_all (\<lambda>r. length r = length (mw_columns mv)) (mw_rows mv)"
  shows "insert_chunks (\<lambda>_ _. None) mv start db =
    Inr (db\<lparr>c_mv := (c_mv db)(mw_name mv := mv_add (c_mv db (mw_name mv)) (drop start (mw_rows mv)))\<rparr>)"
proof (induction "length (mw_rows mv) - start" arbitrary: start db rule: less_induct)
  case less
  show ?case
  proof (cases "start < length (mw_rows mv)")
    case True
    let ?N = "mvInsertChunkSize" and ?rows = "mw_rows mv"
    let ?chunk = "take (min (start + ?N) (length ?rows) - start) (drop start ?rows)"
    have pos: "?N > 0" by (simp add: mvInsertChunkSize_def)
    have "?chunk = take ?N (drop start ?rows)" by (simp add: min_def)
    then have split: "drop start ?rows = ?chunk @ drop (start + ?N) ?rows"
      by (metis add.commute append_take_drop_id drop_drop)
    have "list_all (\<lambda>r. length r = length (mw_columns mv)) ?chunk"
      using assms(2) by (auto simp: list_all_iff dest: in_set_takeD in_set_dropD)
    then have "unnest (chunk_args (mw_columns mv) ?chunk) = ?chunk" by (rule unnest_chunk_args [OF assms(1)])
    then have db': "sql_mv_insert (mw_name mv) (chunk_args (mw_columns mv) ?chunk) db =
        db\<lparr>c_mv := (c_mv db)(mw_name mv := mv_add (c_mv db (mw_name mv)) ?chunk)\<rparr>" (is "_ = ?db'")
      unfolding sql_mv_insert_def by (simp only:)
    have "insert_chunks (\<lambda>_ _. None) mv start db = insert_chunks (\<lambda>_ _. None) mv (start + ?N) ?db'"
      using True by (subst insert_chunks.simps) (simp only: Let_def if_True option.case db')
    also have "\<dots> = Inr (?db'\<lparr>c_mv := (c_mv ?db')(mw_name mv :=
        mv_add (c_mv ?db' (mw_name mv)) (drop (start + ?N) ?rows))\<rparr>)"
      by (rule less) (use True pos in simp)
    also have "\<dots> = Inr (db\<lparr>c_mv := (c_mv db)(mw_name mv :=
        mv_add (c_mv db (mw_name mv)) (?chunk @ drop (start + ?N) ?rows))\<rparr>)"
      by (simp add: mv_add_append)
    finally show ?thesis unfolding split [symmetric] .
  qed (simp add: insert_chunks.simps)
qed

lemma insertMVRows_ok:
  assumes "list_all (\<lambda>mv. mw_columns mv \<noteq> [] \<and> list_all (\<lambda>r. length r = length (mw_columns mv)) (mw_rows mv)) mvs"
    and "distinct (map mw_name mvs)"
  shows "\<exists>db'. insertMVRows (\<lambda>_ _. None) mvs db = Inr db' \<and> db' = db\<lparr>c_mv := c_mv db'\<rparr>
    \<and> (\<forall>mv \<in> set mvs. c_mv db' (mw_name mv) = mv_add (c_mv db (mw_name mv)) (mw_rows mv))
    \<and> (\<forall>n. n \<notin> mw_name ` set mvs \<longrightarrow> c_mv db' n = c_mv db n)"
  using assms
proof (induction mvs arbitrary: db)
  case (Cons mv mvs)
  let ?db = "db\<lparr>c_mv := (c_mv db)(mw_name mv := mv_add (c_mv db (mw_name mv)) (mw_rows mv))\<rparr>"
  have step: "insertMVRows (\<lambda>_ _. None) (mv # mvs) db = insertMVRows (\<lambda>_ _. None) mvs ?db"
    using Cons.prems insert_chunks_ok [of mv 0 db] by simp
  have "\<forall>m \<in> set mvs. mw_name m \<noteq> mw_name mv"
    using Cons.prems(2) by (metis distinct.simps(2) image_eqI list.simps(9) list.set_map)
  moreover from this have "mw_name mv \<notin> mw_name ` set mvs" by auto
  moreover obtain db' where "insertMVRows (\<lambda>_ _. None) mvs ?db = Inr db'" "db' = ?db\<lparr>c_mv := c_mv db'\<rparr>"
    "\<forall>m \<in> set mvs. c_mv db' (mw_name m) = mv_add (c_mv ?db (mw_name m)) (mw_rows m)"
    "\<forall>n. n \<notin> mw_name ` set mvs \<longrightarrow> c_mv db' n = c_mv ?db n"
    using Cons.IH [of ?db] Cons.prems by auto
  ultimately show ?case unfolding step by (intro exI [of _ db']) auto
qed simp

text \<open>C12.  Set membership: if the server accepts the statements, the views of a write end up
  holding what they held and exactly the tuples the records emit, each once; nothing else of the
  catalog changes.  The tuples must be free of the NUL byte, which PostgreSQL's TEXT excludes.\<close>

theorem mv_set_membership:
  assumes "resolveMVRows mvs records = Inr rows"
    and "distinct (map mv_name mvs)"
    and "list_all (\<lambda>mv. mv_columns mv \<noteq> [] \<and> list_all nul_free (emitted mv records)) mvs"
  shows "\<exists>db'. insertMVRows (\<lambda>_ _. None) rows db = Inr db' \<and> db' = db\<lparr>c_mv := c_mv db'\<rparr>
    \<and> (\<forall>mv \<in> set mvs. set (c_mv db' (mv_name mv)) = set (c_mv db (mv_name mv)) \<union> set (emitted mv records)
         \<and> (distinct (c_mv db (mv_name mv)) \<longrightarrow> distinct (c_mv db' (mv_name mv))))
    \<and> (\<forall>n. n \<notin> mv_name ` set mvs \<longrightarrow> c_mv db' n = c_mv db n)"
proof -
  have each: "list_all2 (\<lambda>mv w. mw_name w = mv_name mv \<and> mw_columns w = mv_columns mv
      \<and> list_all (\<lambda>r. length r = length (mw_columns w)) (mw_rows w)
      \<and> set (mw_rows w) = set (emitted mv records)) mvs rows"
    using assms(1,3) unfolding resolveMVRows_def map_res_Inr
  proof (induction rule: list_all2_induct)
    case (Cons mv mvs w rows)
    then obtain seen rs where r: "mv_records mv 0 records ({}, []) = Inr (seen, rs)"
      and w: "w = \<lparr>mw_name = mv_name mv, mw_columns = mv_columns mv, mw_rows = rs\<rparr>"
      by (auto simp: and_then_Inr)
    have "mv_wf mv (seen, rs)" "set rs = set (emitted mv records)"
      using mv_records_spec [OF r] Cons.prems by (auto simp: mv_wf_def)
    with w Cons show ?case by (auto simp: mv_wf_def list_all_iff)
  qed simp
  then have names: "map mw_name rows = map mv_name mvs"
    by (induction rule: list_all2_induct) auto
  have wf: "list_all (\<lambda>mv. mw_columns mv \<noteq> [] \<and> list_all (\<lambda>r. length r = length (mw_columns mv)) (mw_rows mv)) rows"
    using each assms(3) by (induction rule: list_all2_induct) auto
  obtain db' where db': "insertMVRows (\<lambda>_ _. None) rows db = Inr db'" "db' = db\<lparr>c_mv := c_mv db'\<rparr>"
    "\<forall>w \<in> set rows. c_mv db' (mw_name w) = mv_add (c_mv db (mw_name w)) (mw_rows w)"
    "\<forall>n. n \<notin> mw_name ` set rows \<longrightarrow> c_mv db' n = c_mv db n"
    using insertMVRows_ok [OF wf, of db] assms(2) names by auto
  have "\<exists>w \<in> set rows. mw_name w = mv_name mv \<and> set (mw_rows w) = set (emitted mv records)"
    if "mv \<in> set mvs" for mv
    using each that by (induction rule: list_all2_induct) auto
  then have "\<exists>ts. c_mv db' (mv_name mv) = mv_add (c_mv db (mv_name mv)) ts \<and> set ts = set (emitted mv records)"
    if "mv \<in> set mvs" for mv
    using that db'(3) by metis
  then have "\<forall>mv \<in> set mvs. set (c_mv db' (mv_name mv)) = set (c_mv db (mv_name mv)) \<union> set (emitted mv records)
      \<and> (distinct (c_mv db (mv_name mv)) \<longrightarrow> distinct (c_mv db' (mv_name mv)))"
    using mv_add_distinct mv_add_set by metis
  moreover have "\<forall>n. n \<notin> mv_name ` set mvs \<longrightarrow> c_mv db' n = c_mv db n"
    using db'(4) names by (metis list.set_map)
  ultimately show ?thesis using db'(1,2) by (intro exI [of _ db'] conjI)
qed

theorem mv_set_membership_witness:
  "\<exists>db'. insertMVRows (\<lambda>_ _. None) [\<lparr>mw_name = ''v'', mw_columns = [''c''], mw_rows = [[''x'']]\<rparr>]
      \<lparr>c_files = [], c_partitions = [], c_pending = [], c_mv = (\<lambda>_. []), c_next_id = 1\<rparr> = Inr db'
    \<and> set (c_mv db' ''v'') = {[''x'']}"
proof -
  let ?mv = "\<lparr>mv_name = ''v'', mv_columns = [''c''], mv_of = (\<lambda>r :: string. Inr [[r]])\<rparr>"
  have "resolveMVRows [?mv] [''x'', ''x''] = Inr [\<lparr>mw_name = ''v'', mw_columns = [''c''], mw_rows = [[''x'']]\<rparr>]"
    by (simp add: resolveMVRows_def mv_dedup_key_def Let_def)
  from mv_set_membership [OF this, of "\<lparr>c_files = [], c_partitions = [], c_pending = [], c_mv = (\<lambda>_. []), c_next_id = 1\<rparr>"]
  show ?thesis by (auto simp: emitted_def nul_free_def)
qed

section \<open>The lookup\<close>

definition tuple_value :: "string list \<Rightarrow> string list \<Rightarrow> string \<Rightarrow> string" where
  "tuple_value cols t c = (case map_of (zip cols t) c of None \<Rightarrow> [] | Some v \<Rightarrow> v)"

lemma holds_cong:
  "(\<And>c. c \<in> filter_cols f \<Longrightarrow> row c = row' c) \<Longrightarrow> holds clt row f = holds clt row' f"
  by (induction f) auto

lemma map_of_zip_map:
  "inj_on f (insert c (set xs)) \<Longrightarrow> map_of (zip (map f xs) ys) (f c) = map_of (zip xs ys) c"
proof (induction xs arbitrary: ys)
  case (Cons x xs)
  have "inj_on f (insert c (set xs))" using Cons.prems by (rule inj_on_subset) auto
  moreover have "f x = f c \<longleftrightarrow> x = c" using Cons.prems by (auto simp: inj_on_def)
  ultimately show ?case using Cons.IH by (cases ys) auto
qed simp

definition plain_ident :: "string \<Rightarrow> bool" where
  "plain_ident c \<longleftrightarrow> CHR 0x22 \<notin> set c \<and> CHR 0x00 \<notin> set c"

lemma pgx_sanitize_inj:
  assumes "pgx_sanitize san"
  shows "inj_on (\<lambda>c. san [c]) {c. plain_ident c}"
  using assms by (auto simp: inj_on_def pgx_sanitize_def plain_ident_def)

lemma mv_row_value:
  assumes "pgx_sanitize san" "list_all plain_ident cols" "c \<in> set cols"
  shows "mv_row san cols t (san [c]) = tuple_value cols t c"
proof -
  have "inj_on (\<lambda>c. san [c]) (insert c (set cols))"
    using pgx_sanitize_inj [OF assms(1)] assms(2,3) by (auto simp: list_all_iff inj_on_def)
  from map_of_zip_map [OF this, of t] show ?thesis by (simp add: mv_row_def tuple_value_def)
qed

lemma mv_project_total: "mv_project (\<lambda>t. Inr (g t)) i ts = Inr (map g ts)"
  by (induction ts arbitrary: i) auto

text \<open>A lookup returns the tuples of the view whose column values satisfy every filter, in
  the order of the server, projected through \<open>From\<close>; the pgx-quoted column expressions of the
  WHERE clause pick the right components of the tuple.\<close>

theorem Lookup_spec:
  assumes "pgx_sanitize san" and "list_all plain_ident (ld_columns d)"
    and "list_all (\<lambda>f. filter_cols f \<subseteq> set (ld_columns d) \<and> ordered f) filters"
  shows "Lookup san clt ord db d (\<lambda>t. Inr (g t)) filters =
    Inr (map g (ord (filter (\<lambda>t. list_all (holds clt (tuple_value (ld_columns d) t)) filters) (c_mv db (ld_name d)))))"
proof (cases "filters = []")
  case True
  then show ?thesis by (simp add: Lookup_def translateFilters_def mv_project_total)
next
  case False
  have tr: "\<exists>wh. translateFilters filters (mvColResolver san (ld_columns d)) = Inr (wh, concat (map bound_values filters))"
    using mv.translateFilters_eq [of filters "ld_columns d" san] assms(3)
    by (auto simp: list_all_iff split: if_splits)
  have "(\<forall>f \<in> set filters. holds clt (\<lambda>c. mv_row san (ld_columns d) t (san [c])) f)
      \<longleftrightarrow> list_all (holds clt (tuple_value (ld_columns d) t)) filters" for t
    unfolding list_all_iff
    using holds_cong [of _ "\<lambda>c. mv_row san (ld_columns d) t (san [c])" "tuple_value (ld_columns d) t" clt]
      mv_row_value [OF assms(1,2)] assms(3) by (metis (mono_tags, lifting) list_all_iff subsetD)
  with tr False eval_where [OF False, where ident = "\<lambda>c. san [c]"] show ?thesis
    by (auto simp: Lookup_def mv_project_total)
qed

definition plain_sanitizer :: sanitizer where
  "plain_sanitizer parts = join ''.'' (map (\<lambda>p. quot @ p @ quot) parts)"

lemma plain_sanitizer_ok: "pgx_sanitize plain_sanitizer"
  by (simp add: pgx_sanitize_def plain_sanitizer_def)

theorem Lookup_spec_witness:
  "Lookup plain_sanitizer (<) id
     \<lparr>c_files = [], c_partitions = [], c_pending = [], c_mv = (\<lambda>_. [[''x'', ''1''], [''y'', ''2'']]), c_next_id = 1\<rparr>
     \<lparr>ld_name = ''v'', ld_columns = [''a'', ''b''], ld_from = None\<rparr> (\<lambda>t. Inr t) [Eq ''b'' ''2'']
   = Inr [[''y'', ''2'']]"
  using Lookup_spec [OF plain_sanitizer_ok, of "\<lparr>ld_name = ''v'', ld_columns = [''a'', ''b''], ld_from = None\<rparr>"
      "[Eq ''b'' ''2'']" "(<)" id "\<lparr>c_files = [], c_partitions = [], c_pending = [],
        c_mv = (\<lambda>_. [[''x'', ''1''], [''y'', ''2'']]), c_next_id = 1\<rparr>" id]
  by (simp add: plain_ident_def tuple_value_def id_def)

text \<open>The case-insensitive column check lets through a handle that cannot work: a view
  declared with column \<open>customer\<close> accepts a lookup on \<open>Customer\<close>, whose SELECT then names
  the quoted, case-sensitive column \<open>"Customer"\<close>, while the DDL creates \<open>"customer"\<close>.\<close>

theorem new_mv_case_variant:
  assumes "pgx_sanitize san"
  shows "\<exists>h. NewMaterializedView san n
        [\<lparr>mv_name = ''v'', mv_columns = [''customer''], mv_of = (\<lambda>_ :: string. Inr [])\<rparr>]
        \<lparr>ld_name = ''v'', ld_columns = [''Customer''], ld_from = Some (\<lambda>t. Inr t)\<rparr> = Inr h
      \<and> sq_head (mh_sql h) = ''SELECT '' @ (quot @ ''Customer'' @ quot) @ '' FROM '' @ MV san n ''v''
      \<and> renderMV san n \<lparr>dm_name = ''v'', dm_columns = [''customer'']\<rparr> =
          ''CREATE TABLE IF NOT EXISTS '' @ MV san n ''v'' @ '' ('' @ nl
          @ ''    '' @ (quot @ ''customer'' @ quot) @ '' TEXT NOT NULL,'' @ nl
          @ ''    PRIMARY KEY ('' @ (quot @ ''customer'' @ quot) @ '')'' @ nl @ '');'' @ nl"
proof -
  have fold: "equalSliceCase [''Customer''] [''customer'']" by code_simp
  have "san [''Customer''] = quot @ ''Customer'' @ quot" "san [''customer''] = quot @ ''customer'' @ quot"
    using assms by (simp_all add: pgx_sanitize_def)
  with fold show ?thesis
    by (simp add: NewMaterializedView_def findDeclaredMV_def MVLookupSQL_def renderMV_def Let_def)
qed

theorem new_mv_case_variant_witness:
  "\<exists>h. NewMaterializedView plain_sanitizer (NewNames ''public'' ''s3pgstore_'')
        [\<lparr>mv_name = ''v'', mv_columns = [''customer''], mv_of = (\<lambda>_ :: string. Inr [])\<rparr>]
        \<lparr>ld_name = ''v'', ld_columns = [''Customer''], ld_from = Some (\<lambda>t. Inr t)\<rparr> = Inr h"
  using new_mv_case_variant [OF plain_sanitizer_ok] by blast

end
