(* ===== verification/Partition_Key.thy ===== *)
theory Partition_Key
  imports Go_Prelude
begin

text \<open>
  \<open>internal/catalog/partition.go\<close> (the Hive-style partition-key parser shared by the write
  path and by \<open>cmd/s3pgstore-rebuild\<close>), the S3 key layout of \<open>store.go\<close>
  (\<open>dataPath\<close>, \<open>dataKey\<close>) and its inverse in \<open>rebuild.go\<close> (\<open>dataPrefixOf\<close>,
  the split of \<open>groupByPartition\<close>).  \<open>hive_key\<close> is the specification: the key a list of
  part names and values denotes.
\<close>

datatype part_error =
    Key_empty
  | Segment_count nat nat
  | Segment_malformed nat
  | Segment_name nat
  | Segment_value_empty nat

text \<open>The loop of \<open>PartitionKeyValues\<close>, from segment \<open>i\<close> on; the lengths agree when it starts.\<close>

fun partition_segs :: "nat \<Rightarrow> string list \<Rightarrow> string list \<Rightarrow> part_error + string list" where
  "partition_segs i [] parts = Inr []"
| "partition_segs i (seg # segs) parts =
     (case index_byte CHR ''='' seg of
        None \<Rightarrow> Inl (Segment_malformed i)
      | Some eq \<Rightarrow>
          if eq = 0 then Inl (Segment_malformed i)
          else
            let name = take eq seg; value = drop (Suc eq) seg
            in if parts = [] \<or> name \<noteq> hd parts then Inl (Segment_name i)
               else if value = [] then Inl (Segment_value_empty i)
               else (case partition_segs (Suc i) segs (tl parts) of
                       Inl e \<Rightarrow> Inl e
                     | Inr out \<Rightarrow> Inr (value # out)))"

definition PartitionKeyValues :: "string \<Rightarrow> string list \<Rightarrow> part_error + string list" where
  "PartitionKeyValues key parts =
     (if key = [] then Inl Key_empty
      else let segs = split_on CHR ''/'' key
           in if length segs \<noteq> length parts then Inl (Segment_count (length segs) (length parts))
              else partition_segs 0 segs parts)"

text \<open>The key that \<open>parts\<close> and \<open>vals\<close> denote: \<open>p1=v1/p2=v2/...\<close>.\<close>

definition hive_seg :: "string \<Rightarrow> string \<Rightarrow> string" where
  "hive_seg p v = p @ CHR ''='' # v"

definition hive_key :: "string list \<Rightarrow> string list \<Rightarrow> string" where
  "hive_key parts vals = join [CHR ''/''] (map2 hive_seg parts vals)"

definition ok_name :: "string \<Rightarrow> bool" where
  "ok_name p \<longleftrightarrow> p \<noteq> [] \<and> CHR ''='' \<notin> set p \<and> CHR ''/'' \<notin> set p"

definition ok_value :: "string \<Rightarrow> bool" where
  "ok_value v \<longleftrightarrow> v \<noteq> [] \<and> CHR ''/'' \<notin> set v"

lemma hive_seg_no_slash: "ok_name p \<Longrightarrow> ok_value v \<Longrightarrow> CHR ''/'' \<notin> set (hive_seg p v)"
  by (simp add: hive_seg_def ok_name_def ok_value_def)

lemma partition_segs_hive:
  "list_all ok_name parts \<Longrightarrow> list_all ok_value vals \<Longrightarrow> length vals = length parts
   \<Longrightarrow> partition_segs i (map2 hive_seg parts vals) parts = Inr vals"
proof (induction parts arbitrary: vals i)
  case (Cons p ps)
  then obtain v vs where "vals = v # vs" by (cases vals) auto
  with Cons show ?case
    by (auto simp: hive_seg_def ok_name_def ok_value_def index_byte_append Let_def)
qed simp

lemma partition_segs_Inr:
  "partition_segs i segs parts = Inr vals \<Longrightarrow> length segs = length parts
   \<Longrightarrow> (\<And>s. s \<in> set segs \<Longrightarrow> CHR ''/'' \<notin> set s)
   \<Longrightarrow> segs = map2 hive_seg parts vals \<and> length vals = length parts
       \<and> list_all ok_name parts \<and> list_all ok_value vals"
proof (induction i segs parts arbitrary: vals rule: partition_segs.induct)
  case (2 i seg segs parts)
  from "2.prems"(2) obtain p ps where parts: "parts = p # ps" by (cases parts) auto
  from "2.prems"(1) parts obtain eq out where eq: "index_byte CHR ''='' seg = Some eq" "eq \<noteq> 0"
    and name: "take eq seg = p" and val: "drop (Suc eq) seg \<noteq> []"
    and rec: "partition_segs (Suc i) segs ps = Inr out" and vals: "vals = drop (Suc eq) seg # out"
    by (auto simp: Let_def split: option.splits if_splits sum.splits)
  have seg: "seg = hive_seg p (drop (Suc eq) seg)" "CHR ''='' \<notin> set p"
    using index_byte_Some [OF eq(1)] name by (auto simp: hive_seg_def)
  have noslash: "CHR ''/'' \<notin> set seg" using "2.prems"(3) by simp
  have "p \<noteq> []" using eq name index_byte_Some [OF eq(1)] by auto
  with seg noslash have "ok_name p" "ok_value (drop (Suc eq) seg)"
    using val by (auto simp: ok_name_def ok_value_def hive_seg_def name [symmetric]
        dest: in_set_takeD in_set_dropD)
  moreover have "segs = map2 hive_seg ps out \<and> length out = length ps
      \<and> list_all ok_name ps \<and> list_all ok_value out"
    using "2.IH" [OF eq(1) eq(2) refl refl] "2.prems" parts name val rec by simp
  ultimately show ?case using parts vals seg(1) by simp
qed auto

lemma hive_key_nonempty:
  "parts \<noteq> [] \<Longrightarrow> length vals = length parts \<Longrightarrow> hive_key parts vals \<noteq> []"
  by (cases parts; cases vals; cases "map2 hive_seg (tl parts) (tl vals)")
     (auto simp: hive_key_def hive_seg_def)

lemma split_hive_key:
  assumes "parts \<noteq> []" "length vals = length parts" "list_all ok_name parts" "list_all ok_value vals"
  shows "split_on CHR ''/'' (hive_key parts vals) = map2 hive_seg parts vals"
  unfolding hive_key_def
proof (rule split_on_join)
  show "map2 hive_seg parts vals \<noteq> []" using assms by (cases parts; cases vals) auto
  fix s assume "s \<in> set (map2 hive_seg parts vals)"
  then obtain p v where "s = hive_seg p v" "(p, v) \<in> set (zip parts vals)" by auto
  then have "s = hive_seg p v" "p \<in> set parts" "v \<in> set vals"
    by (auto dest: set_zip_leftD set_zip_rightD)
  with assms show "CHR ''/'' \<notin> set s"
    by (simp add: list_all_iff hive_seg_no_slash)
qed

text \<open>C11.  The parser accepts exactly the Hive keys of the configured parts: a key parses to
  \<open>vals\<close> if and only if the part names are non-empty and free of separators, every value is
  non-empty and free of \<open>/\<close>, and the key is the rendering of the parts with these values.\<close>

theorem PartitionKeyValues_exact:
  "PartitionKeyValues key parts = Inr vals \<longleftrightarrow>
     parts \<noteq> [] \<and> length vals = length parts \<and> list_all ok_name parts \<and> list_all ok_value vals
     \<and> key = hive_key parts vals"
proof
  assume ok: "PartitionKeyValues key parts = Inr vals"
  let ?segs = "split_on CHR ''/'' key"
  from ok have "key \<noteq> []" "length ?segs = length parts" "partition_segs 0 ?segs parts = Inr vals"
    by (auto simp: PartitionKeyValues_def Let_def split: if_splits)
  then have "?segs = map2 hive_seg parts vals \<and> length vals = length parts
      \<and> list_all ok_name parts \<and> list_all ok_value vals" "parts \<noteq> []"
    using partition_segs_Inr split_on_no_sep by (blast, auto)
  moreover from this have "key = hive_key parts vals"
    using join_split_on [of "CHR ''/''" key] by (simp add: hive_key_def)
  ultimately show "parts \<noteq> [] \<and> length vals = length parts \<and> list_all ok_name parts
      \<and> list_all ok_value vals \<and> key = hive_key parts vals" by simp
next
  assume *: "parts \<noteq> [] \<and> length vals = length parts \<and> list_all ok_name parts
      \<and> list_all ok_value vals \<and> key = hive_key parts vals"
  then have "split_on CHR ''/'' key = map2 hive_seg parts vals" by (simp add: split_hive_key)
  with * show "PartitionKeyValues key parts = Inr vals"
    by (simp add: PartitionKeyValues_def Let_def hive_key_nonempty partition_segs_hive)
qed

end
