(* ===== verification/Write_Path.thy ===== *)
theory Write_Path
  imports Mv_Views Partition_Key
begin

text \<open>
  The write path: \<open>write_options.go\<close>, \<open>idempotency.go\<close>, \<open>write.go\<close> and the key layout of
  \<open>store.go\<close>.  A write runs on a \<open>world\<close>: the catalog, the objects of the bucket and the
  notifications delivered.  What is outside the program is in \<open>env\<close>: the encoder, the UUID
  generator, the clock, the driver's conversion of extension values, the failure of each call (at
  most one per call site and attempt), the outcome of the PUT and of the COMMIT, which may take
  effect and still report an error, and \<open>others\<close>, what concurrent sessions committed between
  the steps of this one.  \<open>writePartition\<close> is the whole function, \<open>Executor.RunInTx\<close> (on the
  pool) included: an error of the body rolls the catalog back, not the bucket.
\<close>

section \<open>The store and its world\<close>

record 'a store =
  st_parts :: "string list"
  st_exts :: "ext_column list"
  st_mvs :: "'a mv_def list"
  st_partition_key_of :: "'a \<Rightarrow> string"
  st_s3_prefix :: string
  st_notify_channel :: string
  st_entity_key_of :: "('a \<Rightarrow> string) option"
  st_version_of :: "('a \<Rightarrow> int) option"

record s3_object =
  so_body :: string
  so_meta :: s3_metadata

record world =
  wd_db :: catalog
  wd_s3 :: "string \<rightharpoonup> s3_object"
  wd_notified :: "string list"

datatype put_outcome = Put_ok | Put_absent string | Put_stored string

record 'a env =
  e_encode :: "'a list \<Rightarrow> string + string \<times> int"
  e_uuid :: "string + string"
  e_now :: int
  e_codecs :: codecs
  e_pgx :: "ext_column \<Rightarrow> govalue \<Rightarrow> govalue"
  e_lookup :: "sql_error option"
  e_relookup :: "sql_error option"
  e_pending_insert :: "sql_error option"
  e_pending_cleanup :: "sql_error option"
  e_begin :: "sql_error option"
  e_upsert :: "sql_error option"
  e_insert :: "sql_error option"
  e_put :: put_outcome
  e_delete :: "sql_error option"
  e_mv :: "string \<Rightarrow> nat \<Rightarrow> sql_error option"
  e_notify :: "sql_error option"
  e_commit :: commit_outcome
  e_others :: "nat \<Rightarrow> world \<Rightarrow> world"

section \<open>Keys of the bucket (store.go)\<close>

definition dataPath :: "'a store \<Rightarrow> string" where
  "dataPath st = (if st_s3_prefix st = [] then ''data'' else st_s3_prefix st @ ''/data'')"

definition dataKey :: "'a store \<Rightarrow> string \<Rightarrow> string \<Rightarrow> string" where
  "dataKey st partitionKey uuid = dataPath st @ ''/'' @ partitionKey @ ''/'' @ uuid @ ''.parquet''"

definition validatePartitionKey :: "'a store \<Rightarrow> 'a \<Rightarrow> part_error + string \<times> string list" where
  "validatePartitionKey st rec =
     (let key = st_partition_key_of st rec in
      case PartitionKeyValues key (st_parts st) of
        Inl e \<Rightarrow> Inl e
      | Inr vals \<Rightarrow> Inr (key, vals))"

section \<open>Options\<close>

record 'a write_opts =
  wo_token :: "string option"
  wo_token_of :: "('a list \<Rightarrow> string + string) option"
  wo_expected_set :: bool
  wo_expected :: int
  wo_metadata :: metadata

datatype 'a write_option =
    WithIdempotencyToken string
  | WithIdempotencyTokenOf "'a list \<Rightarrow> string + string"
  | WithExpectedVersion int
  | WithMetadata metadata

fun applyWrite :: "'a write_option \<Rightarrow> 'a write_opts \<Rightarrow> 'a write_opts" where
  "applyWrite (WithIdempotencyToken t) o1 = o1\<lparr>wo_token := Some t\<rparr>"
| "applyWrite (WithIdempotencyTokenOf f) o1 = o1\<lparr>wo_token_of := Some f\<rparr>"
| "applyWrite (WithExpectedVersion n) o1 = o1\<lparr>wo_expected_set := True, wo_expected := n\<rparr>"
| "applyWrite (WithMetadata m) o1 = o1\<lparr>wo_metadata := m\<rparr>"

definition no_opts :: "'a write_opts" where
  "no_opts = \<lparr>wo_token = None, wo_token_of = None, wo_expected_set = False, wo_expected = 0, wo_metadata = []\<rparr>"

datatype tx_error =
    Tx_version_conflict
  | Tx_token_race
  | Tx_sql string sql_error
  | Tx_metadata s3md_error
  | Tx_put string
  | Tx_mv mv_error
  | Tx_begin sql_error
  | Tx_commit string

datatype write_error =
    Wr_empty
  | Wr_tokens_exclusive
  | Wr_options md_error
  | Wr_part part_error
  | Wr_token_of string
  | Wr_lookup sql_error
  | Wr_lookup_scan scan_error
  | Wr_mv mv_error
  | Wr_encode string
  | Wr_uuid string
  | Wr_pending sql_error
  | Wr_relookup sql_error
  | Wr_relookup_scan scan_error
  | Wr_race_no_row
  | Wr_version_conflict
  | Wr_cancelled
  | Wr_catalog_tx tx_error

definition resolveWriteOpts :: "'a store \<Rightarrow> 'a write_option list \<Rightarrow> write_error + 'a write_opts" where
  "resolveWriteOpts st opts =
     (let o1 = fold applyWrite opts no_opts in
      if wo_token o1 \<noteq> None \<and> wo_token_of o1 \<noteq> None then Inl Wr_tokens_exclusive
      else case validateMetadata (wo_metadata o1) (st_exts st) of
             Inl e \<Rightarrow> Inl (Wr_options e)
           | Inr _ \<Rightarrow> Inr o1)"

section \<open>idempotency.go\<close>

definition resolveTokenForPartition :: "'a list \<Rightarrow> 'a write_opts \<Rightarrow> write_error + string" where
  "resolveTokenForPartition records o1 =
     (case wo_token o1 of
        Some t \<Rightarrow> Inr t
      | None \<Rightarrow>
          (case wo_token_of o1 of
             None \<Rightarrow> Inr []
           | Some f \<Rightarrow> (case f records of Inl e \<Rightarrow> Inl (Wr_token_of e) | Inr t \<Rightarrow> Inr t)))"

definition ext_names :: "'a store \<Rightarrow> string list" where
  "ext_names st = map ec_name (st_exts st)"

text \<open>\<open>QueryRow(...).Scan\<close>: the first row, or no rows.\<close>

definition lookupTokenFileRef ::
  "'a store \<Rightarrow> sql_error option \<Rightarrow> catalog \<Rightarrow> string \<Rightarrow> string
   \<Rightarrow> (sql_error + scan_error) + file_ref option" where
  "lookupTokenFileRef st fail db partitionKey token =
     (case fail of
        Some e \<Rightarrow> Inl (Inl e)
      | None \<Rightarrow>
          (case sql_idempotency_lookup (ext_names st) partitionKey token db of
             [] \<Rightarrow> Inr None
           | row # _ \<Rightarrow>
               (case scan_file_ref (ext_names st) row of
                  Inl e \<Rightarrow> Inl (Inr e)
                | Inr ref \<Rightarrow> Inr (Some ref))))"

datatype lookup_error = Lk_key_empty | Lk_token_empty | Lk_part part_error | Lk_sql sql_error | Lk_scan scan_error

definition LookupByToken ::
  "'a store \<Rightarrow> sql_error option \<Rightarrow> catalog \<Rightarrow> string \<Rightarrow> string \<Rightarrow> lookup_error + file_ref option" where
  "LookupByToken st fail db partitionKey token =
     (if partitionKey = [] then Inl Lk_key_empty
      else if token = [] then Inl Lk_token_empty
      else case PartitionKeyValues partitionKey (st_parts st) of
             Inl e \<Rightarrow> Inl (Lk_part e)
           | Inr _ \<Rightarrow>
               (case lookupTokenFileRef st fail db partitionKey token of
                  Inl (Inl e) \<Rightarrow> Inl (Lk_sql e)
                | Inl (Inr e) \<Rightarrow> Inl (Lk_scan e)
                | Inr r \<Rightarrow> Inr r))"

section \<open>Steps of the catalog transaction\<close>

definition upsertPartition ::
  "'a store \<Rightarrow> int \<Rightarrow> sql_error option \<Rightarrow> string \<Rightarrow> string list \<Rightarrow> bool \<Rightarrow> int \<Rightarrow> catalog
   \<Rightarrow> (tx_error + int) \<times> catalog" where
  "upsertPartition st now fail partitionKey partValues expectedSet expected db =
     (if expectedSet \<and> expected > 0 then
        (case fail of
           Some e \<Rightarrow> (Inl (Tx_sql ''update partitions (OCC)'' e), db)
         | None \<Rightarrow>
             (case sql_partition_update_occ now partitionKey expected db of
                (None, db') \<Rightarrow> (Inl Tx_version_conflict, db')
              | (Some v, db') \<Rightarrow> (Inr v, db')))
      else
        (case fail of
           Some e \<Rightarrow> (Inl (Tx_sql ''upsert partitions'' e), db)
         | None \<Rightarrow>
             (case sql_partition_upsert now expectedSet (st_parts st) partitionKey partValues db of
                (None, db') \<Rightarrow>
                  (Inl (if expectedSet then Tx_version_conflict
                        else Tx_sql ''upsert partitions'' (Server_error ''no rows'')), db')
              | (Some v, db') \<Rightarrow> (Inr v, db'))))"

record file_insert_opts =
  fi_partition_key :: string
  fi_s3_key :: string
  fi_version :: int
  fi_file_size :: int
  fi_uncompressed_size :: int
  fi_record_count :: int
  fi_token :: string
  fi_part_values :: "string list"
  fi_metadata :: metadata

fun nullableString :: "string \<Rightarrow> sqlval" where
  "nullableString s = (if s = [] then Null else TextV s)"

definition insert_args ::
  "(ext_column \<Rightarrow> govalue \<Rightarrow> govalue) \<Rightarrow> ext_column list \<Rightarrow> file_insert_opts \<Rightarrow> sqlval list" where
  "insert_args pgx exts row =
     [TextV (fi_partition_key row), TextV (fi_s3_key row), BigInt (fi_version row),
      BigInt (fi_file_size row), BigInt (fi_uncompressed_size row), BigInt (fi_record_count row),
      nullableString (fi_token row)]
     @ map TextV (fi_part_values row)
     @ map (\<lambda>c. ext_sql (let v = metadataValueFor (fi_metadata row) c in if v = GNil then GNil else pgx c v)) exts"

fun isUniqueViolation :: "sql_error \<Rightarrow> bool" where
  "isUniqueViolation (Unique_violation _) = True"
| "isUniqueViolation _ = False"

definition insertFile ::
  "'a store \<Rightarrow> (ext_column \<Rightarrow> govalue \<Rightarrow> govalue) \<Rightarrow> int \<Rightarrow> sql_error option \<Rightarrow> file_insert_opts \<Rightarrow> catalog
   \<Rightarrow> (tx_error + int \<times> int) \<times> catalog" where
  "insertFile st pgx now fail row db =
     (let hasToken = fi_token row \<noteq> [];
          (res, db') = (case fail of
             Some e \<Rightarrow> (Inl e, db)
           | None \<Rightarrow> sql_files_insert now (files_insert_cols (st_parts st) (ext_names st))
                      (insert_args pgx (st_exts st) row) db)
      in case res of
           Inl e \<Rightarrow> (Inl (if hasToken \<and> isUniqueViolation e then Tx_token_race
                          else Tx_sql ''insert files'' e), db')
         | Inr r \<Rightarrow> (Inr r, db'))"

definition notifySequencer :: "'a store \<Rightarrow> sql_error option \<Rightarrow> tx_error + string list" where
  "notifySequencer st fail =
     (if st_notify_channel st = [] then Inr []
      else case fail of
             Some e \<Rightarrow> Inl (Tx_sql ''pg_notify'' e)
           | None \<Rightarrow> Inr [st_notify_channel st])"

definition s3_put :: "put_outcome \<Rightarrow> string \<Rightarrow> s3_object \<Rightarrow> (string \<rightharpoonup> s3_object) \<Rightarrow> tx_error option \<times> (string \<rightharpoonup> s3_object)" where
  "s3_put out key obj s3 =
     (case out of
        Put_ok \<Rightarrow> (None, s3(key \<mapsto> obj))
      | Put_absent e \<Rightarrow> (Some (Tx_put e), s3)
      | Put_stored e \<Rightarrow> (Some (Tx_put e), s3(key \<mapsto> obj)))"

text \<open>What the transaction body leaves: its result (the values \<open>version\<close>, \<open>fileID\<close>,
  \<open>writtenAt\<close> and the queued notifications), \<open>s3PutAttempted\<close>, the tables as the
  transaction sees them, and the bucket.\<close>

record tx_state =
  tx_res :: "tx_error + int \<times> int \<times> int \<times> string list"
  tx_put_attempted :: bool
  tx_db :: catalog
  tx_s3 :: "string \<rightharpoonup> s3_object"

definition tx_fail :: "tx_error \<Rightarrow> bool \<Rightarrow> catalog \<Rightarrow> (string \<rightharpoonup> s3_object) \<Rightarrow> tx_state" where
  "tx_fail e put db s3 = \<lparr>tx_res = Inl e, tx_put_attempted = put, tx_db = db, tx_s3 = s3\<rparr>"

text \<open>After the PUT: DELETE of the orphan row, view rows, NOTIFY.\<close>

definition tx_finish ::
  "'a store \<Rightarrow> 'a env \<Rightarrow> string \<Rightarrow> mv_write_rows list \<Rightarrow> int \<times> int \<times> int \<Rightarrow> catalog \<Rightarrow> (string \<rightharpoonup> s3_object)
   \<Rightarrow> tx_state" where
  "tx_finish st env s3Key mvRows vals db s3 =
     (case e_delete env of
        Some e \<Rightarrow> tx_fail (Tx_sql ''delete pending_writes'' e) True db s3
      | None \<Rightarrow>
         (let db3 = sql_pending_delete s3Key db in
          case insertMVRows (e_mv env) mvRows db3 of
            Inl e \<Rightarrow> tx_fail (Tx_mv e) True db3 s3
          | Inr db4 \<Rightarrow>
             (case notifySequencer st (e_notify env) of
                Inl e \<Rightarrow> tx_fail e True db4 s3
              | Inr ns \<Rightarrow> \<lparr>tx_res = Inr (fst vals, fst (snd vals), snd (snd vals), ns),
                           tx_put_attempted = True, tx_db = db4, tx_s3 = s3\<rparr>)))"

text \<open>The user-metadata and the PUT.\<close>

definition tx_upload ::
  "'a store \<Rightarrow> 'a env \<Rightarrow> 'a write_opts \<Rightarrow> string \<Rightarrow> string \<Rightarrow> string \<Rightarrow> int \<Rightarrow> int \<Rightarrow> mv_write_rows list
   \<Rightarrow> int \<times> int \<times> int \<Rightarrow> catalog \<Rightarrow> (string \<rightharpoonup> s3_object) \<Rightarrow> tx_state" where
  "tx_upload st env o1 token s3Key body uncompressedSize recordCount mvRows vals db s3 =
     (case BuildS3Metadata (e_codecs env) token recordCount uncompressedSize (fst vals)
             (st_exts st) (wo_metadata o1) of
        Inl e \<Rightarrow> tx_fail (Tx_metadata e) False db s3
      | Inr md \<Rightarrow>
         (case s3_put (e_put env) s3Key \<lparr>so_body = body, so_meta = md\<rparr> s3 of
            (Some e, s3') \<Rightarrow> tx_fail e True db s3'
          | (None, s3') \<Rightarrow> tx_finish st env s3Key mvRows vals db s3'))"

definition write_tx_body ::
  "'a store \<Rightarrow> 'a env \<Rightarrow> 'a write_opts \<Rightarrow> string \<Rightarrow> string list \<Rightarrow> string \<Rightarrow> string \<Rightarrow> string \<Rightarrow> int \<Rightarrow> int
   \<Rightarrow> mv_write_rows list \<Rightarrow> world \<Rightarrow> tx_state" where
  "write_tx_body st env o1 partitionKey partValues token s3Key body uncompressedSize recordCount mvRows w =
     (case upsertPartition st (e_now env) (e_upsert env) partitionKey partValues
             (wo_expected_set o1) (wo_expected o1) (wd_db w) of
        (Inl e, db1) \<Rightarrow> tx_fail e False db1 (wd_s3 w)
      | (Inr version, db1) \<Rightarrow>
         (case insertFile st (e_pgx env) (e_now env) (e_insert env)
                \<lparr>fi_partition_key = partitionKey, fi_s3_key = s3Key, fi_version = version,
                 fi_file_size = int (length body), fi_uncompressed_size = uncompressedSize,
                 fi_record_count = recordCount, fi_token = token, fi_part_values = partValues,
                 fi_metadata = wo_metadata o1\<rparr> db1 of
            (Inl e, db2) \<Rightarrow> tx_fail e False db2 (wd_s3 w)
          | (Inr (fileID, writtenAt), db2) \<Rightarrow>
              tx_upload st env o1 token s3Key body uncompressedSize recordCount mvRows
                (version, fileID, writtenAt) db2 (wd_s3 w)))"

text \<open>A rollback undoes everything but the sequence.\<close>

definition rollback :: "catalog \<Rightarrow> catalog \<Rightarrow> catalog" where
  "rollback before after = before\<lparr>c_next_id := c_next_id after\<rparr>"

text \<open>\<open>poolExecutor.RunInTx\<close> around the body: the error it returns, if any, and the world.\<close>

definition run_write_tx ::
  "'a env \<Rightarrow> (world \<Rightarrow> tx_state) \<Rightarrow> world \<Rightarrow> (tx_error + int \<times> int \<times> int) \<times> bool \<times> world" where
  "run_write_tx env body w =
     (case e_begin env of
        Some e \<Rightarrow> (Inl (Tx_begin e), False, w)
      | None \<Rightarrow>
          (let t = body w; rolled = w\<lparr>wd_db := rollback (wd_db w) (tx_db t), wd_s3 := tx_s3 t\<rparr> in
           case tx_res t of
             Inl e \<Rightarrow> (Inl e, tx_put_attempted t, rolled)
           | Inr (version, fileID, writtenAt, ns) \<Rightarrow>
               (let done = w\<lparr>wd_db := tx_db t, wd_s3 := tx_s3 t, wd_notified := wd_notified w @ ns\<rparr> in
                case e_commit env of
                  Commit_ok \<Rightarrow> (Inr (version, fileID, writtenAt), tx_put_attempted t, done)
                | Commit_failed e \<Rightarrow> (Inl (Tx_commit e), tx_put_attempted t, rolled)
                | Commit_lost e \<Rightarrow> (Inl (Tx_commit e), tx_put_attempted t, done))))"

definition translateWriteTxErr ::
  "'a store \<Rightarrow> 'a env \<Rightarrow> tx_error \<Rightarrow> string \<Rightarrow> string \<Rightarrow> catalog \<Rightarrow> write_error + file_ref" where
  "translateWriteTxErr st env e partitionKey token db =
     (case e of
        Tx_token_race \<Rightarrow>
          (case lookupTokenFileRef st (e_relookup env) db partitionKey token of
             Inl (Inl l) \<Rightarrow> Inl (Wr_relookup l)
           | Inl (Inr l) \<Rightarrow> Inl (Wr_relookup_scan l)
           | Inr None \<Rightarrow> Inl Wr_race_no_row
           | Inr (Some existing) \<Rightarrow> Inr existing)
      | Tx_version_conflict \<Rightarrow> Inl Wr_version_conflict
      | _ \<Rightarrow> Inl (Wr_catalog_tx e))"

section \<open>writePartition\<close>

text \<open>Steps 2 to 5: the view rows, the encoded file, the key and the tracking row, which commits on
  its own.\<close>

definition prepare_write ::
  "'a store \<Rightarrow> 'a env \<Rightarrow> string \<Rightarrow> 'a list \<Rightarrow> world
   \<Rightarrow> write_error + mv_write_rows list \<times> string \<times> int \<times> string \<times> catalog" where
  "prepare_write st env partitionKey records w =
     (case resolveMVRows (st_mvs st) records of
        Inl e \<Rightarrow> Inl (Wr_mv e)
      | Inr mvRows \<Rightarrow>
     (case e_encode env records of
        Inl e \<Rightarrow> Inl (Wr_encode e)
      | Inr (body, uncompressedSize) \<Rightarrow>
     (case e_uuid env of
        Inl e \<Rightarrow> Inl (Wr_uuid e)
      | Inr uuid \<Rightarrow>
     (case e_pending_insert env of
        Some e \<Rightarrow> Inl (Wr_pending e)
      | None \<Rightarrow>
     (case sql_pending_insert (e_now env) (dataKey st partitionKey uuid) (wd_db w) of
        Inl e \<Rightarrow> Inl (Wr_pending e)
      | Inr db0 \<Rightarrow> Inr (mvRows, body, uncompressedSize, dataKey st partitionKey uuid, db0))))))"

definition write_fresh ::
  "'a store \<Rightarrow> 'a env \<Rightarrow> 'a write_opts \<Rightarrow> string \<Rightarrow> string list \<Rightarrow> string \<Rightarrow> 'a list \<Rightarrow> world
   \<Rightarrow> (write_error + file_ref) \<times> world" where
  "write_fresh st env o1 partitionKey partValues token records w =
     (case prepare_write st env partitionKey records w of
        Inl e \<Rightarrow> (Inl e, w)
      | Inr (mvRows, body, uncompressedSize, s3Key, db0) \<Rightarrow>
     (let recordCount = int (length records); w1 = e_others env 1 (w\<lparr>wd_db := db0\<rparr>) in
      case run_write_tx env
             (write_tx_body st env o1 partitionKey partValues token s3Key body uncompressedSize
                recordCount mvRows) w1 of
        (Inr (version, fileID, writtenAt), _, w2) \<Rightarrow>
          (Inr \<lparr>FileID = fileID, PartitionKey = partitionKey, S3Key = s3Key, Version = version,
               WrittenAt = writtenAt, RecordCount = recordCount, FileSize = int (length body),
               UncompressedSize = uncompressedSize, Extensions = wo_metadata o1, Offset = OffsetNone\<rparr>, w2)
      | (Inl e, putAttempted, w2) \<Rightarrow>
          (let w3 = (if putAttempted \<or> e_pending_cleanup env \<noteq> None then w2
                     else w2\<lparr>wd_db := sql_pending_delete s3Key (wd_db w2)\<rparr>);
               w4 = e_others env 2 w3
           in (translateWriteTxErr st env e partitionKey token (wd_db w4), w4))))"

definition writePartition ::
  "'a store \<Rightarrow> 'a env \<Rightarrow> string \<Rightarrow> string list \<Rightarrow> 'a list \<Rightarrow> 'a write_opts \<Rightarrow> world
   \<Rightarrow> (write_error + file_ref) \<times> world" where
  "writePartition st env partitionKey partValues records o1 w =
     (case resolveTokenForPartition records o1 of
        Inl e \<Rightarrow> (Inl e, w)
      | Inr token \<Rightarrow>
          if token = [] then write_fresh st env o1 partitionKey partValues token records w
          else (case lookupTokenFileRef st (e_lookup env) (wd_db w) partitionKey token of
                  Inl (Inl e) \<Rightarrow> (Inl (Wr_lookup e), w)
                | Inl (Inr e) \<Rightarrow> (Inl (Wr_lookup_scan e), w)
                | Inr (Some existing) \<Rightarrow> (Inr existing, w)
                | Inr None \<Rightarrow>
                    write_fresh st env o1 partitionKey partValues token records (e_others env 0 w)))"

section \<open>Write and WriteWithKey\<close>

definition WriteWithKey ::
  "'a store \<Rightarrow> 'a env \<Rightarrow> string \<Rightarrow> 'a list \<Rightarrow> 'a write_option list \<Rightarrow> world
   \<Rightarrow> (write_error + file_ref) \<times> world" where
  "WriteWithKey st env partitionKey records opts w =
     (if records = [] then (Inl Wr_empty, w)
      else case PartitionKeyValues partitionKey (st_parts st) of
             Inl e \<Rightarrow> (Inl (Wr_part e), w)
           | Inr vals \<Rightarrow>
               (case resolveWriteOpts st opts of
                  Inl e \<Rightarrow> (Inl e, w)
                | Inr o1 \<Rightarrow> writePartition st env partitionKey vals records o1 w))"

text \<open>The grouping loop of \<open>Write\<close>: \<open>groups\<close> and \<open>keyValues\<close> as association lists.\<close>

fun group_records ::
  "'a store \<Rightarrow> 'a list \<Rightarrow> (string \<times> 'a list) list \<times> (string \<times> string list) list
   \<Rightarrow> part_error + (string \<times> 'a list) list \<times> (string \<times> string list) list" where
  "group_records st [] gk = Inr gk"
| "group_records st (rec # recs) (groups, keyValues) =
     (case validatePartitionKey st rec of
        Inl e \<Rightarrow> Inl e
      | Inr (key, vals) \<Rightarrow>
          group_records st recs
            (map_put key ((case map_of groups key of None \<Rightarrow> [] | Some rs \<Rightarrow> rs) @ [rec]) groups,
             (if map_of keyValues key = None then map_put key vals keyValues else keyValues)))"

text \<open>The fan-out: one task per partition, completing in the order \<open>sched\<close>; a task whose context
  the first error cancelled before it started returns at once (\<open>cancelled\<close>).  The result slots
  keep the order of the keys; \<open>zero_ref\<close> stays in the slots of the partitions that failed, and
  the error is the first one.\<close>

definition zero_ref :: file_ref where
  "zero_ref = \<lparr>FileID = 0, PartitionKey = [], S3Key = [], Version = 0, WrittenAt = 0, RecordCount = 0,
     FileSize = 0, UncompressedSize = 0, Extensions = [], Offset = 0\<rparr>"

fun run_tasks ::
  "(nat \<Rightarrow> world \<Rightarrow> (write_error + file_ref) \<times> world) \<Rightarrow> nat list
   \<Rightarrow> file_ref list \<Rightarrow> write_error option \<Rightarrow> world \<Rightarrow> file_ref list \<times> write_error option \<times> world" where
  "run_tasks task [] out err w = (out, err, w)"
| "run_tasks task (i # is) out err w =
     (case task i w of
        (Inl e, w') \<Rightarrow> run_tasks task is out (if err = None then Some e else err) w'
      | (Inr ref, w') \<Rightarrow> run_tasks task is (out[i := ref]) err w')"

definition Write ::
  "'a store \<Rightarrow> (nat \<Rightarrow> 'a env) \<Rightarrow> (nat \<Rightarrow> nat list) \<Rightarrow> (nat \<Rightarrow> bool) \<Rightarrow> 'a list \<Rightarrow> 'a write_option list
   \<Rightarrow> world \<Rightarrow> (file_ref list \<times> write_error option) \<times> world" where
  "Write st envs sched cancelled records opts w =
     (if records = [] then (([], None), w)
      else case resolveWriteOpts st opts of
        Inl e \<Rightarrow> (([], Some e), w)
      | Inr o1 \<Rightarrow>
      (case group_records st records ([], []) of
        Inl e \<Rightarrow> (([], Some (Wr_part e)), w)
      | Inr (groups, keyValues) \<Rightarrow>
          (let keys = sort (map fst groups);
               task = (\<lambda>i w. let key = keys ! i in
                  if cancelled i then (Inl Wr_cancelled, w) else
                  writePartition st (envs i) key (the (map_of keyValues key)) (the (map_of groups key)) o1 w);
               (out, err, w') = run_tasks task (sched (length keys)) (replicate (length keys) zero_ref) None w
           in ((out, err), w'))))"

section \<open>An instance\<close>

text \<open>A store with one partition part, an environment in which nothing fails, and the empty world.\<close>

definition demo_store :: "string store" where
  "demo_store = \<lparr>st_parts = [''p''], st_exts = [], st_mvs = [], st_partition_key_of = (\<lambda>r. ''p='' @ r),
     st_s3_prefix = [], st_notify_channel = ''s3pgstore_writes'', st_entity_key_of = None, st_version_of = None\<rparr>"

definition quiet_env :: "string \<Rightarrow> 'a env" where
  "quiet_env uuid = \<lparr>e_encode = (\<lambda>_. Inr (''PAR1'', 10)), e_uuid = Inr uuid, e_now = 5, e_codecs = decimal_codecs,
     e_pgx = (\<lambda>_ v. v), e_lookup = None, e_relookup = None, e_pending_insert = None, e_pending_cleanup = None,
     e_begin = None, e_upsert = None, e_insert = None, e_put = Put_ok, e_delete = None, e_mv = (\<lambda>_ _. None),
     e_notify = None, e_commit = Commit_ok, e_others = (\<lambda>_ w. w)\<rparr>"

definition empty_world :: world where
  "empty_world = \<lparr>wd_db = \<lparr>c_files = [], c_partitions = [], c_pending = [], c_mv = (\<lambda>_. []), c_next_id = 1\<rparr>,
     wd_s3 = (\<lambda>_. None), wd_notified = []\<rparr>"

end
