(* ===== verification/Write_Correct.thy ===== *)
theory Write_Correct
  imports Write_Path
begin

text \<open>
  Correctness of the write path for every combination of faults.  \<open>cat_inv\<close> is the
  consistency of the catalog: unique keys, ids and tokens, and per partition the versions
  \<open>1, 2, ..., n\<close> in commit order with \<open>version = file_count = n\<close> in the partitions row.
  \<open>world_ok\<close> adds the tie to the bucket: every object is either referenced by a files row or
  tracked by an orphan row, and every files row has its object.
\<close>

section \<open>The catalog invariant\<close>

definition part_files :: "string \<Rightarrow> catalog \<Rightarrow> file_row list" where
  "part_files key db = filter (\<lambda>r. f_partition_key r = key) (c_files db)"

definition versions_ok :: "catalog \<Rightarrow> string \<Rightarrow> bool" where
  "versions_ok db key \<longleftrightarrow>
     (let fs = part_files key db in
      map f_written_at_version fs = map (\<lambda>i. Some (int i)) [1..<length fs + 1]
      \<and> (case part_find key (c_partitions db) of
           None \<Rightarrow> fs = []
         | Some p \<Rightarrow> fs \<noteq> [] \<and> p_version p = int (length fs) \<and> p_file_count p = int (length fs)))"

definition cat_inv :: "catalog \<Rightarrow> bool" where
  "cat_inv db \<longleftrightarrow>
     distinct (map f_s3_key (c_files db)) \<and> distinct (map f_file_id (c_files db))
     \<and> (\<forall>r \<in> set (c_files db). f_file_id r < c_next_id db \<and> row_complete r)
     \<and> sorted_wrt (\<lambda>r s. \<not> token_clash r s) (c_files db)
     \<and> distinct (map p_partition_key (c_partitions db)) \<and> distinct (map w_s3_key (c_pending db))
     \<and> (\<forall>key. versions_ok db key)"

definition world_ok :: "world \<Rightarrow> bool" where
  "world_ok w \<longleftrightarrow> cat_inv (wd_db w)
     \<and> (\<forall>k \<in> dom (wd_s3 w). k \<in> f_s3_key ` set (c_files (wd_db w)) \<union> w_s3_key ` set (c_pending (wd_db w)))
     \<and> (\<forall>r \<in> set (c_files (wd_db w)). \<exists>obj. wd_s3 w (f_s3_key r) = Some obj
          \<and> int (length (so_body obj)) = f_file_size r)"

definition wf_store :: "'a store \<Rightarrow> bool" where
  "wf_store st \<longleftrightarrow> distinct (st_parts st) \<and> distinct (ext_names st)"

section \<open>The inserted row\<close>

definition stored_ext :: "(ext_column \<Rightarrow> govalue \<Rightarrow> govalue) \<Rightarrow> metadata \<Rightarrow> ext_column \<Rightarrow> govalue" where
  "stored_ext pgx m c = (let v = metadataValueFor m c in if v = GNil then GNil else pgx c v)"

definition new_row ::
  "'a store \<Rightarrow> (ext_column \<Rightarrow> govalue \<Rightarrow> govalue) \<Rightarrow> int \<Rightarrow> int \<Rightarrow> file_insert_opts \<Rightarrow> file_row" where
  "new_row st pgx fid now fi =
     \<lparr>f_file_id = fid, f_s3_key = fi_s3_key fi, f_partition_key = fi_partition_key fi,
      f_part = map_of (zip (st_parts st) (fi_part_values fi)), f_file_size = fi_file_size fi,
      f_uncompressed_size = fi_uncompressed_size fi, f_record_count = Some (fi_record_count fi),
      f_written_at_version = Some (fi_version fi), f_written_at = now,
      f_token = (if fi_token fi = [] then None else Some (fi_token fi)),
      f_feed_seq = None, f_feed_seq_at = None,
      f_ext = (\<lambda>e. case map_of (map (\<lambda>c. (ec_name c, stored_ext pgx (fi_metadata fi) c)) (st_exts st)) e of
                   None \<Rightarrow> GNil | Some v \<Rightarrow> v)\<rparr>"

lemma new_row_simps [simp]:
  "f_file_id (new_row st pgx fid now fi) = fid"
  "f_s3_key (new_row st pgx fid now fi) = fi_s3_key fi"
  "f_partition_key (new_row st pgx fid now fi) = fi_partition_key fi"
  "f_written_at_version (new_row st pgx fid now fi) = Some (fi_version fi)"
  "f_record_count (new_row st pgx fid now fi) = Some (fi_record_count fi)"
  "f_file_size (new_row st pgx fid now fi) = fi_file_size fi"
  "f_uncompressed_size (new_row st pgx fid now fi) = fi_uncompressed_size fi"
  "f_written_at (new_row st pgx fid now fi) = now"
  "f_token (new_row st pgx fid now fi) = (if fi_token fi = [] then None else Some (fi_token fi))"
  "f_feed_seq (new_row st pgx fid now fi) = None"
  "row_complete (new_row st pgx fid now fi)"
  by (simp_all add: new_row_def row_complete_def)

lemma assign_insert:
  assumes "wf_store st" "length (fi_part_values fi) = length (st_parts st)"
  shows "assign_cols (files_insert_cols (st_parts st) (ext_names st)) (insert_args pgx (st_exts st) fi)
           (blank_file fid now) = Some (new_row st pgx fid now fi)"
proof -
  let ?g = "\<lambda>e. case map_of (map (\<lambda>c. (ec_name c, stored_ext pgx (fi_metadata fi) c)) (st_exts st)) e of
              None \<Rightarrow> GNil | Some v \<Rightarrow> v"
  have d: "distinct (map ec_name (st_exts st))" using assms(1) by (simp add: wf_store_def ext_names_def)
  then have "map_of (map (\<lambda>c. (ec_name c, stored_ext pgx (fi_metadata fi) c)) (st_exts st)) (ec_name c)
      = Some (stored_ext pgx (fi_metadata fi) c)" if "c \<in> set (st_exts st)" for c
    using that by (intro map_of_is_SomeI) (auto simp: comp_def)
  then have g: "map (\<lambda>c. ext_sql (stored_ext pgx (fi_metadata fi) c)) (st_exts st)
      = map (\<lambda>e. ext_sql (?g e)) (ext_names st)"
    by (simp add: ext_names_def)
  have "?g e = GNil" if "e \<notin> set (ext_names st)" for e
  proof -
    have "map_of (map (\<lambda>c. (ec_name c, stored_ext pgx (fi_metadata fi) c)) (st_exts st)) e = None"
      using that by (auto simp: map_of_eq_None_iff ext_names_def)
    then show ?thesis by simp
  qed
  then have dom: "(\<lambda>e. if e \<in> set (ext_names st) then ?g e else GNil) = ?g"
    by (simp add: fun_eq_iff)
  let ?fixed = "[''partition_key'', ''s3_key'', ''written_at_version'', ''file_size'', ''uncompressed_size'',
      ''record_count'', ''idempotency_token'']"
  have "assign_cols (?fixed @ rest) ([TextV (fi_partition_key fi), TextV (fi_s3_key fi), BigInt (fi_version fi),
      BigInt (fi_file_size fi), BigInt (fi_uncompressed_size fi), BigInt (fi_record_count fi),
      nullableString (fi_token fi)] @ vals) (blank_file fid now) =
    assign_cols rest vals ((blank_file fid now)\<lparr>f_partition_key := fi_partition_key fi, f_s3_key := fi_s3_key fi,
      f_written_at_version := Some (fi_version fi), f_file_size := fi_file_size fi,
      f_uncompressed_size := fi_uncompressed_size fi, f_record_count := Some (fi_record_count fi),
      f_token := (if fi_token fi = [] then None else Some (fi_token fi))\<rparr>)" for rest vals
    by (simp add: set_file_col_def)
  then show ?thesis
    using assms assign_parts [of "st_parts st" "fi_part_values fi"] assign_exts [of "ext_names st" ?g]
    unfolding files_insert_cols_def insert_args_def Let_def [of "metadataValueFor _ _"]
      stored_ext_def [symmetric, unfolded Let_def] g
    by (simp add: wf_store_def new_row_def blank_file_def dom [unfolded fun_eq_iff] cong: if_cong)
qed

lemma files_insert_eq:
  assumes "wf_store st" "length (fi_part_values fi) = length (st_parts st)"
  shows "sql_files_insert now (files_insert_cols (st_parts st) (ext_names st)) (insert_args pgx (st_exts st) fi) db =
    (let r = new_row st pgx (c_next_id db) now fi; db' = db\<lparr>c_next_id := c_next_id db + 1\<rparr> in
     if \<exists>s \<in> set (c_files db). f_s3_key s = f_s3_key r then (Inl (Unique_violation ''s3_key''), db')
     else if \<exists>s \<in> set (c_files db). token_clash r s then (Inl (Unique_violation ''token''), db')
     else (Inr (c_next_id db, now), db'\<lparr>c_files := c_files db @ [r]\<rparr>))"
  by (simp only: sql_files_insert_def assign_insert [OF assms] Let_def option.case)
    (simp only: new_row_simps)

section \<open>Frames of the steps\<close>

definition upserted :: "'a store \<Rightarrow> int \<Rightarrow> string \<Rightarrow> string list \<Rightarrow> bool \<Rightarrow> int \<Rightarrow> part_row list \<Rightarrow> int \<Rightarrow> part_row list \<Rightarrow> bool" where
  "upserted st now key vals eset e ps v ps' \<longleftrightarrow>
     (case part_find key ps of
        None \<Rightarrow> v = 1 \<and> \<not> (eset \<and> e > 0) \<and>
          ps' = ps @ [\<lparr>p_partition_key = key, p_part = map_of (zip (st_parts st) vals), p_version = 1,
                       p_file_count = 1, p_updated_at = now\<rparr>]
      | Some p \<Rightarrow> v = p_version p + 1 \<and> ps' = part_update key (bump_part now) ps
          \<and> (eset \<longrightarrow> p_version p = (if e > 0 then e else 0)))"

lemma upsertPartition_ok:
  "upsertPartition st now fail key vals eset e db = (Inr v, db') \<Longrightarrow>
   \<exists>ps. db' = db\<lparr>c_partitions := ps\<rparr> \<and> upserted st now key vals eset e (c_partitions db) v ps"
  by (auto simp: upsertPartition_def sql_partition_update_occ_def sql_partition_upsert_def upserted_def
      split: if_splits option.splits prod.splits)

lemma upsertPartition_err:
  "upsertPartition st now fail key vals eset e db = (Inl err, db') \<Longrightarrow> db' = db"
  by (auto simp: upsertPartition_def sql_partition_update_occ_def sql_partition_upsert_def
      split: if_splits option.splits prod.splits)

lemma insert_chunks_frame: "insert_chunks fails mv start db = Inr db' \<Longrightarrow> \<exists>m. db' = db\<lparr>c_mv := m\<rparr>"
proof (induction "length (mw_rows mv) - start" arbitrary: start db rule: less_induct)
  case less
  show ?case
  proof (cases "start < length (mw_rows mv)")
    case True
    then obtain m where m: "insert_chunks fails mv (start + mvInsertChunkSize) (db\<lparr>c_mv := m\<rparr>) = Inr db'"
      using less.prems by (subst (asm) insert_chunks.simps)
        (auto simp: Let_def sql_mv_insert_def split: option.splits)
    have "length (mw_rows mv) - (start + mvInsertChunkSize) < length (mw_rows mv) - start"
      using True by (simp add: mvInsertChunkSize_def)
    from less.hyps [OF this m] show ?thesis by auto
  next
    case False
    have "db' = db" using less.prems False by (subst (asm) insert_chunks.simps) simp
    then show ?thesis by (intro exI [of _ "c_mv db"]) simp
  qed
qed

lemma insertMVRows_frame: "insertMVRows fails mvs db = Inr db' \<Longrightarrow> \<exists>m. db' = db\<lparr>c_mv := m\<rparr>"
proof (induction mvs arbitrary: db)
  case Nil
  then show ?case by (intro exI [of _ "c_mv db"]) simp
next
  case (Cons mv mvs)
  show ?case
  proof (cases "mw_rows mv = []")
    case False
    with Cons.prems obtain db1 where "insert_chunks fails mv 0 db = Inr db1" "insertMVRows fails mvs db1 = Inr db'"
      by (auto simp: and_then_Inr)
    with insert_chunks_frame Cons.IH obtain m m' where "db1 = db\<lparr>c_mv := m\<rparr>" "db' = db1\<lparr>c_mv := m'\<rparr>" by blast
    then show ?thesis by auto
  qed (use Cons in simp)
qed

section \<open>The commit\<close>

text \<open>The catalog after a successful transaction for the row \<open>r\<close>.\<close>

definition committed :: "catalog \<Rightarrow> file_row \<Rightarrow> part_row list \<Rightarrow> (string \<Rightarrow> string list list) \<Rightarrow> catalog" where
  "committed db r ps m =
     \<lparr>c_files = c_files db @ [r], c_partitions = ps,
      c_pending = filter (\<lambda>w. w_s3_key w \<noteq> f_s3_key r) (c_pending db), c_mv = m,
      c_next_id = c_next_id db + 1\<rparr>"

lemma part_find_append: "part_find k (ps @ [q]) =
    (case part_find k ps of None \<Rightarrow> if p_partition_key q = k then Some q else None | Some p \<Rightarrow> Some p)"
  by (induction ps) (auto simp: part_find_def)

lemma bump_part_key [simp]: "p_partition_key (bump_part now p) = p_partition_key p"
  by (simp add: bump_part_def)

lemma part_find_update: "part_find k (part_update key (bump_part now) ps) =
    (if k = key then map_option (bump_part now) (part_find k ps) else part_find k ps)"
  by (induction ps) (auto simp: part_find_def part_update_def)

lemma part_find_None: "part_find k ps = None \<longleftrightarrow> k \<notin> p_partition_key ` set ps"
  by (auto simp: part_find_def find_None_iff)

lemma part_update_keys [simp]:
  "map p_partition_key (part_update key (bump_part now) ps) = map p_partition_key ps"
  by (induction ps) (auto simp: part_update_def)

lemma upserted_keys:
  "upserted st now key vals eset e ps v ps' \<Longrightarrow> distinct (map p_partition_key ps)
   \<Longrightarrow> distinct (map p_partition_key ps')"
  by (auto simp: upserted_def part_find_None split: option.splits)

lemma versions_ok_commit:
  assumes "versions_ok db k" "upserted st now key vals eset e (c_partitions db) v ps"
    and "f_partition_key r = key" "f_written_at_version r = Some v"
  shows "versions_ok (committed db r ps m) k"
proof -
  have files: "part_files k (committed db r ps m) = part_files k db @ (if k = key then [r] else [])"
    using assms(3) by (simp add: part_files_def committed_def)
  show ?thesis
  proof (cases "k = key")
    case True
    let ?fs = "part_files key db"
    have vers: "map f_written_at_version ?fs = map (\<lambda>i. Some (int i)) [1..<length ?fs + 1]"
      using assms(1) True by (simp add: versions_ok_def Let_def)
    have "v = int (length ?fs) + 1 \<and> (\<exists>q. part_find key ps = Some q \<and> p_version q = v \<and> p_file_count q = v)"
    proof (cases "part_find key (c_partitions db)")
      case None
      with assms(1,2) True show ?thesis
        by (auto simp: versions_ok_def upserted_def Let_def part_find_append)
    next
      case (Some p)
      with assms(1,2) True show ?thesis
        by (simp add: versions_ok_def upserted_def Let_def part_find_update) (simp add: bump_part_def)
    qed
    then obtain q where q: "part_find key ps = Some q" "p_version q = v" "p_file_count q = v"
      and v: "v = int (length ?fs) + 1" by blast
    have "map f_written_at_version (?fs @ [r]) = map (\<lambda>i. Some (int i)) [1..<length (?fs @ [r]) + 1]"
      using vers assms(4) v by simp
    with q v True show ?thesis
      unfolding versions_ok_def files by (simp add: committed_def)
  next
    case False
    then have "part_find k ps = part_find k (c_partitions db)"
      using assms(2) by (auto simp: upserted_def part_find_append part_find_update split: option.splits)
    with False assms(1) show ?thesis unfolding versions_ok_def files by (simp add: committed_def)
  qed
qed

lemma token_clash_sym: "token_clash s r = token_clash r s"
  unfolding token_clash_def by metis

lemma cat_invD:
  assumes "cat_inv db"
  shows "distinct (map f_s3_key (c_files db))" "distinct (map f_file_id (c_files db))"
    "\<And>r. r \<in> set (c_files db) \<Longrightarrow> f_file_id r < c_next_id db"
    "\<And>r. r \<in> set (c_files db) \<Longrightarrow> row_complete r"
    "sorted_wrt (\<lambda>r s. \<not> token_clash r s) (c_files db)"
    "distinct (map p_partition_key (c_partitions db))" "distinct (map w_s3_key (c_pending db))"
    "\<And>key. versions_ok db key"
  using assms unfolding cat_inv_def by blast+

lemma cat_inv_commit:
  assumes "cat_inv db" "upserted st now key vals eset e (c_partitions db) v ps"
    and "f_partition_key r = key" "f_written_at_version r = Some v" "row_complete r"
    and "f_file_id r = c_next_id db"
    and fresh: "\<forall>s \<in> set (c_files db). f_s3_key s \<noteq> f_s3_key r \<and> \<not> token_clash r s"
  shows "cat_inv (committed db r ps m)"
proof -
  note inv = cat_invD [OF assms(1)]
  have parts: "distinct (map p_partition_key ps)" by (rule upserted_keys [OF assms(2) inv(6)])
  have ids: "\<forall>s \<in> set (c_files db). f_file_id s \<noteq> f_file_id r" 
  proof
    fix s assume "s \<in> set (c_files db)"
    from inv(3) [OF this] assms(6) show "f_file_id s \<noteq> f_file_id r" by simp
  qed
  have tok: "\<forall>s \<in> set (c_files db). \<not> token_clash s r" using fresh by (simp add: token_clash_sym [of _ r])
  have rows: "\<forall>s \<in> set (c_files db @ [r]). f_file_id s < c_next_id db + 1 \<and> row_complete s"
  proof
    fix s assume "s \<in> set (c_files db @ [r])"
    then consider "s \<in> set (c_files db)" | "s = r" by auto
    then show "f_file_id s < c_next_id db + 1 \<and> row_complete s"
    proof cases
      case 1
      with inv(3) [OF 1] inv(4) [OF 1] show ?thesis by simp
    qed (simp add: assms(5,6))
  qed
  have vers: "\<forall>k. versions_ok (committed db r ps m) k"
    using versions_ok_commit [OF inv(8) assms(2-4)] by simp
  have "distinct (map f_s3_key (c_files db @ [r]))" using inv(1) fresh by auto
  moreover have "distinct (map f_file_id (c_files db @ [r]))" using inv(2) ids by auto
  moreover have "sorted_wrt (\<lambda>r s. \<not> token_clash r s) (c_files db @ [r])"
    using inv(5) tok by (simp add: sorted_wrt_append)
  moreover have "distinct (map w_s3_key (filter (\<lambda>w. w_s3_key w \<noteq> f_s3_key r) (c_pending db)))"
    using inv(7) by (rule distinct_map_filter)
  ultimately show ?thesis
    unfolding cat_inv_def using parts rows vers by (simp only: committed_def catalog.simps simp_thms)
qed

section \<open>The transaction\<close>

definition write_row ::
  "'a store \<Rightarrow> 'a env \<Rightarrow> 'a write_opts \<Rightarrow> string \<Rightarrow> string list \<Rightarrow> string \<Rightarrow> string \<Rightarrow> string \<Rightarrow> int \<Rightarrow> int
   \<Rightarrow> int \<Rightarrow> int \<Rightarrow> file_row" where
  "write_row st env o1 key vals token s3Key body us rc v fid =
     new_row st (e_pgx env) fid (e_now env)
       \<lparr>fi_partition_key = key, fi_s3_key = s3Key, fi_version = v, fi_file_size = int (length body),
        fi_uncompressed_size = us, fi_record_count = rc, fi_token = token, fi_part_values = vals,
        fi_metadata = wo_metadata o1\<rparr>"

definition fi_of :: "'a write_opts \<Rightarrow> string \<Rightarrow> string list \<Rightarrow> string \<Rightarrow> string \<Rightarrow> string \<Rightarrow> int \<Rightarrow> int \<Rightarrow> int \<Rightarrow> file_insert_opts" where
  "fi_of o1 key vals token s3Key body us rc v =
     \<lparr>fi_partition_key = key, fi_s3_key = s3Key, fi_version = v, fi_file_size = int (length body),
      fi_uncompressed_size = us, fi_record_count = rc, fi_token = token, fi_part_values = vals,
      fi_metadata = wo_metadata o1\<rparr>"

lemma next_id_self [simp]: "db\<lparr>c_next_id := c_next_id db\<rparr> = db"
  by (cases db) simp

lemma insertFile_ok:
  assumes "wf_store st" "length (fi_part_values fi) = length (st_parts st)"
    and "insertFile st pgx now fail fi db = (Inr (fid, at), db')"
  shows "fid = c_next_id db" "at = now"
    "\<forall>s \<in> set (c_files db). f_s3_key s \<noteq> fi_s3_key fi \<and> \<not> token_clash (new_row st pgx (c_next_id db) now fi) s"
    "db' = db\<lparr>c_next_id := c_next_id db + 1, c_files := c_files db @ [new_row st pgx (c_next_id db) now fi]\<rparr>"
  using assms(3) unfolding insertFile_def files_insert_eq [OF assms(1,2)]
  by (auto simp: Let_def split: option.splits if_splits)

lemma insertFile_err:
  assumes "wf_store st" "length (fi_part_values fi) = length (st_parts st)"
    and "insertFile st pgx now fail fi db = (Inl e, db')"
  shows "db' = db\<lparr>c_next_id := c_next_id db'\<rparr>" "c_next_id db \<le> c_next_id db'"
    "e = Tx_token_race \<Longrightarrow> fi_token fi \<noteq> []"
  using assms(3) unfolding insertFile_def files_insert_eq [OF assms(1,2)]
  by (auto simp: Let_def split: option.splits if_splits)

lemma tx_finish_ok:
  assumes "tx_res (tx_finish st env s3Key mvRows vals db s3) = Inr (v, fid, at, ns)"
  shows "\<exists>m. vals = (v, fid, at) \<and> tx_db (tx_finish st env s3Key mvRows vals db s3) =
      db\<lparr>c_pending := filter (\<lambda>w. w_s3_key w \<noteq> s3Key) (c_pending db), c_mv := m\<rparr>"
    "tx_s3 (tx_finish st env s3Key mvRows vals db s3) = s3" "tx_put_attempted (tx_finish st env s3Key mvRows vals db s3)"
  using assms insertMVRows_frame [of "e_mv env" mvRows "sql_pending_delete s3Key db"]
  by (auto simp: tx_finish_def tx_fail_def sql_pending_delete_def Let_def split: option.splits sum.splits)

lemma tx_finish_frame:
  "tx_s3 (tx_finish st env s3Key mvRows vals db s3) = s3" "tx_put_attempted (tx_finish st env s3Key mvRows vals db s3)"
  "c_next_id (tx_db (tx_finish st env s3Key mvRows vals db s3)) = c_next_id db"
  using insertMVRows_frame [of "e_mv env" mvRows "sql_pending_delete s3Key db"]
  by (auto simp: tx_finish_def tx_fail_def sql_pending_delete_def Let_def split: option.splits sum.splits)

lemma tx_upload_ok:
  assumes "tx_res (tx_upload st env o1 token s3Key body us rc mvRows vals db s3) = Inr (v, fid, at, ns)"
  shows "\<exists>m md. vals = (v, fid, at)
    \<and> BuildS3Metadata (e_codecs env) token rc us v (st_exts st) (wo_metadata o1) = Inr md
    \<and> tx_db (tx_upload st env o1 token s3Key body us rc mvRows vals db s3) =
        db\<lparr>c_pending := filter (\<lambda>w. w_s3_key w \<noteq> s3Key) (c_pending db), c_mv := m\<rparr>
    \<and> tx_s3 (tx_upload st env o1 token s3Key body us rc mvRows vals db s3) = s3(s3Key \<mapsto> \<lparr>so_body = body, so_meta = md\<rparr>)"
proof -
  obtain md where md: "BuildS3Metadata (e_codecs env) token rc us (fst vals) (st_exts st) (wo_metadata o1) = Inr md"
    and put: "e_put env = Put_ok"
    using assms by (auto simp: tx_upload_def tx_fail_def s3_put_def split: sum.splits put_outcome.splits)
  then have eq: "tx_upload st env o1 token s3Key body us rc mvRows vals db s3 =
      tx_finish st env s3Key mvRows vals db (s3(s3Key \<mapsto> \<lparr>so_body = body, so_meta = md\<rparr>))"
    by (simp add: tx_upload_def s3_put_def)
  note fin = tx_finish_ok [OF assms [unfolded eq]]
  then obtain m where "vals = (v, fid, at)" "tx_db (tx_upload st env o1 token s3Key body us rc mvRows vals db s3) =
      db\<lparr>c_pending := filter (\<lambda>w. w_s3_key w \<noteq> s3Key) (c_pending db), c_mv := m\<rparr>"
    unfolding eq by blast
  with md fin(2) show ?thesis unfolding eq by auto
qed

lemma tx_upload_frame:
  shows "c_next_id (tx_db (tx_upload st env o1 token s3Key body us rc mvRows vals db s3)) = c_next_id db"
    "tx_s3 (tx_upload st env o1 token s3Key body us rc mvRows vals db s3) = s3 \<or>
     tx_put_attempted (tx_upload st env o1 token s3Key body us rc mvRows vals db s3)
       \<and> (\<exists>md. tx_s3 (tx_upload st env o1 token s3Key body us rc mvRows vals db s3) = s3(s3Key \<mapsto> \<lparr>so_body = body, so_meta = md\<rparr>))"
  by (auto simp: tx_upload_def tx_fail_def s3_put_def tx_finish_frame split: sum.splits put_outcome.splits)

lemma write_tx_body_ok:
  assumes "wf_store st" "length vals = length (st_parts st)"
    and "tx_res (write_tx_body st env o1 key vals token s3Key body us rc mvRows w) = Inr (v, fid, at, ns)"
  defines "t \<equiv> write_tx_body st env o1 key vals token s3Key body us rc mvRows w"
    and "r \<equiv> new_row st (e_pgx env) (c_next_id (wd_db w)) (e_now env) (fi_of o1 key vals token s3Key body us rc v)"
  shows "\<exists>ps m md. upserted st (e_now env) key vals (wo_expected_set o1) (wo_expected o1) (c_partitions (wd_db w)) v ps
      \<and> (\<forall>s \<in> set (c_files (wd_db w)). f_s3_key s \<noteq> s3Key \<and> \<not> token_clash r s)
      \<and> tx_db t = committed (wd_db w) r ps m \<and> fid = c_next_id (wd_db w) \<and> at = e_now env
      \<and> tx_s3 t = (wd_s3 w)(s3Key \<mapsto> \<lparr>so_body = body, so_meta = md\<rparr>)
      \<and> BuildS3Metadata (e_codecs env) token rc us v (st_exts st) (wo_metadata o1) = Inr md"
proof -
  let ?up = "upsertPartition st (e_now env) (e_upsert env) key vals (wo_expected_set o1) (wo_expected o1) (wd_db w)"
  obtain v' db1 where up: "?up = (Inr v', db1)"
    using assms(3) by (cases ?up; cases "fst ?up") (auto simp: write_tx_body_def tx_fail_def)
  let ?ins = "insertFile st (e_pgx env) (e_now env) (e_insert env) (fi_of o1 key vals token s3Key body us rc v') db1"
  have t1: "write_tx_body st env o1 key vals token s3Key body us rc mvRows w =
      (case ?ins of (Inl e, db2) \<Rightarrow> tx_fail e False db2 (wd_s3 w)
       | (Inr (fileID, writtenAt), db2) \<Rightarrow>
           tx_upload st env o1 token s3Key body us rc mvRows (v', fileID, writtenAt) db2 (wd_s3 w))"
    by (simp add: write_tx_body_def up fi_of_def)
  obtain fid' at' db2 where ins: "?ins = (Inr (fid', at'), db2)"
    using assms(3) unfolding t1 by (cases ?ins; cases "fst ?ins") (auto simp: tx_fail_def)
  have t2: "t = tx_upload st env o1 token s3Key body us rc mvRows (v', fid', at') db2 (wd_s3 w)"
    unfolding t_def t1 ins by simp
  obtain m md where up': "(v', fid', at') = (v, fid, at)"
    "BuildS3Metadata (e_codecs env) token rc us v (st_exts st) (wo_metadata o1) = Inr md"
    "tx_db t = db2\<lparr>c_pending := filter (\<lambda>w. w_s3_key w \<noteq> s3Key) (c_pending db2), c_mv := m\<rparr>"
    "tx_s3 t = (wd_s3 w)(s3Key \<mapsto> \<lparr>so_body = body, so_meta = md\<rparr>)"
    using tx_upload_ok assms(3) unfolding t2 t_def [symmetric] by metis
  obtain ps where ps: "db1 = (wd_db w)\<lparr>c_partitions := ps\<rparr>"
    "upserted st (e_now env) key vals (wo_expected_set o1) (wo_expected o1) (c_partitions (wd_db w)) v' ps"
    using upsertPartition_ok [OF up] by blast
  have fi: "length (fi_part_values (fi_of o1 key vals token s3Key body us rc v')) = length (st_parts st)"
    "fi_s3_key (fi_of o1 key vals token s3Key body us rc v') = s3Key"
    using assms(2) by (simp_all add: fi_of_def)
  note f = insertFile_ok [OF assms(1) fi(1) ins, unfolded fi(2)]
  have "tx_db t = committed (wd_db w) r ps m"
    unfolding up'(3) f(4) using up'(1) ps(1) by (simp add: committed_def r_def fi_of_def)
  with f(1-3) ps up' show ?thesis by (intro exI [of _ ps] exI [of _ m] exI [of _ md]) (simp add: r_def)
qed

lemma write_tx_body_frame:
  fixes env :: "'a env" and opts key token s3Key body us rc mvRows
  assumes "wf_store st" "length vals = length (st_parts st)"
  defines "t \<equiv> \<lambda>w. write_tx_body st env opts key vals token s3Key body us rc mvRows w"
  shows "c_next_id (wd_db w) \<le> c_next_id (tx_db (t w))"
    "tx_s3 (t w) = wd_s3 w \<or> tx_put_attempted (t w)
       \<and> (\<exists>md. tx_s3 (t w) = (wd_s3 w)(s3Key \<mapsto> \<lparr>so_body = body, so_meta = md\<rparr>))
       \<and> s3Key \<notin> f_s3_key ` set (c_files (wd_db w))"
proof -
  let ?up = "upsertPartition st (e_now env) (e_upsert env) key vals (wo_expected_set opts) (wo_expected opts) (wd_db w)"
  have both: "c_next_id (wd_db w) \<le> c_next_id (tx_db (t w)) \<and> (tx_s3 (t w) = wd_s3 w \<or> tx_put_attempted (t w)
       \<and> (\<exists>md. tx_s3 (t w) = (wd_s3 w)(s3Key \<mapsto> \<lparr>so_body = body, so_meta = md\<rparr>))
       \<and> s3Key \<notin> f_s3_key ` set (c_files (wd_db w)))"
  proof (cases ?up)
    case (Pair res db1)
    show ?thesis
    proof (cases res)
      case (Inl e)
      with Pair upsertPartition_err [OF Pair [unfolded Inl]] show ?thesis
        by (auto simp: t_def write_tx_body_def tx_fail_def)
    next
      case (Inr v)
      obtain ps where db1: "db1 = (wd_db w)\<lparr>c_partitions := ps\<rparr>"
        using upsertPartition_ok Pair Inr by blast
      let ?fi = "fi_of opts key vals token s3Key body us rc v"
      let ?ins = "insertFile st (e_pgx env) (e_now env) (e_insert env) ?fi db1"
      have fi: "length (fi_part_values ?fi) = length (st_parts st)" "fi_s3_key ?fi = s3Key"
        using assms(2) by (simp_all add: fi_of_def)
      have t1: "t w = (case ?ins of (Inl e, db2) \<Rightarrow> tx_fail e False db2 (wd_s3 w)
         | (Inr (fileID, writtenAt), db2) \<Rightarrow>
             tx_upload st env opts token s3Key body us rc mvRows (v, fileID, writtenAt) db2 (wd_s3 w))"
        by (simp add: t_def write_tx_body_def Pair Inr fi_of_def)
      show ?thesis
      proof (cases ?ins)
        case (Pair res2 db2)
        show ?thesis
        proof (cases res2)
          case (Inl e)
          with insertFile_err(2) [OF assms(1) fi(1) Pair [unfolded Inl]] Pair db1 show ?thesis
            by (auto simp: t1 tx_fail_def)
        next
          case (Inr p)
          obtain fid at where p: "p = (fid, at)" by (cases p)
          note f = insertFile_ok [OF assms(1) fi(1), unfolded fi(2), OF Pair [unfolded Inr p]]
          have "s3Key \<notin> f_s3_key ` set (c_files (wd_db w))" using f(3) db1 by auto
          moreover have "t w = tx_upload st env opts token s3Key body us rc mvRows (v, fid, at) db2 (wd_s3 w)"
            unfolding t1 Pair Inr p by simp
          moreover have "c_next_id (wd_db w) \<le> c_next_id db2" using f(4) db1 by simp
          ultimately show ?thesis
            using tx_upload_frame [of st env opts token s3Key body us rc mvRows "(v, fid, at)" db2 "wd_s3 w"] by auto
        qed
      qed
    qed
  qed
  from both show "c_next_id (wd_db w) \<le> c_next_id (tx_db (t w))" ..
  from both show "tx_s3 (t w) = wd_s3 w \<or> tx_put_attempted (t w)
       \<and> (\<exists>md. tx_s3 (t w) = (wd_s3 w)(s3Key \<mapsto> \<lparr>so_body = body, so_meta = md\<rparr>))
       \<and> s3Key \<notin> f_s3_key ` set (c_files (wd_db w))" ..
qed

section \<open>Safety of a write\<close>

definition file_keys :: "world \<Rightarrow> string set" where
  "file_keys w = f_s3_key ` set (c_files (wd_db w))"

definition pending_keys :: "world \<Rightarrow> string set" where
  "pending_keys w = w_s3_key ` set (c_pending (wd_db w))"

lemma world_ok_alt:
  "world_ok w \<longleftrightarrow> cat_inv (wd_db w) \<and> dom (wd_s3 w) \<subseteq> file_keys w \<union> pending_keys w
     \<and> (\<forall>r \<in> set (c_files (wd_db w)). \<exists>obj. wd_s3 w (f_s3_key r) = Some obj
          \<and> int (length (so_body obj)) = f_file_size r)"
  unfolding world_ok_def file_keys_def pending_keys_def by blast

text \<open>What the concurrent sessions must respect: they keep the world consistent and never delete a
  files row, and between the tracking INSERT and the transaction they leave this write's key
  alone (the garbage collector does, by its grace period).\<close>

definition neighbours_ok :: "(nat \<Rightarrow> world \<Rightarrow> world) \<Rightarrow> bool" where
  "neighbours_ok others \<longleftrightarrow>
     (\<forall>n w. world_ok w \<longrightarrow> world_ok (others n w) \<and> file_keys w \<subseteq> file_keys (others n w))"

definition leaves_alone :: "(nat \<Rightarrow> world \<Rightarrow> world) \<Rightarrow> string \<Rightarrow> bool" where
  "leaves_alone others key \<longleftrightarrow>
     (\<forall>w. (key \<in> pending_keys w \<longrightarrow> key \<in> pending_keys (others 1 w))
        \<and> (key \<notin> dom (wd_s3 w) \<longrightarrow> key \<notin> dom (wd_s3 (others 1 w))))"

lemma cat_inv_pending:
  "cat_inv db \<Longrightarrow> distinct (map w_s3_key ps) \<Longrightarrow> cat_inv (db\<lparr>c_pending := ps\<rparr>)"
  unfolding cat_inv_def versions_ok_def part_files_def by simp

lemma cat_inv_rollback: "cat_inv db \<Longrightarrow> c_next_id db \<le> n \<Longrightarrow> cat_inv (db\<lparr>c_next_id := n\<rparr>)"
  unfolding cat_inv_def versions_ok_def part_files_def by force

lemma world_ok_pending_insert:
  assumes "world_ok w" "sql_pending_insert now k (wd_db w) = Inr db"
  shows "world_ok (w\<lparr>wd_db := db\<rparr>)" "k \<in> pending_keys (w\<lparr>wd_db := db\<rparr>)"
    "k \<in> dom (wd_s3 w) \<Longrightarrow> k \<in> file_keys w" "file_keys (w\<lparr>wd_db := db\<rparr>) = file_keys w"
proof -
  have db: "db = (wd_db w)\<lparr>c_pending := c_pending (wd_db w) @ [\<lparr>w_s3_key = k, w_intended_at = now\<rparr>]\<rparr>"
    and new: "k \<notin> pending_keys w"
    using assms(2) by (auto simp: sql_pending_insert_def pending_keys_def split: if_splits)
  have "distinct (map w_s3_key (c_pending (wd_db w) @ [\<lparr>w_s3_key = k, w_intended_at = now\<rparr>]))"
    using assms(1) new by (auto simp: world_ok_def cat_inv_def pending_keys_def)
  then have "cat_inv db" unfolding db using assms(1) by (intro cat_inv_pending) (simp_all add: world_ok_def)
  then show "world_ok (w\<lparr>wd_db := db\<rparr>)" using assms(1) by (auto simp: world_ok_def db)
  show "k \<in> pending_keys (w\<lparr>wd_db := db\<rparr>)" by (simp add: pending_keys_def db)
  show "file_keys (w\<lparr>wd_db := db\<rparr>) = file_keys w" by (simp add: file_keys_def db)
  show "k \<in> file_keys w" if "k \<in> dom (wd_s3 w)"
    using that new assms(1) by (auto simp: world_ok_alt)
qed

lemma world_ok_pending_delete:
  assumes "world_ok w" "k \<in> dom (wd_s3 w) \<Longrightarrow> k \<in> file_keys w"
  shows "world_ok (w\<lparr>wd_db := sql_pending_delete k (wd_db w)\<rparr>)"
proof -
  have "distinct (map w_s3_key (filter (\<lambda>x. w_s3_key x \<noteq> k) (c_pending (wd_db w))))"
    using assms(1) by (intro distinct_map_filter) (simp add: world_ok_def cat_inv_def)
  then have "cat_inv (sql_pending_delete k (wd_db w))"
    unfolding sql_pending_delete_def using assms(1) by (intro cat_inv_pending) (simp_all add: world_ok_def)
  moreover have "pending_keys (w\<lparr>wd_db := sql_pending_delete k (wd_db w)\<rparr>) = pending_keys w - {k}"
    "file_keys (w\<lparr>wd_db := sql_pending_delete k (wd_db w)\<rparr>) = file_keys w"
    "c_files (sql_pending_delete k (wd_db w)) = c_files (wd_db w)"
    by (auto simp: pending_keys_def file_keys_def sql_pending_delete_def)
  ultimately show ?thesis using assms unfolding world_ok_alt by auto
qed

lemma world_ok_orphan:
  assumes "world_ok w" "c_next_id (wd_db w) \<le> n"
    and "s3 = wd_s3 w \<or> s3 = (wd_s3 w)(k \<mapsto> obj) \<and> k \<in> pending_keys w \<and> k \<notin> file_keys w"
  shows "world_ok (w\<lparr>wd_db := (wd_db w)\<lparr>c_next_id := n\<rparr>, wd_s3 := s3\<rparr>)"
proof -
  let ?w = "w\<lparr>wd_db := (wd_db w)\<lparr>c_next_id := n\<rparr>, wd_s3 := s3\<rparr>"
  have keys: "pending_keys ?w = pending_keys w" "file_keys ?w = file_keys w"
    by (simp_all add: pending_keys_def file_keys_def)
  have "f_s3_key r \<noteq> k" if "r \<in> set (c_files (wd_db w))" "k \<notin> file_keys w" for r
    using that by (auto simp: file_keys_def)
  then have objs: "\<forall>r \<in> set (c_files (wd_db w)). s3 (f_s3_key r) = wd_s3 w (f_s3_key r)"
    using assms(3) by auto
  have "cat_inv ((wd_db w)\<lparr>c_next_id := n\<rparr>)"
    using assms(1,2) by (intro cat_inv_rollback) (simp_all add: world_ok_def)
  moreover have "dom s3 \<subseteq> dom (wd_s3 w) \<union> pending_keys w"
    using assms(3) by (auto split: if_splits)
  then have "dom s3 \<subseteq> file_keys w \<union> pending_keys w"
    using assms(1) unfolding world_ok_alt by blast
  ultimately show ?thesis using assms(1) objs unfolding world_ok_alt keys by simp
qed

lemma world_ok_commit:
  assumes "world_ok w" "cat_inv (committed (wd_db w) r ps m)"
    and "int (length (so_body obj)) = f_file_size r" "f_s3_key r \<notin> file_keys w"
  shows "world_ok (w\<lparr>wd_db := committed (wd_db w) r ps m, wd_s3 := (wd_s3 w)(f_s3_key r \<mapsto> obj), wd_notified := ns\<rparr>)"
proof -
  have "\<forall>s \<in> set (c_files (wd_db w)). f_s3_key s \<noteq> f_s3_key r" using assms(4) by (metis file_keys_def imageI)
  with assms show ?thesis by (auto simp: world_ok_alt file_keys_def pending_keys_def committed_def)
qed

lemma file_keys_tx:
  assumes "wf_store st" "length vals = length (st_parts st)"
    and "tx_res (write_tx_body st env o1 key vals token s3Key body us rc mvRows w) = Inr (v, fid, at, ns)"
  shows "f_s3_key ` set (c_files (wd_db w)) \<subseteq> f_s3_key ` set (c_files (tx_db (write_tx_body st env o1 key vals token s3Key body us rc mvRows w)))"
  using write_tx_body_ok [OF assms] by (auto simp: committed_def)

lemma run_write_tx_safe:
  assumes "wf_store st" "length vals = length (st_parts st)"
    and "run_write_tx env (write_tx_body st env o1 key vals token s3Key body us rc mvRows) w = (res, put, w2)"
    and "world_ok w" "s3Key \<in> pending_keys w"
  shows "world_ok w2" "file_keys w \<subseteq> file_keys w2" "\<not> put \<Longrightarrow> wd_s3 w2 = wd_s3 w"
proof -
  let ?t = "write_tx_body st env o1 key vals token s3Key body us rc mvRows w"
  note frame = write_tx_body_frame [OF assms(1,2), where w = w and env = env and opts = o1 and key = key and
      token = token and s3Key = s3Key and body = body and us = us and rc = rc and mvRows = mvRows]
  have rolled: "world_ok (w\<lparr>wd_db := rollback (wd_db w) (tx_db ?t), wd_s3 := tx_s3 ?t\<rparr>)"
  proof -
    obtain obj where "tx_s3 ?t = wd_s3 w \<or> tx_s3 ?t = (wd_s3 w)(s3Key \<mapsto> obj) \<and> s3Key \<in> pending_keys w \<and> s3Key \<notin> file_keys w"
      using frame(2) assms(5) unfolding file_keys_def by blast
    then show ?thesis unfolding rollback_def by (rule world_ok_orphan [OF assms(4) frame(1)])
  qed
  have comm: "world_ok (w\<lparr>wd_db := tx_db ?t, wd_s3 := tx_s3 ?t, wd_notified := n\<rparr>)"
    if tx: "tx_res ?t = Inr (v, fid, at, ns)" for v fid at ns n
  proof -
    let ?r = "new_row st (e_pgx env) (c_next_id (wd_db w)) (e_now env) (fi_of o1 key vals token s3Key body us rc v)"
    obtain ps m md where *: "upserted st (e_now env) key vals (wo_expected_set o1) (wo_expected o1) (c_partitions (wd_db w)) v ps"
      "\<forall>s \<in> set (c_files (wd_db w)). f_s3_key s \<noteq> s3Key \<and> \<not> token_clash ?r s"
      "tx_db ?t = committed (wd_db w) ?r ps m"
      "tx_s3 ?t = (wd_s3 w)(s3Key \<mapsto> \<lparr>so_body = body, so_meta = md\<rparr>)"
      using write_tx_body_ok [OF assms(1,2) tx] by blast
    have r: "f_s3_key ?r = s3Key" "f_partition_key ?r = key" "f_written_at_version ?r = Some v"
      "f_file_id ?r = c_next_id (wd_db w)" "f_file_size ?r = int (length body)"
      by (simp_all add: fi_of_def)
    have "cat_inv (committed (wd_db w) ?r ps m)"
      using assms(4) *(2) r by (intro cat_inv_commit [OF _ *(1)]) (simp_all add: world_ok_def)
    from world_ok_commit [OF assms(4) this, of "\<lparr>so_body = body, so_meta = md\<rparr>" n] show ?thesis
      using r *(2-4) by (auto simp: file_keys_def)
  qed
  note cases = assms(3) [unfolded run_write_tx_def Let_def]
  show "world_ok w2" using cases rolled comm assms(4)
    by (auto split: option.splits sum.splits commit_outcome.splits)
  show "file_keys w \<subseteq> file_keys w2" unfolding file_keys_def using cases
    by (auto simp: rollback_def del: subsetI split: option.splits sum.splits commit_outcome.splits
        dest!: file_keys_tx [OF assms(1,2)])
  show "wd_s3 w2 = wd_s3 w" if "\<not> put"
    using cases that frame(2) by (auto split: option.splits sum.splits commit_outcome.splits)
qed

lemma prepare_write_Inr:
  assumes "prepare_write st env key recs w = Inr prep"
  obtains mvRows body us uuid db0 where "prep = (mvRows, body, us, dataKey st key uuid, db0)"
    "e_uuid env = Inr uuid" "sql_pending_insert (e_now env) (dataKey st key uuid) (wd_db w) = Inr db0"
proof -
  obtain mvRows where m: "resolveMVRows (st_mvs st) recs = Inr mvRows"
    using assms by (cases "resolveMVRows (st_mvs st) recs") (simp_all add: prepare_write_def)
  obtain body us where b: "e_encode env recs = Inr (body, us)"
    using assms m by (cases "e_encode env recs") (auto simp: prepare_write_def)
  obtain uuid where u: "e_uuid env = Inr uuid"
    using assms m b by (cases "e_uuid env") (simp_all add: prepare_write_def)
  have p: "e_pending_insert env = None"
    using assms m b u by (cases "e_pending_insert env") (simp_all add: prepare_write_def)
  obtain db0 where d: "sql_pending_insert (e_now env) (dataKey st key uuid) (wd_db w) = Inr db0"
    using assms m b u p
    by (cases "sql_pending_insert (e_now env) (dataKey st key uuid) (wd_db w)") (simp_all add: prepare_write_def)
  have "prep = (mvRows, body, us, dataKey st key uuid, db0)"
    using assms m b u p d by (simp add: prepare_write_def)
  from that [OF this u d] show thesis .
qed

lemma write_fresh_safe:
  assumes "wf_store st" "length vals = length (st_parts st)" "world_ok w" "neighbours_ok (e_others env)"
    and "\<And>uuid. e_uuid env = Inr uuid \<Longrightarrow> leaves_alone (e_others env) (dataKey st key uuid)"
  shows "world_ok (snd (write_fresh st env o1 key vals token recs w))
    \<and> file_keys w \<subseteq> file_keys (snd (write_fresh st env o1 key vals token recs w))"
proof (cases "prepare_write st env key recs w")
  case (Inl e)
  with assms(3) show ?thesis by (simp add: write_fresh_def)
next
  case (Inr prep)
  then obtain mvRows body us uuid db0 where prep: "prep = (mvRows, body, us, dataKey st key uuid, db0)"
    and uuid: "e_uuid env = Inr uuid"
    and ins: "sql_pending_insert (e_now env) (dataKey st key uuid) (wd_db w) = Inr db0"
    by (rule prepare_write_Inr)
  note pre = Inr [unfolded prep] uuid
  let ?k = "dataKey st key uuid" and ?w1 = "e_others env 1 (w\<lparr>wd_db := db0\<rparr>)"
  note p = world_ok_pending_insert [OF assms(3) ins]
  have w1: "world_ok ?w1" "file_keys w \<subseteq> file_keys ?w1"
    using assms(4) p(1,4) unfolding neighbours_ok_def by auto
  have k: "?k \<in> pending_keys ?w1" using assms(5) [OF uuid] p(2) unfolding leaves_alone_def by blast
  have k': "?k \<in> file_keys ?w1" if "?k \<in> dom (wd_s3 ?w1)"
  proof -
    have "?k \<in> dom (wd_s3 (w\<lparr>wd_db := db0\<rparr>))" using assms(5) [OF uuid] that unfolding leaves_alone_def by blast
    then have "?k \<in> file_keys w" by (intro p(3)) simp
    with w1(2) show ?thesis by blast
  qed
  obtain res put w2 where run: "run_write_tx env (write_tx_body st env o1 key vals token ?k body us
      (int (length recs)) mvRows) ?w1 = (res, put, w2)" by (metis prod_cases3)
  note s = run_write_tx_safe [OF assms(1,2) run w1(1) k]
  have clean: "world_ok (w2\<lparr>wd_db := sql_pending_delete ?k (wd_db w2)\<rparr>)" if "\<not> put"
    using s that k' by (intro world_ok_pending_delete) auto
  have keys: "file_keys (w2\<lparr>wd_db := sql_pending_delete ?k (wd_db w2)\<rparr>) = file_keys w2"
    by (simp add: file_keys_def sql_pending_delete_def)
  have nb: "world_ok v \<Longrightarrow> world_ok (e_others env 2 v) \<and> file_keys v \<subseteq> file_keys (e_others env 2 v)" for v
    using assms(4) unfolding neighbours_ok_def by blast
  show ?thesis
  proof (cases res)
    case (Inr x)
    with s w1(2) show ?thesis by (cases x) (auto simp: write_fresh_def pre run Let_def simp del: One_nat_def)
  next
    case (Inl e)
    let ?w3 = "if put \<or> e_pending_cleanup env \<noteq> None then w2 else w2\<lparr>wd_db := sql_pending_delete ?k (wd_db w2)\<rparr>"
    have "snd (write_fresh st env o1 key vals token recs w) = e_others env 2 ?w3"
      by (simp add: write_fresh_def pre run Let_def Inl del: One_nat_def)
    moreover have "world_ok ?w3" "file_keys w \<subseteq> file_keys ?w3" using s(1,2) clean keys w1(2) by auto
    ultimately show ?thesis using nb [of ?w3] by auto
  qed
qed

lemma writePartition_keeps:
  assumes "wf_store st" and "length vals = length (st_parts st)" and "world_ok w"
    and "neighbours_ok (e_others env)"
    and "\<And>uuid. e_uuid env = Inr uuid \<Longrightarrow> leaves_alone (e_others env) (dataKey st key uuid)"
  shows "world_ok (snd (writePartition st env key vals recs o1 w))
    \<and> file_keys w \<subseteq> file_keys (snd (writePartition st env key vals recs o1 w))"
proof -
  have others: "world_ok (e_others env 0 w)" "file_keys w \<subseteq> file_keys (e_others env 0 w)"
    using assms(3,4) unfolding neighbours_ok_def by auto
  have fresh: "world_ok (snd (write_fresh st env o1 key vals token recs v))
      \<and> file_keys v \<subseteq> file_keys (snd (write_fresh st env o1 key vals token recs v))" if "world_ok v" for token v
    by (rule write_fresh_safe [OF assms(1,2) that assms(4,5)])
  have later: "world_ok (snd (write_fresh st env o1 key vals token recs (e_others env 0 w)))
      \<and> file_keys w \<subseteq> file_keys (snd (write_fresh st env o1 key vals token recs (e_others env 0 w)))" for token
    using fresh [OF others(1), of token] others(2) by (blast dest: subset_trans)
  show ?thesis
    using assms(3) fresh [OF assms(3)] later
    by (auto simp: writePartition_def simp del: subset_iff split: sum.splits option.splits)
qed

text \<open>C1.  No write, however it fails, breaks the consistency of the catalog with the bucket: if
  every object was referenced or tracked, every files row had its object, the keys, ids and
  tokens were unique and every partition had the versions 1..n, then all this still holds after
  \<open>writePartition\<close>, for every combination of failing calls, of a PUT that stores the object or
  not before it fails, and of a COMMIT that takes effect or not before it fails.  No file is lost.\<close>

theorem writePartition_safe:
  assumes "wf_store st" and "length vals = length (st_parts st)" and "world_ok w"
    and "neighbours_ok (e_others env)"
    and "\<And>uuid. e_uuid env = Inr uuid \<Longrightarrow> leaves_alone (e_others env) (dataKey st key uuid)"
  shows "world_ok (snd (writePartition st env key vals recs o1 w))
    \<and> file_keys w \<subseteq> file_keys (snd (writePartition st env key vals recs o1 w))"
  using writePartition_keeps [OF assms] by simp

lemma demo_wf: "wf_store demo_store"
  by (simp add: wf_store_def demo_store_def ext_names_def)

lemma empty_world_ok: "world_ok empty_world"
  by (simp add: world_ok_def empty_world_def cat_inv_def versions_ok_def part_files_def part_find_def)

lemma quiet_neighbours:
  "neighbours_ok (e_others (quiet_env u))" "leaves_alone (e_others (quiet_env u)) k"
  by (simp_all add: neighbours_ok_def leaves_alone_def quiet_env_def)

theorem writePartition_safe_witness:
  "world_ok (snd (writePartition demo_store ((quiet_env ''u'')\<lparr>e_commit := Commit_lost ''eof''\<rparr>) ''p=x'' [''x'']
     [''x''] no_opts empty_world))"
proof -
  let ?env = "(quiet_env ''u'')\<lparr>e_commit := Commit_lost ''eof''\<rparr>"
  have len: "length [''x''] = length (st_parts demo_store)" by (simp add: demo_store_def)
  have nb: "neighbours_ok (e_others ?env)" "\<And>k. leaves_alone (e_others ?env) k"
    by (simp_all add: quiet_neighbours)
  from writePartition_safe [OF demo_wf len empty_world_ok nb(1) nb(2)] show ?thesis by blast
qed

section \<open>Idempotent retries\<close>

lemma lookup_committed:
  assumes "wf_store st" "token \<noteq> []" "fi_token fi = token" "fi_partition_key fi = key"
    and "\<forall>s \<in> set (c_files db). \<not> token_clash (new_row st pgx fid now fi) s"
  shows "lookupTokenFileRef st None (committed db (new_row st pgx fid now fi) ps m) key token =
    Inr (Some (ref_of (ext_names st) (new_row st pgx fid now fi)))"
proof -
  let ?r = "new_row st pgx fid now fi"
  have "filter (\<lambda>r. f_partition_key r = key \<and> f_token r = Some token) (c_files db) = []"
    using assms(2-5) by (auto simp: filter_empty_conv token_clash_def)
  then have "sql_idempotency_lookup (ext_names st) key token (committed db ?r ps m) =
      [project (file_ref_cols (ext_names st)) ?r]"
    using assms(2-4) by (simp add: sql_idempotency_lookup_def committed_def)
  moreover have "scan_file_ref (ext_names st) (project (file_ref_cols (ext_names st)) ?r) =
      Inr (ref_of (ext_names st) ?r)"
    using assms(1) by (intro scan_project) (simp_all add: wf_store_def)
  ultimately show ?thesis by (simp add: lookupTokenFileRef_def)
qed

lemma lookup_fail: "lookupTokenFileRef st f db key token = Inr x \<Longrightarrow> lookupTokenFileRef st None db key token = Inr x"
  by (simp add: lookupTokenFileRef_def split: option.splits)

text \<open>What a successful fresh write leaves: its row, found again by its token.\<close>

lemma write_fresh_lookup:
  assumes "wf_store st" "length vals = length (st_parts st)" "token \<noteq> []"
    and "write_fresh st env o1 key vals token recs w = (Inr ref, w')"
  shows "\<exists>exts off. lookupTokenFileRef st None (wd_db w') key token = Inr (Some (ref\<lparr>Extensions := exts, Offset := off\<rparr>))"
proof -
  obtain prep where prep1: "prepare_write st env key recs w = Inr prep"
    using assms(4) by (cases "prepare_write st env key recs w") (simp_all add: write_fresh_def)
  then obtain mvRows body us uuid db0 where prep: "prep = (mvRows, body, us, dataKey st key uuid, db0)"
    by (rule prepare_write_Inr)
  let ?k = "dataKey st key uuid" and ?w1 = "e_others env 1 (w\<lparr>wd_db := db0\<rparr>)" and ?rc = "int (length recs)"
  let ?body = "write_tx_body st env o1 key vals token ?k body us ?rc mvRows"
  obtain res put w2 where run: "run_write_tx env ?body ?w1 = (res, put, w2)" by (metis prod_cases3)
  show ?thesis
  proof (cases res)
    case (Inl e)
    then have "translateWriteTxErr st env e key token (wd_db w') = Inr ref"
      using assms(4) by (auto simp: write_fresh_def prep1 prep run Let_def simp del: One_nat_def)
    then have "lookupTokenFileRef st None (wd_db w') key token = Inr (Some ref)"
      by (auto simp: translateWriteTxErr_def intro!: lookup_fail
          split: tx_error.splits sum.splits option.splits)
    then show ?thesis by (intro exI [of _ "Extensions ref"] exI [of _ "Offset ref"]) simp
  next
    case (Inr x)
    obtain v fid at where x: "x = (v, fid, at)" by (cases x)
    have w': "w' = w2" and ref: "ref = \<lparr>FileID = fid, PartitionKey = key, S3Key = ?k, Version = v,
        WrittenAt = at, RecordCount = ?rc, FileSize = int (length body), UncompressedSize = us,
        Extensions = wo_metadata o1, Offset = OffsetNone\<rparr>"
      using assms(4) by (auto simp: write_fresh_def prep1 prep run Inr x Let_def simp del: One_nat_def)
    obtain ns where tx: "tx_res (?body ?w1) = Inr (v, fid, at, ns)" and w2: "wd_db w2 = tx_db (?body ?w1)"
      using run unfolding Inr x run_write_tx_def Let_def
      by (auto split: option.splits sum.splits commit_outcome.splits)
    let ?r = "new_row st (e_pgx env) (c_next_id (wd_db ?w1)) (e_now env) (fi_of o1 key vals token ?k body us ?rc v)"
    obtain ps m where c: "\<forall>s \<in> set (c_files (wd_db ?w1)). f_s3_key s \<noteq> ?k \<and> \<not> token_clash ?r s"
      "tx_db (?body ?w1) = committed (wd_db ?w1) ?r ps m" "fid = c_next_id (wd_db ?w1)" "at = e_now env"
      using write_tx_body_ok [OF assms(1,2) tx] by blast
    have "lookupTokenFileRef st None (wd_db w') key token = Inr (Some (ref_of (ext_names st) ?r))"
      unfolding w' w2 c(2) using c(1) by (intro lookup_committed [OF assms(1,3)]) (simp_all add: fi_of_def)
    moreover have "ref_of (ext_names st) ?r = ref\<lparr>Extensions := ext_map (ext_names st) ?r, Offset := OffsetNone\<rparr>"
      by (simp add: ref c(3,4) ref_of_def fi_of_def)
    ultimately show ?thesis by metis
  qed
qed

text \<open>C6.  Retries are idempotent: once a write under a token has returned a file, every later write
  of the partition under the same token, with whatever records and options, returns the same
  file (id, key, version, timestamp, counts) and changes nothing at all.\<close>

theorem retry_same_file:
  assumes "wf_store st" and "length vals = length (st_parts st)"
    and "resolveTokenForPartition recs o1 = Inr token" and "token \<noteq> []"
    and "writePartition st env key vals recs o1 w = (Inr ref, w')"
    and "resolveTokenForPartition recs2 o2 = Inr token" and "e_lookup env2 = None"
  shows "\<exists>exts off. writePartition st env2 key vals2 recs2 o2 w' =
    (Inr (ref\<lparr>Extensions := exts, Offset := off\<rparr>), w')"
proof -
  have found: "\<exists>exts off. lookupTokenFileRef st None (wd_db w') key token = Inr (Some (ref\<lparr>Extensions := exts, Offset := off\<rparr>))"
  proof (cases "lookupTokenFileRef st (e_lookup env) (wd_db w) key token")
    case (Inl e)
    with assms show ?thesis by (cases e) (simp_all add: writePartition_def)
  next
    case (Inr x)
    show ?thesis
    proof (cases x)
      case None
      with Inr assms have "write_fresh st env o1 key vals token recs (e_others env 0 w) = (Inr ref, w')"
        by (simp add: writePartition_def)
      from write_fresh_lookup [OF assms(1,2,4) this] show ?thesis .
    next
      case (Some existing)
      with Inr assms have "existing = ref" "w' = w" by (simp_all add: writePartition_def)
      with Some lookup_fail [OF Inr] show ?thesis
        by (intro exI [of _ "Extensions ref"] exI [of _ "Offset ref"]) simp
    qed
  qed
  then obtain exts off where
    "lookupTokenFileRef st None (wd_db w') key token = Inr (Some (ref\<lparr>Extensions := exts, Offset := off\<rparr>))"
    by blast
  with assms(4,6,7) show ?thesis
    by (intro exI [of _ exts] exI [of _ off]) (simp add: writePartition_def)
qed

lemma demo_write_ok:
  "\<not> isl (fst (writePartition demo_store (quiet_env ''u'') ''p=x'' [''x''] [''x''] (no_opts\<lparr>wo_token := Some ''t''\<rparr>)
     empty_world))"
  by code_simp

theorem retry_same_file_witness:
  "\<exists>ref w'. writePartition demo_store (quiet_env ''u'') ''p=x'' [''x''] [''x''] (no_opts\<lparr>wo_token := Some ''t''\<rparr>)
       empty_world = (Inr ref, w')
     \<and> (\<exists>exts off. writePartition demo_store (quiet_env ''v'') ''p=x'' [''x''] [''other'']
          (no_opts\<lparr>wo_token := Some ''t''\<rparr>) w' = (Inr (ref\<lparr>Extensions := exts, Offset := off\<rparr>), w'))"
proof -
  let ?o = "no_opts\<lparr>wo_token := Some ''t''\<rparr> :: string write_opts"
  obtain ref w' where w: "writePartition demo_store (quiet_env ''u'') ''p=x'' [''x''] [''x''] ?o empty_world = (Inr ref, w')"
    using demo_write_ok by (metis prod.collapse sum.collapse(2))
  have tok: "resolveTokenForPartition rs ?o = Inr ''t''" for rs by (simp add: resolveTokenForPartition_def)
  have len: "length [''x''] = length (st_parts demo_store)" by (simp add: demo_store_def)
  have "e_lookup (quiet_env ''v'' :: string env) = None" by (simp add: quiet_env_def)
  from retry_same_file [OF demo_wf len tok _ w tok this] w show ?thesis by blast
qed

section \<open>Optimistic concurrency control\<close>

definition current_version :: "catalog \<Rightarrow> string \<Rightarrow> int" where
  "current_version db key = (case part_find key (c_partitions db) of None \<Rightarrow> 0 | Some p \<Rightarrow> p_version p)"

text \<open>The steps before the version check succeed, and nobody else writes meanwhile.\<close>

definition reaches_tx :: "'a store \<Rightarrow> 'a env \<Rightarrow> string \<Rightarrow> 'a list \<Rightarrow> world \<Rightarrow> bool" where
  "reaches_tx st env key recs w \<longleftrightarrow> \<not> isl (prepare_write st env key recs w) \<and> e_begin env = None
     \<and> e_upsert env = None \<and> e_pending_cleanup env = None \<and> e_others env = (\<lambda>_ w. w)"

lemma tx_upload_no_conflict:
  "tx_res (tx_upload st env o1 token s3Key body us rc mvRows vals db s3) \<noteq> Inl Tx_version_conflict"
  "tx_res (tx_upload st env o1 token s3Key body us rc mvRows vals db s3) \<noteq> Inl Tx_token_race"
  by (auto simp: tx_upload_def tx_finish_def tx_fail_def s3_put_def Let_def notifySequencer_def
      split: sum.splits put_outcome.splits option.splits)

lemma insertFile_no_conflict:
  "fst (insertFile st pgx now f fi db) \<noteq> Inl Tx_version_conflict"
  "fi_token fi = [] \<Longrightarrow> fst (insertFile st pgx now f fi db) \<noteq> Inl Tx_token_race"
  by (auto simp: insertFile_def Let_def split: sum.splits option.splits prod.splits)

lemma body_occ:
  fixes env :: "'a env" and st :: "'a store"
  assumes "versions_ok (wd_db w) key" "wo_expected_set opts" "0 \<le> wo_expected opts" "e_upsert env = None"
  defines "t \<equiv> \<lambda>vals token s3Key body us rc mvRows. write_tx_body st env opts key vals token s3Key body us rc mvRows w"
  shows "if wo_expected opts \<noteq> current_version (wd_db w) key
    then t vals token s3Key body us rc mvRows = tx_fail Tx_version_conflict False (wd_db w) (wd_s3 w)
    else tx_res (t vals token s3Key body us rc mvRows) \<noteq> Inl Tx_version_conflict
      \<and> (token = [] \<longrightarrow> tx_res (t vals token s3Key body us rc mvRows) \<noteq> Inl Tx_token_race)
      \<and> (\<forall>v fid at ns. tx_res (t vals token s3Key body us rc mvRows) = Inr (v, fid, at, ns)
           \<longrightarrow> v = wo_expected opts + 1)"
proof -
  let ?up = "upsertPartition st (e_now env) (e_upsert env) key vals (wo_expected_set opts) (wo_expected opts) (wd_db w)"
  have up: "if wo_expected opts \<noteq> current_version (wd_db w) key then ?up = (Inl Tx_version_conflict, wd_db w)
      else fst ?up = Inr (wo_expected opts + 1)"
  proof (cases "part_find key (c_partitions (wd_db w))")
    case None
    with assms show ?thesis
      by (auto simp: upsertPartition_def sql_partition_update_occ_def sql_partition_upsert_def current_version_def)
  next
    case (Some p)
    then have "p_version p > 0" using assms(1) by (simp add: versions_ok_def Let_def)
    with Some assms show ?thesis
      by (auto simp: upsertPartition_def sql_partition_update_occ_def sql_partition_upsert_def current_version_def)
  qed
  show ?thesis
  proof (cases "wo_expected opts = current_version (wd_db w) key")
    case True
    let ?v = "wo_expected opts + 1"
    let ?fi = "fi_of opts key vals token s3Key body us rc ?v"
    obtain db1 where up1: "?up = (Inr ?v, db1)" using True up by (cases ?up) auto
    obtain res db2 where ins: "insertFile st (e_pgx env) (e_now env) (e_insert env) ?fi db1 = (res, db2)"
      by fastforce
    have t: "t vals token s3Key body us rc mvRows =
        (case res of Inl e \<Rightarrow> tx_fail e False db2 (wd_s3 w)
         | Inr (fid, at) \<Rightarrow> tx_upload st env opts token s3Key body us rc mvRows (?v, fid, at) db2 (wd_s3 w))"
      using up1 ins by (cases res) (simp_all add: t_def write_tx_body_def fi_of_def)
    have "res \<noteq> Inl Tx_version_conflict" "token = [] \<Longrightarrow> res \<noteq> Inl Tx_token_race"
      using insertFile_no_conflict(1) [of st "e_pgx env" "e_now env" "e_insert env" ?fi db1]
        insertFile_no_conflict(2) [of ?fi st "e_pgx env" "e_now env" "e_insert env" db1] ins
      by (auto simp: fi_of_def)
    with True show ?thesis
      unfolding t by (auto simp: tx_fail_def tx_upload_no_conflict dest: tx_upload_ok split: sum.splits)
  next
    case False
    then show ?thesis using up by (simp add: t_def write_tx_body_def)
  qed
qed

lemma cas_prepared:
  assumes "cat_inv (wd_db w)" "reaches_tx st env key recs w"
  obtains mvRows body us k db0 where "prepare_write st env key recs w = Inr (mvRows, body, us, k, db0)"
    "sql_pending_delete k db0 = wd_db w" "versions_ok db0 key" "current_version db0 key = current_version (wd_db w) key"
proof -
  obtain prep where prep1: "prepare_write st env key recs w = Inr prep"
    using assms(2) by (cases "prepare_write st env key recs w") (simp_all add: reaches_tx_def)
  then obtain mvRows body us uuid db0 where prep: "prep = (mvRows, body, us, dataKey st key uuid, db0)"
    and ins: "sql_pending_insert (e_now env) (dataKey st key uuid) (wd_db w) = Inr db0"
    by (rule prepare_write_Inr)
  let ?k = "dataKey st key uuid"
  have db0: "db0 = (wd_db w)\<lparr>c_pending := c_pending (wd_db w) @ [\<lparr>w_s3_key = ?k, w_intended_at = e_now env\<rparr>]\<rparr>"
    and new: "\<forall>x \<in> set (c_pending (wd_db w)). w_s3_key x \<noteq> ?k"
    using ins by (auto simp: sql_pending_insert_def split: if_splits)
  have "sql_pending_delete ?k db0 = wd_db w" using new by (simp add: sql_pending_delete_def db0 filter_id_conv)
  moreover have "versions_ok (wd_db w) key" using assms(1) by (simp add: cat_inv_def)
  then have "versions_ok db0 key" "current_version db0 key = current_version (wd_db w) key"
    by (simp_all add: versions_ok_def part_files_def db0 current_version_def)
  ultimately show thesis using that prep1 prep by blast
qed

text \<open>C7.  \<open>WithExpectedVersion\<close> is a compare-and-swap.  If the write gets to its transaction
  undisturbed, it reports a version conflict exactly when the partition's version (0 without a
  row) differs from the expected one; a conflict leaves the catalog, the bucket and the
  notifications as they were; a success is written at the next version.\<close>

theorem expected_version_cas:
  assumes "cat_inv (wd_db w)" and "reaches_tx st env key recs w"
    and "resolveTokenForPartition recs opts = Inr []" and "wo_expected_set opts" and "0 \<le> wo_expected opts"
  shows "case writePartition st env key vals recs opts w of
      (Inl e, w') \<Rightarrow> if e = Wr_version_conflict
        then wo_expected opts \<noteq> current_version (wd_db w) key \<and> w' = w
        else wo_expected opts = current_version (wd_db w) key
    | (Inr ref, w') \<Rightarrow> wo_expected opts = current_version (wd_db w) key \<and> Version ref = wo_expected opts + 1"
proof -
  obtain mvRows body us k db0 where prep: "prepare_write st env key recs w = Inr (mvRows, body, us, k, db0)"
    and undo: "sql_pending_delete k db0 = wd_db w" and vers: "versions_ok db0 key"
    and cur: "current_version db0 key = current_version (wd_db w) key"
    by (rule cas_prepared [OF assms(1,2)])
  let ?k = k and ?w = "w\<lparr>wd_db := db0\<rparr>" and ?rc = "int (length recs)"
  let ?t = "write_tx_body st env opts key vals [] ?k body us ?rc mvRows ?w"
  have env: "e_begin env = None" "e_upsert env = None" "e_pending_cleanup env = None" "e_others env = (\<lambda>_ w. w)"
    using assms(2) by (simp_all add: reaches_tx_def)
  have vers': "versions_ok (wd_db ?w) key" "current_version (wd_db ?w) key = current_version (wd_db w) key" using vers cur by simp_all
  note occ = body_occ [OF vers'(1) assms(4,5) env(2), where st = st and vals = vals and token = "[]" and s3Key = ?k and
      body = body and us = us and rc = ?rc and mvRows = mvRows, unfolded vers'(2)]
  have wp: "writePartition st env key vals recs opts w = write_fresh st env opts key vals [] recs w"
    by (simp add: writePartition_def assms(3))
  show ?thesis
  proof (cases "wo_expected opts = current_version (wd_db w) key")
    case False
    then have "?t = tx_fail Tx_version_conflict False db0 (wd_s3 w)" using occ by simp
    then have "writePartition st env key vals recs opts w = (Inl Wr_version_conflict, w)"
      unfolding wp write_fresh_def prep
      by (simp add: run_write_tx_def env tx_fail_def Let_def rollback_def undo translateWriteTxErr_def)
    with False show ?thesis by simp
  next
    case True
    with occ have res: "tx_res ?t \<noteq> Inl Tx_version_conflict" "tx_res ?t \<noteq> Inl Tx_token_race"
      "\<And>v fid at ns. tx_res ?t = Inr (v, fid, at, ns) \<Longrightarrow> v = wo_expected opts + 1" by auto
    obtain r put w2 where run: "run_write_tx env (write_tx_body st env opts key vals [] ?k body us ?rc mvRows) ?w = (r, put, w2)"
      by (metis prod_cases3)
    show ?thesis
    proof (cases r)
      case (Inl e)
      then have "e \<noteq> Tx_version_conflict" "e \<noteq> Tx_token_race"
        using run res(1,2) by (auto simp: run_write_tx_def env Let_def split: sum.splits commit_outcome.splits)
      then show ?thesis
        using True unfolding wp write_fresh_def prep
        by (simp add: env run Inl Let_def translateWriteTxErr_def split: tx_error.splits)
    next
      case (Inr x)
      obtain v fid at where x: "x = (v, fid, at)" by (cases x)
      have "v = wo_expected opts + 1"
        using run res(3) unfolding Inr x by (auto simp: run_write_tx_def env Let_def split: sum.splits commit_outcome.splits)
      then show ?thesis
        using True unfolding wp write_fresh_def prep by (simp add: env run Inr x Let_def)
    qed
  qed
qed

theorem expected_version_cas_witness:
  "fst (writePartition demo_store (quiet_env ''u'') ''p=x'' [''x''] [''x'']
      (no_opts\<lparr>wo_expected_set := True, wo_expected := 3\<rparr>) empty_world) = Inl Wr_version_conflict"
proof -
  let ?o = "no_opts\<lparr>wo_expected_set := True, wo_expected := 3\<rparr> :: string write_opts"
  have "\<not> isl (prepare_write demo_store (quiet_env ''u'') ''p=x'' [''x''] empty_world)" by code_simp
  then have r: "reaches_tx demo_store (quiet_env ''u'') ''p=x'' [''x''] empty_world"
    by (simp add: reaches_tx_def quiet_env_def)
  have "cat_inv (wd_db empty_world)" using empty_world_ok by (simp add: world_ok_def)
  from expected_version_cas [OF this r, of ?o "[''x'']"] show ?thesis
    by (auto simp: resolveTokenForPartition_def no_opts_def current_version_def empty_world_def part_find_def
        split: prod.splits sum.splits if_splits)
qed

section \<open>The fan-out\<close>

lemma scan_ref_key:
  "scan_file_ref exts (project (file_ref_cols exts) r) = Inr ref \<Longrightarrow> PartitionKey ref = f_partition_key r"
  by (auto simp: scan_file_ref_def project_def file_ref_cols_def and_then_Inr file_col_def [of "''partition_key''"]
      split: if_splits)

lemma lookup_ref_key:
  "lookupTokenFileRef st f db key token = Inr (Some ref) \<Longrightarrow> PartitionKey ref = key"
proof -
  assume "lookupTokenFileRef st f db key token = Inr (Some ref)"
  then obtain row rows where "sql_idempotency_lookup (ext_names st) key token db = row # rows"
    and scan: "scan_file_ref (ext_names st) row = Inr ref"
    by (auto simp: lookupTokenFileRef_def split: option.splits list.splits sum.splits)
  then obtain r where r: "row = project (file_ref_cols (ext_names st)) r"
    "r \<in> set (filter (\<lambda>r. f_partition_key r = key \<and> f_token r = Some token) (c_files db))"
    unfolding sql_idempotency_lookup_def by (metis (no_types, lifting) list.set_intros(1) map_eq_Cons_D)
  with scan_ref_key scan show ?thesis by auto
qed

lemma writePartition_key:
  "writePartition st env key vals recs opts w = (Inr ref, w') \<Longrightarrow> PartitionKey ref = key"
  by (auto simp: writePartition_def write_fresh_def translateWriteTxErr_def Let_def
      dest!: lookup_ref_key split: sum.splits option.splits if_splits prod.splits tx_error.splits)

lemma group_records_spec:
  assumes "group_records st recs (g0, kv0) = Inr (g, kv)" "distinct (map fst g0)"
    and "fst ` set g0 = dom (map_of kv0)"
  shows "distinct (map fst g)" "fst ` set g = fst ` set g0 \<union> st_partition_key_of st ` set recs"
    "\<And>k. map_of g k = (let rs = filter (\<lambda>r. st_partition_key_of st r = k) recs in
        if rs = [] then map_of g0 k else Some ((case map_of g0 k of None \<Rightarrow> [] | Some xs \<Rightarrow> xs) @ rs))"
    "\<And>k. map_of kv k = (if k \<in> dom (map_of kv0) then map_of kv0 k
        else if k \<in> st_partition_key_of st ` set recs then Some (projr (PartitionKeyValues k (st_parts st))) else None)"
    "\<And>r. r \<in> set recs \<Longrightarrow> \<not> isl (PartitionKeyValues (st_partition_key_of st r) (st_parts st))"
proof -
  have "distinct (map fst g) \<and> fst ` set g = fst ` set g0 \<union> st_partition_key_of st ` set recs
    \<and> (\<forall>k. map_of g k = (let rs = filter (\<lambda>r. st_partition_key_of st r = k) recs in
        if rs = [] then map_of g0 k else Some ((case map_of g0 k of None \<Rightarrow> [] | Some xs \<Rightarrow> xs) @ rs)))
    \<and> (\<forall>k. map_of kv k = (if k \<in> dom (map_of kv0) then map_of kv0 k
        else if k \<in> st_partition_key_of st ` set recs then Some (projr (PartitionKeyValues k (st_parts st))) else None))
    \<and> (\<forall>r \<in> set recs. \<not> isl (PartitionKeyValues (st_partition_key_of st r) (st_parts st)))"
    using assms
  proof (induction recs arbitrary: g0 kv0)
    case (Cons rec recs)
    let ?k = "st_partition_key_of st rec"
    obtain vals where v: "PartitionKeyValues ?k (st_parts st) = Inr vals"
      using Cons.prems(1) by (auto simp: validatePartitionKey_def Let_def split: sum.splits)
    let ?g = "map_put ?k ((case map_of g0 ?k of None \<Rightarrow> [] | Some rs \<Rightarrow> rs) @ [rec]) g0"
      and ?kv = "if map_of kv0 ?k = None then map_put ?k vals kv0 else kv0"
    have step: "group_records st recs (?g, ?kv) = Inr (g, kv)"
      using Cons.prems(1) by (simp add: validatePartitionKey_def Let_def v)
    have dom: "fst ` set ?g = dom (map_of ?kv)"
      using Cons.prems(3) by (auto simp: set_put_keys dom_map_of_conv_image_fst [symmetric])
    note IH = Cons.IH [OF step distinct_put [OF Cons.prems(2)] dom]
    show ?case
      using IH Cons.prems(3) v by (auto simp: set_put_keys Let_def split: option.splits if_splits)
  qed auto
  then show "distinct (map fst g)" "fst ` set g = fst ` set g0 \<union> st_partition_key_of st ` set recs"
    "\<And>k. map_of g k = (let rs = filter (\<lambda>r. st_partition_key_of st r = k) recs in
        if rs = [] then map_of g0 k else Some ((case map_of g0 k of None \<Rightarrow> [] | Some xs \<Rightarrow> xs) @ rs))"
    "\<And>k. map_of kv k = (if k \<in> dom (map_of kv0) then map_of kv0 k
        else if k \<in> st_partition_key_of st ` set recs then Some (projr (PartitionKeyValues k (st_parts st))) else None)"
    "\<And>r. r \<in> set recs \<Longrightarrow> \<not> isl (PartitionKeyValues (st_partition_key_of st r) (st_parts st))"
    by blast+
qed

lemma run_tasks_error: "run_tasks task ks out (Some e) w = (out', err, w') \<Longrightarrow> err = Some e"
  by (induction ks arbitrary: out w) (auto split: prod.splits sum.splits)

lemma run_tasks_ok:
  "run_tasks task ks out None w = (out', None, w') \<Longrightarrow> distinct ks \<Longrightarrow> list_all (\<lambda>i. i < length out) ks \<Longrightarrow>
   length out' = length out \<and> (\<forall>i \<in> set ks. \<exists>v v'. task i v = (Inr (out' ! i), v'))
   \<and> (\<forall>i. i \<notin> set ks \<longrightarrow> out' ! i = out ! i)"
proof (induction ks arbitrary: out w)
  case (Cons i ks)
  obtain ref v where t: "task i w = (Inr ref, v)"
    using Cons.prems(1) by (auto dest: run_tasks_error split: prod.splits sum.splits)
  with Cons.prems have "run_tasks task ks (out[i := ref]) None v = (out', None, w')" by simp
  from Cons.IH [OF this] Cons.prems(2,3) t show ?case by (fastforce simp: nth_list_update)
qed simp

lemma Write_slots:
  assumes "Write st envs sched cancelled recs opts w = ((out, None), w')" and "recs \<noteq> []"
    and "\<And>n. distinct (sched n) \<and> set (sched n) = {0..<n}"
  obtains o1 g kv where "resolveWriteOpts st opts = Inr o1" "group_records st recs ([], []) = Inr (g, kv)"
    "length out = length g" "map PartitionKey out = sort (map fst g)"
    "\<And>i. i < length out \<Longrightarrow> \<exists>v v'. writePartition st (envs i) (PartitionKey (out ! i)) (the (map_of kv (PartitionKey (out ! i))))
       (the (map_of g (PartitionKey (out ! i)))) o1 v = (Inr (out ! i), v')"
proof -
  obtain o1 g kv where o1: "resolveWriteOpts st opts = Inr o1" and gk: "group_records st recs ([], []) = Inr (g, kv)"
    using assms(1,2) by (auto simp: Write_def split: sum.splits)
  let ?keys = "sort (map fst g)"
  let ?task = "\<lambda>i w. let key = ?keys ! i in if cancelled i then (Inl Wr_cancelled, w) else
    writePartition st (envs i) key (the (map_of kv key)) (the (map_of g key)) o1 w"
  have run: "run_tasks ?task (sched (length ?keys)) (replicate (length ?keys) zero_ref) None w = (out, None, w')"
    using assms(1,2) by (simp add: Write_def o1 gk split: prod.splits)
  have s: "distinct (sched (length ?keys))" "set (sched (length ?keys)) = {0..<length ?keys}"
    using assms(3) by auto
  note ok = run_tasks_ok [OF run s(1)]
  have len: "length out = length ?keys" and
    slot: "\<forall>i < length ?keys. \<exists>v v'. ?task i v = (Inr (out ! i), v')"
    using ok s(2) by (auto simp: list_all_iff)
  have wp: "\<exists>v v'. writePartition st (envs i) (?keys ! i) (the (map_of kv (?keys ! i))) (the (map_of g (?keys ! i))) o1 v
      = (Inr (out ! i), v')" if "i < length ?keys" for i
    using slot that by (fastforce simp: Let_def split: if_splits)
  then have pk: "PartitionKey (out ! i) = ?keys ! i" if "i < length ?keys" for i
    using that writePartition_key by blast
  then have "map PartitionKey out = ?keys" using len by (intro nth_equalityI) simp_all
  with that [OF o1 gk] len wp pk show thesis by simp
qed

text \<open>C8.  \<open>Write\<close> returns one file per partition, in lexicographic order of the partition keys,
  in whatever order the partitions complete; each task gets exactly the records of its
  partition, in input order.\<close>

theorem Write_one_file_per_partition:
  assumes "Write st envs sched cancelled recs opts w = ((out, None), w')" and "recs \<noteq> []"
    and "\<And>n. distinct (sched n) \<and> set (sched n) = {0..<n}"
  shows "map PartitionKey out = sorted_list_of_set (st_partition_key_of st ` set recs)
    \<and> (\<forall>i < length out. \<exists>o1 vals v v'. resolveWriteOpts st opts = Inr o1
         \<and> PartitionKeyValues (PartitionKey (out ! i)) (st_parts st) = Inr vals
         \<and> writePartition st (envs i) (PartitionKey (out ! i)) vals
             (filter (\<lambda>r. st_partition_key_of st r = PartitionKey (out ! i)) recs) o1 v = (Inr (out ! i), v'))"
proof -
  obtain o1 g kv where o1: "resolveWriteOpts st opts = Inr o1" and gk: "group_records st recs ([], []) = Inr (g, kv)"
    and out: "length out = length g" "map PartitionKey out = sort (map fst g)"
    and wp: "\<And>i. i < length out \<Longrightarrow> \<exists>v v'. writePartition st (envs i) (PartitionKey (out ! i)) (the (map_of kv (PartitionKey (out ! i))))
       (the (map_of g (PartitionKey (out ! i)))) o1 v = (Inr (out ! i), v')"
    using assms by (rule Write_slots) blast+
  note spec = group_records_spec [OF gk, simplified]
  have keys: "map PartitionKey out = sorted_list_of_set (st_partition_key_of st ` set recs)"
    using spec(1,2) out(2) by (metis list.set_map sorted_list_of_set_sort_remdups remdups_id_iff_distinct)
  have "\<exists>o1 vals v v'. resolveWriteOpts st opts = Inr o1
         \<and> PartitionKeyValues (PartitionKey (out ! i)) (st_parts st) = Inr vals
         \<and> writePartition st (envs i) (PartitionKey (out ! i)) vals
             (filter (\<lambda>r. st_partition_key_of st r = PartitionKey (out ! i)) recs) o1 v = (Inr (out ! i), v')"
    if i: "i < length out" for i
  proof -
    let ?k = "PartitionKey (out ! i)"
    have "?k \<in> set (map PartitionKey out)" using nth_mem [OF i] by simp
    then have "?k \<in> st_partition_key_of st ` set recs"
      unfolding keys by (metis List.finite_set finite_imageI set_sorted_list_of_set)
    then obtain r where r: "r \<in> set recs" "?k = st_partition_key_of st r" by auto
    then have "map_of g ?k = Some (filter (\<lambda>x. st_partition_key_of st x = ?k) recs)"
      using spec(3) [of ?k] by (auto simp: Let_def filter_empty_conv)
    moreover have "map_of kv ?k = Some (projr (PartitionKeyValues ?k (st_parts st)))"
      using spec(4) [of ?k] r by auto
    moreover have "PartitionKeyValues ?k (st_parts st) = Inr (projr (PartitionKeyValues ?k (st_parts st)))"
      using spec(5) [OF r(1)] r(2) by (simp add: sum.collapse)
    ultimately show ?thesis using wp [OF i] o1 by auto
  qed
  then show ?thesis using keys by simp
qed

lemma demo_fan_out:
  "snd (fst (Write demo_store (\<lambda>i. quiet_env (if i = 0 then ''a'' else ''b'')) (\<lambda>n. [0..<n]) (\<lambda>_. False) [''y'', ''x'', ''y''] [] empty_world)) = None"
  by code_simp

theorem Write_one_file_per_partition_witness:
  "map PartitionKey (fst (fst (Write demo_store (\<lambda>i. quiet_env (if i = 0 then ''a'' else ''b'')) (\<lambda>n. [0..<n]) (\<lambda>_. False)
     [''y'', ''x'', ''y''] [] empty_world))) = [''p=x'', ''p=y'']"
proof -
  obtain out w' where run: "Write demo_store (\<lambda>i. quiet_env (if i = 0 then ''a'' else ''b'')) (\<lambda>n. [0..<n]) (\<lambda>_. False)
      [''y'', ''x'', ''y''] [] empty_world = ((out, None), w')"
    using demo_fan_out by (metis prod.collapse)
  have keys: "st_partition_key_of demo_store ` set [''y'', ''x'', ''y''] = set [''p=x'', ''p=y'']"
    by (auto simp: demo_store_def)
  have "sorted_list_of_set (set [''p=x'', ''p=y'']) = [''p=x'', ''p=y'']" by code_simp
  moreover have sched: "distinct [0..<n] \<and> set [0..<n] = {0..<n}" for n :: nat by simp
  have "map PartitionKey out = sorted_list_of_set (st_partition_key_of demo_store ` set [''y'', ''x'', ''y''])"
    by (rule conjunct1 [OF Write_one_file_per_partition [OF run _ sched]]) simp
  ultimately show ?thesis unfolding run keys by simp
qed

end
