(* ===== verification/Orphan_Gc.thy ===== *)
theory Orphan_Gc
  imports Write_Correct
begin

text \<open>
  \<open>gc/gc.go\<close>: the sweep of the orphan-tracking table.  A sweep runs on the \<open>world\<close> of the
  write path; its faults and what other sessions do between its steps are in \<open>gc_env\<close>, by
  step: \<open>g_others 0\<close> before the scan, \<open>g_others (2 i + 1)\<close> and \<open>g_others (2 i + 2)\<close> before the
  object DELETE and the row DELETE of the \<open>i\<close>-th key.  A sweep keeps the world consistent as
  long as no writer is still at work on a key older than the grace period; without that, it does
  not (\<open>gc_slow_writer\<close>).
\<close>

section \<open>Configuration\<close>

record gc_config =
  gc_pool :: bool  \<comment> \<open>non-nil\<close>
  gc_s3_client :: bool  \<comment> \<open>non-nil\<close>
  gc_bucket :: string
  gc_schema :: string
  gc_prefix :: string
  gc_grace :: int
  gc_interval :: int
  gc_batch_size :: int

definition DefaultGrace :: int where "DefaultGrace = 24 * 3600 * 1000000000"
definition DefaultInterval :: int where "DefaultInterval = 3600 * 1000000000"

definition gc_resolved :: "gc_config \<Rightarrow> gc_config" where
  "gc_resolved c =
     c\<lparr>gc_schema := (if gc_schema c = [] then ''public'' else gc_schema c),
       gc_prefix := (if gc_prefix c = [] then ''s3pgstore_'' else gc_prefix c),
       gc_grace := (if gc_grace c \<le> 0 then DefaultGrace else gc_grace c),
       gc_interval := (if gc_interval c \<le> 0 then DefaultInterval else gc_interval c),
       gc_batch_size := (if gc_batch_size c \<le> 0 then 1000 else gc_batch_size c)\<rparr>"

datatype gc_error =
    Gc_pool_required
  | Gc_client_required
  | Gc_bucket_required
  | Gc_scan sql_error
  | Gc_ctx string
  | Gc_s3_delete string
  | Gc_row_delete sql_error
  | Gc_row_commit string

definition gc_validate :: "gc_config \<Rightarrow> gc_error + unit" where
  "gc_validate c =
     (if \<not> gc_pool c then Inl Gc_pool_required
      else if \<not> gc_s3_client c then Inl Gc_client_required
      else if gc_bucket c = [] then Inl Gc_bucket_required
      else Inr ())"

record gc_sql =
  gs_scan :: string
  gs_delete :: string

definition buildSQL :: "sanitizer \<Rightarrow> gc_config \<Rightarrow> gc_sql" where
  "buildSQL san r =
     (let n = NewNames (gc_schema r) (gc_prefix r)
      in \<lparr>gs_scan = PendingWritesScanSQL san n, gs_delete = PendingWriteDeleteSQL san n\<rparr>)"

section \<open>The sweep\<close>

text \<open>\<open>DeleteObject\<close> deletes the object (or finds none), or fails with the object kept or gone.\<close>

datatype del_outcome = Del_ok | Del_kept string | Del_gone string

record gc_env =
  g_now :: int
  g_scan :: "sql_error option"
  g_ctx :: "nat \<Rightarrow> string option"
  g_delete_object :: "nat \<Rightarrow> del_outcome"
  g_delete_row :: "nat \<Rightarrow> sql_error option"
  g_row_commit :: "nat \<Rightarrow> commit_outcome"
  g_others :: "nat \<Rightarrow> world \<Rightarrow> world"

definition scanPending :: "gc_env \<Rightarrow> int \<Rightarrow> int \<Rightarrow> catalog \<Rightarrow> gc_error + string list" where
  "scanPending env cutoff limit db =
     (case g_scan env of
        Some e \<Rightarrow> Inl (Gc_scan e)
      | None \<Rightarrow> Inr (sql_pending_scan cutoff (nat limit) db))"

text \<open>\<open>DELETE FROM pending_writes WHERE s3_key = $1\<close> in a transaction of its own.\<close>

definition delete_row :: "sql_error option \<Rightarrow> commit_outcome \<Rightarrow> string \<Rightarrow> world \<Rightarrow> gc_error option \<times> world" where
  "delete_row fail commit s3Key w =
     (case fail of
        Some e \<Rightarrow> (Some (Gc_row_delete e), w)
      | None \<Rightarrow>
          (let w' = w\<lparr>wd_db := sql_pending_delete s3Key (wd_db w)\<rparr> in
           case commit of
             Commit_ok \<Rightarrow> (None, w')
           | Commit_failed e \<Rightarrow> (Some (Gc_row_commit e), w)
           | Commit_lost e \<Rightarrow> (Some (Gc_row_commit e), w')))"

definition reclaimOne :: "gc_env \<Rightarrow> nat \<Rightarrow> string \<Rightarrow> world \<Rightarrow> gc_error option \<times> world" where
  "reclaimOne env i s3Key w =
     (let w0 = g_others env (2 * i + 1) w; gone = w0\<lparr>wd_s3 := (wd_s3 w0)(s3Key := None)\<rparr> in
      case g_delete_object env i of
        Del_kept e \<Rightarrow> (Some (Gc_s3_delete e), w0)
      | Del_gone e \<Rightarrow> (Some (Gc_s3_delete e), gone)
      | Del_ok \<Rightarrow>
          delete_row (g_delete_row env i) (g_row_commit env i) s3Key (g_others env (2 * i + 2) gone))"

fun reclaim_loop :: "gc_env \<Rightarrow> nat \<Rightarrow> string list \<Rightarrow> nat \<Rightarrow> world \<Rightarrow> (nat \<times> gc_error option) \<times> world" where
  "reclaim_loop env i [] reclaimed w = ((reclaimed, None), w)"
| "reclaim_loop env i (key # rows) reclaimed w =
     (case g_ctx env i of
        Some e \<Rightarrow> ((reclaimed, Some (Gc_ctx e)), w)
      | None \<Rightarrow>
          (case reclaimOne env i key w of
             (Some e, w') \<Rightarrow> reclaim_loop env (i + 1) rows reclaimed w'
           | (None, w') \<Rightarrow> reclaim_loop env (i + 1) rows (reclaimed + 1) w'))"

definition gc_runOnceWithMetrics :: "gc_config \<Rightarrow> gc_env \<Rightarrow> world \<Rightarrow> (nat \<times> gc_error option) \<times> world" where
  "gc_runOnceWithMetrics r env w =
     (let cutoff = g_now env - gc_grace r; w0 = g_others env 0 w in
      case scanPending env cutoff (gc_batch_size r) (wd_db w0) of
        Inl e \<Rightarrow> ((0, Some e), w0)
      | Inr rows \<Rightarrow> reclaim_loop env 0 rows 0 w0)"

definition gc_RunOnce :: "gc_config \<Rightarrow> gc_env \<Rightarrow> world \<Rightarrow> (nat \<times> gc_error option) \<times> world" where
  "gc_RunOnce cfg env w =
     (case gc_validate cfg of
        Inl e \<Rightarrow> ((0, Some e), w)
      | Inr _ \<Rightarrow> gc_runOnceWithMetrics (gc_resolved cfg) env w)"

text \<open>\<open>Run\<close> over the sweeps of a finite observation: the environment of each sweep and whether
  the context is done when it waits for the next; the error it returned, or no error when it is
  still running.\<close>

definition gc_cancelled :: "gc_error \<Rightarrow> bool" where
  "gc_cancelled e \<longleftrightarrow> (case e of
       Gc_ctx m \<Rightarrow> m = ''context canceled''
     | Gc_scan (Server_error m) \<Rightarrow> m = ''context canceled''
     | _ \<Rightarrow> False)"

fun gc_sweeps :: "gc_config \<Rightarrow> (gc_env \<times> string option) list \<Rightarrow> world \<Rightarrow> gc_error option \<times> world" where
  "gc_sweeps r [] w = (None, w)"
| "gc_sweeps r ((env, ctx) # rest) w =
     (case gc_runOnceWithMetrics r env w of
        ((n, err), w') \<Rightarrow>
          if (case err of Some e \<Rightarrow> gc_cancelled e | None \<Rightarrow> False) then (err, w')
          else (case ctx of Some m \<Rightarrow> (Some (Gc_ctx m), w') | None \<Rightarrow> gc_sweeps r rest w'))"

definition gc_Run :: "gc_config \<Rightarrow> (gc_env \<times> string option) list \<Rightarrow> world \<Rightarrow> gc_error option \<times> world" where
  "gc_Run cfg sweeps w =
     (case gc_validate cfg of
        Inl e \<Rightarrow> (Some e, w)
      | Inr _ \<Rightarrow> gc_sweeps (gc_resolved cfg) sweeps w)"

section \<open>Safety\<close>

text \<open>The keys a sweep at time \<open>now\<close> may touch, and what the grace period promises about them:
  no session commits a files row or stores an object under one of them any more.\<close>

definition stale_keys :: "int \<Rightarrow> world \<Rightarrow> string set" where
  "stale_keys cutoff w = {w_s3_key p | p. p \<in> set (c_pending (wd_db w)) \<and> w_intended_at p < cutoff}"

definition abandoned :: "(nat \<Rightarrow> world \<Rightarrow> world) \<Rightarrow> string set \<Rightarrow> bool" where
  "abandoned others ks \<longleftrightarrow>
     (\<forall>n w. file_keys (others n w) \<inter> ks \<subseteq> file_keys w
        \<and> dom (wd_s3 (others n w)) \<inter> ks \<subseteq> dom (wd_s3 w))"

lemma world_ok_delete_object:
  assumes "world_ok w" "k \<notin> file_keys w"
  shows "world_ok (w\<lparr>wd_s3 := (wd_s3 w)(k := None)\<rparr>)"
proof -
  have "f_s3_key r \<noteq> k" if "r \<in> set (c_files (wd_db w))" for r
    using that assms(2) by (auto simp: file_keys_def)
  with assms(1) show ?thesis by (auto simp: world_ok_def)
qed

lemma delete_row_safe:
  assumes "world_ok w" "k \<notin> dom (wd_s3 w)"
  shows "world_ok (snd (delete_row fail commit k w))" "file_keys (snd (delete_row fail commit k w)) = file_keys w"
proof -
  have "world_ok (w\<lparr>wd_db := sql_pending_delete k (wd_db w)\<rparr>)"
    using assms by (intro world_ok_pending_delete) auto
  with assms(1) show "world_ok (snd (delete_row fail commit k w))"
    by (simp add: delete_row_def Let_def split: option.split commit_outcome.split)
  show "file_keys (snd (delete_row fail commit k w)) = file_keys w"
    by (simp add: delete_row_def Let_def file_keys_def sql_pending_delete_def split: option.split commit_outcome.split)
qed

lemma reclaimOne_safe:
  assumes "world_ok w" "k \<in> ks" "k \<notin> file_keys w" "neighbours_ok (g_others env)" "abandoned (g_others env) ks"
    and "reclaimOne env i k w = (err, w')"
  shows "world_ok w'" "file_keys w \<subseteq> file_keys w'" "file_keys w' \<inter> ks \<subseteq> file_keys w"
proof -
  let ?w0 = "g_others env (2 * i + 1) w"
  let ?gone = "?w0\<lparr>wd_s3 := (wd_s3 ?w0)(k := None)\<rparr>"
  let ?w1 = "g_others env (2 * i + 2) ?gone"
  have nb: "world_ok v \<Longrightarrow> world_ok (g_others env n v) \<and> file_keys v \<subseteq> file_keys (g_others env n v)" for n v
    using assms(4) unfolding neighbours_ok_def by blast
  have ab: "file_keys (g_others env n v) \<inter> ks \<subseteq> file_keys v" "dom (wd_s3 (g_others env n v)) \<inter> ks \<subseteq> dom (wd_s3 v)" for n v
    using assms(5) unfolding abandoned_def by blast+
  have w0: "world_ok ?w0" "file_keys w \<subseteq> file_keys ?w0" "file_keys ?w0 \<inter> ks \<subseteq> file_keys w"
    using nb [OF assms(1)] ab by blast+
  have k: "k \<notin> file_keys ?w0" using w0(3) assms(2,3) by blast
  have gone: "world_ok ?gone" by (rule world_ok_delete_object [OF w0(1) k])
  have fk: "file_keys ?gone = file_keys ?w0" by (simp add: file_keys_def)
  have w1: "world_ok ?w1" "file_keys ?w0 \<subseteq> file_keys ?w1" "file_keys ?w1 \<inter> ks \<subseteq> file_keys ?w0"
    using nb [OF gone] ab [of _ ?gone] fk by blast+
  have "k \<notin> dom (wd_s3 ?w1)" using ab(2) [of "2 * i + 2" ?gone] assms(2) by auto
  note row = delete_row_safe [OF w1(1) this]
  have "w' \<in> {?w0, ?gone, snd (delete_row (g_delete_row env i) (g_row_commit env i) k ?w1)}"
    using assms(6) by (auto simp: reclaimOne_def Let_def split: del_outcome.splits)
  then show "world_ok w'" "file_keys w \<subseteq> file_keys w'" "file_keys w' \<inter> ks \<subseteq> file_keys w"
    using w0 gone fk w1 row by auto
qed

lemma reclaim_loop_safe:
  assumes "neighbours_ok (g_others env)" "abandoned (g_others env) ks"
  shows "world_ok w \<Longrightarrow> set keys \<subseteq> ks \<Longrightarrow> file_keys w \<inter> ks = {} \<Longrightarrow>
    world_ok (snd (reclaim_loop env i keys n w)) \<and> file_keys w \<subseteq> file_keys (snd (reclaim_loop env i keys n w))"
proof (induction keys arbitrary: i n w)
  case (Cons k keys)
  obtain err w' where r: "reclaimOne env i k w = (err, w')" by (metis prod.collapse)
  have "k \<in> ks" "k \<notin> file_keys w" using Cons.prems by auto
  note s = reclaimOne_safe [OF Cons.prems(1) this assms r]
  have "file_keys w' \<inter> ks = {}" using s(3) Cons.prems(3) by blast
  with Cons.IH [OF s(1)] s(2) Cons.prems(2)
  have "world_ok (snd (reclaim_loop env j keys m w')) \<and> file_keys w \<subseteq> file_keys (snd (reclaim_loop env j keys m w'))" for j m
    by (meson order_trans set_subset_Cons)
  with r Cons.prems(1) show ?case by (auto split: option.split simp del: subset_iff)
qed simp

text \<open>A sweep never removes an object that a files row refers to, nor loses track of one it
  left behind: if the world was consistent and no tracked key was committed, it is consistent
  after the sweep, whatever calls of it fail, provided the grace period is long enough, that is,
  nobody commits a file or stores an object under the keys it found stale.\<close>

theorem gc_RunOnce_safe:
  assumes "world_ok w" and "neighbours_ok (g_others env)"
    and "file_keys (g_others env 0 w) \<inter> pending_keys (g_others env 0 w) = {}"
    and "abandoned (g_others env) (stale_keys (g_now env - gc_grace (gc_resolved cfg)) (g_others env 0 w))"
  shows "world_ok (snd (gc_RunOnce cfg env w)) \<and> file_keys w \<subseteq> file_keys (snd (gc_RunOnce cfg env w))"
proof (cases "gc_validate cfg")
  case (Inl e)
  with assms(1) show ?thesis by (simp add: gc_RunOnce_def)
next
  case (Inr u)
  let ?w0 = "g_others env 0 w" and ?cut = "g_now env - gc_grace (gc_resolved cfg)"
  have w0: "world_ok ?w0" "file_keys w \<subseteq> file_keys ?w0" using assms(1,2) unfolding neighbours_ok_def by auto
  have "set (sql_pending_scan ?cut n (wd_db ?w0)) \<subseteq> stale_keys ?cut ?w0" for n
    using sort_key_take_set [of n w_intended_at "filter (\<lambda>p. w_intended_at p < ?cut) (c_pending (wd_db ?w0))"]
    by (auto simp: sql_pending_scan_def stale_keys_def)
  moreover have "file_keys ?w0 \<inter> stale_keys ?cut ?w0 = {}"
    using assms(3) by (auto simp: stale_keys_def pending_keys_def)
  ultimately have "world_ok (snd (reclaim_loop env 0 (sql_pending_scan ?cut n (wd_db ?w0)) 0 ?w0))
      \<and> file_keys ?w0 \<subseteq> file_keys (snd (reclaim_loop env 0 (sql_pending_scan ?cut n (wd_db ?w0)) 0 ?w0))" for n
    using reclaim_loop_safe [OF assms(2,4) w0(1)] by blast
  then show ?thesis using w0 Inr
    by (auto simp: gc_RunOnce_def gc_runOnceWithMetrics_def Let_def scanPending_def simp del: subset_iff split: option.split)
qed

definition quiet_gc :: "int \<Rightarrow> gc_env" where
  "quiet_gc now = \<lparr>g_now = now, g_scan = None, g_ctx = (\<lambda>_. None), g_delete_object = (\<lambda>_. Del_ok),
     g_delete_row = (\<lambda>_. None), g_row_commit = (\<lambda>_. Commit_ok), g_others = (\<lambda>_ w. w)\<rparr>"

definition demo_gc :: gc_config where
  "demo_gc = \<lparr>gc_pool = True, gc_s3_client = True, gc_bucket = ''b'', gc_schema = [], gc_prefix = [],
     gc_grace = 100, gc_interval = 0, gc_batch_size = 0\<rparr>"

text \<open>A writer inserted its tracking row at time 0.\<close>

definition orphan_world :: world where
  "orphan_world = empty_world\<lparr>wd_db := (wd_db empty_world)\<lparr>c_pending := [\<lparr>w_s3_key = ''data/p=a/u.parquet'', w_intended_at = 0\<rparr>]\<rparr>\<rparr>"

lemma orphan_world_ok: "world_ok orphan_world"
  by (simp add: world_ok_def cat_inv_def versions_ok_def part_files_def part_find_def orphan_world_def empty_world_def)

theorem gc_RunOnce_safe_witness:
  "world_ok (snd (gc_RunOnce demo_gc (quiet_gc 200) orphan_world))
   \<and> fst (gc_RunOnce demo_gc (quiet_gc 200) orphan_world) = (1, None)"
proof -
  have n: "neighbours_ok (g_others (quiet_gc 200))" by (simp add: quiet_gc_def neighbours_ok_def)
  have d: "file_keys (g_others (quiet_gc 200) 0 orphan_world) \<inter> pending_keys (g_others (quiet_gc 200) 0 orphan_world) = {}"
    by (simp add: quiet_gc_def file_keys_def orphan_world_def empty_world_def)
  have a: "abandoned (g_others (quiet_gc 200)) ks" for ks by (simp add: quiet_gc_def abandoned_def)
  have "fst (gc_RunOnce demo_gc (quiet_gc 200) orphan_world) = (1, None)" by code_simp
  with gc_RunOnce_safe [OF orphan_world_ok n d a] show ?thesis by simp
qed

section \<open>Progress\<close>

definition without_keys :: "string list \<Rightarrow> world \<Rightarrow> world" where
  "without_keys keys w =
     w\<lparr>wd_db := (wd_db w)\<lparr>c_pending := filter (\<lambda>p. w_s3_key p \<notin> set keys) (c_pending (wd_db w))\<rparr>,
       wd_s3 := wd_s3 w |` (- set keys)\<rparr>"

lemma reclaimOne_quiet: "reclaimOne (quiet_gc now) i k w = (None, without_keys [k] w)"
proof -
  have "m(k := None) = m |` (- {k})" for m :: "string \<Rightarrow> s3_object option"
    by (auto simp: restrict_map_def)
  then show ?thesis
    by (simp add: reclaimOne_def delete_row_def sql_pending_delete_def without_keys_def quiet_gc_def)
qed

lemma without_keys_Cons: "without_keys keys (without_keys [k] w) = without_keys (k # keys) w"
proof -
  have "(m |` (- {k})) |` (- set keys) = m |` (- set (k # keys))" for m :: "string \<Rightarrow> s3_object option"
    by (auto simp: restrict_map_def fun_eq_iff)
  moreover have "filter (\<lambda>p. w_s3_key p \<notin> set keys) (filter (\<lambda>p. w_s3_key p \<noteq> k) ps) =
      filter (\<lambda>p. w_s3_key p \<notin> set (k # keys)) ps" for ps :: "pending_row list"
    by (simp add: conj_commute)
  ultimately show ?thesis by (simp add: without_keys_def del: filter_filter)
qed

lemma reclaim_loop_quiet:
  "reclaim_loop (quiet_gc now) i keys n w = ((n + length keys, None), without_keys keys w)"
proof (induction keys arbitrary: i n w)
  case Nil
  then show ?case by (simp add: without_keys_def restrict_map_def)
next
  case (Cons k keys)
  have "g_ctx (quiet_gc now) i = None" by (simp add: quiet_gc_def)
  then show ?case by (simp add: reclaimOne_quiet Cons.IH without_keys_Cons)
qed

text \<open>C19.  A sweep in which nothing fails reclaims the oldest \<open>BatchSize\<close> stale rows, and only
  those: their objects and tracking rows are gone, every younger row and every other object is
  as before, and the number it reports is the number of rows it removed.\<close>

theorem gc_RunOnce_reclaims:
  assumes "gc_validate cfg = Inr ()"
  shows "(let r = gc_resolved cfg;
              stale = sort_key w_intended_at (filter (\<lambda>p. w_intended_at p < now - gc_grace r) (c_pending (wd_db w)));
              keys = map w_s3_key (take (nat (gc_batch_size r)) stale)
          in gc_RunOnce cfg (quiet_gc now) w =
               ((min (nat (gc_batch_size r)) (length stale), None),
                w\<lparr>wd_db := (wd_db w)\<lparr>c_pending := filter (\<lambda>p. w_s3_key p \<notin> set keys) (c_pending (wd_db w))\<rparr>,
                  wd_s3 := wd_s3 w |` (- set keys)\<rparr>))"
proof -
  have "g_others (quiet_gc now) n w = w" "g_now (quiet_gc now) = now" "g_scan (quiet_gc now) = None" for n
    by (simp_all add: quiet_gc_def)
  with assms show ?thesis
    unfolding Let_def without_keys_def [symmetric]
    by (simp add: gc_RunOnce_def gc_runOnceWithMetrics_def scanPending_def sql_pending_scan_def
        reclaim_loop_quiet Let_def min.commute)
qed

theorem gc_RunOnce_reclaims_witness:
  "c_pending (wd_db (snd (gc_RunOnce demo_gc (quiet_gc 200) orphan_world))) = []"
proof -
  have "gc_validate demo_gc = Inr ()" by code_simp
  from gc_RunOnce_reclaims [OF this, of 200 orphan_world] show ?thesis
    by (simp add: Let_def demo_gc_def gc_resolved_def orphan_world_def empty_world_def)
qed

section \<open>A writer slower than the grace period\<close>

text \<open>The writer's transaction of \<open>demo_store\<close> for the tracked key, run while the sweep is
  between its scan and its first DELETE.\<close>

definition slow_commit :: "world \<Rightarrow> world" where
  "slow_commit w = snd (snd (run_write_tx (quiet_env ''u'' :: string env)
     (write_tx_body demo_store (quiet_env ''u'') no_opts ''p=a'' [''a''] [] ''data/p=a/u.parquet'' ''PAR1'' 10 1 []) w))"

definition slow_gc :: gc_env where
  "slow_gc = (quiet_gc 200)\<lparr>g_others := (\<lambda>n w. if n = 1 then slow_commit w else w)\<rparr>"

text \<open>The grace period is a real obligation: when a transaction of a writer outlives it and
  commits between the scan of the sweep and its DELETE, the sweep deletes the object of the
  committed row, reports success, and the catalog keeps a row whose object is gone.\<close>

theorem gc_slow_writer:
  "world_ok orphan_world
   \<and> fst (gc_RunOnce demo_gc slow_gc orphan_world) = (1, None)
   \<and> map f_s3_key (c_files (wd_db (snd (gc_RunOnce demo_gc slow_gc orphan_world)))) = [''data/p=a/u.parquet'']
   \<and> wd_s3 (snd (gc_RunOnce demo_gc slow_gc orphan_world)) ''data/p=a/u.parquet'' = None"
proof -
  have "fst (gc_RunOnce demo_gc slow_gc orphan_world) = (1, None)" by code_simp
  moreover have "map f_s3_key (c_files (wd_db (snd (gc_RunOnce demo_gc slow_gc orphan_world)))) = [''data/p=a/u.parquet'']"
    by code_simp
  moreover have "map_option so_body (wd_s3 (snd (gc_RunOnce demo_gc slow_gc orphan_world)) ''data/p=a/u.parquet'') = None"
    by code_simp
  ultimately show ?thesis using orphan_world_ok by simp
qed

end
