(* ===== verification/Feed_Sequencer.thy ===== *)
theory Feed_Sequencer
  imports Catalog_Db
begin

text \<open>
  \<open>sequencer/sequencer.go\<close>: the assignment statement as text and as a function on the files
  table, \<open>RunOnce\<close> with the failure points of its transaction, the drain loop and the wake-up
  loop of \<open>Run\<close>.  What concurrent sessions committed before the advisory lock was granted is
  \<open>q_others\<close>.  The drain loop may run for ever, so it is a partial function: \<open>None\<close> is
  not returning.
\<close>

section \<open>Configuration\<close>

record seq_config =
  sc_pool :: bool  \<comment> \<open>non-nil\<close>
  sc_schema :: string
  sc_prefix :: string
  sc_poll_interval :: int
  sc_batch_size :: int
  sc_notify_channel :: string

definition DefaultSchemaName :: string where "DefaultSchemaName = ''public''"
definition DefaultTablePrefix :: string where "DefaultTablePrefix = ''s3pgstore_''"
definition DefaultPollInterval :: int where "DefaultPollInterval = 1000000000"
definition DefaultBatchSize :: int where "DefaultBatchSize = 1000"
definition DefaultNotifyChannel :: string where "DefaultNotifyChannel = ''s3pgstore_writes''"
definition maxNotifyChannelLen :: nat where "maxNotifyChannelLen = 63"

definition seq_resolved :: "seq_config \<Rightarrow> seq_config" where
  "seq_resolved c =
     \<lparr>sc_pool = sc_pool c,
      sc_schema = (if sc_schema c = [] then DefaultSchemaName else sc_schema c),
      sc_prefix = (if sc_prefix c = [] then DefaultTablePrefix else sc_prefix c),
      sc_poll_interval = (if sc_poll_interval c \<le> 0 then DefaultPollInterval else sc_poll_interval c),
      sc_batch_size = (if sc_batch_size c \<le> 0 then DefaultBatchSize else sc_batch_size c),
      sc_notify_channel = (if sc_notify_channel c = [] then DefaultNotifyChannel else sc_notify_channel c)\<rparr>"

datatype seq_error =
    Sq_pool_required
  | Sq_channel_too_long
  | Sq_batch_negative
  | Sq_begin sql_error
  | Sq_lock sql_error
  | Sq_assign sql_error
  | Sq_commit string
  | Sq_cancelled

definition seq_validate :: "seq_config \<Rightarrow> seq_error + unit" where
  "seq_validate c =
     (if \<not> sc_pool c then Inl Sq_pool_required
      else if sc_notify_channel c \<noteq> [] \<and> length (sc_notify_channel c) > maxNotifyChannelLen
        then Inl Sq_channel_too_long
      else if sc_batch_size c < 0 then Inl Sq_batch_negative
      else Inr ())"

lemma seq_resolved_idem [simp]: "seq_resolved (seq_resolved c) = seq_resolved c"
  by (simp add: seq_resolved_def DefaultPollInterval_def DefaultBatchSize_def DefaultSchemaName_def
      DefaultTablePrefix_def DefaultNotifyChannel_def)

lemma seq_resolved_batch: "0 < sc_batch_size (seq_resolved c)"
  by (simp add: seq_resolved_def DefaultBatchSize_def)

section \<open>The scope of the advisory lock\<close>

definition sequencerLockMagic :: int where "sequencerLockMagic = 0x73706773"

text \<open>\<open>hash/fnv\<close>'s 32-bit FNV-1a, and the conversion of the sum to \<open>int32\<close>.\<close>

definition fnv32a :: "string \<Rightarrow> 32 word" where
  "fnv32a s = fold (\<lambda>c h. (xor h (word_of_nat (byte_val c))) * 16777619) s 2166136261"

definition scopeHash :: "string \<Rightarrow> string \<Rightarrow> int" where
  "scopeHash schema prefix = sint (fnv32a (schema @ ''@'' @ prefix))"

section \<open>The assignment\<close>

definition buildAssignSQL :: "sanitizer \<Rightarrow> names \<Rightarrow> string" where
  "buildAssignSQL san n =
     (let files = Files san n in
      nl @ ''WITH base AS ('' @ nl
      @ ''    SELECT COALESCE(MAX(feed_seq), 0) AS max_seq'' @ nl
      @ ''    FROM '' @ files @ nl
      @ ''),'' @ nl
      @ ''numbered AS ('' @ nl
      @ ''    SELECT file_id,'' @ nl
      @ ''           ROW_NUMBER() OVER (ORDER BY written_at, file_id) AS rn'' @ nl
      @ ''    FROM '' @ files @ nl
      @ ''    WHERE feed_seq IS NULL'' @ nl
      @ ''    ORDER BY written_at, file_id'' @ nl
      @ ''    LIMIT $1'' @ nl
      @ '')'' @ nl
      @ ''UPDATE '' @ files @ '' AS f'' @ nl
      @ ''SET feed_seq = base.max_seq + numbered.rn,'' @ nl
      @ ''    feed_seq_at = now()'' @ nl
      @ ''FROM numbered, base'' @ nl
      @ ''WHERE f.file_id = numbered.file_id'' @ nl)"

definition seq_order :: "file_row \<Rightarrow> int \<times> int" where
  "seq_order r = (f_written_at r, f_file_id r)"

definition unsequenced :: "catalog \<Rightarrow> file_row list" where
  "unsequenced db = filter (\<lambda>r. f_feed_seq r = None) (c_files db)"

text \<open>\<open>numbered\<close>: the rows of the CTE, in order; \<open>base.max_seq\<close> is \<open>sql_offset_latest\<close>.\<close>

definition numbered :: "nat \<Rightarrow> catalog \<Rightarrow> file_row list" where
  "numbered limit db = take limit (sort_key seq_order (unsequenced db))"

definition assign_row :: "int \<Rightarrow> int \<Rightarrow> (int \<times> nat) list \<Rightarrow> file_row \<Rightarrow> file_row" where
  "assign_row now base nums r =
     (case map_of nums (f_file_id r) of
        None \<Rightarrow> r
      | Some rn \<Rightarrow> r\<lparr>f_feed_seq := Some (base + int rn), f_feed_seq_at := Some now\<rparr>)"

definition sql_assign :: "int \<Rightarrow> nat \<Rightarrow> catalog \<Rightarrow> nat \<times> catalog" where
  "sql_assign now limit db =
     (let rows = numbered limit db;
          nums = zip (map f_file_id rows) [1..<length rows + 1];
          base = sql_offset_latest db
      in (length (filter (\<lambda>r. map_of nums (f_file_id r) \<noteq> None) (c_files db)),
          db\<lparr>c_files := map (assign_row now base nums) (c_files db)\<rparr>))"

section \<open>RunOnce\<close>

record seq_env =
  q_now :: int
  q_begin :: "sql_error option"
  q_lock :: "sql_error option"
  q_assign :: "sql_error option"
  q_commit :: commit_outcome
  q_others :: "catalog \<Rightarrow> catalog"

text \<open>\<open>pgx.BeginFunc\<close> rolls back on an error of the body or of the COMMIT; \<open>rowsAssigned\<close>
  keeps its value when the COMMIT fails.\<close>

definition runOnceWithMetrics ::
  "seq_config \<Rightarrow> seq_env \<Rightarrow> catalog \<Rightarrow> (nat \<times> seq_error option) \<times> catalog" where
  "runOnceWithMetrics r env db =
     (case q_begin env of
        Some e \<Rightarrow> ((0, Some (Sq_begin e)), db)
      | None \<Rightarrow>
     (let db1 = q_others env db in
      case q_lock env of
        Some e \<Rightarrow> ((0, Some (Sq_lock e)), db1)
      | None \<Rightarrow>
     (case q_assign env of
        Some e \<Rightarrow> ((0, Some (Sq_assign e)), db1)
      | None \<Rightarrow>
         (let (rowsAssigned, db2) = sql_assign (q_now env) (nat (sc_batch_size r)) db1 in
          case q_commit env of
            Commit_ok \<Rightarrow> ((rowsAssigned, None), db2)
          | Commit_failed e \<Rightarrow> ((rowsAssigned, Some (Sq_commit e)), db1)
          | Commit_lost e \<Rightarrow> ((rowsAssigned, Some (Sq_commit e)), db2)))))"

definition seq_RunOnce :: "seq_config \<Rightarrow> seq_env \<Rightarrow> catalog \<Rightarrow> (nat \<times> seq_error option) \<times> catalog" where
  "seq_RunOnce cfg env db =
     (case seq_validate cfg of
        Inl e \<Rightarrow> ((0, Some e), db)
      | Inr _ \<Rightarrow> runOnceWithMetrics (seq_resolved cfg) env db)"

section \<open>drainAll and Run\<close>

text \<open>\<open>envs i\<close> is the environment of pass \<open>i\<close>.\<close>

partial_function (option) drainAll ::
  "seq_config \<Rightarrow> (nat \<Rightarrow> seq_env) \<Rightarrow> nat \<Rightarrow> catalog \<Rightarrow> (seq_error option \<times> catalog) option" where
  "drainAll cfg envs i db =
     (case runOnceWithMetrics (seq_resolved cfg) (envs i) db of
        ((n, Some e), db') \<Rightarrow> Some (Some e, db')
      | ((n, None), db') \<Rightarrow>
          if int n < sc_batch_size (seq_resolved cfg) then Some (None, db')
          else drainAll cfg envs (i + 1) db')"

declare drainAll.simps [code]

text \<open>What the \<open>select\<close> of \<open>Run\<close> received, with what happens before and during the drain.\<close>

datatype wake = Ctx_done | Notified | Ticked

definition is_cancelled :: "seq_error \<Rightarrow> bool" where
  "is_cancelled e \<longleftrightarrow> (case e of
       Sq_cancelled \<Rightarrow> True
     | Sq_begin (Server_error m) \<Rightarrow> m = ''context canceled''
     | Sq_lock (Server_error m) \<Rightarrow> m = ''context canceled''
     | Sq_assign (Server_error m) \<Rightarrow> m = ''context canceled''
     | Sq_commit m \<Rightarrow> m = ''context canceled''
     | _ \<Rightarrow> False)"

text \<open>The loop of \<open>Run\<close> over the wake-ups of a finite observation: the error it returned, or
  no error when it is still waiting; \<open>None\<close> when a drain does not return.\<close>

fun run_wakes ::
  "seq_config \<Rightarrow> (wake \<times> (catalog \<Rightarrow> catalog) \<times> (nat \<Rightarrow> seq_env)) list \<Rightarrow> catalog
   \<Rightarrow> (seq_error option \<times> catalog) option" where
  "run_wakes r [] db = Some (None, db)"
| "run_wakes r ((Ctx_done, before, envs) # ws) db = Some (Some Sq_cancelled, before db)"
| "run_wakes r ((_, before, envs) # ws) db =
     (case drainAll r envs 0 (before db) of
        None \<Rightarrow> None
      | Some (Some e, db') \<Rightarrow> if is_cancelled e then Some (Some e, db') else run_wakes r ws db'
      | Some (None, db') \<Rightarrow> run_wakes r ws db')"

definition seq_Run ::
  "seq_config \<Rightarrow> (nat \<Rightarrow> seq_env) \<Rightarrow> (wake \<times> (catalog \<Rightarrow> catalog) \<times> (nat \<Rightarrow> seq_env)) list \<Rightarrow> catalog
   \<Rightarrow> (seq_error option \<times> catalog) option" where
  "seq_Run cfg envs wakes db =
     (case seq_validate cfg of
        Inl e \<Rightarrow> Some (Some e, db)
      | Inr _ \<Rightarrow>
          (case drainAll (seq_resolved cfg) envs 0 db of
             None \<Rightarrow> None
           | Some (Some e, db') \<Rightarrow> Some (Some e, db')
           | Some (None, db') \<Rightarrow> run_wakes (seq_resolved cfg) wakes db'))"

end
