(* ===== verification/Feed_Correct.thy ===== *)
theory Feed_Correct
  imports Feed_Sequencer "HOL-Library.Multiset"
begin

text \<open>
  Correctness of the sequencer.  \<open>gap_free\<close> is the promise of the feed: the assigned numbers
  are exactly \<open>1, ..., n\<close>.  A pass keeps it, numbers the oldest rows first, never renumbers a
  row, and leaves every window of the feed that was complete as it was.  A drain returns once
  the writers pause, and when it returns without an error nothing is left unsequenced.
\<close>

section \<open>Gap-free feeds\<close>

definition gap_free :: "catalog \<Rightarrow> bool" where
  "gap_free db \<longleftrightarrow> sort (sequenced (c_files db)) = [1..int (length (sequenced (c_files db)))]"

lemma sort_eq_upto: "sort xs = [a..b] \<longleftrightarrow> mset xs = mset [a..b]" for xs :: "int list"
proof
  assume "mset xs = mset [a..b]"
  then show "sort xs = [a..b]" by (metis properties_for_sort sorted_upto)
qed (metis mset_sort)

lemma gap_free_mset:
  "gap_free db \<longleftrightarrow> mset (sequenced (c_files db)) = mset [1..int (length (sequenced (c_files db)))]"
  by (simp add: gap_free_def sort_eq_upto)

lemma sequenced_Nil [simp]: "sequenced [] = []"
  by (simp add: sequenced_def)

lemma sequenced_Cons [simp]:
  "sequenced (r # rs) = (case f_feed_seq r of None \<Rightarrow> sequenced rs | Some s \<Rightarrow> s # sequenced rs)"
  by (auto simp: sequenced_def split: option.splits)

lemma sequenced_append [simp]: "sequenced (rs @ ss) = sequenced rs @ sequenced ss"
  by (simp add: sequenced_def)

lemma set_sequenced: "set (sequenced rows) = {s. \<exists>r \<in> set rows. f_feed_seq r = Some s}"
  by (force simp: sequenced_def)

lemma sequenced_mset: "mset rs = mset ss \<Longrightarrow> mset (sequenced rs) = mset (sequenced ss)"
  by (simp add: sequenced_def)

lemma sequenced_none: "(\<And>r. r \<in> set rows \<Longrightarrow> f_feed_seq r = None) \<Longrightarrow> sequenced rows = []"
  by (induction rows) auto

lemma sequenced_filter: "sequenced (filter (\<lambda>r. f_feed_seq r \<noteq> None) rows) = sequenced rows"
  by (induction rows) auto

lemma fold_max_ge: "x \<le> fold max xs x" "y \<in> set xs \<Longrightarrow> y \<le> fold max xs x" for x :: int
  by (induction xs arbitrary: x) (auto, (meson dual_order.trans max.cobounded1 max.cobounded2)+)

lemma fold_max_in: "fold max xs x \<in> insert x (set xs)" for x :: int
  by (induction xs arbitrary: x) (auto simp: max_def)

lemma latest_ge: "s \<in> set (sequenced (c_files db)) \<Longrightarrow> s \<le> sql_offset_latest db"
  using fold_max_ge by (auto simp: sql_offset_latest_def split: list.splits)

lemma latest_gap_free:
  assumes "gap_free db"
  shows "sql_offset_latest db = int (length (sequenced (c_files db)))"
proof -
  let ?ss = "sequenced (c_files db)"
  have set: "set ?ss = {1..int (length ?ss)}"
    using assms by (metis gap_free_def set_sort set_upto)
  show ?thesis
  proof (cases ?ss)
    case (Cons s ss)
    then have "sql_offset_latest db \<in> set ?ss"
      using fold_max_in [of ss s] by (simp add: sql_offset_latest_def)
    moreover have "int (length ?ss) \<in> set ?ss" using set Cons by simp
    then have "int (length ?ss) \<le> sql_offset_latest db" by (rule latest_ge)
    ultimately show ?thesis using set by auto
  qed (simp add: sql_offset_latest_def)
qed

section \<open>One assignment\<close>

definition ids_distinct :: "catalog \<Rightarrow> bool" where
  "ids_distinct db \<longleftrightarrow> distinct (map f_file_id (c_files db))"

definition numbering :: "nat \<Rightarrow> catalog \<Rightarrow> (int \<times> nat) list" where
  "numbering limit db = zip (map f_file_id (numbered limit db)) [1..<length (numbered limit db) + 1]"

definition assigned :: "int \<Rightarrow> nat \<Rightarrow> catalog \<Rightarrow> file_row \<Rightarrow> file_row" where
  "assigned now limit db = assign_row now (sql_offset_latest db) (numbering limit db)"

lemma numbered_subset: "r \<in> set (numbered limit db) \<Longrightarrow> r \<in> set (c_files db) \<and> f_feed_seq r = None"
  using sort_key_take_set [of limit seq_order "unsequenced db"]
  by (auto simp: numbered_def unsequenced_def)

lemma distinct_key_inj:
  "distinct (map f xs) \<Longrightarrow> x \<in> set xs \<Longrightarrow> y \<in> set xs \<Longrightarrow> f x = f y \<Longrightarrow> x = y"
  by (simp add: distinct_map inj_on_def)

lemma numbering_None:
  assumes "ids_distinct db" "r \<in> set (c_files db)" "r \<notin> set (numbered limit db)"
  shows "map_of (numbering limit db) (f_file_id r) = None"
proof -
  have "f_file_id r \<notin> f_file_id ` set (numbered limit db)"
    using assms numbered_subset distinct_key_inj [of f_file_id "c_files db"]
    unfolding ids_distinct_def by blast
  then show ?thesis by (auto simp: numbering_def map_of_eq_None_iff dest: set_zip_leftD)
qed

lemma assigned_other:
  assumes "ids_distinct db" "r \<in> set (c_files db)" "r \<notin> set (numbered limit db)"
  shows "assigned now limit db r = r"
  using numbering_None [OF assms] by (simp add: assigned_def assign_row_def)

lemma numbered_parts:
  "mset (c_files db) = mset (numbered limit db)
     + mset (drop limit (sort_key seq_order (unsequenced db)))
     + mset (filter (\<lambda>r. f_feed_seq r \<noteq> None) (c_files db))"
proof -
  have "mset (numbered limit db) + mset (drop limit (sort_key seq_order (unsequenced db)))
      = mset (unsequenced db)"
    by (metis append_take_drop_id mset_append mset_sort numbered_def)
  moreover have "mset (unsequenced db) + mset (filter (\<lambda>r. f_feed_seq r \<noteq> None) (c_files db))
      = mset (c_files db)"
    by (simp add: unsequenced_def)
  ultimately show ?thesis by simp
qed

lemma numbered_ids:
  assumes "ids_distinct db"
  shows "distinct (map f_file_id (numbered limit db))"
proof -
  have "distinct (map f_file_id (unsequenced db))"
    using assms by (simp add: ids_distinct_def unsequenced_def distinct_map_filter)
  then have "distinct (map f_file_id (sort_key seq_order (unsequenced db)))"
    by (metis distinct_map distinct_sort set_sort)
  then show ?thesis by (metis distinct_take numbered_def take_map)
qed

lemma assigned_nth:
  assumes "ids_distinct db" "i < length (numbered limit db)"
  shows "assigned now limit db (numbered limit db ! i) =
    (numbered limit db ! i)\<lparr>f_feed_seq := Some (sql_offset_latest db + int i + 1), f_feed_seq_at := Some now\<rparr>"
proof -
  have "map_of (numbering limit db) (map f_file_id (numbered limit db) ! i) = Some ([1..<length (numbered limit db) + 1] ! i)"
    using numbered_ids [OF assms(1)] assms(2) unfolding numbering_def by (intro map_of_zip_nth) auto
  then show ?thesis using assms(2) by (simp add: assigned_def assign_row_def add.commute del: upt_Suc)
qed

lemma sequenced_numbered:
  assumes "ids_distinct db"
  shows "sequenced (map (assigned now limit db) (numbered limit db)) =
    map (\<lambda>i. sql_offset_latest db + int i + 1) [0..<length (numbered limit db)]"
proof -
  have "map f_feed_seq (map (assigned now limit db) (numbered limit db)) =
      map (\<lambda>i. Some (sql_offset_latest db + int i + 1)) [0..<length (numbered limit db)]"
    by (rule nth_equalityI) (simp_all add: assigned_nth [OF assms] del: upt_Suc)
  then have "sequenced (map (assigned now limit db) (numbered limit db)) =
      map the (filter (\<lambda>s. s \<noteq> None) (map (\<lambda>i. Some (sql_offset_latest db + int i + 1)) [0..<length (numbered limit db)]))"
    by (simp only: sequenced_def)
  then show ?thesis by (simp add: filter_map comp_def)
qed

lemma c_files_assign [simp]:
  "c_files (snd (sql_assign now limit db)) = map (assigned now limit db) (c_files db)"
  by (simp add: sql_assign_def Let_def assigned_def numbering_def)

lemma sequenced_assign:
  assumes "ids_distinct db"
  shows "mset (sequenced (c_files (snd (sql_assign now limit db)))) =
    mset (sequenced (c_files db))
    + mset (map (\<lambda>i. sql_offset_latest db + int i + 1) [0..<length (numbered limit db)])"
proof -
  let ?N = "numbered limit db" and ?D = "drop limit (sort_key seq_order (unsequenced db))"
  let ?S = "filter (\<lambda>r. f_feed_seq r \<noteq> None) (c_files db)"
  let ?u = "assigned now limit db"
  have DS: "set ?D \<subseteq> set (unsequenced db)" by (metis set_drop_subset set_sort)
  have "distinct (sort_key seq_order (unsequenced db))"
    using assms by (simp add: ids_distinct_def unsequenced_def distinct_map)
  then have "set ?N \<inter> set ?D = {}"
    by (simp add: numbered_def set_take_disj_set_drop_if_distinct)
  then have D: "map ?u ?D = ?D"
    using DS assms by (intro map_idI assigned_other) (auto simp: unsequenced_def)
  have S: "map ?u ?S = ?S"
    using assms by (intro map_idI assigned_other) (auto dest: numbered_subset)
  have "mset (map ?u (c_files db)) = mset (map ?u (?N @ ?D @ ?S))"
    by (metis (no_types, lifting) group_cancel.add1 mset_append mset_map numbered_parts union_assoc)
  then have "mset (sequenced (map ?u (c_files db))) = mset (sequenced (map ?u (?N @ ?D @ ?S)))"
    by (rule sequenced_mset)
  also have "\<dots> = mset (sequenced (map ?u ?N)) + mset (sequenced ?D) + mset (sequenced ?S)"
    by (simp only: map_append D S sequenced_append mset_append add.assoc)
  also have "sequenced ?D = []" using DS by (intro sequenced_none) (auto simp: unsequenced_def)
  finally show ?thesis
    by (simp only: sequenced_numbered [OF assms] sequenced_filter c_files_assign mset.simps(1) add_0_right) (simp add: add.commute)
qed

lemma gap_free_assign:
  assumes "ids_distinct db" "gap_free db"
  shows "gap_free (snd (sql_assign now limit db))"
proof -
  let ?n = "length (sequenced (c_files db))" and ?k = "length (numbered limit db)"
  let ?db = "snd (sql_assign now limit db)"
  have m: "mset (sequenced (c_files ?db)) = mset [1..int ?n] + mset (map (\<lambda>i. int ?n + int i + 1) [0..<?k])"
    using sequenced_assign [OF assms(1)] assms(2) latest_gap_free [OF assms(2)]
    by (simp add: gap_free_mset)
  have "map (\<lambda>i. int ?n + int i + 1) [0..<?k] = [int ?n + 1..int ?n + int ?k]"
    by (rule nth_equalityI) auto
  then have "mset (sequenced (c_files ?db)) = mset ([1..int ?n] @ [int ?n + 1..int ?n + int ?k])"
    using m by simp
  also have "[1..int ?n] @ [int ?n + 1..int ?n + int ?k] = [1..int ?n + int ?k]"
    using upto_split1 [of 1 "int ?n + 1" "int ?n + int ?k"] by (cases "?k = 0") auto
  finally have "mset (sequenced (c_files ?db)) = mset [1..int ?n + int ?k]" .
  moreover from this have "length (sequenced (c_files ?db)) = ?n + ?k"
    by (auto dest!: mset_eq_length)
  ultimately show ?thesis by (simp add: gap_free_mset)
qed

text \<open>The number of rows affected is the number of rows numbered.\<close>

lemma assign_count:
  assumes "ids_distinct db"
  shows "fst (sql_assign now limit db) = min limit (length (unsequenced db))"
proof -
  have mem: "map_of (numbering limit db) (f_file_id r) \<noteq> None \<longleftrightarrow> r \<in> set (numbered limit db)"
    if "r \<in> set (c_files db)" for r
  proof
    assume "r \<in> set (numbered limit db)"
    then have "f_file_id r \<in> set (map f_file_id (numbered limit db))" by simp
    moreover have "map fst (numbering limit db) = map f_file_id (numbered limit db)"
      by (simp add: numbering_def del: upt_Suc)
    ultimately show "map_of (numbering limit db) (f_file_id r) \<noteq> None"
      by (metis list.set_map map_of_eq_None_iff)
  next
    assume "map_of (numbering limit db) (f_file_id r) \<noteq> None"
    then show "r \<in> set (numbered limit db)" using numbering_None [OF assms that] by metis
  qed
  have d1: "distinct (c_files db)" using assms by (simp add: ids_distinct_def distinct_map)
  have d2: "distinct (numbered limit db)" using numbered_ids [OF assms] by (simp add: distinct_map)
  have eq: "{r \<in> set (c_files db). map_of (numbering limit db) (f_file_id r) \<noteq> None} = set (numbered limit db)"
    using mem numbered_subset by blast
  have "length (filter (\<lambda>r. map_of (numbering limit db) (f_file_id r) \<noteq> None) (c_files db))
      = length (numbered limit db)"
    unfolding distinct_card [OF distinct_filter [OF d1], symmetric] set_filter eq
    by (rule distinct_card [OF d2])
  then show ?thesis
    unfolding sql_assign_def Let_def numbering_def [symmetric] by (simp add: numbered_def)
qed

lemma assigned_simps [simp]:
  "f_file_id (assigned now limit db r) = f_file_id r" "f_s3_key (assigned now limit db r) = f_s3_key r"
  "f_partition_key (assigned now limit db r) = f_partition_key r"
  "f_token (assigned now limit db r) = f_token r" "f_file_size (assigned now limit db r) = f_file_size r"
  "f_written_at_version (assigned now limit db r) = f_written_at_version r"
  "row_complete (assigned now limit db r) = row_complete r"
  by (simp_all add: assigned_def assign_row_def row_complete_def split: option.splits)

lemma assign_ids [simp]: "ids_distinct (snd (sql_assign now limit db)) = ids_distinct db"
  by (simp add: ids_distinct_def comp_def)

lemma unsequenced_assign:
  assumes "ids_distinct db"
  shows "length (unsequenced (snd (sql_assign now limit db))) = length (unsequenced db) - limit"
proof -
  let ?db = "snd (sql_assign now limit db)"
  have split: "length (c_files d) = length (sequenced (c_files d)) + length (unsequenced d)" for d
  proof -
    have "length (sequenced rs) + length (filter (\<lambda>r. f_feed_seq r = None) rs) = length rs" for rs
      by (induction rs) (auto split: option.splits)
    then show ?thesis by (simp add: unsequenced_def)
  qed
  have "length (sequenced (c_files ?db)) = length (sequenced (c_files db)) + length (numbered limit db)"
    using arg_cong [OF sequenced_assign [OF assms, of now limit], of size] by simp
  moreover have "length (c_files ?db) = length (c_files db)" by simp
  ultimately show ?thesis
    using split [of db] split [of ?db] by (simp add: numbered_def)
qed

text \<open>A row that has a number keeps it, with its time; a new number is above all the old ones.\<close>

lemma assigned_cases:
  assumes "ids_distinct db" "r \<in> set (c_files db)"
  obtains (same) "assigned now limit db r = r"
  | (new) i where "f_feed_seq r = None" "i < length (numbered limit db)" "r = numbered limit db ! i"
      "f_feed_seq (assigned now limit db r) = Some (sql_offset_latest db + int i + 1)"
proof (cases "r \<in> set (numbered limit db)")
  case True
  then obtain i where "i < length (numbered limit db)" "r = numbered limit db ! i"
    by (metis in_set_conv_nth)
  then show thesis
    using new [of i] assigned_nth [OF assms(1), of i limit now] numbered_subset [OF True] by simp
qed (use same assigned_other [OF assms] in blast)

section \<open>Completed windows of the feed never change\<close>

definition published :: "int \<Rightarrow> catalog \<Rightarrow> file_row list" where
  "published m db = filter (\<lambda>r. case f_feed_seq r of None \<Rightarrow> False | Some s \<Rightarrow> s \<le> m) (c_files db)"

text \<open>\<open>db'\<close> extends the feed of \<open>db\<close>: what was published is there, unchanged, and nothing came
  in between.\<close>

definition feed_grows :: "catalog \<Rightarrow> catalog \<Rightarrow> bool" where
  "feed_grows db db' \<longleftrightarrow> sql_offset_latest db \<le> sql_offset_latest db'
     \<and> published (sql_offset_latest db) db' = published (sql_offset_latest db) db"

lemma feed_grows_refl [simp]: "feed_grows db db"
  by (simp add: feed_grows_def)

lemma filter_mono_absorb: "(\<And>x. P x \<Longrightarrow> Q x) \<Longrightarrow> filter P (filter Q xs) = filter P xs"
  by (induction xs) auto

lemma published_published:
  "k \<le> m \<Longrightarrow> filter (\<lambda>r. case f_feed_seq r of None \<Rightarrow> False | Some s \<Rightarrow> s \<le> k) (published m db) = published k db"
  unfolding published_def by (rule filter_mono_absorb) (auto split: option.splits)

lemma published_le: "k \<le> m \<Longrightarrow> published m db = published m db' \<Longrightarrow> published k db = published k db'"
  by (metis published_published)

lemma feed_grows_trans [trans]: "feed_grows a b \<Longrightarrow> feed_grows b c \<Longrightarrow> feed_grows a c"
  unfolding feed_grows_def by (metis order_trans published_le)

lemma window_published:
  assumes "until \<le> m + 1"
  shows "filter (in_window since until) (c_files db) = filter (in_window since until) (published m db)"
  unfolding published_def
  by (rule filter_mono_absorb [symmetric]) (use assms in \<open>auto simp: in_window_def split: option.splits\<close>)

lemma feed_grows_poll:
  assumes "feed_grows db db'" "until \<le> sql_offset_latest db + 1"
  shows "sql_poll_files exts since until db' = sql_poll_files exts since until db"
  using assms by (simp add: sql_poll_files_def feed_grows_def window_published [of until "sql_offset_latest db" since])

lemma feed_grows_assign:
  assumes "ids_distinct db"
  shows "feed_grows db (snd (sql_assign now limit db))"
proof -
  let ?m = "sql_offset_latest db" and ?db = "snd (sql_assign now limit db)"
  let ?p = "\<lambda>r. case f_feed_seq r of None \<Rightarrow> False | Some s \<Rightarrow> s \<le> ?m"
  have keep: "?p (assigned now limit db r) = ?p r \<and> (?p r \<longrightarrow> assigned now limit db r = r)"
    if "r \<in> set (c_files db)" for r
    using assms that by (cases rule: assigned_cases [where now = now and limit = limit]) auto
  have "filter ?p (map (assigned now limit db) rs) = filter ?p rs" if "set rs \<subseteq> set (c_files db)" for rs
    using that keep by (induction rs) auto
  then have pub: "published ?m ?db = published ?m db" by (simp add: published_def)
  have "?m \<le> sql_offset_latest ?db"
  proof (cases "sequenced (c_files db) = []")
    case True
    then have m0: "?m = 0" by (simp add: sql_offset_latest_def)
    show ?thesis
    proof (cases "sequenced (c_files ?db)")
      case (Cons s ss)
      then have "s \<in># mset (map (\<lambda>i. ?m + int i + 1) [0..<length (numbered limit db)])"
        using sequenced_assign [OF assms, of now limit] True by (simp only: mset.simps(1) add_0 set_mset_mset) (metis list.set_intros(1) set_mset_mset)
      then have "0 \<le> s" using m0 by auto
      then show ?thesis using latest_ge [of s ?db] Cons m0 by simp
    qed (simp add: sql_offset_latest_def True)
  next
    case False
    then have "?m \<in> set (sequenced (c_files db))"
      using fold_max_in by (cases "sequenced (c_files db)") (simp_all add: sql_offset_latest_def)
    then obtain r where r: "r \<in> set (c_files db)" "f_feed_seq r = Some ?m" by (auto simp: set_sequenced)
    then have "assigned now limit db r = r" using keep by simp
    then have "r \<in> set (c_files ?db)" using r(1) by (metis c_files_assign image_eqI list.set_map)
    then show ?thesis using r(2) latest_ge [of ?m ?db] by (auto simp: set_sequenced)
  qed
  with pub show ?thesis by (simp add: feed_grows_def)
qed

text \<open>A committed write appends a row without a number.\<close>

lemma feed_grows_append:
  assumes "c_files db' = c_files db @ rs" "\<And>r. r \<in> set rs \<Longrightarrow> f_feed_seq r = None"
  shows "feed_grows db db'"
proof -
  have "published m db' = published m db" for m
    using assms by (auto simp: published_def filter_empty_conv split: option.splits)
  moreover have "sequenced (c_files db') = sequenced (c_files db)"
    using assms sequenced_none by simp
  ultimately show ?thesis by (simp add: feed_grows_def sql_offset_latest_def)
qed

section \<open>A pass\<close>

definition keeps_numbers :: "catalog \<Rightarrow> catalog \<Rightarrow> bool" where
  "keeps_numbers db db' \<longleftrightarrow> length (c_files db') = length (c_files db)
     \<and> (\<forall>i<length (c_files db). f_feed_seq (c_files db ! i) \<noteq> None \<longrightarrow> c_files db' ! i = c_files db ! i)"

definition oldest_first :: "catalog \<Rightarrow> catalog \<Rightarrow> bool" where
  "oldest_first db db' \<longleftrightarrow>
     (\<forall>i<length (c_files db). \<forall>j<length (c_files db).
        f_feed_seq (c_files db ! i) = None \<and> f_feed_seq (c_files db ! j) = None
        \<and> seq_order (c_files db ! i) < seq_order (c_files db ! j) \<longrightarrow>
        (case f_feed_seq (c_files db' ! j) of
           None \<Rightarrow> True
         | Some m \<Rightarrow> (case f_feed_seq (c_files db' ! i) of None \<Rightarrow> False | Some k \<Rightarrow> k < m)))"

lemma keeps_numbers_assign:
  assumes "ids_distinct db"
  shows "keeps_numbers db (snd (sql_assign now limit db))"
  unfolding keeps_numbers_def
proof (intro conjI allI impI)
  fix i
  assume i: "i < length (c_files db)" and "f_feed_seq (c_files db ! i) \<noteq> None"
  then have "assigned now limit db (c_files db ! i) = c_files db ! i"
    using assms by (intro assigned_other) (auto dest: numbered_subset)
  with i show "c_files (snd (sql_assign now limit db)) ! i = c_files db ! i" by simp
qed simp

lemma numbered_order:
  assumes "r \<in> set (unsequenced db)" "i < length (numbered limit db)"
    and "seq_order r < seq_order (numbered limit db ! i)"
  obtains j where "j < i" "r = numbered limit db ! j"
proof -
  let ?L = "sort_key seq_order (unsequenced db)"
  have "r \<in> set ?L" using assms(1) by simp
  then obtain j where j: "j < length ?L" "r = ?L ! j" by (metis in_set_conv_nth)
  have i: "numbered limit db ! i = ?L ! i" "i < limit" "i < length ?L"
    using assms(2) by (auto simp: numbered_def)
  have "sorted (map seq_order ?L)" by simp
  then have "i \<le> j \<Longrightarrow> seq_order (?L ! i) \<le> seq_order (?L ! j)"
    using j by (metis (no_types, lifting) i(3) length_map nth_map sorted_nth_mono)
  with assms(3) i(1) j(2) have "j < i" by (metis leD leI)
  moreover from this i j have "r = numbered limit db ! j" by (simp add: numbered_def)
  ultimately show thesis by (rule that)
qed

lemma oldest_first_assign:
  assumes "ids_distinct db"
  shows "oldest_first db (snd (sql_assign now limit db))"
  unfolding oldest_first_def
proof (intro allI impI)
  fix i j
  assume i: "i < length (c_files db)" and j: "j < length (c_files db)"
    and un: "f_feed_seq (c_files db ! i) = None \<and> f_feed_seq (c_files db ! j) = None
      \<and> seq_order (c_files db ! i) < seq_order (c_files db ! j)"
  let ?r = "c_files db ! i" and ?s = "c_files db ! j" and ?db = "snd (sql_assign now limit db)"
  have eq: "c_files ?db ! i = assigned now limit db ?r" "c_files ?db ! j = assigned now limit db ?s"
    using i j by simp_all
  show "case f_feed_seq (c_files ?db ! j) of None \<Rightarrow> True
      | Some m \<Rightarrow> (case f_feed_seq (c_files ?db ! i) of None \<Rightarrow> False | Some k \<Rightarrow> k < m)"
  proof (cases rule: assigned_cases [OF assms nth_mem [OF j], where now = now and limit = limit, case_names same new])
    case same
    with un show ?thesis unfolding eq by simp
  next
    case (new k)
    have "?r \<in> set (unsequenced db)" using un i by (simp add: unsequenced_def)
    then obtain l where "l < k" "?r = numbered limit db ! l"
      using numbered_order new(2,3) un by metis
    then have "f_feed_seq (assigned now limit db ?r) = Some (sql_offset_latest db + int l + 1)"
      using assigned_nth [OF assms, of l limit now] new(2) by simp
    with new(4) \<open>l < k\<close> show ?thesis unfolding eq by simp
  qed
qed

definition others_ok :: "seq_env \<Rightarrow> bool" where
  "others_ok env \<longleftrightarrow> (\<forall>db. ids_distinct db \<and> gap_free db \<longrightarrow>
     ids_distinct (q_others env db) \<and> gap_free (q_others env db))"

definition quiet_seq :: seq_env where
  "quiet_seq = \<lparr>q_now = 7, q_begin = None, q_lock = None, q_assign = None, q_commit = Commit_ok, q_others = (\<lambda>db. db)\<rparr>"

lemma RunOnce_cases:
  assumes "runOnceWithMetrics r env db = ((n, err), db')"
  obtains "err \<noteq> None" "db' = db"
  | "err \<noteq> None" "db' = q_others env db"
  | "err \<noteq> None" "db' = snd (sql_assign (q_now env) (nat (sc_batch_size r)) (q_others env db))"
  | "err = None" "db' = snd (sql_assign (q_now env) (nat (sc_batch_size r)) (q_others env db))"
      "n = fst (sql_assign (q_now env) (nat (sc_batch_size r)) (q_others env db))"
  using assms unfolding runOnceWithMetrics_def Let_def
  by (auto split: option.splits prod.splits commit_outcome.splits)

lemma RunOnce_keeps:
  assumes "runOnceWithMetrics r env db = ((n, err), db')"
    and "ids_distinct db" "gap_free db" "others_ok env"
  shows "ids_distinct db'" "gap_free db'"
  using assms by (auto elim!: RunOnce_cases simp: others_ok_def gap_free_assign)

text \<open>C16.  A sequencer pass, whatever fails in it and whatever other sessions commit before it
  gets the lock, leaves the feed numbered \<open>1, ..., n\<close> without gap or repetition.  A pass that
  reports success has numbered \<open>min BatchSize (number of rows without a number)\<close> rows, the
  oldest in \<open>(written_at, file_id)\<close> order first, and has not touched a row that had one.\<close>

theorem RunOnce_feed:
  assumes "ids_distinct db" "gap_free db" "others_ok env"
    and "seq_RunOnce cfg env db = ((n, err), db')"
  shows "gap_free db' \<and>
    (err = None \<longrightarrow>
      n = min (nat (sc_batch_size (seq_resolved cfg))) (length (unsequenced (q_others env db)))
      \<and> oldest_first (q_others env db) db' \<and> keeps_numbers (q_others env db) db')"
proof (cases "seq_validate cfg")
  case (Inl e)
  with assms show ?thesis by (auto simp: seq_RunOnce_def)
next
  case (Inr u)
  then have run: "runOnceWithMetrics (seq_resolved cfg) env db = ((n, err), db')"
    using assms(4) by (simp add: seq_RunOnce_def)
  have ids: "ids_distinct (q_others env db)" using assms(1-3) by (simp add: others_ok_def)
  show ?thesis
    using RunOnce_keeps(2) [OF run assms(1-3)] run
    by (elim RunOnce_cases) (auto simp: assign_count [OF ids] oldest_first_assign [OF ids] keeps_numbers_assign [OF ids])
qed

definition demo_rows :: "file_row list" where
  "demo_rows = [(blank_file 1 9)\<lparr>f_s3_key := ''a''\<rparr>, (blank_file 2 5)\<lparr>f_s3_key := ''b''\<rparr>,
     (blank_file 3 4)\<lparr>f_s3_key := ''c'', f_feed_seq := Some 1, f_feed_seq_at := Some 6\<rparr>]"

definition demo_catalog :: catalog where
  "demo_catalog = \<lparr>c_files = demo_rows, c_partitions = [], c_pending = [], c_mv = (\<lambda>_. []), c_next_id = 4\<rparr>"

definition demo_seq :: seq_config where
  "demo_seq = \<lparr>sc_pool = True, sc_schema = [], sc_prefix = [], sc_poll_interval = 0, sc_batch_size = 1,
     sc_notify_channel = []\<rparr>"

lemma demo_feed: "ids_distinct demo_catalog" "gap_free demo_catalog"
  by code_simp+

lemma quiet_seq_ok: "others_ok quiet_seq"
  by (simp add: others_ok_def quiet_seq_def)

text \<open>The row written at 5 is numbered before the one written at 9.\<close>

theorem RunOnce_feed_witness:
  "gap_free (snd (seq_RunOnce demo_seq quiet_seq demo_catalog))
   \<and> map f_feed_seq (c_files (snd (seq_RunOnce demo_seq quiet_seq demo_catalog))) = [None, Some 2, Some 1]"
proof -
  obtain n err db' where run: "seq_RunOnce demo_seq quiet_seq demo_catalog = ((n, err), db')"
    by (metis prod.collapse)
  have "map f_feed_seq (c_files (snd (seq_RunOnce demo_seq quiet_seq demo_catalog))) = [None, Some 2, Some 1]"
    by code_simp
  then show ?thesis using RunOnce_feed [OF demo_feed quiet_seq_ok run] run by simp
qed

section \<open>Drains\<close>

lemma pass_quiet:
  assumes "runOnceWithMetrics r env db = ((n, None), db')" "ids_distinct (q_others env db)"
  shows "ids_distinct db'" "n = min (nat (sc_batch_size r)) (length (unsequenced (q_others env db)))"
    "length (unsequenced db') = length (unsequenced (q_others env db)) - nat (sc_batch_size r)"
  using assms by (auto elim!: RunOnce_cases simp: assign_count unsequenced_assign)

lemma drain_step:
  "drainAll cfg envs i db =
     (case runOnceWithMetrics (seq_resolved cfg) (envs i) db of
        ((n, Some e), db') \<Rightarrow> Some (Some e, db')
      | ((n, None), db') \<Rightarrow>
          if int n < sc_batch_size (seq_resolved cfg) then Some (None, db')
          else drainAll cfg envs (i + 1) db')"
  by (rule drainAll.simps)

text \<open>Once no session adds rows, every full pass leaves fewer rows without a number.\<close>

lemma drain_quiet:
  assumes quiet: "\<And>i d. i \<ge> N \<Longrightarrow> c_files (q_others (envs i) d) = c_files d"
  shows "ids_distinct db \<Longrightarrow> N \<le> i \<Longrightarrow> \<exists>res. drainAll cfg envs i db = Some res"
proof (induction "length (unsequenced db)" arbitrary: db i rule: less_induct)
  case less
  obtain n err db' where run: "runOnceWithMetrics (seq_resolved cfg) (envs i) db = ((n, err), db')"
    by (metis prod.collapse)
  have q: "c_files (q_others (envs i) db) = c_files db" using quiet less.prems(2) by simp
  then have ids: "ids_distinct (q_others (envs i) db)" and un: "unsequenced (q_others (envs i) db) = unsequenced db"
    using less.prems(1) by (simp_all add: ids_distinct_def unsequenced_def)
  show ?case
  proof (cases "err = None \<and> \<not> int n < sc_batch_size (seq_resolved cfg)")
    case True
    then have run': "runOnceWithMetrics (seq_resolved cfg) (envs i) db = ((n, None), db')" using run by simp
    note p = pass_quiet [OF run' ids, unfolded un]
    have "length (unsequenced db') < length (unsequenced db)"
      using p(2,3) True seq_resolved_batch [of cfg] by linarith
    then have "\<exists>res. drainAll cfg envs (i + 1) db' = Some res"
      using less.hyps p(1) less.prems(2) by simp
    with run' True show ?thesis by (subst drain_step) simp
  next
    case False
    with run show ?thesis by (subst drain_step) (auto split: option.splits)
  qed
qed

text \<open>C17.  A drain of the sequencer returns: if from some pass on the other sessions commit no
  further rows, the loop ends, whatever faults the passes have and however many rows arrived
  before.\<close>

theorem drainAll_returns:
  assumes "ids_distinct db"
    and "\<And>i d. ids_distinct d \<Longrightarrow> ids_distinct (q_others (envs i) d)"
    and "\<And>i d. i \<ge> N \<Longrightarrow> c_files (q_others (envs i) d) = c_files d"
  shows "\<exists>res. drainAll cfg envs 0 db = Some res"
proof -
  have "ids_distinct db \<Longrightarrow> \<exists>res. drainAll cfg envs i db = Some res" for i db
  proof (induction "N - i" arbitrary: i db)
    case 0
    then show ?case using drain_quiet [OF assms(3)] by simp
  next
    case (Suc k)
    obtain n err db' where run: "runOnceWithMetrics (seq_resolved cfg) (envs i) db = ((n, err), db')"
      by (metis prod.collapse)
    have "ids_distinct db'"
      using run Suc.prems assms(2) by (auto elim!: RunOnce_cases)
    moreover have "k = N - (i + 1)" using Suc.hyps(2) by simp
    ultimately have "\<exists>res. drainAll cfg envs (i + 1) db' = Some res" using Suc.hyps(1) by blast
    with run show ?case by (subst drain_step) (auto split: option.splits)
  qed
  with assms(1) show ?thesis by blast
qed

theorem drainAll_returns_witness:
  "\<exists>res. drainAll demo_seq (\<lambda>i. quiet_seq) 0 demo_catalog = Some res"
  by (rule drainAll_returns [OF demo_feed(1), of _ 0]) (simp_all add: quiet_seq_def)

lemma drain_result:
  assumes "drainAll cfg envs i db = Some res"
  shows "(\<forall>i. others_ok (envs i)) \<and> ids_distinct db \<and> gap_free db \<longrightarrow>
     gap_free (snd res) \<and> ids_distinct (snd res) \<and> (fst res = None \<longrightarrow> unsequenced (snd res) = [])"
    (is "?pre envs db \<longrightarrow> ?post res")
proof (rule drainAll.raw_induct [where P = "\<lambda>cfg envs i db res. ?pre envs db \<longrightarrow> ?post res"])
  fix drain and cfg' :: seq_config and envs' :: "nat \<Rightarrow> seq_env" and i :: nat and db :: catalog and res
  assume IH: "\<And>c e i d r. drain c e i d = Some r \<Longrightarrow> ?pre e d \<longrightarrow> ?post r"
    and step: "(case runOnceWithMetrics (seq_resolved cfg') (envs' i) db of
        ((n, Some e), db') \<Rightarrow> Some (Some e, db')
      | ((n, None), db') \<Rightarrow> if int n < sc_batch_size (seq_resolved cfg') then Some (None, db')
          else drain cfg' envs' (i + 1) db') = Some res"
  obtain n err db1 where run: "runOnceWithMetrics (seq_resolved cfg') (envs' i) db = ((n, err), db1)"
    by (metis prod.collapse)
  show "?pre envs' db \<longrightarrow> ?post res"
  proof
    assume pre: "?pre envs' db"
    then have keeps: "ids_distinct db1" "gap_free db1" using RunOnce_keeps [OF run] by blast+
    have ids: "ids_distinct (q_others (envs' i) db)" using pre by (simp add: others_ok_def)
    show "?post res"
    proof (cases "err = None \<and> \<not> int n < sc_batch_size (seq_resolved cfg')")
      case True
      then have "drain cfg' envs' (i + 1) db1 = Some res" using step run by simp
      with IH keeps pre show ?thesis by blast
    next
      case False
      have "unsequenced db1 = []" if "err = None"
      proof -
        note p = pass_quiet [OF run [unfolded that] ids]
        have "length (unsequenced db1) = 0" using p(2,3) False that by linarith
        then show ?thesis by simp
      qed
      moreover have "res = (err, db1)" using step run False by (cases err) auto
      ultimately show ?thesis using keeps by simp
    qed
  qed
qed (fact assms)

text \<open>When a drain returns without an error, every row of the catalog has a number, and the
  numbers are \<open>1, ..., n\<close>: nothing is left behind, not even rows that other sessions committed
  between its passes.\<close>

theorem drainAll_complete:
  assumes "drainAll cfg envs 0 db = Some (None, db')"
    and "ids_distinct db" "gap_free db" "\<And>i. others_ok (envs i)"
  shows "(\<forall>r \<in> set (c_files db'). f_feed_seq r \<noteq> None)
    \<and> sort (sequenced (c_files db')) = [1..int (length (c_files db'))]"
proof -
  have "gap_free db'" and un: "unsequenced db' = []"
    using drain_result [OF assms(1)] assms(2-4) by simp_all
  then have all: "\<forall>r \<in> set (c_files db'). f_feed_seq r \<noteq> None"
    by (simp add: unsequenced_def filter_empty_conv)
  then have "length (sequenced (c_files db')) = length (c_files db')"
    by (simp add: sequenced_def comp_def cong: filter_cong)
  with \<open>gap_free db'\<close> all show ?thesis by (simp add: gap_free_def)
qed

theorem drainAll_complete_witness:
  "map f_feed_seq (c_files (snd (the (drainAll demo_seq (\<lambda>i. quiet_seq) 0 demo_catalog)))) = [Some 3, Some 2, Some 1]
   \<and> sort (sequenced (c_files (snd (the (drainAll demo_seq (\<lambda>i. quiet_seq) 0 demo_catalog))))) = [1..3]"
proof -
  have "map_option fst (drainAll demo_seq (\<lambda>i. quiet_seq) 0 demo_catalog) = Some None" by code_simp
  then obtain db' where run: "drainAll demo_seq (\<lambda>i. quiet_seq) 0 demo_catalog = Some (None, db')" by auto
  have seqs: "map f_feed_seq (c_files (snd (the (drainAll demo_seq (\<lambda>i. quiet_seq) 0 demo_catalog)))) = [Some 3, Some 2, Some 1]"
    by code_simp
  from arg_cong [OF seqs, of length] run have "length (c_files db') = 3" by simp
  with drainAll_complete [OF run demo_feed quiet_seq_ok] seqs run show ?thesis by simp
qed

text \<open>Windows of the feed below its end are immutable: when the other sessions only append rows
  without a number or advance the feed, a poll of a window that was complete before a sequencer
  pass returns the same files after it.\<close>

theorem feed_window_stable:
  assumes "ids_distinct db" "feed_grows db (q_others env db)" "ids_distinct (q_others env db)"
    and "until \<le> sql_offset_latest db + 1"
  shows "sql_poll_files exts since until (snd (seq_RunOnce cfg env db)) = sql_poll_files exts since until db"
proof -
  obtain n err db' where run: "seq_RunOnce cfg env db = ((n, err), db')" by (metis prod.collapse)
  have "feed_grows db db'"
  proof (cases "seq_validate cfg")
    case (Inl e)
    with run show ?thesis by (simp add: seq_RunOnce_def)
  next
    case (Inr u)
    then have "runOnceWithMetrics (seq_resolved cfg) env db = ((n, err), db')"
      using run by (simp add: seq_RunOnce_def)
    then show ?thesis
      by (rule RunOnce_cases) (use assms feed_grows_trans [OF assms(2)] feed_grows_assign [OF assms(3)] in auto)
  qed
  with run assms(4) show ?thesis by (simp add: feed_grows_poll)
qed

theorem feed_window_stable_witness:
  "sql_poll_files [] 1 2 (snd (seq_RunOnce demo_seq quiet_seq demo_catalog)) = sql_poll_files [] 1 2 demo_catalog
   \<and> length (sql_poll_files [] 1 2 demo_catalog) = 1"
proof -
  have "sql_offset_latest demo_catalog = 1" "length (sql_poll_files [] 1 2 demo_catalog) = 1" by code_simp+
  with feed_window_stable [of demo_catalog quiet_seq 2 "[]" 1 demo_seq] demo_feed show ?thesis
    by (simp add: quiet_seq_def)
qed

end
