(* ===== verification/Iter_Options.thy ===== *)
theory Iter_Options
  imports Go_Prelude
begin

text \<open>
  \<open>iter_options.go\<close>: the options the read and the poll pipelines share, and the value each
  option constructor passes on.
\<close>

datatype iter_option = WithDecodeWorkers int | WithFetchAheadFiles int | WithDecodeAheadBytes int

fun decode_workers_value :: "int \<Rightarrow> int" where
  "decode_workers_value n = (if n < 1 then 1 else n)"

fun fetch_ahead_value :: "int \<Rightarrow> int" where
  "fetch_ahead_value n = (if n < 0 then 0 else n)"

fun decode_bytes_value :: "int \<Rightarrow> int" where
  "decode_bytes_value n = (if n < 0 then 0 else n)"

end
