(* ===== verification/Feed_Poll.thy ===== *)
theory Feed_Poll
  imports Feed_Correct Write_Path Iter_Options
begin

text \<open>
  \<open>poll.go\<close> and the paging options of \<open>poll_options.go\<close>: \<open>Poll\<close>, the paged \<open>PollIter\<close>, the
  endless \<open>TailIter\<close> with its back-off, \<open>OffsetLatest\<close> and \<open>OffsetAt\<close>.  The catalog a page
  sees is the one its SELECT runs on, so an iterator is given one catalog and one possible fault
  per page.  An iterator is the list of what it yields; a consumer that breaks the loop sees a
  prefix of it.  \<open>PollIter\<close> is a partial function because nothing in its text bounds the loop;
  \<open>TailIter\<close>, which never returns on its own, runs over a finite observation of its cycles.
\<close>

section \<open>Poll\<close>

datatype poll_error = Po_inverted int int | Po_sql sql_error | Po_scan scan_error

text \<open>\<open>if e.Offset+1 > next { next = e.Offset + 1 }\<close>.\<close>

definition advance :: "int \<Rightarrow> file_ref \<Rightarrow> int" where
  "advance next e = (if wrap64 (Offset e + 1) > next then wrap64 (Offset e + 1) else next)"

definition Poll ::
  "'a store \<Rightarrow> sql_error option \<Rightarrow> catalog \<Rightarrow> int \<Rightarrow> int \<Rightarrow> file_ref list \<times> int \<times> poll_error option" where
  "Poll st fail db since until =
     (if since > until then ([], since, Some (Po_inverted since until))
      else if since = until then ([], since, None)
      else case fail of
        Some e \<Rightarrow> ([], since, Some (Po_sql e))
      | None \<Rightarrow>
          (case map_res (scan_poll_ref (ext_names st)) (sql_poll_files (ext_names st) since until db) of
             Inl e \<Rightarrow> ([], since, Some (Po_scan e))
           | Inr out \<Rightarrow> (out, foldl advance since out, None)))"

section \<open>Offsets\<close>

definition OffsetLatest :: "sql_error option \<Rightarrow> catalog \<Rightarrow> int \<times> sql_error option" where
  "OffsetLatest fail db =
     (case fail of
        Some e \<Rightarrow> (OffsetEarliest, Some e)
      | None \<Rightarrow> (wrap64 (sql_offset_latest db + 1), None))"

definition OffsetAt :: "sql_error option \<Rightarrow> catalog \<Rightarrow> int \<Rightarrow> int \<times> sql_error option" where
  "OffsetAt fail db t =
     (case fail of
        Some e \<Rightarrow> (OffsetNone, Some e)
      | None \<Rightarrow> (case sql_offset_at t db of None \<Rightarrow> (OffsetNone, None) | Some off \<Rightarrow> (off, None)))"

section \<open>Options\<close>

record poll_opts =
  po_fetch_ahead_files :: int
  po_decode_workers :: int
  po_decode_ahead_files :: "int option"
  po_decode_ahead_bytes :: int
  po_tail_base :: int
  po_tail_max :: int
  po_page_size :: int

datatype poll_option =
    WithDecodeAheadFiles int
  | WithTailIdleBackoff int int
  | WithPollPageSize int
  | PollIter_option iter_option

fun applyPoll :: "poll_option \<Rightarrow> poll_opts \<Rightarrow> poll_opts" where
  "applyPoll (WithDecodeAheadFiles n) opts = opts\<lparr>po_decode_ahead_files := Some (if n < 0 then 0 else n)\<rparr>"
| "applyPoll (WithTailIdleBackoff b m) opts = opts\<lparr>po_tail_base := b, po_tail_max := m\<rparr>"
| "applyPoll (WithPollPageSize n) opts = opts\<lparr>po_page_size := n\<rparr>"
| "applyPoll (PollIter_option (WithDecodeWorkers n)) opts = opts\<lparr>po_decode_workers := decode_workers_value n\<rparr>"
| "applyPoll (PollIter_option (WithFetchAheadFiles n)) opts = opts\<lparr>po_fetch_ahead_files := fetch_ahead_value n\<rparr>"
| "applyPoll (PollIter_option (WithDecodeAheadBytes n)) opts = opts\<lparr>po_decode_ahead_bytes := decode_bytes_value n\<rparr>"

definition resolvePollOpts :: "poll_option list \<Rightarrow> poll_opts" where
  "resolvePollOpts opts = fold applyPoll opts
     \<lparr>po_fetch_ahead_files = 0, po_decode_workers = 0, po_decode_ahead_files = None,
      po_decode_ahead_bytes = 0, po_tail_base = 0, po_tail_max = 0, po_page_size = 0\<rparr>"

definition defaultPollPageSize :: int where "defaultPollPageSize = 10000"
definition defaultTailBaseInterval :: int where "defaultTailBaseInterval = 100 * 1000000"
definition defaultTailMaxInterval :: int where "defaultTailMaxInterval = 2 * 1000000000"

definition page_size :: "poll_opts \<Rightarrow> int" where
  "page_size opts = (if po_page_size opts \<le> 0 then defaultPollPageSize else po_page_size opts)"

definition tailIntervals :: "poll_opts \<Rightarrow> int \<times> int" where
  "tailIntervals opts =
     (let b = (if po_tail_base opts \<le> 0 then defaultTailBaseInterval else po_tail_base opts);
          m = (if po_tail_max opts \<le> 0 then defaultTailMaxInterval else po_tail_max opts)
      in (b, if m < b then b else m))"

text \<open>The shift is on \<open>int64\<close>.\<close>

definition nextTailBackoff :: "nat \<Rightarrow> int \<Rightarrow> int \<Rightarrow> int" where
  "nextTailBackoff n b m =
     (if n \<le> 1 then b
      else if n > 30 then m
      else let d = wrap64 (b * 2 ^ (n - 1)) in if d > m \<or> d < 0 then m else d)"

text \<open>The defaults of the record pipelines: \<open>pool\<close> is \<open>WorkerPool.MaxConcurrent()\<close>, \<open>procs\<close>
  is \<open>GOMAXPROCS(0)\<close>.\<close>

definition pollIterDefaults :: "poll_opts \<Rightarrow> poll_opts" where
  "pollIterDefaults opts =
     opts\<lparr>po_decode_workers := (if po_decode_workers opts = 0 then 1 else po_decode_workers opts),
       po_decode_ahead_files := (case po_decode_ahead_files opts of None \<Rightarrow> Some 1 | Some n \<Rightarrow> Some n)\<rparr>"

definition pollCollectDefaults :: "int \<Rightarrow> int \<Rightarrow> int \<Rightarrow> poll_opts \<Rightarrow> poll_opts" where
  "pollCollectDefaults pool procs lenFiles opts =
     (let w = (if po_decode_workers opts = 0 then min (min pool procs) lenFiles else po_decode_workers opts);
          wc = max w 1
      in opts\<lparr>po_decode_workers := w,
           po_decode_ahead_files := (case po_decode_ahead_files opts of
               None \<Rightarrow> Some ((lenFiles + wc - 1) div wc) | Some n \<Rightarrow> Some n)\<rparr>)"

section \<open>PollIter\<close>

datatype 'r yielded = Yield 'r | Yield_error poll_error

text \<open>What page \<open>k\<close> meets: the catalog its SELECT runs on and a possible fault, or the context
  done when the loop waits for it.\<close>

record page_env =
  pg_db :: catalog
  pg_fail :: "sql_error option"
  pg_done :: bool

partial_function (option) pollIter_loop ::
  "'a store \<Rightarrow> int \<Rightarrow> int \<Rightarrow> (nat \<Rightarrow> page_env) \<Rightarrow> nat \<Rightarrow> int \<Rightarrow> file_ref yielded list option" where
  "pollIter_loop st pageSize until envs k c =
     (if pg_done (envs k) then Some []
      else case Poll st (pg_fail (envs k)) (pg_db (envs k)) c (min (wrap64 (c + pageSize)) until) of
        (_, _, Some e) \<Rightarrow> Some [Yield_error e]
      | (page, next, None) \<Rightarrow>
          if page = [] then Some []
          else if next < until then
            Option.bind (pollIter_loop st pageSize until envs (k + 1) next) (\<lambda>rest. Some (map Yield page @ rest))
          else Some (map Yield page))"

declare pollIter_loop.simps [code]

definition PollIter ::
  "'a store \<Rightarrow> poll_option list \<Rightarrow> (nat \<Rightarrow> page_env) \<Rightarrow> int \<Rightarrow> int \<Rightarrow> file_ref yielded list option" where
  "PollIter st opts envs since until =
     (if since \<ge> until then Some []
      else pollIter_loop st (page_size (resolvePollOpts opts)) until envs 0 since)"

section \<open>TailIter\<close>

text \<open>One cycle: the context done before the page arrived, or the page's environment and whether
  the context is done during the back-off that follows an empty page.\<close>

datatype tail_event = Tail_yield file_ref | Tail_error poll_error | Tail_wait int

definition isCtxErr :: "poll_error \<Rightarrow> bool" where
  "isCtxErr e \<longleftrightarrow> (case e of
       Po_sql (Server_error m) \<Rightarrow> m = ''context canceled'' \<or> m = ''context deadline exceeded''
     | _ \<Rightarrow> False)"

fun tail_cycles ::
  "'a store \<Rightarrow> int \<Rightarrow> int \<times> int \<Rightarrow> (page_env \<times> bool) list \<Rightarrow> int \<Rightarrow> int \<Rightarrow> nat \<Rightarrow> tail_event list" where
  "tail_cycles st pageSize ivl [] c cursor consecEmpty = []"
| "tail_cycles st pageSize ivl ((env, wait_done) # envs) c cursor consecEmpty =
     (if pg_done env then []
      else case Poll st (pg_fail env) (pg_db env) c (wrap64 (c + pageSize)) of
        (_, _, Some e) \<Rightarrow> if isCtxErr e then [] else [Tail_error e]
      | (page, next, None) \<Rightarrow>
          if page = [] then
            Tail_wait (nextTailBackoff (consecEmpty + 1) (fst ivl) (snd ivl)) #
            (if wait_done then [] else tail_cycles st pageSize ivl envs cursor cursor (consecEmpty + 1))
          else
            map Tail_yield page
            @ tail_cycles st pageSize ivl envs next (wrap64 (Offset (last page) + 1)) 0)"

definition TailIter :: "'a store \<Rightarrow> poll_option list \<Rightarrow> (page_env \<times> bool) list \<Rightarrow> int \<Rightarrow> tail_event list" where
  "TailIter st opts envs since =
     (let o' = resolvePollOpts opts
      in tail_cycles st (page_size o') (tailIntervals o') envs since since 0)"

end
