(* ===== verification/Feed_Log.thy ===== *)
theory Feed_Log
  imports Feed_Poll "HOL-Library.Sublist"
begin

text \<open>
  The feed as its consumers see it: an append-only log.  \<open>append_log\<close> states what a reader
  needs of it: a window is a slice of the log, and the log only grows at its end.  The client
  lemmas (windows concatenate, complete windows are stable) are proved once from that; the
  interpretation on the files table discharges it for gap-free catalogs.  The paged iterators are
  then shown to read exactly the log.
\<close>

section \<open>The interface\<close>

locale append_log =
  fixes log :: "'db \<Rightarrow> 'r list"
    and fetch :: "'db \<Rightarrow> int \<Rightarrow> int \<Rightarrow> 'r list"
    and ok :: "'db \<Rightarrow> bool"
    and grows :: "'db \<Rightarrow> 'db \<Rightarrow> bool"
  assumes fetch_slice:
      "ok db \<Longrightarrow> fetch db a b = take (nat (b - max a 1)) (drop (nat (max a 1 - 1)) (log db))"
    and grows_prefix: "ok db \<Longrightarrow> ok db' \<Longrightarrow> grows db db' \<Longrightarrow> prefix (log db) (log db')"
begin

lemma fetch_split:
  assumes "ok db" "a \<le> b" "b \<le> c"
  shows "fetch db a c = fetch db a b @ fetch db b c"
proof -
  have "nat (c - max a 1) = nat (b - max a 1) + nat (c - max b 1)" if "1 \<le> b" using assms that by simp
  moreover have "nat (max b 1 - 1) = nat (b - max a 1) + nat (max a 1 - 1)" if "1 \<le> b" using assms that by simp
  ultimately show ?thesis
    using assms by (cases "1 \<le> b") (simp_all add: fetch_slice take_add)
qed

lemma fetch_stable:
  assumes "ok db" "ok db'" "grows db db'" "b \<le> int (length (log db)) + 1"
  shows "fetch db' a b = fetch db a b"
proof -
  obtain rest where "log db' = log db @ rest" using grows_prefix [OF assms(1-3)] by (auto simp: prefix_def)
  moreover have "nat (b - max a 1) \<le> length (log db) - nat (max a 1 - 1)" using assms(4) by linarith
  ultimately show ?thesis using assms(1,2) by (simp add: fetch_slice)
qed

lemma fetch_cap: "ok db \<Longrightarrow> fetch db a (min b (int (length (log db)) + 1)) = fetch db a b"
  by (cases "b \<le> int (length (log db)) + 1") (simp_all add: fetch_slice)

lemma fetch_none: "ok db \<Longrightarrow> b \<le> 1 \<Longrightarrow> fetch db a b = []"
  by (simp add: fetch_slice)

end

section \<open>The feed of a catalog\<close>

definition feed :: "catalog \<Rightarrow> file_row list" where
  "feed db = sort_key feed_key (filter (\<lambda>r. f_feed_seq r \<noteq> None) (c_files db))"

definition feed_rows :: "catalog \<Rightarrow> int \<Rightarrow> int \<Rightarrow> file_row list" where
  "feed_rows db since until = sort_key feed_key (filter (in_window since until) (c_files db))"

lemma feed_rows_feed: "feed_rows db since until = filter (in_window since until) (feed db)"
proof -
  have "filter (in_window since until) (filter (\<lambda>r. f_feed_seq r \<noteq> None) (c_files db))
      = filter (in_window since until) (c_files db)"
    by (rule filter_mono_absorb) (auto simp: in_window_def split: option.splits)
  then show ?thesis by (simp add: feed_rows_def feed_def filter_sort)
qed

lemma feed_keys_mset: "mset (map feed_key (feed db)) = mset (sequenced (c_files db))"
proof -
  have "map feed_key (filter (\<lambda>r. f_feed_seq r \<noteq> None) rows) = sequenced rows" for rows
    by (induction rows) (auto simp: feed_key_def)
  then have "mset (map feed_key (filter (\<lambda>r. f_feed_seq r \<noteq> None) (c_files db))) = mset (sequenced (c_files db))"
    by simp
  then show ?thesis by (simp add: feed_def)
qed

lemma feed_keys:
  assumes "gap_free db"
  shows "map feed_key (feed db) = [1..int (length (feed db))]"
proof -
  have "mset (map feed_key (feed db)) = mset [1..int (length (sequenced (c_files db)))]"
    using assms feed_keys_mset by (simp add: gap_free_mset)
  moreover have "length (feed db) = length (sequenced (c_files db))"
    using arg_cong [OF feed_keys_mset [of db], of size] by simp
  ultimately show ?thesis
    by (metis feed_def properties_for_sort sort_key_id_if_sorted sorted_sort_key sorted_upto mset_sort)
qed

lemma feed_latest: "gap_free db \<Longrightarrow> sql_offset_latest db = int (length (feed db))"
  using latest_gap_free arg_cong [OF feed_keys_mset [of db], of size] by simp

lemma feed_sequenced: "r \<in> set (feed db) \<Longrightarrow> r \<in> set (c_files db) \<and> f_feed_seq r = Some (feed_key r)"
  by (auto simp: feed_def feed_key_def)

lemma upto_filter: "filter (\<lambda>s. a \<le> s \<and> s < b) [1..n] = [max a 1..min (b - 1) n]" for a b n :: int
proof (cases "0 \<le> n")
  case True
  then show ?thesis
  proof (induction n rule: int_ge_induct)
    case (step i)
    have "[1..i + 1] = [1..i] @ [i + 1]" using step by (simp add: upto_rec2)
    moreover have "[max a 1..min (b - 1) (i + 1)] = (if a \<le> i + 1 \<and> i + 1 < b then [max a 1..min (b - 1) i] @ [i + 1] else [max a 1..min (b - 1) i])"
    proof (cases "a \<le> i + 1 \<and> i + 1 < b")
      case True
      then have "min (b - 1) (i + 1) = i + 1" "min (b - 1) i = i" "max a 1 \<le> i + 1" using step by simp_all
      with True show ?thesis by (simp add: upto_rec2)
    next
      case False
      then show ?thesis using step by (auto simp: min_def max_def)
    qed
    ultimately show ?case using step by simp
  qed simp
qed simp

lemma filter_slice:
  assumes "map f xs = [1..int (length xs)]"
  shows "filter (\<lambda>x. a \<le> f x \<and> f x < b) xs = take (nat (b - max a 1)) (drop (nat (max a 1 - 1)) xs)"
  using assms
proof (induction xs rule: rev_induct)
  case (snoc x xs)
  have "[1..int (length (xs @ [x]))] = [1..int (length xs)] @ [int (length xs) + 1]"
    using upto_rec2 [of 1 "int (length xs) + 1"] by (simp add: add.commute)
  with snoc.prems have "map f xs @ [f x] = [1..int (length xs)] @ [int (length xs) + 1]" by simp
  then have m: "map f xs = [1..int (length xs)]" "f x = int (length xs) + 1" by simp_all
  note IH = snoc.IH [OF m(1)]
  show ?case
  proof (cases "max a 1 - 1 \<le> int (length xs)")
    case True
    then have "drop (nat (max a 1 - 1)) (xs @ [x]) = drop (nat (max a 1 - 1)) xs @ [x]" by simp
    moreover have "a \<le> f x" using True m(2) by simp
    moreover have "length (drop (nat (max a 1 - 1)) xs) < nat (b - max a 1) \<longleftrightarrow> f x < b"
      using True m(2) by (auto simp: nat_less_iff)
    ultimately show ?thesis using IH by (auto simp: take_append take_Cons')
  next
    case False
    then have "\<not> a \<le> f x" using m(2) by (auto simp: max_def split: if_splits)
    with False show ?thesis using IH by simp
  qed
qed simp

lemma feed_rows_slice:
  assumes "gap_free db"
  shows "feed_rows db a b = take (nat (b - max a 1)) (drop (nat (max a 1 - 1)) (feed db))"
proof -
  have "filter (in_window a b) (feed db) = filter (\<lambda>r. a \<le> feed_key r \<and> feed_key r < b) (feed db)"
    by (rule filter_cong) (auto simp: in_window_def dest!: feed_sequenced)
  then show ?thesis by (simp add: feed_rows_feed filter_slice [OF feed_keys [OF assms]])
qed

lemma feed_rows_keys:
  assumes "gap_free db"
  shows "map feed_key (feed_rows db a b) = [max a 1..min (b - 1) (sql_offset_latest db)]"
proof -
  have "map feed_key (feed_rows db a b) = filter (\<lambda>s. a \<le> s \<and> s < b) (map feed_key (feed db))"
    unfolding feed_rows_feed filter_map comp_def
    by (rule arg_cong [where f = "map feed_key"], rule filter_cong) (auto simp: in_window_def dest!: feed_sequenced)
  then show ?thesis by (simp add: feed_keys [OF assms] upto_filter feed_latest [OF assms])
qed

lemma feed_prefix:
  assumes "gap_free db" "gap_free db'" "feed_grows db db'"
  shows "prefix (feed db) (feed db')"
proof -
  let ?m = "sql_offset_latest db"
  have pub: "feed_rows d 1 (m + 1) = sort_key feed_key (filter (in_window 1 (m + 1)) (published m d))" for d m
    by (simp add: feed_rows_def window_published [of "m + 1" m 1])
  have "feed_rows db' 1 (?m + 1) = feed_rows db 1 (?m + 1)"
    using assms(3) by (simp add: pub feed_grows_def)
  moreover have "feed_rows db 1 (?m + 1) = feed db"
    using feed_rows_slice [OF assms(1), of 1 "?m + 1"] feed_latest [OF assms(1)] by simp
  ultimately have "feed db = take (nat ?m) (feed db')"
    using feed_rows_slice [OF assms(2), of 1 "?m + 1"] by simp
  then show ?thesis by (metis take_is_prefix)
qed

interpretation feed_log: append_log feed feed_rows gap_free feed_grows
  by unfold_locales (simp_all add: feed_rows_slice feed_prefix)

section \<open>Poll\<close>

definition rows_complete :: "catalog \<Rightarrow> bool" where
  "rows_complete db \<longleftrightarrow> (\<forall>r \<in> set (c_files db). row_complete r)"

lemma Poll_eq:
  assumes "distinct (ext_names st)" "rows_complete db" "since < until"
  shows "Poll st None db since until =
    (map (ref_of (ext_names st)) (feed_rows db since until),
     foldl advance since (map (ref_of (ext_names st)) (feed_rows db since until)), None)"
proof -
  have "scan_poll_ref (ext_names st) (project (poll_cols (ext_names st)) r) = Inr (ref_of (ext_names st) r)"
    if "r \<in> set (feed_rows db since until)" for r
    using that assms(1,2) by (intro scan_poll_project) (auto simp: feed_rows_def rows_complete_def in_window_def split: option.splits)
  then have "map_res (scan_poll_ref (ext_names st)) (sql_poll_files (ext_names st) since until db)
      = Inr (map (ref_of (ext_names st)) (feed_rows db since until))"
    unfolding sql_poll_files_def feed_rows_def [symmetric] map_res_Inr
    by (simp add: list_all2_map1 list_all2_map2 list_all2_same)
  with assms(3) show ?thesis by (simp add: Poll_def)
qed

lemma ref_offset: "r \<in> set (feed_rows db a b) \<Longrightarrow> Offset (ref_of exts r) = feed_key r"
  by (auto simp: feed_rows_feed ref_of_def dest!: feed_sequenced)

lemma offsets:
  assumes "gap_free db"
  shows "map Offset (map (ref_of exts) (feed_rows db a b)) = [max a 1..min (b - 1) (sql_offset_latest db)]"
proof -
  have "map Offset (map (ref_of exts) (feed_rows db a b)) = map feed_key (feed_rows db a b)"
    by (auto simp: ref_offset)
  then show ?thesis by (simp only: feed_rows_keys [OF assms])
qed

lemma advance_to:
  assumes "map Offset es = [x..y]" "x \<le> y" "0 \<le> x" "y < 2 ^ 63 - 1"
  shows "foldl advance c es = max c (y + 1)"
  using assms
proof (induction es arbitrary: y rule: rev_induct)
  case (snoc e es)
  have "[x..y] = [x..y - 1] @ [y]" using snoc.prems(2) by (simp add: upto_rec2)
  then have e: "map Offset es = [x..y - 1]" "Offset e = y" using snoc.prems(1) by simp_all
  have adv: "advance n e = max n (y + 1)" for n
    using e(2) snoc.prems by (simp add: advance_def max_def)
  show ?case
  proof (cases "x = y")
    case True
    with e have "es = []" by simp
    then show ?thesis by (simp add: adv)
  next
    case False
    then have "foldl advance c es = max c y" using snoc.IH [OF e(1)] snoc.prems by simp
    then show ?thesis by (simp add: adv max_def)
  qed
qed simp

text \<open>What a page of a good feed returns.\<close>

definition good_feed :: "'a store \<Rightarrow> catalog \<Rightarrow> bool" where
  "good_feed st db \<longleftrightarrow> distinct (ext_names st) \<and> gap_free db \<and> rows_complete db
     \<and> sql_offset_latest db < 2 ^ 63 - 1"

abbreviation refs :: "'a store \<Rightarrow> catalog \<Rightarrow> int \<Rightarrow> int \<Rightarrow> file_ref list" where
  "refs st db a b \<equiv> map (ref_of (ext_names st)) (feed_rows db a b)"

lemma Poll_page:
  assumes "good_feed st db" "a < b"
  obtains nx where "Poll st None db a b = (refs st db a b, nx, None)"
    "refs st db a b = [] \<longleftrightarrow> min (b - 1) (sql_offset_latest db) < max a 1"
    "refs st db a b \<noteq> [] \<Longrightarrow> nx = min b (sql_offset_latest db + 1)"
    "refs st db a b \<noteq> [] \<Longrightarrow> Offset (last (refs st db a b)) = min b (sql_offset_latest db + 1) - 1"
proof -
  let ?y = "min (b - 1) (sql_offset_latest db)"
  have g: "gap_free db" "sql_offset_latest db < 2 ^ 63 - 1" using assms(1) by (simp_all add: good_feed_def)
  note offs = offsets [OF g(1), of "ext_names st" a b]
  have empty: "refs st db a b = [] \<longleftrightarrow> ?y < max a 1"
    using arg_cong [OF offs, of "\<lambda>l. l = []"] by simp
  have nxt: "foldl advance a (refs st db a b) = min b (sql_offset_latest db + 1)" if "refs st db a b \<noteq> []"
  proof -
    have "max a 1 \<le> ?y" using that unfolding empty by linarith
    then have "foldl advance a (refs st db a b) = max a (?y + 1)"
      using advance_to [OF offs, of a] g(2) by simp
    also have "\<dots> = min b (sql_offset_latest db + 1)" using \<open>max a 1 \<le> ?y\<close> by linarith
    finally show ?thesis .
  qed
  have "Offset (last (refs st db a b)) = ?y" if "refs st db a b \<noteq> []"
  proof -
    have "Offset (last (refs st db a b)) = last [max a 1..?y]"
      using that by (simp only: offs [symmetric] last_map not_False_eq_True)
    also have "\<dots> = ?y" using that unfolding empty by (subst upto_rec2) auto
    finally show ?thesis .
  qed
  moreover have "Poll st None db a b = (refs st db a b, foldl advance a (refs st db a b), None)"
    using assms by (intro Poll_eq) (simp_all add: good_feed_def)
  ultimately show thesis using that nxt empty by (auto simp: min_def)
qed

section \<open>PollIter\<close>

text \<open>Page \<open>k\<close> runs without a fault on a catalog that extends \<open>db\<close>.\<close>

definition page_ok :: "'a store \<Rightarrow> catalog \<Rightarrow> page_env \<Rightarrow> bool" where
  "page_ok st db env \<longleftrightarrow> \<not> pg_done env \<and> pg_fail env = None \<and> good_feed st (pg_db env) \<and> feed_grows db (pg_db env)"

lemma page_refs:
  assumes "good_feed st db" "page_ok st db env" "b \<le> sql_offset_latest db + 1"
  shows "refs st (pg_db env) a b = refs st db a b"
  using assms feed_log.fetch_stable [of db "pg_db env" b a] feed_latest [of db]
  by (simp add: good_feed_def page_ok_def)

lemma pollIter_loop_refs:
  assumes "good_feed st db" "\<And>k. page_ok st db (envs k)" "until \<le> sql_offset_latest db + 1"
    and "0 < pageSize" "until + pageSize < 2 ^ 63"
  shows "c < until \<Longrightarrow> 1 < c + pageSize \<Longrightarrow> - (2 ^ 63) \<le> c \<Longrightarrow>
    pollIter_loop st pageSize until envs k c = Some (map Yield (refs st db c until))"
proof (induction "nat (until - max c 1)" arbitrary: c k rule: less_induct)
  case less
  let ?e = "min (c + pageSize) until"
  have w: "wrap64 (c + pageSize) = c + pageSize" using less.prems assms(4,5) by (intro wrap64_id) auto
  have ce: "c < ?e" using less.prems(1) assms(4) by simp
  have g: "good_feed st (pg_db (envs k))" and pok: "page_ok st db (envs k)"
    using assms(2) [of k] by (simp_all add: page_ok_def)
  have same: "refs st (pg_db (envs k)) c ?e = refs st db c ?e" by (rule page_refs [OF assms(1) pok]) (use assms(3) in simp)
  obtain nx where poll: "Poll st None (pg_db (envs k)) c ?e = (refs st db c ?e, nx, None)"
    by (rule Poll_page [OF g ce]) (simp add: same)
  obtain nx' where p': "Poll st None db c ?e = (refs st db c ?e, nx', None)"
    "refs st db c ?e = [] \<longleftrightarrow> min (?e - 1) (sql_offset_latest db) < max c 1"
    "refs st db c ?e \<noteq> [] \<Longrightarrow> nx' = min ?e (sql_offset_latest db + 1)"
    by (rule Poll_page [OF assms(1) ce]) blast
  have "nx = nx'"
    using poll p'(1) Poll_eq [of st "pg_db (envs k)" c ?e] Poll_eq [of st db c ?e] same ce g assms(1)
    by (simp add: good_feed_def)
  with p'(3) assms(3) have nx: "nx = ?e" if "refs st db c ?e \<noteq> []" using that by simp
  have step: "pollIter_loop st pageSize until envs k c =
      (if refs st db c ?e = [] then Some []
       else if nx < until then Option.bind (pollIter_loop st pageSize until envs (k + 1) nx)
              (\<lambda>rest. Some (map Yield (refs st db c ?e) @ rest))
       else Some (map Yield (refs st db c ?e)))"
    using pok poll w by (subst pollIter_loop.simps) (simp add: page_ok_def)
  show ?case
  proof (cases "refs st db c ?e = []")
    case True
    then have "min (?e - 1) (sql_offset_latest db) < max c 1" using p'(2) by blast
    then have "until \<le> 1" using less.prems assms(3,4) by (simp add: min_def max_def split: if_splits)
    then have "refs st db c until = []"
      using feed_log.fetch_none [of db until c] assms(1) by (simp add: good_feed_def)
    with True step show ?thesis by simp
  next
    case False
    note nx = nx [OF False]
    have split: "refs st db c until = refs st db c ?e @ refs st db ?e until"
      using feed_log.fetch_split [of db c ?e until] assms(1) ce by (simp add: good_feed_def)
    show ?thesis
    proof (cases "nx < until")
      case True
      have e1: "1 < ?e" using False p'(2) by linarith
      have "max c 1 < max nx 1" "max nx 1 < until" unfolding nx using e1 ce True [unfolded nx] by linarith+
      then have "nat (until - max nx 1) < nat (until - max c 1)" using less.prems(1) by simp
      then have "pollIter_loop st pageSize until envs (k + 1) nx = Some (map Yield (refs st db nx until))"
        using less.hyps True nx e1 assms(4) by simp
      with step False True split nx show ?thesis by simp
    next
      case False': False
      then have "?e = until" using nx by simp
      with step False False' show ?thesis by simp
    qed
  qed
qed


text \<open>A catalog with three sequenced rows.\<close>

definition full_row :: "int \<Rightarrow> string \<Rightarrow> int \<Rightarrow> file_row" where
  "full_row i key s = (blank_file i (10 + i))\<lparr>f_s3_key := key, f_partition_key := ''p=a'', f_written_at_version := Some i,
     f_record_count := Some 1, f_feed_seq := Some s, f_feed_seq_at := Some (20 + s)\<rparr>"

definition feed_catalog :: catalog where
  "feed_catalog = \<lparr>c_files = [full_row 1 ''a'' 2, full_row 2 ''b'' 1, full_row 3 ''c'' 3], c_partitions = [],
     c_pending = [], c_mv = (\<lambda>_. []), c_next_id = 4\<rparr>"

definition still_page :: page_env where
  "still_page = \<lparr>pg_db = feed_catalog, pg_fail = None, pg_done = False\<rparr>"

lemma feed_catalog_good: "good_feed demo_store feed_catalog"
proof -
  have "gap_free feed_catalog" "sql_offset_latest feed_catalog = 3" by code_simp+
  then show ?thesis
    by (simp add: good_feed_def rows_complete_def row_complete_def feed_catalog_def full_row_def demo_store_def ext_names_def)
qed

lemma still_page_ok: "page_ok demo_store feed_catalog still_page"
  using feed_catalog_good by (simp add: page_ok_def still_page_def)


text \<open>The bound on the first page is needed: with a page size of 1 and the documented start
  \<open>OffsetNone\<close>, \<open>PollIter\<close> yields nothing and reports no error, on every gap-free feed, although
  \<open>Poll\<close> over the same range returns its files; and \<open>TailIter\<close> stays at the empty page
  \<open>[0, 1)\<close> for ever: it yields nothing however many files are committed.\<close>

theorem page_size_one_starves:
  assumes "\<And>k. good_feed st (pg_db (envs k)) \<and> pg_fail (envs k) = None"
    and "\<And>e. e \<in> set cycles \<Longrightarrow> good_feed st (pg_db (fst e)) \<and> pg_fail (fst e) = None"
  shows "PollIter st [WithPollPageSize 1] envs OffsetNone until = Some []
    \<and> (\<forall>e \<in> set (TailIter st [WithPollPageSize 1] cycles OffsetNone). \<exists>d. e = Tail_wait d)"
proof -
  have p: "page_size (resolvePollOpts [WithPollPageSize 1]) = 1"
    by (simp add: page_size_def resolvePollOpts_def)
  have empty: "Poll st None db 0 b = ([], 0, None)" if "good_feed st db" "b \<le> 1" "0 < b" for db b
    using that Poll_eq [of st db 0 b] feed_log.fetch_none [of db b 0] by (simp add: good_feed_def)
  have iter: "PollIter st [WithPollPageSize 1] envs OffsetNone until = Some []"
    using assms(1) [of 0] empty [of "pg_db (envs 0)" "min 1 until"] p
    by (auto simp: PollIter_def OffsetNone_def pollIter_loop.simps [of st 1 until envs 0 0])
  have tail: "\<forall>e \<in> set (tail_cycles st 1 ivl cs 0 0 n). \<exists>d. e = Tail_wait d"
    if "\<forall>e \<in> set cs. good_feed st (pg_db (fst e)) \<and> pg_fail (fst e) = None" for ivl cs n
    using that
  proof (induction cs arbitrary: n)
    case (Cons e cs)
    obtain env w where e: "e = (env, w)" by (cases e)
    have "Poll st None (pg_db env) 0 1 = ([], 0, None)" using Cons.prems e empty by simp
    with Cons e show ?case by simp
  qed simp
  have "\<forall>e \<in> set cycles. good_feed st (pg_db (fst e)) \<and> pg_fail (fst e) = None" using assms(2) by blast
  note tail [OF this]
  then have "\<forall>e \<in> set (TailIter st [WithPollPageSize 1] cycles OffsetNone). \<exists>d. e = Tail_wait d"
    unfolding TailIter_def OffsetNone_def Let_def p .
  with iter show ?thesis ..
qed

theorem page_size_one_starves_witness:
  "PollIter demo_store [WithPollPageSize 1] (\<lambda>k. still_page) OffsetNone 4 = Some []
   \<and> length (fst (Poll demo_store None feed_catalog OffsetNone 4)) = 3"
proof -
  have "length (fst (Poll demo_store None feed_catalog OffsetNone 4)) = 3" by code_simp
  moreover have "good_feed demo_store (pg_db still_page) \<and> pg_fail still_page = None"
    using still_page_ok by (simp add: page_ok_def)
  ultimately show ?thesis using page_size_one_starves [of demo_store "\<lambda>k. still_page" "[]"] by simp
qed

section \<open>TailIter\<close>

text \<open>The catalogs of successive cycles extend each other.\<close>

fun cycles_ok :: "'a store \<Rightarrow> catalog \<Rightarrow> (page_env \<times> bool) list \<Rightarrow> bool" where
  "cycles_ok st db [] = True"
| "cycles_ok st db ((env, wait_done) # cs) =
     (page_ok st db env \<and> \<not> wait_done \<and> cycles_ok st (pg_db env) cs)"

fun last_db :: "catalog \<Rightarrow> (page_env \<times> bool) list \<Rightarrow> catalog" where
  "last_db db [] = db"
| "last_db db ((env, _) # cs) = last_db (pg_db env) cs"

fun tail_yields :: "tail_event list \<Rightarrow> file_ref list" where
  "tail_yields [] = []"
| "tail_yields (Tail_yield r # es) = r # tail_yields es"
| "tail_yields (_ # es) = tail_yields es"

lemma tail_yields_append [simp]: "tail_yields (a @ b) = tail_yields a @ tail_yields b"
  by (induction a rule: tail_yields.induct) auto

lemma tail_yields_map [simp]: "tail_yields (map Tail_yield rs) = rs"
  by (induction rs) auto

lemma last_db_good:
  "good_feed st db \<Longrightarrow> cycles_ok st db cs \<Longrightarrow> good_feed st (last_db db cs) \<and> feed_grows db (last_db db cs)"
  by (induction db cs rule: last_db.induct) (auto simp: page_ok_def intro: feed_grows_trans)

lemma tail_cycles_slice:
  assumes p: "0 < p"
  shows "good_feed st db \<Longrightarrow> cycles_ok st db cs \<Longrightarrow> 1 \<le> c \<Longrightarrow> c \<le> sql_offset_latest db + 1 \<Longrightarrow>
    sql_offset_latest (last_db db cs) + 1 + p < 2 ^ 63 \<Longrightarrow>
    \<exists>b. tail_yields (tail_cycles st p ivl cs c c n) = refs st (last_db db cs) c b
      \<and> c \<le> b \<and> b \<le> sql_offset_latest (last_db db cs) + 1
      \<and> min (c + p * int (length cs)) (sql_offset_latest db + 1) \<le> b"
proof (induction cs arbitrary: db c n)
  case Nil
  then have "refs st db c c = []" by (simp add: feed_log.fetch_slice good_feed_def)
  with Nil show ?case by (intro exI [of _ c]) simp
next
  case (Cons e cs)
  obtain env where e: "e = (env, False)" and pok: "page_ok st db env" and rest: "cycles_ok st (pg_db env) cs"
    using Cons.prems(2) by (cases e) auto
  let ?db1 = "pg_db env" and ?L = "sql_offset_latest db" and ?L1 = "sql_offset_latest (pg_db env)"
  let ?fin = "last_db (pg_db env) cs"
  have g1: "good_feed st ?db1" and grow: "feed_grows db ?db1" using pok by (simp_all add: page_ok_def)
  have LL: "?L \<le> ?L1" using grow by (simp add: feed_grows_def)
  have fin: "good_feed st ?fin" "feed_grows ?db1 ?fin" using last_db_good [OF g1 rest] by simp_all
  have top: "?L1 \<le> sql_offset_latest ?fin" using fin(2) by (simp add: feed_grows_def)
  have fin_eq: "last_db db (e # cs) = ?fin" by (simp add: e)
  have bound: "sql_offset_latest ?fin + 1 + p < 2 ^ 63" using Cons.prems(5) by (simp add: e)
  have w: "wrap64 (c + p) = c + p" using Cons.prems(3,4) bound LL top p by (intro wrap64_id) auto
  obtain nx where poll: "Poll st None ?db1 c (c + p) = (refs st ?db1 c (c + p), nx, None)"
    and empty: "refs st ?db1 c (c + p) = [] \<longleftrightarrow> min (c + p - 1) ?L1 < max c 1"
    and nx: "refs st ?db1 c (c + p) \<noteq> [] \<Longrightarrow> nx = min (c + p) (?L1 + 1)"
    and last: "refs st ?db1 c (c + p) \<noteq> [] \<Longrightarrow> Offset (last (refs st ?db1 c (c + p))) = min (c + p) (?L1 + 1) - 1"
    using p by (rule Poll_page [OF g1, of c "c + p", simplified]) blast
  show ?case
  proof (cases "refs st ?db1 c (c + p) = []")
    case True
    then have "?L1 < c" using empty Cons.prems(3) p by linarith
    then have "c = ?L1 + 1" using Cons.prems(4) LL by simp
    then obtain b where b: "tail_yields (tail_cycles st p ivl cs c c (Suc n)) = refs st ?fin c b" "c \<le> b"
      "b \<le> sql_offset_latest ?fin + 1"
      using Cons.IH [OF g1 rest Cons.prems(3) _ bound, of "Suc n"] by auto
    have "tail_yields (tail_cycles st p ivl (e # cs) c c n) = refs st ?fin c b"
      using True poll pok b(1) w by (simp add: e page_ok_def)
    moreover have "min (c + p * int (length (e # cs))) (?L + 1) \<le> b" using \<open>?L1 < c\<close> LL b(2) by linarith
    ultimately show ?thesis using b(2,3) unfolding fin_eq by blast
  next
    case False
    let ?e = "min (c + p) (?L1 + 1)"
    have ce: "1 \<le> ?e" "c \<le> ?e" "?e \<le> ?L1 + 1" using Cons.prems(3,4) LL p by linarith+
    then obtain b where b: "tail_yields (tail_cycles st p ivl cs ?e ?e 0) = refs st ?fin ?e b" "?e \<le> b"
      "b \<le> sql_offset_latest ?fin + 1" "min (?e + p * int (length cs)) (?L1 + 1) \<le> b"
      using Cons.IH [OF g1 rest ce(1,3) bound, of 0] by blast
    have g: "gap_free ?db1" "gap_free ?fin" using g1 fin(1) by (simp_all add: good_feed_def)
    have "refs st ?db1 c (c + p) = refs st ?db1 c ?e"
      using feed_log.fetch_cap [OF g(1), of c "c + p"] by (simp add: feed_latest [OF g(1)])
    also have "\<dots> = refs st ?fin c ?e"
      using feed_log.fetch_stable [OF g fin(2), of ?e c] by (simp add: feed_latest [OF g(1)])
    finally have "refs st ?db1 c (c + p) @ refs st ?fin ?e b = refs st ?fin c b"
      using feed_log.fetch_split [OF g(2) ce(2) b(2)] by simp
    moreover have "wrap64 (Offset (last (refs st ?db1 c (c + p))) + 1) = ?e"
      unfolding last [OF False] using ce bound top p by (simp add: wrap64_id)
    ultimately have "tail_yields (tail_cycles st p ivl (e # cs) c c n) = refs st ?fin c b"
      using False poll pok b(1) w nx by (simp add: e page_ok_def del: map_map)
    moreover have "min (c + p * int (length (e # cs))) (?L + 1) \<le> b"
    proof -
      have "p * int (length (e # cs)) = p + p * int (length cs)" "0 \<le> p * int (length cs)"
        using p by (simp_all add: algebra_simps)
      with b(4) LL show ?thesis by linarith
    qed
    ultimately show ?thesis using b(2,3) ce(2) unfolding fin_eq by (meson order_trans)
  qed
qed

text \<open>\<open>TailIter\<close> delivers the feed exactly once, in order and without a gap: over cycles whose
  catalogs only grow, what it has yielded from \<open>since\<close> on is the slice \<open>[since, b)\<close> of the feed as
  it is at the end, and it keeps up: after \<open>n\<close> cycles \<open>b\<close> is at least \<open>since + n pages\<close> or the
  tip the first cycle could see.\<close>

theorem TailIter_exactly_once:
  assumes "good_feed st db" and "cycles_ok st db cycles" and "1 \<le> since" and "since \<le> sql_offset_latest db + 1"
    and "sql_offset_latest (last_db db cycles) + 1 + page_size (resolvePollOpts opts) < 2 ^ 63"
  shows "\<exists>b. tail_yields (TailIter st opts cycles since) = fst (Poll st None (last_db db cycles) since b)
      \<and> map Offset (tail_yields (TailIter st opts cycles since)) = [since..b - 1]
      \<and> min (since + page_size (resolvePollOpts opts) * int (length cycles)) (sql_offset_latest db + 1) \<le> b"
proof -
  have p: "0 < page_size (resolvePollOpts opts)" by (simp add: page_size_def defaultPollPageSize_def)
  let ?fin = "last_db db cycles"
  have fin: "good_feed st ?fin" using last_db_good [OF assms(1,2)] by simp
  obtain b where b: "tail_yields (TailIter st opts cycles since) = refs st ?fin since b" "since \<le> b"
    "b \<le> sql_offset_latest ?fin + 1"
    "min (since + page_size (resolvePollOpts opts) * int (length cycles)) (sql_offset_latest db + 1) \<le> b"
    using tail_cycles_slice [OF p assms(1-5)] unfolding TailIter_def Let_def by blast
  have "refs st ?fin since b = fst (Poll st None ?fin since b)"
  proof (cases "since = b")
    case True
    then show ?thesis using fin by (simp add: Poll_def feed_log.fetch_slice good_feed_def)
  next
    case False
    then show ?thesis using b(2) fin by (simp add: Poll_eq good_feed_def)
  qed
  moreover have "map Offset (refs st ?fin since b) = [since..b - 1]"
    using offsets [of ?fin "ext_names st" since b] fin assms(3) b(3) by (simp add: good_feed_def)
  ultimately show ?thesis using b(1,4) by metis
qed

theorem TailIter_exactly_once_witness:
  "\<exists>b. tail_yields (TailIter demo_store [WithPollPageSize 1] [(still_page, False), (still_page, False)] 2)
         = fst (Poll demo_store None feed_catalog 2 b)
     \<and> map Offset (tail_yields (TailIter demo_store [WithPollPageSize 1] [(still_page, False), (still_page, False)] 2)) = [2..b - 1]
     \<and> 4 \<le> b"
proof -
  have p: "page_size (resolvePollOpts [WithPollPageSize 1]) = 1" "sql_offset_latest feed_catalog = 3" by code_simp+
  have c: "cycles_ok demo_store feed_catalog [(still_page, False), (still_page, False)]"
    using still_page_ok by (simp add: still_page_def)
  have l: "last_db feed_catalog [(still_page, False), (still_page, False)] = feed_catalog"
    by (simp add: still_page_def)
  from TailIter_exactly_once [OF feed_catalog_good c, of 2 "[WithPollPageSize 1]"] p show ?thesis
    by (simp only: l) simp
qed

section \<open>The back-off\<close>

lemma tailIntervals_ordered: "0 < fst (tailIntervals o') \<and> fst (tailIntervals o') \<le> snd (tailIntervals o')"
  by (simp add: tailIntervals_def defaultTailBaseInterval_def defaultTailMaxInterval_def Let_def)

text \<open>The shift is a clamped doubling as long as it does not overflow at the largest exponent.\<close>

lemma nextTailBackoff_clamp:
  assumes "0 < b" "b \<le> m" "b < 2 ^ 34"
  shows "nextTailBackoff n b m = (if n \<le> 30 then min m (b * 2 ^ (n - 1)) else m)"
proof (cases "n \<le> 1 \<or> 30 < n")
  case True
  then show ?thesis using assms by (auto simp: nextTailBackoff_def min_def)
next
  case False
  have "(2::int) ^ (n - 1) \<le> 2 ^ 29" using False by (intro power_increasing) auto
  define d where "d = b * 2 ^ (n - 1)"
  have "b * 2 ^ (n - 1) < 2 ^ 34 * 2 ^ 29" using assms \<open>2 ^ (n - 1) \<le> (2::int) ^ 29\<close> by (intro mult_less_le_imp_less) auto
  then have "0 < d" "d < 2 ^ 63" using assms(1) by (simp_all add: d_def)
  then have "wrap64 d = d" by simp
  then show ?thesis using False \<open>0 < d\<close> unfolding nextTailBackoff_def d_def [symmetric] by (auto simp: min_def)
qed

lemma nextTailBackoff_between:
  assumes "0 < b" "b \<le> m" "b < 2 ^ 34"
  shows "b \<le> nextTailBackoff n b m \<and> nextTailBackoff n b m \<le> m"
proof -
  have "b * 1 \<le> b * 2 ^ (n - 1)" using assms(1) by (intro mult_left_mono) auto
  then show ?thesis using assms by (auto simp: nextTailBackoff_clamp)
qed

text \<open>Beyond that the shift can overflow to zero: the endless iterator would poll without a pause.\<close>

lemma nextTailBackoff_overflow: "nextTailBackoff 30 (2 ^ 35) (2 ^ 36) = 0"
  by code_simp

lemma tail_cycles_waits:
  assumes "0 < fst ivl" "fst ivl \<le> snd ivl" "fst ivl < 2 ^ 34"
  shows "Tail_wait d \<in> set (tail_cycles st ps ivl envs since cursor n) \<Longrightarrow> fst ivl \<le> d \<and> d \<le> snd ivl"
proof (induction envs arbitrary: since cursor n)
  case (Cons e envs)
  then show ?case using nextTailBackoff_between [OF assms, of "n + 1"]
    by (cases e) (fastforce split: if_splits prod.splits option.splits)
qed simp

text \<open>Every wait of the endless iterator lies between its two intervals, whatever the pages
  give, so that it neither polls without a pause nor sleeps longer than asked for; the base interval
  has to stay under 2^34 ns, about 17 seconds.\<close>

theorem TailIter_waits_bounded:
  assumes "tailIntervals (resolvePollOpts opts) = (b, m)" "b < 2 ^ 34"
  shows "0 < b \<and> (\<forall>d. Tail_wait d \<in> set (TailIter st opts envs since) \<longrightarrow> b \<le> d \<and> d \<le> m)"
proof -
  have o: "0 < b" "b \<le> m" using tailIntervals_ordered [of "resolvePollOpts opts"] assms(1) by simp_all
  have "b \<le> d \<and> d \<le> m" if w: "Tail_wait d \<in> set (TailIter st opts envs since)" for d
    using tail_cycles_waits [of "(b, m)" d] o assms w by (simp add: TailIter_def Let_def)
  with o show ?thesis by blast
qed

theorem TailIter_waits_bounded_witness:
  "\<exists>d. Tail_wait d \<in> set (TailIter demo_store [] [(still_page, False)] 7) \<and> 100 * 1000000 \<le> d \<and> d \<le> 2 * 1000000000"
proof -
  have i: "tailIntervals (resolvePollOpts []) = (100 * 1000000, 2 * 1000000000)"
    and w: "TailIter demo_store [] [(still_page, False)] 7 = [Tail_wait (100 * 1000000)]" by code_simp+
  have "Tail_wait (100 * 1000000) \<in> set (TailIter demo_store [] [(still_page, False)] 7)" by (simp add: w)
  moreover have "\<forall>d. Tail_wait d \<in> set (TailIter demo_store [] [(still_page, False)] 7) \<longrightarrow> 100 * 1000000 \<le> d \<and> d \<le> 2 * 1000000000"
    using TailIter_waits_bounded [OF i] by simp
  ultimately show ?thesis by blast
qed

end
