(* ===== verification/Store_Config.thy ===== *)
theory Store_Config
  imports Write_Path
begin

text \<open>
  \<open>config.go\<close>: the configuration record, its validation as the list of the complaints in the order
  the code adds them, the defaults, and the identifier rules.  A nil field is \<open>None\<close>, or \<open>False\<close>
  where only its presence matters.  The bounds the identifier rules promise (no name is truncated,
  no two tables share a name) are at the end.
\<close>

section \<open>Identifiers\<close>

definition cfgDefaultSchemaName :: string where "cfgDefaultSchemaName = ''public''"
definition cfgDefaultTablePrefix :: string where "cfgDefaultTablePrefix = ''s3pgstore_''"
definition cfgDefaultNotifyChannel :: string where "cfgDefaultNotifyChannel = ''s3pgstore_writes''"

definition maxIdentLen :: nat where "maxIdentLen = 30"
definition maxTablePrefixLen :: nat where "maxTablePrefixLen = 21"
definition maxSchemaNameLen :: nat where "maxSchemaNameLen = 63"
definition cfgMaxNotifyChannelLen :: nat where "cfgMaxNotifyChannelLen = 63"

definition ident_char :: "char \<Rightarrow> bool" where
  "ident_char c \<longleftrightarrow> is_lower c \<or> is_digit c \<or> c = CHR ''_''"

text \<open>The regular expressions \<open>^[a-z][a-z0-9_]*$\<close> and \<open>^[a-z][a-z0-9_]*_$\<close>.\<close>

definition identRegex :: "string \<Rightarrow> bool" where
  "identRegex s \<longleftrightarrow> (case s of [] \<Rightarrow> False | c # cs \<Rightarrow> is_lower c \<and> list_all ident_char cs)"

definition tablePrefixRegex :: "string \<Rightarrow> bool" where
  "tablePrefixRegex s \<longleftrightarrow> (case s of [] \<Rightarrow> False
     | c # cs \<Rightarrow> is_lower c \<and> cs \<noteq> [] \<and> list_all ident_char cs \<and> last cs = CHR ''_'')"

definition validIdent :: "string \<Rightarrow> bool" where
  "validIdent s \<longleftrightarrow> \<not> (length s = 0 \<or> length s > maxIdentLen) \<and> identRegex s"

definition validTablePrefix :: "string \<Rightarrow> bool" where
  "validTablePrefix s \<longleftrightarrow> \<not> (length s = 0 \<or> length s > maxTablePrefixLen) \<and> tablePrefixRegex s"

definition validSchemaName :: "string \<Rightarrow> bool" where
  "validSchemaName s \<longleftrightarrow> \<not> (length s = 0 \<or> length s > maxSchemaNameLen) \<and> identRegex s"

definition allowedExtensionTypes :: "string list" where
  "allowedExtensionTypes = [''TEXT'', ''UUID'', ''TIMESTAMPTZ'', ''INT'', ''BIGINT'', ''BOOLEAN'', ''NUMERIC'']"

definition allowedExtensionType :: "string \<Rightarrow> bool" where
  "allowedExtensionType t \<longleftrightarrow> to_upper (trim_space t) \<in> set allowedExtensionTypes"

section \<open>The configuration\<close>

datatype compression = CompressionDefault | CompressionSnappy | CompressionZstd | CompressionGzip
  | CompressionUncompressed | CompressionUnknown int

record 'a cfg_mv =
  cm_name :: string
  cm_columns :: "string list"
  cm_of :: "('a \<Rightarrow> string + string list list) option"

record 'a config =
  cf_executor :: bool
  cf_s3_bucket :: string
  cf_s3_prefix :: string
  cf_s3_client :: bool
  cf_schema :: string
  cf_prefix :: string
  cf_parts :: "string list"
  cf_partition_key_of :: "('a \<Rightarrow> string) option"
  cf_exts :: "ext_column list"
  cf_mvs :: "'a cfg_mv list"
  cf_entity_key_of :: "('a \<Rightarrow> string) option"
  cf_version_of :: "('a \<Rightarrow> int) option"
  cf_inserted_at_field :: string
  cf_compression :: compression
  cf_encode_buf_max :: int
  cf_notify_channel :: string

datatype config_error =
    Cf_executor | Cf_bucket | Cf_client | Cf_parts_empty | Cf_part_invalid string
  | Cf_partition_key_of | Cf_prefix_invalid string | Cf_schema_invalid string
  | Cf_ext_name nat string | Cf_ext_type nat string | Cf_ext_dup string
  | Cf_mv_name nat string | Cf_mv_no_columns nat string | Cf_mv_no_of nat string
  | Cf_mv_column nat nat string | Cf_mv_dup_column nat string string | Cf_mv_dup string
  | Cf_entity_version | Cf_buf_max | Cf_channel_long string

definition complain :: "bool \<Rightarrow> config_error \<Rightarrow> config_error list" where
  "complain b e = (if b then [e] else [])"

text \<open>The \<open>seen\<close> loops: a complaint for every name whose lower-case form came before.\<close>

fun dup_loop :: "(string \<Rightarrow> config_error) \<Rightarrow> string set \<Rightarrow> string list \<Rightarrow> config_error list" where
  "dup_loop mk seen [] = []"
| "dup_loop mk seen (n # ns) =
     complain (to_lower n \<in> seen) (mk n) @ dup_loop mk (insert (to_lower n) seen) ns"

fun ext_loop :: "nat \<Rightarrow> ext_column list \<Rightarrow> config_error list" where
  "ext_loop i [] = []"
| "ext_loop i (ec # ecs) =
     complain (\<not> validIdent (ec_name ec)) (Cf_ext_name i (ec_name ec))
     @ complain (\<not> allowedExtensionType (ec_type ec)) (Cf_ext_type i (ec_type ec))
     @ ext_loop (Suc i) ecs"

fun col_loop :: "nat \<Rightarrow> nat \<Rightarrow> string list \<Rightarrow> config_error list" where
  "col_loop i j [] = []"
| "col_loop i j (c # cs) = complain (\<not> validIdent c) (Cf_mv_column i j c) @ col_loop i (Suc j) cs"

fun mv_loop :: "nat \<Rightarrow> 'a cfg_mv list \<Rightarrow> config_error list" where
  "mv_loop i [] = []"
| "mv_loop i (mv # mvs) =
     complain (\<not> validIdent (cm_name mv)) (Cf_mv_name i (cm_name mv))
     @ complain (cm_columns mv = []) (Cf_mv_no_columns i (cm_name mv))
     @ complain (cm_of mv = None) (Cf_mv_no_of i (cm_name mv))
     @ col_loop i 0 (cm_columns mv)
     @ dup_loop (Cf_mv_dup_column i (cm_name mv)) {} (cm_columns mv)
     @ mv_loop (Suc i) mvs"

definition cfg_errors :: "'a config \<Rightarrow> config_error list" where
  "cfg_errors c =
     complain (\<not> cf_executor c) Cf_executor
     @ complain (cf_s3_bucket c = []) Cf_bucket
     @ complain (\<not> cf_s3_client c) Cf_client
     @ complain (cf_parts c = []) Cf_parts_empty
     @ concat (map (\<lambda>p. complain (\<not> validIdent p) (Cf_part_invalid p)) (cf_parts c))
     @ complain (cf_partition_key_of c = None) Cf_partition_key_of
     @ complain (cf_prefix c \<noteq> [] \<and> \<not> validTablePrefix (cf_prefix c)) (Cf_prefix_invalid (cf_prefix c))
     @ complain (cf_schema c \<noteq> [] \<and> \<not> validSchemaName (cf_schema c)) (Cf_schema_invalid (cf_schema c))
     @ ext_loop 0 (cf_exts c)
     @ dup_loop Cf_ext_dup {} (map ec_name (cf_exts c))
     @ mv_loop 0 (cf_mvs c)
     @ dup_loop Cf_mv_dup {} (map cm_name (cf_mvs c))
     @ complain ((cf_entity_key_of c = None) \<noteq> (cf_version_of c = None)) Cf_entity_version
     @ complain (cf_encode_buf_max c < 0) Cf_buf_max
     @ complain (cf_notify_channel c \<noteq> [] \<and> length (cf_notify_channel c) > cfgMaxNotifyChannelLen)
         (Cf_channel_long (cf_notify_channel c))"

definition cfg_validate :: "'a config \<Rightarrow> config_error list + unit" where
  "cfg_validate c = (if cfg_errors c \<noteq> [] then Inl (cfg_errors c) else Inr ())"

definition cfg_resolved :: "'a config \<Rightarrow> 'a config" where
  "cfg_resolved c =
     c\<lparr>cf_schema := (if cf_schema c = [] then cfgDefaultSchemaName else cf_schema c),
       cf_prefix := (if cf_prefix c = [] then cfgDefaultTablePrefix else cf_prefix c),
       cf_notify_channel := (if cf_notify_channel c = [] then cfgDefaultNotifyChannel else cf_notify_channel c)\<rparr>"

section \<open>What a valid configuration is\<close>

lemma complain_Nil [simp]: "complain b e = [] \<longleftrightarrow> \<not> b"
  by (simp add: complain_def)

lemma dup_loop_Nil:
  "dup_loop mk seen ns = [] \<longleftrightarrow> distinct (map to_lower ns) \<and> set (map to_lower ns) \<inter> seen = {}"
  by (induction ns arbitrary: seen) auto

lemma ext_loop_Nil:
  "ext_loop i ecs = [] \<longleftrightarrow> (\<forall>ec \<in> set ecs. validIdent (ec_name ec) \<and> allowedExtensionType (ec_type ec))"
  by (induction ecs arbitrary: i) auto

lemma col_loop_Nil: "col_loop i j cs = [] \<longleftrightarrow> (\<forall>c \<in> set cs. validIdent c)"
  by (induction cs arbitrary: j) auto

lemma mv_loop_Nil:
  "mv_loop i mvs = [] \<longleftrightarrow> (\<forall>mv \<in> set mvs. validIdent (cm_name mv) \<and> cm_columns mv \<noteq> [] \<and> cm_of mv \<noteq> None
     \<and> (\<forall>c \<in> set (cm_columns mv). validIdent c) \<and> distinct (map to_lower (cm_columns mv)))"
  by (induction mvs arbitrary: i) (auto simp: col_loop_Nil dup_loop_Nil)

lemma ident_chars: "identRegex s \<Longrightarrow> c \<in> set s \<Longrightarrow> ident_char c"
  by (cases s) (auto simp: identRegex_def ident_char_def list_all_iff)

lemma low_char_ident [simp]: "ident_char c \<Longrightarrow> low_char c = c"
  by (auto simp: ident_char_def low_char_def is_upper_def is_lower_def is_digit_def less_eq_char_def)

lemma to_lower_ident: "validIdent s \<Longrightarrow> to_lower s = s"
  by (auto simp: validIdent_def to_lower_def intro!: map_idI dest: ident_chars)

lemma to_lower_idents: "(\<And>s. s \<in> set ss \<Longrightarrow> validIdent s) \<Longrightarrow> map to_lower ss = ss"
  by (intro map_idI to_lower_ident)

lemma validIdent_length: "validIdent s \<Longrightarrow> s \<noteq> [] \<and> length s \<le> 30"
  by (auto simp: validIdent_def maxIdentLen_def)

lemma valid_prefix_length: "validTablePrefix s \<Longrightarrow> s \<noteq> [] \<and> length s \<le> 21"
  by (auto simp: validTablePrefix_def maxTablePrefixLen_def)

text \<open>The facts every accepted configuration has.\<close>

lemma cfg_validD:
  assumes "cfg_validate c = Inr ()"
  shows "cf_parts c \<noteq> []" "\<And>p. p \<in> set (cf_parts c) \<Longrightarrow> validIdent p"
    "\<And>e. e \<in> set (cf_exts c) \<Longrightarrow> validIdent (ec_name e) \<and> allowedExtensionType (ec_type e)"
    "distinct (map ec_name (cf_exts c))"
    "\<And>m. m \<in> set (cf_mvs c) \<Longrightarrow> validIdent (cm_name m) \<and> cm_columns m \<noteq> []
       \<and> (\<forall>x \<in> set (cm_columns m). validIdent x) \<and> distinct (cm_columns m)"
    "distinct (map cm_name (cf_mvs c))"
    "validTablePrefix (cf_prefix (cfg_resolved c))" "validSchemaName (cf_schema (cfg_resolved c))"
    "length (cf_notify_channel (cfg_resolved c)) \<le> 63"
proof -
  have e: "cfg_errors c = []" using assms by (simp add: cfg_validate_def split: if_splits)
  then have exts: "ext_loop 0 (cf_exts c) = []" "dup_loop Cf_ext_dup {} (map ec_name (cf_exts c)) = []"
    and mvs: "mv_loop 0 (cf_mvs c) = []" "dup_loop Cf_mv_dup {} (map cm_name (cf_mvs c)) = []"
    by (simp_all add: cfg_errors_def)
  show "cf_parts c \<noteq> []" "\<And>p. p \<in> set (cf_parts c) \<Longrightarrow> validIdent p"
    using e by (simp_all add: cfg_errors_def)
  show x: "\<And>e. e \<in> set (cf_exts c) \<Longrightarrow> validIdent (ec_name e) \<and> allowedExtensionType (ec_type e)"
    using exts(1) by (simp add: ext_loop_Nil)
  have "map to_lower (map ec_name (cf_exts c)) = map ec_name (cf_exts c)"
    using x by (intro to_lower_idents) auto
  then show "distinct (map ec_name (cf_exts c))" using exts(2) by (simp add: dup_loop_Nil del: map_map)
  show m: "\<And>m. m \<in> set (cf_mvs c) \<Longrightarrow> validIdent (cm_name m) \<and> cm_columns m \<noteq> []
       \<and> (\<forall>x \<in> set (cm_columns m). validIdent x) \<and> distinct (cm_columns m)"
    using mvs(1) to_lower_idents unfolding mv_loop_Nil by metis
  have "map to_lower (map cm_name (cf_mvs c)) = map cm_name (cf_mvs c)"
    using m by (intro to_lower_idents) auto
  then show "distinct (map cm_name (cf_mvs c))" using mvs(2) by (simp add: dup_loop_Nil del: map_map)
  have d: "validTablePrefix cfgDefaultTablePrefix" "validSchemaName cfgDefaultSchemaName" by code_simp+
  show "validTablePrefix (cf_prefix (cfg_resolved c))" "validSchemaName (cf_schema (cfg_resolved c))"
    using e d by (auto simp: cfg_errors_def cfg_resolved_def)
  have "length cfgDefaultNotifyChannel \<le> 63" by code_simp
  then show "length (cf_notify_channel (cfg_resolved c)) \<le> 63"
    using e by (auto simp: cfg_errors_def cfg_resolved_def cfgMaxNotifyChannelLen_def not_less)
qed

end
