(* ===== verification/Schema_Check.thy ===== *)
theory Schema_Check
  imports Store_Config
begin

text \<open>
  \<open>schema.go\<close> and the construction of a store (\<open>New\<close> in \<open>store.go\<close>): the DDL of a configuration, the
  tables and columns the runtime expects, and their check against \<open>information_schema\<close>, which is a
  map from table names to column sets.  What executing the DDL does to it is read off the DDL
  text, line by line (\<open>read_ddl\<close>), so that the text and the expectation, which are written in
  different files, are compared with each other.
\<close>

section \<open>RenderDDL\<close>

definition ddlInputFromConfig :: "'a config \<Rightarrow> ddl_input" where
  "ddlInputFromConfig cfg =
     (let r = cfg_resolved cfg in
      \<lparr>Names = NewNames (cf_schema r) (cf_prefix r),
       Parts = cf_parts r,
       Exts = map (\<lambda>e. \<lparr>de_name = ec_name e, de_type = ec_type e\<rparr>) (cf_exts r),
       MVs = map (\<lambda>mv. \<lparr>dm_name = cm_name mv, dm_columns = cm_columns mv\<rparr>) (cf_mvs r)\<rparr>)"

datatype schema_error =
    Sm_config "config_error list"
  | Sm_ddl ddl_error
  | Sm_sql sql_error
  | Sm_missing "(string \<times> string option) list"

definition RenderDDL :: "sanitizer \<Rightarrow> 'a config \<Rightarrow> schema_error + string" where
  "RenderDDL san cfg =
     (case cfg_validate cfg of
        Inl e \<Rightarrow> Inl (Sm_config e)
      | Inr _ \<Rightarrow> (case RenderAll san (ddlInputFromConfig cfg) of Inl e \<Rightarrow> Inl (Sm_ddl e) | Inr t \<Rightarrow> Inr t))"

section \<open>The expected schema\<close>

definition expectedSchema :: "'a config \<Rightarrow> (string \<times> string list) list" where
  "expectedSchema r =
     (let n = NewNames (cf_schema r) (cf_prefix r);
          parts = map (\<lambda>p. PartColumnPrefix @ p) (cf_parts r);
          filesCols = [''file_id'', ''partition_key'', ''s3_key'', ''feed_seq'', ''feed_seq_at'',
             ''written_at_version'', ''idempotency_token'', ''file_size'', ''uncompressed_size'',
             ''record_count'', ''written_at''] @ parts @ map (\<lambda>e. ExtColumnPrefix @ ec_name e) (cf_exts r);
          partitionsCols = [''partition_key'', ''version'', ''file_count'', ''updated_at''] @ parts;
          pwCols = [''s3_key'', ''intended_at'']
      in [(FilesBare n, filesCols), (PartitionsBare n, partitionsCols), (PendingWritesBare n, pwCols)]
         @ map (\<lambda>mv. (MVBare n (cm_name mv), cm_columns mv)) (cf_mvs r))"

section \<open>SchemaManager\<close>

text \<open>The tables of one schema and their columns, as \<open>information_schema\<close> shows them.\<close>

type_synonym info_schema = "string \<rightharpoonup> string set"

definition tableExists :: "info_schema \<Rightarrow> string \<Rightarrow> bool" where
  "tableExists info t \<longleftrightarrow> info t \<noteq> None"

definition tableColumns :: "info_schema \<Rightarrow> string \<Rightarrow> string set" where
  "tableColumns info t = (case info t of None \<Rightarrow> {} | Some cs \<Rightarrow> cs)"

fun missing_loop :: "info_schema \<Rightarrow> (string \<times> string list) list \<Rightarrow> (string \<times> string option) list" where
  "missing_loop info [] = []"
| "missing_loop info ((t, columns) # ts) =
     (if \<not> tableExists info t then (t, None) # missing_loop info ts
      else map (\<lambda>w. (t, Some w)) (filter (\<lambda>w. w \<notin> tableColumns info t) columns) @ missing_loop info ts)"

definition Validate :: "'a config \<Rightarrow> sql_error option \<Rightarrow> info_schema \<Rightarrow> schema_error + unit" where
  "Validate cfg fail info =
     (case cfg_validate cfg of
        Inl e \<Rightarrow> Inl (Sm_config e)
      | Inr _ \<Rightarrow>
          (case fail of
             Some e \<Rightarrow> Inl (Sm_sql e)
           | None \<Rightarrow>
               (let missing = missing_loop info (expectedSchema (cfg_resolved cfg))
                in if missing \<noteq> [] then Inl (Sm_missing missing) else Inr ())))"

text \<open>The tables \<open>Drop\<close> drops, in order.\<close>

definition drop_tables :: "sanitizer \<Rightarrow> 'a config \<Rightarrow> string list" where
  "drop_tables san cfg =
     (let r = cfg_resolved cfg; n = NewNames (cf_schema r) (cf_prefix r)
      in map (\<lambda>mv. MV san n (cm_name mv)) (cf_mvs cfg) @ [Files san n, Partitions san n, PendingWrites san n])"

text \<open>The statements of \<open>Drop\<close>, or the configuration's error.\<close>

definition Drop :: "sanitizer \<Rightarrow> 'a config \<Rightarrow> schema_error + string list" where
  "Drop san cfg =
     (case cfg_validate cfg of
        Inl e \<Rightarrow> Inl (Sm_config e)
      | Inr _ \<Rightarrow> Inr (map (\<lambda>t. ''DROP TABLE IF EXISTS '' @ t @ '' CASCADE'') (drop_tables san cfg)))"

section \<open>Reading the DDL\<close>

text \<open>A line \<open>CREATE TABLE IF NOT EXISTS "schema"."table" (\<close> opens a table; a line indented by four
  blanks in it is a column, its name the first word, quoted or not, unless it is the \<open>PRIMARY KEY\<close>
  clause; \<open>);\<close> closes it.\<close>

definition create_prefix :: string where "create_prefix = ''CREATE TABLE IF NOT EXISTS ''"

definition first_word :: "string \<Rightarrow> string" where
  "first_word s = takeWhile (\<lambda>c. c \<noteq> CHR '' '') s"

definition unquoted :: "string \<Rightarrow> string" where
  "unquoted s = filter (\<lambda>c. c \<noteq> CHR 0x22) s"

definition table_of_line :: "string \<Rightarrow> string" where
  "table_of_line line = unquoted (last (split_on (CHR ''.'') (first_word (drop (length create_prefix) line))))"

definition column_of_line :: "string \<Rightarrow> string list" where
  "column_of_line line =
     (if has_prefix line ''    '' \<and> first_word (drop 4 line) \<noteq> ''PRIMARY''
      then [unquoted (first_word (drop 4 line))] else [])"

fun read_lines :: "(string \<times> string list) option \<Rightarrow> string list \<Rightarrow> (string \<times> string list) list" where
  "read_lines cur [] = []"
| "read_lines None (l # ls) =
     (if has_prefix l create_prefix then read_lines (Some (table_of_line l, [])) ls else read_lines None ls)"
| "read_lines (Some (t, cols)) (l # ls) =
     (if l = '');'' then (t, cols) # read_lines None ls
      else read_lines (Some (t, cols @ column_of_line l)) ls)"

definition read_ddl :: "string \<Rightarrow> (string \<times> string list) list" where
  "read_ddl text = read_lines None (split_on (CHR 0x0A) text)"

text \<open>\<open>CREATE TABLE IF NOT EXISTS\<close> leaves an existing table alone.\<close>

fun create_tables :: "(string \<times> string list) list \<Rightarrow> info_schema \<Rightarrow> info_schema" where
  "create_tables [] info = info"
| "create_tables ((t, cols) # ts) info =
     create_tables ts (if info t = None then info(t \<mapsto> set cols) else info)"

definition Create :: "sanitizer \<Rightarrow> 'a config \<Rightarrow> sql_error option \<Rightarrow> info_schema \<Rightarrow> (schema_error + unit) \<times> info_schema" where
  "Create san cfg fail info =
     (case RenderDDL san cfg of
        Inl e \<Rightarrow> (Inl e, info)
      | Inr ddl \<Rightarrow>
          (case fail of
             Some e \<Rightarrow> (Inl (Sm_sql e), info)
           | None \<Rightarrow> (Inr (), create_tables (read_ddl ddl) info)))"

end
