(* ===== verification/Schema_Correct.thy ===== *)
theory Schema_Correct
  imports Schema_Check
begin

text \<open>
  The DDL text and the expectation of the schema check agree: what \<open>read_ddl\<close> reads off the text
  rendered for a valid configuration are the expected tables with the expected columns, so a store
  can be opened on a database prepared with \<open>Create\<close>.
\<close>

section \<open>Texts as lines\<close>

abbreviation newline :: char where "newline \<equiv> CHR 0x0A"

definition text_of :: "string list \<Rightarrow> string" where
  "text_of ls = concat (map (\<lambda>l. l @ nl) ls)"

lemma text_of_append [simp]: "text_of (a @ b) = text_of a @ text_of b"
  by (simp add: text_of_def)

lemma text_of_simps [simp]: "text_of [] = []" "text_of (l # ls) = l @ nl @ text_of ls"
  by (simp_all add: text_of_def)

lemma split_text_of:
  "(\<And>l. l \<in> set ls \<Longrightarrow> newline \<notin> set l) \<Longrightarrow> split_on newline (text_of ls @ rest) = ls @ split_on newline rest"
  by (induction ls) (simp_all add: nl_def split_on_append)

text \<open>Lines separated by commas.\<close>

fun comma_lines :: "string list \<Rightarrow> string list" where
  "comma_lines [] = []"
| "comma_lines [l] = [l]"
| "comma_lines (l # m # ls) = (l @ '','') # comma_lines (m # ls)"

lemma join_comma_lines: "ls \<noteq> [] \<Longrightarrow> join ('','' @ nl) ls @ nl = text_of (comma_lines ls)"
  by (induction ls rule: comma_lines.induct) simp_all

lemma concat_comma_lines:
  "l @ concat (map (\<lambda>x. '','' @ nl @ f x) xs) @ nl = text_of (comma_lines (l # map f xs))"
proof (induction xs arbitrary: l)
  case (Cons x xs)
  then show ?case using Cons.IH [of "f x"] by simp
qed simp

lemma comma_lines_set: "l \<in> set (comma_lines ls) \<Longrightarrow> \<exists>m \<in> set ls. l = m \<or> l = m @ '',''"
  by (induction ls rule: comma_lines.induct) auto

section \<open>The reader\<close>

lemma read_body:
  "(\<And>l. l \<in> set ls \<Longrightarrow> l \<noteq> '');'') \<Longrightarrow>
   read_lines (Some (t, cols)) (ls @ '');'' # rest) = (t, cols @ concat (map column_of_line ls)) # read_lines None rest"
  by (induction ls arbitrary: cols) auto

lemma read_skip:
  "(\<And>l. l \<in> set ls \<Longrightarrow> \<not> has_prefix l create_prefix) \<Longrightarrow> read_lines None (ls @ rest) = read_lines None rest"
  by (induction ls) auto

lemma read_table:
  assumes "\<And>l. l \<in> set body \<Longrightarrow> l \<noteq> '');''" "\<And>l. l \<in> set idx \<Longrightarrow> \<not> has_prefix l create_prefix"
  shows "read_lines None ((create_prefix @ tab_name @ '' ('') # body @ '');'' # idx @ rest) =
    (table_of_line (create_prefix @ tab_name @ '' (''), concat (map column_of_line body)) # read_lines None rest"
  using assms by (simp add: read_body read_skip)

text \<open>Words of identifiers.\<close>

definition plain :: "string \<Rightarrow> bool" where
  "plain s \<longleftrightarrow> s \<noteq> [] \<and> list_all ident_char s"

lemma plain_ident: "validIdent s \<Longrightarrow> plain s"
  by (auto simp: plain_def validIdent_def list_all_iff dest: ident_chars)

lemma plain_schema: "validSchemaName s \<Longrightarrow> plain s"
  by (auto simp: plain_def validSchemaName_def list_all_iff dest: ident_chars)

lemma plain_prefix: "validTablePrefix s \<Longrightarrow> plain s"
  by (auto simp: plain_def validTablePrefix_def tablePrefixRegex_def ident_char_def split: list.splits)

lemma plain_append: "plain a \<Longrightarrow> list_all ident_char b \<Longrightarrow> plain (a @ b)"
  by (simp add: plain_def)

lemma plain_chars:
  assumes "plain s"
  shows "CHR '' '' \<notin> set s" "newline \<notin> set s" "CHR 0x22 \<notin> set s" "CHR ''.'' \<notin> set s" "CHR 0x00 \<notin> set s"
  using assms by (auto simp: plain_def list_all_iff ident_char_def is_lower_def is_digit_def less_eq_char_def)

lemma first_word_append: "CHR '' '' \<notin> set s \<Longrightarrow> first_word (s @ CHR '' '' # rest) = s"
  by (simp add: first_word_def takeWhile_append)

lemma unquoted_plain: "plain s \<Longrightarrow> unquoted s = s"
  using plain_chars(3) by (auto simp: unquoted_def filter_id_conv)

lemma column_plain:
  assumes "plain w"
  shows "column_of_line (''    '' @ w @ CHR '' '' # rest) = [w]"
proof -
  have "w \<noteq> ''PRIMARY''" using assms by (auto simp: plain_def ident_char_def is_lower_def is_digit_def less_eq_char_def)
  then show ?thesis
    using assms plain_chars(1) [OF assms]
    by (simp add: column_of_line_def has_prefix_def first_word_append unquoted_plain)
qed

lemma column_quoted:
  assumes "plain w"
  shows "column_of_line (''    '' @ quot @ w @ quot @ CHR '' '' # rest) = [w]"
proof -
  have "first_word ((quot @ w @ quot) @ CHR '' '' # rest) = quot @ w @ quot"
    using plain_chars(1) [OF assms] by (intro first_word_append) (simp add: quot_def)
  moreover have "unquoted (quot @ w @ quot) = w" using unquoted_plain [OF assms] by (simp add: quot_def unquoted_def)
  ultimately show ?thesis by (simp add: column_of_line_def has_prefix_def quot_def)
qed

text \<open>What \<open>Sanitize\<close> makes of plain names.\<close>

lemma san_plain:
  assumes "pgx_sanitize san" "plain a" "plain b"
  shows "san [a] = quot @ a @ quot" "san [a, b] = quot @ a @ quot @ ''.'' @ quot @ b @ quot"
  using assms plain_chars [of a] plain_chars [of b] unfolding pgx_sanitize_def by auto

lemma table_line:
  assumes "pgx_sanitize san" "plain a" "plain b"
  shows "table_of_line (create_prefix @ san [a, b] @ '' ('') = b"
proof -
  let ?q = "quot @ a @ quot @ ''.'' @ quot @ b @ quot"
  note a = plain_chars [OF assms(2)] and b = plain_chars [OF assms(3)]
  have "first_word (?q @ CHR '' '' # ''('') = ?q" using a b by (intro first_word_append) (auto simp: quot_def)
  moreover have "split_on (CHR ''.'') ((quot @ a @ quot) @ CHR ''.'' # (quot @ b @ quot)) = [quot @ a @ quot, quot @ b @ quot]"
    using a b by (subst split_on_append) (auto simp: quot_def split_on_no)
  moreover have "unquoted (quot @ b @ quot) = b" using unquoted_plain [OF assms(3)] by (simp add: quot_def unquoted_def)
  ultimately show ?thesis by (simp add: table_of_line_def san_plain [OF assms])
qed

section \<open>The texts of the tables\<close>

definition part_line :: "string \<Rightarrow> string \<Rightarrow> string" where
  "part_line pad p = ''    '' @ PartColumnPrefix @ p @ pad"

definition ext_line :: "ddl_ext \<Rightarrow> string" where
  "ext_line e = ''    '' @ ExtColumnPrefix @ de_name e @ ''         '' @ to_upper (de_type e)"

definition index_line :: "string \<Rightarrow> string \<Rightarrow> string \<Rightarrow> string \<Rightarrow> string" where
  "index_line name suffix tab_name cols = ''CREATE INDEX IF NOT EXISTS '' @ name @ suffix @ tab_name @ cols"

definition part_index :: "string \<Rightarrow> string \<Rightarrow> string list \<Rightarrow> string list" where
  "part_index name tab_name ps =
     (if ps \<noteq> [] then [index_line name ''_part_idx ON '' tab_name ('' ('' @ join comma_sep (map part_col ps) @ '');'')] else [])"

definition files_body :: "ddl_input \<Rightarrow> string list" where
  "files_body di =
     [''    file_id              BIGSERIAL PRIMARY KEY,'',
      ''    s3_key               TEXT NOT NULL UNIQUE,'',
      ''    partition_key        TEXT NOT NULL,'']
     @ map (part_line ''            TEXT NOT NULL,'') (Parts di)
     @ [''    file_size            BIGINT NOT NULL,'',
      ''    uncompressed_size    BIGINT NOT NULL,'',
      ''    record_count         BIGINT,'',
      ''    written_at_version   BIGINT,'',
      ''    written_at           TIMESTAMPTZ NOT NULL DEFAULT now(),'',
      ''    idempotency_token    TEXT,'',
      ''    feed_seq             BIGINT UNIQUE,'']
     @ comma_lines (''    feed_seq_at          TIMESTAMPTZ'' # map ext_line (Exts di))"

definition files_index :: "sanitizer \<Rightarrow> ddl_input \<Rightarrow> string list" where
  "files_index san di =
     (let files = Files san (Names di); bare = FilesBare (Names di) in
      [index_line bare ''_partition_written_idx ON '' files '' (partition_key, written_at);'',
       index_line bare ''_written_at_idx ON '' files '' (written_at);'',
       index_line bare ''_feed_seq_idx ON '' files '' (feed_seq) WHERE feed_seq IS NOT NULL;'',
       index_line bare ''_seq_scan_idx ON '' files '' (written_at, file_id) WHERE feed_seq IS NULL;'']
      @ part_index bare files (Parts di)
      @ [''CREATE UNIQUE INDEX IF NOT EXISTS '' @ bare @ ''_token_idx ON '' @ files
         @ '' (partition_key, idempotency_token) WHERE idempotency_token IS NOT NULL;''])"

definition partitions_body :: "ddl_input \<Rightarrow> string list" where
  "partitions_body di =
     [''    partition_key   TEXT PRIMARY KEY,'']
     @ map (part_line ''       TEXT NOT NULL,'') (Parts di)
     @ [''    version         BIGINT NOT NULL DEFAULT 0,'',
        ''    file_count      INT NOT NULL DEFAULT 0,'',
        ''    updated_at      TIMESTAMPTZ NOT NULL DEFAULT now()'']"

definition pending_body :: "string list" where
  "pending_body = [''    s3_key       TEXT PRIMARY KEY,'', ''    intended_at  TIMESTAMPTZ NOT NULL DEFAULT now()'']"

definition mv_line :: "sanitizer \<Rightarrow> string \<Rightarrow> string" where
  "mv_line san c = ''    '' @ san [c] @ '' TEXT NOT NULL''"

definition mv_key_line :: "sanitizer \<Rightarrow> string list \<Rightarrow> string" where
  "mv_key_line san cols = ''    PRIMARY KEY ('' @ join comma_sep (map (\<lambda>c. san [c]) cols) @ '')''"

definition mv_body :: "sanitizer \<Rightarrow> ddl_mv \<Rightarrow> string list" where
  "mv_body san mv = comma_lines (map (mv_line san) (dm_columns mv) @ [mv_key_line san (dm_columns mv)])"

definition table_lines :: "string \<Rightarrow> string list \<Rightarrow> string list \<Rightarrow> string list" where
  "table_lines tab_name body idx = (create_prefix @ tab_name @ '' ('') # body @ '');'' # idx"

lemma concat_lines: "concat (map (\<lambda>x. f x @ nl) xs) = text_of (map f xs)"
  by (induction xs) simp_all

lemma concat_part_lines: "concat (map (\<lambda>p. ''    '' @ PartColumnPrefix @ p @ pad @ nl) ps) = text_of (map (part_line pad) ps)"
  unfolding concat_lines [symmetric] part_line_def append_assoc ..

lemma concat_ext_lines:
  "l @ concat (map (\<lambda>e. '','' @ nl @ ''    '' @ ExtColumnPrefix @ de_name e @ ''         '' @ to_upper (de_type e)) es)
     @ nl @ rest = text_of (comma_lines (l # map ext_line es)) @ rest"
  unfolding concat_comma_lines [symmetric] ext_line_def append_assoc ..

lemma part_index_text:
  "(if ps \<noteq> [] then ''CREATE INDEX IF NOT EXISTS '' @ name @ ''_part_idx ON '' @ tab_name
      @ '' ('' @ join comma_sep (map part_col ps) @ '');'' @ nl else []) = text_of (part_index name tab_name ps)"
  by (simp only: part_index_def index_line_def text_of_simps append_assoc append_Nil2 split: if_split) simp

lemmas line_texts = Let_def text_of_append text_of_simps append_assoc append_Nil append_Nil2 table_lines_def create_prefix_def
  concat_part_lines concat_ext_lines part_index_text

lemma renderFiles_lines:
  "renderFiles san di = text_of (table_lines (Files san (Names di)) (files_body di) (files_index san di))"
  unfolding renderFiles_def files_body_def files_index_def index_line_def line_texts
  by (simp only: append_Cons append_Nil text_of_simps append_assoc)

lemma renderPartitions_lines:
  "renderPartitions san di =
     text_of (table_lines (Partitions san (Names di)) (partitions_body di) (part_index (PartitionsBare (Names di)) (Partitions san (Names di)) (Parts di)))"
  unfolding renderPartitions_def partitions_body_def line_texts
  by (simp only: append_Cons append_Nil text_of_simps append_assoc)

lemma renderPendingWrites_lines:
  "renderPendingWrites san di = text_of (table_lines (PendingWrites san (Names di)) pending_body
     [index_line (PendingWritesBare (Names di)) ''_intended_idx ON '' (PendingWrites san (Names di)) '' (intended_at);''])"
  by (simp only: renderPendingWrites_def pending_body_def index_line_def line_texts append_Cons)

lemma renderMV_lines: "renderMV san n mv = text_of (table_lines (MV san n (dm_name mv)) (mv_body san mv) [])"
proof -
  have m: "map (\<lambda>c. ''    '' @ c @ '' TEXT NOT NULL'') (map (\<lambda>c. san [c]) (dm_columns mv)) = map (mv_line san) (dm_columns mv)"
    by (simp add: mv_line_def)
  have "renderMV san n mv = ''CREATE TABLE IF NOT EXISTS '' @ MV san n (dm_name mv) @ '' ('' @ nl
      @ join ('','' @ nl) (map (mv_line san) (dm_columns mv) @ [mv_key_line san (dm_columns mv)]) @ nl @ '');'' @ nl"
    unfolding renderMV_def Let_def m mv_key_line_def ..
  also have "join ('','' @ nl) (map (mv_line san) (dm_columns mv) @ [mv_key_line san (dm_columns mv)]) @ nl @ '');'' @ nl
      = text_of (mv_body san mv) @ '');'' @ nl"
    using join_comma_lines [of "map (mv_line san) (dm_columns mv) @ [mv_key_line san (dm_columns mv)]"]
    unfolding mv_body_def by (metis append_assoc append_is_Nil_conv not_Cons_self2)
  finally show ?thesis by (simp only: line_texts append_Cons)
qed

section \<open>Reading the rendered DDL\<close>

text \<open>Line by line, of the tables of a configuration with plain names and one-line types.\<close>

definition plain_ddl :: "ddl_input \<Rightarrow> bool" where
  "plain_ddl di \<longleftrightarrow> plain (Schema (Names di)) \<and> plain (Prefix (Names di)) \<and> (\<forall>p \<in> set (Parts di). plain p)
     \<and> (\<forall>e \<in> set (Exts di). plain (de_name e) \<and> newline \<notin> set (de_type e))
     \<and> (\<forall>m \<in> set (MVs di). plain (dm_name m) \<and> (\<forall>c \<in> set (dm_columns m). plain c))"

lemma plain_parts: "plain p \<Longrightarrow> plain (PartColumnPrefix @ p)" "plain e \<Longrightarrow> plain (ExtColumnPrefix @ e)"
  by (simp_all add: plain_def PartColumnPrefix_def ExtColumnPrefix_def ident_char_def is_lower_def less_eq_char_def)

lemma column_part: "plain p \<Longrightarrow> column_of_line (part_line (CHR '' '' # pad) p) = [PartColumnPrefix @ p]"
  using column_plain [OF plain_parts(1)] unfolding part_line_def append_assoc by blast

lemma column_parts:
  "\<forall>p \<in> set ps. plain p \<Longrightarrow> concat (map column_of_line (map (part_line (CHR '' '' # pad)) ps)) = map (\<lambda>p. PartColumnPrefix @ p) ps"
  by (induction ps) (simp_all add: column_part)

lemma column_ext: "plain (de_name e) \<Longrightarrow> column_of_line (ext_line e @ rest) = [ExtColumnPrefix @ de_name e]"
  using column_plain [OF plain_parts(2)] unfolding ext_line_def by simp

lemma column_comma:
  assumes "\<And>x rest. x \<in> set xs \<Longrightarrow> column_of_line (f x @ rest) = g x"
  shows "concat (map column_of_line (comma_lines (map f xs))) = concat (map g xs)"
  using assms
proof (induction "map f xs" arbitrary: xs rule: comma_lines.induct)
  case (2 l)
  then obtain x where "xs = [x]" by auto
  with 2(2) [of x "[]"] show ?case by simp
next
  case (3 l m ls)
  then obtain x y ys where xs: "xs = x # y # ys" by (metis map_eq_Cons_D)
  with 3(1) [of "y # ys"] 3(2,3) show ?case by simp
qed simp

lemma comma_lines_Cons: "comma_lines (l # ls) = (if ls = [] then [l] else (l @ '','') # comma_lines ls)"
  by (cases ls) simp_all

lemma files_columns:
  assumes "plain_ddl di"
  shows "concat (map column_of_line (files_body di)) =
    [''file_id'', ''s3_key'', ''partition_key''] @ map (\<lambda>p. PartColumnPrefix @ p) (Parts di)
    @ [''file_size'', ''uncompressed_size'', ''record_count'', ''written_at_version'', ''written_at'',
       ''idempotency_token'', ''feed_seq'', ''feed_seq_at''] @ map (\<lambda>e. ExtColumnPrefix @ de_name e) (Exts di)"
proof -
  have c: "concat (map column_of_line [''    file_id              BIGSERIAL PRIMARY KEY,'',
      ''    s3_key               TEXT NOT NULL UNIQUE,'', ''    partition_key        TEXT NOT NULL,''])
      = [''file_id'', ''s3_key'', ''partition_key'']"
    "concat (map column_of_line [''    file_size            BIGINT NOT NULL,'', ''    uncompressed_size    BIGINT NOT NULL,'',
      ''    record_count         BIGINT,'', ''    written_at_version   BIGINT,'',
      ''    written_at           TIMESTAMPTZ NOT NULL DEFAULT now(),'', ''    idempotency_token    TEXT,'',
      ''    feed_seq             BIGINT UNIQUE,'']) = [''file_size'', ''uncompressed_size'', ''record_count'',
       ''written_at_version'', ''written_at'', ''idempotency_token'', ''feed_seq'']"
    "column_of_line ''    feed_seq_at          TIMESTAMPTZ'' = [''feed_seq_at'']"
    "column_of_line ''    feed_seq_at          TIMESTAMPTZ,'' = [''feed_seq_at'']"
    by code_simp+
  have p: "concat (map column_of_line (map (part_line ''            TEXT NOT NULL,'') (Parts di))) = map (\<lambda>p. PartColumnPrefix @ p) (Parts di)"
    using assms by (intro column_parts) (simp add: plain_ddl_def)
  have e: "concat (map column_of_line (comma_lines (map ext_line (Exts di)))) = map (\<lambda>e. ExtColumnPrefix @ de_name e) (Exts di)"
    using column_comma [of "Exts di" ext_line "\<lambda>e. [ExtColumnPrefix @ de_name e]"] column_ext assms
    by (simp add: plain_ddl_def concat_map_singleton)
  have f: "concat (map column_of_line (comma_lines (''    feed_seq_at          TIMESTAMPTZ'' # map ext_line (Exts di))))
      = ''feed_seq_at'' # map (\<lambda>e. ExtColumnPrefix @ de_name e) (Exts di)"
    using e c(3,4) by (simp add: comma_lines_Cons)
  show ?thesis by (simp only: files_body_def map_append concat_append c(1,2) p f) simp
qed

lemma partitions_columns:
  assumes "plain_ddl di"
  shows "concat (map column_of_line (partitions_body di)) =
    ''partition_key'' # map (\<lambda>p. PartColumnPrefix @ p) (Parts di) @ [''version'', ''file_count'', ''updated_at'']"
proof -
  have c: "concat (map column_of_line [''    partition_key   TEXT PRIMARY KEY,'']) = [''partition_key'']"
    "concat (map column_of_line [''    version         BIGINT NOT NULL DEFAULT 0,'', ''    file_count      INT NOT NULL DEFAULT 0,'',
        ''    updated_at      TIMESTAMPTZ NOT NULL DEFAULT now()'']) = [''version'', ''file_count'', ''updated_at'']"
    by code_simp+
  have p: "concat (map column_of_line (map (part_line ''       TEXT NOT NULL,'') (Parts di))) = map (\<lambda>p. PartColumnPrefix @ p) (Parts di)"
    using assms by (intro column_parts) (simp add: plain_ddl_def)
  show ?thesis by (simp only: partitions_body_def map_append concat_append c p) simp
qed

lemma pending_columns: "concat (map column_of_line pending_body) = [''s3_key'', ''intended_at'']"
  by code_simp

lemma mv_columns_read:
  assumes "pgx_sanitize san" "\<forall>c \<in> set (dm_columns mv). plain c"
  shows "concat (map column_of_line (mv_body san mv)) = dm_columns mv"
proof -
  let ?f = "\<lambda>x. case x of None \<Rightarrow> mv_key_line san (dm_columns mv) | Some c \<Rightarrow> mv_line san c"
  let ?xs = "map Some (dm_columns mv) @ [None]"
  have "column_of_line (?f x @ rest) = (case x of None \<Rightarrow> [] | Some c \<Rightarrow> [c])" if "x \<in> set ?xs" for x rest
  proof (cases x)
    case None
    have "first_word (drop 4 (mv_key_line san (dm_columns mv) @ rest)) = ''PRIMARY''"
      by (simp add: mv_key_line_def first_word_def)
    with None show ?thesis by (simp add: column_of_line_def)
  next
    case (Some c)
    then have "plain c" using that assms(2) by auto
    then have "mv_line san c @ rest = ''    '' @ quot @ c @ quot @ CHR '' '' # (''TEXT NOT NULL'' @ rest)"
      using san_plain [OF assms(1)] by (simp add: mv_line_def)
    with Some column_quoted [OF \<open>plain c\<close>] show ?thesis by (simp only: option.case)
  qed
  from column_comma [of ?xs ?f, OF this]
  show ?thesis by (simp add: mv_body_def comp_def concat_map_singleton)
qed

text \<open>No line has a newline, no body line closes the table, no index line opens one.\<close>

definition clean :: "string \<Rightarrow> bool" where
  "clean s \<longleftrightarrow> newline \<notin> set s"

lemma clean_append [simp]: "clean (a @ b) \<longleftrightarrow> clean a \<and> clean b"
  by (auto simp: clean_def)

lemma clean_plain: "plain s \<Longrightarrow> clean s"
  using plain_chars(2) by (simp add: clean_def)

lemma clean_join: "clean sep \<Longrightarrow> (\<And>s. s \<in> set ss \<Longrightarrow> clean s) \<Longrightarrow> clean (join sep ss)"
  using set_join [of sep ss] by (auto simp: clean_def)

lemma clean_upper:
  assumes "newline \<notin> set s"
  shows "clean (to_upper s)"
proof -
  have up: "up_char c \<noteq> newline" if "c \<noteq> newline" for c
  proof (cases "is_lower c")
    case True
    then have "97 \<le> byte_val c" "byte_val c \<le> 122" by (simp_all add: is_lower_def byte_val_def less_eq_char_def)
    then have "of_char (up_char c) = byte_val c - 32" using True by (simp add: up_char_def)
    moreover have "of_char newline = (10 :: nat)" by simp
    moreover have "byte_val c - 32 \<noteq> 10" using \<open>97 \<le> byte_val c\<close> by simp
    ultimately show ?thesis by metis
  qed (use that in \<open>simp add: up_char_def\<close>)
  with assms show ?thesis unfolding clean_def to_upper_def set_map image_iff by metis
qed

definition tab_ok :: "string \<Rightarrow> string list \<Rightarrow> string list \<Rightarrow> bool" where
  "tab_ok tab_name body idx \<longleftrightarrow> clean tab_name \<and> (\<forall>l \<in> set body. clean l \<and> has_prefix l ''    '')
     \<and> (\<forall>l \<in> set idx. clean l \<and> \<not> has_prefix l create_prefix)"

lemma read_table_lines:
  assumes "tab_ok tab_name body idx"
  shows "read_lines None (table_lines tab_name body idx @ rest) =
    (table_of_line (create_prefix @ tab_name @ '' (''), concat (map column_of_line body)) # read_lines None rest"
proof -
  have a: "l \<noteq> '');''" if "l \<in> set body" for l
    using assms that by (auto simp: tab_ok_def has_prefix_def)
  have b: "\<not> has_prefix l create_prefix" if "l \<in> set idx" for l
    using assms that by (simp add: tab_ok_def)
  show ?thesis
    unfolding table_lines_def append_Cons append_assoc by (rule read_table [OF a b])
qed

lemma clean_table_lines: "tab_ok tab_name body idx \<Longrightarrow> l \<in> set (table_lines tab_name body idx) \<Longrightarrow> newline \<notin> set l"
  by (auto simp: tab_ok_def table_lines_def clean_def create_prefix_def)

lemma clean_san:
  assumes "pgx_sanitize san" "plain a" "plain b"
  shows "clean (san [a, b])" "clean (san [a])"
  using clean_plain [OF assms(2)] clean_plain [OF assms(3)] by (simp_all add: san_plain [OF assms] clean_def quot_def)

lemma clean_index:
  "clean name \<Longrightarrow> clean suffix \<Longrightarrow> clean tab_name \<Longrightarrow> clean cols \<Longrightarrow>
   clean (index_line name suffix tab_name cols) \<and> \<not> has_prefix (index_line name suffix tab_name cols) create_prefix"
  by (simp add: index_line_def create_prefix_def has_prefix_def) (simp add: clean_def)

lemma clean_part_index:
  assumes "clean name" "clean tab_name" "\<forall>p \<in> set ps. plain p" "l \<in> set (part_index name tab_name ps)"
  shows "clean l \<and> \<not> has_prefix l create_prefix"
proof -
  have "clean (join comma_sep (map part_col ps))"
  proof (rule clean_join)
    fix x assume "x \<in> set (map part_col ps)"
    then obtain p where p: "x = part_col p" "p \<in> set ps" by auto
    then have "clean p" using assms(3) clean_plain by blast
    with p show "clean x" by (simp add: part_col_def PartColumnPrefix_def clean_def)
  qed (simp add: clean_def)
  then have "clean ('' ('' @ join comma_sep (map part_col ps) @ '');'')" by (simp add: clean_def)
  then show ?thesis using assms clean_index [of name "''_part_idx ON ''" tab_name]
    by (simp add: part_index_def clean_def split: if_splits)
qed

lemma body_line: "clean rest \<Longrightarrow> clean (''    '' @ rest) \<and> has_prefix (''    '' @ rest) ''    ''"
  by (simp only: has_prefix_append clean_append) (simp add: clean_def)

lemma comma_lines_ok:
  assumes "\<And>l. l \<in> set ls \<Longrightarrow> clean l \<and> has_prefix l ''    ''" "l \<in> set (comma_lines ls)"
  shows "clean l \<and> has_prefix l ''    ''"
proof -
  obtain m where m: "m \<in> set ls" "l = m \<or> l = m @ '',''" using comma_lines_set [OF assms(2)] by blast
  have "has_prefix (m @ '','') ''    ''" using assms(1) [OF m(1)] by (auto simp: has_prefix_conv)
  then show ?thesis using m assms(1) [OF m(1)] by (auto simp: clean_def)
qed

lemma part_lines_ok:
  assumes "\<forall>p \<in> set ps. plain p" "clean pad" "l \<in> set (map (part_line pad) ps)"
  shows "clean l \<and> has_prefix l ''    ''"
proof -
  obtain p where p: "p \<in> set ps" "l = part_line pad p" using assms(3) by auto
  then have "clean p" using assms(1) clean_plain by blast
  then have "clean (PartColumnPrefix @ p @ pad)" using assms(2) by (simp add: clean_def PartColumnPrefix_def)
  from body_line [OF this] p show ?thesis by (simp only: part_line_def)
qed

lemma ext_lines_ok:
  assumes "\<forall>e \<in> set es. plain (de_name e) \<and> newline \<notin> set (de_type e)" "l \<in> set (map ext_line es)"
  shows "clean l \<and> has_prefix l ''    ''"
proof -
  obtain e where e: "e \<in> set es" "l = ext_line e" using assms(2) by auto
  then have "clean (de_name e)" "clean (to_upper (de_type e))"
    using assms(1) by (simp_all add: clean_plain clean_upper)
  then have "clean (ExtColumnPrefix @ de_name e @ ''         '' @ to_upper (de_type e))"
    by (simp add: clean_def ExtColumnPrefix_def)
  from body_line [OF this] e show ?thesis by (simp only: ext_line_def)
qed

lemma tab_files:
  assumes "pgx_sanitize san" "plain_ddl di"
  shows "tab_ok (Files san (Names di)) (files_body di) (files_index san di)"
proof -
  let ?n = "Names di"
  have names: "plain (Schema ?n)" "plain (Prefix ?n @ TableFiles)" "clean (FilesBare ?n)"
    using assms(2) plain_append [of "Prefix ?n" TableFiles]
    by (simp_all add: plain_ddl_def FilesBare_def Bare_def clean_plain)
       (simp_all add: TableFiles_def ident_char_def is_lower_def less_eq_char_def clean_def)
  have tab: "clean (Files san ?n)"
    using clean_san(1) [OF assms(1) names(1,2)] by (simp add: Files_def Qualify_def)
  have parts: "\<forall>p \<in> set (Parts di). plain p" and exts: "\<forall>e \<in> set (Exts di). plain (de_name e) \<and> newline \<notin> set (de_type e)"
    using assms(2) by (simp_all add: plain_ddl_def)
  have "clean l \<and> has_prefix l ''    ''" if "l \<in> set (files_body di)" for l
  proof -
    have fixed: "list_all (\<lambda>l. clean l \<and> has_prefix l ''    '') [''    file_id              BIGSERIAL PRIMARY KEY,'',
      ''    s3_key               TEXT NOT NULL UNIQUE,'', ''    partition_key        TEXT NOT NULL,'',
      ''    file_size            BIGINT NOT NULL,'', ''    uncompressed_size    BIGINT NOT NULL,'',
      ''    record_count         BIGINT,'', ''    written_at_version   BIGINT,'',
      ''    written_at           TIMESTAMPTZ NOT NULL DEFAULT now(),'', ''    idempotency_token    TEXT,'',
      ''    feed_seq             BIGINT UNIQUE,'', ''    feed_seq_at          TIMESTAMPTZ'']" by code_simp
    have pad: "clean ''            TEXT NOT NULL,''" by (simp add: clean_def)
    have "clean l \<and> has_prefix l ''    ''" if "l \<in> set (comma_lines (''    feed_seq_at          TIMESTAMPTZ'' # map ext_line (Exts di)))"
      using that fixed by (rule_tac comma_lines_ok) (use ext_lines_ok [OF exts] in \<open>auto\<close>)
    then show ?thesis
      using that fixed part_lines_ok [OF parts pad] unfolding files_body_def set_append Un_iff list.set insert_iff list.pred_inject by blast
  qed
  moreover have "clean l \<and> \<not> has_prefix l create_prefix" if "l \<in> set (files_index san di)" for l
  proof -
    have lits: "list_all clean [''_partition_written_idx ON '', '' (partition_key, written_at);'', ''_written_at_idx ON '',
       '' (written_at);'', ''_feed_seq_idx ON '', '' (feed_seq) WHERE feed_seq IS NOT NULL;'', ''_seq_scan_idx ON '',
       '' (written_at, file_id) WHERE feed_seq IS NULL;'', ''CREATE UNIQUE INDEX IF NOT EXISTS '', ''_token_idx ON '',
       '' (partition_key, idempotency_token) WHERE idempotency_token IS NOT NULL;'']" by code_simp
    let ?tok = "''CREATE UNIQUE INDEX IF NOT EXISTS '' @ FilesBare ?n @ ''_token_idx ON '' @ Files san ?n
         @ '' (partition_key, idempotency_token) WHERE idempotency_token IS NOT NULL;''"
    have "clean ?tok" using lits names(3) tab by (simp only: clean_append list.pred_inject)
    moreover have "\<not> has_prefix ?tok create_prefix" by (simp add: has_prefix_def create_prefix_def)
    ultimately show ?thesis
      using that lits clean_index [OF names(3) _ tab] clean_part_index [OF names(3) tab parts]
      unfolding files_index_def Let_def set_append Un_iff list.set insert_iff list.pred_inject by blast
  qed
  ultimately show ?thesis using tab by (simp add: tab_ok_def)
qed

lemma tab_partitions:
  assumes "pgx_sanitize san" "plain_ddl di"
  shows "tab_ok (Partitions san (Names di)) (partitions_body di)
    (part_index (PartitionsBare (Names di)) (Partitions san (Names di)) (Parts di))"
proof -
  let ?n = "Names di"
  have names: "plain (Schema ?n)" "plain (Prefix ?n @ TablePartitions)" "clean (PartitionsBare ?n)"
    using assms(2) plain_append [of "Prefix ?n" TablePartitions]
    by (simp_all add: plain_ddl_def PartitionsBare_def Bare_def clean_plain)
       (simp_all add: TablePartitions_def ident_char_def is_lower_def less_eq_char_def clean_def)
  have tab: "clean (Partitions san ?n)"
    using clean_san(1) [OF assms(1) names(1,2)] by (simp add: Partitions_def Qualify_def)
  have parts: "\<forall>p \<in> set (Parts di). plain p" using assms(2) by (simp add: plain_ddl_def)
  have fixed: "list_all (\<lambda>l. clean l \<and> has_prefix l ''    '') [''    partition_key   TEXT PRIMARY KEY,'',
      ''    version         BIGINT NOT NULL DEFAULT 0,'', ''    file_count      INT NOT NULL DEFAULT 0,'',
      ''    updated_at      TIMESTAMPTZ NOT NULL DEFAULT now()'']" by code_simp
  have pad: "clean ''       TEXT NOT NULL,''" by (simp add: clean_def)
  have "clean l \<and> has_prefix l ''    ''" if "l \<in> set (partitions_body di)" for l
    using that fixed part_lines_ok [OF parts pad] unfolding partitions_body_def set_append Un_iff list.set insert_iff list.pred_inject by blast
  then show ?thesis using tab clean_part_index [OF names(3) tab parts] by (simp add: tab_ok_def)
qed

lemma tab_pending:
  assumes "pgx_sanitize san" "plain_ddl di"
  shows "tab_ok (PendingWrites san (Names di)) pending_body
    [index_line (PendingWritesBare (Names di)) ''_intended_idx ON '' (PendingWrites san (Names di)) '' (intended_at);'']"
proof -
  let ?n = "Names di"
  have names: "plain (Schema ?n)" "plain (Prefix ?n @ TablePendingWrites)" "clean (PendingWritesBare ?n)"
    using assms(2) plain_append [of "Prefix ?n" TablePendingWrites]
    by (simp_all add: plain_ddl_def PendingWritesBare_def Bare_def clean_plain)
       (simp_all add: TablePendingWrites_def ident_char_def is_lower_def less_eq_char_def clean_def)
  have tab: "clean (PendingWrites san ?n)"
    using clean_san(1) [OF assms(1) names(1,2)] by (simp add: PendingWrites_def Qualify_def)
  have fixed: "list_all (\<lambda>l. clean l \<and> has_prefix l ''    '') pending_body"
    and lits: "clean ''_intended_idx ON ''" "clean '' (intended_at);''" by code_simp+
  show ?thesis using tab fixed clean_index [OF names(3) lits(1) tab lits(2)] by (simp add: tab_ok_def list_all_iff)
qed

lemma tab_mv:
  assumes "pgx_sanitize san" "plain_ddl di" "mv \<in> set (MVs di)"
  shows "tab_ok (MV san (Names di) (dm_name mv)) (mv_body san mv) []"
proof -
  let ?n = "Names di"
  have mv: "plain (dm_name mv)" "\<forall>c \<in> set (dm_columns mv). plain c" using assms(2,3) by (simp_all add: plain_ddl_def)
  have names: "plain (Schema ?n)" "plain (Prefix ?n @ TableMVPrefix @ dm_name mv)"
    using assms(2) mv(1) by (simp_all add: plain_ddl_def plain_def)
       (simp add: TableMVPrefix_def ident_char_def is_lower_def less_eq_char_def)
  have tab: "clean (MV san ?n (dm_name mv))"
    using clean_san(1) [OF assms(1) names] by (simp add: MV_def Qualify_def)
  have cols: "clean (san [c])" if "c \<in> set (dm_columns mv)" for c
    using clean_san(2) [OF assms(1)] mv(2) that by blast
  have "clean (mv_key_line san (dm_columns mv)) \<and> has_prefix (mv_key_line san (dm_columns mv)) ''    ''"
  proof -
    have "clean (join comma_sep (map (\<lambda>c. san [c]) (dm_columns mv)))"
      using cols by (intro clean_join) (auto simp: clean_def)
    then have "clean (mv_key_line san (dm_columns mv))" by (simp only: mv_key_line_def clean_append) (simp add: clean_def)
    moreover have "has_prefix (mv_key_line san (dm_columns mv)) ''    ''" by (simp add: mv_key_line_def has_prefix_def)
    ultimately show ?thesis ..
  qed
  moreover have "clean (mv_line san c) \<and> has_prefix (mv_line san c) ''    ''" if "c \<in> set (dm_columns mv)" for c
  proof -
    have "clean (san [c] @ '' TEXT NOT NULL'')" using cols [OF that] by (simp only: clean_append) (simp add: clean_def)
    from body_line [OF this] show ?thesis by (simp only: mv_line_def)
  qed
  ultimately have "clean l \<and> has_prefix l ''    ''" if "l \<in> set (mv_body san mv)" for l
    using that unfolding mv_body_def by (rule_tac comma_lines_ok) auto
  then show ?thesis using tab by (simp add: tab_ok_def)
qed

text \<open>The whole DDL.\<close>

definition mv_lines :: "sanitizer \<Rightarrow> names \<Rightarrow> ddl_mv \<Rightarrow> string list" where
  "mv_lines san n mv = table_lines (MV san n (dm_name mv)) (mv_body san mv) []"

definition all_lines :: "sanitizer \<Rightarrow> ddl_input \<Rightarrow> string list" where
  "all_lines san di =
     table_lines (Files san (Names di)) (files_body di) (files_index san di) @ [[]]
     @ table_lines (Partitions san (Names di)) (partitions_body di)
         (part_index (PartitionsBare (Names di)) (Partitions san (Names di)) (Parts di)) @ [[]]
     @ table_lines (PendingWrites san (Names di)) pending_body
         [index_line (PendingWritesBare (Names di)) ''_intended_idx ON '' (PendingWrites san (Names di)) '' (intended_at);'']
     @ concat (map (\<lambda>mv. [] # mv_lines san (Names di) mv) (MVs di))"

lemma RenderAll_lines: "RenderAll san di = Inr text \<Longrightarrow> text = text_of (all_lines san di)"
proof -
  have m: "concat (map (\<lambda>mv. nl @ renderMV san n mv) mvs) = text_of (concat (map (\<lambda>mv. [] # mv_lines san n mv) mvs))" for n mvs
    by (induction mvs) (simp_all add: renderMV_lines mv_lines_def)
  assume "RenderAll san di = Inr text"
  then have "text = renderFiles san di @ nl @ renderPartitions san di @ nl @ renderPendingWrites san di
      @ concat (map (\<lambda>mv. nl @ renderMV san (Names di) mv) (MVs di))"
    by (auto simp: RenderAll_def split: sum.splits)
  also have "\<dots> = text_of (all_lines san di)"
    unfolding m renderFiles_lines renderPartitions_lines renderPendingWrites_lines all_lines_def
    by (simp only: text_of_append text_of_simps append_assoc append_Nil)
  finally show ?thesis .
qed

definition read_tables :: "ddl_input \<Rightarrow> (string \<times> string list) list" where
  "read_tables di =
     [(FilesBare (Names di), concat (map column_of_line (files_body di))),
      (PartitionsBare (Names di), concat (map column_of_line (partitions_body di))),
      (PendingWritesBare (Names di), [''s3_key'', ''intended_at''])]
     @ map (\<lambda>mv. (MVBare (Names di) (dm_name mv), dm_columns mv)) (MVs di)"

lemma read_mvs:
  assumes "pgx_sanitize san" "plain (Schema n)" "\<And>mv. mv \<in> set mvs \<Longrightarrow> tab_ok (MV san n (dm_name mv)) (mv_body san mv) []"
    and "\<And>mv. mv \<in> set mvs \<Longrightarrow> plain (MVBare n (dm_name mv)) \<and> (\<forall>c \<in> set (dm_columns mv). plain c)"
  shows "read_lines None (concat (map (\<lambda>mv. [] # mv_lines san n mv) mvs) @ [[]])
    = map (\<lambda>mv. (MVBare n (dm_name mv), dm_columns mv)) mvs"
  using assms(3,4)
proof (induction mvs)
  case (Cons mv mvs)
  have IH: "read_lines None (concat (map (\<lambda>mv. [] # mv_lines san n mv) mvs) @ [[]])
      = map (\<lambda>mv. (MVBare n (dm_name mv), dm_columns mv)) mvs"
    
  proof (rule Cons.IH)
    fix m assume "m \<in> set mvs"
    then have m: "m \<in> set (mv # mvs)" by simp
    from Cons.prems(1) [OF m] show "tab_ok (MV san n (dm_name m)) (mv_body san m) []" .
    from Cons.prems(2) [OF m] show "plain (MVBare n (dm_name m)) \<and> (\<forall>c \<in> set (dm_columns m). plain c)" .
  qed
  have e: "\<not> has_prefix [] create_prefix" by (simp add: has_prefix_def create_prefix_def)
  have hd: "table_of_line (create_prefix @ MV san n (dm_name mv) @ '' ('') = MVBare n (dm_name mv)"
    using table_line [OF assms(1,2)] Cons.prems(2) [of mv] by (simp add: MV_def Qualify_def MVBare_def)
  have cols: "concat (map column_of_line (mv_body san mv)) = dm_columns mv"
    using mv_columns_read [OF assms(1)] Cons.prems(2) [of mv] by simp
  have ok: "tab_ok (MV san n (dm_name mv)) (mv_body san mv) []" by (rule Cons.prems(1)) simp
  show ?case
    using read_table_lines [OF ok, of "concat (map (\<lambda>mv. [] # mv_lines san n mv) mvs) @ [[]]"] IH e
    by (simp only: mv_lines_def list.map concat.simps append_Cons append_Nil append_assoc read_lines.simps if_False hd cols)
qed (simp add: has_prefix_def create_prefix_def)

lemma read_blank: "read_lines None ([] # ls) = read_lines None ls"
  by (simp add: has_prefix_def create_prefix_def)

lemma plain_names:
  assumes "plain_ddl di"
  shows "plain (Schema (Names di))" "plain (FilesBare (Names di))" "plain (PartitionsBare (Names di))"
    "plain (PendingWritesBare (Names di))" "m \<in> set (MVs di) \<Longrightarrow> plain (MVBare (Names di) (dm_name m))"
proof -
  have t: "list_all ident_char TableFiles" "list_all ident_char TablePartitions" "list_all ident_char TablePendingWrites"
    "list_all ident_char TableMVPrefix" by code_simp+
  show "plain (Schema (Names di))" "plain (FilesBare (Names di))" "plain (PartitionsBare (Names di))"
    "plain (PendingWritesBare (Names di))" "m \<in> set (MVs di) \<Longrightarrow> plain (MVBare (Names di) (dm_name m))"
    using assms t
    by (auto simp: plain_ddl_def FilesBare_def PartitionsBare_def PendingWritesBare_def MVBare_def Bare_def plain_def)
qed

lemma read_all:
  assumes "pgx_sanitize san" "plain_ddl di"
  shows "read_lines None (all_lines san di @ [[]]) = read_tables di"
proof -
  let ?n = "Names di"
  note pn = plain_names [OF assms(2)]
  have hd: "table_of_line (create_prefix @ Files san ?n @ '' ('') = FilesBare ?n"
    "table_of_line (create_prefix @ Partitions san ?n @ '' ('') = PartitionsBare ?n"
    "table_of_line (create_prefix @ PendingWrites san ?n @ '' ('') = PendingWritesBare ?n"
    using table_line [OF assms(1) pn(1)] pn(2-4)
    by (simp_all add: Files_def Partitions_def PendingWrites_def Qualify_def FilesBare_def PartitionsBare_def
        PendingWritesBare_def Bare_def)
  have mvs: "read_lines None (concat (map (\<lambda>mv. [] # mv_lines san ?n mv) (MVs di)) @ [[]])
      = map (\<lambda>mv. (MVBare ?n (dm_name mv), dm_columns mv)) (MVs di)"
    using assms(2) pn(5) by (intro read_mvs assms(1) pn(1) tab_mv [OF assms]) (simp_all add: plain_ddl_def)
  show ?thesis
    unfolding all_lines_def read_tables_def append_assoc append_Cons append_Nil
    by (simp only: read_table_lines [OF tab_files [OF assms]] read_table_lines [OF tab_partitions [OF assms]]
        read_table_lines [OF tab_pending [OF assms]] read_blank hd mvs pending_columns)
qed

lemma clean_all_lines:
  assumes "pgx_sanitize san" "plain_ddl di" "l \<in> set (all_lines san di)"
  shows "newline \<notin> set l"
proof -
  have mv: "newline \<notin> set l" if "mv \<in> set (MVs di)" "l \<in> set (mv_lines san (Names di) mv)" for mv
    using clean_table_lines [OF tab_mv [OF assms(1,2)]] that unfolding mv_lines_def by blast
  show ?thesis
    using assms(3) mv clean_table_lines [OF tab_files [OF assms(1,2)]] clean_table_lines [OF tab_partitions [OF assms(1,2)]]
      clean_table_lines [OF tab_pending [OF assms(1,2)]]
    unfolding all_lines_def set_append Un_iff set_concat set_map UN_iff list.set by auto
qed

lemma read_RenderAll:
  assumes "pgx_sanitize san" "plain_ddl di" "RenderAll san di = Inr ddl"
  shows "read_ddl ddl = read_tables di"
proof -
  have "split_on newline (text_of (all_lines san di) @ []) = all_lines san di @ split_on newline []"
    by (rule split_text_of) (rule clean_all_lines [OF assms(1,2)])
  then show ?thesis using RenderAll_lines [OF assms(3)] read_all [OF assms(1,2)] by (simp add: read_ddl_def)
qed

section \<open>Valid configurations\<close>

text \<open>What \<open>allowedExtensionType\<close> lets through besides blanks around a type is a line break.\<close>

definition one_line_types :: "'a config \<Rightarrow> bool" where
  "one_line_types cfg \<longleftrightarrow> (\<forall>e \<in> set (cf_exts cfg). newline \<notin> set (ec_type e))"

lemma resolved_fields [simp]:
  "cf_parts (cfg_resolved cfg) = cf_parts cfg" "cf_exts (cfg_resolved cfg) = cf_exts cfg" "cf_mvs (cfg_resolved cfg) = cf_mvs cfg"
  by (simp_all add: cfg_resolved_def)

lemma plain_ddl_config:
  assumes "cfg_validate cfg = Inr ()" "one_line_types cfg"
  shows "plain_ddl (ddlInputFromConfig cfg)"
proof -
  note v = cfg_validD [OF assms(1)]
  show ?thesis
    using plain_schema [OF v(8)] plain_prefix [OF v(7)] v(2,3,5) assms(2)
    by (auto simp: plain_ddl_def ddlInputFromConfig_def Let_def NewNames_def one_line_types_def plain_ident)
qed

text \<open>The table names: no two the same, none over PostgreSQL's 63 bytes.\<close>

definition table_names :: "'a config \<Rightarrow> string list" where
  "table_names cfg = map fst (expectedSchema (cfg_resolved cfg))"

lemma table_names_conv:
  "table_names cfg = map (\<lambda>t. cf_prefix (cfg_resolved cfg) @ t) ([TableFiles, TablePartitions, TablePendingWrites]
     @ map (\<lambda>mv. TableMVPrefix @ cm_name mv) (cf_mvs cfg))"
  by (simp add: table_names_def expectedSchema_def Let_def NewNames_def FilesBare_def PartitionsBare_def
      PendingWritesBare_def MVBare_def Bare_def)

lemma names_distinct:
  assumes "cfg_validate cfg = Inr ()"
  shows "distinct (table_names cfg)"
proof -
  let ?ts = "[TableFiles, TablePartitions, TablePendingWrites] @ map (\<lambda>mv. TableMVPrefix @ cm_name mv) (cf_mvs cfg)"
  have "distinct (map (\<lambda>mv. TableMVPrefix @ cm_name mv) (cf_mvs cfg))"
    using cfg_validD(6) [OF assms] by (auto simp: distinct_map inj_on_def)
  moreover have "distinct [TableFiles, TablePartitions, TablePendingWrites]" by code_simp
  moreover have "TableFiles \<noteq> TableMVPrefix @ x \<and> TablePartitions \<noteq> TableMVPrefix @ x \<and> TablePendingWrites \<noteq> TableMVPrefix @ x" for x
    by (simp add: TableMVPrefix_def TableFiles_def TablePartitions_def TablePendingWrites_def)
  ultimately have "distinct ?ts" by auto
  then show ?thesis unfolding table_names_conv distinct_map by (simp only: inj_on_def append_same_eq same_append_eq simp_thms ball_simps) simp
qed

lemma names_short:
  assumes "cfg_validate cfg = Inr ()" "t \<in> set (table_names cfg)"
  shows "length t \<le> 63"
proof -
  have p: "length (cf_prefix (cfg_resolved cfg)) \<le> 21" using valid_prefix_length [OF cfg_validD(7) [OF assms(1)]] ..
  have l: "length TableFiles \<le> 42" "length TablePartitions \<le> 42" "length TablePendingWrites \<le> 42" "length TableMVPrefix = 3"
    by code_simp+
  have m: "length (cm_name mv) \<le> 30" if "mv \<in> set (cf_mvs cfg)" for mv
    using cfg_validD(5) [OF assms(1) that] validIdent_length by blast
  show ?thesis using assms(2) p l m unfolding table_names_conv by (fastforce simp: image_iff)
qed

lemma list_all2_in: "list_all2 P xs ys \<Longrightarrow> x \<in> set xs \<Longrightarrow> \<exists>y \<in> set ys. P x y"
  by (induction xs ys rule: list_all2_induct) auto

text \<open>The tables \<open>Create\<close> leaves behind.\<close>

lemma create_tables_other: "t \<notin> set (map fst ts) \<Longrightarrow> create_tables ts info t = info t"
  by (induction ts info rule: create_tables.induct) auto

lemma create_tables_new:
  "distinct (map fst ts) \<Longrightarrow> (t, cols) \<in> set ts \<Longrightarrow> info t = None \<Longrightarrow> create_tables ts info t = Some (set cols)"
proof (induction ts info rule: create_tables.induct)
  case (2 t' cols' ts info)
  show ?case
  proof (cases "t = t'")
    case True
    with 2(2,3) have "cols' = cols" by (auto simp: rev_image_eqI)
    with True 2(2,4) show ?thesis by (simp add: create_tables_other)
  next
    case False
    with 2 show ?thesis by auto
  qed
qed simp

lemma missing_none:
  "(\<And>t cols. (t, cols) \<in> set ts \<Longrightarrow> \<exists>cs. info t = Some cs \<and> set cols \<subseteq> cs) \<Longrightarrow> missing_loop info ts = []"
proof (induction info ts rule: missing_loop.induct)
  case (2 info t columns ts)
  obtain cs where "info t = Some cs" "set columns \<subseteq> cs" using 2(3) [of t columns] by auto
  moreover have "missing_loop info ts = []" using 2 calculation(1) by (auto simp: tableExists_def)
  ultimately show ?case by (auto simp: tableExists_def tableColumns_def filter_empty_conv)
qed simp

lemma missing_noneD:
  "missing_loop info ts = [] \<Longrightarrow> (t, cols) \<in> set ts \<Longrightarrow> \<exists>cs. info t = Some cs \<and> set cols \<subseteq> cs"
  by (induction info ts rule: missing_loop.induct)
     (auto simp: tableExists_def tableColumns_def filter_empty_conv split: if_splits)

text \<open>The expectation and the DDL, table by table: the same names, the same sets of columns.\<close>

lemma expected_read:
  assumes "plain_ddl (ddlInputFromConfig cfg)"
  shows "map fst (read_tables (ddlInputFromConfig cfg)) = table_names cfg"
    "list_all2 (\<lambda>(t, cs) (t', cs'). t = t' \<and> set cs = set cs') (expectedSchema (cfg_resolved cfg)) (read_tables (ddlInputFromConfig cfg))"
proof -
  let ?di = "ddlInputFromConfig cfg"
  have di: "Names ?di = NewNames (cf_schema (cfg_resolved cfg)) (cf_prefix (cfg_resolved cfg))" "Parts ?di = cf_parts cfg"
    "Exts ?di = map (\<lambda>e. \<lparr>de_name = ec_name e, de_type = ec_type e\<rparr>) (cf_exts cfg)"
    "MVs ?di = map (\<lambda>mv. \<lparr>dm_name = cm_name mv, dm_columns = cm_columns mv\<rparr>) (cf_mvs cfg)"
    by (simp_all add: ddlInputFromConfig_def Let_def)
  show "map fst (read_tables ?di) = table_names cfg"
    by (simp add: read_tables_def table_names_def expectedSchema_def Let_def di)
  have mv: "list_all2 (\<lambda>(t, cs) (t', cs'). t = t' \<and> set cs = set cs') (map (\<lambda>mv. (f mv, g mv)) mvs) (map (\<lambda>mv. (f mv, g mv)) mvs)"
    for f :: "'a cfg_mv \<Rightarrow> string" and g :: "'a cfg_mv \<Rightarrow> string list" and mvs
    by (induction mvs) auto
  show "list_all2 (\<lambda>(t, cs) (t', cs'). t = t' \<and> set cs = set cs') (expectedSchema (cfg_resolved cfg)) (read_tables ?di)"
    unfolding expectedSchema_def read_tables_def Let_def files_columns [OF assms] partitions_columns [OF assms] di
    by (simp add: mv comp_def) auto
qed

section \<open>The properties of the schema\<close>

lemma Create_Inr:
  assumes "pgx_sanitize san" "one_line_types cfg" "Create san cfg None info = (Inr (), info')"
  shows "cfg_validate cfg = Inr () \<and> info' = create_tables (read_tables (ddlInputFromConfig cfg)) info"
proof -
  obtain ddl where d: "RenderDDL san cfg = Inr ddl" "info' = create_tables (read_ddl ddl) info"
    using assms(3) by (auto simp: Create_def split: sum.splits)
  then have v: "cfg_validate cfg = Inr ()" "RenderAll san (ddlInputFromConfig cfg) = Inr ddl"
    by (auto simp: RenderDDL_def split: sum.splits)
  from read_RenderAll [OF assms(1) plain_ddl_config [OF v(1) assms(2)] v(2)] d(2) v(1) show ?thesis by simp
qed

text \<open>C22.  The DDL and the schema check, which are written in different files, agree: once
  \<open>Create\<close> succeeded on a schema that has none of the store's tables, \<open>Validate\<close> finds nothing
  missing, whatever tables the schema had before and whatever partition keys, extension columns
  and materialized views the configuration declares.\<close>

theorem Create_then_Validate:
  assumes "pgx_sanitize san" "one_line_types cfg"
    and "\<forall>t \<in> set (table_names cfg). info t = None"
    and "Create san cfg None info = (Inr (), info')"
  shows "Validate cfg None info' = Inr ()"
proof -
  let ?rt = "read_tables (ddlInputFromConfig cfg)" and ?ex = "expectedSchema (cfg_resolved cfg)"
  from Create_Inr [OF assms(1,2,4)] have v: "cfg_validate cfg = Inr ()" and i: "info' = create_tables ?rt info" by auto
  note r = expected_read [OF plain_ddl_config [OF v assms(2)]]
  have "\<exists>cs. info' t = Some cs \<and> set cols \<subseteq> cs" if tc: "(t, cols) \<in> set ?ex" for t cols
  proof -
    obtain cols' where c: "(t, cols') \<in> set ?rt" "set cols = set cols'"
      using list_all2_in [OF r(2) tc] by auto
    moreover have "info t = None" using assms(3) tc unfolding table_names_def by force
    ultimately have "info' t = Some (set cols')"
      using create_tables_new [of ?rt t cols' info] r(1) names_distinct [OF v] i by simp
    with c(2) show ?thesis by simp
  qed
  then have "missing_loop info' ?ex = []" by (rule missing_none)
  with v show ?thesis by (simp add: Validate_def)
qed

definition example_config :: "string config" where
  "example_config = \<lparr>cf_executor = True, cf_s3_bucket = ''b'', cf_s3_prefix = ''p'', cf_s3_client = True,
     cf_schema = [], cf_prefix = ''app_'', cf_parts = [''period'', ''customer''], cf_partition_key_of = Some (\<lambda>r. r),
     cf_exts = [\<lparr>ec_name = ''region'', ec_type = ''text''\<rparr>],
     cf_mvs = [\<lparr>cm_name = ''by_sku'', cm_columns = [''sku''], cm_of = Some (\<lambda>r. Inr [[r]])\<rparr>],
     cf_entity_key_of = None, cf_version_of = None, cf_inserted_at_field = [], cf_compression = CompressionDefault,
     cf_encode_buf_max = 0, cf_notify_channel = []\<rparr>"

definition other_tables :: info_schema where
  "other_tables = [''elsewhere'' \<mapsto> {''id''}]"

lemma example_config_ok: "cfg_validate example_config = Inr ()" "one_line_types example_config"
  by code_simp+

lemma Create_returns:
  assumes "cfg_validate cfg = Inr ()" "validateDDLInput (ddlInputFromConfig cfg) = Inr ()"
  shows "\<exists>info'. Create san cfg None info = (Inr (), info')"
  using assms by (simp add: Create_def RenderDDL_def RenderAll_def)

lemma Create_then_Validate_witness:
  "Validate example_config None (snd (Create plain_sanitizer example_config None other_tables)) = Inr ()"
proof -
  have v: "validateDDLInput (ddlInputFromConfig example_config) = Inr ()" by code_simp
  obtain info' where i: "Create plain_sanitizer example_config None other_tables = (Inr (), info')"
    using Create_returns [OF example_config_ok(1) v] by blast
  have "list_all (\<lambda>t. other_tables t = None) (table_names example_config)" by code_simp
  then have "\<forall>t \<in> set (table_names example_config). other_tables t = None" by (simp only: list_all_iff)
  from Create_then_Validate [OF plain_sanitizer_ok example_config_ok(2) this i] show ?thesis by (simp add: i)
qed

text \<open>The name limits do what their comments promise: in an accepted configuration every
  table name, prefix and reserved word included, fits PostgreSQL's 63 bytes, so that none is
  truncated, and no two of the tables share a name, views and fixed tables alike.\<close>

theorem valid_names_bounded:
  assumes "cfg_validate cfg = Inr ()"
  shows "distinct (table_names cfg) \<and> (\<forall>t \<in> set (table_names cfg). t \<noteq> [] \<and> length t \<le> 63)"
proof -
  have "t \<noteq> []" if "t \<in> set (table_names cfg)" for t
    using that valid_prefix_length [OF cfg_validD(7) [OF assms]] by (auto simp: table_names_conv)
  then show ?thesis using names_distinct [OF assms] names_short [OF assms] by blast
qed

lemma valid_names_bounded_witness:
  "distinct (table_names example_config) \<and> length (table_names example_config) = 4"
  using valid_names_bounded [OF example_config_ok(1)] by (simp add: table_names_conv example_config_def cfg_resolved_def)

lemma not_part: "take 5 x \<noteq> ''part_'' \<Longrightarrow> x \<notin> (\<lambda>p. PartColumnPrefix @ p) ` A"
  by (auto simp: PartColumnPrefix_def)

lemma not_ext: "take 4 x \<noteq> ''ext_'' \<Longrightarrow> x \<notin> (\<lambda>e. ExtColumnPrefix @ f e) ` A"
  by (auto simp: ExtColumnPrefix_def)

lemma part_not_ext: "(\<lambda>p. PartColumnPrefix @ p) ` A \<inter> (\<lambda>e. ExtColumnPrefix @ f e) ` B = {}"
  by (auto simp: PartColumnPrefix_def ExtColumnPrefix_def)

lemma read_columns_distinct:
  assumes "cfg_validate cfg = Inr ()" "one_line_types cfg"
  shows "(\<forall>(t, cols) \<in> set (read_tables (ddlInputFromConfig cfg)). distinct cols) \<longleftrightarrow> distinct (cf_parts cfg)"
proof -
  let ?di = "ddlInputFromConfig cfg"
  note v = cfg_validD [OF assms(1)]
  have di: "Parts ?di = cf_parts cfg" "map de_name (Exts ?di) = map ec_name (cf_exts cfg)"
    "\<forall>m \<in> set (MVs ?di). distinct (dm_columns m)"
    using v(5) by (simp_all add: ddlInputFromConfig_def Let_def comp_def)
  have ps: "distinct (map (\<lambda>p. PartColumnPrefix @ p) (cf_parts cfg)) \<longleftrightarrow> distinct (cf_parts cfg)"
    by (auto simp: distinct_map inj_on_def)
  have "distinct (map (\<lambda>n. ExtColumnPrefix @ n) (map de_name (Exts ?di)))"
    using v(4) by (subst distinct_map) (auto simp: inj_on_def di(2))
  then have es: "distinct (map (\<lambda>e. ExtColumnPrefix @ de_name e) (Exts ?di))" by (simp add: comp_def)
  note c = files_columns [OF plain_ddl_config [OF assms]] partitions_columns [OF plain_ddl_config [OF assms]]
  have f: "distinct (concat (map column_of_line (files_body ?di))) \<longleftrightarrow> distinct (cf_parts cfg)"
    unfolding c(1) di(1) by (simp only: distinct_append ps es) (simp add: not_part not_ext part_not_ext)
  have p: "distinct (concat (map column_of_line (partitions_body ?di))) \<longleftrightarrow> distinct (cf_parts cfg)"
    using ps unfolding c(2) di(1) by (simp add: not_part)
  show ?thesis using f p di(3) by (auto simp: read_tables_def)
qed

text \<open>The rendered DDL declares every column of every table once exactly when the
  partition-key parts are distinct.  \<open>validate\<close> rejects duplicate extension columns, duplicate views
  and duplicate view columns, but not a part that is declared twice: that configuration is
  accepted, and its DDL declares the part's column twice in \<open>files\<close> and \<open>partitions\<close>.\<close>

theorem RenderDDL_columns_distinct:
  assumes "pgx_sanitize san" "one_line_types cfg" "RenderDDL san cfg = Inr ddl"
  shows "(\<forall>(t, cols) \<in> set (read_ddl ddl). distinct cols) \<longleftrightarrow> distinct (cf_parts cfg)"
proof -
  from assms(3) have v: "cfg_validate cfg = Inr ()" "RenderAll san (ddlInputFromConfig cfg) = Inr ddl"
    by (auto simp: RenderDDL_def split: sum.splits)
  show ?thesis
    using read_RenderAll [OF assms(1) plain_ddl_config [OF v(1) assms(2)] v(2)] read_columns_distinct [OF v(1) assms(2)]
    by simp
qed

definition twice_config :: "string config" where
  "twice_config = example_config\<lparr>cf_parts := [''period'', ''period'']\<rparr>"

lemma RenderDDL_columns_distinct_witness:
  "\<exists>ddl. RenderDDL plain_sanitizer twice_config = Inr ddl \<and> \<not> (\<forall>(t, cols) \<in> set (read_ddl ddl). distinct cols)"
proof -
  have v: "cfg_validate twice_config = Inr ()" "one_line_types twice_config"
    "validateDDLInput (ddlInputFromConfig twice_config) = Inr ()" by code_simp+
  obtain ddl where d: "RenderDDL plain_sanitizer twice_config = Inr ddl"
    using v(1,3) by (simp add: RenderDDL_def RenderAll_def)
  have "\<not> distinct (cf_parts twice_config)" by code_simp
  with RenderDDL_columns_distinct [OF plain_sanitizer_ok v(2) d] d show ?thesis by blast
qed

end
