(* ===== verification/Store_New.thy ===== *)
theory Store_New
  imports Schema_Correct
begin

text \<open>
  \<open>New\<close> of \<open>store.go\<close>: the construction of a store from a configuration, with its cache of rendered
  statements.  The worker pool and the metrics registry are other packages: whether they fail is
  an input.
\<close>

section \<open>The codec\<close>

datatype codec = Snappy | Zstd | Gzip | Uncompressed

definition resolveCompression :: "compression \<Rightarrow> int + codec" where
  "resolveCompression c =
     (case c of
        CompressionDefault \<Rightarrow> Inr Snappy
      | CompressionSnappy \<Rightarrow> Inr Snappy
      | CompressionZstd \<Rightarrow> Inr Zstd
      | CompressionGzip \<Rightarrow> Inr Gzip
      | CompressionUncompressed \<Rightarrow> Inr Uncompressed
      | CompressionUnknown i \<Rightarrow> Inl i)"

definition defaultEncodeBufPoolMaxBytes :: int where
  "defaultEncodeBufPoolMaxBytes = push_bit 20 48"

section \<open>The store\<close>

record sqlCache =
  sc_filesInsert :: string
  sc_filesQuery :: select_query
  sc_idempotencyLookup :: string
  sc_pollFiles :: string
  sc_offsetLatest :: string
  sc_offsetAt :: string
  sc_pollLag :: string
  sc_partitionUpsertExpect :: string
  sc_partitionUpsertNoExpect :: string
  sc_partitionUpdateOCC :: string
  sc_pendingWriteInsert :: string
  sc_pendingWritesDepth :: string
  sc_pendingWriteDelete :: string
  sc_mvInserts :: "(string \<times> string) list"

record s3target =
  t_bucket :: string
  t_prefix :: string

record 'a Store =
  so_cfg :: "'a config"
  so_resolved :: "'a config"
  so_names :: names
  so_target :: s3target
  so_codec :: codec
  so_buf_cap :: int
  so_sql :: sqlCache

datatype new_error =
    Nw_config "config_error list"
  | Nw_compression int
  | Nw_schema schema_error
  | Nw_metrics string
  | Nw_target string
  | Nw_pool string

text \<open>The map of the views' INSERT statements; an entry is replaced when a name comes again.\<close>

definition mv_inserts :: "sanitizer \<Rightarrow> names \<Rightarrow> 'a cfg_mv list \<Rightarrow> (string \<times> string) list" where
  "mv_inserts san n mvs = fold (\<lambda>mv m. map_put (cm_name mv) (MVInsertSQL san n (cm_name mv) (cm_columns mv)) m) mvs []"

definition sql_cache :: "sanitizer \<Rightarrow> 'a config \<Rightarrow> 'a config \<Rightarrow> sqlCache" where
  "sql_cache san cfg r =
     (let n = NewNames (cf_schema r) (cf_prefix r);
          extNames = map ec_name (cf_exts r)
      in \<lparr>sc_filesInsert = FilesInsertSQL san n (cf_parts r) extNames,
          sc_filesQuery = FilesQuerySQL san n extNames,
          sc_idempotencyLookup = IdempotencyLookupSQL san n extNames,
          sc_pollFiles = PollFilesSQL san n extNames,
          sc_offsetLatest = OffsetLatestSQL san n,
          sc_offsetAt = OffsetAtSQL san n,
          sc_pollLag = PollLagSQL san n,
          sc_partitionUpsertExpect = PartitionUpsertSQL san n (cf_parts r) True,
          sc_partitionUpsertNoExpect = PartitionUpsertSQL san n (cf_parts r) False,
          sc_partitionUpdateOCC = PartitionUpdateOCCSQL san n,
          sc_pendingWriteInsert = PendingWriteInsertSQL san n,
          sc_pendingWritesDepth = PendingWritesDepthSQL san n,
          sc_pendingWriteDelete = PendingWriteDeleteSQL san n,
          sc_mvInserts = mv_inserts san n (cf_mvs cfg)\<rparr>)"

definition newS3Target :: "'a config \<Rightarrow> string + s3target" where
  "newS3Target r =
     (if \<not> cf_s3_client r then Inl ''s3target: S3Client required''
      else if cf_s3_bucket r = [] then Inl ''s3target: S3Bucket required''
      else Inr \<lparr>t_bucket = cf_s3_bucket r, t_prefix = cf_s3_prefix r\<rparr>)"

definition New :: "sanitizer \<Rightarrow> 'a config \<Rightarrow> sql_error option \<Rightarrow> info_schema \<Rightarrow> string option \<Rightarrow> string option \<Rightarrow> new_error + 'a Store" where
  "New san cfg fail info metrics_err pool_err =
     (case cfg_validate cfg of
        Inl e \<Rightarrow> Inl (Nw_config e)
      | Inr _ \<Rightarrow>
          (let r = cfg_resolved cfg in
           case resolveCompression (cf_compression r) of
             Inl i \<Rightarrow> Inl (Nw_compression i)
           | Inr codec \<Rightarrow>
               (let bufCap = (if cf_encode_buf_max r = 0 then defaultEncodeBufPoolMaxBytes else cf_encode_buf_max r) in
                case Validate cfg fail info of
                  Inl e \<Rightarrow> Inl (Nw_schema e)
                | Inr _ \<Rightarrow>
                    (case metrics_err of
                       Some e \<Rightarrow> Inl (Nw_metrics e)
                     | None \<Rightarrow>
                         (case newS3Target r of
                            Inl e \<Rightarrow> Inl (Nw_target e)
                          | Inr target \<Rightarrow>
                              (case pool_err of
                                 Some e \<Rightarrow> Inl (Nw_pool e)
                               | None \<Rightarrow>
                                   Inr \<lparr>so_cfg = cfg, so_resolved = r, so_names = NewNames (cf_schema r) (cf_prefix r),
                                        so_target = target, so_codec = codec, so_buf_cap = bufCap,
                                        so_sql = sql_cache san cfg r\<rparr>))))))"

section \<open>What a constructed store is\<close>

lemma mv_inserts_fold:
  "distinct (map cm_name mvs) \<Longrightarrow>
   map_of (fold (\<lambda>mv m. map_put (cm_name mv) (f mv) m) mvs m0) x
     = (case find (\<lambda>mv. cm_name mv = x) mvs of Some mv \<Rightarrow> Some (f mv) | None \<Rightarrow> map_of m0 x)"
proof (induction mvs arbitrary: m0)
  case (Cons mv mvs)
  have "find (\<lambda>mv'. cm_name mv' = cm_name mv) mvs = None"
    unfolding find_None_iff using Cons.prems by (metis (mono_tags) distinct.simps(2) image_eqI list.set_map list.simps(9))
  with Cons show ?case by (auto simp: map_of_put split: option.splits)
qed simp

lemma mv_inserts_declared:
  assumes "distinct (map cm_name mvs)" "mv \<in> set mvs"
  shows "map_of (mv_inserts san n mvs) (cm_name mv) = Some (MVInsertSQL san n (cm_name mv) (cm_columns mv))"
proof -
  have "find (\<lambda>x. cm_name x = cm_name mv) mvs = Some mv"
    using assms by (induction mvs) (auto simp: rev_image_eqI)
  then show ?thesis using mv_inserts_fold [OF assms(1), of "\<lambda>mv. MVInsertSQL san n (cm_name mv) (cm_columns mv)" "[]" "cm_name mv"]
    by (simp add: mv_inserts_def)
qed

lemma New_Inr:
  assumes "New san cfg fail info me pe = Inr st"
  shows "cfg_validate cfg = Inr ()" "Validate cfg fail info = Inr ()" "so_resolved st = cfg_resolved cfg"
    "so_sql st = sql_cache san cfg (cfg_resolved cfg)" "so_names st = NewNames (cf_schema (cfg_resolved cfg)) (cf_prefix (cfg_resolved cfg))"
    "so_buf_cap st = (if cf_encode_buf_max cfg = 0 then defaultEncodeBufPoolMaxBytes else cf_encode_buf_max cfg)"
    "fail = None"
  using assms by (auto simp: New_def Let_def Validate_def cfg_resolved_def split: sum.splits option.splits)

lemma Validate_Inr: "Validate cfg None info = Inr () \<Longrightarrow> missing_loop info (expectedSchema (cfg_resolved cfg)) = []"
  by (auto simp: Validate_def Let_def split: sum.splits if_splits)

text \<open>C23.  A store that \<open>New\<close> returned can run: its configuration is valid, every table it will name
  exists with every column its statements use, the cap of its pooled buffers is positive, and the
  statement cached under the name of a declared view is the INSERT of that view's own columns.\<close>

theorem New_ready:
  assumes "New san cfg fail info me pe = Inr st"
  shows "(\<forall>(t, cols) \<in> set (expectedSchema (so_resolved st)). \<exists>cs. info t = Some cs \<and> set cols \<subseteq> cs)
    \<and> so_buf_cap st > 0
    \<and> (\<forall>mv \<in> set (cf_mvs cfg). map_of (sc_mvInserts (so_sql st)) (cm_name mv)
          = Some (MVInsertSQL san (so_names st) (cm_name mv) (cm_columns mv)))"
proof -
  note n = New_Inr [OF assms]
  have cap: "so_buf_cap st > 0"
    using n(1,6) by (auto simp: cfg_validate_def cfg_errors_def defaultEncodeBufPoolMaxBytes_def split: if_splits)
  have "missing_loop info (expectedSchema (cfg_resolved cfg)) = []" using n(2,7) Validate_Inr by blast
  then have tabs: "\<forall>(t, cols) \<in> set (expectedSchema (so_resolved st)). \<exists>cs. info t = Some cs \<and> set cols \<subseteq> cs"
    using missing_noneD n(3) by fastforce
  have "\<forall>mv \<in> set (cf_mvs cfg). map_of (sc_mvInserts (so_sql st)) (cm_name mv)
          = Some (MVInsertSQL san (so_names st) (cm_name mv) (cm_columns mv))"
    using mv_inserts_declared [OF cfg_validD(6) [OF n(1)]] n(4,5) by (simp add: sql_cache_def Let_def)
  with cap tabs show ?thesis by blast
qed

lemma New_ready_witness:
  "\<exists>st. New plain_sanitizer example_config None
     [''app_files'' \<mapsto> {''file_id'', ''partition_key'', ''s3_key'', ''feed_seq'', ''feed_seq_at'', ''written_at_version'',
        ''idempotency_token'', ''file_size'', ''uncompressed_size'', ''record_count'', ''written_at'', ''part_period'',
        ''part_customer'', ''ext_region''},
      ''app_partitions'' \<mapsto> {''partition_key'', ''version'', ''file_count'', ''updated_at'', ''part_period'', ''part_customer''},
      ''app_pending_writes'' \<mapsto> {''s3_key'', ''intended_at''}, ''app_mv_by_sku'' \<mapsto> {''sku''}] None None = Inr st
     \<and> so_buf_cap st > 0"
  (is "\<exists>st. New plain_sanitizer example_config None ?info None None = Inr st \<and> _")
proof -
  have v: "Validate example_config None ?info = Inr ()" by code_simp
  have t: "newS3Target (cfg_resolved example_config) = Inr \<lparr>t_bucket = ''b'', t_prefix = ''p''\<rparr>" by code_simp
  have c: "resolveCompression (cf_compression (cfg_resolved example_config)) = Inr Snappy" by code_simp
  obtain st where s: "New plain_sanitizer example_config None ?info None None = Inr st"
    unfolding New_def Let_def example_config_ok(1) v t c by simp
  from New_ready [OF s] s show ?thesis by blast
qed

end
