(* ===== verification/Iter_Shared.thy ===== *)
theory Iter_Shared
  imports Go_Prelude
begin

text \<open>
  \<open>iter_pipeline_shared.go\<close>: what the read and the poll pipeline share, as functions on the state
  they change (the slot count, the byte counter of a worker, the cause of the cancellation), and
  the round-robin arithmetic of both pipelines.  A primitive that can block is a function to an
  option: \<open>None\<close> while it blocks.
\<close>

section \<open>Errors and cancellation\<close>

text \<open>An error of a pipeline; the last two are those \<open>errors.Is\<close> takes for a context error.\<close>

datatype pipe_error = Pipe_error string | Ctx_canceled | Ctx_deadline

definition isCtx :: "pipe_error \<Rightarrow> bool" where
  "isCtx e \<longleftrightarrow> (case e of Pipe_error _ \<Rightarrow> False | Ctx_canceled \<Rightarrow> True | Ctx_deadline \<Rightarrow> True)"

text \<open>\<open>context.Cause\<close>; the first cancel wins (\<open>recordHardErr\<close>).\<close>

type_synonym cause = "pipe_error option"

definition recordHardErr :: "pipe_error \<Rightarrow> cause \<Rightarrow> cause" where
  "recordHardErr e c = (case c of None \<Rightarrow> Some e | Some _ \<Rightarrow> c)"

definition record_unless_ctx :: "pipe_error \<Rightarrow> cause \<Rightarrow> cause" where
  "record_unless_ctx e c = (if isCtx e then c else recordHardErr e c)"

text \<open>\<open>waitOrCancel\<close>: blocked, or the cause.\<close>

definition waitOrCancel :: "cause \<Rightarrow> bool \<Rightarrow> cause option" where
  "waitOrCancel c finished = (if finished \<or> c \<noteq> None then Some c else None)"

section \<open>bodySlots\<close>

text \<open>The occupancy of the slot channel.  \<open>None\<close> blocks; \<open>cancelled\<close> is the context of the caller,
  and \<open>Some None\<close> is the return of its error.\<close>

definition slot_acquire :: "nat \<Rightarrow> nat \<Rightarrow> nat option" where
  "slot_acquire cap occ = (if occ < cap then Some (occ + 1) else None)"

definition slot_release :: "nat \<Rightarrow> nat option" where
  "slot_release occ = (if occ > 0 then Some (occ - 1) else None)"

section \<open>The byte budget of a worker\<close>

datatype reservation = Reserved int | Reserve_failed pipe_error | Reserve_blocks

definition reserveBytes :: "cause \<Rightarrow> int \<Rightarrow> int \<Rightarrow> int \<Rightarrow> reservation" where
  "reserveBytes c uncomp cap buffered =
     (if cap \<le> 0 \<or> uncomp \<le> 0 then (case c of None \<Rightarrow> Reserved buffered | Some e \<Rightarrow> Reserve_failed e)
      else if buffered \<le> 0 \<or> buffered + uncomp \<le> cap then Reserved (buffered + uncomp)
      else case c of Some e \<Rightarrow> Reserve_failed e | None \<Rightarrow> Reserve_blocks)"

definition releaseBytes :: "int \<Rightarrow> int \<Rightarrow> int" where
  "releaseBytes uncomp buffered = (if uncomp \<le> 0 then buffered else buffered - uncomp)"

text \<open>\<open>sendBatch\<close> on a queue of capacity \<open>cap\<close>: room, or the cancellation once it is full.\<close>

datatype 'b send = Sent "'b list" | Send_cancelled | Send_blocks

definition sendBatch :: "cause \<Rightarrow> nat \<Rightarrow> 'b list \<Rightarrow> 'b \<Rightarrow> 'b send" where
  "sendBatch c cap q b =
     (if length q < cap then Sent (q @ [b]) else if c \<noteq> None then Send_cancelled else Send_blocks)"

text \<open>One tick of the watchdog: whether it warns.\<close>

definition stallTickInterval :: int where "stallTickInterval = 30 * 1000000000"
definition stallThreshold :: int where "stallThreshold = 60 * 1000000000"

definition observer_warns :: "int \<Rightarrow> int \<Rightarrow> nat \<Rightarrow> int \<Rightarrow> bool" where
  "observer_warns threshold last_progress occ now =
     (if last_progress = 0 then False else if occ = 0 then False
      else if now - last_progress < threshold then False else True)"

section \<open>Facts\<close>

lemma recordHardErr_simps [simp]:
  "recordHardErr e None = Some e" "recordHardErr e (Some c) = Some c" "recordHardErr e d \<noteq> None"
  by (auto simp: recordHardErr_def split: option.splits)

lemma recorded [simp]: "\<exists>y. recordHardErr e d = Some y"
  by (cases d) simp_all

lemma isCtx_simps [simp]: "\<not> isCtx (Pipe_error m)" "isCtx Ctx_canceled" "isCtx Ctx_deadline"
  by (simp_all add: isCtx_def)

lemma record_cause [simp]:
  "record_unless_ctx e (Some c) = Some c" "record_unless_ctx (Pipe_error m) d \<noteq> None"
  "record_unless_ctx e c' = None \<longleftrightarrow> c' = None \<and> isCtx e"
  by (auto simp: record_unless_ctx_def isCtx_def recordHardErr_def split: option.splits)

lemma recorded_cause [simp]: "c \<noteq> None \<Longrightarrow> record_unless_ctx e c \<noteq> None"
  by (auto simp: record_unless_ctx_def)

lemma slot_simps [simp]:
  "slot_acquire cap occ = Some n \<longleftrightarrow> occ < cap \<and> n = Suc occ"
  "slot_release occ = Some n \<longleftrightarrow> 0 < occ \<and> n = occ - 1"
  by (auto simp: slot_acquire_def slot_release_def)

lemma reserve_empty: "0 \<le> uncomp \<Longrightarrow> \<exists>b. reserveBytes None uncomp cap 0 = Reserved b"
  by (simp add: reserveBytes_def)

lemma reserve_cancelled: "reserveBytes (Some c) uncomp cap b \<noteq> Reserve_blocks"
  by (simp add: reserveBytes_def)

lemma reserve_bytes:
  "reserveBytes c uncomp cap b = Reserved b' \<Longrightarrow> cap > 0 \<Longrightarrow> b' = b + max uncomp 0"
  by (auto simp: reserveBytes_def split: if_splits option.splits)

lemma release_bytes: "releaseBytes uncomp b = b - max uncomp 0"
  by (auto simp: releaseBytes_def)

section \<open>Round robin\<close>

text \<open>The work units of worker \<open>w\<close> of \<open>W\<close> in \<open>[a, b)\<close>, in order.\<close>

definition lane :: "nat \<Rightarrow> nat \<Rightarrow> nat \<Rightarrow> nat \<Rightarrow> nat list" where
  "lane W w a b = filter (\<lambda>i. i mod W = w) [a..<b]"

lemma lane_empty [simp]: "b \<le> a \<Longrightarrow> lane W w a b = []"
  by (simp add: lane_def)

lemma lane_set: "i \<in> set (lane W w a b) \<longleftrightarrow> a \<le> i \<and> i < b \<and> i mod W = w"
  by (auto simp: lane_def)

lemma lane_first: "a < b \<Longrightarrow> lane W w a b = (if a mod W = w then a # lane W w (Suc a) b else lane W w (Suc a) b)"
  by (simp add: lane_def upt_conv_Cons)

lemma lane_last: "a \<le> b \<Longrightarrow> lane W w a (Suc b) = lane W w a b @ (if b mod W = w then [b] else [])"
  by (simp add: lane_def)

text \<open>The next unit of the lane is \<open>W\<close> further on.\<close>

lemma lane_gap: "n mod W = w \<Longrightarrow> k < W \<Longrightarrow> a \<le> Suc n \<Longrightarrow> lane W w a (Suc (n + k)) = lane W w a (Suc n)"
proof (induction k)
  case (Suc k)
  have "(n + Suc k) mod W \<noteq> w"
  proof
    assume "(n + Suc k) mod W = w"
    then have "W dvd (n + Suc k) - n" using Suc.prems mod_eq_dvd_iff_nat [of n "n + Suc k" W] by linarith
    then have "W \<le> Suc k" by (intro dvd_imp_le) simp_all
    then show False using Suc.prems by simp
  qed
  with Suc show ?case using lane_last [of a "Suc (n + k)" W w] by simp
qed simp

lemma lane_step:
  assumes "n mod W = w" "0 < W" "a \<le> n"
  shows "lane W w a (n + W) = lane W w a n @ [n]"
proof -
  obtain k where k: "W = Suc k" using assms(2) by (cases W) auto
  have "lane W w a (Suc (n + k)) = lane W w a (Suc n)"
    using assms k by (intro lane_gap) auto
  then show ?thesis using lane_last [of a n W w] assms k by simp
qed

lemma lane_Nil:
  assumes "lane W w a b = []" "a mod W = w"
  shows "b \<le> a"
  using assms lane_first [of a b W w] by (cases "a < b") auto

lemma same_lane: "n mod W = w \<Longrightarrow> m mod W = w \<Longrightarrow> n < m \<Longrightarrow> n + W \<le> (m :: nat)"
proof -
  assume "n mod W = w" "m mod W = w" "n < m"
  then have "W dvd m - n" by (simp add: mod_eq_dvd_iff_nat [symmetric])
  then have "W \<le> m - n" using \<open>n < m\<close> by (intro dvd_imp_le) simp_all
  then show "n + W \<le> m" using \<open>n < m\<close> by simp
qed

lemma lane_rest:
  assumes "n mod W = w" "0 < W"
  shows "lane W w (Suc n) b = lane W w (n + W) b"
proof (cases "b \<le> n + W")
  case True
  then have "i \<notin> set (lane W w (Suc n) b)" for i
    using same_lane [OF assms(1), of i] by (auto simp: lane_set)
  then have "lane W w (Suc n) b = []" by (metis list.set_intros(1) neq_Nil_conv)
  then show ?thesis using True by simp
next
  case False
  have "[Suc n..<n + W] @ [n + W..<b] = [Suc n..<b]"
    using False assms(2) upt_add_eq_append [of "Suc n" "n + W" "b - (n + W)"] by simp
  moreover have "filter (\<lambda>i. i mod W = w) [Suc n..<n + W] = []"
    using same_lane [OF assms(1)] by (fastforce simp: filter_empty_conv)
  ultimately show ?thesis unfolding lane_def by (metis append_Nil filter_append)
qed

end
