(* ===== verification/Read_Pipeline.thy ===== *)
theory Read_Pipeline
  imports Iter_Shared Catalog_Db
begin

text \<open>
  \<open>readFetchAndDecodeIter\<close> of \<open>read.go\<close> as a step relation: the fetcher, the GET tasks in the
  worker pool, \<open>W\<close> decode workers and the emit loop take their steps in any order, the context may
  be cancelled at any time, a GET may fail at any time.  A step is what a goroutine does between
  two of its channel operations.  \<open>rc_timeouts\<close> says whether a GET of a live context can fail with
  an error that \<open>isCtxErr\<close> takes for a cancellation, as an expired dial timeout does
  (\<open>errors.Is(err, context.DeadlineExceeded)\<close>).
\<close>

section \<open>Configuration and state\<close>

record part_state =
  ps_key :: string
  ps_files :: "file_ref list"
  ps_version :: int

record 'r part_result =
  pr_key :: string
  pr_records :: "'r list"
  pr_version :: int
  pr_refs :: "file_ref list"

record 'r read_cfg =
  rc_parts :: "part_state list"
  rc_body_cap :: nat
  rc_workers :: nat
  rc_ahead :: nat
  rc_budget :: int
  rc_pool :: nat
  rc_object :: "string \<rightharpoonup> string"
  rc_decode :: "string \<Rightarrow> string + 'r list"
  rc_dedup :: "'r list \<Rightarrow> 'r list"
  rc_timeouts :: bool

text \<open>The program counters.  The fetcher is at file \<open>f\<close> of partition \<open>p\<close>.\<close>

datatype fetch_pc = F_acquire nat nat | F_submit nat nat | F_stopped

datatype 'r worker_pc = W_wait | W_reserve | W_decode nat "'r list" | W_send "'r part_result" | W_stopped

datatype ending = Ended | Broke | Failed pipe_error

text \<open>\<open>readState\<close>, the bodies and the counters of the partitions, and the locals of the goroutines:
  \<open>rs_next w\<close> is the loop variable \<open>pi\<close> of decode worker \<open>w\<close>, \<open>rs_pi\<close> that of the emit loop,
  \<open>rs_out\<close> the batches handed to \<open>emitOne\<close>.\<close>

record 'r read_state =
  rs_cause :: cause
  rs_gerr :: bool
  rs_slots :: nat
  rs_fetch :: fetch_pc
  rs_flight :: "(nat \<times> nat) set"
  rs_bodies :: "nat \<times> nat \<Rightarrow> string option"
  rs_completed :: "nat \<Rightarrow> nat"
  rs_worker :: "nat \<Rightarrow> 'r worker_pc"
  rs_next :: "nat \<Rightarrow> nat"
  rs_bytes :: "nat \<Rightarrow> int"
  rs_queue :: "nat \<Rightarrow> 'r part_result list"
  rs_pi :: nat
  rs_out :: "'r part_result list"
  rs_end :: "ending option"

definition fileRefStats :: "file_ref list \<Rightarrow> int \<times> int" where
  "fileRefStats files =
     fold (\<lambda>f (uncomp, totalRows). (uncomp + UncompressedSize f, totalRows + RecordCount f)) files (0, 0)"

definition n_parts :: "'r read_cfg \<Rightarrow> nat" where
  "n_parts cfg = length (rc_parts cfg)"

definition n_files :: "'r read_cfg \<Rightarrow> nat \<Rightarrow> nat" where
  "n_files cfg p = length (ps_files (rc_parts cfg ! p))"

definition file_key :: "'r read_cfg \<Rightarrow> nat \<Rightarrow> nat \<Rightarrow> string" where
  "file_key cfg p f = S3Key (ps_files (rc_parts cfg ! p) ! f)"

definition uncomp_of :: "'r read_cfg \<Rightarrow> nat \<Rightarrow> int" where
  "uncomp_of cfg p = fst (fileRefStats (ps_files (rc_parts cfg ! p)))"

text \<open>The two nested loops of \<open>runFetcher\<close>.\<close>

definition next_file :: "'r read_cfg \<Rightarrow> nat \<Rightarrow> nat \<Rightarrow> fetch_pc" where
  "next_file cfg p f = (if Suc f < n_files cfg p then F_acquire p (Suc f) else F_acquire (Suc p) 0)"

definition read_start :: "'r read_state" where
  "read_start = \<lparr>rs_cause = None, rs_gerr = False, rs_slots = 0, rs_fetch = F_acquire 0 0, rs_flight = {},
     rs_bodies = (\<lambda>_. None), rs_completed = (\<lambda>_. 0), rs_worker = (\<lambda>_. W_wait), rs_next = (\<lambda>w. w),
     rs_bytes = (\<lambda>_. 0), rs_queue = (\<lambda>_. []), rs_pi = 0, rs_out = [], rs_end = None\<rparr>"

text \<open>\<open>gctx\<close> is cancelled with \<open>state.ctx\<close> or by the first task that returns an error.\<close>

definition gdone :: "'r read_state \<Rightarrow> bool" where
  "gdone s \<longleftrightarrow> rs_cause s \<noteq> None \<or> rs_gerr s"

definition markComplete :: "nat \<Rightarrow> nat \<Rightarrow> string option \<Rightarrow> 'r read_state \<Rightarrow> 'r read_state" where
  "markComplete p f body s =
     s\<lparr>rs_bodies := (rs_bodies s)((p, f) := body), rs_completed := (rs_completed s)(p := rs_completed s p + 1)\<rparr>"

definition part_done :: "'r read_cfg \<Rightarrow> 'r read_state \<Rightarrow> nat \<Rightarrow> bool" where
  "part_done cfg s p \<longleftrightarrow> rs_completed s p = n_files cfg p"

definition set_worker :: "nat \<Rightarrow> 'r worker_pc \<Rightarrow> 'r read_state \<Rightarrow> 'r read_state" where
  "set_worker w pc s = s\<lparr>rs_worker := (rs_worker s)(w := pc)\<rparr>"

definition add_bytes :: "nat \<Rightarrow> int \<Rightarrow> 'r read_state \<Rightarrow> 'r read_state" where
  "add_bytes w b s = s\<lparr>rs_bytes := (rs_bytes s)(w := b)\<rparr>"

text \<open>The end of the emit loop runs the deferred \<open>cancel(context.Canceled)\<close>.\<close>

definition finish :: "ending \<Rightarrow> 'r read_state \<Rightarrow> 'r read_state" where
  "finish e s = s\<lparr>rs_end := Some e, rs_cause := recordHardErr Ctx_canceled (rs_cause s)\<rparr>"

text \<open>\<open>emitOne(part, nil)\<close> and the release of the bytes; the sum is taken before the call.\<close>

definition emitted_batch :: "nat \<Rightarrow> 'r part_result \<Rightarrow> 'r read_state \<Rightarrow> 'r read_state" where
  "emitted_batch w b s =
     s\<lparr>rs_out := rs_out s @ [b], rs_pi := Suc (rs_pi s),
       rs_bytes := (rs_bytes s)(w := releaseBytes (fst (fileRefStats (pr_refs b))) (rs_bytes s w))\<rparr>"

text \<open>Whether the consumer asked for more.\<close>

definition yielded_to :: "bool \<Rightarrow> 'r read_state \<Rightarrow> 'r read_state" where
  "yielded_to cont s = (if cont then s else finish Broke s)"

definition batch_of :: "'r read_cfg \<Rightarrow> nat \<Rightarrow> 'r list \<Rightarrow> 'r part_result" where
  "batch_of cfg p recs =
     (let ps = rc_parts cfg ! p
      in \<lparr>pr_key = ps_key ps, pr_records = rc_dedup cfg recs, pr_version = ps_version ps, pr_refs = ps_files ps\<rparr>)"

section \<open>The steps\<close>

inductive rstep :: "'r read_cfg \<Rightarrow> 'r read_state \<Rightarrow> 'r read_state \<Rightarrow> bool" for cfg where
  fetch_acquire: "rs_fetch s = F_acquire p f \<Longrightarrow> p < n_parts cfg \<Longrightarrow> slot_acquire (rc_body_cap cfg) (rs_slots s) = Some n
    \<Longrightarrow> rstep cfg s (s\<lparr>rs_slots := n, rs_fetch := F_submit p f\<rparr>)"
| fetch_quit: "rs_fetch s = F_acquire p f \<Longrightarrow> p < n_parts cfg \<Longrightarrow> gdone s
    \<Longrightarrow> rstep cfg s (s\<lparr>rs_fetch := F_stopped\<rparr>)"
| fetch_end: "rs_fetch s = F_acquire p f \<Longrightarrow> \<not> p < n_parts cfg \<Longrightarrow> rstep cfg s (s\<lparr>rs_fetch := F_stopped\<rparr>)"
| fetch_submit: "rs_fetch s = F_submit p f \<Longrightarrow> card (rs_flight s) < rc_pool cfg
    \<Longrightarrow> rstep cfg s (s\<lparr>rs_flight := insert (p, f) (rs_flight s), rs_fetch := next_file cfg p f\<rparr>)"
| fetch_skip: "rs_fetch s = F_submit p f \<Longrightarrow> gdone s \<Longrightarrow> rstep cfg s (s\<lparr>rs_fetch := next_file cfg p f\<rparr>)"
| get_ok: "(p, f) \<in> rs_flight s \<Longrightarrow> rc_object cfg (file_key cfg p f) = Some body
    \<Longrightarrow> rstep cfg s (markComplete p f (Some body) (s\<lparr>rs_flight := rs_flight s - {(p, f)}\<rparr>))"
| get_failed: "(p, f) \<in> rs_flight s \<Longrightarrow> slot_release (rs_slots s) = Some n \<Longrightarrow> isCtx e \<longrightarrow> rc_timeouts cfg \<or> gdone s
    \<Longrightarrow> rstep cfg s (markComplete p f None (s\<lparr>rs_flight := rs_flight s - {(p, f)}, rs_slots := n,
          rs_cause := record_unless_ctx e (rs_cause s), rs_gerr := True\<rparr>))"
| worker_end: "w < rc_workers cfg \<Longrightarrow> rs_worker s w = W_wait \<Longrightarrow> \<not> rs_next s w < n_parts cfg
    \<Longrightarrow> rstep cfg s (set_worker w W_stopped s)"
| worker_ready: "w < rc_workers cfg \<Longrightarrow> rs_worker s w = W_wait \<Longrightarrow> rs_next s w < n_parts cfg
    \<Longrightarrow> waitOrCancel (rs_cause s) (part_done cfg s (rs_next s w)) = Some None
    \<Longrightarrow> rstep cfg s (set_worker w W_reserve s)"
| worker_wait_err: "w < rc_workers cfg \<Longrightarrow> rs_worker s w = W_wait \<Longrightarrow> rs_next s w < n_parts cfg
    \<Longrightarrow> waitOrCancel (rs_cause s) (part_done cfg s (rs_next s w)) = Some (Some e)
    \<Longrightarrow> rstep cfg s (set_worker w W_stopped s)"
| worker_reserved: "w < rc_workers cfg \<Longrightarrow> rs_worker s w = W_reserve
    \<Longrightarrow> reserveBytes (rs_cause s) (uncomp_of cfg (rs_next s w)) (rc_budget cfg) (rs_bytes s w) = Reserved b
    \<Longrightarrow> rstep cfg s (set_worker w (W_decode 0 []) (add_bytes w b s))"
| worker_reserve_err: "w < rc_workers cfg \<Longrightarrow> rs_worker s w = W_reserve
    \<Longrightarrow> reserveBytes (rs_cause s) (uncomp_of cfg (rs_next s w)) (rc_budget cfg) (rs_bytes s w) = Reserve_failed e
    \<Longrightarrow> rstep cfg s (set_worker w W_stopped s)"
| decode_absent: "w < rc_workers cfg \<Longrightarrow> rs_worker s w = W_decode f recs \<Longrightarrow> f < n_files cfg (rs_next s w)
    \<Longrightarrow> rs_bodies s (rs_next s w, f) = None \<Longrightarrow> rstep cfg s (set_worker w (W_decode (Suc f) recs) s)"
| decode_file: "w < rc_workers cfg \<Longrightarrow> rs_worker s w = W_decode f recs \<Longrightarrow> f < n_files cfg (rs_next s w)
    \<Longrightarrow> rs_bodies s (rs_next s w, f) = Some body \<Longrightarrow> rc_decode cfg body = Inr rs \<Longrightarrow> slot_release (rs_slots s) = Some n
    \<Longrightarrow> rstep cfg s (set_worker w (W_decode (Suc f) (recs @ rs))
          (s\<lparr>rs_bodies := (rs_bodies s)((rs_next s w, f) := None), rs_slots := n\<rparr>))"
| decode_err: "w < rc_workers cfg \<Longrightarrow> rs_worker s w = W_decode f recs \<Longrightarrow> f < n_files cfg (rs_next s w)
    \<Longrightarrow> rs_bodies s (rs_next s w, f) = Some body \<Longrightarrow> rc_decode cfg body = Inl e \<Longrightarrow> slot_release (rs_slots s) = Some n
    \<Longrightarrow> rstep cfg s (set_worker w W_stopped (add_bytes w (releaseBytes (uncomp_of cfg (rs_next s w)) (rs_bytes s w))
          (s\<lparr>rs_bodies := (rs_bodies s)((rs_next s w, f) := None), rs_slots := n,
             rs_cause := record_unless_ctx (Pipe_error e) (rs_cause s)\<rparr>)))"
| decode_end: "w < rc_workers cfg \<Longrightarrow> rs_worker s w = W_decode f recs \<Longrightarrow> \<not> f < n_files cfg (rs_next s w)
    \<Longrightarrow> rstep cfg s (set_worker w (W_send (batch_of cfg (rs_next s w) recs)) s)"
| worker_send: "w < rc_workers cfg \<Longrightarrow> rs_worker s w = W_send b
    \<Longrightarrow> sendBatch (rs_cause s) (rc_ahead cfg) (rs_queue s w) b = Sent q
    \<Longrightarrow> rstep cfg s (set_worker w W_wait (s\<lparr>rs_queue := (rs_queue s)(w := q),
          rs_next := (rs_next s)(w := rs_next s w + rc_workers cfg)\<rparr>))"
| worker_send_err: "w < rc_workers cfg \<Longrightarrow> rs_worker s w = W_send b
    \<Longrightarrow> sendBatch (rs_cause s) (rc_ahead cfg) (rs_queue s w) b = Send_cancelled
    \<Longrightarrow> rstep cfg s (set_worker w W_stopped (add_bytes w (releaseBytes (uncomp_of cfg (rs_next s w)) (rs_bytes s w)) s))"
| emit_receive: "rs_end s = None \<Longrightarrow> rs_pi s < n_parts cfg \<Longrightarrow> w = rs_pi s mod rc_workers cfg \<Longrightarrow> rs_queue s w = b # q
    \<Longrightarrow> rstep cfg s (yielded_to cont (emitted_batch w b (s\<lparr>rs_queue := (rs_queue s)(w := q)\<rparr>)))"
| emit_handoff: "rs_end s = None \<Longrightarrow> rs_pi s < n_parts cfg \<Longrightarrow> w = rs_pi s mod rc_workers cfg \<Longrightarrow> w < rc_workers cfg
    \<Longrightarrow> rs_queue s w = [] \<Longrightarrow> rs_worker s w = W_send b
    \<Longrightarrow> rstep cfg s (yielded_to cont (emitted_batch w b (set_worker w W_wait
          (s\<lparr>rs_next := (rs_next s)(w := rs_next s w + rc_workers cfg)\<rparr>))))"
| emit_cancelled: "rs_end s = None \<Longrightarrow> rs_pi s < n_parts cfg \<Longrightarrow> rs_cause s = Some c \<Longrightarrow> rstep cfg s (finish (Failed c) s)"
| emit_end: "rs_end s = None \<Longrightarrow> \<not> rs_pi s < n_parts cfg \<Longrightarrow> rstep cfg s (finish Ended s)"
| cancel: "rs_cause s = None \<Longrightarrow> rstep cfg s (s\<lparr>rs_cause := Some c\<rparr>)"

inductive read_reach :: "'r read_cfg \<Rightarrow> 'r read_state \<Rightarrow> bool" for cfg where
  start: "read_reach cfg read_start"
| step: "read_reach cfg s \<Longrightarrow> rstep cfg s s' \<Longrightarrow> read_reach cfg s'"

text \<open>The call returns when the emit loop is over and \<open>wg.Wait\<close> has seen every goroutine end.\<close>

definition read_returned :: "'r read_cfg \<Rightarrow> 'r read_state \<Rightarrow> bool" where
  "read_returned cfg s \<longleftrightarrow> rs_end s \<noteq> None \<and> rs_fetch s = F_stopped \<and> rs_flight s = {}
     \<and> (\<forall>w < rc_workers cfg. rs_worker s w = W_stopped)"

text \<open>Nothing can happen but a cancellation from outside.\<close>

definition read_stuck :: "'r read_cfg \<Rightarrow> 'r read_state \<Rightarrow> bool" where
  "read_stuck cfg s \<longleftrightarrow> (\<forall>s'. rstep cfg s s' \<longrightarrow> s' = s\<lparr>rs_cause := rs_cause s'\<rparr>)"

text \<open>What a configuration has after the defaults and the floors of \<open>readFetchAndDecodeIter\<close>.\<close>

definition read_cfg_ok :: "'r read_cfg \<Rightarrow> bool" where
  "read_cfg_ok cfg \<longleftrightarrow> 0 < rc_workers cfg \<and> 0 < rc_pool cfg
     \<and> (\<forall>p < n_parts cfg. 0 < n_files cfg p \<and> n_files cfg p \<le> rc_body_cap cfg)"

section \<open>The sequential reader\<close>

text \<open>What a loop without concurrency would produce for a partition.\<close>

fun decode_all :: "'r read_cfg \<Rightarrow> string list \<Rightarrow> string + 'r list" where
  "decode_all cfg [] = Inr []"
| "decode_all cfg (k # ks) =
     (case rc_object cfg k of
        None \<Rightarrow> Inl (''get '' @ k)
      | Some body \<Rightarrow>
          (case rc_decode cfg body of
             Inl e \<Rightarrow> Inl e
           | Inr rs \<Rightarrow> (case decode_all cfg ks of Inl e \<Rightarrow> Inl e | Inr rest \<Rightarrow> Inr (rs @ rest))))"

definition seq_part :: "'r read_cfg \<Rightarrow> nat \<Rightarrow> string + 'r part_result" where
  "seq_part cfg p =
     (case decode_all cfg (map S3Key (ps_files (rc_parts cfg ! p))) of
        Inl e \<Rightarrow> Inl e
      | Inr rs \<Rightarrow> Inr (batch_of cfg p rs))"

end
