(* ===== verification/Read_Path.thy ===== *)
theory Read_Path
  imports Read_Pipeline Dedup_Records Filters Write_Path Iter_Options
begin

text \<open>
  The entry points of \<open>read.go\<close> and \<open>read_options.go\<close>: options and their defaults, the catalog
  SELECTs, the preparation of the partitions, the emit callbacks and the public reads.  A read is
  a relation between its inputs and what the caller sees, since the pipeline of \<open>Read_Pipeline\<close>
  below it is concurrent.  Parameters are the server's evaluation of a WHERE text with its
  arguments (\<open>server\<close>), the objects in the bucket, the parquet decoder, and the consumer of an
  iterator: \<open>wants ys\<close> says whether it continues after it has received \<open>ys\<close>.
\<close>

section \<open>Options\<close>

record read_opts =
  ro_history :: bool
  ro_fetch_ahead_files :: int
  ro_decode_workers :: int
  ro_decode_ahead_partitions :: "int option"
  ro_decode_ahead_bytes :: int

datatype read_option =
    WithHistory
  | WithDecodeAheadPartitions int
  | ReadIter_option iter_option

fun applyRead :: "read_option \<Rightarrow> read_opts \<Rightarrow> read_opts" where
  "applyRead WithHistory opts = opts\<lparr>ro_history := True\<rparr>"
| "applyRead (WithDecodeAheadPartitions n) opts =
     opts\<lparr>ro_decode_ahead_partitions := Some (if n < 0 then 0 else n)\<rparr>"
| "applyRead (ReadIter_option (WithDecodeWorkers n)) opts = opts\<lparr>ro_decode_workers := decode_workers_value n\<rparr>"
| "applyRead (ReadIter_option (WithFetchAheadFiles n)) opts = opts\<lparr>ro_fetch_ahead_files := fetch_ahead_value n\<rparr>"
| "applyRead (ReadIter_option (WithDecodeAheadBytes n)) opts = opts\<lparr>ro_decode_ahead_bytes := decode_bytes_value n\<rparr>"

definition resolveIterOpts :: "read_option list \<Rightarrow> read_opts" where
  "resolveIterOpts opts = fold applyRead opts
     \<lparr>ro_history = False, ro_fetch_ahead_files = 0, ro_decode_workers = 0,
      ro_decode_ahead_partitions = None, ro_decode_ahead_bytes = 0\<rparr>"

definition iterStreamDefaults :: "int \<Rightarrow> read_opts \<Rightarrow> read_opts" where
  "iterStreamDefaults lenParts opts =
     opts\<lparr>ro_decode_workers := (if ro_decode_workers opts = 0 then 1 else ro_decode_workers opts),
       ro_decode_ahead_partitions := (case ro_decode_ahead_partitions opts of None \<Rightarrow> Some 1 | Some n \<Rightarrow> Some n)\<rparr>"

text \<open>\<open>pool\<close> is \<open>WorkerPool.MaxConcurrent()\<close>, \<open>procs\<close> is \<open>GOMAXPROCS(0)\<close>.\<close>

definition readBatchDefaults :: "int \<Rightarrow> int \<Rightarrow> int \<Rightarrow> read_opts \<Rightarrow> read_opts" where
  "readBatchDefaults pool procs lenParts opts =
     (let w = (if ro_decode_workers opts = 0 then min (min pool procs) lenParts else ro_decode_workers opts);
          wc = max w 1
      in opts\<lparr>ro_decode_workers := w,
           ro_decode_ahead_partitions := (case ro_decode_ahead_partitions opts of
               None \<Rightarrow> Some ((lenParts + wc - 1) div wc) | Some n \<Rightarrow> Some n)\<rparr>)"

section \<open>The catalog queries\<close>

datatype read_error =
    Re_filter filter_error
  | Re_sql sql_error
  | Re_scan scan_error
  | Re_foreign nat string string
  | Re_pipe pipe_error

text \<open>The server's evaluation of a WHERE text with its arguments on a row.\<close>

type_synonym server = "string \<Rightarrow> sqlval list \<Rightarrow> file_row \<Rightarrow> bool"

definition queryFileRows ::
  "'a store \<Rightarrow> server \<Rightarrow> sql_error option \<Rightarrow> catalog \<Rightarrow> string \<Rightarrow> sqlval list \<Rightarrow> read_error + file_ref list" where
  "queryFileRows st server fail db wh args =
     (case fail of
        Some e \<Rightarrow> Inl (Re_sql e)
      | None \<Rightarrow>
          (case map_res (scan_file_ref (ext_names st))
                  (sql_files_query (ext_names st) (if wh = [] then (\<lambda>_. True) else server wh args) db) of
             Inl e \<Rightarrow> Inl (Re_scan e)
           | Inr out \<Rightarrow> Inr out))"

definition ResolveFileRefs ::
  "'a store \<Rightarrow> server \<Rightarrow> sql_error option \<Rightarrow> catalog \<Rightarrow> pfilter list \<Rightarrow> read_error + file_ref list" where
  "ResolveFileRefs st server fail db filters =
     (if filters = [] then Inr []
      else case translateFilters filters (partColResolver (st_parts st)) of
        Inl e \<Rightarrow> Inl (Re_filter e)
      | Inr (wh, args) \<Rightarrow> queryFileRows st server fail db wh (map TextV args))"

text \<open>A zero \<open>time.Time\<close> is \<open>None\<close>.\<close>

definition range_since :: "int option \<Rightarrow> string list \<times> sqlval list \<Rightarrow> string list \<times> sqlval list" where
  "range_since since pa =
     (case since of
        None \<Rightarrow> pa
      | Some t \<Rightarrow> (let args = snd pa @ [TimeV t] in (fst pa @ [''written_at >= '' @ placeholder (length args)], args)))"

definition range_until :: "int option \<Rightarrow> string list \<times> sqlval list \<Rightarrow> string list \<times> sqlval list" where
  "range_until until pa =
     (case until of
        None \<Rightarrow> pa
      | Some t \<Rightarrow> (let args = snd pa @ [TimeV t] in (fst pa @ [''written_at < '' @ placeholder (length args)], args)))"

definition range_where :: "int option \<Rightarrow> int option \<Rightarrow> string \<times> sqlval list" where
  "range_where since until =
     (let (parts, args) = range_until until (range_since since ([], []))
      in (join '' AND '' (if parts = [] then [''TRUE''] else parts), args))"

definition ResolveFileRefsInRange ::
  "'a store \<Rightarrow> server \<Rightarrow> sql_error option \<Rightarrow> catalog \<Rightarrow> int option \<Rightarrow> int option \<Rightarrow> read_error + file_ref list" where
  "ResolveFileRefsInRange st server fail db since until =
     (let (wh, args) = range_where since until in queryFileRows st server fail db wh args)"

fun foreign_entry :: "string \<Rightarrow> nat \<Rightarrow> file_ref list \<Rightarrow> read_error option" where
  "foreign_entry dataPrefix i [] = None"
| "foreign_entry dataPrefix i (e # es) =
     (if \<not> has_prefix (S3Key e) dataPrefix then Some (Re_foreign i (S3Key e) dataPrefix)
      else foreign_entry dataPrefix (Suc i) es)"

definition validateFileRefs :: "'a store \<Rightarrow> file_ref list \<Rightarrow> read_error option" where
  "validateFileRefs st entries = foreign_entry (dataPath st @ ''/'') 0 entries"

section \<open>Partitions\<close>

text \<open>The grouping map, as an association list.\<close>

fun group_entries :: "file_ref list \<Rightarrow> (string \<times> file_ref list) list \<Rightarrow> (string \<times> file_ref list) list" where
  "group_entries [] m = m"
| "group_entries (e # es) m =
     group_entries es (map_put (PartitionKey e)
       ((case map_of m (PartitionKey e) of None \<Rightarrow> [] | Some fs \<Rightarrow> fs) @ [e]) m)"

definition max_version :: "file_ref list \<Rightarrow> int" where
  "max_version files = fold (\<lambda>f version. if Version f > version then Version f else version) files 0"

text \<open>\<open>slices.SortFunc\<close> on the files is not stable; two entries with the same key, which only a
  caller-supplied slice can have, name the same object.\<close>

definition preparePartitions :: "file_ref list \<Rightarrow> part_state list" where
  "preparePartitions entries =
     (let byPartition = group_entries entries [];
          partitionKeys = sort (map fst byPartition)
      in map (\<lambda>k. let files = sort_key S3Key (the (map_of byPartition k))
                  in \<lparr>ps_key = k, ps_files = files, ps_version = max_version files\<rparr>) partitionKeys)"

section \<open>The configuration of a pipeline\<close>

record 'r read_env =
  ren_pool :: int
  ren_procs :: int
  ren_object :: "string \<rightharpoonup> string"
  ren_decode :: "string \<Rightarrow> string + 'r list"
  ren_timeouts :: bool

definition body_cap :: "int \<Rightarrow> read_opts \<Rightarrow> part_state list \<Rightarrow> int" where
  "body_cap pool opts parts =
     fold (\<lambda>p cap. if int (length (ps_files p)) > cap then int (length (ps_files p)) else cap) parts
       (if ro_fetch_ahead_files opts \<le> 0 then pool else ro_fetch_ahead_files opts)"

text \<open>The clamp and the floor; \<open>opts\<close> are the options after \<open>applyDefaults\<close>.\<close>

definition read_config :: "'r store \<Rightarrow> 'r read_env \<Rightarrow> read_opts \<Rightarrow> part_state list \<Rightarrow> 'r read_cfg" where
  "read_config st env opts parts =
     \<lparr>rc_parts = parts, rc_body_cap = nat (body_cap (ren_pool env) opts parts),
      rc_workers = nat (max 1 (min (ro_decode_workers opts) (int (length parts)))),
      rc_ahead = nat (the (ro_decode_ahead_partitions opts)), rc_budget = ro_decode_ahead_bytes opts,
      rc_pool = nat (ren_pool env), rc_object = ren_object env, rc_decode = ren_decode env,
      rc_dedup = (\<lambda>recs. sortAndDedup recs (st_entity_key_of st) (st_version_of st) (ro_history opts)),
      rc_timeouts = ren_timeouts env\<rparr>"

text \<open>What a call can hand to \<open>emitOne\<close>: the batches, and how the emit loop ends.\<close>

definition readFetchAndDecodeIter ::
  "'r store \<Rightarrow> 'r read_env \<Rightarrow> file_ref list \<Rightarrow> read_opts \<Rightarrow> (int \<Rightarrow> read_opts \<Rightarrow> read_opts)
   \<Rightarrow> 'r part_result list \<Rightarrow> ending \<Rightarrow> bool" where
  "readFetchAndDecodeIter st env entries opts applyDefaults batches en \<longleftrightarrow>
     (let parts = preparePartitions entries in
      if parts = [] then batches = [] \<and> en = Ended
      else let cfg = read_config st env (applyDefaults (int (length parts)) opts) parts
           in \<exists>s. read_reach cfg s \<and> read_returned cfg s \<and> rs_out s = batches \<and> rs_end s = Some en)"

section \<open>The emit callbacks\<close>

text \<open>A callback on its state: an error or a batch, and whether the emit loop continues.\<close>

type_synonym ('s, 'b) emit = "'s \<Rightarrow> pipe_error + 'b \<Rightarrow> 's \<times> bool"

text \<open>The calls a loop with these batches and this end makes; \<open>None\<close> if the callback would not
  have made the loop end so.\<close>

fun emit_run :: "('s, 'b) emit \<Rightarrow> 's \<Rightarrow> 'b list \<Rightarrow> ending \<Rightarrow> 's option" where
  "emit_run em st [] en =
     (case en of Ended \<Rightarrow> Some st | Broke \<Rightarrow> None | Failed e \<Rightarrow> Some (fst (em st (Inl e))))"
| "emit_run em st (b # bs) en =
     (case em st (Inr b) of (st', ok) \<Rightarrow>
        if ok then emit_run em st' bs en else if bs = [] \<and> en = Broke then Some st' else None)"

type_synonym 'y yields = "(read_error + 'y) list"

fun yield_records :: "('y yields \<Rightarrow> bool) \<Rightarrow> 'y yields \<Rightarrow> 'y list \<Rightarrow> 'y yields \<times> bool" where
  "yield_records wants ys [] = (ys, True)"
| "yield_records wants ys (r # rs) =
     (let ys' = ys @ [Inr r] in if \<not> wants ys' then (ys', False) else yield_records wants ys' rs)"

definition recordEmit :: "('r yields \<Rightarrow> bool) \<Rightarrow> ('r yields, 'r part_result) emit" where
  "recordEmit wants ys x =
     (case x of Inl e \<Rightarrow> (ys @ [Inl (Re_pipe e)], False) | Inr part \<Rightarrow> yield_records wants ys (pr_records part))"

definition partitionEmit :: "('r part_result yields \<Rightarrow> bool) \<Rightarrow> ('r part_result yields, 'r part_result) emit" where
  "partitionEmit wants ys x =
     (case x of Inl e \<Rightarrow> (ys @ [Inl (Re_pipe e)], False)
      | Inr part \<Rightarrow> (let ys' = ys @ [Inr part] in (ys', wants ys')))"

text \<open>The collecting callbacks write \<open>out\<close> and \<open>iterErr\<close>.\<close>

definition recordCollectEmit :: "('r list \<times> read_error option, 'r part_result) emit" where
  "recordCollectEmit st x =
     (case x of Inl e \<Rightarrow> ((fst st, Some (Re_pipe e)), False) | Inr part \<Rightarrow> ((fst st @ pr_records part, snd st), True))"

definition partitionCollectEmit :: "('r part_result list \<times> read_error option, 'r part_result) emit" where
  "partitionCollectEmit st x =
     (case x of Inl e \<Rightarrow> ((fst st, Some (Re_pipe e)), False) | Inr part \<Rightarrow> ((fst st @ [part], snd st), True))"

section \<open>The reads\<close>

text \<open>Collecting reads: what they return.\<close>

definition collected :: "'y list \<times> read_error option \<Rightarrow> 'y list \<times> read_error option" where
  "collected st = (case snd st of Some e \<Rightarrow> ([], Some e) | None \<Rightarrow> (fst st, None))"

definition Read ::
  "'r store \<Rightarrow> 'r read_env \<Rightarrow> server \<Rightarrow> sql_error option \<Rightarrow> catalog \<Rightarrow> pfilter list \<Rightarrow> read_option list
   \<Rightarrow> 'r list \<times> read_error option \<Rightarrow> bool" where
  "Read st env server fail db filters opts result \<longleftrightarrow>
     (if filters = [] then result = ([], None)
      else case ResolveFileRefs st server fail db filters of
        Inl e \<Rightarrow> result = ([], Some e)
      | Inr rows \<Rightarrow> \<exists>batches en acc.
          readFetchAndDecodeIter st env rows (resolveIterOpts opts)
            (readBatchDefaults (ren_pool env) (ren_procs env)) batches en
          \<and> emit_run recordCollectEmit ([], None) batches en = Some acc \<and> result = collected acc)"

definition ReadPartition ::
  "'r store \<Rightarrow> 'r read_env \<Rightarrow> server \<Rightarrow> sql_error option \<Rightarrow> catalog \<Rightarrow> pfilter list \<Rightarrow> read_option list
   \<Rightarrow> 'r part_result list \<times> read_error option \<Rightarrow> bool" where
  "ReadPartition st env server fail db filters opts result \<longleftrightarrow>
     (if filters = [] then result = ([], None)
      else case ResolveFileRefs st server fail db filters of
        Inl e \<Rightarrow> result = ([], Some e)
      | Inr rows \<Rightarrow> \<exists>batches en acc.
          readFetchAndDecodeIter st env rows (resolveIterOpts opts)
            (readBatchDefaults (ren_pool env) (ren_procs env)) batches en
          \<and> emit_run partitionCollectEmit ([], None) batches en = Some acc \<and> result = collected acc)"

text \<open>The body of the iterators, by the emit callback: \<open>rows\<close> is the result of the enumeration.\<close>

definition iterate ::
  "('y yields, 'r part_result) emit \<Rightarrow> 'r store \<Rightarrow> 'r read_env \<Rightarrow> read_option list \<Rightarrow> read_error + file_ref list
   \<Rightarrow> 'y yields \<Rightarrow> bool" where
  "iterate em st env opts rows ys \<longleftrightarrow>
     (case rows of
        Inl e \<Rightarrow> ys = [Inl e]
      | Inr entries \<Rightarrow> \<exists>batches en.
          readFetchAndDecodeIter st env entries (resolveIterOpts opts) iterStreamDefaults batches en
          \<and> emit_run em [] batches en = Some ys)"

definition ReadIter where
  "ReadIter st env server fail db filters opts wants ys \<longleftrightarrow>
     (if filters = [] then ys = []
      else iterate (recordEmit wants) st env opts (ResolveFileRefs st server fail db filters) ys)"

definition ReadPartitionIter where
  "ReadPartitionIter st env server fail db filters opts wants ys \<longleftrightarrow>
     (if filters = [] then ys = []
      else iterate (partitionEmit wants) st env opts (ResolveFileRefs st server fail db filters) ys)"

definition ReadRangeIter where
  "ReadRangeIter st env server fail db since until opts wants ys \<longleftrightarrow>
     iterate (recordEmit wants) st env opts (ResolveFileRefsInRange st server fail db since until) ys"

definition ReadPartitionRangeIter where
  "ReadPartitionRangeIter st env server fail db since until opts wants ys \<longleftrightarrow>
     iterate (partitionEmit wants) st env opts (ResolveFileRefsInRange st server fail db since until) ys"

definition ReadFileRefsIter where
  "ReadFileRefsIter st env entries opts wants ys \<longleftrightarrow>
     iterate (recordEmit wants) st env opts
       (case validateFileRefs st entries of Some e \<Rightarrow> Inl e | None \<Rightarrow> Inr entries) ys"

definition ReadPartitionFileRefsIter where
  "ReadPartitionFileRefsIter st env entries opts wants ys \<longleftrightarrow>
     iterate (partitionEmit wants) st env opts
       (case validateFileRefs st entries of Some e \<Rightarrow> Inl e | None \<Rightarrow> Inr entries) ys"

end
