(* ===== verification/Read_Pipeline_Correct.thy ===== *)
theory Read_Pipeline_Correct
  imports Read_Pipeline
begin

text \<open>
  The read pipeline is the sequential reader: whatever the interleaving, the faults and the moment
  of a cancellation, the batches handed to the consumer are a prefix of what a loop over the
  partitions would produce, all of it when the call ends without an error.  It cannot deadlock and
  every run is finite.  All of this needs that no GET of a live context fails with an error that
  looks like a cancellation; without it a call can return partial data and no error.
\<close>

section \<open>What a step changes\<close>

lemma step_fields [simp]:
  "rs_cause (markComplete p f b s) = rs_cause s" "rs_gerr (markComplete p f b s) = rs_gerr s"
  "rs_slots (markComplete p f b s) = rs_slots s" "rs_fetch (markComplete p f b s) = rs_fetch s"
  "rs_flight (markComplete p f b s) = rs_flight s" "rs_worker (markComplete p f b s) = rs_worker s"
  "rs_bodies (markComplete p f b s) = (rs_bodies s)((p, f) := b)"
  "rs_completed (markComplete p f b s) = (rs_completed s)(p := rs_completed s p + 1)"
  "rs_next (markComplete p f b s) = rs_next s" "rs_bytes (markComplete p f b s) = rs_bytes s"
  "rs_queue (markComplete p f b s) = rs_queue s" "rs_pi (markComplete p f b s) = rs_pi s"
  "rs_out (markComplete p f b s) = rs_out s" "rs_end (markComplete p f b s) = rs_end s"
  by (simp_all add: markComplete_def)

lemma worker_fields [simp]:
  "rs_cause (set_worker w pc s) = rs_cause s" "rs_gerr (set_worker w pc s) = rs_gerr s"
  "rs_slots (set_worker w pc s) = rs_slots s" "rs_fetch (set_worker w pc s) = rs_fetch s"
  "rs_flight (set_worker w pc s) = rs_flight s" "rs_worker (set_worker w pc s) = (rs_worker s)(w := pc)"
  "rs_bodies (set_worker w pc s) = rs_bodies s" "rs_completed (set_worker w pc s) = rs_completed s"
  "rs_next (set_worker w pc s) = rs_next s" "rs_bytes (set_worker w pc s) = rs_bytes s"
  "rs_queue (set_worker w pc s) = rs_queue s" "rs_pi (set_worker w pc s) = rs_pi s"
  "rs_out (set_worker w pc s) = rs_out s" "rs_end (set_worker w pc s) = rs_end s"
  by (simp_all add: set_worker_def)

lemma bytes_fields [simp]:
  "rs_cause (add_bytes w b s) = rs_cause s" "rs_gerr (add_bytes w b s) = rs_gerr s"
  "rs_slots (add_bytes w b s) = rs_slots s" "rs_fetch (add_bytes w b s) = rs_fetch s"
  "rs_flight (add_bytes w b s) = rs_flight s" "rs_worker (add_bytes w b s) = rs_worker s"
  "rs_bodies (add_bytes w b s) = rs_bodies s" "rs_completed (add_bytes w b s) = rs_completed s"
  "rs_next (add_bytes w b s) = rs_next s" "rs_bytes (add_bytes w b s) = (rs_bytes s)(w := b)"
  "rs_queue (add_bytes w b s) = rs_queue s" "rs_pi (add_bytes w b s) = rs_pi s"
  "rs_out (add_bytes w b s) = rs_out s" "rs_end (add_bytes w b s) = rs_end s"
  by (simp_all add: add_bytes_def)

lemma emit_fields [simp]:
  "rs_gerr (finish e s) = rs_gerr s" "rs_slots (finish e s) = rs_slots s" "rs_fetch (finish e s) = rs_fetch s"
  "rs_flight (finish e s) = rs_flight s" "rs_worker (finish e s) = rs_worker s" "rs_bodies (finish e s) = rs_bodies s"
  "rs_completed (finish e s) = rs_completed s" "rs_next (finish e s) = rs_next s" "rs_bytes (finish e s) = rs_bytes s"
  "rs_queue (finish e s) = rs_queue s" "rs_pi (finish e s) = rs_pi s" "rs_out (finish e s) = rs_out s"
  "rs_end (finish e s) = Some e" "rs_cause (finish e s) = recordHardErr Ctx_canceled (rs_cause s)"
  by (simp_all add: finish_def)

lemma yield_fields [simp]:
  "rs_gerr (yielded_to c s) = rs_gerr s" "rs_slots (yielded_to c s) = rs_slots s" "rs_fetch (yielded_to c s) = rs_fetch s"
  "rs_flight (yielded_to c s) = rs_flight s" "rs_worker (yielded_to c s) = rs_worker s" "rs_bodies (yielded_to c s) = rs_bodies s"
  "rs_completed (yielded_to c s) = rs_completed s" "rs_next (yielded_to c s) = rs_next s" "rs_bytes (yielded_to c s) = rs_bytes s"
  "rs_queue (yielded_to c s) = rs_queue s" "rs_pi (yielded_to c s) = rs_pi s" "rs_out (yielded_to c s) = rs_out s"
  "rs_end (yielded_to c s) = (if c then rs_end s else Some Broke)"
  "rs_cause (yielded_to c s) = (if c then rs_cause s else recordHardErr Ctx_canceled (rs_cause s))"
  by (simp_all add: yielded_to_def)

lemma batch_fields [simp]:
  "rs_cause (emitted_batch w b s) = rs_cause s" "rs_gerr (emitted_batch w b s) = rs_gerr s"
  "rs_slots (emitted_batch w b s) = rs_slots s" "rs_fetch (emitted_batch w b s) = rs_fetch s"
  "rs_flight (emitted_batch w b s) = rs_flight s" "rs_worker (emitted_batch w b s) = rs_worker s"
  "rs_bodies (emitted_batch w b s) = rs_bodies s" "rs_completed (emitted_batch w b s) = rs_completed s"
  "rs_next (emitted_batch w b s) = rs_next s" "rs_queue (emitted_batch w b s) = rs_queue s"
  "rs_bytes (emitted_batch w b s) = (rs_bytes s)(w := rs_bytes s w - max (fst (fileRefStats (pr_refs b))) 0)"
  "rs_pi (emitted_batch w b s) = Suc (rs_pi s)" "rs_out (emitted_batch w b s) = rs_out s @ [b]"
  "rs_end (emitted_batch w b s) = rs_end s"
  by (simp_all add: emitted_batch_def release_bytes)

section \<open>The invariant\<close>

text \<open>The files the fetcher is past.\<close>

definition before :: "'r read_cfg \<Rightarrow> fetch_pc \<Rightarrow> (nat \<times> nat) set" where
  "before cfg pc = {(p, f). p < n_parts cfg \<and> f < n_files cfg p \<and>
     (case pc of F_acquire q g \<Rightarrow> p < q \<or> p = q \<and> f < g | F_submit q g \<Rightarrow> p < q \<or> p = q \<and> f < g | F_stopped \<Rightarrow> True)}"

definition submitting :: "fetch_pc \<Rightarrow> (nat \<times> nat) set" where
  "submitting pc = (case pc of F_submit p f \<Rightarrow> {(p, f)} | _ \<Rightarrow> {})"

definition fetch_ok :: "'r read_cfg \<Rightarrow> fetch_pc \<Rightarrow> bool" where
  "fetch_ok cfg pc \<longleftrightarrow> (case pc of F_acquire p f \<Rightarrow> p < n_parts cfg \<longrightarrow> f < n_files cfg p
     | F_submit p f \<Rightarrow> p < n_parts cfg \<and> f < n_files cfg p | F_stopped \<Rightarrow> True)"

text \<open>The files that hold a body slot.\<close>

definition held :: "'r read_state \<Rightarrow> (nat \<times> nat) set" where
  "held s = rs_flight s \<union> {x. rs_bodies s x \<noteq> None} \<union> submitting (rs_fetch s)"

definition row :: "(nat \<times> nat) set \<Rightarrow> nat \<Rightarrow> nat set" where
  "row X p = {f. (p, f) \<in> X}"

text \<open>The files whose body the decode worker has freed.\<close>

definition consumed :: "'r read_cfg \<Rightarrow> 'r read_state \<Rightarrow> nat \<times> nat \<Rightarrow> bool" where
  "consumed cfg s x = (let w = fst x mod rc_workers cfg in
     fst x < rs_next s w \<or> fst x = rs_next s w \<and>
       (case rs_worker s w of W_decode g _ \<Rightarrow> snd x < g | W_send _ \<Rightarrow> True | _ \<Rightarrow> False))"

definition busy :: "'r worker_pc \<Rightarrow> bool" where
  "busy pc \<longleftrightarrow> (case pc of W_reserve \<Rightarrow> True | W_decode _ _ \<Rightarrow> True | W_send _ \<Rightarrow> True | _ \<Rightarrow> False)"

definition holds_bytes :: "'r worker_pc \<Rightarrow> bool" where
  "holds_bytes pc \<longleftrightarrow> (case pc of W_decode _ _ \<Rightarrow> True | W_send _ \<Rightarrow> True | _ \<Rightarrow> False)"

definition files_inv :: "'r read_cfg \<Rightarrow> 'r read_state \<Rightarrow> bool" where
  "files_inv cfg s \<longleftrightarrow> fetch_ok cfg (rs_fetch s) \<and> finite (rs_flight s) \<and> rs_flight s \<subseteq> before cfg (rs_fetch s)
     \<and> (\<forall>x. rs_bodies s x \<noteq> None \<longrightarrow> x \<in> before cfg (rs_fetch s) \<and> x \<notin> rs_flight s \<and> \<not> consumed cfg s x)
     \<and> card (held s) \<le> rs_slots s
     \<and> (\<forall>p. rs_completed s p + card (row (rs_flight s) p) \<le> card (row (before cfg (rs_fetch s)) p))"

definition workers_inv :: "'r read_cfg \<Rightarrow> 'r read_state \<Rightarrow> bool" where
  "workers_inv cfg s \<longleftrightarrow> rs_pi s \<le> n_parts cfg \<and> (rs_end s \<noteq> None \<longrightarrow> rs_cause s \<noteq> None)
     \<and> (\<forall>w < rc_workers cfg. rs_next s w mod rc_workers cfg = w \<and> rs_pi s \<le> rs_next s w
          \<and> (busy (rs_worker s w) \<longrightarrow> rs_next s w < n_parts cfg \<and> part_done cfg s (rs_next s w))
          \<and> (rs_worker s w = W_stopped \<and> rs_cause s = None \<longrightarrow> n_parts cfg \<le> rs_next s w))
     \<and> (\<forall>p < n_parts cfg. p < rs_next s (p mod rc_workers cfg) \<longrightarrow> part_done cfg s p)"

definition queues_inv :: "'r read_cfg \<Rightarrow> 'r read_state \<Rightarrow> bool" where
  "queues_inv cfg s \<longleftrightarrow> (\<forall>w < rc_workers cfg.
      map pr_refs (rs_queue s w) = map (\<lambda>p. ps_files (rc_parts cfg ! p)) (lane (rc_workers cfg) w (rs_pi s) (rs_next s w))
      \<and> (\<forall>b. rs_worker s w = W_send b \<longrightarrow> pr_refs b = ps_files (rc_parts cfg ! rs_next s w))
      \<and> (rc_budget cfg > 0 \<longrightarrow> rs_bytes s w =
           sum_list (map (\<lambda>p. max (uncomp_of cfg p) 0) (lane (rc_workers cfg) w (rs_pi s) (rs_next s w)))
           + (if holds_bytes (rs_worker s w) then max (uncomp_of cfg (rs_next s w)) 0 else 0)))"

text \<open>What holds besides when no GET fails with a context error of its own.\<close>

definition landed :: "'r read_cfg \<Rightarrow> nat \<times> nat \<Rightarrow> string option \<Rightarrow> bool" where
  "landed cfg x b \<longleftrightarrow> b \<noteq> None \<and> b = rc_object cfg (file_key cfg (fst x) (snd x))"

definition live_inv :: "'r read_cfg \<Rightarrow> 'r read_state \<Rightarrow> bool" where
  "live_inv cfg s \<longleftrightarrow> (rs_gerr s \<longrightarrow> rs_cause s \<noteq> None)
     \<and> (rs_cause s = None \<longrightarrow> rs_slots s = card (held s)
          \<and> (\<forall>p. rs_completed s p + card (row (rs_flight s) p) = card (row (before cfg (rs_fetch s)) p))
          \<and> (\<forall>x \<in> before cfg (rs_fetch s). x \<in> rs_flight s \<or> landed cfg x (rs_bodies s x) \<or> consumed cfg s x))"

definition keys_of :: "'r read_cfg \<Rightarrow> nat \<Rightarrow> string list" where
  "keys_of cfg p = map S3Key (ps_files (rc_parts cfg ! p))"

definition worker_data :: "'r read_cfg \<Rightarrow> 'r read_state \<Rightarrow> nat \<Rightarrow> bool" where
  "worker_data cfg s w \<longleftrightarrow> (let p = rs_next s w in
      (rs_worker s w = W_reserve \<longrightarrow> (\<forall>f < n_files cfg p. landed cfg (p, f) (rs_bodies s (p, f))))
      \<and> (\<forall>g acc. rs_worker s w = W_decode g acc \<longrightarrow> g \<le> n_files cfg p
           \<and> (\<forall>f. g \<le> f \<and> f < n_files cfg p \<longrightarrow> landed cfg (p, f) (rs_bodies s (p, f)))
           \<and> decode_all cfg (take g (keys_of cfg p)) = Inr acc)
      \<and> (\<forall>b. rs_worker s w = W_send b \<longrightarrow> seq_part cfg p = Inr b))"

definition data_inv :: "'r read_cfg \<Rightarrow> 'r read_state \<Rightarrow> bool" where
  "data_inv cfg s \<longleftrightarrow> (\<forall>w < rc_workers cfg. worker_data cfg s w
      \<and> map Inr (rs_queue s w) = map (seq_part cfg) (lane (rc_workers cfg) w (rs_pi s) (rs_next s w)))
    \<and> map Inr (rs_out s) = map (seq_part cfg) [0..<rs_pi s]"


section \<open>The fetcher\<close>

lemma before_simps:
  "before cfg (F_acquire p f) = before cfg (F_submit p f)"
  "before cfg pc \<subseteq> before cfg F_stopped"
  "finite (before cfg pc)" "row (before cfg pc) p \<subseteq> {..<n_files cfg p}"
proof -
  have "before cfg pc \<subseteq> Sigma {..<n_parts cfg} (\<lambda>p. {..<n_files cfg p})" by (auto simp: before_def)
  then show "finite (before cfg pc)" by (rule finite_subset) simp
qed (auto simp: before_def row_def)

lemma before_next:
  assumes "p < n_parts cfg" "f < n_files cfg p"
  shows "before cfg (next_file cfg p f) = insert (p, f) (before cfg (F_submit p f))" "(p, f) \<notin> before cfg (F_submit p f)"
  using assms by (auto simp: before_def next_file_def less_Suc_eq)

lemma row_simps [simp]:
  "row (insert (p, f) X) q = (if q = p then insert f (row X q) else row X q)"
  "row (X - {(p, f)}) q = (if q = p then row X q - {f} else row X q)"
  "row {} q = {}"
  by (auto simp: row_def)

lemma finite_row: "finite X \<Longrightarrow> finite (row X p)"
proof -
  assume "finite X"
  moreover have "row X p = snd ` {x \<in> X. fst x = p}" by (force simp: row_def)
  ultimately show ?thesis by simp
qed

lemma row_mem: "f \<in> row X p \<longleftrightarrow> (p, f) \<in> X"
  by (simp add: row_def)

lemma fetch_ok_step:
  assumes "rstep cfg s s'" "fetch_ok cfg (rs_fetch s)" "read_cfg_ok cfg"
  shows "fetch_ok cfg (rs_fetch s')"
  using assms by (cases rule: rstep.cases) (auto simp: fetch_ok_def next_file_def read_cfg_ok_def)

lemma before_step:
  assumes "rstep cfg s s'" "fetch_ok cfg (rs_fetch s)"
  shows "before cfg (rs_fetch s) \<subseteq> before cfg (rs_fetch s')"
  using assms
  by (cases rule: rstep.cases) (auto simp: before_simps before_next fetch_ok_def intro: subsetD [OF before_simps(2)])

lemma flight_step:
  assumes "rstep cfg s s'" "fetch_ok cfg (rs_fetch s)" "finite (rs_flight s)" "rs_flight s \<subseteq> before cfg (rs_fetch s)"
  shows "finite (rs_flight s') \<and> rs_flight s' \<subseteq> before cfg (rs_fetch s')"
proof -
  have "rs_flight s' \<subseteq> before cfg (rs_fetch s')"
    using assms(1)
  proof cases
    case (fetch_submit p f)
    then show ?thesis using assms(2,4) before_next [of p cfg f] by (auto simp: fetch_ok_def)
  qed (use before_step [OF assms(1,2)] assms(4) in \<open>auto\<close>)
  moreover have "finite (rs_flight s')" using assms(1,3) by cases simp_all
  ultimately show ?thesis by blast
qed

text \<open>A partition whose files are all complete has none in flight, and the fetcher is past it.\<close>

lemma done_settled:
  assumes "files_inv cfg s" "part_done cfg s p" "f < n_files cfg p"
  shows "(p, f) \<notin> rs_flight s" "(p, f) \<in> before cfg (rs_fetch s)"
proof -
  let ?F = "row (rs_flight s) p" and ?B = "row (before cfg (rs_fetch s)) p"
  have fin: "finite ?F" using assms(1) by (simp add: files_inv_def finite_row)
  have "n_files cfg p + card ?F \<le> card ?B" using assms(1,2) unfolding files_inv_def part_done_def by metis
  moreover have B: "card ?B \<le> n_files cfg p" using card_mono [OF _ before_simps(4)] by fastforce
  ultimately have "card ?F = 0" "card ?B = n_files cfg p" by linarith+
  then have "?F = {}" "?B = {..<n_files cfg p}"
    using fin card_subset_eq [OF finite_lessThan before_simps(4), of cfg "rs_fetch s" p] by auto
  then show "(p, f) \<notin> rs_flight s" "(p, f) \<in> before cfg (rs_fetch s)" using assms(3) by (auto simp: row_def)
qed

lemma count_step:
  assumes "rstep cfg s s'" "files_inv cfg s"
  shows "rs_completed s' p + card (row (rs_flight s') p) \<le> card (row (before cfg (rs_fetch s')) p)"
proof -
  have inv: "fetch_ok cfg (rs_fetch s)" "finite (rs_flight s)" "rs_flight s \<subseteq> before cfg (rs_fetch s)"
    "\<And>p. rs_completed s p + card (row (rs_flight s) p) \<le> card (row (before cfg (rs_fetch s)) p)"
    using assms(2) unfolding files_inv_def by blast+
  have mono: "card (row (before cfg (rs_fetch s)) p) \<le> card (row (before cfg (rs_fetch s')) p)"
    using before_step [OF assms(1) inv(1)] by (intro card_mono finite_row before_simps(3)) (auto simp: row_def)
  have fin: "finite (row (rs_flight s) p)" using inv(2) by (rule finite_row)
  show ?thesis
    using assms(1)
  proof cases
    case (fetch_submit q f)
    have b: "before cfg (next_file cfg q f) = insert (q, f) (before cfg (F_submit q f))" "(q, f) \<notin> before cfg (F_submit q f)"
      using inv(1) fetch_submit before_next [of q cfg f] by (auto simp: fetch_ok_def)
    then have "f \<notin> row (rs_flight s) q" using inv(3) fetch_submit by (auto simp: row_mem)
    with fetch_submit b inv(4) [of p] fin show ?thesis
      by (auto simp: finite_row before_simps row_mem)
  next
    case (get_ok q f body)
    then have "f \<in> row (rs_flight s) q" by (simp add: row_mem)
    with get_ok inv(4) [of p] fin show ?thesis using card_Suc_Diff1 [of "row (rs_flight s) q" f] by auto
  next
    case (get_failed q f n e)
    then have "f \<in> row (rs_flight s) q" by (simp add: row_mem)
    with get_failed inv(4) [of p] fin show ?thesis using card_Suc_Diff1 [of "row (rs_flight s) q" f] by auto
  qed (use inv(4) [of p] mono in simp_all)
qed

lemma flight_not_consumed:
  assumes "files_inv cfg s" "workers_inv cfg s" "read_cfg_ok cfg" "x \<in> rs_flight s"
  shows "\<not> consumed cfg s x"
proof
  assume c: "consumed cfg s x"
  obtain p f where x: "x = (p, f)" by (cases x)
  have b: "p < n_parts cfg" "f < n_files cfg p" using assms(1,4) x by (auto simp: files_inv_def before_def)
  have "p mod rc_workers cfg < rc_workers cfg" using assms(3) by (simp add: read_cfg_ok_def)
  moreover have "p < rs_next s (p mod rc_workers cfg) \<or> p = rs_next s (p mod rc_workers cfg) \<and> busy (rs_worker s (p mod rc_workers cfg))"
    using c x by (auto simp: consumed_def Let_def busy_def split: worker_pc.splits)
  ultimately have "part_done cfg s p" using assms(2) b(1) unfolding workers_inv_def by metis
  from done_settled(1) [OF assms(1) this b(2)] assms(4) x show False by simp
qed

text \<open>The bodies: only those of complete files the worker is not past.\<close>

lemma bodies_step:
  assumes "rstep cfg s s'" "files_inv cfg s" "workers_inv cfg s" "read_cfg_ok cfg" "rs_bodies s' x \<noteq> None"
  shows "x \<in> before cfg (rs_fetch s') \<and> x \<notin> rs_flight s' \<and> \<not> consumed cfg s' x"
proof -
  have old: "\<And>x. rs_bodies s x \<noteq> None \<Longrightarrow> x \<in> before cfg (rs_fetch s) \<and> x \<notin> rs_flight s \<and> \<not> consumed cfg s x"
    and inv: "fetch_ok cfg (rs_fetch s)" "rs_flight s \<subseteq> before cfg (rs_fetch s)"
    using assms(2) unfolding files_inv_def by blast+
  have W: "0 < rc_workers cfg" using assms(4) by (simp add: read_cfg_ok_def)
  have lanes: "\<And>w. w < rc_workers cfg \<Longrightarrow> rs_next s w mod rc_workers cfg = w" using assms(3) by (simp add: workers_inv_def)
  note mono = before_step [OF assms(1) inv(1)]
  show ?thesis
    using assms(1)
  proof cases
    case (fetch_submit p f)
    have "(p, f) \<notin> before cfg (rs_fetch s)" using before_next [of p cfg f] inv(1) fetch_submit by (auto simp: fetch_ok_def)
    then have "x \<noteq> (p, f)" using old [of x] assms(5) fetch_submit by auto
    then show ?thesis using old [of x] assms(5) mono fetch_submit by (auto simp: consumed_def)
  next
    case (get_ok p f body)
    then show ?thesis
      using old [of x] assms(5) mono inv(2) flight_not_consumed [OF assms(2,3,4), of "(p, f)"]
      by (auto simp: consumed_def split: if_splits)
  next
    case (get_failed p f n e)
    then show ?thesis using old [of x] assms(5) mono by (auto simp: consumed_def split: if_splits)
  next
    case (decode_absent w f recs)
    then show ?thesis using old [of x] assms(5) mono
      by (cases x) (auto simp: consumed_def Let_def less_Suc_eq split: if_splits)
  next
    case (decode_file w f recs body rs n)
    then show ?thesis using old [of x] assms(5) mono
      by (cases x) (auto simp: consumed_def Let_def less_Suc_eq split: if_splits)
  next
    case (decode_end w f recs)
    then show ?thesis using old [of x] assms(5) mono
      by (cases x) (auto simp: consumed_def Let_def before_def split: if_splits)
  next
    case (worker_send w b q)
    have "fst x < rs_next s w + rc_workers cfg \<Longrightarrow> fst x mod rc_workers cfg = w \<Longrightarrow> fst x \<le> rs_next s w"
      using same_lane [of "rs_next s w" "rc_workers cfg" w "fst x"] lanes [of w] worker_send by linarith
    with worker_send lanes [of w] show ?thesis using old [of x] assms(5) mono W
      by (cases x) (auto simp: consumed_def Let_def split: if_splits)
  next
    case (emit_handoff w b cont)
    have "fst x < rs_next s w + rc_workers cfg \<Longrightarrow> fst x mod rc_workers cfg = w \<Longrightarrow> fst x \<le> rs_next s w"
      using same_lane [of "rs_next s w" "rc_workers cfg" w "fst x"] lanes [of w] emit_handoff by linarith
    with emit_handoff show ?thesis using old [of x] assms(5) mono W
      by (cases x) (auto simp: consumed_def Let_def split: if_splits)
  qed (use old [of x] assms(5) mono in \<open>auto simp: consumed_def Let_def split: if_splits\<close>)
qed

lemma submitting_simps:
  "submitting (F_acquire p f) = {}" "submitting (F_submit p f) = {(p, f)}" "submitting F_stopped = {}"
  "submitting (next_file cfg p f) = {}"
  by (simp_all add: submitting_def next_file_def)

text \<open>The slots: one for every file in flight, submitted or waiting to be decoded.\<close>

lemma slots_step:
  assumes "rstep cfg s s'" "files_inv cfg s" "finite (held s)"
  shows "finite (held s') \<and> card (held s') \<le> rs_slots s'"
proof -
  have inv: "fetch_ok cfg (rs_fetch s)" "rs_flight s \<subseteq> before cfg (rs_fetch s)" "card (held s) \<le> rs_slots s"
    "\<And>x. rs_bodies s x \<noteq> None \<Longrightarrow> x \<in> before cfg (rs_fetch s) \<and> x \<notin> rs_flight s"
    using assms(2) unfolding files_inv_def by blast+
  have less: "finite (held s') \<and> card (held s') \<le> rs_slots s'" if "held s' \<subseteq> held s" "rs_slots s \<le> rs_slots s'"
    using that inv(3) finite_subset [OF that(1) assms(3)] card_mono [OF assms(3) that(1)] by linarith
  have one: "finite (held s') \<and> card (held s') \<le> rs_slots s'" if "held s' \<subseteq> held s - {x}" "x \<in> held s" "rs_slots s' = rs_slots s - 1" for x
  proof -
    have "card (held s') \<le> card (held s - {x})" "finite (held s')"
      using that(1) assms(3) by (auto intro: card_mono finite_subset)
    then show ?thesis using that(2,3) inv(3) assms(3) by simp
  qed
  show ?thesis
    using assms(1)
  proof cases
    case (fetch_acquire p f n)
    have "held s' = insert (p, f) (held s)" using fetch_acquire by (auto simp: held_def submitting_def)
    then show ?thesis using fetch_acquire inv(3) assms(3) by (auto simp: card_insert_if)
  next
    case (get_failed p f n e)
    have "(p, f) \<notin> submitting (rs_fetch s)"
      using get_failed inv(1,2) before_next(2) [of p cfg f] by (auto simp: submitting_def fetch_ok_def split: fetch_pc.splits)
    then show ?thesis using get_failed by (intro one [of "(p, f)"]) (auto simp: held_def split: if_splits)
  next
    case (decode_file w f recs body rs n)
    have "(rs_next s w, f) \<notin> rs_flight s \<and> (rs_next s w, f) \<notin> submitting (rs_fetch s)"
      using decode_file inv(1) inv(4) [of "(rs_next s w, f)"] before_next(2) [of "rs_next s w" cfg f]
      by (auto simp: submitting_def fetch_ok_def split: fetch_pc.splits)
    then show ?thesis using decode_file by (intro one [of "(rs_next s w, f)"]) (auto simp: held_def split: if_splits)
  next
    case (decode_err w f recs body e n)
    have "(rs_next s w, f) \<notin> rs_flight s \<and> (rs_next s w, f) \<notin> submitting (rs_fetch s)"
      using decode_err inv(1) inv(4) [of "(rs_next s w, f)"] before_next(2) [of "rs_next s w" cfg f]
      by (auto simp: submitting_def fetch_ok_def split: fetch_pc.splits)
    then show ?thesis using decode_err by (intro one [of "(rs_next s w, f)"]) (auto simp: held_def split: if_splits)
  next
    case (fetch_submit p f)
    then show ?thesis by (intro less) (auto simp: held_def submitting_simps)
  next
    case (get_ok p f body)
    then show ?thesis by (intro less) (auto simp: held_def split: if_splits)
  qed (rule less; auto simp: held_def submitting_simps)+
qed

lemma finite_bodies: "files_inv cfg s \<Longrightarrow> finite (held s)"
proof -
  assume i: "files_inv cfg s"
  then have "{x. rs_bodies s x \<noteq> None} \<subseteq> before cfg (rs_fetch s)" by (auto simp: files_inv_def)
  then have "finite {x. rs_bodies s x \<noteq> None}" using before_simps(3) finite_subset by blast
  moreover have "finite (rs_flight s)" using i by (simp add: files_inv_def)
  ultimately show ?thesis by (auto simp: held_def submitting_def split: fetch_pc.splits)
qed

lemma files_step:
  assumes "rstep cfg s s'" "files_inv cfg s" "workers_inv cfg s" "read_cfg_ok cfg"
  shows "files_inv cfg s'"
proof -
  have "fetch_ok cfg (rs_fetch s)" "finite (rs_flight s)" "rs_flight s \<subseteq> before cfg (rs_fetch s)"
    using assms(2) unfolding files_inv_def by blast+
  note f = fetch_ok_step [OF assms(1) this(1) assms(4)] flight_step [OF assms(1) this]
  show ?thesis
    unfolding files_inv_def
    using f bodies_step [OF assms] slots_step [OF assms(1,2) finite_bodies [OF assms(2)]] count_step [OF assms(1,2)] by blast
qed

section \<open>The workers and the queues\<close>

lemma part_done_step:
  assumes "rstep cfg s s'" "files_inv cfg s" "part_done cfg s p"
  shows "part_done cfg s' p"
proof -
  have n: "(p, f) \<notin> rs_flight s" for f
    using done_settled(1) [OF assms(2,3)] assms(2) by (auto simp: files_inv_def before_def)
  show ?thesis using assms(1) by cases (use assms(3) n in \<open>auto simp: part_done_def\<close>)
qed

lemma busy_simps [simp]:
  "busy W_reserve" "busy (W_decode f r)" "busy (W_send b)" "\<not> busy W_wait" "\<not> busy W_stopped"
  "\<not> holds_bytes W_reserve" "holds_bytes (W_decode f r)" "holds_bytes (W_send b)" "\<not> holds_bytes W_wait" "\<not> holds_bytes W_stopped"
  by (simp_all add: busy_def holds_bytes_def)

lemma wait_simps [simp]:
  "waitOrCancel c d = Some None \<longleftrightarrow> d \<and> c = None" "waitOrCancel c d = Some (Some e) \<longleftrightarrow> c = Some e"
  by (auto simp: waitOrCancel_def)

lemma reserve_err [simp]: "reserveBytes None u cap b \<noteq> Reserve_failed e"
  by (simp add: reserveBytes_def)

lemma send_simps [simp]:
  "sendBatch c cap q b = Sent q' \<longleftrightarrow> length q < cap \<and> q' = q @ [b]"
  "sendBatch c cap q b = Send_cancelled \<longleftrightarrow> \<not> length q < cap \<and> c \<noteq> None"
  by (auto simp: sendBatch_def)

lemma emit_position:
  assumes "workers_inv cfg s" "queues_inv cfg s" "w < rc_workers cfg" "w = rs_pi s mod rc_workers cfg"
  shows "rs_queue s w = [] \<longleftrightarrow> rs_next s w = rs_pi s" "rs_queue s w \<noteq> [] \<Longrightarrow> rs_pi s + rc_workers cfg \<le> rs_next s w"
proof -
  have i: "rs_next s w mod rc_workers cfg = w" "rs_pi s \<le> rs_next s w" using assms(1,3) by (simp_all add: workers_inv_def)
  have q: "map pr_refs (rs_queue s w) = map (\<lambda>p. ps_files (rc_parts cfg ! p)) (lane (rc_workers cfg) w (rs_pi s) (rs_next s w))"
    using assms(2,3) by (simp add: queues_inv_def)
  have e: "rs_queue s w = [] \<longleftrightarrow> lane (rc_workers cfg) w (rs_pi s) (rs_next s w) = []"
    using q by (metis map_is_Nil_conv)
  show a: "rs_queue s w = [] \<longleftrightarrow> rs_next s w = rs_pi s"
    using e lane_Nil [of "rc_workers cfg" w "rs_pi s" "rs_next s w"] assms(4) i by force
  show "rs_pi s + rc_workers cfg \<le> rs_next s w" if "rs_queue s w \<noteq> []"
    using that a i assms(4) same_lane [of "rs_pi s" "rc_workers cfg" w "rs_next s w"] by fastforce
qed

lemma workers_frame:
  assumes "workers_inv cfg s" "\<And>p. part_done cfg s p \<Longrightarrow> part_done cfg s' p" "rs_pi s' = rs_pi s" "rs_next s' = rs_next s"
    "rs_end s' \<noteq> None \<Longrightarrow> rs_cause s' \<noteq> None"
    "\<And>w. w < rc_workers cfg \<Longrightarrow> busy (rs_worker s' w) \<Longrightarrow> rs_next s w < n_parts cfg \<and> part_done cfg s (rs_next s w)"
    "\<And>w. w < rc_workers cfg \<Longrightarrow> rs_worker s' w = W_stopped \<Longrightarrow> rs_cause s' = None \<Longrightarrow> n_parts cfg \<le> rs_next s w"
  shows "workers_inv cfg s'"
  using assms unfolding workers_inv_def by simp

lemma workers_step:
  assumes "rstep cfg s s'" "files_inv cfg s" "workers_inv cfg s" "queues_inv cfg s" "read_cfg_ok cfg"
  shows "workers_inv cfg s'"
proof -
  have W: "0 < rc_workers cfg" using assms(5) by (simp add: read_cfg_ok_def)
  note d = part_done_step [OF assms(1,2)]
  have inv: "rs_pi s \<le> n_parts cfg" "rs_end s \<noteq> None \<Longrightarrow> rs_cause s \<noteq> None"
    "\<And>w. w < rc_workers cfg \<Longrightarrow> rs_next s w mod rc_workers cfg = w"
    "\<And>w. w < rc_workers cfg \<Longrightarrow> rs_pi s \<le> rs_next s w"
    "\<And>w. w < rc_workers cfg \<Longrightarrow> busy (rs_worker s w) \<Longrightarrow> rs_next s w < n_parts cfg"
    "\<And>w. w < rc_workers cfg \<Longrightarrow> busy (rs_worker s w) \<Longrightarrow> part_done cfg s (rs_next s w)"
    "\<And>w. w < rc_workers cfg \<Longrightarrow> rs_worker s w = W_stopped \<Longrightarrow> rs_cause s = None \<Longrightarrow> n_parts cfg \<le> rs_next s w"
    "\<And>p. p < n_parts cfg \<Longrightarrow> p < rs_next s (p mod rc_workers cfg) \<Longrightarrow> part_done cfg s p"
    using assms(3) unfolding workers_inv_def by blast+
  have pos: "w < rc_workers cfg \<Longrightarrow> rs_pi s mod rc_workers cfg \<noteq> w \<Longrightarrow> Suc (rs_pi s) \<le> rs_next s w" for w
    using inv(3,4) [of w] by (metis Suc_leI le_neq_implies_less)
  note ep = emit_position [OF assms(3,4)]
  have sent: "part_done cfg s p" if "w < rc_workers cfg" "rs_worker s w = W_send b" "p < n_parts cfg" "p mod rc_workers cfg = w"
      "p < rs_next s w + rc_workers cfg" for w b p
  proof (cases "p = rs_next s w")
    case False
    then have "p < rs_next s w"
      using same_lane [of "rs_next s w" "rc_workers cfg" w p] inv(3) [of w] that by linarith
    then show ?thesis using inv(8) that by blast
  qed (use that inv(6) [of w] in simp)
  show ?thesis
    using assms(1)
  proof cases
    case (worker_send w b q)
    then show ?thesis using inv d sent unfolding workers_inv_def by (auto intro: trans_le_add1)
  next
    case (emit_receive w b q cont)
    have w: "w < rc_workers cfg" using emit_receive W by simp
    have "Suc (rs_pi s) \<le> rs_next s v" if "v < rc_workers cfg" for v
      using pos [of v] that ep(2) [OF w] emit_receive W by (cases "v = w") auto
    then show ?thesis using emit_receive inv d unfolding workers_inv_def by auto
  next
    case (emit_handoff w b cont)
    have "Suc (rs_pi s) \<le> rs_next s v" if "v < rc_workers cfg" "v \<noteq> w" for v
      using pos [of v] that emit_handoff by simp
    moreover have "Suc (rs_pi s) \<le> rs_next s w + rc_workers cfg" using ep(1) [of w] emit_handoff W by simp
    ultimately show ?thesis using emit_handoff(1-3,5-7) inv d sent unfolding workers_inv_def by auto
  qed (rule workers_frame [OF assms(3) d]; (use inv(2,5,6,7) in \<open>auto simp: record_unless_ctx_def split: if_splits\<close>))+
qed

lemma send_length: "rs_worker s w = W_send b \<Longrightarrow> w < rc_workers cfg \<Longrightarrow> queues_inv cfg s \<Longrightarrow> pr_refs b = ps_files (rc_parts cfg ! rs_next s w)"
  by (simp add: queues_inv_def)

text \<open>The bytes of a worker are those of the batches between its reservation and their emission.\<close>

lemma queues_step:
  assumes "rstep cfg s s'" "workers_inv cfg s" "queues_inv cfg s" "read_cfg_ok cfg"
  shows "queues_inv cfg s'"
proof -
  let ?W = "rc_workers cfg" and ?u = "\<lambda>p. max (uncomp_of cfg p) 0" and ?ps = "\<lambda>p. ps_files (rc_parts cfg ! p)"
  have W: "0 < ?W" using assms(4) by (simp add: read_cfg_ok_def)
  have nxt: "\<And>w. w < ?W \<Longrightarrow> rs_next s w mod ?W = w" "\<And>w. w < ?W \<Longrightarrow> rs_pi s \<le> rs_next s w"
    using assms(2) unfolding workers_inv_def by blast+
  have q: "\<And>w. w < ?W \<Longrightarrow> map pr_refs (rs_queue s w) = map ?ps (lane ?W w (rs_pi s) (rs_next s w))"
    "\<And>w b. w < ?W \<Longrightarrow> rs_worker s w = W_send b \<Longrightarrow> pr_refs b = ?ps (rs_next s w)"
    "\<And>w. w < ?W \<Longrightarrow> rc_budget cfg > 0 \<Longrightarrow> rs_bytes s w = sum_list (map ?u (lane ?W w (rs_pi s) (rs_next s w)))
           + (if holds_bytes (rs_worker s w) then ?u (rs_next s w) else 0)"
    using assms(3) unfolding queues_inv_def by blast+
  note ep = emit_position [OF assms(2,3)]
  have adv: "lane ?W w (rs_pi s) (rs_next s w + ?W) = lane ?W w (rs_pi s) (rs_next s w) @ [rs_next s w]" if "w < ?W" for w
    using nxt that W by (intro lane_step) auto
  have other: "lane ?W w (Suc (rs_pi s)) b = lane ?W w (rs_pi s) b" if "rs_pi s mod ?W \<noteq> w" for w b
    using lane_first [of "rs_pi s" b ?W w] that by (cases "rs_pi s < b") auto
  have u: "fst (fileRefStats (?ps p)) = uncomp_of cfg p" for p by (simp add: uncomp_of_def)
  show ?thesis
    using assms(1)
  proof cases
    case (worker_reserved w b)
    then show ?thesis using q reserve_bytes [of "rs_cause s" "uncomp_of cfg (rs_next s w)" "rc_budget cfg" "rs_bytes s w" b]
      unfolding queues_inv_def by (auto simp del: max.bounded_iff)
  next
    case (decode_end w f recs)
    then show ?thesis using q unfolding queues_inv_def by (auto simp: batch_of_def Let_def)
  next
    case (worker_send w b q')
    then show ?thesis using q adv [of w] unfolding queues_inv_def by auto
  next
    case (emit_receive w b q' cont)
    have w: "w < ?W" using emit_receive W by simp
    have l: "lane ?W w (rs_pi s) (rs_next s w) = rs_pi s # lane ?W w (Suc (rs_pi s)) (rs_next s w)"
      using lane_first [of "rs_pi s" "rs_next s w" ?W w] ep(2) [OF w] emit_receive W by fastforce
    then have b: "pr_refs b = ?ps (rs_pi s)" "map pr_refs q' = map ?ps (lane ?W w (Suc (rs_pi s)) (rs_next s w))"
      using q(1) [OF w] emit_receive(5) by simp_all
    show ?thesis using emit_receive(1,4) q other b l u unfolding queues_inv_def by auto
  next
    case (emit_handoff w b cont)
    then have e: "rs_next s w = rs_pi s" using ep(1) [of w] by simp
    have "lane ?W w (Suc (rs_pi s)) (rs_next s w + ?W) = []"
      using adv [of w] lane_first [of "rs_pi s" "rs_next s w + ?W" ?W w] emit_handoff W e by simp
    then show ?thesis using emit_handoff q other u e unfolding queues_inv_def by auto
  qed (use q in \<open>auto simp: queues_inv_def release_bytes\<close>)+
qed

text \<open>The three together, along a run.\<close>

definition read_inv :: "'r read_cfg \<Rightarrow> 'r read_state \<Rightarrow> bool" where
  "read_inv cfg s \<longleftrightarrow> files_inv cfg s \<and> workers_inv cfg s \<and> queues_inv cfg s"

lemma read_inv_step: "rstep cfg s s' \<Longrightarrow> read_cfg_ok cfg \<Longrightarrow> read_inv cfg s \<Longrightarrow> read_inv cfg s'"
  using files_step workers_step queues_step by (metis read_inv_def)

lemma read_inv_start: "read_cfg_ok cfg \<Longrightarrow> read_inv cfg read_start"
  by (auto simp: read_inv_def read_start_def files_inv_def workers_inv_def queues_inv_def fetch_ok_def held_def
      submitting_simps read_cfg_ok_def lane_def before_def )
     (meson leD mod_less_eq_dividend)+

lemma read_inv_reach: "read_reach cfg s \<Longrightarrow> read_cfg_ok cfg \<Longrightarrow> read_inv cfg s"
  by (induction rule: read_reach.induct) (auto intro: read_inv_start read_inv_step)

section \<open>Without errors that only look like a cancellation\<close>

lemma cause_mono: "rstep cfg s s' \<Longrightarrow> rs_cause s' = None \<Longrightarrow> rs_cause s = None"
  by (cases rule: rstep.cases) (auto split: if_splits)

lemma gerr_step:
  assumes "rstep cfg s s'" "\<not> rc_timeouts cfg" "rs_gerr s \<longrightarrow> rs_cause s \<noteq> None"
  shows "rs_gerr s' \<longrightarrow> rs_cause s' \<noteq> None"
  using assms(1) by cases (use assms(2,3) in \<open>auto simp: gdone_def\<close>)

text \<open>While the context lives no file is skipped, no GET fails and the loops run on.\<close>

lemma live_steps:
  assumes "rstep cfg s s'" "\<not> rc_timeouts cfg" "rs_gerr s \<longrightarrow> rs_cause s \<noteq> None" "rs_cause s' = None"
  shows "\<not> gdone s" "rs_gerr s' = rs_gerr s" "rs_end s' = rs_end s"
  using assms(1) cause_mono [OF assms(1,4)] assms(2-4)
  by (auto simp: gdone_def elim!: rstep.cases split: if_splits)

lemma consumed_mono:
  assumes "rstep cfg s s'" "rs_cause s' = None" "consumed cfg s x"
  shows "consumed cfg s' x"
  using assms(1)
  by cases (use assms(2,3) in \<open>auto simp: consumed_def Let_def split: if_splits\<close>)

lemma slots_live:
  assumes "rstep cfg s s'" "files_inv cfg s" "\<not> rc_timeouts cfg" "live_inv cfg s" "rs_cause s' = None"
  shows "rs_slots s' = card (held s')"
proof -
  have c: "rs_cause s = None" using cause_mono [OF assms(1,5)] .
  have inv: "fetch_ok cfg (rs_fetch s)" "rs_flight s \<subseteq> before cfg (rs_fetch s)"
    "\<And>x. rs_bodies s x \<noteq> None \<Longrightarrow> x \<in> before cfg (rs_fetch s) \<and> x \<notin> rs_flight s"
    using assms(2) unfolding files_inv_def by blast+
  have g: "\<not> gdone s" "rs_slots s = card (held s)"
    using assms(4) c live_steps(1) [OF assms(1,3) _ assms(5)] by (simp_all add: live_inv_def)
  note fin = finite_bodies [OF assms(2)]
  have same: "rs_slots s' = card (held s')" if "held s' = held s" "rs_slots s' = rs_slots s"
    using that g(2) by simp
  show ?thesis
    using assms(1)
  proof cases
    case (fetch_acquire p f n)
    have "(p, f) \<notin> held s"
      using fetch_acquire inv(1,2) inv(3) [of "(p, f)"] before_next(2) [of p cfg f]
      by (cases "rs_bodies s (p, f)") (auto simp: held_def submitting_simps before_simps fetch_ok_def)
    moreover have "held s' = insert (p, f) (held s)" using fetch_acquire by (auto simp: held_def submitting_simps)
    ultimately show ?thesis using fetch_acquire g(2) fin by simp
  next
    case (decode_file w f recs body rs n)
    have "(rs_next s w, f) \<notin> rs_flight s \<and> (rs_next s w, f) \<notin> submitting (rs_fetch s)"
      using decode_file inv(1) inv(3) [of "(rs_next s w, f)"] before_next(2) [of "rs_next s w" cfg f]
      by (auto simp: submitting_def fetch_ok_def split: fetch_pc.splits)
    then have "held s' = held s - {(rs_next s w, f)}" "(rs_next s w, f) \<in> held s"
      using decode_file by (auto simp: held_def split: if_splits)
    then show ?thesis using decode_file g(2) fin by simp
  next
    case (get_failed p f n e)
    then show ?thesis using assms(3,5) g(1) by simp
  next
    case (get_ok p f body)
    then show ?thesis by (intro same) (auto simp: held_def split: if_splits)
  next
    case (fetch_submit p f)
    then show ?thesis by (intro same) (auto simp: held_def submitting_simps)
  qed (rule same; use g(1) assms(5) in \<open>auto simp: held_def submitting_simps split: if_splits\<close>)+
qed

lemma count_live:
  assumes "rstep cfg s s'" "files_inv cfg s" "\<not> rc_timeouts cfg" "live_inv cfg s" "rs_cause s' = None"
  shows "rs_completed s' p + card (row (rs_flight s') p) = card (row (before cfg (rs_fetch s')) p)"
proof -
  have c: "rs_cause s = None" using cause_mono [OF assms(1,5)] .
  have inv: "fetch_ok cfg (rs_fetch s)" "finite (rs_flight s)" "rs_flight s \<subseteq> before cfg (rs_fetch s)"
    using assms(2) unfolding files_inv_def by blast+
  have g: "\<not> gdone s" "\<And>p. rs_completed s p + card (row (rs_flight s) p) = card (row (before cfg (rs_fetch s)) p)"
    using assms(4) c live_steps(1) [OF assms(1,3) _ assms(5)] by (simp_all add: live_inv_def)
  have fin: "finite (row (rs_flight s) p)" using inv(2) by (rule finite_row)
  show ?thesis
    using assms(1)
  proof cases
    case (fetch_submit q f)
    have b: "before cfg (next_file cfg q f) = insert (q, f) (before cfg (F_submit q f))" "(q, f) \<notin> before cfg (F_submit q f)"
      using inv(1) fetch_submit before_next [of q cfg f] by (auto simp: fetch_ok_def)
    then have "f \<notin> row (rs_flight s) q" using inv(3) fetch_submit by (auto simp: row_mem)
    with fetch_submit b g(2) [of p] fin show ?thesis
      by (auto simp: finite_row before_simps row_mem)
  next
    case (get_ok q f body)
    then have "f \<in> row (rs_flight s) q" by (simp add: row_mem)
    with get_ok g(2) [of p] fin show ?thesis using card_Suc_Diff1 [of "row (rs_flight s) q" f] by auto
  next
    case (get_failed q f n e)
    then show ?thesis using assms(3,5) g(1) by simp
  next
    case (fetch_end q f)
    have "before cfg F_stopped = before cfg (F_acquire q f)" using fetch_end by (auto simp: before_def)
    with fetch_end g(2) [of p] show ?thesis by simp
  qed (use g in \<open>simp_all add: before_simps\<close>)
qed

lemma data_live:
  assumes "rstep cfg s s'" "files_inv cfg s" "\<not> rc_timeouts cfg" "live_inv cfg s" "rs_cause s' = None" "workers_inv cfg s"
    "x \<in> before cfg (rs_fetch s')"
  shows "x \<in> rs_flight s' \<or> landed cfg x (rs_bodies s' x) \<or> consumed cfg s' x"
proof -
  have c: "rs_cause s = None" using cause_mono [OF assms(1,5)] .
  have inv: "fetch_ok cfg (rs_fetch s)" using assms(2) unfolding files_inv_def by blast
  have g: "\<not> gdone s" "\<And>x. x \<in> before cfg (rs_fetch s) \<Longrightarrow> x \<in> rs_flight s \<or> landed cfg x (rs_bodies s x) \<or> consumed cfg s x"
    using assms(4) c live_steps(1) [OF assms(1,3) _ assms(5)] by (auto simp add: live_inv_def)
  note mono = consumed_mono [OF assms(1,5)]
  show ?thesis
    using assms(1)
  proof cases
    case (fetch_submit p f)
    then show ?thesis using g(2) [of x] mono [of x] assms(7) inv before_next(1) [of p cfg f] by (auto simp: fetch_ok_def)
  next
    case (get_ok p f body)
    then show ?thesis using g(2) [of x] mono [of x] assms(7) by (auto simp: landed_def)
  next
    case (get_failed p f n e)
    then show ?thesis using assms(3,5) g(1) by simp
  next
    case (decode_file w f recs body rs n)
    have "rs_next s w mod rc_workers cfg = w" using assms(6) decode_file by (simp add: workers_inv_def)
    then have "consumed cfg s' (rs_next s w, f)" using decode_file by (simp add: consumed_def Let_def)
    then show ?thesis using g(2) [of x] mono [of x] assms(7) decode_file(1) by auto
  next
    case (fetch_end q f)
    have "before cfg F_stopped = before cfg (F_acquire q f)" using fetch_end by (auto simp: before_def)
    with fetch_end g(2) [of x] mono [of x] assms(7) show ?thesis by auto
  qed (use g(1) g(2) [of x] mono [of x] assms(5,7) in \<open>auto simp: before_simps split: if_splits\<close>)
qed

lemma live_step:
  assumes "rstep cfg s s'" "read_inv cfg s" "\<not> rc_timeouts cfg" "live_inv cfg s"
  shows "live_inv cfg s'"
proof -
  have f: "files_inv cfg s" "workers_inv cfg s" using assms(2) by (simp_all add: read_inv_def)
  have "rs_gerr s' \<longrightarrow> rs_cause s' \<noteq> None" using gerr_step [OF assms(1,3)] assms(4) by (simp add: live_inv_def)
  then show ?thesis
    unfolding live_inv_def
    using slots_live [OF assms(1) f(1) assms(3,4)] count_live [OF assms(1) f(1) assms(3,4)] data_live [OF assms(1) f(1) assms(3,4) _ f(2)]
    by blast
qed

lemma decode_all_snoc:
  "decode_all cfg (ks @ [k]) = (case decode_all cfg ks of Inl e \<Rightarrow> Inl e
     | Inr rs \<Rightarrow> (case rc_object cfg k of None \<Rightarrow> Inl (''get '' @ k)
         | Some body \<Rightarrow> (case rc_decode cfg body of Inl e \<Rightarrow> Inl e | Inr r \<Rightarrow> Inr (rs @ r))))"
  by (induction ks) (auto split: sum.splits option.splits)

lemma keys_nth: "f < n_files cfg p \<Longrightarrow> take (Suc f) (keys_of cfg p) = take f (keys_of cfg p) @ [file_key cfg p f]"
  by (simp add: keys_of_def n_files_def file_key_def take_Suc_conv_app_nth)

text \<open>The bodies a decoding worker has before it stay where they are.\<close>

lemma own_bodies:
  assumes "rstep cfg s s'" "read_inv cfg s" "w < rc_workers cfg" "busy (rs_worker s w)" "rs_bodies s (rs_next s w, f) = Some b"
    "\<And>g r. rs_worker s w = W_decode g r \<Longrightarrow> rs_worker s' w \<noteq> rs_worker s w \<Longrightarrow> f \<noteq> g"
  shows "rs_bodies s' (rs_next s w, f) = Some b"
proof -
  have f: "files_inv cfg s" "workers_inv cfg s" using assms(2) by (simp_all add: read_inv_def)
  then have "(rs_next s w, f) \<notin> rs_flight s" using assms(5) by (auto simp: files_inv_def)
  moreover have "rs_next s v \<noteq> rs_next s w" if "v < rc_workers cfg" "v \<noteq> w" for v
  proof -
    have "rs_next s v mod rc_workers cfg = v" "rs_next s w mod rc_workers cfg = w"
      using f(2) that(1) assms(3) by (simp_all add: workers_inv_def)
    then show ?thesis using that(2) by metis
  qed
  ultimately have x: "(rs_next s w, f) \<notin> rs_flight s" "\<And>v. v < rc_workers cfg \<Longrightarrow> v \<noteq> w \<Longrightarrow> rs_next s v \<noteq> rs_next s w" by blast+
  show ?thesis
    using assms(1)
  proof cases
    case (decode_file v g recs body rs n)
    then show ?thesis using x(1) x(2) [of v] assms(3-6) by (cases "v = w") auto
  next
    case (decode_err v g recs body e n)
    then show ?thesis using x(1) x(2) [of v] assms(3-6) by (cases "v = w") auto
  qed (use x(1) assms(5) in auto)
qed

lemma worker_data_same:
  assumes "rstep cfg s s'" "read_inv cfg s" "w < rc_workers cfg" "worker_data cfg s w"
    "rs_worker s' w = rs_worker s w" "rs_next s' w = rs_next s w"
  shows "worker_data cfg s' w"
proof -
  have keep: "landed cfg x (rs_bodies s' x)"
    if k: "x = (rs_next s w, f)" "landed cfg x (rs_bodies s x)" "busy (rs_worker s w)" for x f
  proof -
    obtain b where b: "rs_bodies s (rs_next s w, f) = Some b" using k(1,2) unfolding landed_def by blast
    then have "rs_bodies s' (rs_next s w, f) = Some b" using own_bodies [OF assms(1-3) k(3), of f b] assms(5) by blast
    with k b show ?thesis by simp
  qed
  show ?thesis using assms(4-6) keep unfolding worker_data_def Let_def by auto
qed

lemma worker_data_step:
  assumes "rstep cfg s s'" "read_inv cfg s" "\<not> rc_timeouts cfg" "live_inv cfg s" "v < rc_workers cfg" "worker_data cfg s v"
  shows "worker_data cfg s' v"
proof -
  have f: "files_inv cfg s" "workers_inv cfg s" using assms(2) by (simp_all add: read_inv_def)
  have q: "\<And>f. rs_worker s v = W_reserve \<Longrightarrow> f < n_files cfg (rs_next s v) \<Longrightarrow>
        landed cfg (rs_next s v, f) (rs_bodies s (rs_next s v, f))"
    "\<And>g acc. rs_worker s v = W_decode g acc \<Longrightarrow> g \<le> n_files cfg (rs_next s v)"
    "\<And>g acc f. rs_worker s v = W_decode g acc \<Longrightarrow> g \<le> f \<Longrightarrow> f < n_files cfg (rs_next s v) \<Longrightarrow>
        landed cfg (rs_next s v, f) (rs_bodies s (rs_next s v, f))"
    "\<And>g acc. rs_worker s v = W_decode g acc \<Longrightarrow> decode_all cfg (take g (keys_of cfg (rs_next s v))) = Inr acc"
    using assms(6) unfolding worker_data_def Let_def by blast+
  note same = worker_data_same [OF assms(1,2,5,6)]
  have idle: "worker_data cfg s' v" if "rs_worker s' v \<in> {W_wait, W_stopped}"
    using that by (auto simp: worker_data_def)
  show ?thesis
    using assms(1)
  proof cases
    case (worker_ready w)
    show ?thesis
    proof (cases "w = v")
      case True
      have "landed cfg (rs_next s v, f) (rs_bodies s (rs_next s v, f))" if "f < n_files cfg (rs_next s v)" for f
      proof -
        have d: "part_done cfg s (rs_next s v)" using worker_ready True by simp
        have "\<not> consumed cfg s (rs_next s v, f)"
          using worker_ready(3) True f(2) assms(5) by (simp add: consumed_def Let_def workers_inv_def)
        moreover have "rs_cause s = None" using worker_ready by simp
        ultimately show ?thesis using done_settled [OF f(1) d that] assms(4) unfolding live_inv_def by blast
      qed
      then show ?thesis using worker_ready True by (simp add: worker_data_def Let_def)
    qed (rule same; use worker_ready in simp)
  next
    case (worker_reserved w b)
    show ?thesis
    proof (cases "w = v")
      case True
      then show ?thesis using worker_reserved q(1) by (simp add: worker_data_def Let_def)
    qed (rule same; use worker_reserved in simp)
  next
    case (decode_absent w f recs)
    show ?thesis
    proof (cases "w = v")
      case True
      then show ?thesis using decode_absent q(3) [of f recs f] by (simp add: landed_def)
    qed (rule same; use decode_absent in simp)
  next
    case (decode_file w f recs body rs n)
    show ?thesis
    proof (cases "w = v")
      case True
      then have b: "rc_object cfg (file_key cfg (rs_next s v) f) = Some body" using decode_file q(3) [of f recs f] by (simp add: landed_def)
      have "decode_all cfg (take (Suc f) (keys_of cfg (rs_next s v))) = Inr (recs @ rs)"
        using decode_file True b q(4) [of f recs] by (simp add: keys_nth decode_all_snoc)
      then show ?thesis using decode_file True q(3) [of f recs] by (simp add: worker_data_def Let_def)
    qed (rule same; use decode_file in simp)
  next
    case (decode_end w f recs)
    show ?thesis
    proof (cases "w = v")
      case True
      then have "f = length (keys_of cfg (rs_next s v))"
        using decode_end q(2) [of f recs] by (simp add: keys_of_def n_files_def)
      then have "decode_all cfg (keys_of cfg (rs_next s v)) = Inr recs" using decode_end True q(4) [of f recs] by simp
      then show ?thesis using decode_end True by (simp add: worker_data_def Let_def seq_part_def keys_of_def)
    qed (rule same; use decode_end in simp)
  next
    case (worker_send w b q)
    show ?thesis
    proof (cases "w = v")
      case True
      then show ?thesis using worker_send by (intro idle) simp
    qed (rule same; use worker_send in simp)
  next
    case (emit_handoff w b cont)
    show ?thesis
    proof (cases "w = v")
      case True
      then show ?thesis using emit_handoff by (intro idle) simp
    qed (rule same; use emit_handoff in simp)
  next
    case (decode_err w f recs body e n)
    show ?thesis
    proof (cases "w = v")
      case True
      then show ?thesis using decode_err by (intro idle) simp
    qed (rule same; use decode_err in simp)
  next
    case (worker_send_err w b)
    show ?thesis
    proof (cases "w = v")
      case True
      then show ?thesis using worker_send_err by (intro idle) simp
    qed (rule same; use worker_send_err in simp)
  next
    case (worker_reserve_err w e)
    show ?thesis
    proof (cases "w = v")
      case True
      then show ?thesis using worker_reserve_err by (intro idle) simp
    qed (rule same; use worker_reserve_err in simp)
  next
    case (worker_wait_err w e)
    show ?thesis
    proof (cases "w = v")
      case True
      then show ?thesis using worker_wait_err by (intro idle) simp
    qed (rule same; use worker_wait_err in simp)
  next
    case (worker_end w)
    show ?thesis
    proof (cases "w = v")
      case True
      then show ?thesis using worker_end by (intro idle) simp
    qed (rule same; use worker_end in simp)
  qed (rule same; simp)+
qed

lemma data_step:
  assumes "rstep cfg s s'" "read_inv cfg s" "\<not> rc_timeouts cfg" "live_inv cfg s" "data_inv cfg s" "read_cfg_ok cfg"
  shows "data_inv cfg s'"
proof -
  let ?W = "rc_workers cfg"
  have f: "files_inv cfg s" "workers_inv cfg s" "queues_inv cfg s" using assms(2) by (simp_all add: read_inv_def)
  have W: "0 < ?W" using assms(6) by (simp add: read_cfg_ok_def)
  have nxt: "\<And>w. w < ?W \<Longrightarrow> rs_next s w mod ?W = w" "\<And>w. w < ?W \<Longrightarrow> rs_pi s \<le> rs_next s w"
    using f(2) unfolding workers_inv_def by blast+
  have d: "\<And>w. w < ?W \<Longrightarrow> worker_data cfg s w"
    "\<And>w. w < ?W \<Longrightarrow> map Inr (rs_queue s w) = map (seq_part cfg) (lane ?W w (rs_pi s) (rs_next s w))"
    "map Inr (rs_out s) = map (seq_part cfg) [0..<rs_pi s]"
    using assms(5) unfolding data_inv_def by blast+
  have send: "seq_part cfg (rs_next s w) = Inr b" if "w < ?W" "rs_worker s w = W_send b" for w b
    using d(1) [OF that(1)] that(2) by (simp add: worker_data_def Let_def)
  note ep = emit_position [OF f(2,3)]
  have adv: "lane ?W w (rs_pi s) (rs_next s w + ?W) = lane ?W w (rs_pi s) (rs_next s w) @ [rs_next s w]" if "w < ?W" for w
    using nxt that W by (intro lane_step) auto
  have other: "lane ?W w (Suc (rs_pi s)) b = lane ?W w (rs_pi s) b" if "rs_pi s mod ?W \<noteq> w" for w b
    using lane_first [of "rs_pi s" b ?W w] that by (cases "rs_pi s < b") auto
  have wd: "worker_data cfg s' w" if "w < ?W" for w
    by (rule worker_data_step [OF assms(1-4) that d(1) [OF that]])
  have "(\<forall>w < ?W. map Inr (rs_queue s' w) = map (seq_part cfg) (lane ?W w (rs_pi s') (rs_next s' w)))
      \<and> map Inr (rs_out s') = map (seq_part cfg) [0..<rs_pi s']"
    using assms(1)
  proof cases
    case (worker_send w b q')
    then show ?thesis using d(2,3) adv [of w] send [of w b] by auto
  next
    case (emit_receive w b q' cont)
    have w: "w < ?W" using emit_receive W by simp
    have l: "lane ?W w (rs_pi s) (rs_next s w) = rs_pi s # lane ?W w (Suc (rs_pi s)) (rs_next s w)"
      using lane_first [of "rs_pi s" "rs_next s w" ?W w] ep(2) [OF w] emit_receive W by fastforce
    then have b: "Inr b = seq_part cfg (rs_pi s)" "map Inr q' = map (seq_part cfg) (lane ?W w (Suc (rs_pi s)) (rs_next s w))"
      using d(2) [OF w] emit_receive(5) by simp_all
    have "map Inr (rs_queue s' v) = map (seq_part cfg) (lane ?W v (rs_pi s') (rs_next s' v))" if "v < ?W" for v
      using emit_receive(1,4) d(2) [OF that] other [of v] b(2) by (cases "v = w") auto
    moreover have "map Inr (rs_out s') = map (seq_part cfg) [0..<rs_pi s']"
      using emit_receive(1) d(3) b(1) by simp
    ultimately show ?thesis by blast
  next
    case (emit_handoff w b cont)
    then have e: "rs_next s w = rs_pi s" using ep(1) [of w] by simp
    have n: "lane ?W w (Suc (rs_pi s)) (rs_next s w + ?W) = []"
      using adv [of w] lane_first [of "rs_pi s" "rs_next s w + ?W" ?W w] emit_handoff W e by simp
    have "map Inr (rs_queue s' v) = map (seq_part cfg) (lane ?W v (rs_pi s') (rs_next s' v))" if "v < ?W" for v
      using emit_handoff(1,4,6) d(2) [OF that] other [of v] n by (cases "v = w") auto
    moreover have "map Inr (rs_out s') = map (seq_part cfg) [0..<rs_pi s']"
      using emit_handoff(1) d(3) send [of w b] emit_handoff(5,7) e by simp
    ultimately show ?thesis by blast
  qed (use d(2,3) in simp_all)
  then show ?thesis unfolding data_inv_def using wd by blast
qed

lemma data_reach: "read_reach cfg s \<Longrightarrow> read_cfg_ok cfg \<Longrightarrow> \<not> rc_timeouts cfg \<Longrightarrow> live_inv cfg s \<and> data_inv cfg s"
proof (induction rule: read_reach.induct)
  case start
  then show ?case
    by (auto simp: live_inv_def data_inv_def worker_data_def read_start_def held_def submitting_simps before_def row_def lane_def)
next
  case (step s s')
  then show ?case using live_step data_step read_inv_reach by blast
qed

section \<open>Every run is finite\<close>

definition files_left :: "'r read_cfg \<Rightarrow> fetch_pc \<Rightarrow> nat" where
  "files_left cfg pc = card (before cfg F_stopped - before cfg pc)"

definition fetch_work :: "'r read_cfg \<Rightarrow> fetch_pc \<Rightarrow> nat" where
  "fetch_work cfg pc = (case pc of F_acquire _ _ \<Rightarrow> 3 * files_left cfg pc + 2 | F_submit _ _ \<Rightarrow> 3 * files_left cfg pc + 1 | F_stopped \<Rightarrow> 0)"

definition lane_work :: "'r read_cfg \<Rightarrow> nat \<Rightarrow> nat \<Rightarrow> nat" where
  "lane_work cfg w p = sum_list (map (\<lambda>p. n_files cfg p + 4) (lane (rc_workers cfg) w p (n_parts cfg)))"

definition worker_work :: "'r read_cfg \<Rightarrow> nat \<Rightarrow> nat \<Rightarrow> 'r worker_pc \<Rightarrow> nat" where
  "worker_work cfg w p pc =
     (case pc of
        W_wait \<Rightarrow> lane_work cfg w p + 1
      | W_reserve \<Rightarrow> lane_work cfg w p
      | W_decode f _ \<Rightarrow> lane_work cfg w (p + rc_workers cfg) + 3 + (n_files cfg p - f)
      | W_send _ \<Rightarrow> lane_work cfg w (p + rc_workers cfg) + 2
      | W_stopped \<Rightarrow> 0)"

definition read_work :: "'r read_cfg \<Rightarrow> 'r read_state \<Rightarrow> nat" where
  "read_work cfg s = fetch_work cfg (rs_fetch s) + card (rs_flight s)
     + (\<Sum>w < rc_workers cfg. worker_work cfg w (rs_next s w) (rs_worker s w)) + (n_parts cfg - rs_pi s)
     + (if rs_end s = None then 1 else 0) + (if rs_cause s = None then 1 else 0)"

lemma files_left_next:
  assumes "p < n_parts cfg" "f < n_files cfg p"
  shows "Suc (files_left cfg (next_file cfg p f)) = files_left cfg (F_submit p f)"
    "files_left cfg (F_acquire p f) = files_left cfg (F_submit p f)"
proof -
  have "(p, f) \<in> before cfg F_stopped - before cfg (F_submit p f)"
    using assms before_next(2) [OF assms] by (auto simp: before_def)
  moreover have "before cfg F_stopped - before cfg (next_file cfg p f) = (before cfg F_stopped - before cfg (F_submit p f)) - {(p, f)}"
    using before_next(1) [OF assms] by auto
  ultimately show "Suc (files_left cfg (next_file cfg p f)) = files_left cfg (F_submit p f)"
    unfolding files_left_def using card_Suc_Diff1 [of "before cfg F_stopped - before cfg (F_submit p f)" "(p, f)"]
    by (simp add: before_simps)
qed (simp add: files_left_def before_simps)

lemma lane_work_first:
  assumes "p mod rc_workers cfg = w" "p < n_parts cfg" "0 < rc_workers cfg"
  shows "lane_work cfg w p = n_files cfg p + 4 + lane_work cfg w (p + rc_workers cfg)"
  using assms lane_first [of p "n_parts cfg" "rc_workers cfg" w] lane_rest [of p "rc_workers cfg" w "n_parts cfg"]
  by (simp add: lane_work_def)

lemma sum_upd:
  assumes "(w :: nat) < W" "f' w < f w" "\<And>v. v < W \<Longrightarrow> v \<noteq> w \<Longrightarrow> f' v = f v"
  shows "(\<Sum>v < W. f' v) < (\<Sum>v < W. (f v :: nat))"
  using assms by (intro sum_strict_mono_ex1) (auto simp: le_less)

lemma read_work_step:
  assumes "rstep cfg s s'" "read_inv cfg s"
  shows "read_work cfg s' < read_work cfg s"
proof -
  let ?wk = "\<lambda>s v. worker_work cfg v (rs_next s v) (rs_worker s v)"
  have f: "files_inv cfg s" "workers_inv cfg s" using assms(2) by (simp_all add: read_inv_def)
  have inv: "fetch_ok cfg (rs_fetch s)" "finite (rs_flight s)" using f(1) unfolding files_inv_def by blast+
  have nxt: "\<And>w. w < rc_workers cfg \<Longrightarrow> rs_next s w mod rc_workers cfg = w"
    and bsy: "\<And>w. w < rc_workers cfg \<Longrightarrow> busy (rs_worker s w) \<Longrightarrow> rs_next s w < n_parts cfg"
    using f(2) unfolding workers_inv_def by blast+
  have work: "read_work cfg s' < read_work cfg s"
    if "w < rc_workers cfg" "?wk s' w < ?wk s w" "\<And>v. v \<noteq> w \<Longrightarrow> rs_worker s' v = rs_worker s v \<and> rs_next s' v = rs_next s v"
      "rs_fetch s' = rs_fetch s" "rs_flight s' = rs_flight s" "n_parts cfg - rs_pi s' \<le> n_parts cfg - rs_pi s"
      "rs_end s \<noteq> None \<longrightarrow> rs_end s' \<noteq> None" "rs_cause s \<noteq> None \<longrightarrow> rs_cause s' \<noteq> None" for w
    using sum_upd [of w "rc_workers cfg" "?wk s'" "?wk s"] that by (auto simp: read_work_def)
  show ?thesis
    using assms(1)
  proof cases
    case (fetch_acquire p f n)
    then show ?thesis using inv(1) files_left_next(2) [of p cfg f] by (simp add: read_work_def fetch_work_def fetch_ok_def)
  next
    case (fetch_submit p f)
    then show ?thesis using inv files_left_next [of p cfg f]
      by (auto simp add: read_work_def fetch_work_def fetch_ok_def card_insert_if next_file_def split: if_splits)
  next
    case (fetch_skip p f)
    then show ?thesis using inv files_left_next [of p cfg f]
      by (auto simp add: read_work_def fetch_work_def fetch_ok_def next_file_def split: if_splits)
  next
    case (get_ok p f body)
    then show ?thesis using inv(2) card_Suc_Diff1 [of "rs_flight s" "(p, f)"] by (simp add: read_work_def)
  next
    case (get_failed p f n e)
    then show ?thesis using inv(2) card_Suc_Diff1 [of "rs_flight s" "(p, f)"] by (auto simp add: read_work_def)
  next
    case (worker_end w)
    then show ?thesis by (intro work [of w]) (simp_all add: worker_work_def)
  next
    case (worker_ready w)
    then show ?thesis by (intro work [of w]) (simp_all add: worker_work_def)
  next
    case (worker_wait_err w e)
    then show ?thesis by (intro work [of w]) (simp_all add: worker_work_def)
  next
    case (worker_reserved w b)
    then show ?thesis using lane_work_first [OF nxt [of w]] bsy [of w] by (intro work [of w]) (simp_all add: worker_work_def)
  next
    case (worker_reserve_err w e)
    then show ?thesis using lane_work_first [OF nxt [of w]] bsy [of w] by (intro work [of w]) (simp_all add: worker_work_def)
  next
    case (decode_absent w f recs)
    then show ?thesis by (intro work [of w]) (simp_all add: worker_work_def)
  next
    case (decode_file w f recs body rs n)
    then show ?thesis by (intro work [of w]) (simp_all add: worker_work_def)
  next
    case (decode_err w f recs body e n)
    then show ?thesis by (intro work [of w]) (simp_all add: worker_work_def)
  next
    case (decode_end w f recs)
    then show ?thesis by (intro work [of w]) (simp_all add: worker_work_def)
  next
    case (worker_send w b q)
    then show ?thesis by (intro work [of w]) (simp_all add: worker_work_def)
  next
    case (worker_send_err w b)
    then show ?thesis by (intro work [of w]) (simp_all add: worker_work_def)
  next
    case (emit_handoff w b cont)
    then show ?thesis by (intro work [of w]) (simp_all add: worker_work_def)
  next
    case (emit_receive w b q cont)
    then have "n_parts cfg - Suc (rs_pi s) < n_parts cfg - rs_pi s" by simp
    with emit_receive show ?thesis unfolding read_work_def
      by (cases cont; cases "rs_cause s"; simp del: diff_Suc_Suc; linarith)
  qed (simp_all add: read_work_def fetch_work_def)
qed

section \<open>No deadlock\<close>

lemma held_slots:
  assumes "files_inv cfg s" "x \<in> held s"
  shows "slot_release (rs_slots s) = Some (rs_slots s - 1)"
proof -
  have "0 < card (held s)" using finite_bodies [OF assms(1)] assms(2) by (auto simp: card_gt_0_iff)
  then show ?thesis using assms(1) by (auto simp: files_inv_def)
qed

lemma busy_moves:
  assumes "read_inv cfg s" "w < rc_workers cfg" "rs_worker s w = W_decode f recs"
  shows "\<exists>s'. rstep cfg s s' \<and> rs_worker s' w \<noteq> rs_worker s w"
proof -
  have f: "files_inv cfg s" using assms(1) by (simp add: read_inv_def)
  show ?thesis
  proof (cases "f < n_files cfg (rs_next s w)")
    case False
    then show ?thesis using rstep.decode_end [of w cfg s f recs] assms by (intro exI conjI) (assumption | auto)+
  next
    case True
    show ?thesis
    proof (cases "rs_bodies s (rs_next s w, f)")
      case None
      from rstep.decode_absent [OF assms(2,3) True None] assms(3) show ?thesis by (intro exI conjI) auto
    next
      case (Some body)
      then have "slot_release (rs_slots s) = Some (rs_slots s - 1)"
        using held_slots [OF f, of "(rs_next s w, f)"] by (simp add: held_def del: slot_simps)
      with Some assms True show ?thesis
        using rstep.decode_file [of w cfg s f recs body _ "rs_slots s - 1"] rstep.decode_err [of w cfg s f recs body _ "rs_slots s - 1"]
        by (cases "rc_decode cfg body") (fastforce simp del: slot_simps)+
    qed
  qed
qed

lemma not_stuckI:
  assumes "rstep cfg s s'"
    "rs_flight s' \<noteq> rs_flight s \<or> rs_end s' \<noteq> rs_end s \<or> rs_fetch s' \<noteq> rs_fetch s \<or> rs_worker s' \<noteq> rs_worker s \<or> rs_pi s' \<noteq> rs_pi s"
  shows "\<not> read_stuck cfg s"
proof
  assume "read_stuck cfg s"
  then have "s' = s\<lparr>rs_cause := rs_cause s'\<rparr>" using assms(1) by (simp add: read_stuck_def)
  from arg_cong [OF this, of rs_flight] arg_cong [OF this, of rs_end] arg_cong [OF this, of rs_fetch]
    arg_cong [OF this, of rs_worker] arg_cong [OF this, of rs_pi] assms(2)
  show False by simp
qed

lemma flight_moves: "rs_flight s \<noteq> {} \<Longrightarrow> read_inv cfg s \<Longrightarrow> \<not> read_stuck cfg s"
proof -
  assume "rs_flight s \<noteq> {}" and inv: "read_inv cfg s"
  then obtain p f where x: "(p, f) \<in> rs_flight s" by auto
  show ?thesis
  proof (cases "rc_object cfg (file_key cfg p f)")
    case (Some body)
    from rstep.get_ok [OF x Some] x show ?thesis by (intro not_stuckI) auto
  next
    case None
    have "slot_release (rs_slots s) = Some (rs_slots s - 1)"
      using held_slots [of cfg s "(p, f)"] inv x by (simp add: read_inv_def held_def del: slot_simps)
    from rstep.get_failed [OF x this, of "Pipe_error []"] x show ?thesis by (intro not_stuckI) auto
  qed
qed

lemma end_moves: "rs_end s = None \<Longrightarrow> \<not> rs_pi s < n_parts cfg \<or> rs_cause s \<noteq> None \<Longrightarrow> \<not> read_stuck cfg s"
proof (cases "rs_pi s < n_parts cfg")
  case False
  assume "rs_end s = None"
  from rstep.emit_end [OF this False] this show ?thesis by (intro not_stuckI) auto
next
  case True
  assume e: "rs_end s = None" and "\<not> rs_pi s < n_parts cfg \<or> rs_cause s \<noteq> None"
  then obtain c where "rs_cause s = Some c" using True by auto
  from rstep.emit_cancelled [OF e True this] e show ?thesis by (intro not_stuckI) auto
qed

lemma worker_moves: "rstep cfg s s' \<Longrightarrow> rs_worker s' w \<noteq> rs_worker s w \<Longrightarrow> \<not> read_stuck cfg s"
  by (rule not_stuckI) auto

lemma send_moves:
  assumes "w < rc_workers cfg" "rs_worker s w = W_send b" "length (rs_queue s w) < rc_ahead cfg \<or> rs_cause s \<noteq> None"
  shows "\<not> read_stuck cfg s"
proof (cases "length (rs_queue s w) < rc_ahead cfg")
  case True
  with assms show ?thesis by (intro worker_moves [OF rstep.worker_send [OF assms(1,2), of "rs_queue s w @ [b]"], of w]) auto
next
  case False
  with assms show ?thesis by (intro worker_moves [OF rstep.worker_send_err [OF assms(1,2)], of w]) auto
qed

lemma reserve_moves:
  assumes "w < rc_workers cfg" "rs_worker s w = W_reserve"
    "reserveBytes (rs_cause s) (uncomp_of cfg (rs_next s w)) (rc_budget cfg) (rs_bytes s w) \<noteq> Reserve_blocks"
  shows "\<not> read_stuck cfg s"
proof (cases "reserveBytes (rs_cause s) (uncomp_of cfg (rs_next s w)) (rc_budget cfg) (rs_bytes s w)")
  case (Reserved b)
  from rstep.worker_reserved [OF assms(1,2) this] assms(2) show ?thesis by (intro worker_moves [of cfg s _ w]) auto
next
  case (Reserve_failed e)
  from rstep.worker_reserve_err [OF assms(1,2) this] assms(2) show ?thesis by (intro worker_moves [of cfg s _ w]) auto
qed (use assms(3) in simp)

text \<open>Once the context is cancelled every goroutine has a step until all have ended.\<close>

lemma cancelled_moves:
  assumes "read_inv cfg s" "rs_cause s = Some c" "\<not> read_returned cfg s"
  shows "\<not> read_stuck cfg s"
proof -
  consider "rs_flight s \<noteq> {}" | "rs_end s = None" | "rs_fetch s \<noteq> F_stopped"
    | w where "w < rc_workers cfg" "rs_worker s w \<noteq> W_stopped"
    using assms(3) by (auto simp: read_returned_def)
  then show ?thesis
  proof cases
    case 2
    then show ?thesis using assms(2) by (intro end_moves) simp_all
  next
    case 3
    show ?thesis
    proof (cases "rs_fetch s")
      case (F_acquire p f)
      have "rstep cfg s (s\<lparr>rs_fetch := F_stopped\<rparr>)"
        using rstep.fetch_quit [OF F_acquire] rstep.fetch_end [OF F_acquire] assms(2) by (cases "p < n_parts cfg") (auto simp: gdone_def)
      then show ?thesis using F_acquire by (intro not_stuckI) auto
    next
      case (F_submit p f)
      have "rstep cfg s (s\<lparr>rs_fetch := next_file cfg p f\<rparr>)" using rstep.fetch_skip [OF F_submit] assms(2) by (simp add: gdone_def)
      then show ?thesis using F_submit by (intro not_stuckI) (auto simp: next_file_def split: if_splits)
    qed (use 3 in simp)
  next
    case (4 w)
    show ?thesis
    proof (cases "rs_worker s w")
      case W_wait
      then show ?thesis
        using worker_moves [OF rstep.worker_end [OF 4(1) W_wait], of w] worker_moves [OF rstep.worker_wait_err [OF 4(1) W_wait, of c], of w] assms(2)
        by (cases "rs_next s w < n_parts cfg") auto
    next
      case W_reserve
      then show ?thesis using reserve_moves [OF 4(1)] reserve_cancelled assms(2) by metis
    next
      case (W_decode f recs)
      from busy_moves [OF assms(1) 4(1) this] show ?thesis using worker_moves by blast
    next
      case (W_send b)
      from send_moves [OF 4(1) this] assms(2) show ?thesis by simp
    qed (use 4(2) in simp)
  qed (rule flight_moves [OF _ assms(1)])
qed

text \<open>While the partition the consumer waits for is incomplete, the fetcher is at it or before it, and
  the slots in use are those of its own files: the floor of the cap leaves one free.\<close>

lemma waiting_fetches:
  assumes "read_inv cfg s" "live_inv cfg s" "read_cfg_ok cfg" "rs_cause s = None"
    "rs_flight s = {} \<and> rs_pi s < n_parts cfg" "\<not> part_done cfg s (rs_pi s)"
  shows "\<not> read_stuck cfg s"
proof -
  let ?p = "rs_pi s"
  have f: "files_inv cfg s" "workers_inv cfg s" using assms(1) by (simp_all add: read_inv_def)
  have ok: "fetch_ok cfg (rs_fetch s)" using f(1) by (simp add: files_inv_def)
  have "rs_completed s ?p = card (row (before cfg (rs_fetch s)) ?p)"
    using assms(2,4,5) unfolding live_inv_def by (metis card.empty row_simps(3) add.right_neutral)
  then have "row (before cfg (rs_fetch s)) ?p \<noteq> {..<n_files cfg ?p}"
    using assms(6) unfolding part_done_def by (metis card_lessThan)
  then obtain g where g: "g < n_files cfg ?p" "(?p, g) \<notin> before cfg (rs_fetch s)"
    using before_simps(4) [of cfg "rs_fetch s" ?p] by (metis lessThan_iff row_mem subset_antisym subset_iff)
  show ?thesis
  proof (cases "rs_fetch s")
    case F_stopped
    then show ?thesis using g assms(5) by (simp add: before_def)
  next
    case (F_submit p h)
    have "card (rs_flight s) < rc_pool cfg" using assms(3,5) by (simp add: read_cfg_ok_def)
    from rstep.fetch_submit [OF F_submit this] assms(5) show ?thesis by (intro not_stuckI) auto
  next
    case (F_acquire p h)
    then have p: "p < ?p \<or> p = ?p \<and> h \<le> g" using g assms(5) by (auto simp: before_def)
    then have h: "p < n_parts cfg" "h < n_files cfg p" using ok F_acquire assms(5) by (auto simp: fetch_ok_def)
    have "x \<in> {?p} \<times> {..<h}" if x: "rs_bodies s x \<noteq> None" for x
    proof -
      obtain q k where [simp]: "x = (q, k)" by (cases x)
      have b: "(q, k) \<in> before cfg (rs_fetch s)" "\<not> consumed cfg s (q, k)" using f(1) x unfolding files_inv_def by auto
      have "q mod rc_workers cfg < rc_workers cfg" using assms(3) by (simp add: read_cfg_ok_def)
      then have "?p \<le> rs_next s (q mod rc_workers cfg)" using f(2) by (simp add: workers_inv_def)
      then have "?p \<le> q" using b(2) by (auto simp: consumed_def Let_def not_less)
      then show ?thesis using b(1) p F_acquire by (auto simp: before_def)
    qed
    then have "held s \<subseteq> {?p} \<times> {..<h}" using assms(5) F_acquire by (auto simp: held_def submitting_simps)
    then have "card (held s) \<le> card ({?p} \<times> {..<h})" by (intro card_mono) simp_all
    then have "card (held s) \<le> h \<and> (held s \<noteq> {} \<longrightarrow> p = ?p)"
      using p F_acquire f(1) \<open>held s \<subseteq> {?p} \<times> {..<h}\<close> assms(5)
      by (fastforce simp: held_def files_inv_def before_def submitting_simps)
    moreover have "rs_slots s = card (held s)" using assms(2,4) by (simp add: live_inv_def)
    moreover have "n_files cfg p \<le> rc_body_cap cfg" "0 < n_files cfg p" using assms(3) h by (simp_all add: read_cfg_ok_def)
    ultimately have "rs_slots s < rc_body_cap cfg" using h(2) by linarith
    then have "slot_acquire (rc_body_cap cfg) (rs_slots s) = Some (Suc (rs_slots s))" by simp
    from rstep.fetch_acquire [OF F_acquire h(1) this] F_acquire show ?thesis by (intro not_stuckI) auto
  qed
qed

text \<open>With a live context the partition the consumer waits for can always advance.\<close>

lemma live_moves:
  assumes "read_inv cfg s" "live_inv cfg s" "read_cfg_ok cfg" "rs_cause s = None"
  shows "\<not> read_stuck cfg s"
proof (cases "rs_flight s = {} \<and> rs_pi s < n_parts cfg")
  case False
  have "rs_end s = None" using assms(1,4) by (auto simp: read_inv_def workers_inv_def)
  then show ?thesis using False flight_moves [OF _ assms(1)] end_moves by blast
next
  case True
  let ?W = "rc_workers cfg" and ?p = "rs_pi s"
  define w where "w = ?p mod ?W"
  have f: "files_inv cfg s" "workers_inv cfg s" "queues_inv cfg s" using assms(1) by (simp_all add: read_inv_def)
  have w: "w < ?W" "w = ?p mod ?W" using assms(3) by (simp_all add: w_def read_cfg_ok_def)
  have e: "rs_end s = None" using f(2) assms(4) by (auto simp: workers_inv_def)
  show ?thesis
  proof (cases "rs_queue s w")
    case (Cons b q)
    from rstep.emit_receive [OF e _ w(2) Cons, of True] True show ?thesis by (intro not_stuckI) auto
  next
    case Nil
    then have n: "rs_next s w = ?p" using emit_position(1) [OF f(2,3) w] by simp
    show ?thesis
    proof (cases "rs_worker s w")
      case W_stopped
      then have "n_parts cfg \<le> rs_next s w" using f(2) w(1) assms(4) by (simp add: workers_inv_def)
      then show ?thesis using n True by simp
    next
      case (W_send b)
      from rstep.emit_handoff [OF e _ w(2,1) Nil W_send, of True] True show ?thesis by (intro not_stuckI) auto
    next
      case (W_decode g recs)
      from busy_moves [OF assms(1) w(1) this] show ?thesis using worker_moves by blast
    next
      case W_reserve
      have "rc_budget cfg > 0 \<Longrightarrow> rs_bytes s w = 0"
        using f(3) w(1) n W_reserve by (simp add: queues_inv_def)
      then have "reserveBytes (rs_cause s) (uncomp_of cfg (rs_next s w)) (rc_budget cfg) (rs_bytes s w) \<noteq> Reserve_blocks"
        using assms(4) by (auto simp: reserveBytes_def)
      from reserve_moves [OF w(1) W_reserve this] show ?thesis .
    next
      case W_wait
      show ?thesis
      proof (cases "part_done cfg s ?p")
        case True
        from worker_moves [OF rstep.worker_ready [OF w(1) W_wait], of w] show ?thesis
          using True n W_wait assms(4) \<open>rs_flight s = {} \<and> ?p < n_parts cfg\<close> by simp
      next
        case False
        from waiting_fetches [OF assms True this] show ?thesis .
      qed
    qed
  qed
qed

section \<open>The properties\<close>

definition read_bound :: "'r read_cfg \<Rightarrow> nat" where
  "read_bound cfg = read_work cfg read_start"

lemma runs_bounded:
  assumes "(rstep cfg ^^ n) read_start s" "read_cfg_ok cfg"
  shows "read_reach cfg s \<and> n + read_work cfg s \<le> read_bound cfg"
  using assms(1)
proof (induction n arbitrary: s)
  case 0
  then show ?case by (auto simp: read_bound_def intro: read_reach.start)
next
  case (Suc n)
  then obtain r where r: "(rstep cfg ^^ n) read_start r" "rstep cfg r s" by auto
  from Suc.IH [OF r(1)] have i: "read_reach cfg r" "n + read_work cfg r \<le> read_bound cfg" by auto
  have "read_work cfg s < read_work cfg r"
    using read_work_step [OF r(2) read_inv_reach [OF i(1) assms(2)]] .
  with i r(2) show ?case by (auto intro: read_reach.step)
qed

lemma pipeline_sequential:
  assumes "read_cfg_ok cfg" "\<not> rc_timeouts cfg" "read_reach cfg s"
  shows "map Inr (rs_out s) = map (seq_part cfg) [0..<rs_pi s] \<and> rs_pi s \<le> n_parts cfg
    \<and> (rs_end s = Some Ended \<longrightarrow> rs_pi s = n_parts cfg)"
proof -
  have "data_inv cfg s" using data_reach [OF assms(3,1,2)] ..
  moreover have "rs_pi s \<le> n_parts cfg" using read_inv_reach [OF assms(3,1)] by (simp add: read_inv_def workers_inv_def)
  moreover have "rs_end s = Some Ended \<longrightarrow> n_parts cfg \<le> rs_pi s"
    using assms(3)
  proof (induction rule: read_reach.induct)
    case (step s s')
    from step.hyps(2) step.IH show ?case by cases (auto split: if_splits)
  qed (simp add: read_start_def)
  ultimately show ?thesis by (simp add: data_inv_def)
qed

text \<open>C24.  Under every interleaving of the fetcher, the GETs, the decode workers and the emit loop, with
  any faults and a cancellation at any moment, the batches handed to the consumer are those of the
  sequential reader, in its order, without a gap, a repetition or a partial one; when the call ends
  without an error they are all of them.  Assumed is that a GET of a live context does not fail
  with a context error.\<close>

theorem read_pipeline_prefix:
  assumes "read_cfg_ok cfg" "\<not> rc_timeouts cfg" "read_reach cfg s"
  shows "map Inr (rs_out s) = map (seq_part cfg) [0..<rs_pi s] \<and> rs_pi s \<le> n_parts cfg
    \<and> (rs_end s = Some Ended \<longrightarrow> rs_pi s = n_parts cfg)"
  using pipeline_sequential [OF assms] .

text \<open>C25.  A read cannot hang: a run has at most \<open>read_bound\<close> steps, and as long as the call has not
  returned, every goroutine ended, some goroutine can take a step without help from outside.  The
  floor of the body cap at the largest partition is used here.  Assumed is that the consumer
  returns from every yield and that a GET of a live context does not fail with a context error.\<close>

theorem read_pipeline_returns:
  assumes "read_cfg_ok cfg" "\<not> rc_timeouts cfg" "(rstep cfg ^^ n) read_start s"
  shows "n \<le> read_bound cfg \<and> (read_stuck cfg s \<longrightarrow> read_returned cfg s)"
proof -
  have r: "read_reach cfg s" "n \<le> read_bound cfg" using runs_bounded [OF assms(3,1)] by auto
  have "read_inv cfg s" "live_inv cfg s" using read_inv_reach [OF r(1) assms(1)] data_reach [OF r(1) assms(1,2)] by auto
  then have "read_stuck cfg s \<longrightarrow> read_returned cfg s"
    using live_moves [OF _ _ assms(1)] cancelled_moves by (cases "rs_cause s") blast+
  with r(2) show ?thesis by blast
qed

section \<open>Runs\<close>

text \<open>Two files in one partition; the content of an object is its key, a record one character.\<close>

definition demo_ref :: "string \<Rightarrow> file_ref" where
  "demo_ref k = \<lparr>FileID = (if k = ''a'' then 1 else 2), PartitionKey = ''p=1'', S3Key = k,
     Version = (if k = ''a'' then 1 else 2), WrittenAt = 0, RecordCount = 1,
     FileSize = 1, UncompressedSize = 8, Extensions = [], Offset = 0\<rparr>"

definition demo_read :: "bool \<Rightarrow> string read_cfg" where
  "demo_read timeouts = \<lparr>rc_parts = [\<lparr>ps_key = ''p=1'', ps_files = [demo_ref ''a'', demo_ref ''b''], ps_version = 2\<rparr>],
     rc_body_cap = 2, rc_workers = 1, rc_ahead = 1, rc_budget = 4, rc_pool = 2, rc_object = Some,
     rc_decode = (\<lambda>b. Inr [b]), rc_dedup = (\<lambda>rs. rs), rc_timeouts = timeouts\<rparr>"

lemma demo_simps [simp]:
  "n_parts (demo_read t) = 1" "n_files (demo_read t) 0 = 2" "rc_body_cap (demo_read t) = 2" "rc_workers (demo_read t) = 1"
  "rc_ahead (demo_read t) = 1" "rc_budget (demo_read t) = 4" "rc_pool (demo_read t) = 2" "rc_decode (demo_read t) b = Inr [b]"
  "rc_timeouts (demo_read t) = t" "uncomp_of (demo_read t) 0 = 16" "rc_object (demo_read t) k = Some k"
  "file_key (demo_read t) 0 0 = ''a''" "file_key (demo_read t) 0 (Suc 0) = ''b''"
  "ps_files (rc_parts (demo_read t) ! 0) = [demo_ref ''a'', demo_ref ''b'']"
  by (simp_all add: demo_read_def n_parts_def n_files_def uncomp_of_def fileRefStats_def demo_ref_def file_key_def)

lemma demo_read_ok: "read_cfg_ok (demo_read t)"
  by (simp add: read_cfg_ok_def)

text \<open>Both GETs are submitted, the first succeeds.\<close>

definition demo_half :: "string read_state" where
  "demo_half = \<lparr>rs_cause = None, rs_gerr = False, rs_slots = 2, rs_fetch = F_stopped, rs_flight = {(0, 1)},
     rs_bodies = (\<lambda>_. None)((0, 0) := Some ''a''), rs_completed = (\<lambda>_. 0)(0 := 1), rs_worker = (\<lambda>_. W_wait), rs_next = (\<lambda>w. w),
     rs_bytes = (\<lambda>_. 0), rs_queue = (\<lambda>_. []), rs_pi = 0, rs_out = [], rs_end = None\<rparr>"

lemma run_step: "rtranclp (rstep cfg) x y \<Longrightarrow> rstep cfg y z \<Longrightarrow> rtranclp (rstep cfg) x z"
  by (rule rtranclp.rtrancl_into_rtrancl)

lemma run_one: "rstep cfg x y \<Longrightarrow> rtranclp (rstep cfg) x y"
  by (rule r_into_rtranclp)

lemma demo_start: "rtranclp (rstep (demo_read t)) read_start demo_half"
proof -
  let ?c = "demo_read t"
  have 1: "rstep ?c read_start (read_start\<lparr>rs_slots := 1, rs_fetch := F_submit 0 0\<rparr>)"
    using rstep.fetch_acquire [of read_start 0 0 ?c 1] by (simp add: read_start_def)
  have 2: "rstep ?c (read_start\<lparr>rs_slots := 1, rs_fetch := F_submit 0 0\<rparr>)
      (read_start\<lparr>rs_slots := 1, rs_fetch := F_acquire 0 1, rs_flight := {(0, 0)}\<rparr>)"
    using rstep.fetch_submit [of "read_start\<lparr>rs_slots := 1, rs_fetch := F_submit 0 0\<rparr>" 0 0 ?c]
    by (simp add: read_start_def next_file_def)
  have 3: "rstep ?c (read_start\<lparr>rs_slots := 1, rs_fetch := F_acquire 0 1, rs_flight := {(0, 0)}\<rparr>)
      (read_start\<lparr>rs_slots := 2, rs_fetch := F_submit 0 1, rs_flight := {(0, 0)}\<rparr>)"
    using rstep.fetch_acquire [of "read_start\<lparr>rs_slots := 1, rs_fetch := F_acquire 0 1, rs_flight := {(0, 0)}\<rparr>" 0 1 ?c 2]
    by (simp add: read_start_def)
  have 4: "rstep ?c (read_start\<lparr>rs_slots := 2, rs_fetch := F_submit 0 1, rs_flight := {(0, 0)}\<rparr>)
      (read_start\<lparr>rs_slots := 2, rs_fetch := F_acquire 1 0, rs_flight := {(0, 1), (0, 0)}\<rparr>)"
    using rstep.fetch_submit [of "read_start\<lparr>rs_slots := 2, rs_fetch := F_submit 0 1, rs_flight := {(0, 0)}\<rparr>" 0 1 ?c]
    by (simp add: read_start_def next_file_def)
  have 5: "rstep ?c (read_start\<lparr>rs_slots := 2, rs_fetch := F_acquire 1 0, rs_flight := {(0, 1), (0, 0)}\<rparr>)
      (read_start\<lparr>rs_slots := 2, rs_fetch := F_stopped, rs_flight := {(0, 1), (0, 0)}\<rparr>)"
    using rstep.fetch_end [of "read_start\<lparr>rs_slots := 2, rs_fetch := F_acquire 1 0, rs_flight := {(0, 1), (0, 0)}\<rparr>" 1 0 ?c]
    by (simp add: read_start_def)
  have 6: "rstep ?c (read_start\<lparr>rs_slots := 2, rs_fetch := F_stopped, rs_flight := {(0, 1), (0, 0)}\<rparr>) demo_half"
    using rstep.get_ok [of 0 0 "read_start\<lparr>rs_slots := 2, rs_fetch := F_stopped, rs_flight := {(0, 1), (0, 0)}\<rparr>" ?c]
    by (simp add: read_start_def demo_half_def markComplete_def insert_Diff_if)
  show ?thesis
    using run_step [OF run_step [OF run_step [OF run_step [OF run_step [OF run_one [OF 1] 2] 3] 4] 5] 6] .
qed

text \<open>From there on: the worker, then the consumer.  \<open>y\<close> is the second body, absent if its GET failed.\<close>

definition demo_st :: "bool \<Rightarrow> nat \<Rightarrow> (nat \<times> nat \<Rightarrow> string option) \<Rightarrow> string worker_pc \<Rightarrow> nat \<Rightarrow> int \<Rightarrow> string part_result list
    \<Rightarrow> nat \<Rightarrow> string part_result list \<Rightarrow> ending option \<Rightarrow> cause \<Rightarrow> string read_state" where
  "demo_st gerr slots bodies pc nxt b q pi out en c =
     \<lparr>rs_cause = c, rs_gerr = gerr, rs_slots = slots, rs_fetch = F_stopped, rs_flight = {},
      rs_bodies = bodies, rs_completed = (\<lambda>_. 0)(0 := 2), rs_worker = (\<lambda>_. W_wait)(0 := pc), rs_next = (\<lambda>w. w)(0 := nxt),
      rs_bytes = (\<lambda>_. 0)(0 := b), rs_queue = (\<lambda>_. [])(0 := q), rs_pi = pi, rs_out = out, rs_end = en\<rparr>"

definition demo_bodies :: "string option \<Rightarrow> string option \<Rightarrow> nat \<times> nat \<Rightarrow> string option" where
  "demo_bodies x y = (\<lambda>_. None)((0, 0) := x, (0, 1) := y)"

definition demo_batch :: "string list \<Rightarrow> string part_result" where
  "demo_batch rs = \<lparr>pr_key = ''p=1'', pr_records = rs, pr_version = 2, pr_refs = [demo_ref ''a'', demo_ref ''b'']\<rparr>"

lemma demo_fields [simp]:
  "rs_cause (demo_st ge n bo pc nx b q i out en c) = c" "rs_gerr (demo_st ge n bo pc nx b q i out en c) = ge"
  "rs_slots (demo_st ge n bo pc nx b q i out en c) = n" "rs_worker (demo_st ge n bo pc nx b q i out en c) 0 = pc"
  "rs_next (demo_st ge n bo pc nx b q i out en c) = (\<lambda>w. w)(0 := nx)" "rs_bytes (demo_st ge n bo pc nx b q i out en c) 0 = b"
  "rs_queue (demo_st ge n bo pc nx b q i out en c) = (\<lambda>_. [])(0 := q)" "rs_pi (demo_st ge n bo pc nx b q i out en c) = i"
  "rs_out (demo_st ge n bo pc nx b q i out en c) = out" "rs_end (demo_st ge n bo pc nx b q i out en c) = en"
  "rs_fetch (demo_st ge n bo pc nx b q i out en c) = F_stopped" "rs_flight (demo_st ge n bo pc nx b q i out en c) = {}"
  "rs_bodies (demo_st ge n bo pc nx b q i out en c) = bo" "part_done (demo_read t) (demo_st ge n bo pc nx b q i out en c) 0"
  by (simp_all add: demo_st_def part_done_def)

lemma demo_upd [simp]:
  "set_worker 0 pc' (demo_st ge n bo pc nx b q i out en c) = demo_st ge n bo pc' nx b q i out en c"
  "add_bytes 0 b' (demo_st ge n bo pc nx b q i out en c) = demo_st ge n bo pc nx b' q i out en c"
  "demo_st ge n bo pc nx b q i out en c \<lparr>rs_bodies := bo', rs_slots := n'\<rparr> = demo_st ge n' bo' pc nx b q i out en c"
  "demo_st ge n bo pc nx b q i out en c \<lparr>rs_queue := (\<lambda>_. [])(0 := q')\<rparr> = demo_st ge n bo pc nx b q' i out en c"
  "demo_st ge n bo pc nx b q i out en c \<lparr>rs_next := (\<lambda>w. w)(0 := nx')\<rparr> = demo_st ge n bo pc nx' b q i out en c"
  "finish e (demo_st ge n bo pc nx b q i out en c) = demo_st ge n bo pc nx b q i out (Some e) (recordHardErr Ctx_canceled c)"
  "yielded_to True (demo_st ge n bo pc nx b q i out en c) = demo_st ge n bo pc nx b q i out en c"
  "emitted_batch 0 (demo_batch rs) (demo_st ge n bo pc nx b q i out en c) = demo_st ge n bo pc nx (b - 16) q (Suc i) (out @ [demo_batch rs]) en c"
  by (simp_all add: demo_st_def set_worker_def add_bytes_def finish_def yielded_to_def emitted_batch_def release_bytes
      demo_batch_def fileRefStats_def demo_ref_def)

lemma demo_rest:
  assumes "n = (if y = None then 1 else 2)"
  shows "rtranclp (rstep (demo_read t)) (demo_st ge n (demo_bodies (Some ''a'') y) W_wait 0 0 [] 0 [] None None)
     (demo_st ge 0 (demo_bodies None None) W_stopped 1 0 [] 1 [demo_batch (''a'' # (case y of None \<Rightarrow> [] | Some r \<Rightarrow> [r]))] (Some Ended) (Some Ctx_canceled))"
proof -
  let ?c = "demo_read t" and ?rs = "''a'' # (case y of None \<Rightarrow> [] | Some r \<Rightarrow> [r])" and ?m = "n - 1"
  have b: "(demo_bodies (Some ''a'') y)((0, 0) := None) = demo_bodies None y" "demo_bodies (Some ''a'') y (0, 0) = Some ''a''"
    "(demo_bodies None y)((0, 1) := None) = demo_bodies None None" "demo_bodies None y (0, 1) = y"
    by (auto simp: demo_bodies_def fun_eq_iff)
  have bt: "batch_of ?c 0 ?rs = demo_batch ?rs" by (simp add: batch_of_def demo_batch_def demo_read_def)
  have 1: "rstep ?c (demo_st ge n (demo_bodies (Some ''a'') y) W_wait 0 0 [] 0 [] None None)
      (demo_st ge n (demo_bodies (Some ''a'') y) W_reserve 0 0 [] 0 [] None None)" (is "rstep _ ?s _")
    using rstep.worker_ready [of 0 ?c ?s] by simp
  have 2: "rstep ?c (demo_st ge n (demo_bodies (Some ''a'') y) W_reserve 0 0 [] 0 [] None None)
      (demo_st ge n (demo_bodies (Some ''a'') y) (W_decode 0 []) 0 16 [] 0 [] None None)" (is "rstep _ ?s _")
    using rstep.worker_reserved [of 0 ?c ?s 16] by (simp add: reserveBytes_def)
  have 3: "rstep ?c (demo_st ge n (demo_bodies (Some ''a'') y) (W_decode 0 []) 0 16 [] 0 [] None None)
      (demo_st ge ?m (demo_bodies None y) (W_decode 1 [''a'']) 0 16 [] 0 [] None None)" (is "rstep _ ?s _")
    using rstep.decode_file [of 0 ?c ?s 0 "[]" "''a''" "[''a'']" ?m] b(1,2) assms by (cases y) simp_all
  have 4: "rstep ?c (demo_st ge ?m (demo_bodies None y) (W_decode 1 [''a'']) 0 16 [] 0 [] None None)
      (demo_st ge 0 (demo_bodies None None) (W_decode 2 ?rs) 0 16 [] 0 [] None None)" (is "rstep _ ?s _")
  proof (cases y)
    case None
    then show ?thesis using assms rstep.decode_absent [of 0 ?c ?s 1 "[''a'']"] b(4) by (simp add: numeral_2_eq_2)
  next
    case (Some r)
    then show ?thesis using assms rstep.decode_file [of 0 ?c ?s 1 "[''a'']" r "[r]" 0] b(3,4) by (simp add: numeral_2_eq_2)
  qed
  have 5: "rstep ?c (demo_st ge 0 (demo_bodies None None) (W_decode 2 ?rs) 0 16 [] 0 [] None None)
      (demo_st ge 0 (demo_bodies None None) (W_send (demo_batch ?rs)) 0 16 [] 0 [] None None)" (is "rstep _ ?s _")
    using rstep.decode_end [of 0 ?c ?s 2 ?rs] bt by simp
  have 6: "rstep ?c (demo_st ge 0 (demo_bodies None None) (W_send (demo_batch ?rs)) 0 16 [] 0 [] None None)
      (demo_st ge 0 (demo_bodies None None) W_wait 1 16 [demo_batch ?rs] 0 [] None None)" (is "rstep _ ?s _")
    using rstep.worker_send [of 0 ?c ?s "demo_batch ?rs" "[demo_batch ?rs]"] by simp
  have 7: "rstep ?c (demo_st ge 0 (demo_bodies None None) W_wait 1 16 [demo_batch ?rs] 0 [] None None)
      (demo_st ge 0 (demo_bodies None None) W_stopped 1 16 [demo_batch ?rs] 0 [] None None)" (is "rstep _ ?s _")
    using rstep.worker_end [of 0 ?c ?s] by simp
  have 8: "rstep ?c (demo_st ge 0 (demo_bodies None None) W_stopped 1 16 [demo_batch ?rs] 0 [] None None)
      (demo_st ge 0 (demo_bodies None None) W_stopped 1 0 [] 1 [demo_batch ?rs] None None)" (is "rstep _ ?s _")
    using rstep.emit_receive [of ?s ?c 0 "demo_batch ?rs" "[]" True] by simp
  have 9: "rstep ?c (demo_st ge 0 (demo_bodies None None) W_stopped 1 0 [] 1 [demo_batch ?rs] None None)
      (demo_st ge 0 (demo_bodies None None) W_stopped 1 0 [] 1 [demo_batch ?rs] (Some Ended) (Some Ctx_canceled))" (is "rstep _ ?s _")
    using rstep.emit_end [of ?s ?c] by simp
  show ?thesis
    using run_step [OF run_step [OF run_step [OF run_step [OF run_step [OF run_step [OF run_step [OF run_step
      [OF run_one [OF 1] 2] 3] 4] 5] 6] 7] 8] 9] .
qed

lemma demo_end:
  assumes "rtranclp (rstep (demo_read t)) read_start (demo_st ge n (demo_bodies (Some ''a'') y) W_wait 0 0 [] 0 [] None None)"
    "n = (if y = None then 1 else 2)"
  shows "\<exists>s. rtranclp (rstep (demo_read t)) read_start s \<and> rs_end s = Some Ended \<and> read_returned (demo_read t) s
    \<and> rs_out s = [demo_batch (''a'' # (case y of None \<Rightarrow> [] | Some r \<Rightarrow> [r]))]"
  using rtranclp_trans [OF assms(1) demo_rest [OF assms(2)]] by (intro exI conjI) (assumption, simp_all add: read_returned_def)

lemma demo_good:
  "\<exists>s. rtranclp (rstep (demo_read t)) read_start s \<and> rs_end s = Some Ended \<and> read_returned (demo_read t) s
    \<and> rs_out s = [demo_batch [''a'', ''b'']]"
proof -
  have "rstep (demo_read t) demo_half (demo_st False 2 (demo_bodies (Some ''a'') (Some ''b'')) W_wait 0 0 [] 0 [] None None)"
    using rstep.get_ok [of 0 1 demo_half "demo_read t"]
    by (simp add: demo_half_def markComplete_def demo_st_def demo_bodies_def fun_upd_idem numeral_2_eq_2)
  from demo_end [of t False 2 "Some ''b''", OF run_step [OF demo_start this]] show ?thesis by simp
qed

lemma demo_bad:
  "\<exists>s. rtranclp (rstep (demo_read True)) read_start s \<and> rs_end s = Some Ended \<and> read_returned (demo_read True) s
    \<and> rs_out s = [demo_batch [''a'']]"
proof -
  have "rstep (demo_read True) demo_half (demo_st True 1 (demo_bodies (Some ''a'') None) W_wait 0 0 [] 0 [] None None)"
    using rstep.get_failed [of 0 1 demo_half 1 Ctx_deadline "demo_read True"]
    by (simp add: demo_half_def markComplete_def demo_st_def demo_bodies_def fun_upd_idem numeral_2_eq_2 record_unless_ctx_def)
  from demo_end [of True True 1 None, OF run_step [OF demo_start this]] show ?thesis by simp
qed

lemma reach_run: "rtranclp (rstep cfg) read_start s \<Longrightarrow> read_reach cfg s"
  by (induction rule: rtranclp_induct) (auto intro: read_reach.intros)

lemma read_pipeline_prefix_witness:
  "\<exists>s. read_reach (demo_read False) s \<and> rs_end s = Some Ended \<and> map Inr (rs_out s) = map (seq_part (demo_read False)) [0..<1]"
proof -
  obtain s where s: "rtranclp (rstep (demo_read False)) read_start s" "rs_end s = Some Ended" using demo_good by blast
  from read_pipeline_prefix [OF demo_read_ok _ reach_run [OF s(1)]] s reach_run [OF s(1)] show ?thesis by auto
qed

lemma read_pipeline_returns_witness:
  "\<exists>n s. (rstep (demo_read False) ^^ n) read_start s \<and> read_returned (demo_read False) s \<and> n \<le> read_bound (demo_read False)"
proof -
  obtain s where s: "rtranclp (rstep (demo_read False)) read_start s" "read_returned (demo_read False) s" using demo_good by blast
  obtain n where n: "(rstep (demo_read False) ^^ n) read_start s" using s(1) rtranclp_imp_relpowp by metis
  from read_pipeline_returns [OF demo_read_ok _ n] s n show ?thesis by auto
qed

text \<open>A GET of a live context that fails with an error \<open>errors.Is\<close> takes for
  \<open>context.DeadlineExceeded\<close>, such as a dial timeout, is not recorded: its file is marked complete
  without a body, the decoder skips it, and the call returns the partition without that file's
  records and without an error.\<close>

theorem read_timeout_partial:
  "\<exists>s. rtranclp (rstep (demo_read True)) read_start s \<and> read_returned (demo_read True) s \<and> rs_end s = Some Ended
    \<and> map pr_records (rs_out s) = [[''a'']] \<and> seq_part (demo_read True) 0 = Inr (demo_batch [''a'', ''b''])"
proof -
  have "seq_part (demo_read True) 0 = Inr (demo_batch [''a'', ''b''])"
    by (simp add: seq_part_def batch_of_def demo_batch_def demo_ref_def) (simp add: demo_read_def demo_ref_def)
  then show ?thesis using demo_bad by (force simp: demo_batch_def)
qed

section \<open>Memory\<close>

lemma bytes_nonneg: "queues_inv cfg s \<Longrightarrow> w < rc_workers cfg \<Longrightarrow> rc_budget cfg > 0 \<Longrightarrow> 0 \<le> rs_bytes s w"
  by (auto simp: queues_inv_def intro!: sum_list_nonneg add_nonneg_nonneg)

definition memory_inv :: "'r read_cfg \<Rightarrow> 'r read_state \<Rightarrow> bool" where
  "memory_inv cfg s \<longleftrightarrow> rs_slots s \<le> rc_body_cap cfg
     \<and> (\<forall>w < rc_workers cfg. length (rs_queue s w) \<le> rc_ahead cfg
          \<and> (rc_budget cfg > 0 \<longrightarrow> rs_bytes s w \<le> rc_budget cfg \<or> (\<exists>p < n_parts cfg. rs_bytes s w \<le> uncomp_of cfg p)))"

lemma memory_step:
  assumes "rstep cfg s s'" "read_inv cfg s" "memory_inv cfg s"
  shows "memory_inv cfg s'"
proof -
  have q: "queues_inv cfg s" and wi: "workers_inv cfg s" using assms(2) by (simp_all add: read_inv_def)
  have m: "rs_slots s \<le> rc_body_cap cfg" "\<And>w. w < rc_workers cfg \<Longrightarrow> length (rs_queue s w) \<le> rc_ahead cfg"
    "\<And>w. w < rc_workers cfg \<Longrightarrow> rc_budget cfg > 0 \<Longrightarrow> rs_bytes s w \<le> rc_budget cfg \<or> (\<exists>p < n_parts cfg. rs_bytes s w \<le> uncomp_of cfg p)"
    using assms(3) unfolding memory_inv_def by blast+
  have less: "b \<le> rc_budget cfg \<or> (\<exists>p < n_parts cfg. b \<le> uncomp_of cfg p)"
    if "b \<le> rs_bytes s w" "w < rc_workers cfg" "rc_budget cfg > 0" for b w
    using m(3) [OF that(2,3)] that(1) by (meson order_trans)
  have dec: "rs_bytes s w - max k 0 \<le> rc_budget cfg \<or> (\<exists>p < n_parts cfg. rs_bytes s w - max k 0 \<le> uncomp_of cfg p)"
    if "w < rc_workers cfg" "rc_budget cfg > 0" for w k
    using that by (intro less) auto
  show ?thesis
    using assms(1)
  proof cases
    case (worker_reserved w b)
    have "b \<le> rc_budget cfg \<or> (\<exists>p < n_parts cfg. b \<le> uncomp_of cfg p)" if p: "rc_budget cfg > 0"
    proof -
      let ?u = "uncomp_of cfg (rs_next s w)"
      have n: "rs_next s w < n_parts cfg" using wi worker_reserved by (simp add: workers_inv_def)
      have "0 \<le> rs_bytes s w" using bytes_nonneg [OF q] worker_reserved p by simp
      then consider "b = rs_bytes s w" | "b = ?u" | "b \<le> rc_budget cfg"
        using worker_reserved(4) p by (auto simp: reserveBytes_def split: if_splits option.splits)
      then show ?thesis using less [of b w] worker_reserved(2) p n by cases auto
    qed
    then show ?thesis using worker_reserved(1) m unfolding memory_inv_def by simp
  next
    case (emit_receive w b q' cont)
    have "length q' \<le> rc_ahead cfg" if "w < rc_workers cfg" using m(2) [OF that] emit_receive by simp
    then show ?thesis using emit_receive(1) m dec unfolding memory_inv_def by auto
  next
    case (emit_handoff w b cont)
    then show ?thesis using m dec unfolding memory_inv_def by auto
  next
    case (worker_send w b q')
    then show ?thesis using m dec unfolding memory_inv_def by auto
  next
    case (decode_err w f recs body e n)
    then show ?thesis using m dec unfolding memory_inv_def by (auto simp: release_bytes)
  next
    case (worker_send_err w b)
    then show ?thesis using m dec unfolding memory_inv_def by (auto simp: release_bytes)
  qed (use m in \<open>auto simp: memory_inv_def\<close>)
qed

text \<open>C26.  The knobs bound the memory of a read, whatever happens: never more compressed bodies, in
  flight or waiting to be decoded, than the cap of the body slots, never more decoded partitions
  queued at a worker than \<open>WithDecodeAheadPartitions\<close>, and the bytes a worker has reserved stay
  within \<open>WithDecodeAheadBytes\<close> or are at most those of one partition.\<close>

theorem read_memory_bounded:
  assumes "read_cfg_ok cfg" "read_reach cfg s"
  shows "card (rs_flight s \<union> {x. rs_bodies s x \<noteq> None}) \<le> rc_body_cap cfg
    \<and> (\<forall>w < rc_workers cfg. length (rs_queue s w) \<le> rc_ahead cfg
        \<and> (rc_budget cfg > 0 \<longrightarrow> rs_bytes s w \<le> rc_budget cfg \<or> (\<exists>p < n_parts cfg. rs_bytes s w \<le> uncomp_of cfg p)))"
proof -
  have inv: "read_inv cfg s" using read_inv_reach [OF assms(2,1)] .
  have m: "memory_inv cfg s"
    using assms(2)
  proof (induction rule: read_reach.induct)
    case (step s s')
    then show ?case using memory_step read_inv_reach [OF step.hyps(1) assms(1)] by blast
  qed (simp add: memory_inv_def read_start_def)
  have f: "files_inv cfg s" using inv by (simp add: read_inv_def)
  have "card (rs_flight s \<union> {x. rs_bodies s x \<noteq> None}) \<le> card (held s)"
    by (rule card_mono [OF finite_bodies [OF f]]) (auto simp: held_def)
  also have "\<dots> \<le> rc_body_cap cfg" using f m by (simp add: files_inv_def memory_inv_def)
  finally show ?thesis using m by (simp add: memory_inv_def)
qed

lemma read_memory_bounded_witness:
  "\<exists>s. read_reach (demo_read True) s \<and> rs_flight s \<noteq> {} \<and> card (rs_flight s \<union> {x. rs_bodies s x \<noteq> None}) \<le> 2"
proof -
  have "read_reach (demo_read True) demo_half" by (rule reach_run [OF demo_start])
  with read_memory_bounded [OF demo_read_ok this] show ?thesis by (auto simp: demo_half_def)
qed

end
