(* ===== verification/Read_Correct.thy ===== *)
theory Read_Correct
  imports Read_Path Read_Pipeline_Correct Write_Correct "HOL-Library.Multiset"
begin

text \<open>
  Correctness of the reads.  A read refines a sequential one: the rows of the catalog that match,
  grouped by partition, each partition fetched, decoded, sorted and deduplicated as a whole.  The
  emit callbacks of the four readers are interpretations of one locale, \<open>emitter\<close>, whose lemmas say
  what a callback has handed over after a run of the pipeline.
\<close>

section \<open>Preparing the partitions\<close>

definition entries_of :: "string \<Rightarrow> file_ref list \<Rightarrow> file_ref list" where
  "entries_of k es = filter (\<lambda>e. PartitionKey e = k) es"

lemma group_entries_find:
  "map_of (group_entries es m) k =
     (if entries_of k es = [] then map_of m k
      else Some ((case map_of m k of None \<Rightarrow> [] | Some fs \<Rightarrow> fs) @ entries_of k es))"
  by (induction es arbitrary: m) (auto simp: entries_of_def split: option.splits)

lemma group_entries_keys:
  "fst ` set (group_entries es m) = fst ` set m \<union> PartitionKey ` set es"
  "distinct (map fst m) \<Longrightarrow> distinct (map fst (group_entries es m))"
  by (induction es arbitrary: m) (simp_all add: set_put_keys)

lemma preparePartitions_eq:
  "preparePartitions es = map (\<lambda>k. let files = sort_key S3Key (entries_of k es)
     in \<lparr>ps_key = k, ps_files = files, ps_version = max_version files\<rparr>) (sorted_list_of_set (PartitionKey ` set es))"
proof -
  have "sort (map fst (group_entries es [])) = sorted_list_of_set (PartitionKey ` set es)"
    using group_entries_keys(1) [of es "[]"] group_entries_keys(2) [of "[]" es]
      sorted_list_of_set_sort_remdups [of "map fst (group_entries es [])"]
    by (simp add: distinct_remdups_id)
  moreover have "the (map_of (group_entries es []) k) = entries_of k es" if "k \<in> PartitionKey ` set es" for k
    using that group_entries_find [of es "[]" k] by (auto simp: entries_of_def filter_empty_conv)
  ultimately show ?thesis by (simp add: preparePartitions_def Let_def)
qed

lemma preparePartitions_props:
  assumes "ps \<in> set (preparePartitions es)"
  shows "ps_key ps \<in> PartitionKey ` set es" "ps_files ps = sort_key S3Key (entries_of (ps_key ps) es)"
    "ps_files ps \<noteq> []"
  using assms by (auto simp: preparePartitions_eq Let_def entries_of_def filter_empty_conv simp flip: set_empty)

lemma preparePartitions_empty: "preparePartitions es = [] \<longleftrightarrow> es = []"
  by (simp add: preparePartitions_eq)

lemma max_version_bounds:
  "max_version fs = foldl max 0 (map Version fs)"
proof -
  have "fold (\<lambda>f version. if Version f > version then Version f else version) fs v = foldl max v (map Version fs)" for v
    by (induction fs arbitrary: v) (auto simp: max_def)
  then show ?thesis by (simp add: max_version_def)
qed

section \<open>The configuration\<close>

lemma body_cap_props:
  "p \<in> set parts \<Longrightarrow> int (length (ps_files p)) \<le> body_cap pool opts parts"
  "(if ro_fetch_ahead_files opts \<le> 0 then pool else ro_fetch_ahead_files opts) \<le> body_cap pool opts parts"
proof -
  let ?f = "\<lambda>p cap. if int (length (ps_files p)) > cap then int (length (ps_files p)) else cap"
  have mono: "c \<le> fold ?f qs c" for qs c
  proof (induction qs arbitrary: c)
    case (Cons q qs)
    from Cons [of "?f q c"] show ?case by (auto split: if_splits)
  qed simp
  show "(if ro_fetch_ahead_files opts \<le> 0 then pool else ro_fetch_ahead_files opts) \<le> body_cap pool opts parts"
    unfolding body_cap_def by (rule mono)
  show "int (length (ps_files p)) \<le> body_cap pool opts parts" if "p \<in> set parts"
  proof -
    have "int (length (ps_files p)) \<le> fold ?f parts c" for c
      using that
    proof (induction parts arbitrary: c)
      case (Cons q qs)
      show ?case
      proof (cases "p = q")
        case True
        then show ?thesis using mono [of "?f q c" qs] by (auto split: if_splits)
      qed (use Cons in auto)
    qed simp
    then show ?thesis by (simp add: body_cap_def)
  qed
qed

lemma config_ok:
  assumes "es \<noteq> []" "0 < ren_pool env"
  shows "read_cfg_ok (read_config st env opts (preparePartitions es))"
proof -
  let ?parts = "preparePartitions es"
  have "0 < length (ps_files (?parts ! p)) \<and> int (length (ps_files (?parts ! p))) \<le> body_cap (ren_pool env) opts ?parts"
    if "p < length ?parts" for p
    using body_cap_props(1) [of "?parts ! p" ?parts] preparePartitions_props(3) [OF nth_mem [OF that]] nth_mem [OF that] by auto
  then have "0 < length (ps_files (?parts ! p)) \<and> length (ps_files (?parts ! p)) \<le> nat (body_cap (ren_pool env) opts ?parts)"
    if "p < length ?parts" for p using that by (metis nat_int nat_mono)
  then show ?thesis using assms by (auto simp: read_cfg_ok_def read_config_def n_parts_def n_files_def)
qed

section \<open>The sequential reader of a store\<close>

definition fetch_file :: "'r read_env \<Rightarrow> file_ref \<Rightarrow> string + 'r list" where
  "fetch_file env f = (case ren_object env (S3Key f) of None \<Rightarrow> Inl (''get '' @ S3Key f) | Some body \<Rightarrow> ren_decode env body)"

text \<open>A partition read without concurrency: its files in key order, decoded, sorted and deduplicated.\<close>

definition stored_part :: "'r store \<Rightarrow> 'r read_env \<Rightarrow> bool \<Rightarrow> part_state \<Rightarrow> string + 'r part_result" where
  "stored_part st env hist ps =
     (case map_res (fetch_file env) (ps_files ps) of
        Inl e \<Rightarrow> Inl e
      | Inr rss \<Rightarrow> Inr \<lparr>pr_key = ps_key ps,
          pr_records = sortAndDedup (concat rss) (st_entity_key_of st) (st_version_of st) hist,
          pr_version = ps_version ps, pr_refs = ps_files ps\<rparr>)"

lemma decode_all_eq:
  "decode_all (read_config st env opts parts) (map S3Key fs) =
     (case map_res (fetch_file env) fs of Inl e \<Rightarrow> Inl e | Inr rss \<Rightarrow> Inr (concat rss))"
proof (induction fs)
  case (Cons f fs)
  then show ?case
    by (auto simp: fetch_file_def read_config_def split: option.splits sum.splits)
qed simp

lemma seq_part_eq:
  "p < length parts \<Longrightarrow> seq_part (read_config st env opts parts) p = stored_part st env (ro_history opts) (parts ! p)"
proof -
  have "rc_parts (read_config st env opts parts) = parts" "rc_dedup (read_config st env opts parts) =
      (\<lambda>recs. sortAndDedup recs (st_entity_key_of st) (st_version_of st) (ro_history opts))"
    by (simp_all add: read_config_def)
  then show ?thesis
    by (simp add: seq_part_def stored_part_def decode_all_eq batch_of_def Let_def split: sum.splits)
qed

text \<open>What the pipeline can emit, in terms of it; \<open>n\<close> partitions.\<close>

definition emitted :: "'r store \<Rightarrow> 'r read_env \<Rightarrow> bool \<Rightarrow> part_state list \<Rightarrow> 'r part_result list \<Rightarrow> bool \<Rightarrow> bool" where
  "emitted st env hist parts bs complete \<longleftrightarrow>
     (\<exists>n \<le> length parts. map Inr bs = map (stored_part st env hist) (take n parts) \<and> (complete \<longrightarrow> n = length parts))"

lemma pipeline_emits:
  assumes "readFetchAndDecodeIter st env entries opts dflt bs en" "0 < ren_pool env" "\<not> ren_timeouts env"
    "\<And>n. ro_history (dflt n opts) = ro_history opts"
  shows "emitted st env (ro_history opts) (preparePartitions entries) bs (en = Ended)"
proof (cases "preparePartitions entries = []")
  case True
  then show ?thesis using assms(1) by (simp add: readFetchAndDecodeIter_def emitted_def)
next
  case False
  let ?parts = "preparePartitions entries"
  let ?opts = "dflt (int (length ?parts)) opts"
  let ?cfg = "read_config st env ?opts ?parts"
  obtain s where s: "read_reach ?cfg s" "rs_out s = bs" "rs_end s = Some en"
    using assms(1) False by (auto simp: readFetchAndDecodeIter_def Let_def)
  have ok: "read_cfg_ok ?cfg" using False config_ok assms(2) preparePartitions_empty by blast
  have n: "n_parts ?cfg = length ?parts" "\<not> rc_timeouts ?cfg" using assms(3) by (simp_all add: n_parts_def read_config_def)
  from pipeline_sequential [OF ok n(2) s(1)]
  have p: "map Inr bs = map (seq_part ?cfg) [0..<rs_pi s]" "rs_pi s \<le> length ?parts" "en = Ended \<longrightarrow> rs_pi s = length ?parts"
    using s n(1) by auto
  have "map (seq_part ?cfg) [0..<rs_pi s] = map (\<lambda>i. stored_part st env (ro_history opts) (?parts ! i)) [0..<rs_pi s]"
    using p(2) assms(4) by (intro map_cong) (auto simp: seq_part_eq)
  also have "\<dots> = map (stored_part st env (ro_history opts)) (take (rs_pi s) ?parts)"
    using p(2) by (intro nth_equalityI) auto
  finally show ?thesis using p unfolding emitted_def by metis
qed

section \<open>The emit callbacks\<close>

text \<open>The contract of a callback: \<open>view\<close> is what it has delivered, \<open>items\<close> what it makes of a batch,
  \<open>errs\<close> of an error, \<open>live\<close> that it has not seen an error.\<close>

locale emitter =
  fixes em :: "('s, 'b) emit" and view :: "'s \<Rightarrow> ('e + 'y) list" and items :: "'b \<Rightarrow> 'y list"
    and errs :: "pipe_error \<Rightarrow> ('e + 'y) list" and live :: "'s \<Rightarrow> bool"
  assumes emit_error: "live st \<Longrightarrow> view (fst (em st (Inl e))) = view st @ errs e"
    and emit_more: "live st \<Longrightarrow> em st (Inr b) = (st', True) \<Longrightarrow> live st' \<and> view st' = view st @ map Inr (items b)"
    and emit_stop: "live st \<Longrightarrow> em st (Inr b) = (st', False) \<Longrightarrow>
      \<exists>ys zs. items b = ys @ zs \<and> view st' = view st @ map Inr ys"
begin

lemma delivers:
  "emit_run em st bs en = Some st' \<Longrightarrow> live st \<Longrightarrow>
   \<exists>ys zs. concat (map items bs) = ys @ zs \<and> (en \<noteq> Broke \<longrightarrow> zs = [])
     \<and> view st' = view st @ map Inr ys @ (case en of Failed e \<Rightarrow> errs e | _ \<Rightarrow> [])"
proof (induction bs arbitrary: st)
  case Nil
  then show ?case by (auto simp: emit_error split: ending.splits)
next
  case (Cons b bs)
  obtain st1 ok where e: "em st (Inr b) = (st1, ok)" by fastforce
  show ?case
  proof (cases ok)
    case True
    with e Cons.prems(2) have v: "live st1" "view st1 = view st @ map Inr (items b)" using emit_more [of st b st1] by auto
    have "emit_run em st1 bs en = Some st'" using Cons.prems(1) e True by simp
    from Cons.IH [OF this v(1)] obtain ys zs where "concat (map items bs) = ys @ zs" "en \<noteq> Broke \<longrightarrow> zs = []"
      "view st' = view st1 @ map Inr ys @ (case en of Failed e \<Rightarrow> errs e | _ \<Rightarrow> [])" by blast
    then show ?thesis using v(2) by (intro exI [of _ "items b @ ys"] exI [of _ zs]) simp
  next
    case False
    with e Cons.prems(1) have "bs = []" "en = Broke" "st1 = st'" by (auto split: if_splits)
    then show ?thesis using emit_stop [of st b st1] e False Cons.prems(2) by auto
  qed
qed

lemma broke:
  "emit_run em st bs Broke = Some st' \<Longrightarrow> live st \<Longrightarrow> \<exists>st1 b st2. em st1 (Inr b) = (st2, False)"
proof (induction bs arbitrary: st)
  case (Cons b bs)
  obtain st1 ok where e: "em st (Inr b) = (st1, ok)" by fastforce
  show ?case
  proof (cases ok)
    case True
    with e Cons.prems have "emit_run em st1 bs Broke = Some st'" "live st1" using emit_more [of st b st1] by auto
    then show ?thesis by (rule Cons.IH)
  qed (use e in auto)
qed simp

end

lemma yield_records_view:
  "yield_records wants ys rs = (ys', ok) \<Longrightarrow>
   (ok \<longrightarrow> ys' = ys @ map Inr rs) \<and> (\<exists>us vs. rs = us @ vs \<and> ys' = ys @ map Inr us)"
proof (induction rs arbitrary: ys)
  case (Cons r rs)
  show ?case
  proof (cases "wants (ys @ [Inr r])")
    case True
    with Cons.prems have "yield_records wants (ys @ [Inr r]) rs = (ys', ok)" by simp
    from Cons.IH [OF this] obtain us vs where "ok \<longrightarrow> ys' = (ys @ [Inr r]) @ map Inr rs" "rs = us @ vs"
      "ys' = (ys @ [Inr r]) @ map Inr us" by blast
    then show ?thesis by (intro conjI exI [of _ "r # us"] exI [of _ vs]) simp_all
  next
    case False
    with Cons.prems show ?thesis by (intro conjI exI [of _ "[r]"] exI [of _ rs]) (simp_all add: Let_def)
  qed
qed auto

interpretation records: emitter "recordEmit wants" "\<lambda>ys. ys" pr_records "\<lambda>e. [Inl (Re_pipe e)]" "\<lambda>_. True" for wants
  by unfold_locales (auto simp: recordEmit_def dest: yield_records_view)

interpretation partitions: emitter "partitionEmit wants" "\<lambda>ys. ys" "\<lambda>b. [b]" "\<lambda>e. [Inl (Re_pipe e)]" "\<lambda>_. True" for wants
  by unfold_locales (auto simp: partitionEmit_def Let_def intro: exI [of _ "[_]"])

definition acc_view :: "'y list \<times> read_error option \<Rightarrow> 'y yields" where
  "acc_view acc = map Inr (fst acc) @ (case snd acc of None \<Rightarrow> [] | Some e \<Rightarrow> [Inl e])"

interpretation record_acc: emitter recordCollectEmit acc_view pr_records "\<lambda>e. [Inl (Re_pipe e)]" "\<lambda>acc. snd acc = None"
  by unfold_locales (auto simp: recordCollectEmit_def acc_view_def)

interpretation partition_acc: emitter partitionCollectEmit acc_view "\<lambda>b. [b]" "\<lambda>e. [Inl (Re_pipe e)]" "\<lambda>acc. snd acc = None"
  by unfold_locales (auto simp: partitionCollectEmit_def acc_view_def)

section \<open>Rows of the catalog as partitions\<close>

lemma sort_by_key:
  assumes "distinct (map f xs)" "set xs = set ys" "distinct ys" "sorted (map f ys)"
  shows "sort_key f xs = ys"
proof -
  have "distinct xs" using assms(1) by (simp add: distinct_map)
  then have "mset xs = mset ys" using assms(2,3) by (simp add: set_eq_iff_mset_eq_distinct)
  moreover have "inj_on f (set xs)" using assms(1) by (simp add: distinct_map)
  ultimately show ?thesis using assms(4) sort_key_inj_key_eq by blast
qed

lemma fold_max_set: "foldl max 0 vs = Max (insert 0 (set vs))" for vs :: "int list"
proof -
  have "foldl max v vs = Max (insert v (set vs))" for v
  proof (induction vs arbitrary: v)
    case (Cons a vs)
    then show ?case by (cases "vs = []") (simp_all add: max.assoc insert_commute)
  qed simp
  then show ?thesis .
qed

definition selected :: "(file_row \<Rightarrow> bool) \<Rightarrow> catalog \<Rightarrow> string \<Rightarrow> file_row list" where
  "selected P db k = sort_key f_s3_key (filter (\<lambda>r. P r \<and> f_partition_key r = k) (c_files db))"

definition selected_keys :: "(file_row \<Rightarrow> bool) \<Rightarrow> catalog \<Rightarrow> string list" where
  "selected_keys P db = sorted_list_of_set (f_partition_key ` {r \<in> set (c_files db). P r})"

text \<open>The partition state of the selected rows with one key.\<close>

definition row_part :: "string list \<Rightarrow> (file_row \<Rightarrow> bool) \<Rightarrow> catalog \<Rightarrow> string \<Rightarrow> part_state" where
  "row_part exts P db k =
     (let files = map (ref_of exts) (selected P db k)
      in \<lparr>ps_key = k, ps_files = files, ps_version = max_version files\<rparr>)"

lemma query_parts:
  assumes "wf_store st" "cat_inv db" "P = (if wh = [] then (\<lambda>_. True) else server wh args)"
  shows "\<exists>rows. queryFileRows st server None db wh args = Inr rows
    \<and> preparePartitions rows = map (row_part (ext_names st) P db) (selected_keys P db)"
proof -
  let ?exts = "ext_names st"
  let ?rows = "sort_key (\<lambda>r. (f_partition_key r, f_s3_key r)) (filter P (c_files db))"
  let ?refs = "map (ref_of ?exts) ?rows"
  have "map_res (scan_file_ref ?exts) (map (project (file_ref_cols ?exts)) ?rows) = Inr ?refs"
    using assms(1,2) by (simp add: map_res_Inr list.rel_map list_all2_same wf_store_def cat_inv_def scan_project)
  then have "queryFileRows st server None db wh args = Inr ?refs"
    using assms(3) by (simp add: queryFileRows_def sql_files_query_def)
  moreover have "PartitionKey ` set ?refs = f_partition_key ` {r \<in> set (c_files db). P r}"
    by (auto simp: ref_of_def image_iff)
  moreover have "sort_key S3Key (entries_of k ?refs) = map (ref_of ?exts) (selected P db k)" for k
  proof (rule sort_by_key)
    have d: "distinct (map f_s3_key (c_files db))" using assms(2) by (simp add: cat_inv_def)
    let ?sel = "filter (\<lambda>r. f_partition_key r = k) ?rows"
    have e: "entries_of k ?refs = map (ref_of ?exts) ?sel" by (simp add: entries_of_def filter_map comp_def ref_of_def)
    have s: "map S3Key (map (ref_of ?exts) rs) = map f_s3_key rs" for rs by (simp add: ref_of_def)
    have dd: "distinct (map f_s3_key rs)" if "set rs \<subseteq> set (c_files db)" "distinct rs" for rs
      using d that by (auto simp: distinct_map intro: inj_on_subset)
    have df: "distinct (c_files db)" using d by (simp add: distinct_map)
    show "distinct (map S3Key (entries_of k ?refs))"
      unfolding e s using df by (intro dd) auto
    show "set (entries_of k ?refs) = set (map (ref_of ?exts) (selected P db k))"
      unfolding e by (auto simp: selected_def)
    have "distinct (map S3Key (map (ref_of ?exts) (selected P db k)))"
      unfolding s using df by (intro dd) (auto simp: selected_def)
    then show "distinct (map (ref_of ?exts) (selected P db k))" by (rule distinct_map [THEN iffD1, THEN conjunct1])
    show "sorted (map S3Key (map (ref_of ?exts) (selected P db k)))"
      unfolding s by (simp add: selected_def)
  qed
  ultimately show ?thesis
    by (auto simp: preparePartitions_eq selected_keys_def row_part_def Let_def)
qed

text \<open>A partition all of whose files are selected has the version of its partitions row.\<close>

lemma whole_version:
  assumes "cat_inv db" "\<And>r. r \<in> set (part_files k db) \<Longrightarrow> P r"
  shows "max_version (map (ref_of exts) (selected P db k)) = int (length (part_files k db))"
proof -
  let ?n = "length (part_files k db)"
  have eq: "filter (\<lambda>r. P r \<and> f_partition_key r = k) (c_files db) = part_files k db"
    using assms(2) unfolding part_files_def by (intro filter_cong) auto
  have v: "map f_written_at_version (part_files k db) = map (\<lambda>i. Some (int i)) [1..<?n + 1]"
    using assms(1) by (simp add: cat_inv_def versions_ok_def Let_def)
  have "Version ` set (map (ref_of exts) (selected P db k)) = the ` set (map f_written_at_version (part_files k db))"
    unfolding selected_def eq by (auto simp: ref_of_def image_iff)
  also have "\<dots> = int ` {1..<?n + 1}" unfolding v by force
  finally have "set (map Version (map (ref_of exts) (selected P db k))) = int ` {1..<?n + 1}"
    by (simp only: set_map)
  moreover have "Max (insert 0 (int ` {1..<n + 1})) = int n" for n
    by (rule Max_eqI) auto
  ultimately show ?thesis by (simp only: max_version_bounds fold_max_set)
qed

section \<open>Reads by filter\<close>

definition where_expr :: "pfilter list \<Rightarrow> wexpr" where
  "where_expr filters = compile part_col 0 (if length filters = 1 then hd filters else And filters)"

text \<open>The server evaluates the WHERE text as the expression it is the text of.\<close>

definition server_evaluates :: "server \<Rightarrow> (string \<Rightarrow> string \<Rightarrow> bool) \<Rightarrow> pfilter list \<Rightarrow> bool" where
  "server_evaluates server clt filters \<longleftrightarrow>
     (\<forall>r. server (render (where_expr filters)) (map TextV (concat (map bound_values filters))) r =
        eval clt (concat (map bound_values filters)) (file_text r) (where_expr filters))"

definition matches :: "(string \<Rightarrow> string \<Rightarrow> bool) \<Rightarrow> pfilter list \<Rightarrow> file_row \<Rightarrow> bool" where
  "matches clt filters r \<longleftrightarrow> list_all (holds clt (\<lambda>p. file_text r (part_col p))) filters"

text \<open>The part columns of a row depend on its partition key only, as \<open>PartitionKeyValues\<close> makes them.\<close>

definition parts_fixed :: "catalog \<Rightarrow> bool" where
  "parts_fixed db \<longleftrightarrow> (\<forall>r \<in> set (c_files db). \<forall>s \<in> set (c_files db). f_partition_key r = f_partition_key s \<longrightarrow> f_part r = f_part s)"

text \<open>A whole partition: every file of it, and the version of its partitions row.\<close>

definition whole_part :: "string list \<Rightarrow> catalog \<Rightarrow> string \<Rightarrow> part_state" where
  "whole_part exts db k =
     \<lparr>ps_key = k, ps_files = map (ref_of exts) (sort_key f_s3_key (part_files k db)),
      ps_version = int (length (part_files k db))\<rparr>"

lemma render_nonempty: "filter_cols f \<subseteq> set parts \<Longrightarrow> render (compile part_col n f) \<noteq> []"
  by (cases f) (auto simp: part_col_def PartColumnPrefix_def)

lemma resolve_whole:
  assumes "wf_store st" "cat_inv db" "parts_fixed db" "filters \<noteq> []"
    "\<forall>f \<in> set filters. filter_cols f \<subseteq> set (st_parts st) \<and> ordered f" "server_evaluates server clt filters"
  shows "\<exists>rows. ResolveFileRefs st server None db filters = Inr rows
    \<and> preparePartitions rows = map (whole_part (ext_names st) db) (selected_keys (matches clt filters) db)"
proof -
  let ?wh = "render (where_expr filters)" and ?args = "concat (map bound_values filters)"
  have tr: "translateFilters filters (partColResolver (st_parts st)) = Inr (?wh, ?args)"
    using part.translateFilters_eq [of filters "st_parts st"] assms(4,5) by (simp add: where_expr_def)
  have ne: "?wh \<noteq> []"
    unfolding where_expr_def using assms(4,5)
    by (intro render_nonempty [of _ "st_parts st"]) (cases filters, auto)
  have P: "matches clt filters = server ?wh (map TextV ?args)"
    using assms(6) eval_where [OF assms(4), where ident = part_col]
    by (simp add: server_evaluates_def matches_def fun_eq_iff list_all_iff where_expr_def)
  have "matches clt filters = (if ?wh = [] then (\<lambda>_. True) else server ?wh (map TextV ?args))" using P ne by simp
  from query_parts [where server = server and args = "map TextV ?args", OF assms(1,2) this] obtain rows where rows:
    "queryFileRows st server None db ?wh (map TextV ?args) = Inr rows"
    "preparePartitions rows = map (row_part (ext_names st) (matches clt filters) db) (selected_keys (matches clt filters) db)" by blast
  have same: "row_part (ext_names st) (matches clt filters) db k = whole_part (ext_names st) db k"
    if k: "k \<in> set (selected_keys (matches clt filters) db)" for k
  proof -
    obtain r where r: "r \<in> set (c_files db)" "matches clt filters r" "f_partition_key r = k"
      using k by (auto simp: selected_keys_def)
    have all: "matches clt filters s" if "s \<in> set (part_files k db)" for s
    proof -
      have "s \<in> set (c_files db)" "f_partition_key s = k" using that by (auto simp: part_files_def)
      then have "f_part s = f_part r" using r assms(3) unfolding parts_fixed_def by metis
      then have "(\<lambda>p. file_text s (part_col p)) = (\<lambda>p. file_text r (part_col p))" by (simp add: file_text_def fun_eq_iff)
      then show ?thesis using r(2) by (simp add: matches_def)
    qed
    have "selected (matches clt filters) db k = sort_key f_s3_key (part_files k db)"
      unfolding selected_def part_files_def
      by (intro arg_cong [of _ _ "sort_key f_s3_key"] filter_cong refl) (use all in \<open>auto simp: part_files_def\<close>)
    then show ?thesis
      using whole_version [where k = k and exts = "ext_names st" and P = "matches clt filters", OF assms(2) all]
      by (simp add: row_part_def whole_part_def)
  qed
  have "map (row_part (ext_names st) (matches clt filters) db) (selected_keys (matches clt filters) db)
      = map (whole_part (ext_names st) db) (selected_keys (matches clt filters) db)"
    by (intro map_cong refl same)
  moreover have "ResolveFileRefs st server None db filters = Inr rows"
    using tr rows(1) assms(4) by (simp add: ResolveFileRefs_def)
  ultimately show ?thesis using rows(2) by metis
qed

text \<open>What the catalog and the bucket hold for a partition.\<close>

definition catalog_part :: "'r store \<Rightarrow> 'r read_env \<Rightarrow> bool \<Rightarrow> catalog \<Rightarrow> string \<Rightarrow> string + 'r part_result" where
  "catalog_part st env hist db k = stored_part st env hist (whole_part (ext_names st) db k)"

lemma history_kept [simp]:
  "ro_history (readBatchDefaults pool procs n opts) = ro_history opts" "ro_history (iterStreamDefaults n opts) = ro_history opts"
  by (simp_all add: readBatchDefaults_def iterStreamDefaults_def Let_def)

lemma collected_view:
  assumes "acc_view acc = map Inr ys @ (case en of Failed e \<Rightarrow> [Inl (Re_pipe e)] | _ \<Rightarrow> [])"
  shows "collected acc = (case en of Failed e \<Rightarrow> ([], Some (Re_pipe e)) | _ \<Rightarrow> (ys, None))"
proof -
  have inj: "map Inr xs = map Inr zs \<Longrightarrow> xs = zs" for xs zs :: "'a list" by (simp add: inj_map_eq_map)
  have clash: "map Inr xs \<noteq> map Inr zs @ [Inl e]" for xs zs :: "'a list" and e :: read_error
    by (metis Inl_Inr_False in_set_conv_decomp imageE set_map)
  show ?thesis
    using assms by (cases "snd acc") (auto simp: acc_view_def collected_def clash clash [symmetric] dest: inj split: ending.splits)
qed

lemma collects:
  assumes "emitter em acc_view items (\<lambda>e. [Inl (Re_pipe e)]) (\<lambda>acc. snd acc = None)" "\<And>st b. snd (em st (Inr b))"
    "emit_run em ([], None) bs en = Some acc"
  shows "collected acc = (case en of Failed e \<Rightarrow> ([], Some (Re_pipe e)) | _ \<Rightarrow> (concat (map items bs), None))" "en \<noteq> Broke"
proof -
  show nb: "en \<noteq> Broke"
  proof
    assume "en = Broke"
    then obtain st1 b st2 where "em st1 (Inr b) = (st2, False)" using emitter.broke [OF assms(1)] assms(3) by fastforce
    then show False using assms(2) [of st1 b] by simp
  qed
  obtain ys zs where "concat (map items bs) = ys @ zs" "en \<noteq> Broke \<longrightarrow> zs = []"
    "acc_view acc = acc_view ([], None) @ map Inr ys @ (case en of Failed e \<Rightarrow> [Inl (Re_pipe e)] | _ \<Rightarrow> [])"
    using emitter.delivers [OF assms(1,3)] by auto
  then show "collected acc = (case en of Failed e \<Rightarrow> ([], Some (Re_pipe e)) | _ \<Rightarrow> (concat (map items bs), None))"
    using nb collected_view [of acc ys en] by (cases en) (auto simp: acc_view_def)
qed

lemma emitted_all: "emitted st env hist parts bs True \<Longrightarrow> map Inr bs = map (stored_part st env hist) parts"
  by (auto simp: emitted_def)

text \<open>The conditions under which a read by filters is answered from a consistent catalog.\<close>

definition read_ready ::
  "'r store \<Rightarrow> catalog \<Rightarrow> 'r read_env \<Rightarrow> pfilter list \<Rightarrow> (string \<Rightarrow> sqlval list \<Rightarrow> file_row \<Rightarrow> bool) \<Rightarrow> (string \<Rightarrow> string \<Rightarrow> bool) \<Rightarrow> bool" where
  "read_ready st db env filters server clt \<longleftrightarrow> wf_store st \<and> cat_inv db \<and> parts_fixed db \<and> 0 < ren_pool env \<and> \<not> ren_timeouts env
     \<and> filters \<noteq> [] \<and> (\<forall>f \<in> set filters. filter_cols f \<subseteq> set (st_parts st) \<and> ordered f) \<and> server_evaluates server clt filters"

lemma read_emits:
  assumes "read_ready st db env filters server clt"
  obtains rows where "ResolveFileRefs st server None db filters = Inr rows"
    "\<And>opts bs. readFetchAndDecodeIter st env rows opts (readBatchDefaults (ren_pool env) (ren_procs env)) bs Ended
      \<Longrightarrow> map Inr bs = map (catalog_part st env (ro_history opts) db) (selected_keys (matches clt filters) db)"
proof -
  obtain rows where rows: "ResolveFileRefs st server None db filters = Inr rows"
    "preparePartitions rows = map (whole_part (ext_names st) db) (selected_keys (matches clt filters) db)"
    using resolve_whole [of st db filters server clt] assms unfolding read_ready_def by blast
  have "map Inr bs = map (catalog_part st env (ro_history opts) db) (selected_keys (matches clt filters) db)"
    if "readFetchAndDecodeIter st env rows opts (readBatchDefaults (ren_pool env) (ren_procs env)) bs Ended" for opts bs
    using emitted_all [of st env "ro_history opts" _ bs] pipeline_emits [OF that] assms rows(2)
    by (simp add: catalog_part_def comp_def read_ready_def)
  from that [OF rows(1) this] show thesis .
qed

lemma ReadPartition_complete:
  assumes "read_ready st db env filters server clt" "ReadPartition st env server None db filters opts (ps, err)"
  shows "if err = None then map Inr ps = map (catalog_part st env (ro_history (resolveIterOpts opts)) db) (selected_keys (matches clt filters) db)
    else ps = []"
proof -
  obtain rows where rows: "ResolveFileRefs st server None db filters = Inr rows"
    and all: "\<And>opts bs. readFetchAndDecodeIter st env rows opts (readBatchDefaults (ren_pool env) (ren_procs env)) bs Ended
      \<Longrightarrow> map Inr bs = map (catalog_part st env (ro_history opts) db) (selected_keys (matches clt filters) db)"
    using read_emits [OF assms(1)] by blast
  obtain bs en acc where r: "readFetchAndDecodeIter st env rows (resolveIterOpts opts)
      (readBatchDefaults (ren_pool env) (ren_procs env)) bs en"
    and a: "emit_run partitionCollectEmit ([], None) bs en = Some acc" "(ps, err) = collected acc"
    using assms rows unfolding ReadPartition_def read_ready_def by auto
  from collects [OF partition_acc.emitter_axioms _ a(1)] a(2) all [of "resolveIterOpts opts" bs] r show ?thesis
    by (cases en) (auto simp: partitionCollectEmit_def)
qed

lemma Read_complete:
  assumes "read_ready st db env filters server clt" "Read st env server None db filters opts (rs, err)"
  shows "if err = None then \<exists>qs. map Inr qs = map (catalog_part st env (ro_history (resolveIterOpts opts)) db) (selected_keys (matches clt filters) db)
      \<and> rs = concat (map pr_records qs)
    else rs = []"
proof -
  obtain rows where rows: "ResolveFileRefs st server None db filters = Inr rows"
    and all: "\<And>opts bs. readFetchAndDecodeIter st env rows opts (readBatchDefaults (ren_pool env) (ren_procs env)) bs Ended
      \<Longrightarrow> map Inr bs = map (catalog_part st env (ro_history opts) db) (selected_keys (matches clt filters) db)"
    using read_emits [OF assms(1)] by blast
  obtain bs en acc where r: "readFetchAndDecodeIter st env rows (resolveIterOpts opts)
      (readBatchDefaults (ren_pool env) (ren_procs env)) bs en"
    and a: "emit_run recordCollectEmit ([], None) bs en = Some acc" "(rs, err) = collected acc"
    using assms rows unfolding Read_def read_ready_def by auto
  from collects [OF record_acc.emitter_axioms _ a(1)] a(2) all [of "resolveIterOpts opts" bs] r show ?thesis
    by (cases en) (auto simp: recordCollectEmit_def)
qed

text \<open>C27.  A read returns exactly what the catalog and the bucket hold: for each partition with a matching
  file, in key order, every file of the partition in key order, decoded, sorted and deduplicated,
  with the partition's version; or an error and nothing.  It holds for every interleaving and
  every option.  \<open>Read\<close> returns the records, \<open>ReadPartition\<close> the partitions.
  Assumed is that no GET of the read fails with a context error of its own
  while its context lives, such as a transport timeout: the code would then leave the records of that file out and report
  no error (\<open>read_timeout_partial\<close>).  Further, the read has a filter and its pool a worker; the server evaluates the
  \<open>WHERE\<close> clause as PostgreSQL does; and the catalog is consistent, with the same part columns in all rows of a partition.\<close>

theorem reads_complete:
  assumes "wf_store st" "cat_inv db" "parts_fixed db" "0 < ren_pool env" "\<not> ren_timeouts env" "filters \<noteq> []"
    "\<forall>f \<in> set filters. filter_cols f \<subseteq> set (st_parts st) \<and> ordered f" "server_evaluates server clt filters"
  shows "let keys = selected_keys (matches clt filters) db; hist = ro_history (resolveIterOpts opts) in
    (ReadPartition st env server None db filters opts (ps, err) \<longrightarrow>
       (if err = None then map Inr ps = map (catalog_part st env hist db) keys else ps = []))
    \<and> (Read st env server None db filters opts (rs, err) \<longrightarrow>
       (if err = None then \<exists>qs. map Inr qs = map (catalog_part st env hist db) keys \<and> rs = concat (map pr_records qs) else rs = []))"
proof -
  have "read_ready st db env filters server clt" using assms by (simp add: read_ready_def)
  from ReadPartition_complete [OF this] Read_complete [OF this] show ?thesis by (simp add: Let_def)
qed

section \<open>Iterators\<close>

text \<open>What an iterator has yielded: a prefix of the items of the first \<open>n\<close> units, then at most one error,
  after all of these items; everything, if the consumer is eager and there is no error.\<close>

definition delivered ::
  "('k \<Rightarrow> string + 'r part_result) \<Rightarrow> 'k list \<Rightarrow> ('r part_result \<Rightarrow> 'y list) \<Rightarrow> bool \<Rightarrow> 'y yields \<Rightarrow> bool" where
  "delivered read keys items eager ys \<longleftrightarrow>
     (\<exists>n bs us zs tail. n \<le> length keys \<and> map Inr bs = map read (take n keys)
        \<and> concat (map items bs) = us @ zs \<and> ys = map Inr us @ tail
        \<and> (tail = [] \<or> zs = [] \<and> (\<exists>e. tail = [Inl (Re_pipe e)]))
        \<and> (tail = [] \<and> eager \<longrightarrow> zs = [] \<and> n = length keys))"

lemma delivered_map: "delivered read (map f keys) items eager ys \<longleftrightarrow> delivered (\<lambda>k. read (f k)) keys items eager ys"
  by (simp add: delivered_def take_map comp_def)

lemma delivered_eager: "delivered read keys items e ys \<Longrightarrow> (e' \<longrightarrow> e) \<Longrightarrow> delivered read keys items e' ys"
  unfolding delivered_def by blast

lemma iterates:
  assumes "emitter em (\<lambda>ys. ys) items (\<lambda>e. [Inl (Re_pipe e)]) (\<lambda>_. True)" "iterate em st env opts (Inr rows) ys" "0 < ren_pool env" "\<not> ren_timeouts env"
  shows "delivered (stored_part st env (ro_history (resolveIterOpts opts))) (preparePartitions rows) items
    (\<forall>ys b. snd (em ys (Inr b))) ys"
proof -
  let ?hist = "ro_history (resolveIterOpts opts)" and ?parts = "preparePartitions rows"
  obtain bs en where r: "readFetchAndDecodeIter st env rows (resolveIterOpts opts) iterStreamDefaults bs en"
    "emit_run em [] bs en = Some ys" using assms(2) by (auto simp: iterate_def)
  have "emitted st env ?hist ?parts bs (en = Ended)"
    using pipeline_emits [OF r(1) assms(3,4)] by simp
  then obtain n where n: "n \<le> length ?parts" "en = Ended \<longrightarrow> n = length ?parts"
    "map Inr bs = map (stored_part st env ?hist) (take n ?parts)"
    by (auto simp: emitted_def)
  obtain us zs where u: "concat (map items bs) = us @ zs" "en \<noteq> Broke \<longrightarrow> zs = []"
    "ys = map Inr us @ (case en of Failed e \<Rightarrow> [Inl (Re_pipe e)] | _ \<Rightarrow> [])"
    using emitter.delivers [OF assms(1) r(2)] by auto
  have nb: "(\<forall>ys b. snd (em ys (Inr b))) \<longrightarrow> en \<noteq> Broke"
    using emitter.broke [OF assms(1)] r(2) by (metis snd_conv)
  show ?thesis
    unfolding delivered_def
    by (rule exI [of _ n], rule exI [of _ bs], rule exI [of _ us], rule exI [of _ zs],
        rule exI [of _ "case en of Failed e \<Rightarrow> [Inl (Re_pipe e)] | _ \<Rightarrow> []"])
      (use n u nb in \<open>cases en; auto\<close>)
qed

lemma yield_eager: "\<forall>ys. wants ys \<Longrightarrow> snd (yield_records wants ys rs)"
  by (induction rs arbitrary: ys) (auto simp: Let_def)

lemma eager_records: "(\<forall>xs. wants xs) \<longrightarrow> (\<forall>ys b. snd (recordEmit wants ys (Inr b)))"
  by (simp add: recordEmit_def yield_eager)

lemma eager_partitions: "(\<forall>xs. wants xs) \<longrightarrow> (\<forall>ys b. snd (partitionEmit wants ys (Inr b)))"
  by (simp add: partitionEmit_def Let_def)

text \<open>The iterators yield a prefix of what the collecting reads return, then at most one error: records
  or partitions in order, whatever the consumer does and however the goroutines interleave, and all
  of them if it never stops and no error comes.\<close>

theorem iterators_prefix:
  assumes "wf_store st" "cat_inv db" "parts_fixed db" "0 < ren_pool env" "\<not> ren_timeouts env" "filters \<noteq> []"
    "\<forall>f \<in> set filters. filter_cols f \<subseteq> set (st_parts st) \<and> ordered f" "server_evaluates server clt filters"
  shows "let keys = selected_keys (matches clt filters) db; read = catalog_part st env (ro_history (resolveIterOpts opts)) db in
    (ReadIter st env server None db filters opts wants ys \<longrightarrow> delivered read keys pr_records (\<forall>xs. wants xs) ys)
    \<and> (ReadPartitionIter st env server None db filters opts wants' zs \<longrightarrow> delivered read keys (\<lambda>p. [p]) (\<forall>xs. wants' xs) zs)"
proof -
  let ?keys = "selected_keys (matches clt filters) db" and ?read = "catalog_part st env (ro_history (resolveIterOpts opts)) db"
  obtain rows where rows: "ResolveFileRefs st server None db filters = Inr rows"
    "preparePartitions rows = map (whole_part (ext_names st) db) ?keys"
    using resolve_whole [OF assms(1-3,6-8)] by blast
  have "delivered ?read ?keys pr_records (\<forall>xs. wants xs) ys" if "ReadIter st env server None db filters opts wants ys"
  proof -
    have "iterate (recordEmit wants) st env opts (Inr rows) ys" using assms(6) rows(1) that by (simp add: ReadIter_def)
    from delivered_eager [OF iterates [OF records.emitter_axioms this assms(4,5)] eager_records] show ?thesis
      by (simp add: rows(2) delivered_map catalog_part_def [abs_def])
  qed
  moreover have "delivered ?read ?keys (\<lambda>p. [p]) (\<forall>xs. wants' xs) zs" if "ReadPartitionIter st env server None db filters opts wants' zs"
  proof -
    have "iterate (partitionEmit wants') st env opts (Inr rows) zs" using assms(6) rows(1) that by (simp add: ReadPartitionIter_def)
    from delivered_eager [OF iterates [OF partitions.emitter_axioms this assms(4,5)] eager_partitions] show ?thesis
      by (simp add: rows(2) delivered_map catalog_part_def [abs_def])
  qed
  ultimately show ?thesis by (simp add: Let_def)
qed

section \<open>An instance\<close>

definition demo_row :: "int \<Rightarrow> file_row" where
  "demo_row i = \<lparr>f_file_id = i, f_s3_key = (if i = 1 then ''a'' else ''b''), f_partition_key = ''p=1'',
     f_part = (\<lambda>_. None)(''p'' := Some ''1''), f_file_size = 1, f_uncompressed_size = 8, f_record_count = Some 1,
     f_written_at_version = Some i, f_written_at = 0, f_token = None, f_feed_seq = None, f_feed_seq_at = None, f_ext = (\<lambda>_. GNil)\<rparr>"

definition demo_rows :: catalog where
  "demo_rows = \<lparr>c_files = [demo_row 1, demo_row 2],
     c_partitions = [\<lparr>p_partition_key = ''p=1'', p_part = (\<lambda>_. None)(''p'' := Some ''1''), p_version = 2, p_file_count = 2, p_updated_at = 0\<rparr>],
     c_pending = [], c_mv = (\<lambda>_. []), c_next_id = 3\<rparr>"

definition demo_env :: "string read_env" where
  "demo_env = \<lparr>ren_pool = 2, ren_procs = 1, ren_object = Some, ren_decode = (\<lambda>b. Inr [b]), ren_timeouts = False\<rparr>"

definition demo_server :: server where
  "demo_server wh args r \<longleftrightarrow> wh = ''part_p = $1'' \<and> args = [opt_text (f_part r ''p'')]"

definition demo_opts :: "read_option list" where
  "demo_opts = [ReadIter_option (WithDecodeAheadBytes 4)]"

lemma demo_catalog: "wf_store demo_store" "cat_inv demo_rows" "parts_fixed demo_rows"
  by (auto simp: wf_store_def demo_store_def ext_names_def cat_inv_def demo_rows_def demo_row_def token_clash_def row_complete_def
      versions_ok_def part_files_def part_find_def parts_fixed_def Let_def upt_rec)

lemma demo_where: "render (where_expr [Eq ''p'' ''1'']) = ''part_p = $1''"
  by code_simp

lemma demo_evaluates: "server_evaluates demo_server (<) [Eq ''p'' ''1'']"
  unfolding server_evaluates_def demo_where
  by (auto simp: demo_server_def where_expr_def file_text_def split: sqlval.splits)

lemma demo_filter: "\<forall>f \<in> set [Eq ''p'' ''1'']. filter_cols f \<subseteq> set (st_parts demo_store) \<and> ordered f"
  by (simp add: demo_store_def)

lemma demo_keys: "selected_keys (matches (<) [Eq ''p'' ''1'']) demo_rows = [''p=1'']"
proof -
  have "{r \<in> set (c_files demo_rows). matches (<) [Eq ''p'' ''1''] r} = {demo_row 1, demo_row 2}"
    by (auto simp: demo_rows_def matches_def file_text_def demo_row_def)
  then show ?thesis by (simp add: selected_keys_def demo_row_def)
qed

lemma demo_whole: "whole_part (ext_names demo_store) demo_rows ''p=1'' =
   \<lparr>ps_key = ''p=1'', ps_files = [demo_ref ''a'', demo_ref ''b''], ps_version = 2\<rparr>"
  by (simp add: whole_part_def part_files_def demo_rows_def demo_row_def ref_of_def demo_ref_def demo_store_def ext_names_def
      ext_map_def OffsetNone_def)

lemma demo_batches:
  assumes "preparePartitions rows = [\<lparr>ps_key = ''p=1'', ps_files = [demo_ref ''a'', demo_ref ''b''], ps_version = 2\<rparr>]"
    "applyDefaults \<in> {iterStreamDefaults, readBatchDefaults (ren_pool demo_env) (ren_procs demo_env)}"
  shows "readFetchAndDecodeIter demo_store demo_env rows (resolveIterOpts demo_opts) applyDefaults [demo_batch [''a'', ''b'']] Ended"
proof -
  have "read_config demo_store demo_env (applyDefaults 1 (resolveIterOpts demo_opts)) (preparePartitions rows) = demo_read False"
    using assms
    by (auto simp: read_config_def demo_read_def demo_env_def demo_store_def demo_opts_def resolveIterOpts_def body_cap_def
        iterStreamDefaults_def readBatchDefaults_def sortAndDedup_def Let_def)
  then show ?thesis
    using demo_good [of False] reach_run assms(1) by (auto simp: readFetchAndDecodeIter_def Let_def)
qed

lemma demo_rows_read: "\<exists>rows. ResolveFileRefs demo_store demo_server None demo_rows [Eq ''p'' ''1''] = Inr rows
   \<and> preparePartitions rows = [\<lparr>ps_key = ''p=1'', ps_files = [demo_ref ''a'', demo_ref ''b''], ps_version = 2\<rparr>]"
  using resolve_whole [OF demo_catalog _ demo_filter demo_evaluates] by (simp add: demo_keys demo_whole)

lemma reads_complete_witness:
  "map Inr [demo_batch [''a'', ''b'']] = map (catalog_part demo_store demo_env False demo_rows) [''p=1'']
   \<and> ReadPartition demo_store demo_env demo_server None demo_rows [Eq ''p'' ''1''] demo_opts ([demo_batch [''a'', ''b'']], None)"
proof -
  have r: "ReadPartition demo_store demo_env demo_server None demo_rows [Eq ''p'' ''1''] demo_opts ([demo_batch [''a'', ''b'']], None)"
    using demo_rows_read demo_batches
    by (fastforce simp: ReadPartition_def partitionCollectEmit_def collected_def)
  have env: "0 < ren_pool demo_env" "\<not> ren_timeouts demo_env" "[Eq ''p'' ''1''] \<noteq> []" by (simp_all add: demo_env_def)
  have h: "ro_history (resolveIterOpts demo_opts) = False" by (simp add: resolveIterOpts_def demo_opts_def)
  from reads_complete [OF demo_catalog env demo_filter demo_evaluates, of demo_opts "[demo_batch [''a'', ''b'']]" None "[]"] r
  show ?thesis by (simp add: Let_def demo_keys h)
qed

lemma iterators_prefix_witness:
  "delivered (catalog_part demo_store demo_env False demo_rows) [''p=1''] pr_records True [Inr ''a'', Inr ''b'']
   \<and> ReadIter demo_store demo_env demo_server None demo_rows [Eq ''p'' ''1''] demo_opts (\<lambda>_. True) [Inr ''a'', Inr ''b'']"
proof -
  have r: "ReadIter demo_store demo_env demo_server None demo_rows [Eq ''p'' ''1''] demo_opts (\<lambda>_. True) [Inr ''a'', Inr ''b'']"
    using demo_rows_read demo_batches
    by (fastforce simp: ReadIter_def iterate_def recordEmit_def demo_batch_def)
  have env: "0 < ren_pool demo_env" "\<not> ren_timeouts demo_env" "[Eq ''p'' ''1''] \<noteq> []" by (simp_all add: demo_env_def)
  have h: "ro_history (resolveIterOpts demo_opts) = False" by (simp add: resolveIterOpts_def demo_opts_def)
  from iterators_prefix [OF demo_catalog env demo_filter demo_evaluates, of demo_opts "\<lambda>_. True" "[Inr ''a'', Inr ''b'']"] r
  show ?thesis by (simp add: Let_def demo_keys h)
qed

end
