(* ===== verification/Poll_Pipeline.thy ===== *)
theory Poll_Pipeline
  imports Read_Pipeline
begin

text \<open>
  \<open>pollFetchAndDecodeIter\<close> of \<open>poll.go\<close> as a step relation, in the manner of \<open>Read_Pipeline\<close>: the
  fetcher that ranges over a source of files, the GET tasks in the worker pool, \<open>W\<close> decode workers
  with an input channel each, and the emit loop.  The source is a function: what it gives when it
  is asked for the \<open>i\<close>-th time, and it may end early once the context is done.  \<open>pc_timeouts\<close> is
  as \<open>rc_timeouts\<close> there.  The third-party parquet reader may panic on a body it cannot open; the
  recovered panic is an error like any other but leaves the slot and the reservation taken.
\<close>

section \<open>Configuration and state\<close>

datatype source_item = Src_file file_ref | Src_eos | Src_error pipe_error

text \<open>A slice as a source.\<close>

definition sliceToSeq2 :: "file_ref list \<Rightarrow> nat \<Rightarrow> source_item" where
  "sliceToSeq2 items i = (if i < length items then Src_file (items ! i) else Src_eos)"

record 'r file_result =
  fr_file :: file_ref
  fr_records :: "'r list"

record 'r poll_cfg =
  pc_source :: "nat \<Rightarrow> source_item"
  pc_body_cap :: nat
  pc_workers :: nat
  pc_input_cap :: nat
  pc_ahead :: nat
  pc_budget :: int
  pc_pool :: nat
  pc_object :: "string \<rightharpoonup> string"
  pc_decode :: "string \<Rightarrow> string + 'r list"
  pc_timeouts :: bool

text \<open>The fetcher is at file \<open>pl_fi\<close>; \<open>P_wait\<close> is \<open>g.Wait\<close>, after \<open>P_stopped\<close> the inputs are closed.\<close>

datatype poll_fetch = P_pull | P_acquire | P_submit | P_push | P_wait | P_stopped

datatype 'r poll_worker =
  K_idle | K_wait nat | K_reserve nat | K_decode nat | K_send nat "'r file_result" | K_closed

text \<open>\<open>fileState\<close> is split into \<open>pl_bodies\<close> and \<open>pl_done\<close>, by file index; \<open>pl_counter\<close> is the counter of
  the emit loop.\<close>

record 'r poll_state =
  pl_cause :: cause
  pl_gerr :: bool
  pl_slots :: nat
  pl_fetch :: poll_fetch
  pl_fi :: nat
  pl_flight :: "nat set"
  pl_bodies :: "nat \<Rightarrow> string option"
  pl_done :: "nat set"
  pl_input :: "nat \<Rightarrow> nat list"
  pl_worker :: "nat \<Rightarrow> 'r poll_worker"
  pl_bytes :: "nat \<Rightarrow> int"
  pl_queue :: "nat \<Rightarrow> 'r file_result list"
  pl_counter :: nat
  pl_out :: "'r file_result list"
  pl_end :: "ending option"

definition poll_start :: "'r poll_state" where
  "poll_start = \<lparr>pl_cause = None, pl_gerr = False, pl_slots = 0, pl_fetch = P_pull, pl_fi = 0, pl_flight = {},
     pl_bodies = (\<lambda>_. None), pl_done = {}, pl_input = (\<lambda>_. []), pl_worker = (\<lambda>_. K_idle), pl_bytes = (\<lambda>_. 0),
     pl_queue = (\<lambda>_. []), pl_counter = 0, pl_out = [], pl_end = None\<rparr>"

definition src_ref :: "'r poll_cfg \<Rightarrow> nat \<Rightarrow> file_ref option" where
  "src_ref cfg i = (case pc_source cfg i of Src_file r \<Rightarrow> Some r | _ \<Rightarrow> None)"

definition src_key :: "'r poll_cfg \<Rightarrow> nat \<Rightarrow> string" where
  "src_key cfg i = S3Key (the (src_ref cfg i))"

definition src_uncomp :: "'r poll_cfg \<Rightarrow> nat \<Rightarrow> int" where
  "src_uncomp cfg i = UncompressedSize (the (src_ref cfg i))"

definition pl_gdone :: "'r poll_state \<Rightarrow> bool" where
  "pl_gdone s \<longleftrightarrow> pl_cause s \<noteq> None \<or> pl_gerr s"

definition fetch_at :: "poll_fetch \<Rightarrow> 'r poll_state \<Rightarrow> 'r poll_state" where
  "fetch_at pc s = s\<lparr>pl_fetch := pc\<rparr>"

definition worker_at :: "nat \<Rightarrow> 'r poll_worker \<Rightarrow> 'r poll_state \<Rightarrow> 'r poll_state" where
  "worker_at w pc s = s\<lparr>pl_worker := (pl_worker s)(w := pc)\<rparr>"

definition bytes_at :: "nat \<Rightarrow> int \<Rightarrow> 'r poll_state \<Rightarrow> 'r poll_state" where
  "bytes_at w b s = s\<lparr>pl_bytes := (pl_bytes s)(w := b)\<rparr>"

text \<open>The body of file \<open>f\<close> is dropped and its slot freed.\<close>

definition free_body :: "nat \<Rightarrow> nat \<Rightarrow> 'r poll_state \<Rightarrow> 'r poll_state" where
  "free_body f slots s = s\<lparr>pl_bodies := (pl_bodies s)(f := None), pl_slots := slots\<rparr>"

text \<open>A GET task ends: \<open>close(fs.done)\<close>.\<close>

definition got :: "nat \<Rightarrow> string option \<Rightarrow> 'r poll_state \<Rightarrow> 'r poll_state" where
  "got f body s = s\<lparr>pl_flight := pl_flight s - {f}, pl_bodies := (pl_bodies s)(f := body), pl_done := insert f (pl_done s)\<rparr>"

definition poll_finish :: "ending \<Rightarrow> 'r poll_state \<Rightarrow> 'r poll_state" where
  "poll_finish e s = s\<lparr>pl_end := Some e, pl_cause := recordHardErr Ctx_canceled (pl_cause s)\<rparr>"

definition poll_emitted :: "nat \<Rightarrow> 'r file_result \<Rightarrow> bool \<Rightarrow> 'r poll_state \<Rightarrow> 'r poll_state" where
  "poll_emitted w b cont s =
     (let s' = s\<lparr>pl_out := pl_out s @ [b],
        pl_bytes := (pl_bytes s)(w := releaseBytes (UncompressedSize (fr_file b)) (pl_bytes s w))\<rparr>
      in if cont then s'\<lparr>pl_counter := Suc (pl_counter s)\<rparr> else poll_finish Broke s')"

section \<open>The steps\<close>

inductive pstep :: "'r poll_cfg \<Rightarrow> 'r poll_state \<Rightarrow> 'r poll_state \<Rightarrow> bool" for cfg where
  pull_file: "pl_fetch s = P_pull \<Longrightarrow> pc_source cfg (pl_fi s) = Src_file r \<Longrightarrow> pstep cfg s (fetch_at P_acquire s)"
| pull_eos: "pl_fetch s = P_pull \<Longrightarrow> pc_source cfg (pl_fi s) = Src_eos \<Longrightarrow> pstep cfg s (fetch_at P_wait s)"
| pull_error: "pl_fetch s = P_pull \<Longrightarrow> pc_source cfg (pl_fi s) = Src_error e
    \<Longrightarrow> pstep cfg s (fetch_at P_wait (s\<lparr>pl_cause := record_unless_ctx e (pl_cause s)\<rparr>))"
| pull_cancelled: "pl_fetch s = P_pull \<Longrightarrow> pl_cause s \<noteq> None \<Longrightarrow> pstep cfg s (fetch_at P_wait s)"
| take_slot: "pl_fetch s = P_acquire \<Longrightarrow> slot_acquire (pc_body_cap cfg) (pl_slots s) = Some n
    \<Longrightarrow> pstep cfg s (fetch_at P_submit (s\<lparr>pl_slots := n\<rparr>))"
| slot_quit: "pl_fetch s = P_acquire \<Longrightarrow> pl_gdone s \<Longrightarrow> pstep cfg s (fetch_at P_wait s)"
| submit: "pl_fetch s = P_submit \<Longrightarrow> card (pl_flight s) < pc_pool cfg
    \<Longrightarrow> pstep cfg s (fetch_at P_push (s\<lparr>pl_flight := insert (pl_fi s) (pl_flight s)\<rparr>))"
| submit_skip: "pl_fetch s = P_submit \<Longrightarrow> pl_gdone s \<Longrightarrow> pstep cfg s (fetch_at P_push s)"
| push: "pl_fetch s = P_push \<Longrightarrow> w = pl_fi s mod pc_workers cfg \<Longrightarrow> length (pl_input s w) < pc_input_cap cfg
    \<Longrightarrow> pstep cfg s (fetch_at P_pull (s\<lparr>pl_input := (pl_input s)(w := pl_input s w @ [pl_fi s]), pl_fi := Suc (pl_fi s)\<rparr>))"
| push_quit: "pl_fetch s = P_push \<Longrightarrow> pl_gdone s \<Longrightarrow> pstep cfg s (fetch_at P_wait s)"
| close_inputs: "pl_fetch s = P_wait \<Longrightarrow> pl_flight s = {} \<Longrightarrow> pstep cfg s (fetch_at P_stopped s)"
| got_body: "f \<in> pl_flight s \<Longrightarrow> pc_object cfg (src_key cfg f) = Some body \<Longrightarrow> pstep cfg s (got f (Some body) s)"
| got_error: "f \<in> pl_flight s \<Longrightarrow> slot_release (pl_slots s) = Some n \<Longrightarrow> isCtx e \<longrightarrow> pc_timeouts cfg \<or> pl_gdone s
    \<Longrightarrow> pstep cfg s (got f None (s\<lparr>pl_slots := n, pl_cause := record_unless_ctx e (pl_cause s), pl_gerr := True\<rparr>))"
| take_file: "w < pc_workers cfg \<Longrightarrow> pl_worker s w = K_idle \<Longrightarrow> pl_input s w = f # q
    \<Longrightarrow> pstep cfg s (worker_at w (K_wait f) (s\<lparr>pl_input := (pl_input s)(w := q)\<rparr>))"
| input_closed: "w < pc_workers cfg \<Longrightarrow> pl_worker s w = K_idle \<Longrightarrow> pl_input s w = [] \<Longrightarrow> pl_fetch s = P_stopped
    \<Longrightarrow> pstep cfg s (worker_at w K_closed s)"
| idle_cancelled: "w < pc_workers cfg \<Longrightarrow> pl_worker s w = K_idle \<Longrightarrow> pl_cause s \<noteq> None
    \<Longrightarrow> pstep cfg s (worker_at w K_closed s)"
| file_ready: "w < pc_workers cfg \<Longrightarrow> pl_worker s w = K_wait f \<Longrightarrow> waitOrCancel (pl_cause s) (f \<in> pl_done s) = Some None
    \<Longrightarrow> pstep cfg s (worker_at w (K_reserve f) s)"
| file_cancelled: "w < pc_workers cfg \<Longrightarrow> pl_worker s w = K_wait f \<Longrightarrow> waitOrCancel (pl_cause s) (f \<in> pl_done s) = Some (Some e)
    \<Longrightarrow> pstep cfg s (worker_at w K_closed s)"
| reserved: "w < pc_workers cfg \<Longrightarrow> pl_worker s w = K_reserve f
    \<Longrightarrow> reserveBytes (pl_cause s) (src_uncomp cfg f) (pc_budget cfg) (pl_bytes s w) = Reserved b
    \<Longrightarrow> pstep cfg s (worker_at w (K_decode f) (bytes_at w b s))"
| not_reserved: "w < pc_workers cfg \<Longrightarrow> pl_worker s w = K_reserve f
    \<Longrightarrow> reserveBytes (pl_cause s) (src_uncomp cfg f) (pc_budget cfg) (pl_bytes s w) = Reserve_failed e
    \<Longrightarrow> slot_release (pl_slots s) = Some n \<Longrightarrow> pstep cfg s (worker_at w K_closed (free_body f n s))"
| decoded: "w < pc_workers cfg \<Longrightarrow> pl_worker s w = K_decode f \<Longrightarrow> pl_bodies s f = Some body \<Longrightarrow> pc_decode cfg body = Inr rs
    \<Longrightarrow> slot_release (pl_slots s) = Some n
    \<Longrightarrow> pstep cfg s (worker_at w (K_send f \<lparr>fr_file = the (src_ref cfg f), fr_records = rs\<rparr>) (free_body f n s))"
| not_decoded: "w < pc_workers cfg \<Longrightarrow> pl_worker s w = K_decode f
    \<Longrightarrow> (case pl_bodies s f of None \<Rightarrow> True | Some body \<Rightarrow> pc_decode cfg body = Inl e) \<Longrightarrow> slot_release (pl_slots s) = Some n
    \<Longrightarrow> pstep cfg s (worker_at w K_closed (bytes_at w (releaseBytes (src_uncomp cfg f) (pl_bytes s w))
          (free_body f n (s\<lparr>pl_cause := recordHardErr (Pipe_error e) (pl_cause s)\<rparr>))))"
| decode_panic: "w < pc_workers cfg \<Longrightarrow> pl_worker s w = K_decode f
    \<Longrightarrow> (case pl_bodies s f of None \<Rightarrow> True | Some body \<Rightarrow> pc_decode cfg body = Inl e)
    \<Longrightarrow> pstep cfg s (worker_at w K_closed (s\<lparr>pl_cause := recordHardErr (Pipe_error e) (pl_cause s)\<rparr>))"
| sent: "w < pc_workers cfg \<Longrightarrow> pl_worker s w = K_send f b \<Longrightarrow> sendBatch (pl_cause s) (pc_ahead cfg) (pl_queue s w) b = Sent q
    \<Longrightarrow> pstep cfg s (worker_at w K_idle (s\<lparr>pl_queue := (pl_queue s)(w := q)\<rparr>))"
| not_sent: "w < pc_workers cfg \<Longrightarrow> pl_worker s w = K_send f b \<Longrightarrow> sendBatch (pl_cause s) (pc_ahead cfg) (pl_queue s w) b = Send_cancelled
    \<Longrightarrow> pstep cfg s (worker_at w K_closed (bytes_at w (releaseBytes (src_uncomp cfg f) (pl_bytes s w)) s))"
| receive: "pl_end s = None \<Longrightarrow> w = pl_counter s mod pc_workers cfg \<Longrightarrow> pl_queue s w = b # q
    \<Longrightarrow> pstep cfg s (poll_emitted w b cont (s\<lparr>pl_queue := (pl_queue s)(w := q)\<rparr>))"
| handoff: "pl_end s = None \<Longrightarrow> w = pl_counter s mod pc_workers cfg \<Longrightarrow> w < pc_workers cfg \<Longrightarrow> pl_queue s w = []
    \<Longrightarrow> pl_worker s w = K_send f b \<Longrightarrow> pstep cfg s (poll_emitted w b cont (worker_at w K_idle s))"
| queue_closed: "pl_end s = None \<Longrightarrow> w = pl_counter s mod pc_workers cfg \<Longrightarrow> pl_queue s w = [] \<Longrightarrow> pl_worker s w = K_closed
    \<Longrightarrow> pstep cfg s (poll_finish (case pl_cause s of None \<Rightarrow> Ended | Some c \<Rightarrow> Failed c) s)"
| emit_cancelled: "pl_end s = None \<Longrightarrow> pl_cause s = Some c \<Longrightarrow> pstep cfg s (poll_finish (Failed c) s)"
| cancel: "pl_cause s = None \<Longrightarrow> pstep cfg s (s\<lparr>pl_cause := Some c\<rparr>)"

inductive poll_reach :: "'r poll_cfg \<Rightarrow> 'r poll_state \<Rightarrow> bool" for cfg where
  start: "poll_reach cfg poll_start"
| step: "poll_reach cfg s \<Longrightarrow> pstep cfg s s' \<Longrightarrow> poll_reach cfg s'"

definition poll_returned :: "'r poll_cfg \<Rightarrow> 'r poll_state \<Rightarrow> bool" where
  "poll_returned cfg s \<longleftrightarrow> pl_end s \<noteq> None \<and> pl_fetch s = P_stopped \<and> pl_flight s = {}
     \<and> (\<forall>w < pc_workers cfg. pl_worker s w = K_closed)"

text \<open>Nothing can happen but a cancellation from outside.\<close>

definition poll_stuck :: "'r poll_cfg \<Rightarrow> 'r poll_state \<Rightarrow> bool" where
  "poll_stuck cfg s \<longleftrightarrow> (\<forall>s'. pstep cfg s s' \<longrightarrow> s' = s\<lparr>pl_cause := pl_cause s'\<rparr>)"

definition poll_cfg_ok :: "'r poll_cfg \<Rightarrow> bool" where
  "poll_cfg_ok cfg \<longleftrightarrow> 0 < pc_workers cfg \<and> 0 < pc_pool cfg \<and> 0 < pc_body_cap cfg \<and> 0 < pc_input_cap cfg"

section \<open>The sequential reader\<close>

definition seq_file :: "'r poll_cfg \<Rightarrow> nat \<Rightarrow> string + 'r file_result" where
  "seq_file cfg i =
     (case pc_object cfg (src_key cfg i) of
        None \<Rightarrow> Inl (''get '' @ src_key cfg i)
      | Some body \<Rightarrow> (case pc_decode cfg body of
          Inl e \<Rightarrow> Inl e
        | Inr rs \<Rightarrow> Inr \<lparr>fr_file = the (src_ref cfg i), fr_records = rs\<rparr>))"

end
