(* ===== verification/Poll_Pipeline_Correct.thy ===== *)
theory Poll_Pipeline_Correct
  imports Poll_Pipeline
begin

text \<open>
  Correctness of the poll pipeline: the results handed to the consumer are those of the sequential
  reader in feed order, and the call cannot hang.  \<open>lane_ok\<close> describes one decode worker: the files
  assigned to it that are not emitted yet are those in its queue, the one it works on and those in
  its input, in this order.
\<close>

lemma fetch_at_fields [simp]:
  "pl_cause (fetch_at pc s) = pl_cause s" "pl_gerr (fetch_at pc s) = pl_gerr s" "pl_slots (fetch_at pc s) = pl_slots s"
  "pl_fetch (fetch_at pc s) = pc" "pl_fi (fetch_at pc s) = pl_fi s" "pl_flight (fetch_at pc s) = pl_flight s"
  "pl_bodies (fetch_at pc s) = pl_bodies s" "pl_done (fetch_at pc s) = pl_done s" "pl_input (fetch_at pc s) = pl_input s"
  "pl_worker (fetch_at pc s) = pl_worker s" "pl_bytes (fetch_at pc s) = pl_bytes s" "pl_queue (fetch_at pc s) = pl_queue s"
  "pl_counter (fetch_at pc s) = pl_counter s" "pl_out (fetch_at pc s) = pl_out s" "pl_end (fetch_at pc s) = pl_end s"
  by (simp_all add: fetch_at_def)

lemma worker_at_fields [simp]:
  "pl_cause (worker_at w pc s) = pl_cause s" "pl_gerr (worker_at w pc s) = pl_gerr s" "pl_slots (worker_at w pc s) = pl_slots s"
  "pl_fetch (worker_at w pc s) = pl_fetch s" "pl_fi (worker_at w pc s) = pl_fi s" "pl_flight (worker_at w pc s) = pl_flight s"
  "pl_bodies (worker_at w pc s) = pl_bodies s" "pl_done (worker_at w pc s) = pl_done s" "pl_input (worker_at w pc s) = pl_input s"
  "pl_worker (worker_at w pc s) = (pl_worker s)(w := pc)" "pl_bytes (worker_at w pc s) = pl_bytes s" "pl_queue (worker_at w pc s) = pl_queue s"
  "pl_counter (worker_at w pc s) = pl_counter s" "pl_out (worker_at w pc s) = pl_out s" "pl_end (worker_at w pc s) = pl_end s"
  by (simp_all add: worker_at_def)

lemma bytes_at_fields [simp]:
  "pl_cause (bytes_at w b s) = pl_cause s" "pl_gerr (bytes_at w b s) = pl_gerr s" "pl_slots (bytes_at w b s) = pl_slots s"
  "pl_fetch (bytes_at w b s) = pl_fetch s" "pl_fi (bytes_at w b s) = pl_fi s" "pl_flight (bytes_at w b s) = pl_flight s"
  "pl_bodies (bytes_at w b s) = pl_bodies s" "pl_done (bytes_at w b s) = pl_done s" "pl_input (bytes_at w b s) = pl_input s"
  "pl_worker (bytes_at w b s) = pl_worker s" "pl_bytes (bytes_at w b s) = (pl_bytes s)(w := b)" "pl_queue (bytes_at w b s) = pl_queue s"
  "pl_counter (bytes_at w b s) = pl_counter s" "pl_out (bytes_at w b s) = pl_out s" "pl_end (bytes_at w b s) = pl_end s"
  by (simp_all add: bytes_at_def)

lemma free_body_fields [simp]:
  "pl_cause (free_body f n s) = pl_cause s" "pl_gerr (free_body f n s) = pl_gerr s" "pl_slots (free_body f n s) = n"
  "pl_fetch (free_body f n s) = pl_fetch s" "pl_fi (free_body f n s) = pl_fi s" "pl_flight (free_body f n s) = pl_flight s"
  "pl_bodies (free_body f n s) = (pl_bodies s)(f := None)" "pl_done (free_body f n s) = pl_done s" "pl_input (free_body f n s) = pl_input s"
  "pl_worker (free_body f n s) = pl_worker s" "pl_bytes (free_body f n s) = pl_bytes s" "pl_queue (free_body f n s) = pl_queue s"
  "pl_counter (free_body f n s) = pl_counter s" "pl_out (free_body f n s) = pl_out s" "pl_end (free_body f n s) = pl_end s"
  by (simp_all add: free_body_def)

lemma got_fields [simp]:
  "pl_cause (got f b s) = pl_cause s" "pl_gerr (got f b s) = pl_gerr s" "pl_slots (got f b s) = pl_slots s"
  "pl_fetch (got f b s) = pl_fetch s" "pl_fi (got f b s) = pl_fi s" "pl_flight (got f b s) = pl_flight s - {f}"
  "pl_bodies (got f b s) = (pl_bodies s)(f := b)" "pl_done (got f b s) = insert f (pl_done s)" "pl_input (got f b s) = pl_input s"
  "pl_worker (got f b s) = pl_worker s" "pl_bytes (got f b s) = pl_bytes s" "pl_queue (got f b s) = pl_queue s"
  "pl_counter (got f b s) = pl_counter s" "pl_out (got f b s) = pl_out s" "pl_end (got f b s) = pl_end s"
  by (simp_all add: got_def)

lemma poll_finish_fields [simp]:
  "pl_cause (poll_finish e s) = recordHardErr Ctx_canceled (pl_cause s)" "pl_gerr (poll_finish e s) = pl_gerr s"
  "pl_slots (poll_finish e s) = pl_slots s" "pl_fetch (poll_finish e s) = pl_fetch s" "pl_fi (poll_finish e s) = pl_fi s"
  "pl_flight (poll_finish e s) = pl_flight s" "pl_bodies (poll_finish e s) = pl_bodies s" "pl_done (poll_finish e s) = pl_done s"
  "pl_input (poll_finish e s) = pl_input s" "pl_worker (poll_finish e s) = pl_worker s" "pl_bytes (poll_finish e s) = pl_bytes s"
  "pl_queue (poll_finish e s) = pl_queue s" "pl_counter (poll_finish e s) = pl_counter s" "pl_out (poll_finish e s) = pl_out s"
  "pl_end (poll_finish e s) = Some e"
  by (simp_all add: poll_finish_def)

lemma poll_emitted_fields [simp]:
  "pl_cause (poll_emitted w b cont s) = (if cont then pl_cause s else recordHardErr Ctx_canceled (pl_cause s))"
  "pl_gerr (poll_emitted w b cont s) = pl_gerr s" "pl_slots (poll_emitted w b cont s) = pl_slots s"
  "pl_fetch (poll_emitted w b cont s) = pl_fetch s" "pl_fi (poll_emitted w b cont s) = pl_fi s"
  "pl_flight (poll_emitted w b cont s) = pl_flight s" "pl_bodies (poll_emitted w b cont s) = pl_bodies s"
  "pl_done (poll_emitted w b cont s) = pl_done s" "pl_input (poll_emitted w b cont s) = pl_input s"
  "pl_worker (poll_emitted w b cont s) = pl_worker s" "pl_queue (poll_emitted w b cont s) = pl_queue s"
  "pl_bytes (poll_emitted w b cont s) = (pl_bytes s)(w := releaseBytes (UncompressedSize (fr_file b)) (pl_bytes s w))"
  "pl_counter (poll_emitted w b cont s) = (if cont then Suc (pl_counter s) else pl_counter s)"
  "pl_out (poll_emitted w b cont s) = pl_out s @ [b]" "pl_end (poll_emitted w b cont s) = (if cont then pl_end s else Some Broke)"
  by (simp_all add: poll_emitted_def Let_def)

section \<open>The lanes\<close>

fun cur :: "'r poll_worker \<Rightarrow> nat list" where
  "cur (K_wait f) = [f]" | "cur (K_reserve f) = [f]" | "cur (K_decode f) = [f]" | "cur (K_send f b) = [f]"
| "cur K_idle = []" | "cur K_closed = []"

definition lane_ok ::
  "'r poll_cfg \<Rightarrow> nat \<Rightarrow> nat \<Rightarrow> nat \<Rightarrow> bool \<Rightarrow> 'r file_result list \<Rightarrow> 'r poll_worker \<Rightarrow> nat list \<Rightarrow> bool" where
  "lane_ok cfg w n fi dead q pc inp \<longleftrightarrow>
     (\<exists>qs rest. lane (pc_workers cfg) w n fi = qs @ cur pc @ rest \<and> map Inr q = map (seq_file cfg) qs
        \<and> (\<forall>f b. pc = K_send f b \<longrightarrow> seq_file cfg f = Inr b)
        \<and> (if pc = K_closed then dead \<or> rest = [] else rest = inp))"

lemma lane_take: "lane_ok cfg w n fi d q K_idle (f # inp) \<Longrightarrow> lane_ok cfg w n fi d q (K_wait f) inp"
  by (auto simp: lane_ok_def)

lemma lane_stay:
  assumes "lane_ok cfg w n fi d q pc inp" "cur pc' = cur pc" "pc \<noteq> K_closed" "pc' \<noteq> K_closed"
    "\<And>f b. pc' = K_send f b \<Longrightarrow> seq_file cfg f = Inr b"
  shows "lane_ok cfg w n fi d q pc' inp"
  using assms unfolding lane_ok_def by (metis (no_types, lifting))

lemma lane_dead: "lane_ok cfg w n fi d q pc inp \<Longrightarrow> (d \<longrightarrow> d') \<Longrightarrow> lane_ok cfg w n fi d' q pc inp"
  unfolding lane_ok_def by (metis (no_types, lifting))

lemma lane_close: "lane_ok cfg w n fi d q pc inp \<Longrightarrow> lane_ok cfg w n fi True q K_closed inp"
  by (auto simp: lane_ok_def)

lemma lane_close_eos: "lane_ok cfg w n fi d q K_idle [] \<Longrightarrow> lane_ok cfg w n fi d q K_closed inp"
  by (auto simp: lane_ok_def)

lemma lane_sent: "lane_ok cfg w n fi d q (K_send f b) inp \<Longrightarrow> lane_ok cfg w n fi d (q @ [b]) K_idle inp"
proof -
  assume "lane_ok cfg w n fi d q (K_send f b) inp"
  then obtain qs where "lane (pc_workers cfg) w n fi = qs @ [f] @ inp" "map Inr q = map (seq_file cfg) qs" "seq_file cfg f = Inr b"
    by (auto simp: lane_ok_def)
  then show ?thesis unfolding lane_ok_def by (intro exI [of _ "qs @ [f]"] exI [of _ inp]) simp
qed

lemma lane_push:
  assumes "lane_ok cfg w n fi d q pc inp" "n \<le> fi" "pc = K_closed \<longrightarrow> d"
  shows "lane_ok cfg w n (Suc fi) d q pc (if fi mod pc_workers cfg = w then inp @ [fi] else inp)"
proof (cases "fi mod pc_workers cfg = w")
  case True
  then have l: "lane (pc_workers cfg) w n (Suc fi) = lane (pc_workers cfg) w n fi @ [fi]" using lane_last assms(2) by simp
  obtain qs rest where "lane (pc_workers cfg) w n fi = qs @ cur pc @ rest" "map Inr q = map (seq_file cfg) qs"
    "\<forall>f b. pc = K_send f b \<longrightarrow> seq_file cfg f = Inr b" "if pc = K_closed then d \<or> rest = [] else rest = inp"
    using assms(1) unfolding lane_ok_def by blast
  then show ?thesis
    unfolding lane_ok_def l using assms(3) True by (intro exI [of _ qs] exI [of _ "rest @ [fi]"]) auto
next
  case False
  then have "lane (pc_workers cfg) w n (Suc fi) = lane (pc_workers cfg) w n fi" using lane_last assms(2) by simp
  then show ?thesis using assms(1) False by (simp add: lane_ok_def)
qed

lemma lane_other: "n mod pc_workers cfg \<noteq> w \<Longrightarrow> lane_ok cfg w (Suc n) fi d q pc inp = lane_ok cfg w n fi d q pc inp"
proof -
  assume "n mod pc_workers cfg \<noteq> w"
  then have "lane (pc_workers cfg) w n fi = lane (pc_workers cfg) w (Suc n) fi"
    using lane_first [of n fi] by (cases "n < fi") simp_all
  then show ?thesis by (simp add: lane_ok_def)
qed

lemma lane_head:
  assumes "lane W w n fi = x # xs" "w = n mod W"
  shows "n < fi" "x = n" "lane W w (Suc n) fi = xs"
proof -
  show n: "n < fi" using assms(1) lane_empty [of fi n W w] by (cases "n < fi") auto
  have "x # xs = n # lane W w (Suc n) fi" using lane_first [OF n, of W w] assms(1) unfolding assms(2) by presburger
  then show "x = n" "lane W w (Suc n) fi = xs" by simp_all
qed

lemma lane_receive:
  assumes "lane_ok cfg w n fi d (b # q) pc inp" "w = n mod pc_workers cfg"
  shows "n < fi" "seq_file cfg n = Inr b" "lane_ok cfg w (Suc n) fi d q pc inp"
proof -
  obtain qs rest where l: "lane (pc_workers cfg) w n fi = qs @ cur pc @ rest" "map Inr (b # q) = map (seq_file cfg) qs"
    "\<forall>f b. pc = K_send f b \<longrightarrow> seq_file cfg f = Inr b" "if pc = K_closed then d \<or> rest = [] else rest = inp"
    using assms(1) unfolding lane_ok_def by blast
  then obtain f fs where qs: "qs = f # fs" by (cases qs) auto
  have "lane (pc_workers cfg) w n fi = f # (fs @ cur pc @ rest)" using l(1) qs by simp
  note h = lane_head [OF this assms(2)]
  show "n < fi" "seq_file cfg n = Inr b" using h l(2) qs by auto
  show "lane_ok cfg w (Suc n) fi d q pc inp"
    unfolding lane_ok_def h(3) using l qs by (intro exI [of _ fs] exI [of _ rest]) simp
qed

lemma lane_handoff:
  assumes "lane_ok cfg w n fi d [] (K_send f b) inp" "w = n mod pc_workers cfg"
  shows "n < fi" "seq_file cfg n = Inr b" "lane_ok cfg w (Suc n) fi d [] K_idle inp"
proof -
  have l: "lane (pc_workers cfg) w n fi = f # inp" "seq_file cfg f = Inr b" using assms(1) by (auto simp: lane_ok_def)
  note h = lane_head [OF l(1) assms(2)]
  show "n < fi" "seq_file cfg n = Inr b" using h l(2) by auto
  show "lane_ok cfg w (Suc n) fi d [] K_idle inp" using h(3) by (simp add: lane_ok_def)
qed

section \<open>The order of the results\<close>

definition lanes :: "'r poll_cfg \<Rightarrow> 'r poll_state \<Rightarrow> bool" where
  "lanes cfg s \<longleftrightarrow> (\<forall>w < pc_workers cfg.
     lane_ok cfg w (length (pl_out s)) (pl_fi s) (pl_cause s \<noteq> None) (pl_queue s w) (pl_worker s w) (pl_input s w)
     \<and> (pl_worker s w = K_closed \<and> pl_cause s = None \<longrightarrow> pl_fetch s = P_stopped))"

definition order_inv :: "'r poll_cfg \<Rightarrow> 'r poll_state \<Rightarrow> bool" where
  "order_inv cfg s \<longleftrightarrow> lanes cfg s \<and> map Inr (pl_out s) = map (seq_file cfg) [0..<length (pl_out s)]
     \<and> length (pl_out s) \<le> pl_fi s \<and> (pl_end s = None \<longrightarrow> pl_counter s = length (pl_out s))
     \<and> (pl_end s \<noteq> None \<longrightarrow> pl_cause s \<noteq> None)
     \<and> (\<forall>f body. pl_bodies s f = Some body \<longrightarrow> pc_object cfg (src_key cfg f) = Some body)"

lemma lanesD: "lanes cfg s \<Longrightarrow> w < pc_workers cfg \<Longrightarrow>
    lane_ok cfg w (length (pl_out s)) (pl_fi s) (pl_cause s \<noteq> None) (pl_queue s w) (pl_worker s w) (pl_input s w)"
  "lanes cfg s \<Longrightarrow> w < pc_workers cfg \<Longrightarrow> pl_worker s w = K_closed \<Longrightarrow> pl_cause s = None \<Longrightarrow> pl_fetch s = P_stopped"
  by (auto simp: lanes_def)

text \<open>A step that concerns one worker.\<close>

lemma lanes_worker:
  assumes "lanes cfg s" "pl_out s' = pl_out s" "pl_fi s' = pl_fi s" "pl_cause s \<noteq> None \<longrightarrow> pl_cause s' \<noteq> None"
    "pl_fetch s = P_stopped \<longrightarrow> pl_fetch s' = P_stopped"
    "\<And>v. v \<noteq> w \<Longrightarrow> pl_worker s' v = pl_worker s v \<and> pl_queue s' v = pl_queue s v \<and> pl_input s' v = pl_input s v"
    "w < pc_workers cfg \<Longrightarrow> lane_ok cfg w (length (pl_out s)) (pl_fi s) (pl_cause s' \<noteq> None) (pl_queue s' w) (pl_worker s' w) (pl_input s' w)"
    "w < pc_workers cfg \<Longrightarrow> pl_worker s' w = K_closed \<Longrightarrow> pl_cause s' = None \<Longrightarrow> pl_fetch s' = P_stopped"
  shows "lanes cfg s'"
  unfolding lanes_def
proof (intro allI impI conjI)
  fix v assume v: "v < pc_workers cfg"
  note l = lanesD [OF assms(1) v]
  show "lane_ok cfg v (length (pl_out s')) (pl_fi s') (pl_cause s' \<noteq> None) (pl_queue s' v) (pl_worker s' v) (pl_input s' v)"
    using lane_dead [OF l(1) assms(4)] assms(2,3,6,7) v by (cases "v = w") auto
  show "pl_fetch s' = P_stopped" if "pl_worker s' v = K_closed \<and> pl_cause s' = None"
    using l(2) that assms(4-6,8) v by (cases "v = w") auto
qed

text \<open>A step that concerns none.\<close>

lemma lanes_frame:
  assumes "lanes cfg s" "pl_out s' = pl_out s" "pl_fi s' = pl_fi s" "pl_cause s \<noteq> None \<longrightarrow> pl_cause s' \<noteq> None"
    "pl_fetch s = P_stopped \<longrightarrow> pl_fetch s' = P_stopped"
    "pl_worker s' = pl_worker s" "pl_queue s' = pl_queue s" "pl_input s' = pl_input s"
  shows "lanes cfg s'"
  using lanes_worker [OF assms(1-5), of "pc_workers cfg"] assms(6-8) by simp

lemma lanes_emit:
  assumes "lanes cfg s" "w = length (pl_out s) mod pc_workers cfg" "pl_out s' = pl_out s @ [b]" "pl_fi s' = pl_fi s"
    "pl_cause s \<noteq> None \<longrightarrow> pl_cause s' \<noteq> None" "pl_fetch s' = pl_fetch s"
    "\<And>v. v \<noteq> w \<Longrightarrow> pl_worker s' v = pl_worker s v \<and> pl_queue s' v = pl_queue s v \<and> pl_input s' v = pl_input s v"
    "w < pc_workers cfg \<Longrightarrow>
      lane_ok cfg w (Suc (length (pl_out s))) (pl_fi s) (pl_cause s \<noteq> None) (pl_queue s' w) (pl_worker s' w) (pl_input s' w)"
    "pl_worker s' w = K_closed \<Longrightarrow> pl_worker s w = K_closed"
  shows "lanes cfg s'"
  unfolding lanes_def
proof (intro allI impI conjI)
  fix v assume v: "v < pc_workers cfg"
  note l = lanesD [OF assms(1) v]
  show "lane_ok cfg v (length (pl_out s')) (pl_fi s') (pl_cause s' \<noteq> None) (pl_queue s' v) (pl_worker s' v) (pl_input s' v)"
  proof (cases "v = w")
    case True
    then show ?thesis using lane_dead [OF assms(8) assms(5)] v assms(3,4) by simp
  next
    case False
    then show ?thesis
      using lane_dead [OF l(1) assms(5)] assms(2-4,7) lane_other [of "length (pl_out s)" cfg v] by simp
  qed
  show "pl_fetch s' = P_stopped" if "pl_worker s' v = K_closed \<and> pl_cause s' = None"
    using l(2) that assms(5-7,9) v by (cases "v = w") auto
qed

lemma lanes_step:
  assumes "pstep cfg s s'" "order_inv cfg s"
  shows "lanes cfg s'"
proof -
  have L: "lanes cfg s" and c: "pl_end s = None \<longrightarrow> pl_counter s = length (pl_out s)" and n: "length (pl_out s) \<le> pl_fi s"
    and obj: "\<And>f body. pl_bodies s f = Some body \<Longrightarrow> pc_object cfg (src_key cfg f) = Some body"
    using assms(2) by (auto simp: order_inv_def)
  note lw = lanesD(1) [OF L]
  show ?thesis
    using assms(1)
  proof cases
    case (push w)
    show ?thesis
      unfolding lanes_def
    proof (intro allI impI)
      fix v assume v: "v < pc_workers cfg"
      have "pl_worker s v = K_closed \<longrightarrow> pl_cause s \<noteq> None" using lanesD(2) [OF L v] push by auto
      from lane_push [OF lw [OF v] n this] lanesD(2) [OF L v] push v
      show "lane_ok cfg v (length (pl_out s')) (pl_fi s') (pl_cause s' \<noteq> None) (pl_queue s' v) (pl_worker s' v) (pl_input s' v)
        \<and> (pl_worker s' v = K_closed \<and> pl_cause s' = None \<longrightarrow> pl_fetch s' = P_stopped)"
        by (auto split: if_splits)
    qed
  next
    case (take_file w f q)
    with lane_take lw [of w] show ?thesis by (intro lanes_worker [OF L, where w = w]) auto
  next
    case (input_closed w)
    with lane_close_eos lw [of w] show ?thesis by (intro lanes_worker [OF L, where w = w]) auto
  next
    case (idle_cancelled w)
    with lane_close [OF lw [of w]] show ?thesis by (intro lanes_worker [OF L, where w = w]) auto
  next
    case (file_ready w f)
    with lane_stay [OF lw [of w], of "K_reserve f"] show ?thesis by (intro lanes_worker [OF L, where w = w]) auto
  next
    case (file_cancelled w f e)
    then have "pl_cause s \<noteq> None" by (auto simp: waitOrCancel_def split: if_splits)
    with file_cancelled lane_close [OF lw [of w]] show ?thesis by (intro lanes_worker [OF L, where w = w]) auto
  next
    case (reserved w f b)
    with lane_stay [OF lw [of w], of "K_decode f"] show ?thesis by (intro lanes_worker [OF L, where w = w]) auto
  next
    case (not_reserved w f e m)
    then have "pl_cause s \<noteq> None" by (auto simp: reserveBytes_def split: if_splits option.splits)
    with not_reserved lane_close [OF lw [of w]] show ?thesis by (intro lanes_worker [OF L, where w = w]) auto
  next
    case (decoded w f body rs m)
    with obj have "seq_file cfg f = Inr \<lparr>fr_file = the (src_ref cfg f), fr_records = rs\<rparr>" by (simp add: seq_file_def)
    with decoded lane_stay [OF lw [of w], of "K_send f \<lparr>fr_file = the (src_ref cfg f), fr_records = rs\<rparr>"]
    show ?thesis by (intro lanes_worker [OF L, where w = w]) auto
  next
    case (not_decoded w f e m)
    with lane_close [OF lw [of w]] show ?thesis by (intro lanes_worker [OF L, where w = w]) auto
  next
    case (decode_panic w f e)
    with lane_close [OF lw [of w]] show ?thesis by (intro lanes_worker [OF L, where w = w]) auto
  next
    case (sent w f b q)
    then have "q = pl_queue s w @ [b]" by (simp add: sendBatch_def split: if_splits)
    with sent lane_sent [of cfg w _ _ _ _ f b] lw [of w] show ?thesis by (intro lanes_worker [OF L, where w = w]) auto
  next
    case (not_sent w f b)
    then have "pl_cause s \<noteq> None" by (auto simp: sendBatch_def split: if_splits)
    with not_sent lane_close [OF lw [of w]] show ?thesis by (intro lanes_worker [OF L, where w = w]) auto
  next
    case (receive w b q cont)
    have e: "w = length (pl_out s) mod pc_workers cfg" using receive c by simp
    have "lane_ok cfg w (Suc (length (pl_out s))) (pl_fi s) (pl_cause s \<noteq> None) q (pl_worker s w) (pl_input s w)"
      if "w < pc_workers cfg"
      by (intro lane_receive(3) [OF _ e, where b = b]) (use lw [OF that] receive in simp)
    with receive e show ?thesis by (intro lanes_emit [OF L, where w = w and b = b]) auto
  next
    case (handoff w f b cont)
    have e: "w = length (pl_out s) mod pc_workers cfg" using handoff c by simp
    have "lane_ok cfg w (Suc (length (pl_out s))) (pl_fi s) (pl_cause s \<noteq> None) [] K_idle (pl_input s w)"
      by (intro lane_handoff(3) [OF _ e, where b = b and f = f]) (use lw [of w] handoff in simp)
    with handoff e show ?thesis by (intro lanes_emit [OF L, where w = w and b = b]) auto
  qed (intro lanes_frame [OF L]; simp)+
qed

lemma order_step:
  assumes "pstep cfg s s'" "order_inv cfg s" "0 < pc_workers cfg"
  shows "order_inv cfg s'"
proof -
  have L: "lanes cfg s" and c: "pl_end s = None \<longrightarrow> pl_counter s = length (pl_out s)" and n: "length (pl_out s) \<le> pl_fi s"
    using assms(2) by (auto simp: order_inv_def)
  have emit: "length (pl_out s) < pl_fi s \<and> seq_file cfg (length (pl_out s)) = Inr b"
    if "w = pl_counter s mod pc_workers cfg" "pl_end s = None"
      "(\<exists>q. pl_queue s w = b # q) \<or> pl_queue s w = [] \<and> (\<exists>f. pl_worker s w = K_send f b)" for w b
  proof -
    have w: "w < pc_workers cfg" "w = length (pl_out s) mod pc_workers cfg" using that assms(3) c by auto
    from that(3) lanesD(1) [OF L w(1)] show ?thesis
      using lane_receive(1,2) [OF _ w(2)] lane_handoff(1,2) [OF _ w(2)] by metis
  qed
  have rest: "map Inr (pl_out s') = map (seq_file cfg) [0..<length (pl_out s')] \<and> length (pl_out s') \<le> pl_fi s'
     \<and> (pl_end s' = None \<longrightarrow> pl_counter s' = length (pl_out s')) \<and> (pl_end s' \<noteq> None \<longrightarrow> pl_cause s' \<noteq> None)
     \<and> (\<forall>f body. pl_bodies s' f = Some body \<longrightarrow> pc_object cfg (src_key cfg f) = Some body)"
    using assms(1)
  proof cases
    case (receive w b q cont)
    with emit [of w b] assms(2) show ?thesis by (auto simp: order_inv_def)
  next
    case (handoff w f b cont)
    with emit [of w b] assms(2) show ?thesis by (auto simp: order_inv_def)
  qed (use assms(2) in \<open>auto simp: order_inv_def record_unless_ctx_def split: if_splits\<close>)
  then show ?thesis using lanes_step [OF assms(1,2)] by (simp add: order_inv_def)
qed

lemma order_reach: "poll_reach cfg s \<Longrightarrow> 0 < pc_workers cfg \<Longrightarrow> order_inv cfg s"
proof (induction rule: poll_reach.induct)
  case start
  then show ?case by (simp add: order_inv_def lanes_def poll_start_def lane_ok_def)
qed (rule order_step)

end
