(* ===== verification/Poll_Live.thy ===== *)
theory Poll_Live
  imports Poll_Pipeline_Correct
begin

text \<open>
  Progress of the poll pipeline, when no GET of a live context fails with a context error: the
  accounting of the body slots and of the byte budget, the absence of deadlock, termination on a
  source that ends, and what the absence of an error at the end of a call means.
\<close>

section \<open>Slots and bodies\<close>

definition limit :: "'r poll_state \<Rightarrow> nat" where
  "limit s = (if pl_fetch s \<in> {P_pull, P_acquire, P_submit} then pl_fi s else Suc (pl_fi s))"

definition holding :: "'r poll_state \<Rightarrow> nat set" where
  "holding s = pl_flight s \<union> {f. pl_bodies s f \<noteq> None} \<union> (if pl_fetch s = P_submit then {pl_fi s} else {})"

definition with_body :: "'r poll_worker \<Rightarrow> nat set" where
  "with_body pc = (case pc of K_reserve f \<Rightarrow> {f} | K_decode f \<Rightarrow> {f} | _ \<Rightarrow> {})"

definition slot_inv :: "'r poll_cfg \<Rightarrow> 'r poll_state \<Rightarrow> bool" where
  "slot_inv cfg s \<longleftrightarrow> finite (pl_flight s) \<and> (\<forall>f \<in> pl_flight s. f < limit s \<and> f \<notin> pl_done s \<and> pl_bodies s f = None)
     \<and> (\<forall>f. pl_bodies s f \<noteq> None \<longrightarrow> f < limit s \<and> f \<in> pl_done s) \<and> (\<forall>f \<in> pl_done s. f < limit s)
     \<and> card (holding s) \<le> pl_slots s
     \<and> (\<forall>w < pc_workers cfg. \<forall>f \<in> with_body (pl_worker s w). pl_bodies s f \<noteq> None)
     \<and> (pl_gerr s \<longrightarrow> pl_cause s \<noteq> None)"

lemma with_body_simps [simp]:
  "with_body (K_reserve f) = {f}" "with_body (K_decode f) = {f}" "with_body (K_wait f) = {}" "with_body (K_send f b) = {}"
  "with_body K_idle = {}" "with_body K_closed = {}"
  by (simp_all add: with_body_def)

lemma with_body_cur: "f \<in> with_body pc \<Longrightarrow> f \<in> set (cur pc)"
  by (cases pc) auto

lemma slot_invD:
  assumes "slot_inv cfg s"
  shows "finite (pl_flight s)" "f \<in> pl_flight s \<Longrightarrow> f < limit s \<and> f \<notin> pl_done s \<and> pl_bodies s f = None"
    "pl_bodies s f \<noteq> None \<Longrightarrow> f < limit s \<and> f \<in> pl_done s" "f \<in> pl_done s \<Longrightarrow> f < limit s"
    "card (holding s) \<le> pl_slots s" "w < pc_workers cfg \<Longrightarrow> f \<in> with_body (pl_worker s w) \<Longrightarrow> pl_bodies s f \<noteq> None"
    "pl_gerr s \<Longrightarrow> pl_cause s \<noteq> None"
  using assms unfolding slot_inv_def by blast+

lemma slot_invI:
  assumes "finite (pl_flight s)" "\<And>f. f \<in> pl_flight s \<Longrightarrow> f < limit s \<and> f \<notin> pl_done s \<and> pl_bodies s f = None"
    "\<And>f. pl_bodies s f \<noteq> None \<Longrightarrow> f < limit s \<and> f \<in> pl_done s" "\<And>f. f \<in> pl_done s \<Longrightarrow> f < limit s"
    "card (holding s) \<le> pl_slots s" "\<And>w f. w < pc_workers cfg \<Longrightarrow> f \<in> with_body (pl_worker s w) \<Longrightarrow> pl_bodies s f \<noteq> None"
    "pl_gerr s \<Longrightarrow> pl_cause s \<noteq> None"
  shows "slot_inv cfg s"
  using assms unfolding slot_inv_def by blast

lemma lane_cur: "lane_ok cfg w n fi d q pc inp \<Longrightarrow> f \<in> set (cur pc) \<Longrightarrow> f mod pc_workers cfg = w \<and> n \<le> f \<and> f < fi"
proof -
  assume "lane_ok cfg w n fi d q pc inp" "f \<in> set (cur pc)"
  then have "f \<in> set (lane (pc_workers cfg) w n fi)" by (auto simp: lane_ok_def)
  then show ?thesis by (auto simp: lane_set)
qed

lemma lane_input: "lane_ok cfg w n fi d q pc inp \<Longrightarrow> pc \<noteq> K_closed \<Longrightarrow> f \<in> set inp \<Longrightarrow> f mod pc_workers cfg = w \<and> n \<le> f \<and> f < fi"
proof -
  assume "lane_ok cfg w n fi d q pc inp" "pc \<noteq> K_closed" "f \<in> set inp"
  then have "f \<in> set (lane (pc_workers cfg) w n fi)" by (auto simp: lane_ok_def)
  then show ?thesis by (auto simp: lane_set)
qed

lemma own_file:
  assumes "lanes cfg s" "v < pc_workers cfg" "w < pc_workers cfg" "f \<in> set (cur (pl_worker s v))" "f \<in> set (cur (pl_worker s w))"
  shows "v = w"
  using lane_cur [OF lanesD(1) [OF assms(1,2)] assms(4)] lane_cur [OF lanesD(1) [OF assms(1,3)] assms(5)] by simp

lemma slot_inv_finite: "slot_inv cfg s \<Longrightarrow> finite (holding s)"
proof -
  assume "slot_inv cfg s"
  then have "holding s \<subseteq> {..limit s} \<union> {pl_fi s}" by (auto simp: slot_inv_def holding_def less_imp_le)
  then show ?thesis by (rule finite_subset) simp
qed

lemma slots_free: "slot_inv cfg s \<Longrightarrow> f \<in> holding s \<Longrightarrow> 0 < pl_slots s"
proof -
  assume i: "slot_inv cfg s" "f \<in> holding s"
  then have "0 < card (holding s)" using slot_inv_finite card_gt_0_iff by blast
  then show ?thesis using i(1) by (simp add: slot_inv_def)
qed

text \<open>Giving a slot back with a file that held one.\<close>

lemma card_release: "finite A \<Longrightarrow> f \<in> A \<Longrightarrow> card A \<le> n \<Longrightarrow> card (A - {f}) \<le> n - 1"
  by (simp add: card_Diff_singleton)

lemma limit_mono: "pstep cfg s s' \<Longrightarrow> limit s \<le> limit s'"
  by (erule pstep.cases) (auto simp: limit_def)

lemma holding_submit: "slot_inv cfg s \<Longrightarrow> pl_fetch s = P_submit \<Longrightarrow> pl_fi s \<notin> pl_flight s \<and> pl_bodies s (pl_fi s) = None"
  by (force simp: slot_inv_def limit_def)

lemma freed:
  assumes "slot_inv cfg s" "pl_bodies s f \<noteq> None" "pl_flight s' = pl_flight s" "pl_bodies s' = (pl_bodies s)(f := None)"
    "pl_fetch s' = pl_fetch s" "pl_fi s' = pl_fi s"
  shows "holding s' = holding s - {f}" "f \<in> holding s"
proof -
  have "f \<notin> pl_flight s" "pl_fetch s = P_submit \<Longrightarrow> f \<noteq> pl_fi s"
    using assms(1,2) holding_submit [OF assms(1)] by (auto simp: slot_inv_def)
  then show "holding s' = holding s - {f}" using assms(3-6) by (auto simp: holding_def)
  show "f \<in> holding s" using assms(2) by (simp add: holding_def)
qed

text \<open>A worker that frees the body of its file.\<close>

lemma slot_free_step:
  assumes "slot_inv cfg s" "lanes cfg s" "w < pc_workers cfg" "f \<in> with_body (pl_worker s w)" "slot_release (pl_slots s) = Some n"
    "pl_flight s' = pl_flight s" "pl_bodies s' = (pl_bodies s)(f := None)" "pl_done s' = pl_done s"
    "pl_fetch s' = pl_fetch s" "pl_fi s' = pl_fi s" "pl_slots s' = n" "pl_worker s' = (pl_worker s)(w := pc)" "with_body pc = {}"
    "pl_gerr s' = pl_gerr s" "pl_cause s \<noteq> None \<longrightarrow> pl_cause s' \<noteq> None"
  shows "slot_inv cfg s'"
proof -
  have b: "pl_bodies s f \<noteq> None" using assms(1,3,4) by (auto simp: slot_inv_def)
  note h = freed [OF assms(1) b assms(6,7,9,10)]
  have "card (holding s') \<le> n"
    unfolding h(1) using card_release [OF slot_inv_finite [OF assms(1)] h(2)] assms(1,5) by (auto simp: slot_inv_def)
  moreover have "pl_bodies s' g \<noteq> None" if v: "v < pc_workers cfg" "g \<in> with_body (pl_worker s' v)" for v g
  proof -
    have vw: "v \<noteq> w" using v assms(12,13) by auto
    then have g: "g \<in> with_body (pl_worker s v)" using v(2) assms(12) by simp
    then have "g \<noteq> f" using own_file [OF assms(2) v(1) assms(3)] vw assms(4) with_body_cur by blast
    then show ?thesis using slot_invD(6) [OF assms(1) v(1) g] assms(7) by simp
  qed
  moreover have "limit s' = limit s" using assms(9,10) by (simp add: limit_def)
  ultimately show ?thesis
    using assms(6-8,11,14,15) slot_invD [OF assms(1)] by (intro slot_invI) (auto split: if_splits)
qed

text \<open>A step that leaves the bodies and the GETs alone.\<close>

lemma slot_frame:
  assumes "slot_inv cfg s" "pl_flight s' = pl_flight s" "pl_bodies s' = pl_bodies s" "pl_done s' = pl_done s"
    "limit s \<le> limit s'" "pl_fetch s' = P_submit \<longrightarrow> pl_fetch s = P_submit \<and> pl_fi s' = pl_fi s" "pl_slots s' = pl_slots s"
    "\<And>w f. w < pc_workers cfg \<Longrightarrow> f \<in> with_body (pl_worker s' w) \<Longrightarrow> f \<in> with_body (pl_worker s w) \<or> pl_bodies s f \<noteq> None"
    "pl_gerr s' = pl_gerr s" "pl_cause s \<noteq> None \<longrightarrow> pl_cause s' \<noteq> None"
  shows "slot_inv cfg s'"
proof -
  have "holding s' \<subseteq> holding s" using assms(2,3,6) by (auto simp: holding_def)
  then have c: "card (holding s') \<le> pl_slots s"
    using card_mono [OF slot_inv_finite [OF assms(1)]] slot_invD(5) [OF assms(1)] le_trans by blast
  show ?thesis
  proof (rule slot_invI)
    show "f < limit s' \<and> f \<notin> pl_done s' \<and> pl_bodies s' f = None" if "f \<in> pl_flight s'" for f
      using slot_invD(2) [OF assms(1), of f] that assms(2-5) by simp
    show "f < limit s' \<and> f \<in> pl_done s'" if "pl_bodies s' f \<noteq> None" for f
      using slot_invD(3) [OF assms(1), of f] that assms(3-5) by simp
    show "f < limit s'" if "f \<in> pl_done s'" for f
      using slot_invD(4) [OF assms(1), of f] that assms(4,5) by simp
    show "pl_bodies s' f \<noteq> None" if "w < pc_workers cfg" "f \<in> with_body (pl_worker s' w)" for w f
      using assms(8) [OF that] slot_invD(6) [OF assms(1) that(1)] assms(3) by metis
  qed (use c assms(2,7,9,10) slot_invD(1,7) [OF assms(1)] in auto)
qed

lemma recorded_mono [simp]: "\<exists>y. c = Some y \<Longrightarrow> \<exists>y. record_unless_ctx e c = Some y"
  by auto

lemma slot_step:
  assumes "pstep cfg s s'" "slot_inv cfg s" "lanes cfg s" "\<not> pc_timeouts cfg"
    "\<And>w f. w < pc_workers cfg \<Longrightarrow> pl_worker s w = K_wait f \<Longrightarrow> pl_cause s = None \<Longrightarrow> f \<in> pl_done s \<Longrightarrow> pl_bodies s f \<noteq> None"
  shows "slot_inv cfg s'"
proof -
  note lm = limit_mono [OF assms(1)]
  note fr = slot_frame [OF assms(2), of s']
  show ?thesis
    using assms(1)
  proof cases
    case (take_slot n)
    have "holding s' = insert (pl_fi s) (holding s)" using take_slot by (auto simp: holding_def)
    then have "card (holding s') \<le> Suc (pl_slots s)"
      using card_insert_le_m1 [of "Suc (card (holding s))" "holding s" "pl_fi s"] assms(2) slot_inv_finite [OF assms(2)]
      by (auto simp: card_insert_if slot_inv_def)
    with take_slot assms(2) lm show ?thesis by (auto simp: slot_inv_def limit_def)
  next
    case submit
    have "holding s' = holding s" using submit by (auto simp: holding_def)
    then show ?thesis
      using submit assms(2) holding_submit [OF assms(2)] by (force simp: slot_inv_def limit_def)
  next
    case (got_body f body)
    have f: "f < limit s" "f \<notin> pl_done s" "pl_bodies s f = None" using got_body assms(2) by (auto simp: slot_inv_def)
    have "holding s' = holding s" using got_body by (auto simp: holding_def)
    moreover have "limit s' = limit s" using got_body by (simp add: limit_def)
    ultimately show ?thesis using got_body assms(2) f by (auto simp: slot_inv_def)
  next
    case (got_error f n e)
    have f: "f < limit s" "f \<notin> pl_done s" "pl_bodies s f = None" using got_error assms(2) by (auto simp: slot_inv_def)
    have "pl_fetch s = P_submit \<Longrightarrow> f \<noteq> pl_fi s" using holding_submit [OF assms(2)] got_error by auto
    then have h: "holding s' = holding s - {f}" "f \<in> holding s" using got_error f(3) by (auto simp: holding_def)
    have "card (holding s') \<le> n"
      unfolding h(1) using card_release [OF slot_inv_finite [OF assms(2)] h(2)] assms(2) got_error by (auto simp: slot_inv_def)
    moreover have "limit s' = limit s" using got_error by (simp add: limit_def)
    moreover have "pl_cause s' \<noteq> None" using got_error assms(2,4) by (auto simp: slot_inv_def pl_gdone_def)
    moreover have "\<forall>w < pc_workers cfg. \<forall>g \<in> with_body (pl_worker s w). pl_bodies s g \<noteq> None \<and> g \<noteq> f"
      using assms(2) f(3) unfolding slot_inv_def by metis
    ultimately show ?thesis using got_error assms(2) f by (auto simp: slot_inv_def)
  next
    case (not_reserved w f e n)
    then show ?thesis by (intro slot_free_step [OF assms(2,3), of w f n _ K_closed]) auto
  next
    case (decoded w f body rs n)
    then show ?thesis
      by (intro slot_free_step [OF assms(2,3), of w f n _ "K_send f \<lparr>fr_file = the (src_ref cfg f), fr_records = rs\<rparr>"]) auto
  next
    case (not_decoded w f e n)
    then show ?thesis by (intro slot_free_step [OF assms(2,3), of w f n _ K_closed]) auto
  next
    case (file_ready w f)
    then have "pl_bodies s f \<noteq> None" using assms(5) by (auto simp: waitOrCancel_def split: if_splits)
    with file_ready lm show ?thesis by (intro fr) (auto split: if_splits)
  qed (use lm in \<open>intro fr; auto split: if_splits\<close>)+
qed

section \<open>While nothing is cancelled\<close>

definition pending :: "'r poll_cfg \<Rightarrow> 'r poll_state \<Rightarrow> nat \<Rightarrow> bool" where
  "pending cfg s f \<longleftrightarrow> (\<exists>w < pc_workers cfg. f \<in> set (pl_input s w) \<or> pl_worker s w = K_wait f) \<or> pl_fetch s = P_push \<and> f = pl_fi s"

definition reserved_by :: "'r poll_cfg \<Rightarrow> 'r poll_worker \<Rightarrow> int" where
  "reserved_by cfg pc = (case pc of K_decode f \<Rightarrow> max (src_uncomp cfg f) 0 | K_send f _ \<Rightarrow> max (src_uncomp cfg f) 0 | _ \<Rightarrow> 0)"

definition queued_bytes :: "'r file_result list \<Rightarrow> int" where
  "queued_bytes q = sum_list (map (\<lambda>b. max (UncompressedSize (fr_file b)) 0) q)"

definition source_over :: "'r poll_cfg \<Rightarrow> nat \<Rightarrow> bool" where
  "source_over cfg i \<longleftrightarrow> (case pc_source cfg i of Src_file _ \<Rightarrow> False | Src_eos \<Rightarrow> True | Src_error e \<Rightarrow> isCtx e)"

definition files_live :: "'r poll_cfg \<Rightarrow> 'r poll_state \<Rightarrow> bool" where
  "files_live cfg s \<longleftrightarrow> (\<forall>f. pending cfg s f \<longrightarrow> f \<in> pl_flight s \<or> pl_bodies s f \<noteq> None)
     \<and> (\<forall>f. f \<in> pl_flight s \<or> pl_bodies s f \<noteq> None \<longrightarrow> pending cfg s f \<or> (\<exists>w < pc_workers cfg. f \<in> with_body (pl_worker s w)))
     \<and> (\<forall>w < pc_workers cfg. pl_worker s w = K_closed \<longrightarrow> pl_input s w = [])"

definition bytes_live :: "'r poll_cfg \<Rightarrow> 'r poll_state \<Rightarrow> bool" where
  "bytes_live cfg s \<longleftrightarrow> (0 < pc_budget cfg \<longrightarrow> (\<forall>w < pc_workers cfg.
     pl_bytes s w = queued_bytes (pl_queue s w) + reserved_by cfg (pl_worker s w)))"

definition live_inv :: "'r poll_cfg \<Rightarrow> 'r poll_state \<Rightarrow> bool" where
  "live_inv cfg s \<longleftrightarrow> (pl_cause s = None \<longrightarrow> pl_slots s = card (holding s) \<and> files_live cfg s \<and> bytes_live cfg s
     \<and> (pl_fetch s \<in> {P_wait, P_stopped} \<longrightarrow> source_over cfg (pl_fi s)))"

lemma cause_kept: "pstep cfg s s' \<Longrightarrow> pl_cause s' = None \<Longrightarrow> pl_cause s = None"
  by (erule pstep.cases) (auto simp: split: if_splits)

lemma poll_live_steps:
  assumes "pstep cfg s s'" "slot_inv cfg s" "\<not> pc_timeouts cfg" "pl_cause s' = None"
  shows "pl_cause s = None" "\<not> pl_gdone s" "\<not> pl_gdone s'"
proof -
  show c: "pl_cause s = None" using cause_kept [OF assms(1,4)] .
  then show g: "\<not> pl_gdone s" using slot_invD(7) [OF assms(2)] by (auto simp: pl_gdone_def)
  from assms(1,3,4) g show "\<not> pl_gdone s'"
    by cases (auto simp: pl_gdone_def split: if_splits)
qed

lemma slots_exact:
  assumes "pstep cfg s s'" "slot_inv cfg s" "\<not> pc_timeouts cfg" "pl_cause s' = None" "pl_slots s = card (holding s)"
  shows "pl_slots s' = card (holding s')"
proof -
  note l = poll_live_steps [OF assms(1-4)]
  note fin = slot_inv_finite [OF assms(2)]
  have fi: "pl_fetch s = P_acquire \<Longrightarrow> pl_fi s \<notin> holding s"
    using slot_invD(2,3) [OF assms(2), of "pl_fi s"]
    by (cases "pl_bodies s (pl_fi s)") (auto simp: holding_def limit_def)
  show ?thesis
    using assms(1)
  proof cases
    case (take_slot n)
    then have "holding s' = insert (pl_fi s) (holding s)" by (auto simp: holding_def)
    then show ?thesis using take_slot fi fin assms(5) by simp
  next
    case submit
    then have "holding s' = holding s" by (auto simp: holding_def)
    then show ?thesis using submit assms(5) by simp
  next
    case (got_body f body)
    then have "holding s' = holding s" by (auto simp: holding_def)
    then show ?thesis using got_body assms(5) by simp
  next
    case (decoded w f body rs n)
    from freed [OF assms(2), of f s'] decoded have "holding s' = holding s - {f}" "f \<in> holding s" by auto
    then show ?thesis using decoded assms(5) fin by (auto simp: card_Diff_singleton)
  next
    case (not_decoded w f e n)
    then show ?thesis using assms(4) by simp
  next
    case (not_reserved w f e n)
    then show ?thesis using l(1) by (auto simp: reserveBytes_def split: if_splits)
  next
    case (got_error f n e)
    then show ?thesis using assms(3,4) l(2) by auto
  next
    case submit_skip
    then show ?thesis using l(2) by simp
  qed (use assms(5) in \<open>auto simp: holding_def\<close>)
qed

lemma lane_distinct: "distinct (lane W w a b)"
  by (simp add: lane_def)

lemma not_pending:
  assumes "lanes cfg s" "\<forall>v < pc_workers cfg. pl_worker s v = K_closed \<longrightarrow> pl_input s v = []" "w < pc_workers cfg"
    "f \<in> with_body (pl_worker s w)"
  shows "\<not> pending cfg s f"
proof
  assume p: "pending cfg s f"
  have c: "f \<in> set (cur (pl_worker s w))" using with_body_cur [OF assms(4)] .
  note l = lane_cur [OF lanesD(1) [OF assms(1,3)] c]
  from p l obtain v where v: "v < pc_workers cfg" "f \<in> set (pl_input s v) \<or> pl_worker s v = K_wait f"
    by (auto simp: pending_def)
  from v(2) show False
  proof
    assume i: "f \<in> set (pl_input s v)"
    then have nc: "pl_worker s v \<noteq> K_closed" using assms(2) v(1) by auto
    then have "v = w" using lane_input [OF lanesD(1) [OF assms(1) v(1)] nc i] l by simp
    then obtain qs where "lane (pc_workers cfg) w (length (pl_out s)) (pl_fi s) = qs @ cur (pl_worker s w) @ pl_input s w"
      using lanesD(1) [OF assms(1) v(1)] nc by (auto simp: lane_ok_def)
    then have "distinct (qs @ cur (pl_worker s w) @ pl_input s w)" by (metis lane_distinct)
    then show False using c i \<open>v = w\<close> by auto
  next
    assume "pl_worker s v = K_wait f"
    then show False using own_file [OF assms(1) v(1) assms(3) _ c] assms(4) by auto
  qed
qed

definition tracked :: "'r poll_cfg \<Rightarrow> 'r poll_state \<Rightarrow> nat \<Rightarrow> bool" where
  "tracked cfg s f \<longleftrightarrow> pending cfg s f \<or> (\<exists>w < pc_workers cfg. f \<in> with_body (pl_worker s w))"

lemma files_liveI:
  assumes "files_live cfg s" "\<And>f. pending cfg s' f \<Longrightarrow> pending cfg s f" "\<And>f. tracked cfg s f \<Longrightarrow> tracked cfg s' f"
    "pl_flight s' = pl_flight s" "pl_bodies s' = pl_bodies s"
    "\<And>w. w < pc_workers cfg \<Longrightarrow> pl_worker s' w = K_closed \<Longrightarrow> pl_input s' w = []"
  shows "files_live cfg s'"
  using assms unfolding files_live_def tracked_def by metis

lemma files_live_worker:
  assumes "files_live cfg s" "w < pc_workers cfg"
    "\<And>v. v \<noteq> w \<Longrightarrow> pl_input s' v = pl_input s v \<and> pl_worker s' v = pl_worker s v"
    "pl_fetch s' = pl_fetch s" "pl_fi s' = pl_fi s" "pl_flight s' = pl_flight s" "pl_bodies s' = pl_bodies s"
    "\<And>f. f \<in> set (pl_input s' w) \<or> pl_worker s' w = K_wait f \<Longrightarrow> f \<in> set (pl_input s w) \<or> pl_worker s w = K_wait f"
    "\<And>f. f \<in> set (pl_input s w) \<or> pl_worker s w = K_wait f \<or> f \<in> with_body (pl_worker s w) \<Longrightarrow>
       f \<in> set (pl_input s' w) \<or> pl_worker s' w = K_wait f \<or> f \<in> with_body (pl_worker s' w)"
    "pl_worker s' w = K_closed \<Longrightarrow> pl_input s' w = []"
  shows "files_live cfg s'"
proof (rule files_liveI [OF assms(1) _ _ assms(6,7)])
  show "pending cfg s f" if "pending cfg s' f" for f
    using that assms(2-5,8) unfolding pending_def by metis
  show "tracked cfg s' f" if "tracked cfg s f" for f
    using that assms(2-5,9) unfolding tracked_def pending_def by metis
  show "pl_input s' v = []" if "v < pc_workers cfg" "pl_worker s' v = K_closed" for v
    using that assms(1,3,10) unfolding files_live_def by metis
qed

lemma files_live_step:
  assumes "pstep cfg s s'" "slot_inv cfg s" "\<not> pc_timeouts cfg" "pl_cause s' = None" "files_live cfg s" "order_inv cfg s"
    "0 < pc_workers cfg"
  shows "files_live cfg s'"
proof -
  note l = poll_live_steps [OF assms(1-4)]
  have L: "lanes cfg s" and L': "lanes cfg s'" using assms(6) lanes_step [OF assms(1,6)] by (simp_all add: order_inv_def)
  have cl: "\<And>w. w < pc_workers cfg \<Longrightarrow> pl_worker s w = K_closed \<Longrightarrow> pl_input s w = []" using assms(5) by (simp add: files_live_def)
  note fl = files_liveI [OF assms(5), of s']
  show ?thesis
    using assms(1)
  proof cases
    case submit
    then have "pending cfg s' f \<longleftrightarrow> pending cfg s f \<or> f = pl_fi s" for f by (auto simp: pending_def)
    then show ?thesis using submit assms(5) unfolding files_live_def by auto
  next
    case submit_skip
    then show ?thesis using l(2) by simp
  next
    case (push w)
    then have w: "w < pc_workers cfg" using assms(7) by simp
    have i: "f \<in> set (pl_input s' v) \<longleftrightarrow> f \<in> set (pl_input s v) \<or> v = w \<and> f = pl_fi s" "pl_worker s' = pl_worker s"
      "pl_fetch s' = P_pull" for f v
      using push by auto
    have pe: "pending cfg s' f \<longleftrightarrow> pending cfg s f" for f
      unfolding pending_def i using w push(2) by auto
    moreover have "pl_input s' v = []" if "v < pc_workers cfg" "pl_worker s' v = K_closed" for v
      using lanesD(2) [OF L that(1)] that push l(1) by auto
    ultimately show ?thesis using push by (intro fl) (auto simp: tracked_def)
  next
    case push_quit
    then show ?thesis using l(2) by simp
  next
    case (got_body f body)
    then have "pending cfg s' g \<longleftrightarrow> pending cfg s g" for g by (simp add: pending_def)
    then show ?thesis using got_body assms(5) unfolding files_live_def by auto
  next
    case (got_error f n e)
    then show ?thesis using assms(3,4) l(2) by auto
  next
    case (take_file w f q)
    then show ?thesis by (intro files_live_worker [OF assms(5), of w]) (auto dest: cl split: if_splits)
  next
    case (input_closed w)
    then show ?thesis by (intro files_live_worker [OF assms(5), of w]) (auto dest: cl split: if_splits)
  next
    case (idle_cancelled w)
    then show ?thesis using l(1) by simp
  next
    case (file_ready w f)
    then show ?thesis by (intro files_live_worker [OF assms(5), of w]) (auto dest: cl split: if_splits)
  next
    case (file_cancelled w f e)
    then show ?thesis using l(1) by (auto simp: waitOrCancel_def split: if_splits)
  next
    case (reserved w f b)
    then show ?thesis by (intro files_live_worker [OF assms(5), of w]) (auto dest: cl split: if_splits)
  next
    case (not_reserved w f e n)
    then show ?thesis using l(1) by (auto simp: reserveBytes_def split: if_splits)
  next
    case (decoded w f body rs n)
    have np: "\<not> pending cfg s f" using not_pending [OF L _ decoded(2), of f] decoded assms(5) by (simp add: files_live_def)
    have "pl_worker s' v = K_wait g \<longleftrightarrow> pl_worker s v = K_wait g" "pl_input s' v = pl_input s v" "pl_fetch s' = pl_fetch s"
      "pl_fi s' = pl_fi s" for v g using decoded by auto
    then have pe: "pending cfg s' g \<longleftrightarrow> pending cfg s g" for g by (simp add: pending_def)
    have wb: "(\<exists>v < pc_workers cfg. g \<in> with_body (pl_worker s v)) \<longrightarrow> (\<exists>v < pc_workers cfg. g \<in> with_body (pl_worker s' v)) \<or> g = f" for g
    proof (intro impI)
      assume "\<exists>v < pc_workers cfg. g \<in> with_body (pl_worker s v)"
      then obtain v where "v < pc_workers cfg" "g \<in> with_body (pl_worker s v)" by blast
      then show "(\<exists>v < pc_workers cfg. g \<in> with_body (pl_worker s' v)) \<or> g = f" using decoded by (cases "v = w") auto
    qed
    have "g \<noteq> f \<Longrightarrow> pl_bodies s' g = pl_bodies s g" "pl_flight s' = pl_flight s" "pl_input s' = pl_input s"
      "pl_worker s' v = K_closed \<Longrightarrow> pl_worker s v = K_closed" for g v
      using decoded by (auto split: if_splits)
    moreover have "pl_bodies s' f = None" "f \<notin> pl_flight s" using decoded slot_invD(2) [OF assms(2), of f] by auto
    ultimately show ?thesis
      using np pe wb assms(5) unfolding files_live_def by metis
  next
    case (not_decoded w f e n)
    then show ?thesis using assms(4) by simp
  next
    case (decode_panic w f e)
    then show ?thesis using assms(4) by simp
  next
    case (sent w f b q)
    then show ?thesis by (intro files_live_worker [OF assms(5), of w]) (auto dest: cl split: if_splits)
  next
    case (not_sent w f b)
    then show ?thesis using l(1) by (auto simp: sendBatch_def split: if_splits)
  next
    case (receive w b q cont)
    then show ?thesis by (intro fl) (auto simp: pending_def tracked_def dest: cl)
  next
    case (handoff w f b cont)
    then show ?thesis by (intro files_live_worker [OF assms(5), of w]) (auto dest: cl split: if_splits)
  qed (use assms(4) l in \<open>intro fl; auto simp: pending_def tracked_def dest: cl\<close>)+
qed

lemma send_size: "lane_ok cfg w n fi d q (K_send f b) inp \<Longrightarrow> UncompressedSize (fr_file b) = src_uncomp cfg f"
  by (auto simp: lane_ok_def seq_file_def src_uncomp_def split: option.splits sum.splits)

lemma bytes_live_step:
  assumes "pstep cfg s s'" "slot_inv cfg s" "\<not> pc_timeouts cfg" "pl_cause s' = None" "bytes_live cfg s" "lanes cfg s"
  shows "bytes_live cfg s'"
proof (cases "0 < pc_budget cfg")
  case True
  note l = poll_live_steps [OF assms(1-4)]
  have b: "\<And>w. w < pc_workers cfg \<Longrightarrow> pl_bytes s w = queued_bytes (pl_queue s w) + reserved_by cfg (pl_worker s w)"
    using assms(5) True by (simp add: bytes_live_def)
  show ?thesis
    unfolding bytes_live_def
  proof (intro impI allI)
    fix v assume v: "v < pc_workers cfg"
    note bv = b [OF v]
    show "pl_bytes s' v = queued_bytes (pl_queue s' v) + reserved_by cfg (pl_worker s' v)"
      using assms(1)
    proof cases
      case (reserved w f n)
      then show ?thesis using bv reserve_bytes [OF _ True] by (auto simp: reserved_by_def)
    next
      case (sent w f r q)
      then have "q = pl_queue s w @ [r]" "UncompressedSize (fr_file r) = src_uncomp cfg f"
        using send_size lanesD(1) [OF assms(6), of w] by (auto simp: sendBatch_def split: if_splits)
      with sent bv show ?thesis by (auto simp: reserved_by_def queued_bytes_def)
    next
      case (receive w r q cont)
      then show ?thesis using bv by (auto simp: queued_bytes_def release_bytes)
    next
      case (handoff w f r cont)
      then have "UncompressedSize (fr_file r) = src_uncomp cfg f"
        using send_size lanesD(1) [OF assms(6), of w] by auto
      with handoff bv show ?thesis by (auto simp: reserved_by_def queued_bytes_def release_bytes)
    next
      case (not_decoded w f e n)
      then show ?thesis using assms(4) by simp
    next
      case (decode_panic w f e)
      then show ?thesis using assms(4) by simp
    next
      case (not_reserved w f e n)
      then show ?thesis using l(1) by (auto simp: reserveBytes_def split: if_splits)
    next
      case (not_sent w f r)
      then show ?thesis using l(1) by (auto simp: sendBatch_def split: if_splits)
    qed (use bv l assms(4) in \<open>auto simp: reserved_by_def waitOrCancel_def split: if_splits\<close>)
  qed
qed (simp add: bytes_live_def)

definition poll_inv :: "'r poll_cfg \<Rightarrow> 'r poll_state \<Rightarrow> bool" where
  "poll_inv cfg s \<longleftrightarrow> order_inv cfg s \<and> slot_inv cfg s \<and> live_inv cfg s
     \<and> (pl_end s = Some Ended \<longrightarrow> pl_fetch s = P_stopped \<and> length (pl_out s) = pl_fi s \<and> source_over cfg (pl_fi s))"

lemma poll_inv_step:
  assumes "pstep cfg s s'" "poll_inv cfg s" "\<not> pc_timeouts cfg" "0 < pc_workers cfg"
  shows "poll_inv cfg s'"
proof -
  have o: "order_inv cfg s" "slot_inv cfg s" "live_inv cfg s" "lanes cfg s" using assms(2) by (auto simp: poll_inv_def order_inv_def)
  have o': "order_inv cfg s'" by (rule order_step [OF assms(1) o(1) assms(4)])
  have sl: "slot_inv cfg s'"
  proof (rule slot_step [OF assms(1) o(2,4) assms(3)])
    fix w f assume "w < pc_workers cfg" "pl_worker s w = K_wait f" "pl_cause s = None" "f \<in> pl_done s"
    then have "f \<in> pl_flight s \<or> pl_bodies s f \<noteq> None"
      using o(3) by (auto simp: live_inv_def files_live_def pending_def)
    then show "pl_bodies s f \<noteq> None" using slot_invD(2) [OF o(2), of f] \<open>f \<in> pl_done s\<close> by blast
  qed
  have li: "live_inv cfg s'"
    unfolding live_inv_def
  proof (intro impI)
    assume c: "pl_cause s' = None"
    note l = poll_live_steps [OF assms(1) o(2) assms(3) c]
    from o(3) l(1) have i: "pl_slots s = card (holding s)" "files_live cfg s" "bytes_live cfg s"
      "pl_fetch s \<in> {P_wait, P_stopped} \<longrightarrow> source_over cfg (pl_fi s)" by (auto simp: live_inv_def)
    have "pl_fetch s' \<in> {P_wait, P_stopped} \<longrightarrow> source_over cfg (pl_fi s')"
      using assms(1) by cases (use i(4) l c in \<open>auto simp: source_over_def split: if_splits\<close>)
    then show "pl_slots s' = card (holding s') \<and> files_live cfg s' \<and> bytes_live cfg s'
        \<and> (pl_fetch s' \<in> {P_wait, P_stopped} \<longrightarrow> source_over cfg (pl_fi s'))"
      using slots_exact [OF assms(1) o(2) assms(3) c i(1)] files_live_step [OF assms(1) o(2) assms(3) c i(2) o(1) assms(4)]
        bytes_live_step [OF assms(1) o(2) assms(3) c i(3) o(4)] by blast
  qed
  have "pl_end s' = Some Ended \<longrightarrow> pl_fetch s' = P_stopped \<and> length (pl_out s') = pl_fi s' \<and> source_over cfg (pl_fi s')"
    using assms(1)
  proof cases
    case (queue_closed w)
    have w: "w < pc_workers cfg" "w = length (pl_out s) mod pc_workers cfg"
      using queue_closed o(1) assms(4) by (auto simp: order_inv_def)
    show ?thesis
    proof (cases "pl_cause s")
      case None
      then have f: "pl_fetch s = P_stopped" using lanesD(2) [OF o(4) w(1)] queue_closed by simp
      then have src: "source_over cfg (pl_fi s)" using o(3) None by (simp add: live_inv_def)
      from lanesD(1) [OF o(4) w(1)] queue_closed None
      have "lane (pc_workers cfg) w (length (pl_out s)) (pl_fi s) = []" by (auto simp: lane_ok_def)
      then have "pl_fi s \<le> length (pl_out s)" using lane_Nil w(2) by metis
      then show ?thesis using queue_closed f src o(1) by (auto simp: order_inv_def)
    qed (use queue_closed in auto)
  qed (use assms(2) in \<open>auto simp: poll_inv_def split: if_splits\<close>)
  with o' sl li show ?thesis by (simp add: poll_inv_def)
qed

lemma poll_inv_reach: "poll_reach cfg s \<Longrightarrow> \<not> pc_timeouts cfg \<Longrightarrow> 0 < pc_workers cfg \<Longrightarrow> poll_inv cfg s"
proof (induction rule: poll_reach.induct)
  case start
  have "order_inv cfg poll_start" using order_reach [OF poll_reach.start start(2)] .
  then show ?case
    by (auto simp: poll_inv_def slot_inv_def live_inv_def files_live_def bytes_live_def poll_start_def holding_def pending_def
        queued_bytes_def reserved_by_def)
qed (rule poll_inv_step)

section \<open>No deadlock\<close>

lemma moves: "pstep cfg s s' \<Longrightarrow> s' \<noteq> s\<lparr>pl_cause := pl_cause s'\<rparr> \<Longrightarrow> \<not> poll_stuck cfg s"
  by (auto simp: poll_stuck_def)

lemma fetch_moves: "pstep cfg s s' \<Longrightarrow> pl_fetch s' \<noteq> pl_fetch s \<Longrightarrow> \<not> poll_stuck cfg s"
  by (rule moves) (assumption, metis poll_state.select_convs(4) poll_state.surjective poll_state.update_convs(1))

lemma poll_worker_moves: "pstep cfg s s' \<Longrightarrow> pl_worker s' w \<noteq> pl_worker s w \<Longrightarrow> \<not> poll_stuck cfg s"
  by (rule moves) (assumption, metis poll_state.select_convs(10) poll_state.surjective poll_state.update_convs(1))

lemma poll_end_moves: "pstep cfg s s' \<Longrightarrow> pl_end s' \<noteq> pl_end s \<Longrightarrow> \<not> poll_stuck cfg s"
  by (rule moves) (assumption, metis poll_state.select_convs(15) poll_state.surjective poll_state.update_convs(1))

lemma out_moves: "pstep cfg s s' \<Longrightarrow> pl_out s' \<noteq> pl_out s \<Longrightarrow> \<not> poll_stuck cfg s"
  by (rule moves) (assumption, metis poll_state.select_convs(14) poll_state.surjective poll_state.update_convs(1))

lemma done_moves: "pstep cfg s s' \<Longrightarrow> pl_done s' \<noteq> pl_done s \<Longrightarrow> \<not> poll_stuck cfg s"
  by (rule moves) (assumption, metis poll_state.select_convs(8) poll_state.surjective poll_state.update_convs(1))

lemma get_moves:
  assumes "slot_inv cfg s" "pl_flight s \<noteq> {}"
  shows "\<not> poll_stuck cfg s"
proof -
  obtain f where f: "f \<in> pl_flight s" using assms(2) by blast
  then have d: "f \<notin> pl_done s" using slot_invD(2) [OF assms(1)] by blast
  show ?thesis
  proof (cases "pc_object cfg (src_key cfg f)")
    case (Some body)
    from pstep.got_body [OF f this] show ?thesis by (rule done_moves) (use d in auto)
  next
    case None
    have "slot_release (pl_slots s) = Some (pl_slots s - 1)"
      using slots_free [OF assms(1), of f] f by (simp add: holding_def)
    from pstep.got_error [OF f this, of "Pipe_error []" cfg] have "pstep cfg s (got f None (s\<lparr>pl_slots := pl_slots s - 1,
        pl_cause := record_unless_ctx (Pipe_error []) (pl_cause s), pl_gerr := True\<rparr>))" by simp
    then show ?thesis by (rule done_moves) (use d in auto)
  qed
qed

lemma poll_send_moves:
  assumes "w < pc_workers cfg" "pl_worker s w = K_send f b" "pl_cause s \<noteq> None \<or> length (pl_queue s w) < pc_ahead cfg"
  shows "\<not> poll_stuck cfg s"
proof (cases "length (pl_queue s w) < pc_ahead cfg")
  case True
  from pstep.sent [OF assms(1,2), of "pl_queue s w @ [b]"] True assms(2) show ?thesis
    by (intro poll_worker_moves [of cfg s _ w]) (auto simp: sendBatch_def)
next
  case False
  from pstep.not_sent [OF assms(1,2)] False assms(2,3) show ?thesis
    by (intro poll_worker_moves [of cfg s _ w]) (auto simp: sendBatch_def)
qed

lemma body_moves:
  assumes "slot_inv cfg s" "w < pc_workers cfg" "f \<in> with_body (pl_worker s w)"
    "\<And>g. pl_worker s w = K_reserve g \<Longrightarrow> reserveBytes (pl_cause s) (src_uncomp cfg g) (pc_budget cfg) (pl_bytes s w) \<noteq> Reserve_blocks"
  shows "\<not> poll_stuck cfg s"
proof -
  obtain body where b: "pl_bodies s f = Some body" using slot_invD(6) [OF assms(1-3)] by auto
  have r: "slot_release (pl_slots s) = Some (pl_slots s - 1)" using slots_free [OF assms(1), of f] b by (simp add: holding_def)
  consider "pl_worker s w = K_reserve f" | "pl_worker s w = K_decode f"
    using assms(3) by (cases "pl_worker s w") auto
  then show ?thesis
  proof cases
    case 1
    show ?thesis
    proof (cases "reserveBytes (pl_cause s) (src_uncomp cfg f) (pc_budget cfg) (pl_bytes s w)")
      case (Reserved n)
      from pstep.reserved [OF assms(2) 1 this] 1 show ?thesis by (intro poll_worker_moves [of cfg s _ w]) auto
    next
      case (Reserve_failed e)
      from pstep.not_reserved [OF assms(2) 1 this r] 1 show ?thesis by (intro poll_worker_moves [of cfg s _ w]) auto
    qed (use assms(4) 1 in auto)
  next
    case 2
    show ?thesis
    proof (cases "pc_decode cfg body")
      case (Inl e)
      from pstep.decode_panic [OF assms(2) 2, of e] 2 b Inl show ?thesis by (intro poll_worker_moves [of cfg s _ w]) auto
    next
      case (Inr rs)
      from pstep.decoded [OF assms(2) 2 b Inr r] 2 show ?thesis by (intro poll_worker_moves [of cfg s _ w]) auto
    qed
  qed
qed

lemma poll_cancelled_moves:
  assumes "poll_inv cfg s" "pl_cause s = Some c" "poll_stuck cfg s"
  shows "poll_returned cfg s"
proof -
  have si: "slot_inv cfg s" using assms(1) by (simp add: poll_inv_def)
  have fl: "pl_flight s = {}" using get_moves [OF si] assms(3) by blast
  have g: "pl_gdone s" using assms(2) by (simp add: pl_gdone_def)
  have en: "pl_end s \<noteq> None"
  proof
    assume e: "pl_end s = None"
    from pstep.emit_cancelled [OF this assms(2)] show False using poll_end_moves assms(3) e by fastforce
  qed
  have fe: "pl_fetch s = P_stopped"
  proof (cases "pl_fetch s")
    case P_pull
    with pstep.pull_cancelled [OF P_pull] assms(2,3) show ?thesis using fetch_moves by fastforce
  next
    case P_acquire
    with pstep.slot_quit [OF P_acquire g] assms(3) show ?thesis using fetch_moves by fastforce
  next
    case P_submit
    with pstep.submit_skip [OF P_submit g] assms(3) show ?thesis using fetch_moves by fastforce
  next
    case P_push
    with pstep.push_quit [OF P_push g] assms(3) show ?thesis using fetch_moves by fastforce
  next
    case P_wait
    with pstep.close_inputs [OF P_wait fl] assms(3) show ?thesis using fetch_moves by fastforce
  qed simp
  have "pl_worker s w = K_closed" if w: "w < pc_workers cfg" for w
  proof (cases "pl_worker s w")
    case K_idle
    with pstep.idle_cancelled [OF w K_idle] assms(2,3) show ?thesis using poll_worker_moves [of cfg s _ w] by fastforce
  next
    case (K_wait f)
    have "waitOrCancel (pl_cause s) (f \<in> pl_done s) = Some (Some c)" using assms(2) by (simp add: waitOrCancel_def)
    from pstep.file_cancelled [OF w K_wait this] K_wait assms(3) show ?thesis using poll_worker_moves [of cfg s _ w] by fastforce
  next
    case (K_reserve f)
    then show ?thesis using body_moves [OF si w, of f] reserve_cancelled assms(2,3) by auto
  next
    case (K_decode f)
    then show ?thesis using body_moves [OF si w, of f] assms(3) by auto
  next
    case (K_send f b)
    then show ?thesis using poll_send_moves [OF w K_send] assms(2,3) by auto
  qed simp
  then show ?thesis using en fe fl by (simp add: poll_returned_def)
qed

text \<open>The consumer waits for the file that comes next; either some goroutine has it and can go on, or
  the fetcher is about to get it, or all is over.\<close>

lemma next_file_moves:
  assumes "poll_inv cfg s" "pl_cause s = None" "0 < pc_workers cfg" "length (pl_out s) < pl_fi s"
  shows "\<not> poll_stuck cfg s"
proof -
  have o: "lanes cfg s" "slot_inv cfg s" "files_live cfg s" "bytes_live cfg s" "pl_end s = None" "pl_counter s = length (pl_out s)"
    using assms(1,2) by (auto simp: poll_inv_def order_inv_def live_inv_def)
  define n where "n = length (pl_out s)"
  define w where "w = n mod pc_workers cfg"
  have w: "w < pc_workers cfg" "w = pl_counter s mod pc_workers cfg" using assms(3) o(6) by (simp_all add: w_def n_def)
  have lane: "lane (pc_workers cfg) w n (pl_fi s) = n # lane (pc_workers cfg) w (Suc n) (pl_fi s)"
    using lane_first [of n "pl_fi s"] assms(4) by (simp add: w_def n_def)
  from lanesD(1) [OF o(1) w(1)] obtain qs rest where l:
    "n # lane (pc_workers cfg) w (Suc n) (pl_fi s) = qs @ cur (pl_worker s w) @ rest" "map Inr (pl_queue s w) = map (seq_file cfg) qs"
    "if pl_worker s w = K_closed then pl_cause s \<noteq> None \<or> rest = [] else rest = pl_input s w"
    unfolding lane_ok_def lane [unfolded n_def] n_def by blast
  show ?thesis
  proof (cases "pl_queue s w")
    case (Cons b q)
    from pstep.receive [OF o(5) w(2) Cons, of True] show ?thesis by (rule out_moves) simp
  next
    case q: Nil
    then have qs: "qs = []" using l(2) by simp
    have own: "f = n" if "cur (pl_worker s w) = [f]" for f using l(1) qs that by simp
    show ?thesis
    proof (cases "pl_worker s w")
      case K_idle
      then have "pl_input s w = n # lane (pc_workers cfg) w (Suc n) (pl_fi s)" using l qs by simp
      from pstep.take_file [OF w(1) K_idle this] K_idle show ?thesis by (intro poll_worker_moves [of cfg s _ w]) auto
    next
      case (K_wait f)
      have p: "f \<in> pl_flight s \<or> pl_bodies s f \<noteq> None" using o(3) K_wait w(1) by (auto simp: files_live_def pending_def)
      show ?thesis
      proof (cases "pl_flight s = {}")
        case True
        then have "f \<in> pl_done s" using p slot_invD(3) [OF o(2)] by blast
        then have "waitOrCancel (pl_cause s) (f \<in> pl_done s) = Some None" using assms(2) by (simp add: waitOrCancel_def)
        from pstep.file_ready [OF w(1) K_wait this] K_wait show ?thesis by (intro poll_worker_moves [of cfg s _ w]) auto
      qed (rule get_moves [OF o(2)])
    next
      case (K_reserve f)
      have "reserveBytes None (src_uncomp cfg f) (pc_budget cfg) (pl_bytes s w) \<noteq> Reserve_blocks"
        using o(4) w(1) q K_reserve by (auto simp: reserveBytes_def bytes_live_def queued_bytes_def reserved_by_def)
      then show ?thesis using body_moves [OF o(2) w(1), of f] K_reserve assms(2) by auto
    next
      case (K_decode f)
      then show ?thesis using body_moves [OF o(2) w(1), of f] by auto
    next
      case (K_send f b)
      from pstep.handoff [OF o(5) w(2,1) q K_send, of True] show ?thesis by (rule out_moves) simp
    next
      case K_closed
      then show ?thesis using l qs assms(2) by simp
    qed
  qed
qed

lemma next_fetch_moves:
  assumes "poll_inv cfg s" "pl_cause s = None" "poll_cfg_ok cfg" "length (pl_out s) = pl_fi s"
  shows "\<not> poll_stuck cfg s"
proof (cases "pl_flight s = {}")
  case False
  then show ?thesis using get_moves assms(1) by (auto simp: poll_inv_def)
next
  case fl: True
  have o: "lanes cfg s" "slot_inv cfg s" "files_live cfg s" "pl_slots s = card (holding s)" "pl_end s = None" "pl_counter s = length (pl_out s)"
    using assms(1,2) by (auto simp: poll_inv_def order_inv_def live_inv_def)
  have ok: "0 < pc_workers cfg" "0 < pc_pool cfg" "0 < pc_body_cap cfg" "0 < pc_input_cap cfg" using assms(3) by (simp_all add: poll_cfg_ok_def)
  have empty: "cur (pl_worker s w) = []" "pl_queue s w = []" "pl_input s w = []" if w: "w < pc_workers cfg" for w
  proof -
    have "lane (pc_workers cfg) w (length (pl_out s)) (pl_fi s) = []" using assms(4) by simp
    then show "cur (pl_worker s w) = []" "pl_queue s w = []"
      using lanesD(1) [OF o(1) w] by (auto simp: lane_ok_def)
    show "pl_input s w = []"
      using \<open>lane _ _ _ _ = []\<close> lanesD(1) [OF o(1) w] o(3) w by (cases "pl_worker s w = K_closed") (auto simp: lane_ok_def files_live_def)
  qed
  show ?thesis
  proof (cases "pl_fetch s")
    case P_pull
    show ?thesis
    proof (cases "pc_source cfg (pl_fi s)")
      case (Src_file r)
      from pstep.pull_file [OF P_pull Src_file] show ?thesis by (rule fetch_moves) (simp add: P_pull)
    next
      case Src_eos
      from pstep.pull_eos [OF P_pull Src_eos] show ?thesis by (rule fetch_moves) (simp add: P_pull)
    next
      case (Src_error e)
      from pstep.pull_error [OF P_pull Src_error] show ?thesis by (rule fetch_moves) (simp add: P_pull)
    qed
  next
    case P_acquire
    have "pl_bodies s f = None" for f
    proof (rule ccontr)
      assume "pl_bodies s f \<noteq> None"
      then have "pending cfg s f \<or> (\<exists>w < pc_workers cfg. f \<in> with_body (pl_worker s w))" using o(3) by (auto simp: files_live_def)
      then show False using empty with_body_cur P_acquire unfolding pending_def
        by (metis cur.simps(1) emptyE empty_set list.discI poll_fetch.distinct(13))
    qed
    then have "holding s = {}" using fl P_acquire by (simp add: holding_def)
    then have "slot_acquire (pc_body_cap cfg) (pl_slots s) = Some 1" using o(4) ok(3) by simp
    from pstep.take_slot [OF P_acquire this] show ?thesis by (rule fetch_moves) (simp add: P_acquire)
  next
    case P_submit
    have "card (pl_flight s) < pc_pool cfg" using fl ok(2) by simp
    from pstep.submit [OF P_submit this] show ?thesis by (rule fetch_moves) (simp add: P_submit)
  next
    case P_push
    have "length (pl_input s (pl_fi s mod pc_workers cfg)) < pc_input_cap cfg" using empty(3) ok(1,4) by simp
    from pstep.push [OF P_push refl this] show ?thesis by (rule fetch_moves) (simp add: P_push)
  next
    case P_wait
    from pstep.close_inputs [OF P_wait fl] show ?thesis by (rule fetch_moves) (simp add: P_wait)
  next
    case P_stopped
    let ?w = "pl_counter s mod pc_workers cfg"
    have w: "?w < pc_workers cfg" using ok(1) by simp
    show ?thesis
    proof (cases "pl_worker s ?w")
      case K_idle
      from pstep.input_closed [OF w K_idle empty(3) [OF w] P_stopped] K_idle show ?thesis
        by (intro poll_worker_moves [of cfg s _ ?w]) auto
    next
      case K_closed
      from pstep.queue_closed [OF o(5) refl empty(2) [OF w] K_closed] show ?thesis by (rule poll_end_moves) (simp add: o(5))
    qed (use empty(1) [OF w] in auto)
  qed
qed

lemma stuck_returned:
  assumes "poll_inv cfg s" "poll_cfg_ok cfg" "poll_stuck cfg s"
  shows "poll_returned cfg s"
proof (cases "pl_cause s")
  case None
  have "length (pl_out s) \<le> pl_fi s" using assms(1) by (simp add: poll_inv_def order_inv_def)
  then show ?thesis
    using next_file_moves [OF assms(1) None] next_fetch_moves [OF assms(1) None assms(2)] assms(2,3)
    by (cases "length (pl_out s) = pl_fi s") (auto simp: poll_cfg_ok_def)
qed (rule poll_cancelled_moves [OF assms(1) _ assms(3)])

section \<open>Termination\<close>

definition fetch_work :: "poll_fetch \<Rightarrow> nat" where
  "fetch_work pc = (case pc of P_pull \<Rightarrow> 8 | P_acquire \<Rightarrow> 7 | P_submit \<Rightarrow> 6 | P_push \<Rightarrow> 3 | P_wait \<Rightarrow> 1 | P_stopped \<Rightarrow> 0)"

definition worker_work :: "'r poll_worker \<Rightarrow> nat" where
  "worker_work pc = (case pc of K_wait _ \<Rightarrow> 7 | K_reserve _ \<Rightarrow> 6 | K_decode _ \<Rightarrow> 5 | K_send _ _ \<Rightarrow> 4 | K_idle \<Rightarrow> 1 | K_closed \<Rightarrow> 0)"

definition lane_work :: "'r poll_state \<Rightarrow> nat \<Rightarrow> nat" where
  "lane_work s w = 8 * length (pl_input s w) + worker_work (pl_worker s w) + 2 * length (pl_queue s w)"

text \<open>The steps left: \<open>N\<close> is the length of the source.\<close>

definition poll_work :: "'r poll_cfg \<Rightarrow> nat \<Rightarrow> 'r poll_state \<Rightarrow> nat" where
  "poll_work cfg N s = 20 * (N - pl_fi s) + fetch_work (pl_fetch s) + card (pl_flight s)
     + sum (lane_work s) {..<pc_workers cfg} + (if pl_end s = None then 1 else 0) + (if pl_cause s = None then 1 else 0)"

definition poll_bound :: "'r poll_cfg \<Rightarrow> nat \<Rightarrow> nat" where
  "poll_bound cfg N = 20 * N + pc_workers cfg + 10"

lemma sum_lane:
  fixes f g :: "nat \<Rightarrow> nat"
  assumes "w < W" "\<And>v. v \<noteq> w \<Longrightarrow> g v = f v" "g w + d \<le> f w"
  shows "sum g {..<W} + d \<le> sum f {..<W :: nat}"
proof -
  have "sum g {..<W} = g w + sum g ({..<W} - {w})" "sum f {..<W} = f w + sum f ({..<W} - {w})"
    using assms(1) by (simp_all add: sum.remove)
  moreover have "sum g ({..<W} - {w}) = sum f ({..<W} - {w})" using assms(2) by (intro sum.cong) auto
  ultimately show ?thesis using assms(3) by simp
qed

lemma sum_lane_up:
  fixes f g :: "nat \<Rightarrow> nat"
  assumes "w < W" "\<And>v. v \<noteq> w \<Longrightarrow> g v = f v" "g w \<le> f w + d"
  shows "sum g {..<W} \<le> sum f {..<W :: nat} + d"
proof -
  have "sum g {..<W} = g w + sum g ({..<W} - {w})" "sum f {..<W} = f w + sum f ({..<W} - {w})"
    using assms(1) by (simp_all add: sum.remove)
  moreover have "sum g ({..<W} - {w}) = sum f ({..<W} - {w})" using assms(2) by (intro sum.cong) auto
  ultimately show ?thesis using assms(3) by simp
qed

text \<open>A step of a worker or of the consumer, of the fetcher, of a GET.\<close>

lemma worker_work_step:
  assumes "w < pc_workers cfg" "\<And>v. v \<noteq> w \<Longrightarrow> lane_work s' v = lane_work s v" "Suc (lane_work s' w) \<le> lane_work s w"
    "pl_fi s' = pl_fi s" "pl_fetch s' = pl_fetch s" "pl_flight s' = pl_flight s"
    "pl_end s' = None \<longrightarrow> pl_end s = None" "pl_cause s' = None \<longrightarrow> pl_cause s = None"
  shows "poll_work cfg N s' < poll_work cfg N s"
  using sum_lane [OF assms(1), of "lane_work s'" "lane_work s" 1] assms by (auto simp: poll_work_def)

lemma other_work_step:
  assumes "lane_work s' = lane_work s" "pl_end s' = None \<longrightarrow> pl_end s = None" "pl_cause s' = None \<longrightarrow> pl_cause s = None"
    "20 * (N - pl_fi s') + fetch_work (pl_fetch s') + card (pl_flight s') + (if pl_end s' = None then 1 else 0) + (if pl_cause s' = None then 1 else 0)
      < 20 * (N - pl_fi s) + fetch_work (pl_fetch s) + card (pl_flight s) + (if pl_end s = None then 1 else 0) + (if pl_cause s = None then 1 else (0::nat))"
  shows "poll_work cfg N s' < poll_work cfg N s"
  using assms by (simp add: poll_work_def)

lemma poll_work_step:
  assumes "pstep cfg s s'" "finite (pl_flight s)" "pl_fi s \<le> N" "\<And>r. pc_source cfg N \<noteq> Src_file r" "0 < pc_workers cfg"
    "pl_fetch s \<in> {P_acquire, P_submit, P_push} \<longrightarrow> pl_fi s < N"
  shows "poll_work cfg N s' < poll_work cfg N s"
  using assms(1)
proof cases
  case (push w)
  have w: "w < pc_workers cfg" using push assms(5) by simp
  have "lane_work s' v = lane_work s v" if "v \<noteq> w" for v using push that by (simp add: lane_work_def)
  moreover have "lane_work s' w \<le> lane_work s w + 8" using push by (simp add: lane_work_def)
  ultimately have "sum (lane_work s') {..<pc_workers cfg} \<le> sum (lane_work s) {..<pc_workers cfg} + 8" using sum_lane_up [OF w] by blast
  then show ?thesis using push assms(6) by (simp add: poll_work_def fetch_work_def)
next
  case (take_file w f q)
  then show ?thesis by (intro worker_work_step [of w]) (auto simp: lane_work_def worker_work_def)
next
  case (input_closed w)
  then show ?thesis by (intro worker_work_step [of w]) (auto simp: lane_work_def worker_work_def)
next
  case (idle_cancelled w)
  then show ?thesis by (intro worker_work_step [of w]) (auto simp: lane_work_def worker_work_def)
next
  case (file_ready w f)
  then show ?thesis by (intro worker_work_step [of w]) (auto simp: lane_work_def worker_work_def)
next
  case (file_cancelled w f e)
  then show ?thesis by (intro worker_work_step [of w]) (auto simp: lane_work_def worker_work_def)
next
  case (reserved w f b)
  then show ?thesis by (intro worker_work_step [of w]) (auto simp: lane_work_def worker_work_def)
next
  case (not_reserved w f e n)
  then show ?thesis by (intro worker_work_step [of w]) (auto simp: lane_work_def worker_work_def)
next
  case (decoded w f body rs n)
  then show ?thesis by (intro worker_work_step [of w]) (auto simp: lane_work_def worker_work_def)
next
  case (not_decoded w f e n)
  then show ?thesis by (intro worker_work_step [of w]) (auto simp: lane_work_def worker_work_def)
next
  case (decode_panic w f e)
  then show ?thesis by (intro worker_work_step [of w]) (auto simp: lane_work_def worker_work_def)
next
  case (sent w f b q)
  then show ?thesis by (intro worker_work_step [of w]) (auto simp: lane_work_def worker_work_def sendBatch_def split: if_splits)
next
  case (not_sent w f b)
  then show ?thesis by (intro worker_work_step [of w]) (auto simp: lane_work_def worker_work_def)
next
  case (receive w b q cont)
  then show ?thesis using assms(5) by (intro worker_work_step [of w]) (auto simp: lane_work_def split: if_splits)
next
  case (handoff w f b cont)
  then show ?thesis by (intro worker_work_step [of w]) (auto simp: lane_work_def worker_work_def split: if_splits)
next
  case (got_body f body)
  then show ?thesis
    using card_Diff1_less [OF assms(2), of f] by (intro other_work_step) (auto simp: lane_work_def fun_eq_iff)
next
  case (got_error f n e)
  then show ?thesis
    using card_Diff1_less [OF assms(2), of f] by (intro other_work_step) (auto simp: lane_work_def fun_eq_iff)
next
  case submit
  then show ?thesis
    using assms(2) by (intro other_work_step) (auto simp: lane_work_def fun_eq_iff fetch_work_def card_insert_if)
qed (intro other_work_step; auto simp: lane_work_def fun_eq_iff fetch_work_def)+

text \<open>The fetcher never gets past the end of the source.\<close>

definition in_source :: "nat \<Rightarrow> 'r poll_state \<Rightarrow> bool" where
  "in_source N s \<longleftrightarrow> finite (pl_flight s) \<and> pl_fi s \<le> N \<and> (pl_fetch s \<in> {P_acquire, P_submit, P_push} \<longrightarrow> pl_fi s < N)"

lemma in_source_step:
  assumes "pstep cfg s s'" "in_source N s" "\<And>r. pc_source cfg N \<noteq> Src_file r"
  shows "in_source N s'"
  using assms(1)
proof cases
  case (pull_file r)
  then have "pl_fi s \<noteq> N" using assms(3) by auto
  then show ?thesis using pull_file assms(2) by (auto simp: in_source_def)
qed (use assms(2) in \<open>auto simp: in_source_def\<close>)

lemma poll_start_simps [simp]:
  "pl_fi poll_start = 0" "pl_fetch poll_start = P_pull" "pl_flight poll_start = {}" "pl_end poll_start = None"
  "pl_cause poll_start = None" "lane_work poll_start w = 1"
  by (simp_all add: poll_start_def lane_work_def worker_work_def)

lemma poll_runs_bounded:
  assumes "(pstep cfg ^^ n) poll_start s" "0 < pc_workers cfg" "\<And>r. pc_source cfg N \<noteq> Src_file r"
  shows "poll_reach cfg s \<and> in_source N s \<and> n + poll_work cfg N s \<le> poll_bound cfg N"
  using assms(1)
proof (induction n arbitrary: s)
  case 0
  then have "s = poll_start" by simp
  then show ?case
    by (simp add: poll_work_def poll_bound_def fetch_work_def in_source_def poll_reach.start)
next
  case (Suc n)
  then obtain r where r: "(pstep cfg ^^ n) poll_start r" "pstep cfg r s" by auto
  from Suc.IH [OF r(1)] have i: "poll_reach cfg r" "in_source N r" "n + poll_work cfg N r \<le> poll_bound cfg N" by auto
  have "poll_work cfg N s < poll_work cfg N r"
    using poll_work_step [OF r(2) _ _ assms(3,2)] i(2) by (auto simp: in_source_def)
  then show ?case using i r(2) in_source_step [OF r(2) i(2) assms(3)] by (auto intro: poll_reach.step)
qed

section \<open>The properties\<close>

text \<open>C28.  Under every interleaving of the fetcher, the GETs, the decode workers and the emit loop, with any
  faults, even a GET that times out on its own, and a cancellation at any moment, the results handed
  to the consumer are those of the sequential reader of the source, in its order and without a gap.
  If no GET of a live context fails with a context error, a call that ends without an error has
  delivered the whole source.\<close>

theorem poll_pipeline_prefix:
  assumes "0 < pc_workers cfg" "poll_reach cfg s"
  shows "map Inr (pl_out s) = map (seq_file cfg) [0..<length (pl_out s)]
    \<and> (\<not> pc_timeouts cfg \<and> pl_end s = Some Ended \<longrightarrow> source_over cfg (length (pl_out s)))"
  using order_reach [OF assms(2,1)] poll_inv_reach [OF assms(2) _ assms(1)] by (auto simp: order_inv_def poll_inv_def)

text \<open>C29.  A poll pipeline on a source that ends cannot hang: a run has at most \<open>poll_bound\<close> steps, and as
  long as the call has not returned, every goroutine ended, some goroutine can take a step without
  help from outside; an endless source can only keep it going.  Assumed is that the consumer returns
  from every yield and that a GET of a live context does not fail with a context error.\<close>

theorem poll_pipeline_returns:
  assumes "poll_cfg_ok cfg" "\<not> pc_timeouts cfg" "(pstep cfg ^^ n) poll_start s"
  shows "(poll_stuck cfg s \<longrightarrow> poll_returned cfg s) \<and> (\<forall>N. (\<forall>r. pc_source cfg N \<noteq> Src_file r) \<longrightarrow> n \<le> poll_bound cfg N)"
proof
  have w: "0 < pc_workers cfg" using assms(1) by (simp add: poll_cfg_ok_def)
  have "poll_reach cfg s"
    using assms(3)
  proof (induction n arbitrary: s)
    case (Suc n)
    then show ?case by (auto intro: poll_reach.step)
  qed (simp add: poll_reach.start)
  then show "poll_stuck cfg s \<longrightarrow> poll_returned cfg s"
    using stuck_returned [OF poll_inv_reach [OF _ assms(2) w] assms(1)] by blast
  show "\<forall>N. (\<forall>r. pc_source cfg N \<noteq> Src_file r) \<longrightarrow> n \<le> poll_bound cfg N"
    using poll_runs_bounded [OF assms(3) w] by (auto dest: add_leD1)
qed

section \<open>Runs\<close>

text \<open>A source of one file.\<close>

definition poll_file :: file_ref where
  "poll_file = \<lparr>FileID = 1, PartitionKey = ''p=a'', S3Key = ''a'', Version = 1, WrittenAt = 11, RecordCount = 1,
     FileSize = 0, UncompressedSize = 0, Extensions = [], Offset = 1\<rparr>"

text \<open>A pipeline of one worker over a source of one file.\<close>

definition one_file :: "'r poll_cfg \<Rightarrow> file_ref \<Rightarrow> bool" where
  "one_file cfg f \<longleftrightarrow> pc_source cfg 0 = Src_file f \<and> pc_source cfg (Suc 0) = Src_eos \<and> pc_body_cap cfg = 1
     \<and> pc_workers cfg = 1 \<and> pc_input_cap cfg = 1 \<and> pc_ahead cfg = 1 \<and> pc_budget cfg = 0 \<and> pc_pool cfg = 1"

lemma one_fileD:
  assumes "one_file cfg f"
  shows "pc_source cfg 0 = Src_file f" "pc_source cfg (Suc 0) = Src_eos" "pc_body_cap cfg = 1" "pc_workers cfg = 1"
    "pc_input_cap cfg = 1" "pc_ahead cfg = 1" "pc_budget cfg = 0" "pc_pool cfg = 1" "src_key cfg 0 = S3Key f" "src_ref cfg 0 = Some f"
  using assms by (simp_all add: one_file_def src_key_def src_ref_def)

definition demo_poll :: "bool \<Rightarrow> string poll_cfg" where
  "demo_poll timeouts = \<lparr>pc_source = sliceToSeq2 [poll_file], pc_body_cap = 1, pc_workers = 1,
     pc_input_cap = 1, pc_ahead = 1, pc_budget = 0, pc_pool = 1, pc_object = Some, pc_decode = (\<lambda>b. Inr [b]), pc_timeouts = timeouts\<rparr>"

lemma demo_poll_one: "one_file (demo_poll t) poll_file"
  by (simp add: one_file_def demo_poll_def sliceToSeq2_def)

lemma demo_poll_simps [simp]:
  "pc_object (demo_poll t) k = Some k" "pc_decode (demo_poll t) b = Inr [b]" "pc_timeouts (demo_poll t) = t" "S3Key poll_file = ''a''"
  by (simp_all add: demo_poll_def poll_file_def)

lemmas demo_poll_fields [simp] = one_fileD [OF demo_poll_one]

lemma demo_poll_ok: "poll_cfg_ok (demo_poll t)"
  by (simp add: poll_cfg_ok_def)

definition demo_at :: "bool \<Rightarrow> nat \<Rightarrow> poll_fetch \<Rightarrow> nat \<Rightarrow> nat set \<Rightarrow> string option \<Rightarrow> nat set \<Rightarrow> nat list \<Rightarrow> 'r poll_worker
    \<Rightarrow> 'r file_result list \<Rightarrow> nat \<Rightarrow> 'r file_result list \<Rightarrow> ending option \<Rightarrow> cause \<Rightarrow> 'r poll_state" where
  "demo_at ge n fe fi fl body dn inp pc q k out en c =
     \<lparr>pl_cause = c, pl_gerr = ge, pl_slots = n, pl_fetch = fe, pl_fi = fi, pl_flight = fl, pl_bodies = (\<lambda>_. None)(0 := body),
      pl_done = dn, pl_input = (\<lambda>_. [])(0 := inp), pl_worker = (\<lambda>_. K_idle)(0 := pc), pl_bytes = (\<lambda>_. 0),
      pl_queue = (\<lambda>_. [])(0 := q), pl_counter = k, pl_out = out, pl_end = en\<rparr>"

definition demo_result :: "string file_result" where
  "demo_result = \<lparr>fr_file = poll_file, fr_records = [''a'']\<rparr>"

lemmas demo_step = demo_at_def fetch_at_def worker_at_def bytes_at_def free_body_def got_def poll_finish_def

lemma poll_run: "rtranclp (pstep cfg) x y \<Longrightarrow> pstep cfg y z \<Longrightarrow> rtranclp (pstep cfg) x z"
  by (rule rtranclp.rtrancl_into_rtrancl)

lemma one_file_submitted:
  assumes "one_file cfg f"
  shows "rtranclp (pstep cfg) poll_start (demo_at False 1 P_push 0 {0} None {} [] K_idle [] 0 [] None None)"
proof -
  note c = one_fileD [OF assms]
  have 0: "poll_start = demo_at False 0 P_pull 0 {} None {} [] K_idle [] 0 [] None None"
    by (simp add: demo_at_def poll_start_def fun_upd_idem)
  have 1: "pstep cfg poll_start (demo_at False 0 P_acquire 0 {} None {} [] K_idle [] 0 [] None None)"
    using pstep.pull_file [of poll_start cfg f] unfolding 0 by (simp add: demo_step c)
  have 2: "pstep cfg (demo_at False 0 P_acquire 0 {} None {} [] K_idle [] 0 [] None None)
      (demo_at False 1 P_submit 0 {} None {} [] K_idle [] 0 [] None None)" (is "pstep _ ?s _")
    using pstep.take_slot [of ?s cfg 1] by (simp add: demo_step c)
  have 3: "pstep cfg (demo_at False 1 P_submit 0 {} None {} [] K_idle [] 0 [] None None)
      (demo_at False 1 P_push 0 {0} None {} [] K_idle [] 0 [] None None)" (is "pstep _ ?s _")
    using pstep.submit [of ?s cfg] by (simp add: demo_step c)
  show ?thesis using poll_run [OF poll_run [OF r_into_rtranclp [of "pstep cfg", OF 1] 2] 3] .
qed

text \<open>The GET of the file succeeds.\<close>

lemma one_file_good:
  assumes one: "one_file cfg f" and obj: "pc_object cfg (S3Key f) = Some body" and dec: "pc_decode cfg body = Inr recs"
  shows "\<exists>s. rtranclp (pstep cfg) poll_start s \<and> poll_returned cfg s \<and> pl_end s = Some Ended
    \<and> pl_out s = [\<lparr>fr_file = f, fr_records = recs\<rparr>]"
proof -
  let ?r = "\<lparr>fr_file = f, fr_records = recs\<rparr>"
  note c = one_fileD [OF one] obj dec
  have 4: "pstep cfg (demo_at False 1 P_push 0 {0} None {} [] K_idle [] 0 [] None None)
      (demo_at False 1 P_push 0 {} (Some body) {0} [] K_idle [] 0 [] None None)" (is "pstep _ ?s _")
    using pstep.got_body [of 0 ?s cfg body] by (simp add: demo_step c)
  have 5: "pstep cfg (demo_at False 1 P_push 0 {} (Some body) {0} [] K_idle [] 0 [] None None)
      (demo_at False 1 P_pull 1 {} (Some body) {0} [0] K_idle [] 0 [] None None)" (is "pstep _ ?s _")
    using pstep.push [of ?s 0 cfg] by (simp add: demo_step c)
  have 6: "pstep cfg (demo_at False 1 P_pull 1 {} (Some body) {0} [0] K_idle [] 0 [] None None)
      (demo_at False 1 P_wait 1 {} (Some body) {0} [0] K_idle [] 0 [] None None)" (is "pstep _ ?s _")
    using pstep.pull_eos [of ?s cfg] by (simp add: demo_step c)
  have 7: "pstep cfg (demo_at False 1 P_wait 1 {} (Some body) {0} [0] K_idle [] 0 [] None None)
      (demo_at False 1 P_stopped 1 {} (Some body) {0} [0] K_idle [] 0 [] None None)" (is "pstep _ ?s _")
    using pstep.close_inputs [of ?s cfg] by (simp add: demo_step c)
  have 8: "pstep cfg (demo_at False 1 P_stopped 1 {} (Some body) {0} [0] K_idle [] 0 [] None None)
      (demo_at False 1 P_stopped 1 {} (Some body) {0} [] (K_wait 0) [] 0 [] None None)" (is "pstep _ ?s _")
    using pstep.take_file [of 0 cfg ?s 0 "[]"] by (simp add: demo_step c)
  have 9: "pstep cfg (demo_at False 1 P_stopped 1 {} (Some body) {0} [] (K_wait 0) [] 0 [] None None)
      (demo_at False 1 P_stopped 1 {} (Some body) {0} [] (K_reserve 0) [] 0 [] None None)" (is "pstep _ ?s _")
    using pstep.file_ready [of 0 cfg ?s 0] by (simp add: demo_step c waitOrCancel_def)
  have 10: "pstep cfg (demo_at False 1 P_stopped 1 {} (Some body) {0} [] (K_reserve 0) [] 0 [] None None)
      (demo_at False 1 P_stopped 1 {} (Some body) {0} [] (K_decode 0) [] 0 [] None None)" (is "pstep _ ?s _")
    using pstep.reserved [of 0 cfg ?s 0 0] by (simp add: demo_step c reserveBytes_def fun_upd_idem)
  have 11: "pstep cfg (demo_at False 1 P_stopped 1 {} (Some body) {0} [] (K_decode 0) [] 0 [] None None)
      (demo_at False 0 P_stopped 1 {} None {0} [] (K_send 0 ?r) [] 0 [] None None)" (is "pstep _ ?s _")
    using pstep.decoded [of 0 cfg ?s 0 body recs 0] by (simp add: demo_step c)
  have 12: "pstep cfg (demo_at False 0 P_stopped 1 {} None {0} [] (K_send 0 ?r) [] 0 [] None None)
      (demo_at False 0 P_stopped 1 {} None {0} [] K_idle [?r] 0 [] None None)" (is "pstep _ ?s _")
    using pstep.sent [of 0 cfg ?s 0 ?r "[?r]"] by (simp add: demo_step c sendBatch_def)
  have 13: "pstep cfg (demo_at False 0 P_stopped 1 {} None {0} [] K_idle [?r] 0 [] None None)
      (demo_at False 0 P_stopped 1 {} None {0} [] K_closed [?r] 0 [] None None)" (is "pstep _ ?s _")
    using pstep.input_closed [of 0 cfg ?s] by (simp add: demo_step c)
  define s14 where "s14 = poll_emitted 0 ?r True (demo_at False 0 P_stopped 1 {} None {0} [] K_closed [] 0 [] None None)"
  have 14: "pstep cfg (demo_at False 0 P_stopped 1 {} None {0} [] K_closed [?r] 0 [] None None) s14" (is "pstep _ ?s _")
    using pstep.receive [of ?s 0 cfg ?r "[]" True] by (simp add: demo_at_def c s14_def)
  have 15: "pstep cfg s14 (poll_finish Ended s14)"
    using pstep.queue_closed [of s14 0 cfg] by (simp add: s14_def demo_at_def c)
  have "poll_returned cfg (poll_finish Ended s14)" by (simp add: poll_returned_def s14_def demo_at_def c)
  moreover have "pl_out (poll_finish Ended s14) = [?r]" "pl_end (poll_finish Ended s14) = Some Ended"
    by (simp_all add: s14_def demo_at_def c)
  moreover have "rtranclp (pstep cfg) poll_start (poll_finish Ended s14)"
    using poll_run [OF poll_run [OF poll_run [OF poll_run [OF poll_run [OF poll_run [OF poll_run [OF poll_run [OF poll_run
      [OF poll_run [OF poll_run [OF poll_run [OF one_file_submitted [OF one] 4] 5] 6] 7] 8] 9] 10] 11] 12] 13] 14] 15] .
  ultimately show ?thesis by blast
qed

lemma demo_poll_good:
  "\<exists>s. rtranclp (pstep (demo_poll t)) poll_start s \<and> poll_returned (demo_poll t) s \<and> pl_end s = Some Ended \<and> pl_out s = [demo_result]"
  unfolding demo_result_def using one_file_good [OF demo_poll_one, of t "''a''" "[''a'']"] by simp

text \<open>The GET of the file times out while the fetcher is about to hand it to its worker.\<close>

lemma demo_poll_bad:
  "\<exists>s. rtranclp (pstep (demo_poll True)) poll_start s \<and> poll_returned (demo_poll True) s \<and> pl_end s = Some Ended \<and> pl_out s = []"
proof -
  let ?c = "demo_poll True"
  have 4: "pstep ?c (demo_at False 1 P_push 0 {0} None {} [] K_idle [] 0 [] None None)
      (demo_at True 0 P_push 0 {} None {0} [] K_idle [] 0 [] None None)" (is "pstep _ ?s _")
    using pstep.got_error [of 0 ?s 0 Ctx_deadline ?c] by (simp add: demo_step record_unless_ctx_def fun_upd_idem)
  have 5: "pstep ?c (demo_at True 0 P_push 0 {} None {0} [] K_idle [] 0 [] None None)
      (demo_at True 0 P_wait 0 {} None {0} [] K_idle [] 0 [] None None)" (is "pstep _ ?s _")
    using pstep.push_quit [of ?s ?c] by (simp add: demo_step pl_gdone_def)
  have 6: "pstep ?c (demo_at True 0 P_wait 0 {} None {0} [] K_idle [] 0 [] None None)
      (demo_at True 0 P_stopped 0 {} None {0} [] K_idle [] 0 [] None None)" (is "pstep _ ?s _")
    using pstep.close_inputs [of ?s ?c] by (simp add: demo_step)
  have 7: "pstep ?c (demo_at True 0 P_stopped 0 {} None {0} [] K_idle [] 0 [] None None)
      (demo_at True 0 P_stopped 0 {} None {0} [] K_closed [] 0 [] None None)" (is "pstep _ ?s _")
    using pstep.input_closed [of 0 ?c ?s] by (simp add: demo_step)
  let ?e = "demo_at True 0 P_stopped 0 {} None {0} [] K_closed [] 0 [] None None"
  have 8: "pstep ?c ?e (poll_finish Ended ?e)"
    using pstep.queue_closed [of ?e 0 ?c] by (simp add: demo_at_def)
  have "poll_returned ?c (poll_finish Ended ?e)" "pl_out (poll_finish Ended ?e) = []" "pl_end (poll_finish Ended ?e) = Some Ended"
    by (simp_all add: poll_returned_def demo_at_def)
  moreover have "rtranclp (pstep ?c) poll_start (poll_finish Ended ?e)"
    using poll_run [OF poll_run [OF poll_run [OF poll_run [OF poll_run [OF one_file_submitted [OF demo_poll_one] 4] 5] 6] 7] 8] .
  ultimately show ?thesis by blast
qed

lemma poll_reach_run: "rtranclp (pstep cfg) poll_start s \<Longrightarrow> poll_reach cfg s"
  by (induction rule: rtranclp_induct) (auto intro: poll_reach.intros)

lemma poll_pipeline_prefix_witness:
  "\<exists>s. poll_reach (demo_poll False) s \<and> pl_end s = Some Ended \<and> map Inr (pl_out s) = map (seq_file (demo_poll False)) [0..<1]"
proof -
  obtain s where s: "rtranclp (pstep (demo_poll False)) poll_start s" "pl_end s = Some Ended" "pl_out s = [demo_result]"
    using demo_poll_good by blast
  from poll_pipeline_prefix [OF _ poll_reach_run [OF s(1)]] s poll_reach_run [OF s(1)] show ?thesis by auto
qed

lemma poll_pipeline_returns_witness:
  "\<exists>n s. (pstep (demo_poll False) ^^ n) poll_start s \<and> poll_returned (demo_poll False) s \<and> n \<le> poll_bound (demo_poll False) 1"
proof -
  obtain s where s: "rtranclp (pstep (demo_poll False)) poll_start s" "poll_returned (demo_poll False) s" using demo_poll_good by blast
  obtain n where n: "(pstep (demo_poll False) ^^ n) poll_start s" using s(1) rtranclp_imp_relpowp by metis
  have "n \<le> poll_bound (demo_poll False) 1" using poll_pipeline_returns [OF demo_poll_ok _ n] by simp
  with n s(2) show ?thesis by blast
qed

end
