(* ===== verification/Poll_Records.thy ===== *)
theory Poll_Records
  imports Poll_Live Read_Correct Feed_Log
begin

text \<open>
  The record readers of \<open>poll.go\<close>: \<open>PollRecords\<close>, \<open>PollRecordsIter\<close> and \<open>TailRecordsIter\<close>, which
  feed the files of \<open>Poll\<close>, \<open>PollIter\<close> and \<open>TailIter\<close> through the pipeline of \<open>Poll_Pipeline\<close>, their
  emit callbacks, and what they deliver.  As in \<open>Read_Path\<close> they are relations, and the environment
  is a \<open>read_env\<close>.
\<close>

section \<open>The configuration of a pipeline\<close>

text \<open>\<open>opts\<close> are the options after \<open>applyDefaults\<close>.\<close>

definition poll_config :: "'r read_env \<Rightarrow> poll_opts \<Rightarrow> (nat \<Rightarrow> source_item) \<Rightarrow> 'r poll_cfg" where
  "poll_config env opts source =
     \<lparr>pc_source = source,
      pc_body_cap = nat (if po_fetch_ahead_files opts \<le> 0 then ren_pool env else po_fetch_ahead_files opts),
      pc_workers = nat (if po_decode_workers opts < 1 then 1 else po_decode_workers opts),
      pc_input_cap = nat (max (the (po_decode_ahead_files opts)) 1), pc_ahead = nat (the (po_decode_ahead_files opts)),
      pc_budget = po_decode_ahead_bytes opts, pc_pool = nat (ren_pool env), pc_object = ren_object env,
      pc_decode = ren_decode env, pc_timeouts = ren_timeouts env\<rparr>"

definition pollFetchAndDecodeIter ::
  "'r read_env \<Rightarrow> poll_opts \<Rightarrow> (nat \<Rightarrow> source_item) \<Rightarrow> 'r file_result list \<Rightarrow> ending \<Rightarrow> bool" where
  "pollFetchAndDecodeIter env opts source results en \<longleftrightarrow>
     (let cfg = poll_config env opts source
      in \<exists>s. poll_reach cfg s \<and> poll_returned cfg s \<and> pl_out s = results \<and> pl_end s = Some en)"

section \<open>The emit callbacks\<close>

datatype records_error = Rec_poll poll_error | Rec_pipe pipe_error

type_synonym 'r feed_yields = "(records_error + 'r file_result) list"

definition pollIterEmit :: "('r feed_yields \<Rightarrow> bool) \<Rightarrow> ('r feed_yields, 'r file_result) emit" where
  "pollIterEmit wants ys x =
     (case x of
        Inl e \<Rightarrow> (if isCtx e then ys else ys @ [Inl (Rec_pipe e)], False)
      | Inr fr \<Rightarrow> (let ys' = ys @ [Inr fr] in (ys', wants ys')))"

definition pollCollectEmit :: "('r file_result list \<times> records_error option, 'r file_result) emit" where
  "pollCollectEmit st x =
     (case x of Inl e \<Rightarrow> ((fst st, Some (Rec_pipe e)), False) | Inr fr \<Rightarrow> ((fst st @ [fr], snd st), True))"

section \<open>The readers\<close>

definition PollRecords ::
  "'r store \<Rightarrow> 'r read_env \<Rightarrow> sql_error option \<Rightarrow> catalog \<Rightarrow> int \<Rightarrow> int \<Rightarrow> poll_option list
   \<Rightarrow> 'r file_result list \<times> int \<times> records_error option \<Rightarrow> bool" where
  "PollRecords st env fail db since until opts result \<longleftrightarrow>
     (case Poll st fail db since until of
        (entries, next, Some e) \<Rightarrow> result = ([], since, Some (Rec_poll e))
      | (entries, next, None) \<Rightarrow>
          if entries = [] then result = ([], next, None)
          else \<exists>results en out iterErr.
            pollFetchAndDecodeIter env
              (pollCollectDefaults (ren_pool env) (ren_procs env) (int (length entries)) (resolvePollOpts opts))
              (sliceToSeq2 entries) results en
            \<and> emit_run pollCollectEmit ([], None) results en = Some (out, iterErr)
            \<and> result = (case iterErr of Some e \<Rightarrow> ([], since, Some e) | None \<Rightarrow> (out, next, None)))"

text \<open>The files of an iterator as a source; the error it ends with is a context error or another one.\<close>

definition iter_error :: "poll_error \<Rightarrow> pipe_error" where
  "iter_error e = (if isCtxErr e then Ctx_canceled else Pipe_error ''poll'')"

definition iter_source :: "file_ref yielded list \<Rightarrow> nat \<Rightarrow> source_item" where
  "iter_source items i =
     (if i < length items then (case items ! i of Yield r \<Rightarrow> Src_file r | Yield_error e \<Rightarrow> Src_error (iter_error e)) else Src_eos)"

definition PollRecordsIter ::
  "'r store \<Rightarrow> 'r read_env \<Rightarrow> (nat \<Rightarrow> page_env) \<Rightarrow> int \<Rightarrow> int \<Rightarrow> poll_option list \<Rightarrow> ('r feed_yields \<Rightarrow> bool)
   \<Rightarrow> 'r feed_yields \<Rightarrow> bool" where
  "PollRecordsIter st env envs since until opts wants ys \<longleftrightarrow>
     (\<exists>items results en. PollIter st opts envs since until = Some items
        \<and> pollFetchAndDecodeIter env (pollIterDefaults (resolvePollOpts opts)) (iter_source items) results en
        \<and> emit_run (pollIterEmit wants) [] results en = Some ys)"

text \<open>The waits of the endless iterator give nothing; the observation of its cycles ends when the
  context is done.\<close>

fun tail_items :: "tail_event list \<Rightarrow> file_ref yielded list" where
  "tail_items [] = []"
| "tail_items (Tail_yield r # es) = Yield r # tail_items es"
| "tail_items (Tail_error e # es) = Yield_error e # tail_items es"
| "tail_items (Tail_wait d # es) = tail_items es"

definition TailRecordsIter ::
  "'r store \<Rightarrow> 'r read_env \<Rightarrow> (page_env \<times> bool) list \<Rightarrow> int \<Rightarrow> poll_option list \<Rightarrow> ('r feed_yields \<Rightarrow> bool)
   \<Rightarrow> 'r feed_yields \<Rightarrow> bool" where
  "TailRecordsIter st env cycles since opts wants ys \<longleftrightarrow>
     (\<exists>results en. pollFetchAndDecodeIter env (pollIterDefaults (resolvePollOpts opts))
           (iter_source (tail_items (TailIter st opts cycles since))) results en
        \<and> emit_run (pollIterEmit wants) [] results en = Some ys)"

section \<open>What they deliver\<close>

text \<open>A file read without concurrency.\<close>

definition fetch_result :: "'r read_env \<Rightarrow> file_ref \<Rightarrow> string + 'r file_result" where
  "fetch_result env r = (case fetch_file env r of Inl e \<Rightarrow> Inl e | Inr rs \<Rightarrow> Inr \<lparr>fr_file = r, fr_records = rs\<rparr>)"

lemma poll_config_fields [simp]:
  "pc_source (poll_config env opts source) = source" "pc_object (poll_config env opts source) = ren_object env"
  "pc_decode (poll_config env opts source) = ren_decode env" "pc_timeouts (poll_config env opts source) = ren_timeouts env"
  by (simp_all add: poll_config_def)

lemma seq_file_fetch: "source i = Src_file r \<Longrightarrow> seq_file (poll_config env opts source) i = fetch_result env r"
  by (simp add: seq_file_def fetch_result_def fetch_file_def src_key_def src_ref_def split: option.splits sum.splits)

lemma poll_config_ok: "0 < ren_pool env \<Longrightarrow> poll_cfg_ok (poll_config env opts source)"
  by (auto simp: poll_cfg_ok_def poll_config_def)

text \<open>What the pipeline can deliver from a source that begins with the files \<open>rs\<close>.\<close>

lemma poll_emits:
  assumes "pollFetchAndDecodeIter env opts source results en" "0 < ren_pool env"
    "\<And>i. i < length rs \<Longrightarrow> source i = Src_file (rs ! i)" "\<And>r. source (length rs) \<noteq> Src_file r"
  shows "\<exists>n \<le> length rs. map Inr results = map (fetch_result env) (take n rs)
    \<and> (\<not> ren_timeouts env \<and> en = Ended \<longrightarrow> n = length rs)"
proof -
  let ?cfg = "poll_config env opts source"
  obtain s where s: "poll_reach ?cfg s" "pl_out s = results" "pl_end s = Some en"
    using assms(1) by (auto simp: pollFetchAndDecodeIter_def Let_def)
  have w: "0 < pc_workers ?cfg" using poll_config_ok [OF assms(2)] by (simp add: poll_cfg_ok_def)
  have src: "pc_source ?cfg = source" "pc_timeouts ?cfg = ren_timeouts env" by (simp_all add: poll_config_def)
  have o: "order_inv ?cfg s" by (rule order_reach [OF s(1) w])
  obtain k where k: "(pstep ?cfg ^^ k) poll_start s" using s(1) by (induction rule: poll_reach.induct) (auto intro: relpowp_0_I relpowp_Suc_I)
  have "\<And>r. pc_source ?cfg (length rs) \<noteq> Src_file r" using assms(4) src by simp
  from poll_runs_bounded [OF k w this] have "pl_fi s \<le> length rs" by (simp add: in_source_def)
  then have n: "length results \<le> length rs" using o s(2) by (simp add: order_inv_def)
  have "map Inr results = map (seq_file ?cfg) [0..<length results]" using o s(2) by (simp add: order_inv_def)
  also have "\<dots> = map (\<lambda>i. fetch_result env (rs ! i)) [0..<length results]"
    using n assms(3) by (intro map_cong) (auto intro: seq_file_fetch)
  also have "\<dots> = map (fetch_result env) (take (length results) rs)"
    using n by (intro nth_equalityI) auto
  finally have m: "map Inr results = map (fetch_result env) (take (length results) rs)" .
  have "length results = length rs" if "\<not> ren_timeouts env" "en = Ended"
  proof (rule ccontr)
    assume "length results \<noteq> length rs"
    then have "source (length results) = Src_file (rs ! length results)" using n assms(3) by simp
    moreover have "poll_inv ?cfg s" using poll_inv_reach [OF s(1) _ w] src(2) that(1) by simp
    ultimately show False using s(2,3) that(2) src(1) by (auto simp: poll_inv_def source_over_def)
  qed
  with m n show ?thesis by blast
qed

definition collect_view :: "'y list \<times> records_error option \<Rightarrow> (records_error + 'y) list" where
  "collect_view acc = map Inr (fst acc) @ (case snd acc of None \<Rightarrow> [] | Some e \<Rightarrow> [Inl e])"

interpretation feed_acc: emitter pollCollectEmit collect_view "\<lambda>r. [r]" "\<lambda>e. [Inl (Rec_pipe e)]" "\<lambda>acc. snd acc = None"
  by unfold_locales (auto simp: pollCollectEmit_def collect_view_def)

interpretation feed_iter: emitter "pollIterEmit wants" "\<lambda>ys. ys" "\<lambda>r. [r]" "\<lambda>e. if isCtx e then [] else [Inl (Rec_pipe e)]" "\<lambda>_. True"
  for wants
  by unfold_locales (auto simp: pollIterEmit_def Let_def intro: exI [of _ "[_]"])

lemma collect_run:
  "emit_run pollCollectEmit (acc, None) results en = Some (out, err) \<Longrightarrow>
   en \<noteq> Broke \<and> out = acc @ results \<and> (err = None \<longleftrightarrow> en = Ended)"
proof (induction results arbitrary: acc)
  case (Cons a results)
  then show ?case using Cons.IH [of "acc @ [a]"] by (simp add: pollCollectEmit_def)
qed (auto simp: pollCollectEmit_def split: ending.splits)

lemma collect_all: "emit_run pollCollectEmit (acc, None) results Ended = Some (acc @ results, None)"
  by (induction results arbitrary: acc) (simp_all add: pollCollectEmit_def)

lemma slice_source: "i < length rs \<Longrightarrow> sliceToSeq2 rs i = Src_file (rs ! i)" "sliceToSeq2 rs (length rs) \<noteq> Src_file r"
  by (simp_all add: sliceToSeq2_def)

lemma PollRecords_result:
  assumes "good_feed st db" "since < until" "0 < ren_pool env" "\<not> ren_timeouts env" "until \<le> sql_offset_latest db + 1"
    and p: "PollRecords st env fail db since until opts (out, next, err)"
  shows "if err = None then map Inr out = map (fetch_result env) (refs st db since until)
      \<and> next = (if out = [] then since else until) else out = [] \<and> next = since"
proof -
  let ?refs = "refs st db since until"
  show ?thesis
  proof (cases fail)
    case (Some e)
    then show ?thesis using p assms(2) by (auto simp: PollRecords_def Poll_def)
  next
    case None
    obtain nx where nx: "Poll st None db since until = (?refs, nx, None)" "?refs \<noteq> [] \<Longrightarrow> nx = min until (sql_offset_latest db + 1)"
      using Poll_page [OF assms(1,2)] by metis
    show ?thesis
    proof (cases "?refs = []")
      case True
      have "nx = since" using nx(1) True Poll_eq [OF _ _ assms(2), of st db] assms(1) by (simp add: good_feed_def)
      then show ?thesis using p nx(1) None True by (simp add: PollRecords_def)
    next
      case False
      obtain results en out' err' where r:
        "pollFetchAndDecodeIter env (pollCollectDefaults (ren_pool env) (ren_procs env) (int (length ?refs)) (resolvePollOpts opts))
            (sliceToSeq2 ?refs) results en"
        "emit_run pollCollectEmit ([], None) results en = Some (out', err')"
        "(out, next, err) = (case err' of Some e \<Rightarrow> ([], since, Some e) | None \<Rightarrow> (out', nx, None))"
        using p nx(1) None False by (auto simp: PollRecords_def)
      from collect_run [OF r(2)] have c: "out' = results" "err' = None \<longleftrightarrow> en = Ended" by simp_all
      from poll_emits [OF r(1) assms(3) slice_source] obtain n where
        n: "map Inr results = map (fetch_result env) (take n ?refs)" "en = Ended \<longrightarrow> n = length ?refs" using assms(4) by auto
      show ?thesis
      proof (cases err')
        case e: None
        then have all: "map Inr results = map (fetch_result env) ?refs" using c n by simp
        then have "results \<noteq> []" using False by auto
        then show ?thesis using r(3) e all c(1) nx(2) [OF False] assms(5) by simp
      qed (use r(3) in simp)
    qed
  qed
qed

lemma PollRecordsIter_result:
  assumes "0 < ren_pool env" "PollIter st opts envs since until = Some (map Yield rs)"
    and "PollRecordsIter st env envs since until opts wants ys"
  shows "\<exists>n frs tail. map Inr frs = map (fetch_result env) (take n rs) \<and> ys = map Inr frs @ tail
    \<and> (tail = [] \<or> (\<exists>e. tail = [Inl (Rec_pipe e)]))"
proof -
  let ?refs = rs
  note assms(3)
  moreover note assms(2)
  ultimately obtain results en where r:
    "pollFetchAndDecodeIter env (pollIterDefaults (resolvePollOpts opts)) (iter_source (map Yield ?refs)) results en"
    "emit_run (pollIterEmit wants) [] results en = Some ys" by (auto simp: PollRecordsIter_def)
  have "\<exists>n \<le> length ?refs. map Inr results = map (fetch_result env) (take n ?refs) \<and> (\<not> ren_timeouts env \<and> en = Ended \<longrightarrow> n = length ?refs)"
    by (rule poll_emits [OF r(1) assms(1)]) (simp_all add: iter_source_def)
  then obtain n where n: "map Inr results = map (fetch_result env) (take n ?refs)" by blast
  from feed_iter.delivers [OF r(2)] obtain us zs where u: "results = us @ zs"
    "ys = map Inr us @ (case en of Failed e \<Rightarrow> if isCtx e then [] else [Inl (Rec_pipe e)] | _ \<Rightarrow> [])" by auto
  have "map Inr us = map (fetch_result env) (take (length us) (take n ?refs))"
    using arg_cong [OF n, of "take (length us)"] u(1) by (simp add: take_map)
  then show ?thesis
    using u(2) by (intro exI [of _ "min (length us) n"] exI [of _ us]
        exI [of _ "case en of Failed e \<Rightarrow> if isCtx e then [] else [Inl (Rec_pipe e)] | _ \<Rightarrow> []"])
      (auto simp: take_take split: ending.splits)
qed

text \<open>C30.  \<open>PollRecords\<close> returns the records of exactly the sequenced files of the window, in feed order
  and undeduplicated, with the offset to go on from; or an error, nothing, and the offset it was
  given, so that no file is skipped.  \<open>PollRecordsIter\<close> yields a prefix of the same, then at most one
  error, whatever is committed between its pages.  Assumed is that no GET of the poll fails with a context error of its own
  while its context lives, such as a transport timeout: the code would then drop that file and all later ones, report no error and
  return the offset behind them (\<open>PollRecords_timeout_loses\<close>).  Further, the window is not empty and does not reach beyond the
  latest offset at the start (\<open>since < until\<close>, \<open>until\<close> at most one more than that offset); the feed is gap-free and its
  rows complete, and stay so; the pages of the iterator are read without an error; its first page reaches past offset 0; the
  pool has a worker; and the offsets, a page beyond them included, fit 64 signed bits.\<close>

theorem PollRecords_window:
  assumes "good_feed st db" "since < until" "0 < ren_pool env" "\<not> ren_timeouts env"
    "\<And>k. page_ok st db (envs k)" "until \<le> sql_offset_latest db + 1" "- (2 ^ 63) \<le> since"
    "1 < since + page_size (resolvePollOpts opts)" "until + page_size (resolvePollOpts opts) < 2 ^ 63"
  shows "(PollRecords st env fail db since until opts (out, next, err) \<longrightarrow>
       (if err = None then map Inr out = map (fetch_result env) (refs st db since until)
          \<and> next = (if out = [] then since else until) else out = [] \<and> next = since))
    \<and> (PollRecordsIter st env envs since until opts wants ys \<longrightarrow>
       (\<exists>n frs tail. map Inr frs = map (fetch_result env) (take n (refs st db since until)) \<and> ys = map Inr frs @ tail
          \<and> (tail = [] \<or> (\<exists>e. tail = [Inl (Rec_pipe e)]))))"
proof (intro conjI impI)
  assume "PollRecords st env fail db since until opts (out, next, err)"
  then show "if err = None then map Inr out = map (fetch_result env) (refs st db since until)
      \<and> next = (if out = [] then since else until) else out = [] \<and> next = since"
    by (rule PollRecords_result [OF assms(1-4,6)])
next
  assume it: "PollRecordsIter st env envs since until opts wants ys"
  have "PollIter st opts envs since until = Some (map Yield (refs st db since until))"
    using pollIter_loop_refs [OF assms(1,5,6) _ assms(9,2,8,7)] assms(2)
    by (simp add: PollIter_def page_size_def defaultPollPageSize_def)
  then show "\<exists>n frs tail. map Inr frs = map (fetch_result env) (take n (refs st db since until)) \<and> ys = map Inr frs @ tail
      \<and> (tail = [] \<or> (\<exists>e. tail = [Inl (Rec_pipe e)]))"
    by (rule PollRecordsIter_result [OF assms(3) _ it])
qed

text \<open>A feed of one file.\<close>

definition one_catalog :: catalog where
  "one_catalog = \<lparr>c_files = [full_row 1 ''a'' 1], c_partitions = [], c_pending = [], c_mv = (\<lambda>_. []), c_next_id = 2\<rparr>"

definition one_env :: "bool \<Rightarrow> string read_env" where
  "one_env t = \<lparr>ren_pool = 1, ren_procs = 1, ren_object = Some, ren_decode = (\<lambda>b. Inr [b]), ren_timeouts = t\<rparr>"

definition one_page :: page_env where
  "one_page = \<lparr>pg_db = one_catalog, pg_fail = None, pg_done = False\<rparr>"

lemma one_catalog_poll: "Poll demo_store None one_catalog 0 2 = ([poll_file], 2, None)"
  by code_simp

lemma one_catalog_good: "good_feed demo_store one_catalog" "sql_offset_latest one_catalog = 1"
proof -
  have o: "gap_free one_catalog" "sql_offset_latest one_catalog = 1" by code_simp+
  then show "good_feed demo_store one_catalog"
    unfolding good_feed_def rows_complete_def
    by (simp add: o) (simp add: row_complete_def one_catalog_def full_row_def demo_store_def ext_names_def)
  show "sql_offset_latest one_catalog = 1" by (rule o)
qed

lemma one_page_ok: "page_ok demo_store one_catalog one_page"
  using one_catalog_good by (simp add: page_ok_def one_page_def)

lemma one_poll_config: "poll_config (one_env t) (pollCollectDefaults 1 1 1 (resolvePollOpts [])) (sliceToSeq2 [poll_file]) = demo_poll t"
  by (simp add: poll_config_def one_env_def demo_poll_def pollCollectDefaults_def resolvePollOpts_def Let_def)

lemma one_pipeline:
  assumes "rtranclp (pstep (demo_poll t)) poll_start s" "poll_returned (demo_poll t) s" "pl_end s = Some en"
  shows "pollFetchAndDecodeIter (one_env t) (pollCollectDefaults 1 1 1 (resolvePollOpts [])) (sliceToSeq2 [poll_file]) (pl_out s) en"
  using assms poll_reach_run by (auto simp: pollFetchAndDecodeIter_def one_poll_config Let_def)

lemma one_poll_records:
  assumes "rtranclp (pstep (demo_poll t)) poll_start s" "poll_returned (demo_poll t) s" "pl_end s = Some Ended"
  shows "PollRecords demo_store (one_env t) None one_catalog 0 2 [] (pl_out s, 2, None)"
proof -
  have "emit_run pollCollectEmit ([], None) (pl_out s) Ended = Some (pl_out s, None)" by (simp add: collect_all)
  moreover have "ren_pool (one_env t) = 1" "ren_procs (one_env t) = 1" by (simp_all add: one_env_def)
  ultimately show ?thesis using one_pipeline [OF assms]
    unfolding PollRecords_def one_catalog_poll
    by (simp, intro exI [of _ "pl_out s"] exI [of _ Ended]) simp
qed

lemma PollRecords_window_witness:
  "PollRecords demo_store (one_env False) None one_catalog 0 2 [] ([demo_result], 2, None)
   \<and> [Inr demo_result] = map (fetch_result (one_env False)) (refs demo_store one_catalog 0 2)"
proof -
  obtain s where s: "rtranclp (pstep (demo_poll False)) poll_start s" "poll_returned (demo_poll False) s"
    "pl_end s = Some Ended" "pl_out s = [demo_result]" using demo_poll_good by blast
  have r: "PollRecords demo_store (one_env False) None one_catalog 0 2 [] ([demo_result], 2, None)"
    using one_poll_records [OF s(1-3)] s(4) by simp
  have h: "0 < ren_pool (one_env False)" "\<not> ren_timeouts (one_env False)" by (simp_all add: one_env_def)
  have p: "page_size (resolvePollOpts []) = 10000" by code_simp
  from PollRecords_window [OF one_catalog_good(1) _ h one_page_ok, of 0 2 "[]" None "[demo_result]" 2 None "\<lambda>_. False" "[]"] r p
  show ?thesis by (simp add: one_catalog_good(2))
qed

text \<open>Without the hypothesis on the timeouts it is not: when the GET of a file fails with a context
  error of its own, the pipeline stops and reports nothing.  Here \<open>Poll\<close> returns one file, whose
  object is there and decodes, and \<open>PollRecords\<close> may return no record, no error and an offset behind
  that file, from which the consumer that stores it never sees the file again.\<close>

theorem PollRecords_timeout_loses:
  "PollRecords demo_store (one_env True) None one_catalog 0 2 [] ([], 2, None)
   \<and> Poll demo_store None one_catalog 0 2 = ([poll_file], 2, None)
   \<and> fetch_result (one_env True) poll_file = Inr demo_result"
proof (intro conjI)
  obtain s where s: "rtranclp (pstep (demo_poll True)) poll_start s" "poll_returned (demo_poll True) s"
    "pl_end s = Some Ended" "pl_out s = []" using demo_poll_bad by blast
  show "PollRecords demo_store (one_env True) None one_catalog 0 2 [] ([], 2, None)"
    using one_poll_records [OF s(1-3)] s(4) by simp
  show "Poll demo_store None one_catalog 0 2 = ([poll_file], 2, None)" by (rule one_catalog_poll)
  show "fetch_result (one_env True) poll_file = Inr demo_result" by code_simp
qed

end
