(* ===== verification/Rebuild.thy ===== *)
theory Rebuild
  imports Write_Correct
begin

text \<open>
  \<open>cmd/s3pgstore-rebuild/rebuild.go\<close>: the disaster recovery that walks the bucket and
  reconstructs the files and partitions tables.  LIST and HEAD are parameters (\<open>rb_list\<close>, one
  page for a continuation token, and \<open>rb_head\<close>), as are the faults of the two statements.  Every
  statement commits on its own, so an error leaves what was inserted before it.  The walk of the
  pages may not end and is a partial function.  \<open>recoveredFields\<close> is in \<open>Ext_Metadata\<close>.
\<close>

section \<open>Configuration and environment\<close>

record rebuild_config =
  rb_pool :: bool
  rb_client :: bool
  rb_bucket :: string
  rb_prefix :: string
  rb_schema :: string
  rb_table_prefix :: string
  rb_parts :: "string list"
  rb_exts :: "ext_column list"

record list_page =
  lp_contents :: "string option list"
  lp_truncated :: "bool option"
  lp_next :: "string option"

record head_output =
  ho_length :: "int option"
  ho_modified :: "int option"
  ho_meta :: s3_metadata

record rebuild_env =
  rb_codecs :: codecs
  rb_pgx :: "ext_column \<Rightarrow> govalue \<Rightarrow> govalue"
  rb_now :: int
  rb_list :: "string \<Rightarrow> string option \<Rightarrow> string + list_page"
  rb_head :: "string \<Rightarrow> string + head_output"
  rb_insert :: "string \<Rightarrow> sql_error option"
  rb_upsert :: "string \<Rightarrow> sql_error option"

record rebuild_result =
  FilesInserted :: nat
  PartitionsInserted :: nat

datatype rebuild_error =
    Rb_required string
  | Rb_list string
  | Rb_parse string part_error
  | Rb_head string string
  | Rb_ext string parse_error
  | Rb_metadata string
  | Rb_file string sql_error
  | Rb_partition string sql_error

definition validateRebuildConfig :: "rebuild_config \<Rightarrow> rebuild_error option" where
  "validateRebuildConfig cfg =
     (if \<not> rb_pool cfg then Some (Rb_required ''Pool'')
      else if \<not> rb_client cfg then Some (Rb_required ''S3Client'')
      else if rb_bucket cfg = [] then Some (Rb_required ''S3Bucket'')
      else if rb_schema cfg = [] then Some (Rb_required ''SchemaName'')
      else if rb_table_prefix cfg = [] then Some (Rb_required ''TablePrefix'')
      else if rb_parts cfg = [] then Some (Rb_required ''PartitionKeyParts'')
      else None)"

definition dataPrefixOf :: "string \<Rightarrow> string" where
  "dataPrefixOf s3Prefix = (if s3Prefix = [] then ''data/'' else s3Prefix @ ''/data/'')"

section \<open>The walk\<close>

definition page_keys :: "list_page \<Rightarrow> string list" where
  "page_keys p = filter (\<lambda>k. has_suffix k ''.parquet'') (map the (filter (\<lambda>k. k \<noteq> None) (lp_contents p)))"

partial_function (option) listAllKeys ::
  "(string option \<Rightarrow> string + list_page) \<Rightarrow> string option \<Rightarrow> string list \<Rightarrow> (string + string list) option" where
  "listAllKeys pages token out =
     (case pages token of
        Inl e \<Rightarrow> Some (Inl e)
      | Inr p \<Rightarrow>
          (let out' = out @ page_keys p in
           if lp_truncated p \<noteq> Some True then Some (Inr out') else listAllKeys pages (lp_next p) out'))"

declare listAllKeys.simps [code]

record partition_group =
  gr_key :: string
  gr_values :: "string list"
  gr_keys :: "string list"

text \<open>One object: \<open>byKey\<close> is an association list.\<close>

definition group_key :: "string \<Rightarrow> string list \<Rightarrow> string \<Rightarrow> (string \<times> partition_group) list
    \<Rightarrow> rebuild_error + (string \<times> partition_group) list" where
  "group_key dataPrefix parts k byKey =
     (if \<not> has_prefix k dataPrefix then Inr byKey
      else let rest = drop (length dataPrefix) k in
        case last_index_byte CHR ''/'' rest of
          None \<Rightarrow> Inr byKey
        | Some slash \<Rightarrow>
            if slash = 0 then Inr byKey
            else let partKey = take slash rest in
              case PartitionKeyValues partKey parts of
                Inl e \<Rightarrow> Inl (Rb_parse k e)
              | Inr vals \<Rightarrow>
                  (let g = (case map_of byKey partKey of
                       None \<Rightarrow> \<lparr>gr_key = partKey, gr_values = vals, gr_keys = []\<rparr> | Some g \<Rightarrow> g)
                   in Inr (map_put partKey (g\<lparr>gr_keys := gr_keys g @ [k]\<rparr>) byKey)))"

fun group_loop :: "string \<Rightarrow> string list \<Rightarrow> string list \<Rightarrow> (string \<times> partition_group) list
    \<Rightarrow> rebuild_error + (string \<times> partition_group) list" where
  "group_loop dataPrefix parts [] byKey = Inr byKey"
| "group_loop dataPrefix parts (k # ks) byKey =
     (case group_key dataPrefix parts k byKey of
        Inl e \<Rightarrow> Inl e | Inr byKey' \<Rightarrow> group_loop dataPrefix parts ks byKey')"

definition groupByPartition :: "string list \<Rightarrow> string \<Rightarrow> string list \<Rightarrow> rebuild_error + partition_group list" where
  "groupByPartition keys dataPrefix parts =
     (case group_loop dataPrefix parts keys [] of
        Inl e \<Rightarrow> Inl e
      | Inr byKey \<Rightarrow> Inr (sort_key gr_key (map snd byKey)))"

section \<open>The statements\<close>

text \<open>\<open>INSERT ... ON CONFLICT (s3_key) DO NOTHING\<close>: the rows affected.  Another constraint still
  fails the statement.\<close>

definition sql_files_recover :: "int \<Rightarrow> string list \<Rightarrow> sqlval list \<Rightarrow> catalog \<Rightarrow> (sql_error + nat) \<times> catalog" where
  "sql_files_recover now cols args db =
     (let db' = db\<lparr>c_next_id := c_next_id db + 1\<rparr> in
      case assign_cols cols args (blank_file (c_next_id db) now) of
        None \<Rightarrow> (Inl Bad_argument, db)
      | Some r \<Rightarrow>
          if \<exists>s \<in> set (c_files db). f_s3_key s = f_s3_key r then (Inr 0, db')
          else if \<exists>s \<in> set (c_files db). token_clash r s then (Inl (Unique_violation ''token''), db')
          else (Inr 1, db'\<lparr>c_files := c_files db @ [r]\<rparr>))"

text \<open>\<open>INSERT ... ON CONFLICT (partition_key) DO UPDATE\<close> affects one row either way.\<close>

definition sql_partition_recover ::
  "int \<Rightarrow> string list \<Rightarrow> string \<Rightarrow> string list \<Rightarrow> int \<Rightarrow> int \<Rightarrow> catalog \<Rightarrow> nat \<times> catalog" where
  "sql_partition_recover now parts key vals version fileCount db =
     (1, case part_find key (c_partitions db) of
        None \<Rightarrow> db\<lparr>c_partitions := c_partitions db @
             [\<lparr>p_partition_key = key, p_part = map_of (zip parts vals), p_version = version,
               p_file_count = fileCount, p_updated_at = now\<rparr>]\<rparr>
      | Some p \<Rightarrow> db\<lparr>c_partitions := part_update key
             (\<lambda>p. p\<lparr>p_version := version, p_file_count := fileCount, p_updated_at := now\<rparr>) (c_partitions db)\<rparr>)"

text \<open>The columns and arguments that the recovered fields give.\<close>

definition recovered_cols :: "rebuild_config \<Rightarrow> head_output \<Rightarrow> recovered_fields \<Rightarrow> metadata \<Rightarrow> string list" where
  "recovered_cols cfg head rec exts =
     [''partition_key'', ''s3_key'', ''written_at_version'', ''file_size'', ''uncompressed_size'', ''record_count'']
     @ (case ho_modified head of None \<Rightarrow> [] | Some t \<Rightarrow> [''written_at''])
     @ (if rf_token rec \<noteq> [] then [''idempotency_token''] else [])
     @ map part_col (rb_parts cfg)
     @ map (\<lambda>c. ext_col (ec_name c)) (filter (\<lambda>c. map_of exts (ec_name c) \<noteq> None) (rb_exts cfg))"

definition recovered_args ::
  "rebuild_config \<Rightarrow> rebuild_env \<Rightarrow> string \<Rightarrow> string \<Rightarrow> string list \<Rightarrow> head_output \<Rightarrow> recovered_fields \<Rightarrow> metadata
   \<Rightarrow> sqlval list" where
  "recovered_args cfg env s3Key partitionKey partValues head rec exts =
     [TextV partitionKey, TextV s3Key, BigInt (rf_version rec),
      BigInt (case ho_length head of None \<Rightarrow> 0 | Some n \<Rightarrow> n),
      BigInt (rf_uncompressedSize rec), BigInt (rf_recordCount rec)]
     @ (case ho_modified head of None \<Rightarrow> [] | Some t \<Rightarrow> [TimeV t])
     @ (if rf_token rec \<noteq> [] then [TextV (rf_token rec)] else [])
     @ map (\<lambda>i. TextV (partValues ! i)) [0..<length (rb_parts cfg)]
     @ map (\<lambda>c. ext_sql (rb_pgx env c (the (map_of exts (ec_name c)))))
         (filter (\<lambda>c. map_of exts (ec_name c) \<noteq> None) (rb_exts cfg))"

text \<open>The version used and whether a row was inserted.\<close>

definition insertFileRow ::
  "rebuild_config \<Rightarrow> rebuild_env \<Rightarrow> string \<Rightarrow> string \<Rightarrow> string list \<Rightarrow> int \<Rightarrow> catalog
   \<Rightarrow> (rebuild_error + int \<times> bool) \<times> catalog" where
  "insertFileRow cfg env s3Key partitionKey partValues fallbackVersion db =
     (case rb_head env s3Key of
        Inl e \<Rightarrow> (Inl (Rb_head s3Key e), db)
      | Inr head \<Rightarrow>
         (let rec = newRecoveredFields (ho_meta head) (rb_exts cfg) fallbackVersion in
          case parseExtValues (rb_codecs env) rec (rb_exts cfg) of
            Inl e \<Rightarrow> (Inl (Rb_ext s3Key e), db)
          | Inr exts \<Rightarrow>
              if \<not> hasFooterFields rec then (Inl (Rb_metadata s3Key), db)
              else case rb_insert env s3Key of
                Some e \<Rightarrow> (Inl (Rb_file s3Key e), db)
              | None \<Rightarrow>
                 (case sql_files_recover (rb_now env) (recovered_cols cfg head rec exts)
                         (recovered_args cfg env s3Key partitionKey partValues head rec exts) db of
                    (Inl e, db') \<Rightarrow> (Inl (Rb_file s3Key e), db')
                  | (Inr n, db') \<Rightarrow> (Inr (rf_version rec, n > 0), db'))))"

definition upsertPartitionRow ::
  "rebuild_config \<Rightarrow> rebuild_env \<Rightarrow> string \<Rightarrow> string list \<Rightarrow> int \<Rightarrow> int \<Rightarrow> catalog
   \<Rightarrow> (rebuild_error + bool) \<times> catalog" where
  "upsertPartitionRow cfg env partitionKey partValues maxVersion fileCount db =
     (case rb_upsert env partitionKey of
        Some e \<Rightarrow> (Inl (Rb_partition partitionKey e), db)
      | None \<Rightarrow>
         (case sql_partition_recover (rb_now env) (rb_parts cfg) partitionKey partValues maxVersion fileCount db of
            (n, db') \<Rightarrow> (Inr (n > 0), db')))"

section \<open>Rebuild\<close>

text \<open>The loop over the objects of a partition: \<open>(filesAdded, maxVersion)\<close>.\<close>

fun file_loop ::
  "rebuild_config \<Rightarrow> rebuild_env \<Rightarrow> partition_group \<Rightarrow> nat \<Rightarrow> string list \<Rightarrow> nat \<times> int \<Rightarrow> catalog
   \<Rightarrow> (rebuild_error + nat \<times> int) \<times> catalog" where
  "file_loop cfg env g i [] acc db = (Inr acc, db)"
| "file_loop cfg env g i (k # ks) (filesAdded, maxVersion) db =
     (case insertFileRow cfg env k (gr_key g) (gr_values g) (int i + 1) db of
        (Inl e, db') \<Rightarrow> (Inl e, db')
      | (Inr (version, ok), db') \<Rightarrow>
          file_loop cfg env g (Suc i) ks
            (if ok then filesAdded + 1 else filesAdded, if version > maxVersion then version else maxVersion) db')"

fun group_inserts ::
  "rebuild_config \<Rightarrow> rebuild_env \<Rightarrow> partition_group list \<Rightarrow> rebuild_result \<Rightarrow> catalog
   \<Rightarrow> rebuild_error option \<times> rebuild_result \<times> catalog" where
  "group_inserts cfg env [] res db = (None, res, db)"
| "group_inserts cfg env (g # gs) res db =
     (case file_loop cfg env g 0 (sort (gr_keys g)) (0, 0) db of
        (Inl e, db1) \<Rightarrow> (Some e, res, db1)
      | (Inr (filesAdded, maxVersion), db1) \<Rightarrow>
         (let res1 = res\<lparr>FilesInserted := FilesInserted res + filesAdded\<rparr> in
          case upsertPartitionRow cfg env (gr_key g) (gr_values g) maxVersion (int (length (gr_keys g))) db1 of
            (Inl e, db2) \<Rightarrow> (Some e, res1, db2)
          | (Inr ok, db2) \<Rightarrow>
              group_inserts cfg env gs
                (if ok then res1\<lparr>PartitionsInserted := PartitionsInserted res1 + 1\<rparr> else res1) db2))"

definition no_rows :: rebuild_result where
  "no_rows = \<lparr>FilesInserted = 0, PartitionsInserted = 0\<rparr>"

definition Rebuild ::
  "rebuild_config \<Rightarrow> rebuild_env \<Rightarrow> catalog \<Rightarrow> (rebuild_error option \<times> rebuild_result \<times> catalog) option" where
  "Rebuild cfg env db =
     (case validateRebuildConfig cfg of
        Some e \<Rightarrow> Some (Some e, no_rows, db)
      | None \<Rightarrow>
         (let dataPrefix = dataPrefixOf (rb_prefix cfg) in
          case listAllKeys (rb_list env dataPrefix) None [] of
            None \<Rightarrow> None
          | Some (Inl e) \<Rightarrow> Some (Some (Rb_list e), no_rows, db)
          | Some (Inr keys) \<Rightarrow>
             (case groupByPartition keys dataPrefix (rb_parts cfg) of
                Inl e \<Rightarrow> Some (Some e, no_rows, db)
              | Inr groups \<Rightarrow> Some (group_inserts cfg env groups no_rows db))))"

end
