(* ===== verification/Write_Backed.thy ===== *)
theory Write_Backed
  imports Write_Correct
begin

text \<open>
  Relations between a files row and its object that writes keep.  \<open>backed P w\<close> says that every row of the
  catalog has its object in the bucket and that \<open>P\<close> holds of the two.  A write keeps it as soon as \<open>P\<close>
  holds of the row and the object it makes, however the write fails: this is proved once, here, and used for
  the user-metadata of the objects (\<open>Rebuild_Correct\<close>) and for their contents (\<open>Write_Read\<close>).
\<close>

definition backed :: "(s3_object \<Rightarrow> file_row \<Rightarrow> bool) \<Rightarrow> world \<Rightarrow> bool" where
  "backed P w \<longleftrightarrow> (\<forall>r \<in> set (c_files (wd_db w)). \<exists>obj. wd_s3 w (f_s3_key r) = Some obj \<and> P obj r)"

definition has_row :: "catalog \<Rightarrow> string \<Rightarrow> string \<Rightarrow> bool" where
  "has_row db k key \<longleftrightarrow> (\<exists>r \<in> set (c_files db). f_s3_key r = k \<and> f_partition_key r = key)"

lemma prepare_encodes:
  "prepare_write st env key recs w = Inr (m, b, us, k, db) \<Longrightarrow> e_encode env recs = Inr (b, us)"
  by (auto simp: prepare_write_def split: sum.splits option.splits)

lemma PartitionKeyValues_len: "PartitionKeyValues key parts = Inr vals \<Longrightarrow> length vals = length parts"
proof -
  assume ok: "PartitionKeyValues key parts = Inr vals"
  then have "length (split_on CHR ''/'' key) = length parts" "partition_segs 0 (split_on CHR ''/'' key) parts = Inr vals"
    by (auto simp: PartitionKeyValues_def Let_def split: if_splits)
  then show ?thesis using partition_segs_Inr split_on_no_sep by blast
qed

lemma backed_frame:
  assumes "backed P w" "c_files (wd_db w') = c_files (wd_db w)" "\<And>k. k \<in> file_keys w \<Longrightarrow> wd_s3 w' k = wd_s3 w k"
  shows "backed P w'"
  using assms unfolding backed_def file_keys_def by (metis imageI)

lemma backed_commit:
  assumes "backed P w" "k \<notin> file_keys w" "c_files (wd_db w') = c_files (wd_db w) @ [r]" "f_s3_key r = k"
    "wd_s3 w' = (wd_s3 w)(k \<mapsto> obj)" "P obj r"
  shows "backed P w'"
  unfolding backed_def assms(3)
proof
  fix s assume "s \<in> set (c_files (wd_db w) @ [r])"
  then consider "s \<in> set (c_files (wd_db w))" | "s = r" by auto
  then show "\<exists>obj. wd_s3 w' (f_s3_key s) = Some obj \<and> P obj s"
  proof cases
    case 1
    then have "f_s3_key s \<noteq> k" using assms(2) by (auto simp: file_keys_def)
    with 1 assms(1,5) show ?thesis by (auto simp: backed_def)
  qed (use assms(4-6) in simp)
qed

text \<open>What the proofs use of \<open>backed P\<close>: an invariant that depends on the rows and their objects only, and that a new row with a new
  object keeps if the two satisfy \<open>P\<close>.\<close>

locale file_invariant =
  fixes I :: "world \<Rightarrow> bool" and P :: "s3_object \<Rightarrow> file_row \<Rightarrow> bool"
  assumes frame: "I w \<Longrightarrow> c_files (wd_db w') = c_files (wd_db w) \<Longrightarrow> (\<And>k. k \<in> file_keys w \<Longrightarrow> wd_s3 w' k = wd_s3 w k) \<Longrightarrow> I w'"
    and commit: "I w \<Longrightarrow> k \<notin> file_keys w \<Longrightarrow> c_files (wd_db w') = c_files (wd_db w) @ [r] \<Longrightarrow> f_s3_key r = k
      \<Longrightarrow> wd_s3 w' = (wd_s3 w)(k \<mapsto> obj) \<Longrightarrow> P obj r \<Longrightarrow> I w'"

text \<open>What \<open>P\<close> has to say of the rows that a call of \<open>writePartition\<close> may insert.\<close>

definition writes_backed ::
  "(s3_object \<Rightarrow> file_row \<Rightarrow> bool) \<Rightarrow> 'a store \<Rightarrow> 'a env \<Rightarrow> string \<Rightarrow> string list \<Rightarrow> 'a list \<Rightarrow> 'a write_opts \<Rightarrow> bool" where
  "writes_backed P st env key vals recs o1 \<longleftrightarrow>
     (\<forall>body us uuid token v md fid. e_encode env recs = Inr (body, us) \<longrightarrow> e_uuid env = Inr uuid
        \<longrightarrow> BuildS3Metadata (e_codecs env) token (int (length recs)) us v (st_exts st) (wo_metadata o1) = Inr md
        \<longrightarrow> P \<lparr>so_body = body, so_meta = md\<rparr>
             (new_row st (e_pgx env) fid (e_now env) (fi_of o1 key vals token (dataKey st key uuid) body us (int (length recs)) v)))"

lemma lookup_ref_row:
  assumes "lookupTokenFileRef st f db key token = Inr (Some ref)"
  shows "has_row db (S3Key ref) key"
proof -
  obtain row rows where "sql_idempotency_lookup (ext_names st) key token db = row # rows"
    and scan: "scan_file_ref (ext_names st) row = Inr ref"
    using assms by (auto simp: lookupTokenFileRef_def split: option.splits list.splits sum.splits)
  then obtain r where r: "row = project (file_ref_cols (ext_names st)) r"
    "r \<in> set (filter (\<lambda>r. f_partition_key r = key \<and> f_token r = Some token) (c_files db))"
    unfolding sql_idempotency_lookup_def by (metis (no_types, lifting) list.set_intros(1) map_eq_Cons_D)
  have "S3Key ref = f_s3_key r"
    using scan unfolding r(1) by (auto simp: scan_file_ref_def project_def file_ref_cols_def and_then_Inr
        file_col_def [of "''s3_key''"] split: if_splits)
  with r(2) show ?thesis by (auto simp: has_row_def)
qed

context file_invariant
begin

text \<open>The transaction: the row it commits has the object of its PUT.\<close>

lemma run_write_tx_inv:
  assumes "wf_store st" "length vals = length (st_parts st)"
    and "run_write_tx env (write_tx_body st env o1 key vals token s3Key body us rc mvRows) w = (res, put, w2)"
    and "I w"
    and P: "\<And>v md fid. BuildS3Metadata (e_codecs env) token rc us v (st_exts st) (wo_metadata o1) = Inr md
      \<Longrightarrow> P \<lparr>so_body = body, so_meta = md\<rparr> (new_row st (e_pgx env) fid (e_now env) (fi_of o1 key vals token s3Key body us rc v))"
  shows "I w2"
    and "res = Inr (v, fid, at) \<Longrightarrow> has_row (wd_db w2) s3Key key"
proof -
  let ?t = "write_tx_body st env o1 key vals token s3Key body us rc mvRows w"
  note tx_frame = write_tx_body_frame [OF assms(1,2), where w = w and env = env and opts = o1 and key = key and
      token = token and s3Key = s3Key and body = body and us = us and rc = rc and mvRows = mvRows]
  have rolled: "I (w\<lparr>wd_db := rollback (wd_db w) (tx_db ?t), wd_s3 := tx_s3 ?t\<rparr>)"
    using tx_frame(2) by (intro frame [OF assms(4)]) (auto simp: rollback_def file_keys_def)
  have comm: "I (w\<lparr>wd_db := tx_db ?t, wd_s3 := tx_s3 ?t, wd_notified := n\<rparr>)"
      "has_row (tx_db ?t) s3Key key"
    if tx: "tx_res ?t = Inr (v, fid, at, ns)" for v fid at ns n
  proof -
    let ?r = "new_row st (e_pgx env) (c_next_id (wd_db w)) (e_now env) (fi_of o1 key vals token s3Key body us rc v)"
    obtain ps m md where *: "\<forall>s \<in> set (c_files (wd_db w)). f_s3_key s \<noteq> s3Key \<and> \<not> token_clash ?r s"
      "tx_db ?t = committed (wd_db w) ?r ps m" "tx_s3 ?t = (wd_s3 w)(s3Key \<mapsto> \<lparr>so_body = body, so_meta = md\<rparr>)"
      "BuildS3Metadata (e_codecs env) token rc us v (st_exts st) (wo_metadata o1) = Inr md"
      using write_tx_body_ok [OF assms(1,2) tx] by blast
    have keys: "f_s3_key ?r = s3Key" "f_partition_key ?r = key" by (simp_all add: fi_of_def)
    have "s3Key \<notin> file_keys w" using *(1) by (auto simp: file_keys_def)
    from commit [OF assms(4) this _ keys(1), of "w\<lparr>wd_db := tx_db ?t, wd_s3 := tx_s3 ?t, wd_notified := n\<rparr>"]
    show "I (w\<lparr>wd_db := tx_db ?t, wd_s3 := tx_s3 ?t, wd_notified := n\<rparr>)"
      using *(2,3) P [OF *(4)] by (simp add: committed_def)
    show "has_row (tx_db ?t) s3Key key"
      using *(2) keys by (simp add: committed_def has_row_def)
  qed
  note cases = assms(3) [unfolded run_write_tx_def Let_def]
  show "I w2" using cases rolled comm(1) assms(4)
    by (auto split: option.splits sum.splits commit_outcome.splits)
  show "has_row (wd_db w2) s3Key key" if "res = Inr (v, fid, at)"
    using cases comm(2) that by (auto split: option.splits sum.splits commit_outcome.splits)
qed

lemma write_fresh_inv:
  assumes "wf_store st" "length vals = length (st_parts st)" "I w"
    and others: "\<And>n w. I w \<Longrightarrow> I (e_others env n w)"
    and "writes_backed P st env key vals recs o1"
    and "write_fresh st env o1 key vals token recs w = (res, w')"
  shows "I w'" "res = Inr ref \<Longrightarrow> has_row (wd_db w') (S3Key ref) key"
proof -
  have "I w' \<and> (res = Inr ref \<longrightarrow> has_row (wd_db w') (S3Key ref) key)"
  proof (cases "prepare_write st env key recs w")
    case (Inl e)
    with assms(3,6) show ?thesis by (auto simp: write_fresh_def)
  next
    case (Inr prep)
    obtain mvRows body us uuid db0 where prep: "prep = (mvRows, body, us, dataKey st key uuid, db0)"
      and uuid: "e_uuid env = Inr uuid" and ins: "sql_pending_insert (e_now env) (dataKey st key uuid) (wd_db w) = Inr db0"
      using Inr by (rule prepare_write_Inr)
    have us: "e_encode env recs = Inr (body, us)"
      using Inr prep by (auto simp: prepare_write_def split: sum.splits option.splits)
    have "c_files db0 = c_files (wd_db w)" using ins by (auto simp: sql_pending_insert_def split: if_splits)
    then have w1: "I (e_others env 1 (w\<lparr>wd_db := db0\<rparr>))" by (intro others frame [OF assms(3)]) simp_all
    obtain tres put w2 where run: "run_write_tx env (write_tx_body st env o1 key vals token (dataKey st key uuid) body us
        (int (length recs)) mvRows) (e_others env 1 (w\<lparr>wd_db := db0\<rparr>)) = (tres, put, w2)" by (metis prod_cases3)
    note tx = run_write_tx_inv [OF assms(1,2) run w1 assms(5) [unfolded writes_backed_def, rule_format, OF us uuid]]
    have w3: "I (w2\<lparr>wd_db := sql_pending_delete k (wd_db w2)\<rparr>)" for k
      by (rule frame [OF tx(1)]) (simp_all add: sql_pending_delete_def)
    show ?thesis
    proof (cases tres)
      case (Inr x)
      then show ?thesis using tx assms(6)
        by (cases x) (auto simp: write_fresh_def \<open>prepare_write st env key recs w = Inr prep\<close> prep run Let_def simp del: One_nat_def)
    next
      case (Inl e)
      then show ?thesis using others [OF tx(1)] others [OF w3] assms(6)
        by (auto simp: write_fresh_def \<open>prepare_write st env key recs w = Inr prep\<close> prep run Let_def translateWriteTxErr_def
            simp del: One_nat_def dest!: lookup_ref_row split: tx_error.splits sum.splits option.splits if_splits)
    qed
  qed
  then show "I w'" "res = Inr ref \<Longrightarrow> has_row (wd_db w') (S3Key ref) key"
    by blast+
qed

text \<open>The whole write, with the row of the file it returns, its own or the one an earlier call made.\<close>

lemma writePartition_inv:
  assumes "wf_store st" "length vals = length (st_parts st)" "I w"
    and others: "\<And>n w. I w \<Longrightarrow> I (e_others env n w)"
    and "writes_backed P st env key vals recs o1"
    and "writePartition st env key vals recs o1 w = (res, w')"
  shows "I w' \<and> (\<forall>ref. res = Inr ref \<longrightarrow> has_row (wd_db w') (S3Key ref) key)"
proof (cases "resolveTokenForPartition recs o1")
  case (Inl e)
  with assms(3,6) show ?thesis by (auto simp: writePartition_def)
next
  case (Inr token)
  note fresh = write_fresh_inv [OF assms(1,2) _ others assms(5)]
  show ?thesis
  proof (cases "token = []")
    case True
    with Inr assms(6) have "write_fresh st env o1 key vals token recs w = (res, w')" by (simp add: writePartition_def)
    from fresh [OF assms(3) _ this] show ?thesis by blast
  next
    case False
    show ?thesis
    proof (cases "lookupTokenFileRef st (e_lookup env) (wd_db w) key token")
      case (Inl e)
      with Inr False assms(3,6) show ?thesis by (cases e) (auto simp: writePartition_def)
    next
      case found: (Inr x)
      show ?thesis
      proof (cases x)
        case None
        with Inr False found assms(6) have "write_fresh st env o1 key vals token recs (e_others env 0 w) = (res, w')"
          by (simp add: writePartition_def)
        from fresh [OF others [OF assms(3)] _ this] show ?thesis by blast
      next
        case (Some ref)
        with Inr False found assms(6) have "res = Inr ref" "w' = w" by (simp_all add: writePartition_def)
        with lookup_ref_row [OF found [unfolded Some]] assms(3) show ?thesis by simp
      qed
    qed
  qed
qed

end

interpretation backed_inv: file_invariant "backed P" P for P
  by unfold_locales (rule backed_frame, assumption+, rule backed_commit)

lemmas write_fresh_backed = backed_inv.write_fresh_inv
lemmas writePartition_backed = backed_inv.writePartition_inv

end
