(* ===== verification/Rebuild_Correct.thy ===== *)
theory Rebuild_Correct
  imports Rebuild Write_Backed
begin

text \<open>
  The rebuild brings the catalog back from the bucket alone.  \<open>recorded\<close> is the invariant that makes
  this possible: every files row is described by the user-metadata of its object; writes keep it.
  A row comes back as \<open>revived\<close>: with a new id and time and without its place in the feed.
  \<open>restoring\<close> holds of every intermediate catalog, \<open>restored\<close> of the final one.
\<close>

section \<open>What an object records\<close>

definition in_int64 :: "int \<Rightarrow> bool" where
  "in_int64 i \<longleftrightarrow> - (2 ^ 63) \<le> i \<and> i < 2 ^ 63"

text \<open>The arguments of the insert that made the row, and the object's metadata.\<close>

definition insert_recorded :: "'a store \<Rightarrow> codecs \<Rightarrow> s3_object \<Rightarrow> file_insert_opts \<Rightarrow> bool" where
  "insert_recorded st cd obj fi \<longleftrightarrow>
     PartitionKeyValues (fi_partition_key fi) (st_parts st) = Inr (fi_part_values fi)
     \<and> (\<exists>uuid. fi_s3_key fi = dataKey st (fi_partition_key fi) uuid \<and> CHR ''/'' \<notin> set uuid)
     \<and> fi_file_size fi = int (length (so_body obj))
     \<and> 0 < fi_record_count fi \<and> 0 < fi_uncompressed_size fi
     \<and> in_int64 (fi_record_count fi) \<and> in_int64 (fi_uncompressed_size fi)
     \<and> (\<forall>c \<in> set (st_exts st). recoverable cd c (metadataValueFor (fi_metadata fi) c))
     \<and> BuildS3Metadata cd (fi_token fi) (fi_record_count fi) (fi_uncompressed_size fi) (fi_version fi)
         (st_exts st) (fi_metadata fi) = Inr (so_meta obj)"

definition described :: "'a store \<Rightarrow> codecs \<Rightarrow> (ext_column \<Rightarrow> govalue \<Rightarrow> govalue) \<Rightarrow> s3_object \<Rightarrow> file_row \<Rightarrow> bool" where
  "described st cd pgx obj r \<longleftrightarrow>
     (\<exists>fid now fi seq at. r = (new_row st pgx fid now fi)\<lparr>f_feed_seq := seq, f_feed_seq_at := at\<rparr>
        \<and> insert_recorded st cd obj fi)"

definition recorded :: "'a store \<Rightarrow> codecs \<Rightarrow> (ext_column \<Rightarrow> govalue \<Rightarrow> govalue) \<Rightarrow> world \<Rightarrow> bool" where
  "recorded st cd pgx w \<longleftrightarrow>
     (\<forall>r \<in> set (c_files (wd_db w)). \<exists>obj. wd_s3 w (f_s3_key r) = Some obj \<and> described st cd pgx obj r)"

text \<open>The driver stores a value and its canonical form as the same column value.\<close>

definition pgx_canonical :: "codecs \<Rightarrow> (ext_column \<Rightarrow> govalue \<Rightarrow> govalue) \<Rightarrow> bool" where
  "pgx_canonical cd pgx \<longleftrightarrow> (\<forall>c v. v \<noteq> GNil \<longrightarrow> recoverable cd c v \<longrightarrow> pgx c (canon cd c v) = pgx c v)"

section \<open>One object\<close>

definition revived :: "int \<Rightarrow> int \<Rightarrow> file_row \<Rightarrow> file_row" where
  "revived fid t r = r\<lparr>f_file_id := fid, f_written_at := t, f_feed_seq := None, f_feed_seq_at := None\<rparr>"

lemma revived_simps [simp]:
  "f_s3_key (revived fid t r) = f_s3_key r" "f_partition_key (revived fid t r) = f_partition_key r"
  "f_token (revived fid t r) = f_token r" "f_written_at_version (revived fid t r) = f_written_at_version r"
  by (simp_all add: revived_def)

lemma token_clash_revived [simp]: "token_clash (revived fid t r) (revived fid' t' s) = token_clash r s"
  by (simp add: token_clash_def)

lemma assign_fixed:
  "assign_cols ([''partition_key'', ''s3_key'', ''written_at_version'', ''file_size'', ''uncompressed_size'', ''record_count''] @ cs)
     ([TextV pk, TextV k, BigInt v, BigInt fs, BigInt us, BigInt rc] @ vs) r =
   assign_cols cs vs (r\<lparr>f_partition_key := pk, f_s3_key := k, f_written_at_version := Some v, f_file_size := fs,
     f_uncompressed_size := us, f_record_count := Some rc\<rparr>)"
  by (simp add: set_file_col_def)

lemma assign_written_at:
  "assign_cols ((case m of None \<Rightarrow> [] | Some t \<Rightarrow> [''written_at'']) @ cs)
     ((case m of None \<Rightarrow> [] | Some t \<Rightarrow> [TimeV t]) @ vs) r =
   assign_cols cs vs (r\<lparr>f_written_at := (case m of None \<Rightarrow> f_written_at r | Some t \<Rightarrow> t)\<rparr>)"
  by (cases m) (simp_all add: set_file_col_def)

lemma assign_token:
  "f_token r = None \<Longrightarrow> assign_cols ((if t \<noteq> [] then [''idempotency_token''] else []) @ cs)
     ((if t \<noteq> [] then [TextV t] else []) @ vs) r =
   assign_cols cs vs (r\<lparr>f_token := (if t = [] then None else Some t)\<rparr>)"
  by (cases r; cases "t = []") (simp_all add: set_file_col_def)

text \<open>The extension columns, of which only the recovered ones are named.\<close>

lemma assign_recovered_exts:
  assumes "distinct (map ec_name exts)" "\<And>e. f_ext r e = GNil"
    and "\<And>c. c \<in> set exts \<Longrightarrow> map_of out (ec_name c) = (if metadataValueFor md c = GNil then None else Some (g c))"
    and "\<And>c. c \<in> set exts \<Longrightarrow> metadataValueFor md c \<noteq> GNil \<Longrightarrow> pgx c (g c) = pgx c (metadataValueFor md c)"
  shows "assign_cols (map (\<lambda>c. ext_col (ec_name c)) (filter (\<lambda>c. map_of out (ec_name c) \<noteq> None) exts))
     (map (\<lambda>c. ext_sql (pgx c (the (map_of out (ec_name c))))) (filter (\<lambda>c. map_of out (ec_name c) \<noteq> None) exts)) r
   = Some (r\<lparr>f_ext := (\<lambda>e. case map_of (map (\<lambda>c. (ec_name c, stored_ext pgx md c)) exts) e of None \<Rightarrow> GNil | Some v \<Rightarrow> v)\<rparr>)"
proof -
  let ?g = "\<lambda>e. case map_of (map (\<lambda>c. (ec_name c, stored_ext pgx md c)) exts) e of None \<Rightarrow> GNil | Some v \<Rightarrow> v"
  let ?cs = "filter (\<lambda>c. map_of out (ec_name c) \<noteq> None) exts"
  have look: "map_of (map (\<lambda>c. (ec_name c, stored_ext pgx md c)) exts) (ec_name c) = Some (stored_ext pgx md c)"
    if "c \<in> set exts" for c
    using that assms(1) by (intro map_of_is_SomeI) (auto simp: comp_def)
  have eq: "map (\<lambda>c. ext_sql (pgx c (the (map_of out (ec_name c))))) ?cs = map (\<lambda>e. ext_sql (?g e)) (map ec_name ?cs)"
    using look assms(3,4) by (auto simp: stored_ext_def Let_def)
  have "(\<lambda>e. if e \<in> set (map ec_name ?cs) then ?g e else f_ext r e) = ?g"
  proof
    fix e
    show "(if e \<in> set (map ec_name ?cs) then ?g e else f_ext r e) = ?g e"
    proof (cases "e \<in> ec_name ` set exts")
      case True
      then obtain c where c: "c \<in> set exts" "e = ec_name c" by blast
      show ?thesis using look [OF c(1)] assms(2,3) c by (auto simp: stored_ext_def Let_def)
    next
      case False
      then have "map_of (map (\<lambda>c. (ec_name c, stored_ext pgx md c)) exts) e = None" by (auto simp: map_of_eq_None_iff)
      then show ?thesis using assms(2) by simp
    qed
  qed
  moreover have "distinct (map ec_name ?cs)" using assms(1) by (simp add: distinct_map_filter)
  moreover have "map (\<lambda>c. ext_col (ec_name c)) ?cs = map ext_col (map ec_name ?cs)" by simp
  ultimately show ?thesis unfolding eq by (simp only: assign_exts)
qed


text \<open>The service describes the objects of the bucket.\<close>

definition heads :: "rebuild_env \<Rightarrow> (string \<rightharpoonup> s3_object) \<Rightarrow> bool" where
  "heads env s3 \<longleftrightarrow> (\<forall>k obj head. s3 k = Some obj \<longrightarrow> rb_head env k = Inr head \<longrightarrow>
     ho_length head = Some (int (length (so_body obj))) \<and> ho_meta head = so_meta obj)"

text \<open>A rebuild configured as the writers were.\<close>

definition rebuilds :: "'a store \<Rightarrow> rebuild_config \<Rightarrow> bool" where
  "rebuilds st cfg \<longleftrightarrow> rb_parts cfg = st_parts st \<and> rb_exts cfg = st_exts st \<and> rb_prefix cfg = st_s3_prefix st"

lemma dataPrefixOf_dataPath: "rebuilds st cfg \<Longrightarrow> dataPrefixOf (rb_prefix cfg) = dataPath st @ ''/''"
  by (simp add: rebuilds_def dataPrefixOf_def dataPath_def)

lemma described_fields:
  assumes "described st cd pgx obj r"
  shows "f_record_count r \<noteq> None" "f_written_at_version r \<noteq> None" "f_file_size r = int (length (so_body obj))"
    "\<exists>vals. PartitionKeyValues (f_partition_key r) (st_parts st) = Inr vals"
    "\<exists>uuid. f_s3_key r = dataKey st (f_partition_key r) uuid \<and> CHR ''/'' \<notin> set uuid"
  using assms by (auto simp: described_def insert_recorded_def)

lemma recover_object:
  assumes "described st cd pgx obj r" "wf_store st" "codecs_ok cd" "pgx_canonical cd pgx" "rebuilds st cfg"
    "rb_codecs env = cd" "rb_pgx env = pgx" "ho_meta head = so_meta obj" "ho_length head = Some (int (length (so_body obj)))"
    and vals: "PartitionKeyValues (f_partition_key r) (st_parts st) = Inr vals" and ver: "in_int64 (the (f_written_at_version r))"
  shows "\<exists>exts. let rec = newRecoveredFields (ho_meta head) (rb_exts cfg) fb in
      parseExtValues (rb_codecs env) rec (rb_exts cfg) = Inr exts \<and> hasFooterFields rec \<and> f_written_at_version r = Some (rf_version rec)
      \<and> assign_cols (recovered_cols cfg head rec exts) (recovered_args cfg env (f_s3_key r) (f_partition_key r) vals head rec exts)
          (blank_file fid now) = Some (revived fid (case ho_modified head of None \<Rightarrow> now | Some t \<Rightarrow> t) r)"
proof -
  obtain fid0 now0 fi seq at where r: "r = (new_row st pgx fid0 now0 fi)\<lparr>f_feed_seq := seq, f_feed_seq_at := at\<rparr>"
    and i: "insert_recorded st cd obj fi" using assms(1) unfolding described_def by blast
  note i' = i [unfolded insert_recorded_def]
  have d: "distinct (map ec_name (st_exts st))" using assms(2) by (simp add: wf_store_def ext_names_def)
  have rng: "list_all (\<lambda>i. - (2 ^ 63) \<le> i \<and> i < 2 ^ 63) [fi_record_count fi, fi_uncompressed_size fi, fi_version fi]"
    using i' ver r by (simp add: in_int64_def)
  let ?rec = "newRecoveredFields (so_meta obj) (st_exts st) fb"
  have "\<exists>raw out. ?rec = \<lparr>rf_token = fi_token fi, rf_recordCount = fi_record_count fi,
        rf_uncompressedSize = fi_uncompressed_size fi, rf_version = fi_version fi, rf_rawExt = raw\<rparr>
      \<and> parseExtValues cd ?rec (st_exts st) = Inr out
      \<and> (\<forall>c \<in> set (st_exts st). map_of out (ec_name c) = (if metadataValueFor (fi_metadata fi) c = GNil then None
           else Some (canon cd c (metadataValueFor (fi_metadata fi) c))))"
    by (rule metadata_recovered [OF _ assms(3) d rng]) (use i' in auto)
  then obtain raw out where rec: "?rec = \<lparr>rf_token = fi_token fi, rf_recordCount = fi_record_count fi,
        rf_uncompressedSize = fi_uncompressed_size fi, rf_version = fi_version fi, rf_rawExt = raw\<rparr>"
    and parse: "parseExtValues cd ?rec (st_exts st) = Inr out"
    and out: "\<And>c. c \<in> set (st_exts st) \<Longrightarrow> map_of out (ec_name c) = (if metadataValueFor (fi_metadata fi) c = GNil then None
           else Some (canon cd c (metadataValueFor (fi_metadata fi) c)))" by blast
  have pk: "vals = fi_part_values fi" "length vals = length (st_parts st)"
    using vals i' r by (auto simp: PartitionKeyValues_len)
  have parts: "map (\<lambda>i. TextV (vals ! i)) [0..<length (st_parts st)] = map TextV vals"
    using pk(2) by (intro nth_equalityI) auto
  have canon: "pgx c (canon cd c (metadataValueFor (fi_metadata fi) c)) = pgx c (metadataValueFor (fi_metadata fi) c)"
    if "c \<in> set (st_exts st)" "metadataValueFor (fi_metadata fi) c \<noteq> GNil" for c
    using assms(4) i' that by (simp add: pgx_canonical_def)
  note cfg = assms(5) [unfolded rebuilds_def]
  define b where "b = (blank_file fid now)\<lparr>f_partition_key := f_partition_key r, f_s3_key := f_s3_key r,
      f_written_at_version := Some (fi_version fi), f_file_size := int (length (so_body obj)),
      f_uncompressed_size := fi_uncompressed_size fi, f_record_count := Some (fi_record_count fi),
      f_written_at := (case ho_modified head of None \<Rightarrow> now | Some t \<Rightarrow> t),
      f_token := (if fi_token fi = [] then None else Some (fi_token fi))\<rparr>"
  have b: "f_part b ++ map_of (zip (st_parts st) vals) = f_part r" "f_ext b e = GNil" for e
    using r pk(1) by (simp_all add: b_def blank_file_def new_row_def)
  have "assign_cols (recovered_cols cfg head ?rec out) (recovered_args cfg env (f_s3_key r) (f_partition_key r) vals head ?rec out)
          (blank_file fid now) =
        assign_cols (map part_col (st_parts st) @ map (\<lambda>c. ext_col (ec_name c)) (filter (\<lambda>c. map_of out (ec_name c) \<noteq> None) (st_exts st)))
          (map TextV vals @ map (\<lambda>c. ext_sql (pgx c (the (map_of out (ec_name c)))))
             (filter (\<lambda>c. map_of out (ec_name c) \<noteq> None) (st_exts st))) b"
    unfolding recovered_cols_def recovered_args_def assign_fixed assign_written_at cfg [THEN conjunct1] cfg [THEN conjunct2, THEN conjunct1]
      assms(7) parts rec
    by (subst assign_token, simp add: blank_file_def)
      (simp add: b_def blank_file_def assms(9) cong: option.case_cong if_cong split del: if_split)
  also have "\<dots> = assign_cols (map (\<lambda>c. ext_col (ec_name c)) (filter (\<lambda>c. map_of out (ec_name c) \<noteq> None) (st_exts st)))
      (map (\<lambda>c. ext_sql (pgx c (the (map_of out (ec_name c))))) (filter (\<lambda>c. map_of out (ec_name c) \<noteq> None) (st_exts st)))
      (b\<lparr>f_part := f_part r\<rparr>)"
    using assms(2) pk(2) b(1) by (subst assign_parts) (simp_all add: wf_store_def)
  also have "\<dots> = Some (b\<lparr>f_part := f_part r, f_ext := f_ext r\<rparr>)"
    using b(2) r by (subst assign_recovered_exts [OF d _ out canon]) (simp_all add: new_row_def)
  also have "b\<lparr>f_part := f_part r, f_ext := f_ext r\<rparr> = revived fid (case ho_modified head of None \<Rightarrow> now | Some t \<Rightarrow> t) r"
    using r i' by (simp add: b_def blank_file_def revived_def new_row_def)
  finally have "assign_cols (recovered_cols cfg head ?rec out) (recovered_args cfg env (f_s3_key r) (f_partition_key r) vals head ?rec out)
          (blank_file fid now) = Some (revived fid (case ho_modified head of None \<Rightarrow> now | Some t \<Rightarrow> t) r)" .
  then show ?thesis
    using parse rec r i' by (auto simp: Let_def cfg assms(6,8) hasFooterFields_def)
qed


section \<open>Intermediate and final catalogs\<close>

definition part_state_of :: "catalog \<Rightarrow> string \<Rightarrow> (int \<times> int) option" where
  "part_state_of db key = map_option (\<lambda>p. (p_version p, p_file_count p)) (part_find key (c_partitions db))"

definition row_keys :: "catalog \<Rightarrow> string set" where
  "row_keys db = f_s3_key ` set (c_files db)"

definition restoring :: "world \<Rightarrow> catalog \<Rightarrow> bool" where
  "restoring w db \<longleftrightarrow> distinct (map f_s3_key (c_files db))
     \<and> (\<forall>r' \<in> set (c_files db). \<exists>r \<in> set (c_files (wd_db w)). \<exists>fid t. r' = revived fid t r)
     \<and> (\<forall>key. part_state_of db key \<in> {None, part_state_of (wd_db w) key})"

definition restored :: "world \<Rightarrow> catalog \<Rightarrow> bool" where
  "restored w db \<longleftrightarrow> length (c_files db) = length (c_files (wd_db w))
     \<and> (\<forall>r \<in> set (c_files (wd_db w)). \<exists>fid t. revived fid t r \<in> set (c_files db))
     \<and> part_state_of db = part_state_of (wd_db w)"

lemma restoring_part: "restoring w db \<Longrightarrow> part_state_of db key = None \<or> part_state_of db key = part_state_of (wd_db w) key"
  by (simp add: restoring_def)

text \<open>A step that inserts rows of the original catalog.\<close>

definition inserts :: "world \<Rightarrow> catalog \<Rightarrow> catalog \<Rightarrow> bool" where
  "inserts w db db' \<longleftrightarrow> (restoring w db \<longrightarrow> restoring w db') \<and> row_keys db \<subseteq> row_keys db' \<and> c_partitions db' = c_partitions db"

lemma inserts_refl [simp]: "inserts w db db"
  by (simp add: inserts_def)

lemma inserts_trans: "inserts w db1 db2 \<Longrightarrow> inserts w db2 db3 \<Longrightarrow> inserts w db1 db3"
  unfolding inserts_def by (metis subset_trans)

lemma inserts_next_id: "inserts w db (db\<lparr>c_next_id := n\<rparr>)"
  by (simp add: inserts_def restoring_def row_keys_def part_state_of_def)

lemma inserts_row:
  assumes "r \<in> set (c_files (wd_db w))" "f_s3_key r \<notin> row_keys db"
  shows "inserts w db (db\<lparr>c_next_id := n, c_files := c_files db @ [revived fid t r]\<rparr>)"
  using assms by (auto simp: inserts_def restoring_def row_keys_def part_state_of_def)

lemma same_key_row: "cat_inv db \<Longrightarrow> r \<in> set (c_files db) \<Longrightarrow> s \<in> set (c_files db) \<Longrightarrow> f_s3_key r = f_s3_key s \<Longrightarrow> r = s"
  unfolding cat_inv_def by (metis distinct_map inj_on_eq_iff)

lemma no_clash:
  assumes "cat_inv db" "r \<in> set (c_files db)" "s \<in> set (c_files db)" "f_s3_key r \<noteq> f_s3_key s"
  shows "\<not> token_clash r s"
proof -
  obtain i j where ij: "i < length (c_files db)" "j < length (c_files db)" "c_files db ! i = r" "c_files db ! j = s"
    using assms(2,3) by (metis in_set_conv_nth)
  then have "i \<noteq> j" using assms(4) by auto
  moreover have "sorted_wrt (\<lambda>r s. \<not> token_clash r s) (c_files db)" using assms(1) by (rule cat_invD(5))
  ultimately show ?thesis using ij token_clash_sym by (metis nat_neq_iff sorted_wrt_nth_less)
qed

text \<open>The conditions under which a rebuild runs.\<close>

definition rebuild_ok :: "'a store \<Rightarrow> rebuild_config \<Rightarrow> rebuild_env \<Rightarrow> world \<Rightarrow> bool" where
  "rebuild_ok st cfg env w \<longleftrightarrow> wf_store st \<and> rebuilds st cfg \<and> codecs_ok (rb_codecs env)
     \<and> pgx_canonical (rb_codecs env) (rb_pgx env) \<and> world_ok w \<and> recorded st (rb_codecs env) (rb_pgx env) w
     \<and> heads env (wd_s3 w) \<and> int (length (c_files (wd_db w))) < 2 ^ 63"

lemma rebuild_okD:
  assumes "rebuild_ok st cfg env w" "r \<in> set (c_files (wd_db w))"
  obtains obj where "wd_s3 w (f_s3_key r) = Some obj" "described st (rb_codecs env) (rb_pgx env) obj r"
  using assms unfolding rebuild_ok_def recorded_def by blast

lemma row_version:
  assumes "cat_inv db" "r \<in> set (c_files db)"
  shows "\<exists>v. f_written_at_version r = Some v \<and> 1 \<le> v \<and> v \<le> int (length (c_files db))"
proof -
  let ?fs = "part_files (f_partition_key r) db"
  have "map f_written_at_version ?fs = map (\<lambda>i. Some (int i)) [1..<length ?fs + 1]"
    using cat_invD(8) [OF assms(1)] by (simp add: versions_ok_def Let_def)
  moreover have "r \<in> set ?fs" using assms(2) by (simp add: part_files_def)
  ultimately have "f_written_at_version r \<in> set (map (\<lambda>i. Some (int i)) [1..<length ?fs + 1])" by (metis image_eqI list.set_map)
  moreover have "length ?fs \<le> length (c_files db)" by (simp add: part_files_def)
  ultimately show ?thesis by auto
qed

lemma insertFileRow_step:
  assumes ok: "rebuild_ok st cfg env w" and r: "r \<in> set (c_files (wd_db w))" and db: "restoring w db"
    and vals: "PartitionKeyValues (f_partition_key r) (st_parts st) = Inr vals"
    and run: "insertFileRow cfg env (f_s3_key r) (f_partition_key r) vals fb db = (res, db')"
  shows "inserts w db db'"
    "res = Inr (v, b) \<Longrightarrow> f_written_at_version r = Some v \<and> f_s3_key r \<in> row_keys db'"
    "isl res \<Longrightarrow> isl (rb_head env (f_s3_key r)) \<or> rb_insert env (f_s3_key r) \<noteq> None"
proof -
  obtain obj where obj: "wd_s3 w (f_s3_key r) = Some obj" "described st (rb_codecs env) (rb_pgx env) obj r"
    by (rule rebuild_okD [OF ok r])
  have main: "inserts w db db' \<and> (\<forall>v b. res = Inr (v, b) \<longrightarrow> f_written_at_version r = Some v \<and> f_s3_key r \<in> row_keys db')
    \<and> (isl res \<longrightarrow> isl (rb_head env (f_s3_key r)) \<or> rb_insert env (f_s3_key r) \<noteq> None)"
  proof (cases "rb_head env (f_s3_key r)")
    case (Inl e)
    then show ?thesis using run by (auto simp: insertFileRow_def)
  next
    case (Inr head)
    have h: "ho_meta head = so_meta obj" "ho_length head = Some (int (length (so_body obj)))"
      using ok obj(1) Inr by (auto simp: rebuild_ok_def heads_def)
    have c: "wf_store st" "codecs_ok (rb_codecs env)" "pgx_canonical (rb_codecs env) (rb_pgx env)" "rebuilds st cfg"
      using ok by (simp_all add: rebuild_ok_def)
    have ver: "in_int64 (the (f_written_at_version r))"
      using row_version [OF _ r] ok by (auto simp: rebuild_ok_def world_ok_def in_int64_def)
    let ?rec = "newRecoveredFields (ho_meta head) (rb_exts cfg) fb"
    let ?r = "revived (c_next_id db) (case ho_modified head of None \<Rightarrow> rb_now env | Some t \<Rightarrow> t) r"
    obtain exts where e: "parseExtValues (rb_codecs env) ?rec (rb_exts cfg) = Inr exts" "hasFooterFields ?rec"
      "f_written_at_version r = Some (rf_version ?rec)"
      "assign_cols (recovered_cols cfg head ?rec exts)
         (recovered_args cfg env (f_s3_key r) (f_partition_key r) vals head ?rec exts) (blank_file (c_next_id db) (rb_now env)) = Some ?r"
      using recover_object [OF obj(2) c refl refl h vals ver, where fb = fb and fid = "c_next_id db" and now = "rb_now env",
          unfolded Let_def] by blast
    show ?thesis
    proof (cases "rb_insert env (f_s3_key r)")
      case (Some e')
      then show ?thesis using run Inr e(1,2) by (auto simp: insertFileRow_def Let_def)
    next
      case None
      have clash: "\<not> token_clash ?r s" if s: "s \<in> set (c_files db)" "f_s3_key s \<noteq> f_s3_key r" for s
      proof -
        obtain s0 fid t where s0: "s0 \<in> set (c_files (wd_db w))" "s = revived fid t s0"
          using db s(1) unfolding restoring_def by blast
        then have "\<not> token_clash r s0" using no_clash [OF _ r s0(1)] ok s(2) by (auto simp: rebuild_ok_def world_ok_def)
        then show ?thesis by (simp add: s0(2))
      qed
      have stmt: "sql_files_recover (rb_now env) (recovered_cols cfg head ?rec exts)
          (recovered_args cfg env (f_s3_key r) (f_partition_key r) vals head ?rec exts) db =
        (if f_s3_key r \<in> row_keys db then (Inr 0, db\<lparr>c_next_id := c_next_id db + 1\<rparr>)
         else (Inr 1, db\<lparr>c_next_id := c_next_id db + 1, c_files := c_files db @ [?r]\<rparr>))"
      proof -
        have "(\<exists>s \<in> set (c_files db). f_s3_key s = f_s3_key r) \<longleftrightarrow> f_s3_key r \<in> row_keys db"
          unfolding row_keys_def by (metis imageE imageI)
        moreover have "f_s3_key r \<notin> row_keys db \<Longrightarrow> \<not> (\<exists>s \<in> set (c_files db). token_clash ?r s)"
          using clash unfolding row_keys_def by (metis imageI)
        ultimately show ?thesis by (simp add: sql_files_recover_def e(4) Let_def)
      qed
      show ?thesis
      proof (cases "f_s3_key r \<in> row_keys db")
        case True
        then show ?thesis using run Inr e(1-3) None stmt inserts_next_id
          by (auto simp: insertFileRow_def Let_def row_keys_def)
      next
        case False
        then show ?thesis using run Inr e(1-3) None stmt inserts_row [OF r False]
          by (auto simp: insertFileRow_def Let_def row_keys_def)
      qed
    qed
  qed
  then show "inserts w db db'"
    "res = Inr (v, b) \<Longrightarrow> f_written_at_version r = Some v \<and> f_s3_key r \<in> row_keys db'"
    "isl res \<Longrightarrow> isl (rb_head env (f_s3_key r)) \<or> rb_insert env (f_s3_key r) \<noteq> None" by blast+
qed


section \<open>One partition\<close>

definition faulty :: "rebuild_env \<Rightarrow> string \<Rightarrow> bool" where
  "faulty env k \<longleftrightarrow> isl (rb_head env k) \<or> rb_insert env k \<noteq> None"

text \<open>The versions of the files with keys in \<open>K\<close>.\<close>

definition versions_of :: "world \<Rightarrow> string set \<Rightarrow> int set" where
  "versions_of w K = (\<lambda>r. the (f_written_at_version r)) ` {r \<in> set (c_files (wd_db w)). f_s3_key r \<in> K}"

lemma finite_versions [simp]: "finite (versions_of w K)"
  by (simp add: versions_of_def)

lemma versions_of_empty [simp]: "versions_of w {} = {}"
  by (simp add: versions_of_def)

lemma versions_of_insert:
  assumes "world_ok w" "r \<in> set (c_files (wd_db w))" "f_written_at_version r = Some v"
  shows "versions_of w (insert (f_s3_key r) K) = insert v (versions_of w K)"
proof -
  have "{s \<in> set (c_files (wd_db w)). f_s3_key s \<in> insert (f_s3_key r) K} = insert r {s \<in> set (c_files (wd_db w)). f_s3_key s \<in> K}"
    using assms(1,2) same_key_row [of "wd_db w"] by (auto simp: world_ok_def)
  then show ?thesis by (simp add: versions_of_def assms(3))
qed

text \<open>A group as the original catalog has it.\<close>

definition group_ok :: "'a store \<Rightarrow> world \<Rightarrow> partition_group \<Rightarrow> bool" where
  "group_ok st w g \<longleftrightarrow> PartitionKeyValues (gr_key g) (st_parts st) = Inr (gr_values g) \<and> distinct (gr_keys g)
     \<and> gr_keys g \<noteq> [] \<and> set (gr_keys g) = f_s3_key ` set (part_files (gr_key g) (wd_db w))"

lemma group_row:
  assumes "group_ok st w g" "k \<in> set (gr_keys g)"
  obtains r where "r \<in> set (c_files (wd_db w))" "f_s3_key r = k" "f_partition_key r = gr_key g"
  using assms by (auto simp: group_ok_def part_files_def)

lemma file_loop_step:
  assumes "rebuild_ok st cfg env w" "group_ok st w g" "set ks \<subseteq> set (gr_keys g)" "restoring w db"
    "file_loop cfg env g i ks (a, m) db = (res, db')"
  shows "inserts w db db' \<and> (\<forall>a' m'. res = Inr (a', m') \<longrightarrow> set ks \<subseteq> row_keys db' \<and> m' = Max (insert m (versions_of w (set ks))))
    \<and> (isl res \<longrightarrow> (\<exists>k \<in> set ks. faulty env k))"
  using assms(3-5)
proof (induction ks arbitrary: i a m db)
  case (Cons k ks)
  obtain r where r: "r \<in> set (c_files (wd_db w))" "f_s3_key r = k" "f_partition_key r = gr_key g"
    using group_row [OF assms(2)] Cons.prems(1) by (metis list.set_intros(1) subsetD)
  have vals: "PartitionKeyValues (f_partition_key r) (st_parts st) = Inr (gr_values g)"
    using assms(2) r(3) by (simp add: group_ok_def)
  obtain res1 db1 where run: "insertFileRow cfg env k (gr_key g) (gr_values g) (int i + 1) db = (res1, db1)" by (metis surj_pair)
  note step = insertFileRow_step [OF assms(1) r(1) Cons.prems(2) vals, unfolded r(2,3), OF run]
  have db1: "restoring w db1" using step(1) Cons.prems(2) by (simp add: inserts_def)
  show ?case
  proof (cases res1)
    case (Inl e)
    then have "res = Inl e" "db' = db1" using Cons.prems(3) run by simp_all
    then show ?thesis using step(1,3) Inl by (auto simp: faulty_def)
  next
    case (Inr p)
    obtain v b where p: "p = (v, b)" by (cases p)
    let ?a = "if b then a + 1 else a" and ?m = "if v > m then v else m"
    have "file_loop cfg env g (Suc i) ks (?a, ?m) db1 = (res, db')" using Cons.prems(3) run Inr p by simp
    with Cons.IH [OF _ db1] Cons.prems(1) have IH: "inserts w db1 db'"
      "\<And>a' m'. res = Inr (a', m') \<Longrightarrow> set ks \<subseteq> row_keys db' \<and> m' = Max (insert ?m (versions_of w (set ks)))"
      "isl res \<Longrightarrow> \<exists>k \<in> set ks. faulty env k" by auto
    have v: "f_written_at_version r = Some v" "k \<in> row_keys db1" using step(2) Inr p by auto
    have "versions_of w (set (k # ks)) = insert v (versions_of w (set ks))"
      using versions_of_insert [OF _ r(1) v(1)] assms(1) r(2) by (simp add: rebuild_ok_def)
    moreover have "Max (insert ?m S) = Max (insert m (insert v S))" if "finite S" for S
      using that by (cases "S = {}") (auto simp: max_def)
    ultimately have "Max (insert ?m (versions_of w (set ks))) = Max (insert m (versions_of w (set (k # ks))))" by simp
    moreover have "k \<in> row_keys db'" using v(2) IH(1) by (auto simp: inserts_def)
    ultimately show ?thesis using IH inserts_trans [OF step(1)] by auto
  qed
qed (use assms(4) in auto)

text \<open>The versions and the number of the files of a partition.\<close>

lemma group_state:
  assumes "world_ok w" "group_ok st w g"
  shows "part_state_of (wd_db w) (gr_key g)
    = Some (Max (insert 0 (versions_of w (set (gr_keys g)))), int (length (gr_keys g)))"
proof -
  let ?fs = "part_files (gr_key g) (wd_db w)" and ?n = "length (part_files (gr_key g) (wd_db w))"
  have inv: "cat_inv (wd_db w)" using assms(1) by (simp add: world_ok_def)
  have ne: "?fs \<noteq> []" using assms(2) by (auto simp: group_ok_def)
  have ver: "map f_written_at_version ?fs = map (\<lambda>i. Some (int i)) [1..<?n + 1]"
    and part: "\<exists>p. part_find (gr_key g) (c_partitions (wd_db w)) = Some p \<and> p_version p = int ?n \<and> p_file_count p = int ?n"
    using cat_invD(8) [OF inv, of "gr_key g"] ne by (auto simp: versions_ok_def Let_def split: option.splits)
  have "distinct (map f_s3_key ?fs)" using cat_invD(1) [OF inv] by (simp add: part_files_def distinct_map_filter)
  then have len: "length (gr_keys g) = ?n"
    using assms(2) by (metis distinct_card group_ok_def length_map set_map)
  have rows: "{r \<in> set (c_files (wd_db w)). f_s3_key r \<in> set (gr_keys g)} = set ?fs"
    using assms(2) same_key_row [OF inv] by (auto simp: group_ok_def part_files_def)
  have "versions_of w (set (gr_keys g)) = the ` set (map f_written_at_version ?fs)"
    unfolding versions_of_def rows by auto
  also have "\<dots> = int ` {1..?n}" unfolding ver by (auto simp: image_iff)
  finally have "Max (insert 0 (versions_of w (set (gr_keys g)))) = int ?n"
    using ne by (intro Max_eqI) (auto simp: image_iff Suc_le_eq)
  with part len show ?thesis by (auto simp: part_state_of_def)
qed

lemma part_find_update_gen:
  assumes "\<And>p. p_partition_key (f p) = p_partition_key p"
  shows "part_find k (part_update key f ps) = (if k = key then map_option f (part_find k ps) else part_find k ps)"
  by (induction ps) (auto simp: part_find_def part_update_def assms)

lemma part_state_recover:
  "part_state_of (snd (sql_partition_recover now parts key vals v n db)) = (part_state_of db)(key := Some (v, n))"
  by (auto simp: sql_partition_recover_def part_state_of_def fun_eq_iff part_find_append part_find_update_gen split: option.splits)


section \<open>All partitions\<close>

definition no_fault :: "world \<Rightarrow> rebuild_env \<Rightarrow> bool" where
  "no_fault w env \<longleftrightarrow> (\<forall>k \<in> file_keys w. \<not> faulty env k) \<and> (\<forall>p. rb_upsert env p = None)"

lemma group_keys_files: "group_ok st w g \<Longrightarrow> set (gr_keys g) \<subseteq> file_keys w"
  by (auto simp: group_ok_def part_files_def file_keys_def)

lemma inserts_part_state: "inserts w db db' \<Longrightarrow> part_state_of db' = part_state_of db"
  by (simp add: inserts_def part_state_of_def fun_eq_iff)

lemma group_inserts_step:
  assumes "rebuild_ok st cfg env w" "\<forall>g \<in> set gs. group_ok st w g" "restoring w db"
    "group_inserts cfg env gs res db = (err, res', db')"
  shows "restoring w db' \<and> row_keys db \<subseteq> row_keys db' \<and> (\<forall>k. part_state_of db k \<noteq> None \<longrightarrow> part_state_of db' k \<noteq> None)
    \<and> (err = None \<longrightarrow> (\<forall>g \<in> set gs. set (gr_keys g) \<subseteq> row_keys db' \<and> part_state_of db' (gr_key g) \<noteq> None))
    \<and> (no_fault w env \<longrightarrow> err = None)"
  using assms(2-4)
proof (induction gs arbitrary: res db)
  case (Cons g gs)
  have g: "group_ok st w g" using Cons.prems(1) by simp
  obtain res1 db1 where run: "file_loop cfg env g 0 (sort (gr_keys g)) (0, 0) db = (res1, db1)" by (metis surj_pair)
  note step = file_loop_step [OF assms(1) g _ Cons.prems(2) run, simplified]
  have db1: "restoring w db1" "row_keys db \<subseteq> row_keys db1" "part_state_of db1 = part_state_of db"
    using step Cons.prems(2) inserts_part_state by (auto simp: inserts_def)
  show ?case
  proof (cases res1)
    case (Inl e)
    then have "err = Some e" "db' = db1" using Cons.prems(3) run by simp_all
    then show ?thesis using db1 step Inl group_keys_files [OF g] by (auto simp: no_fault_def)
  next
    case (Inr p)
    obtain a m where p: "p = (a, m)" by (cases p)
    have m: "set (gr_keys g) \<subseteq> row_keys db1" "m = Max (insert 0 (versions_of w (set (gr_keys g))))" using step Inr p by auto
    show ?thesis
    proof (cases "rb_upsert env (gr_key g)")
      case (Some e)
      then have "err \<noteq> None" "db' = db1" using Cons.prems(3) run Inr p by (auto simp: upsertPartitionRow_def)
      then show ?thesis using db1 Some by (auto simp: no_fault_def)
    next
      case None
      let ?db2 = "snd (sql_partition_recover (rb_now env) (rb_parts cfg) (gr_key g) (gr_values g) m (int (length (gr_keys g))) db1)"
      have st: "part_state_of ?db2 = (part_state_of db)(gr_key g := Some (m, int (length (gr_keys g))))"
        by (simp only: part_state_recover db1(3))
      have rows: "c_files ?db2 = c_files db1" by (simp add: sql_partition_recover_def split: option.splits)
      have "part_state_of (wd_db w) (gr_key g) = Some (m, int (length (gr_keys g)))"
        unfolding m(2) using group_state [OF _ g] assms(1) by (simp add: rebuild_ok_def)
      then have db2: "restoring w ?db2" using db1(1,3) rows st by (auto simp: restoring_def)
      obtain res2 where run2: "group_inserts cfg env gs res2 ?db2 = (err, res', db')"
        using Cons.prems(3) run Inr p None by (auto simp: upsertPartitionRow_def Let_def sql_partition_recover_def)
      have IH: "restoring w db' \<and> row_keys ?db2 \<subseteq> row_keys db'
        \<and> (\<forall>k. part_state_of ?db2 k \<noteq> None \<longrightarrow> part_state_of db' k \<noteq> None)
        \<and> (err = None \<longrightarrow> (\<forall>g \<in> set gs. set (gr_keys g) \<subseteq> row_keys db' \<and> part_state_of db' (gr_key g) \<noteq> None))
        \<and> (no_fault w env \<longrightarrow> err = None)" by (rule Cons.IH [OF _ db2 run2]) (use Cons.prems(1) in simp)
      moreover have "row_keys ?db2 = row_keys db1" by (simp add: row_keys_def rows)
      ultimately show ?thesis using db1(2) m(1) st by auto
    qed
  qed
qed auto

text \<open>The grouping: \<open>pk\<close> is the partition key of an object key, \<open>vs\<close> its values.\<close>

lemma group_loop_eq:
  assumes "\<And>k b. k \<in> set ks \<Longrightarrow> group_key pre parts k b =
      Inr (let g = (case map_of b (pk k) of None \<Rightarrow> \<lparr>gr_key = pk k, gr_values = vs (pk k), gr_keys = []\<rparr> | Some g \<Rightarrow> g)
           in map_put (pk k) (g\<lparr>gr_keys := gr_keys g @ [k]\<rparr>) b)"
    and "distinct (map fst b)"
    and "\<And>p. map_of b p = (let l = filter (\<lambda>k. pk k = p) prev in if l = [] then None else Some \<lparr>gr_key = p, gr_values = vs p, gr_keys = l\<rparr>)"
  shows "\<exists>b'. group_loop pre parts ks b = Inr b' \<and> distinct (map fst b') \<and>
    (\<forall>p. map_of b' p = (let l = filter (\<lambda>k. pk k = p) (prev @ ks) in
       if l = [] then None else Some \<lparr>gr_key = p, gr_values = vs p, gr_keys = l\<rparr>))"
  using assms
proof (induction ks arbitrary: b prev)
  case (Cons k ks)
  let ?g = "case map_of b (pk k) of None \<Rightarrow> \<lparr>gr_key = pk k, gr_values = vs (pk k), gr_keys = []\<rparr> | Some g \<Rightarrow> g"
  let ?b = "map_put (pk k) (?g\<lparr>gr_keys := gr_keys ?g @ [k]\<rparr>) b"
  have "group_loop pre parts (k # ks) b = group_loop pre parts ks ?b"
    using Cons.prems(1) [of k b] by (simp add: Let_def)
  moreover have "distinct (map fst ?b)" using Cons.prems(2) by (rule distinct_put)
  moreover have "map_of ?b p = (let l = filter (\<lambda>k. pk k = p) (prev @ [k]) in
      if l = [] then None else Some \<lparr>gr_key = p, gr_values = vs p, gr_keys = l\<rparr>)" for p
    using Cons.prems(3) [of p] Cons.prems(3) [of "pk k"] by (auto simp: Let_def split: if_splits)
  ultimately show ?case
    using Cons.IH [of ?b "prev @ [k]"] Cons.prems(1) by simp
qed simp


lemma map_of_values: "distinct (map fst m) \<Longrightarrow> x \<in> set (map snd m) \<longleftrightarrow> (\<exists>k. map_of m k = Some x)"
  by (force simp: map_of_eq_Some_iff)

definition row_pk :: "world \<Rightarrow> string \<Rightarrow> string" where
  "row_pk w k = f_partition_key (the (find (\<lambda>r. f_s3_key r = k) (c_files (wd_db w))))"

lemma row_pk_eq:
  assumes "world_ok w" "r \<in> set (c_files (wd_db w))"
  shows "row_pk w (f_s3_key r) = f_partition_key r"
proof -
  obtain s where s: "find (\<lambda>s. f_s3_key s = f_s3_key r) (c_files (wd_db w)) = Some s"
    using assms(2) by (cases "find (\<lambda>s. f_s3_key s = f_s3_key r) (c_files (wd_db w))") (auto simp: find_None_iff)
  then have "s \<in> set (c_files (wd_db w)) \<and> f_s3_key s = f_s3_key r"
    by (auto simp: find_Some_iff)
  then show ?thesis using s same_key_row [of "wd_db w" s r] assms by (simp add: row_pk_def world_ok_def)
qed

definition key_values :: "'a store \<Rightarrow> string \<Rightarrow> string list" where
  "key_values st p = (case PartitionKeyValues p (st_parts st) of Inl _ \<Rightarrow> [] | Inr vals \<Rightarrow> vals)"

lemma row_values: "rebuild_ok st cfg env w \<Longrightarrow> r \<in> set (c_files (wd_db w)) \<Longrightarrow>
    PartitionKeyValues (f_partition_key r) (st_parts st) = Inr (key_values st (f_partition_key r))"
  by (erule rebuild_okD, assumption) (auto simp: key_values_def dest: described_fields(4))

lemma group_key_row:
  assumes "rebuild_ok st cfg env w" "r \<in> set (c_files (wd_db w))"
  shows "group_key (dataPath st @ ''/'') (st_parts st) (f_s3_key r) b =
      Inr (let p = f_partition_key r; g = (case map_of b p of None \<Rightarrow> \<lparr>gr_key = p, gr_values = key_values st p, gr_keys = []\<rparr> | Some g \<Rightarrow> g)
           in map_put p (g\<lparr>gr_keys := gr_keys g @ [f_s3_key r]\<rparr>) b)"
proof -
  obtain obj where "described st (rb_codecs env) (rb_pgx env) obj r" by (rule rebuild_okD [OF assms])
  then obtain uuid where u: "f_s3_key r = dataKey st (f_partition_key r) uuid" "CHR ''/'' \<notin> set uuid"
    using described_fields(5) by blast
  have rest: "drop (length (dataPath st @ ''/'')) (f_s3_key r) = f_partition_key r @ CHR ''/'' # (uuid @ ''.parquet'')"
    "has_prefix (f_s3_key r) (dataPath st @ ''/'')" "take (length p) (p @ t) = (p :: string)" for p t
    by (simp_all add: u(1) dataKey_def has_prefix_def)
  have "last_index_byte CHR ''/'' (f_partition_key r @ CHR ''/'' # (uuid @ ''.parquet'')) = Some (length (f_partition_key r))"
    using u(2) by (intro last_index_byte_append) simp
  moreover have "f_partition_key r \<noteq> []"
    using row_values [OF assms] by (auto simp: PartitionKeyValues_def)
  ultimately show ?thesis
    unfolding group_key_def rest(1) Let_def using row_values [OF assms] rest(2) by (simp only: rest(3) option.case sum.case) simp
qed

lemma groups_ok:
  assumes ok: "rebuild_ok st cfg env w" and keys: "set ks = file_keys w" "distinct ks"
  shows "\<exists>gs. groupByPartition ks (dataPath st @ ''/'') (st_parts st) = Inr gs \<and> (\<forall>g \<in> set gs. group_ok st w g)
    \<and> (\<forall>r \<in> set (c_files (wd_db w)). \<exists>g \<in> set gs. gr_key g = f_partition_key r)"
proof -
  have w: "world_ok w" using ok by (simp add: rebuild_ok_def)
  have key: "group_key (dataPath st @ ''/'') (st_parts st) k b =
      Inr (let g = (case map_of b (row_pk w k) of None \<Rightarrow> \<lparr>gr_key = row_pk w k, gr_values = key_values st (row_pk w k), gr_keys = []\<rparr> | Some g \<Rightarrow> g)
           in map_put (row_pk w k) (g\<lparr>gr_keys := gr_keys g @ [k]\<rparr>) b)" if k: "k \<in> set ks" for k b
  proof -
    obtain r where r: "r \<in> set (c_files (wd_db w))" "k = f_s3_key r"
      using k unfolding keys(1) file_keys_def by blast
    show ?thesis unfolding r(2) row_pk_eq [OF w r(1)] group_key_row [OF ok r(1)] Let_def ..
  qed
  have "\<exists>b. group_loop (dataPath st @ ''/'') (st_parts st) ks [] = Inr b \<and> distinct (map fst b) \<and>
    (\<forall>p. map_of b p = (let l = filter (\<lambda>k. row_pk w k = p) ([] @ ks) in
       if l = [] then None else Some \<lparr>gr_key = p, gr_values = key_values st p, gr_keys = l\<rparr>))"
    by (rule group_loop_eq [OF key]) simp_all
  then obtain b where b: "group_loop (dataPath st @ ''/'') (st_parts st) ks [] = Inr b" "distinct (map fst b)"
    and look': "\<forall>p. map_of b p = (let l = filter (\<lambda>k. row_pk w k = p) ([] @ ks) in
       if l = [] then None else Some \<lparr>gr_key = p, gr_values = key_values st p, gr_keys = l\<rparr>)"
    by (elim exE conjE) (rule that)
  note look = look' [unfolded append.left_neutral, rule_format]
  let ?gs = "sort_key gr_key (map snd b)"
  have gs: "g \<in> set ?gs \<longleftrightarrow> (\<exists>p. map_of b p = Some g)" for g using map_of_values [OF b(2)] by simp
  have files: "set (filter (\<lambda>k. row_pk w k = p) ks) = f_s3_key ` set (part_files p (wd_db w))" for p
    using row_pk_eq [OF w] by (auto simp: keys(1) file_keys_def part_files_def)
  have "group_ok st w g" if g0: "g \<in> set ?gs" for g
  proof -
    obtain p where p: "map_of b p = Some g" using iffD1 [OF gs g0] by (rule exE)
    from p have g: "g = \<lparr>gr_key = p, gr_values = key_values st p, gr_keys = filter (\<lambda>k. row_pk w k = p) ks\<rparr>"
      and ne: "filter (\<lambda>k. row_pk w k = p) ks \<noteq> []" using look [of p] by (auto simp: Let_def split: if_splits)
    from ne have "f_s3_key ` set (part_files p (wd_db w)) \<noteq> {}" unfolding files [symmetric] by (metis set_empty)
    then obtain r where r: "r \<in> set (part_files p (wd_db w))" by (metis all_not_in_conv image_is_empty)
    then have "PartitionKeyValues p (st_parts st) = Inr (key_values st p)"
      using row_values [OF ok, of r] by (auto simp: part_files_def)
    then show ?thesis using g ne files keys(2) by (simp add: group_ok_def)
  qed
  moreover have "\<exists>g \<in> set ?gs. gr_key g = f_partition_key r" if "r \<in> set (c_files (wd_db w))" for r
  proof -
    have "f_s3_key r \<in> set (filter (\<lambda>k. row_pk w k = f_partition_key r) ks)"
      using that row_pk_eq [OF w that] by (simp add: keys(1) file_keys_def)
    then have "filter (\<lambda>k. row_pk w k = f_partition_key r) ks \<noteq> []" by (metis empty_iff empty_set)
    then obtain g where "map_of b (f_partition_key r) = Some g" "gr_key g = f_partition_key r"
      using look [of "f_partition_key r"] by (simp add: Let_def)
    then show ?thesis using gs by blast
  qed
  ultimately show ?thesis using b(1) by (intro exI [of _ ?gs]) (simp add: groupByPartition_def)
qed

section \<open>The listing\<close>

text \<open>The pages of a LIST, from a token on, end and hold the keys \<open>ks\<close>.\<close>

inductive lists :: "(string option \<Rightarrow> string + list_page) \<Rightarrow> string option \<Rightarrow> string list \<Rightarrow> bool" for pages where
  last_page: "pages token = Inr p \<Longrightarrow> lp_truncated p \<noteq> Some True \<Longrightarrow> lists pages token (page_keys p)"
| more_pages: "pages token = Inr p \<Longrightarrow> lp_truncated p = Some True \<Longrightarrow> lists pages (lp_next p) ks
    \<Longrightarrow> lists pages token (page_keys p @ ks)"

lemma listAllKeys_lists: "lists pages token ks \<Longrightarrow> listAllKeys pages token out = Some (Inr (out @ ks))"
proof (induction arbitrary: out rule: lists.induct)
  case (last_page token p)
  then show ?case by (subst listAllKeys.simps) (simp add: Let_def)
next
  case (more_pages token p ks)
  then show ?case by (subst listAllKeys.simps) (simp add: Let_def)
qed


section \<open>The rebuild\<close>

lemma restoring_all:
  assumes "world_ok w" "restoring w db" "file_keys w \<subseteq> row_keys db"
  shows "length (c_files db) = length (c_files (wd_db w))"
    "\<And>r. r \<in> set (c_files (wd_db w)) \<Longrightarrow> \<exists>fid t. revived fid t r \<in> set (c_files db)"
proof -
  have rev: "\<exists>r \<in> set (c_files (wd_db w)). \<exists>fid t. s = revived fid t r" if "s \<in> set (c_files db)" for s
    using assms(2) that by (simp add: restoring_def)
  have "row_keys db \<subseteq> file_keys w"
  proof
    fix k assume "k \<in> row_keys db"
    then obtain s where s: "s \<in> set (c_files db)" "k = f_s3_key s" unfolding row_keys_def by blast
    from rev [OF s(1)] s(2) show "k \<in> file_keys w" by (auto simp: file_keys_def)
  qed
  then have eq: "row_keys db = file_keys w" using assms(3) by blast
  have d: "distinct (map f_s3_key (c_files db))" "distinct (map f_s3_key (c_files (wd_db w)))"
    using assms(1,2) by (simp_all add: restoring_def world_ok_def cat_inv_def)
  have "row_keys db = file_keys w" using assms(3) rev by (fastforce simp: row_keys_def file_keys_def)
  from eq have "set (map f_s3_key (c_files db)) = set (map f_s3_key (c_files (wd_db w)))"
    by (simp add: row_keys_def file_keys_def)
  then show "length (c_files db) = length (c_files (wd_db w))" using d by (metis distinct_card length_map)
  fix r assume r: "r \<in> set (c_files (wd_db w))"
  then have "f_s3_key r \<in> row_keys db" unfolding eq file_keys_def by (rule imageI)
  then obtain s where s: "s \<in> set (c_files db)" "f_s3_key s = f_s3_key r" unfolding row_keys_def by (metis imageE)
  obtain r0 fid t where r0: "r0 \<in> set (c_files (wd_db w))" "s = revived fid t r0" using rev [OF s(1)] by blast
  then have "r0 = r" using same_key_row [OF _ r0(1) r] assms(1) s(2) by (simp add: world_ok_def)
  with r0 s(1) show "\<exists>fid t. revived fid t r \<in> set (c_files db)" by blast
qed

text \<open>C35.  The rebuild brings the catalog back from the bucket alone.  Take a consistent world whose rows
  are described by their objects and whose bucket holds no other object, and the tables as any earlier rebuild
  left them, empty ones included.  A rebuild, wherever a HEAD or a statement fails, adds only rows of the lost
  catalog and partition rows with their old version and count.  Without a fault it reports no error and
  every file is there once, as it was but for its id, its time and its place in the feed, and every
  partition has its old version and count.\<close>

theorem rebuild_restores:
  assumes "rebuild_ok st cfg env w" "validateRebuildConfig cfg = None"
    and "lists (rb_list env (dataPath st @ ''/'')) None ks" "set ks = file_keys w" "distinct ks" "restoring w db"
  shows "\<exists>err res db'. Rebuild cfg env db = Some (err, res, db') \<and> restoring w db'
    \<and> (no_fault w env \<longrightarrow> err = None \<and> restored w db')"
proof -
  have cfg: "rebuilds st cfg" and w: "world_ok w" using assms(1) by (simp_all add: rebuild_ok_def)
  obtain gs where gs: "groupByPartition ks (dataPath st @ ''/'') (st_parts st) = Inr gs" "\<forall>g \<in> set gs. group_ok st w g"
    "\<And>r. r \<in> set (c_files (wd_db w)) \<Longrightarrow> \<exists>g \<in> set gs. gr_key g = f_partition_key r"
    using groups_ok [OF assms(1,4,5)] by blast
  obtain err res db' where run: "group_inserts cfg env gs no_rows db = (err, res, db')" by (metis prod_cases3)
  have "Rebuild cfg env db = Some (err, res, db')"
    using assms(2) listAllKeys_lists [OF assms(3), of "[]"] gs(1) run
    by (simp add: Rebuild_def Let_def dataPrefixOf_dataPath [OF cfg] cfg [unfolded rebuilds_def, THEN conjunct1])
  moreover note step = group_inserts_step [OF assms(1) gs(2) assms(6) run]
  moreover have "restored w db'" if e: "err = None"
  proof -
    have rows: "f_s3_key r \<in> row_keys db' \<and> part_state_of db' (f_partition_key r) \<noteq> None" if r: "r \<in> set (c_files (wd_db w))" for r
    proof -
      obtain g where g: "g \<in> set gs" "gr_key g = f_partition_key r" using gs(3) [OF r] by blast
      then have "f_s3_key r \<in> set (gr_keys g)" using bspec [OF gs(2) g(1)] r by (simp add: group_ok_def part_files_def)
      moreover have "set (gr_keys g) \<subseteq> row_keys db' \<and> part_state_of db' (gr_key g) \<noteq> None" using step e g(1) by blast
      ultimately show ?thesis using g(2) by auto
    qed
    have "part_state_of db' key = part_state_of (wd_db w) key" for key
    proof (cases "part_files key (wd_db w)")
      case Nil
      then have "part_state_of (wd_db w) key = None"
        using cat_invD(8) [of "wd_db w" key] w by (auto simp: world_ok_def versions_ok_def Let_def part_state_of_def split: option.splits)
      then show ?thesis using restoring_part [of w db' key] step by metis
    next
      case (Cons r rs)
      then have "r \<in> set (part_files key (wd_db w))" by simp
      then have "r \<in> set (c_files (wd_db w)) \<and> f_partition_key r = key" by (simp add: part_files_def)
      then have "part_state_of db' key \<noteq> None" using rows by blast
      then show ?thesis using restoring_part [of w db' key] step by metis
    qed
    moreover have "file_keys w \<subseteq> row_keys db'" using rows by (auto simp: file_keys_def)
    ultimately show ?thesis using restoring_all [OF w, of db'] step by (simp add: restored_def fun_eq_iff)
  qed
  ultimately show ?thesis by blast
qed


section \<open>Writes record what they insert\<close>

lemma recorded_backed: "recorded st cd pgx = backed (described st cd pgx)"
  by (simp add: fun_eq_iff recorded_def backed_def)

text \<open>The write's arguments as the rebuild needs them.\<close>

definition records_well :: "'a store \<Rightarrow> 'a env \<Rightarrow> 'a list \<Rightarrow> metadata \<Rightarrow> bool" where
  "records_well st env recs md \<longleftrightarrow> recs \<noteq> [] \<and> int (length recs) < 2 ^ 63
     \<and> (\<forall>body us. e_encode env recs = Inr (body, us) \<longrightarrow> 0 < us \<and> us < 2 ^ 63)
     \<and> (\<forall>uuid. e_uuid env = Inr uuid \<longrightarrow> CHR ''/'' \<notin> set uuid)
     \<and> (\<forall>c \<in> set (st_exts st). recoverable (e_codecs env) c (metadataValueFor md c))"

lemma writes_described:
  assumes "PartitionKeyValues key (st_parts st) = Inr vals" "records_well st env recs (wo_metadata o1)"
  shows "writes_backed (described st (e_codecs env) (e_pgx env)) st env key vals recs o1"
  unfolding writes_backed_def
proof (intro allI impI)
  fix body us uuid token v md fid
  assume *: "e_encode env recs = Inr (body, us)" "e_uuid env = Inr uuid"
    "BuildS3Metadata (e_codecs env) token (int (length recs)) us v (st_exts st) (wo_metadata o1) = Inr md"
  let ?fi = "fi_of o1 key vals token (dataKey st key uuid) body us (int (length recs)) v"
  let ?r = "new_row st (e_pgx env) fid (e_now env) ?fi"
  have "insert_recorded st (e_codecs env) \<lparr>so_body = body, so_meta = md\<rparr> ?fi"
    using assms * by (auto simp: insert_recorded_def fi_of_def records_well_def in_int64_def)
  moreover have "?r = ?r\<lparr>f_feed_seq := None, f_feed_seq_at := None\<rparr>" by (simp add: new_row_def)
  ultimately show "described st (e_codecs env) (e_pgx env) \<lparr>so_body = body, so_meta = md\<rparr> ?r"
    unfolding described_def by blast
qed

text \<open>C36.  Every write, whatever fails in it, leaves the rows described by the user-metadata of their objects, which
  is what the rebuild relies on: a bucket and a catalog that were filled by writes can be
  rebuilt.  The records must not be empty, the encoder must report a size, and the extension values must be ones that the
  metadata can carry.\<close>

theorem writes_recorded:
  assumes "wf_store st" "PartitionKeyValues key (st_parts st) = Inr vals" "recorded st (e_codecs env) (e_pgx env) w"
    and "\<And>n w. recorded st (e_codecs env) (e_pgx env) w \<Longrightarrow> recorded st (e_codecs env) (e_pgx env) (e_others env n w)"
    and "records_well st env recs (wo_metadata o1)"
  shows "recorded st (e_codecs env) (e_pgx env) (snd (writePartition st env key vals recs o1 w))"
  using writePartition_backed [OF assms(1) PartitionKeyValues_len [OF assms(2)] _ _ writes_described [OF assms(2,5)]] assms(3,4)
  unfolding recorded_backed by (metis prod.collapse)


section \<open>A lost catalog\<close>

definition canon_env :: "string \<Rightarrow> string env" where
  "canon_env uuid = (quiet_env uuid)\<lparr>e_pgx := canon decimal_codecs\<rparr>"

definition lost_world :: world where
  "lost_world = snd (write_fresh demo_store (canon_env ''u'') no_opts ''p=x'' [''x''] [] [''x''] empty_world)"

definition demo_rebuild :: rebuild_config where
  "demo_rebuild = \<lparr>rb_pool = True, rb_client = True, rb_bucket = ''b'', rb_prefix = [], rb_schema = ''public'',
     rb_table_prefix = ''s3pgstore_'', rb_parts = [''p''], rb_exts = []\<rparr>"

text \<open>The service over a bucket, one page for all the keys.\<close>

definition bucket_env :: "(string \<rightharpoonup> s3_object) \<Rightarrow> string list \<Rightarrow> rebuild_env" where
  "bucket_env s3 ks = \<lparr>rb_codecs = decimal_codecs, rb_pgx = canon decimal_codecs, rb_now = 50,
     rb_list = (\<lambda>prefix token. Inr \<lparr>lp_contents = map Some ks, lp_truncated = Some False, lp_next = None\<rparr>),
     rb_head = (\<lambda>k. case s3 k of None \<Rightarrow> Inl ''404''
        | Some obj \<Rightarrow> Inr \<lparr>ho_length = Some (int (length (so_body obj))), ho_modified = Some 9, ho_meta = so_meta obj\<rparr>),
     rb_insert = (\<lambda>_. None), rb_upsert = (\<lambda>_. None)\<rparr>"

lemma bucket_env_simps [simp]:
  "rb_codecs (bucket_env s3 ks) = decimal_codecs" "rb_pgx (bucket_env s3 ks) = canon decimal_codecs"
  by (simp_all add: bucket_env_def)

abbreviation no_catalog :: catalog where
  "no_catalog \<equiv> wd_db empty_world"

lemma canon_canon: "canon cd c (canon cd c v) = canon cd c v"
  by (auto simp: canon_def split: govalue.splits)

lemma bucket_heads: "heads (bucket_env s3 ks) s3"
  by (auto simp: heads_def bucket_env_def)

lemma bucket_lists: "list_all (\<lambda>k. has_suffix k ''.parquet'') ks \<Longrightarrow> lists (rb_list (bucket_env s3 ks) pre) None ks"
proof -
  assume "list_all (\<lambda>k. has_suffix k ''.parquet'') ks"
  then have "page_keys \<lparr>lp_contents = map Some ks, lp_truncated = Some False, lp_next = None\<rparr> = ks"
    by (simp add: page_keys_def list_all_iff filter_id_conv comp_def)
  moreover have "lists (rb_list (bucket_env s3 ks) pre) None
      (page_keys \<lparr>lp_contents = map Some ks, lp_truncated = Some False, lp_next = None\<rparr>)"
    by (rule lists.last_page) (simp_all add: bucket_env_def)
  ultimately show ?thesis by simp
qed

lemma lost_world_ok: "world_ok lost_world" "recorded demo_store decimal_codecs (canon decimal_codecs) lost_world"
  "map f_s3_key (c_files (wd_db lost_world)) = [''data/p=x/u.parquet'']"
proof -
  have pk: "PartitionKeyValues ''p=x'' (st_parts demo_store) = Inr [''x'']" by code_simp
  have nb: "neighbours_ok (e_others (canon_env ''u''))" "leaves_alone (e_others (canon_env ''u'')) k" for k
    by (simp_all add: neighbours_ok_def leaves_alone_def canon_env_def quiet_env_def)
  show "world_ok lost_world" unfolding lost_world_def
    using write_fresh_safe [OF demo_wf _ empty_world_ok nb] by (simp add: demo_store_def)
  have "recorded demo_store (e_codecs (canon_env ''u'')) (e_pgx (canon_env ''u'')) lost_world" unfolding lost_world_def
    unfolding recorded_backed
    by (rule write_fresh_backed(1) [OF demo_wf _ _ _ writes_described [OF pk] prod.collapse [symmetric]])
      (auto simp: backed_def empty_world_def canon_env_def quiet_env_def records_well_def demo_store_def)
  then show "recorded demo_store decimal_codecs (canon decimal_codecs) lost_world" by (simp add: canon_env_def quiet_env_def)
  show "map f_s3_key (c_files (wd_db lost_world)) = [''data/p=x/u.parquet'']" by code_simp
qed

theorem rebuild_restores_witness:
  "\<exists>res db. Rebuild demo_rebuild (bucket_env (wd_s3 lost_world) [''data/p=x/u.parquet'']) no_catalog = Some (None, res, db)
     \<and> restored lost_world db \<and> length (c_files db) = 1"
proof -
  let ?env = "bucket_env (wd_s3 lost_world) [''data/p=x/u.parquet'']"
  have files: "length (c_files (wd_db lost_world)) = 1" using lost_world_ok(3) by (metis length_Cons length_map list.size(3) One_nat_def)
  have ok: "rebuild_ok demo_store demo_rebuild ?env lost_world"
    unfolding rebuild_ok_def
    using demo_wf lost_world_ok bucket_heads [of "wd_s3 lost_world"] files decimal_codecs_ok
    by (simp add: pgx_canonical_def canon_canon) (simp add: rebuilds_def demo_rebuild_def demo_store_def)
  have c: "validateRebuildConfig demo_rebuild = None" by code_simp
  have l: "lists (rb_list ?env (dataPath demo_store @ ''/'')) None [''data/p=x/u.parquet'']"
    by (rule bucket_lists) (simp add: has_suffix_def)
  have k: "set [''data/p=x/u.parquet''] = file_keys lost_world" using lost_world_ok(3) by (metis file_keys_def list.set_map)
  have r: "restoring lost_world no_catalog" by (simp add: restoring_def empty_world_def part_state_of_def part_find_def)
  have f: "no_fault lost_world ?env"
    using lost_world_ok(1) by (auto simp: no_fault_def faulty_def bucket_env_def world_ok_alt file_keys_def split: option.splits)
  from rebuild_restores [OF ok c l k _ r] f files show ?thesis by (auto simp: restored_def)
qed


theorem writes_recorded_witness:
  "recorded demo_store decimal_codecs (canon decimal_codecs)
     (snd (writePartition demo_store (canon_env ''u'') ''p=x'' [''x''] [''x''] (no_opts\<lparr>wo_token := Some ''t''\<rparr>) empty_world))"
proof -
  have pk: "PartitionKeyValues ''p=x'' (st_parts demo_store) = Inr [''x'']" by code_simp
  have e: "e_codecs (canon_env ''u'') = decimal_codecs" "e_pgx (canon_env ''u'') = canon decimal_codecs"
    "e_others (canon_env ''u'') n v = v" for n v by (simp_all add: canon_env_def quiet_env_def)
  have "recorded demo_store (e_codecs (canon_env ''u'')) (e_pgx (canon_env ''u''))
      (snd (writePartition demo_store (canon_env ''u'') ''p=x'' [''x''] [''x''] (no_opts\<lparr>wo_token := Some ''t''\<rparr>) empty_world))"
    by (rule writes_recorded [OF demo_wf pk])
      (auto simp: e recorded_def empty_world_def records_well_def demo_store_def canon_env_def quiet_env_def)
  then show ?thesis by (simp only: e)
qed

section \<open>Objects without a row\<close>

definition failed_world :: "string option \<Rightarrow> world" where
  "failed_world token = snd (writePartition demo_store ((quiet_env ''u'')\<lparr>e_commit := Commit_failed ''eof''\<rparr>) ''p=x'' [''x''] [''x'']
     (no_opts\<lparr>wo_token := token\<rparr>) empty_world)"

definition retried_world :: world where
  "retried_world = snd (writePartition demo_store (quiet_env ''v'') ''p=x'' [''x''] [''x''] (no_opts\<lparr>wo_token := Some ''t''\<rparr>)
     (failed_world (Some ''t'')))"

definition rebuilt :: "world \<Rightarrow> string list \<Rightarrow> (rebuild_error option \<times> string list) option" where
  "rebuilt w ks = map_option (\<lambda>(err, res, db). (err, map f_s3_key (c_files db)))
     (Rebuild demo_rebuild (bucket_env (wd_s3 w) ks) no_catalog)"

text \<open>The condition that the bucket holds no other object is needed, and it is not kept by failing writes: a write whose
  commit fails leaves its object, tracked for the collector.  A rebuild before the sweep inserts that
  object as a committed file, although the write reported an error and the lost catalog had no such row.  If the write
  was retried under its idempotency token, both objects carry the token, the second insert
  violates the unique index, which \<open>ON CONFLICT (s3_key)\<close> does not cover, and every run of the rebuild fails, with only the
  orphan in the catalog.\<close>

theorem rebuild_orphans:
  "c_files (wd_db (failed_world None)) = []
   \<and> rebuilt (failed_world None) [''data/p=x/u.parquet''] = Some (None, [''data/p=x/u.parquet''])
   \<and> map f_s3_key (c_files (wd_db retried_world)) = [''data/p=x/v.parquet'']
   \<and> rebuilt retried_world [''data/p=x/u.parquet'', ''data/p=x/v.parquet'']
      = Some (Some (Rb_file ''data/p=x/v.parquet'' (Unique_violation ''token'')), [''data/p=x/u.parquet''])"
  by (intro conjI; code_simp)

end
