(* ===== verification/Io_Pool.thy ===== *)
theory Io_Pool
  imports Go_Prelude "HOL-Library.Multiset"
begin

text \<open>
  \<open>pool/pool.go\<close>: the worker pool that all readers, writers and polls of a process share.  A step
  relation over the groups bound to one pool: what a group has still to submit, what runs, the first
  error of its \<open>errgroup\<close> and the state of its parent context.  Tasks are numbers; what a task does is
  not described, it returns nil, an error or a panic turned into an error, at any time.  The
  \<open>errgroup\<close> is third-party code: its documented behaviour is that the first error cancels the
  context of the group and that \<open>Wait\<close> blocks until every started task has returned.
\<close>

section \<open>The pool and its groups\<close>

datatype task_error = Task_error string | Task_canceled | Task_deadline | Task_panic string

text \<open>\<open>metrics\<close> is the error of \<open>newMetrics\<close>, if it fails.\<close>

definition New_pool :: "int \<Rightarrow> string option \<Rightarrow> string + nat" where
  "New_pool maxConcurrent metrics =
     (if maxConcurrent \<le> 0 then Inl (''pool: maxConcurrent must be > 0, got '' @ itoa maxConcurrent)
      else case metrics of Some e \<Rightarrow> Inl e | None \<Rightarrow> Inr (nat maxConcurrent))"

record io_group =
  gp_todo :: "nat list"
  gp_running :: "nat list"
  gp_returned :: "(nat \<times> task_error option) list"
  gp_skipped :: "nat list"
  gp_err :: "task_error option"
  gp_parent :: "task_error option"
  gp_result :: "task_error option option"

record io_pool =
  io_max :: nat
  io_slots :: nat
  io_groups :: "io_group list"

text \<open>\<open>WithContext\<close>: a new group, and what its owner will submit.\<close>

definition WithContext :: "task_error option \<Rightarrow> nat list \<Rightarrow> io_group" where
  "WithContext parent tasks = \<lparr>gp_todo = tasks, gp_running = [], gp_returned = [], gp_skipped = [], gp_err = None,
     gp_parent = parent, gp_result = None\<rparr>"

definition ctx_done :: "io_group \<Rightarrow> bool" where
  "ctx_done g \<longleftrightarrow> gp_parent g \<noteq> None \<or> gp_err g \<noteq> None"

text \<open>The marker of the worker contexts: \<open>Submit\<close> panics when its context carries the one of its pool.\<close>

definition submit_panics :: "nat set \<Rightarrow> nat \<Rightarrow> bool" where
  "submit_panics markers pool \<longleftrightarrow> pool \<in> markers"

definition marked :: "nat set \<Rightarrow> nat \<Rightarrow> nat set" where
  "marked markers pool = insert pool markers"

text \<open>\<open>Submit\<close> got a slot: the task runs.\<close>

definition admit :: "nat \<Rightarrow> io_group \<Rightarrow> io_group" where
  "admit t g = g\<lparr>gp_todo := tl (gp_todo g), gp_running := t # gp_running g\<rparr>"

definition skip_task :: "nat \<Rightarrow> io_group \<Rightarrow> io_group" where
  "skip_task t g = g\<lparr>gp_todo := tl (gp_todo g), gp_skipped := t # gp_skipped g\<rparr>"

text \<open>The deferred function: a panic became an error, the slot is given back; \<open>errgroup\<close> keeps the first error.\<close>

definition task_return :: "nat \<Rightarrow> task_error option \<Rightarrow> io_group \<Rightarrow> io_group" where
  "task_return t e g = g\<lparr>gp_running := remove1 t (gp_running g), gp_returned := (t, e) # gp_returned g,
     gp_err := (case gp_err g of None \<Rightarrow> e | Some x \<Rightarrow> Some x)\<rparr>"

definition Wait :: "io_group \<Rightarrow> task_error option" where
  "Wait g = (if gp_err g = None \<or> gp_err g = Some Task_canceled
     then (case gp_parent g of Some p \<Rightarrow> Some p | None \<Rightarrow> gp_err g) else gp_err g)"

definition on_group :: "nat \<Rightarrow> (io_group \<Rightarrow> io_group) \<Rightarrow> nat \<Rightarrow> io_pool \<Rightarrow> io_pool" where
  "on_group i f slots s = s\<lparr>io_slots := slots, io_groups := (io_groups s)[i := f (io_groups s ! i)]\<rparr>"

inductive io_step :: "io_pool \<Rightarrow> io_pool \<Rightarrow> bool" where
  submit: "i < length (io_groups s) \<Longrightarrow> gp_todo (io_groups s ! i) = t # ts \<Longrightarrow> io_slots s < io_max s
    \<Longrightarrow> io_step s (on_group i (admit t) (io_slots s + 1) s)"
| submit_skipped: "i < length (io_groups s) \<Longrightarrow> gp_todo (io_groups s ! i) = t # ts \<Longrightarrow> ctx_done (io_groups s ! i)
    \<Longrightarrow> io_step s (on_group i (skip_task t) (io_slots s) s)"
| returned: "i < length (io_groups s) \<Longrightarrow> t \<in> set (gp_running (io_groups s ! i))
    \<Longrightarrow> io_step s (on_group i (task_return t e) (io_slots s - 1) s)"
| waited: "i < length (io_groups s) \<Longrightarrow> gp_todo (io_groups s ! i) = [] \<Longrightarrow> gp_running (io_groups s ! i) = []
    \<Longrightarrow> gp_result (io_groups s ! i) = None
    \<Longrightarrow> io_step s (on_group i (\<lambda>g. g\<lparr>gp_result := Some (Wait g)\<rparr>) (io_slots s) s)"
| cancelled: "i < length (io_groups s) \<Longrightarrow> gp_parent (io_groups s ! i) = None \<Longrightarrow> gp_result (io_groups s ! i) = None
    \<Longrightarrow> io_step s (on_group i (\<lambda>g. g\<lparr>gp_parent := Some e\<rparr>) (io_slots s) s)"

text \<open>A pool whose groups have the given tasks before them.\<close>

definition pool_start :: "nat \<Rightarrow> (task_error option \<times> nat list) list \<Rightarrow> io_pool" where
  "pool_start n gs = \<lparr>io_max = n, io_slots = 0, io_groups = map (\<lambda>(p, ts). WithContext p ts) gs\<rparr>"

section \<open>The slots bound what runs\<close>

definition slots_held :: "io_pool \<Rightarrow> nat" where
  "slots_held s = sum_list (map (\<lambda>g. length (gp_running g)) (io_groups s))"

definition group_sound :: "nat list \<Rightarrow> io_group \<Rightarrow> bool" where
  "group_sound tasks g \<longleftrightarrow>
     mset tasks = mset (gp_todo g) + mset (gp_running g) + mset (map fst (gp_returned g)) + mset (gp_skipped g)
     \<and> (gp_skipped g \<noteq> [] \<longrightarrow> ctx_done g)
     \<and> (case gp_err g of None \<Rightarrow> \<forall>(t, e) \<in> set (gp_returned g). e = None | Some e \<Rightarrow> Some e \<in> snd ` set (gp_returned g))
     \<and> (case gp_result g of None \<Rightarrow> True | Some r \<Rightarrow> gp_todo g = [] \<and> gp_running g = [] \<and> r = Wait g)"

definition pool_inv :: "nat \<Rightarrow> (task_error option \<times> nat list) list \<Rightarrow> io_pool \<Rightarrow> bool" where
  "pool_inv n gs s \<longleftrightarrow> io_max s = n \<and> io_slots s = slots_held s \<and> io_slots s \<le> n
     \<and> list_all2 (\<lambda>(p, ts) g. group_sound ts g) gs (io_groups s)"

lemma sum_list_update:
  "i < length xs \<Longrightarrow> sum_list (map f (xs[i := y])) + f (xs ! i) = sum_list (map f xs) + (f y :: nat)"
  by (induction xs arbitrary: i) (auto split: nat.splits)

lemma on_group_simps [simp]:
  "io_slots (on_group i f k s) = k" "io_max (on_group i f k s) = io_max s"
  "io_groups (on_group i f k s) = (io_groups s)[i := f (io_groups s ! i)]"
  by (simp_all add: on_group_def)

lemma group_simps [simp]:
  "gp_running (admit t g) = t # gp_running g" "gp_running (skip_task t g) = gp_running g"
  "gp_running (task_return t e g) = remove1 t (gp_running g)"
  "gp_todo (admit t g) = tl (gp_todo g)" "gp_todo (skip_task t g) = tl (gp_todo g)" "gp_todo (task_return t e g) = gp_todo g"
  "gp_result (admit t g) = gp_result g" "gp_result (skip_task t g) = gp_result g" "gp_result (task_return t e g) = gp_result g"
  "gp_parent (admit t g) = gp_parent g" "gp_parent (skip_task t g) = gp_parent g" "gp_parent (task_return t e g) = gp_parent g"
  by (simp_all add: admit_def skip_task_def task_return_def)

lemma length_remove_member: "t \<in> set xs \<Longrightarrow> Suc (length (remove1 t xs)) = length xs"
  by (induction xs) auto

lemma held_on_group:
  assumes "i < length (io_groups s)"
  shows "slots_held (on_group i f k s) + length (gp_running (io_groups s ! i)) = slots_held s + length (gp_running (f (io_groups s ! i)))"
  using sum_list_update [OF assms, of "\<lambda>g. length (gp_running g)" "f (io_groups s ! i)"] by (simp only: slots_held_def on_group_simps)

lemma group_sound_step:
  "group_sound ts g \<Longrightarrow> gp_todo g = t # rest \<Longrightarrow> gp_result g = None \<Longrightarrow> group_sound ts (admit t g)"
  "group_sound ts g \<Longrightarrow> gp_todo g = t # rest \<Longrightarrow> ctx_done g \<Longrightarrow> group_sound ts (skip_task t g)"
  "group_sound ts g \<Longrightarrow> t \<in> set (gp_running g) \<Longrightarrow> group_sound ts (task_return t e g)"
  "group_sound ts g \<Longrightarrow> gp_todo g = [] \<Longrightarrow> gp_running g = [] \<Longrightarrow> group_sound ts (g\<lparr>gp_result := Some (Wait g)\<rparr>)"
  "group_sound ts g \<Longrightarrow> gp_parent g = None \<Longrightarrow> gp_result g = None \<Longrightarrow> group_sound ts (g\<lparr>gp_parent := Some e'\<rparr>)"
  by (auto simp: group_sound_def admit_def skip_task_def task_return_def ctx_done_def Wait_def image_iff
      split: option.splits)


lemma pool_inv_start: "pool_inv n gs (pool_start n gs)"
proof -
  have "list_all2 (\<lambda>(p, ts) g. group_sound ts g) gs (map (\<lambda>(p, ts). WithContext p ts) gs)"
    by (induction gs) (auto simp: group_sound_def WithContext_def)
  moreover have "sum_list (map (\<lambda>g. length (gp_running g)) (map (\<lambda>(p, ts). WithContext p ts) gs)) = 0"
    by (induction gs) (auto simp: WithContext_def)
  ultimately show ?thesis by (simp add: pool_inv_def pool_start_def slots_held_def del: sum_list_eq_0_iff)
qed

lemma pool_inv_on_group:
  assumes "pool_inv n gs s" "i < length (io_groups s)" "k \<le> n"
    and "k + length (gp_running (io_groups s ! i)) = io_slots s + length (gp_running (f (io_groups s ! i)))"
    and "\<And>ts. group_sound ts (io_groups s ! i) \<Longrightarrow> group_sound ts (f (io_groups s ! i))"
  shows "pool_inv n gs (on_group i f k s)"
proof -
  have "k = slots_held (on_group i f k s)"
    using held_on_group [OF assms(2), of f k] assms(1,4) by (simp add: pool_inv_def)
  moreover have "list_all2 (\<lambda>(p, ts) g. group_sound ts g) gs ((io_groups s)[i := f (io_groups s ! i)])"
    using assms(1,2,5) by (auto simp: pool_inv_def list_all2_conv_all_nth nth_list_update split: prod.splits)
  ultimately show ?thesis using assms(1,3) by (simp add: pool_inv_def on_group_def)
qed

lemma running_le_held: "i < length (io_groups s) \<Longrightarrow> length (gp_running (io_groups s ! i)) \<le> slots_held s"
  using member_le_sum_list [of "length (gp_running (io_groups s ! i))" "map (\<lambda>g. length (gp_running g)) (io_groups s)"]
  by (simp add: slots_held_def)

lemma pool_inv_step:
  assumes "io_step s s'" "pool_inv n gs s"
  shows "pool_inv n gs s'"
  using assms(1)
proof cases
  case (submit i t ts)
  have r: "gp_result (io_groups s ! i) = None"
    using assms(2) submit(2,3) by (auto simp: pool_inv_def list_all2_conv_all_nth group_sound_def split: option.splits)
  have "io_slots s + 1 \<le> n" using submit(4) assms(2) by (simp add: pool_inv_def)
  then show ?thesis unfolding submit(1)
    by (rule pool_inv_on_group [OF assms(2) submit(2)]) (simp, rule group_sound_step(1) [OF _ submit(3) r])
next
  case (submit_skipped i t ts)
  have "io_slots s \<le> n" using assms(2) by (simp add: pool_inv_def)
  then show ?thesis unfolding submit_skipped(1)
    by (rule pool_inv_on_group [OF assms(2) submit_skipped(2)]) (simp, rule group_sound_step(2) [OF _ submit_skipped(3,4)])
next
  case (returned i t e)
  note l = length_remove_member [OF returned(3)]
  have "io_slots s - 1 \<le> n" "0 < io_slots s"
    using running_le_held [OF returned(2)] assms(2) l by (auto simp: pool_inv_def)
  then show ?thesis unfolding returned(1)
    using l by (intro pool_inv_on_group [OF assms(2) returned(2)] group_sound_step(3) [OF _ returned(3)]) simp_all
next
  case (waited i)
  have "io_slots s \<le> n" using assms(2) by (simp add: pool_inv_def)
  then show ?thesis unfolding waited(1)
    by (rule pool_inv_on_group [OF assms(2) waited(2)]) (simp, rule group_sound_step(4) [OF _ waited(3,4)])
next
  case (cancelled i e)
  have "io_slots s \<le> n" using assms(2) by (simp add: pool_inv_def)
  then show ?thesis unfolding cancelled(1)
    by (rule pool_inv_on_group [OF assms(2) cancelled(2)]) (simp, rule group_sound_step(5) [OF _ cancelled(3,4)])
qed

lemma pool_inv_reach: "io_step\<^sup>*\<^sup>* (pool_start n gs) s \<Longrightarrow> pool_inv n gs s"
  by (induction rule: rtranclp_induct) (auto intro: pool_inv_start pool_inv_step)

text \<open>C31.  However the tasks of any number of groups interleave, never more than \<open>n\<close> of them run at once; and
  the result of \<open>Wait\<close> is right: it is nil only if every task of the group was started and returned nil and the parent
  context is alive, so neither a failure nor a cancellation by the caller passes for success, and
  an error is the parent's or that of a task of this group.\<close>

theorem pool_sound:
  assumes "io_step\<^sup>*\<^sup>* (pool_start n gs) s"
  shows "slots_held s \<le> n \<and> (\<forall>i < length gs. case gp_result (io_groups s ! i) of
      None \<Rightarrow> True
    | Some None \<Rightarrow> mset (map fst (gp_returned (io_groups s ! i))) = mset (snd (gs ! i))
        \<and> (\<forall>(t, e) \<in> set (gp_returned (io_groups s ! i)). e = None) \<and> gp_parent (io_groups s ! i) = None
    | Some (Some e) \<Rightarrow> gp_parent (io_groups s ! i) = Some e \<or> Some e \<in> snd ` set (gp_returned (io_groups s ! i)))"
proof -
  have inv: "pool_inv n gs s" by (rule pool_inv_reach [OF assms])
  have "case gp_result (io_groups s ! i) of
      None \<Rightarrow> True
    | Some None \<Rightarrow> mset (map fst (gp_returned (io_groups s ! i))) = mset (snd (gs ! i))
        \<and> (\<forall>(t, e) \<in> set (gp_returned (io_groups s ! i)). e = None) \<and> gp_parent (io_groups s ! i) = None
    | Some (Some e) \<Rightarrow> gp_parent (io_groups s ! i) = Some e \<or> Some e \<in> snd ` set (gp_returned (io_groups s ! i))"
    if "i < length gs" for i
  proof -
    have "group_sound (snd (gs ! i)) (io_groups s ! i)"
      using inv that by (auto simp: pool_inv_def list_all2_conv_all_nth split_beta)
    then show ?thesis by (auto simp: group_sound_def Wait_def ctx_done_def split: option.splits if_splits)
  qed
  then show ?thesis using inv by (simp add: pool_inv_def)
qed

section \<open>Every group gets through\<close>

definition group_work :: "io_group \<Rightarrow> nat" where
  "group_work g = 2 * length (gp_todo g) + length (gp_running g) + (if gp_result g = None then 1 else 0)
     + (if gp_parent g = None then 1 else 0)"

definition pool_work :: "io_pool \<Rightarrow> nat" where
  "pool_work s = sum_list (map group_work (io_groups s))"

lemma group_work_less:
  "gp_todo g = t # ts \<Longrightarrow> group_work (admit t g) < group_work g"
  "gp_todo g = t # ts \<Longrightarrow> group_work (skip_task t g) < group_work g"
  "t \<in> set (gp_running g) \<Longrightarrow> group_work (task_return t e g) < group_work g"
  "gp_result g = None \<Longrightarrow> group_work (g\<lparr>gp_result := Some r\<rparr>) < group_work g"
  "gp_parent g = None \<Longrightarrow> group_work (g\<lparr>gp_parent := Some p\<rparr>) < group_work g"
  using length_remove_member [of t "gp_running g"] by (simp_all add: group_work_def)

lemma pool_work_on_group:
  "i < length (io_groups s) \<Longrightarrow> group_work (f (io_groups s ! i)) < group_work (io_groups s ! i)
   \<Longrightarrow> pool_work (on_group i f k s) < pool_work s"
  using sum_list_update [of i "io_groups s" group_work "f (io_groups s ! i)"]
  by (simp add: pool_work_def del: map_update)

lemma pool_work_step: "io_step s s' \<Longrightarrow> pool_work s' < pool_work s"
  by (induction rule: io_step.induct) (auto intro!: pool_work_on_group intro: group_work_less)

lemma pool_work_run: "(io_step ^^ k) s s' \<Longrightarrow> k + pool_work s' \<le> pool_work s"
proof (induction k arbitrary: s')
  case (Suc k)
  then obtain u where "(io_step ^^ k) s u" "io_step u s'" by auto
  with Suc.IH [of u] pool_work_step [of u s'] show ?case by simp
qed simp

lemma pool_progress:
  assumes "pool_inv n gs s" "0 < n" "i < length (io_groups s)" "gp_result (io_groups s ! i) = None"
  shows "\<exists>s'. io_step s s' \<and> map gp_parent (io_groups s') = map gp_parent (io_groups s)"
proof (cases "\<exists>j < length (io_groups s). gp_running (io_groups s ! j) \<noteq> []")
  case True
  then obtain j t where j: "j < length (io_groups s)" "t \<in> set (gp_running (io_groups s ! j))" by (metis list.set_sel(1))
  show ?thesis using io_step.returned [OF j, of None] j(1) by (intro exI [of _ "on_group j (task_return t None) (io_slots s - 1) s"])
    (simp add: map_update list_update_same_conv)
next
  case False
  then have "slots_held s = 0" by (auto simp: slots_held_def in_set_conv_nth)
  then have free: "io_slots s < io_max s" using assms(1,2) by (simp add: pool_inv_def)
  show ?thesis
  proof (cases "gp_todo (io_groups s ! i)")
    case Nil
    then show ?thesis using io_step.waited [OF assms(3) Nil _ assms(4)] False assms(3)
      by (intro exI [of _ "on_group i (\<lambda>g. g\<lparr>gp_result := Some (Wait g)\<rparr>) (io_slots s) s"]) (simp add: map_update list_update_same_conv)
  next
    case (Cons t ts)
    then show ?thesis using io_step.submit [OF assms(3) Cons free] assms(3)
      by (intro exI [of _ "on_group i (admit t) (io_slots s + 1) s"]) (simp add: map_update list_update_same_conv)
  qed
qed

text \<open>C32.  Every call gets through: in a pool that \<open>New\<close> accepted and with tasks that return, whatever the
  groups and their tasks do, all the steps together are at most two for every submission and two for
  every group, and as long as some \<open>Wait\<close> has not returned, something other than a cancellation
  can happen; so every \<open>Submit\<close> ends and every \<open>Wait\<close> returns.\<close>

theorem pool_returns:
  assumes "New_pool m metrics = Inr n" "(io_step ^^ k) (pool_start n gs) s"
  shows "k \<le> (\<Sum>(p, ts) \<leftarrow> gs. 2 * length ts + 2)
    \<and> ((\<exists>i < length gs. gp_result (io_groups s ! i) = None)
         \<longrightarrow> (\<exists>s'. io_step s s' \<and> map gp_parent (io_groups s') = map gp_parent (io_groups s)))"
proof -
  have "0 < n" using assms(1) by (auto simp: New_pool_def split: if_splits option.splits)
  have "io_step\<^sup>*\<^sup>* (pool_start n gs) s" using assms(2) by (rule relpowp_imp_rtranclp)
  then have inv: "pool_inv n gs s" by (rule pool_inv_reach)
  have "pool_work (pool_start n gs) \<le> (\<Sum>(p, ts) \<leftarrow> gs. 2 * length ts + 2)"
    unfolding pool_work_def pool_start_def by (induction gs) (auto simp: group_work_def WithContext_def)
  then have "k \<le> (\<Sum>(p, ts) \<leftarrow> gs. 2 * length ts + 2)" using pool_work_run [OF assms(2)] by simp
  moreover have "length (io_groups s) = length gs" using inv by (auto simp: pool_inv_def dest: list_all2_lengthD)
  ultimately show ?thesis using pool_progress [OF inv \<open>0 < n\<close>] by auto
qed

section \<open>Two tasks on one slot\<close>

definition demo_pool :: "io_pool" where
  "demo_pool = pool_start 1 [(None, [7, 8])]"

lemma demo_pool_run:
  "\<exists>s. (io_step ^^ 3) demo_pool s \<and> slots_held s = 1 \<and> gp_err (io_groups s ! 0) = Some Task_deadline"
proof -
  let ?g = "WithContext None [7, 8]"
  let ?s1 = "on_group 0 (admit 7) 1 demo_pool"
  let ?s2 = "on_group 0 (task_return 7 (Some Task_deadline)) 0 ?s1"
  let ?s3 = "on_group 0 (admit 8) 1 ?s2"
  have 1: "io_step demo_pool ?s1" using io_step.submit [of 0 demo_pool 7 "[8]"] by (simp add: demo_pool_def pool_start_def WithContext_def)
  have 2: "io_step ?s1 ?s2" using io_step.returned [of 0 ?s1 7 "Some Task_deadline"]
    by (simp add: demo_pool_def pool_start_def WithContext_def)
  have 3: "io_step ?s2 ?s3" using io_step.submit [of 0 ?s2 8 "[]"]
    by (simp add: demo_pool_def pool_start_def WithContext_def)
  have "(io_step ^^ 3) demo_pool ?s3" using 1 2 3 by (auto simp: numeral_3_eq_3)
  moreover have "slots_held ?s3 = 1" "gp_err (io_groups ?s3 ! 0) = Some Task_deadline"
    by (simp_all add: slots_held_def demo_pool_def pool_start_def WithContext_def admit_def task_return_def)
  ultimately show ?thesis by blast
qed

theorem pool_sound_witness:
  "\<exists>s. (io_step ^^ 3) demo_pool s \<and> slots_held s = 1 \<and> slots_held s \<le> 1"
proof -
  obtain s where s: "(io_step ^^ 3) demo_pool s" "slots_held s = 1" using demo_pool_run by blast
  have "io_step\<^sup>*\<^sup>* (pool_start 1 [(None, [7, 8])]) s" using s(1) unfolding demo_pool_def by (rule relpowp_imp_rtranclp)
  from pool_sound [OF this] s show ?thesis by blast
qed

theorem pool_returns_witness:
  "\<exists>s s'. (io_step ^^ 3) demo_pool s \<and> io_step s s' \<and> 3 \<le> (\<Sum>(p, ts) \<leftarrow> [(None :: task_error option, [7, 8 :: nat])]. 2 * length ts + 2)"
proof -
  obtain s where s: "(io_step ^^ 3) demo_pool s" "slots_held s = 1" using demo_pool_run by blast
  have start: "(io_step ^^ 3) (pool_start 1 [(None, [7, 8])]) s" using s(1) by (simp add: demo_pool_def)
  have inv: "pool_inv 1 [(None, [7, 8])] s" by (rule pool_inv_reach [OF relpowp_imp_rtranclp [OF start]])
  have "gp_result (io_groups s ! 0) = None"
  proof (cases "gp_result (io_groups s ! 0)")
    case (Some r)
    then have "gp_running (io_groups s ! 0) = []" "length (io_groups s) = 1"
      using inv by (auto simp: pool_inv_def group_sound_def list_all2_conv_all_nth)
    then have "slots_held s = 0" by (cases "io_groups s") (auto simp: slots_held_def)
    with s(2) show ?thesis by simp
  qed
  moreover have "New_pool 1 None = Inr 1" by (simp add: New_pool_def)
  ultimately show ?thesis using pool_returns [of 1 None 1, OF _ start] s(1) by auto
qed

end
