(* ===== verification/Feed_Listen.thy ===== *)
theory Feed_Listen
  imports Feed_Correct
begin

text \<open>
  The two goroutines of a running sequencer, \<open>Run\<close> and \<open>runListen\<close> of \<open>sequencer/sequencer.go\<close>, one
  event at a time: the drain passes, the ticker, the wake-up channel of capacity one, the LISTEN
  connection with its errors and its reconnects, and the writers of other processes that commit rows and notify.
  An event that is not enabled is \<open>None\<close>.  A notification carries nothing; the ids of the rows it
  announces, \<open>sr_inbox\<close> and \<open>sr_forwarded\<close>, and \<open>sr_failed\<close>, whether the last drain ended with an error,
  are only observed.
\<close>

section \<open>The state of a running sequencer\<close>

definition listenSQL :: "sanitizer \<Rightarrow> seq_config \<Rightarrow> string" where
  "listenSQL san cfg = ''LISTEN '' @ san [sc_notify_channel cfg]"

datatype main_pc = Sm_initial | Sm_select | Sm_drain | Sm_leave seq_error | Sm_returned seq_error

datatype listen_pc = Li_off | Li_head | Li_acquired | Li_waiting | Li_pause | Li_stopped

record seq_run =
  sr_db :: catalog
  sr_main :: main_pc
  sr_listen :: listen_pc
  sr_wake :: bool
  sr_cancelled :: bool
  sr_inbox :: "int list list"
  sr_forwarded :: "int list"
  sr_failed :: bool

definition run_start :: "catalog \<Rightarrow> seq_run" where
  "run_start db = \<lparr>sr_db = db, sr_main = Sm_initial, sr_listen = Li_off, sr_wake = False, sr_cancelled = False,
     sr_inbox = [], sr_forwarded = [], sr_failed = False\<rparr>"

text \<open>\<open>listenCtx\<close>: a child of the context of \<open>Run\<close>, cancelled when \<open>Run\<close> leaves.\<close>

definition listen_done :: "seq_run \<Rightarrow> bool" where
  "listen_done s \<longleftrightarrow> sr_cancelled s \<or> (case sr_main s of Sm_leave _ \<Rightarrow> True | Sm_returned _ \<Rightarrow> True | _ \<Rightarrow> False)"

section \<open>The events\<close>

text \<open>The result of a drain pass.  The initial drain aborts \<open>Run\<close> when it fails and starts the listener
  when it ends.\<close>

definition after_pass :: "seq_config \<Rightarrow> nat \<Rightarrow> seq_error option \<Rightarrow> seq_run \<Rightarrow> seq_run" where
  "after_pass r n err s =
     (case err of
        Some e \<Rightarrow>
          if sr_main s = Sm_initial then s\<lparr>sr_main := Sm_returned e\<rparr>
          else if is_cancelled e then s\<lparr>sr_main := Sm_leave e\<rparr>
          else s\<lparr>sr_main := Sm_select, sr_failed := True\<rparr>
      | None \<Rightarrow>
          if int n < sc_batch_size r then
            s\<lparr>sr_main := Sm_select, sr_failed := False,
              sr_listen := (if sr_main s = Sm_initial then Li_head else sr_listen s)\<rparr>
          else s)"

datatype main_ev = Ev_pass seq_env | Ev_tick | Ev_wake | Ev_ctx_done | Ev_return

definition main_event :: "seq_config \<Rightarrow> main_ev \<Rightarrow> seq_run \<Rightarrow> seq_run option" where
  "main_event r ev s =
     (case ev of
        Ev_pass env \<Rightarrow>
          if sr_main s = Sm_initial \<or> sr_main s = Sm_drain then
            (case runOnceWithMetrics r env (sr_db s) of ((n, err), db') \<Rightarrow> Some (after_pass r n err (s\<lparr>sr_db := db'\<rparr>)))
          else None
      | Ev_tick \<Rightarrow> if sr_main s = Sm_select then Some (s\<lparr>sr_main := Sm_drain\<rparr>) else None
      | Ev_wake \<Rightarrow>
          if sr_main s = Sm_select \<and> sr_wake s then Some (s\<lparr>sr_main := Sm_drain, sr_wake := False\<rparr>) else None
      | Ev_ctx_done \<Rightarrow>
          if sr_main s = Sm_select \<and> sr_cancelled s then Some (s\<lparr>sr_main := Sm_leave Sq_cancelled\<rparr>) else None
      | Ev_return \<Rightarrow>
          (case sr_main s of
             Sm_leave e \<Rightarrow> if sr_listen s = Li_stopped then Some (s\<lparr>sr_main := Sm_returned e\<rparr>) else None
           | _ \<Rightarrow> None))"

text \<open>\<open>listenOnce\<close>: \<open>Acquire\<close>, LISTEN and \<open>WaitForNotification\<close> succeed or fail; a notification is forwarded with a
  send that does not block.  \<open>runListen\<close>: the check of the context, the wait between two connections.\<close>

datatype listen_ev = Ev_acquire "sql_error option" | Ev_listen "sql_error option" | Ev_notification
  | Ev_lost sql_error | Ev_backoff | Ev_stop

definition listenOnce :: "listen_ev \<Rightarrow> seq_run \<Rightarrow> seq_run option" where
  "listenOnce ev s =
     (case ev of
        Ev_acquire err \<Rightarrow>
          if sr_listen s = Li_head \<and> \<not> listen_done s
          then Some (s\<lparr>sr_listen := (if err = None then Li_acquired else Li_pause)\<rparr>) else None
      | Ev_listen err \<Rightarrow>
          if sr_listen s = Li_acquired then Some (s\<lparr>sr_listen := (if err = None then Li_waiting else Li_pause)\<rparr>) else None
      | Ev_notification \<Rightarrow>
          (case (sr_listen s, sr_inbox s) of
             (Li_waiting, ids # rest) \<Rightarrow>
               Some (s\<lparr>sr_inbox := rest, sr_wake := True, sr_forwarded := sr_forwarded s @ ids\<rparr>)
           | _ \<Rightarrow> None)
      | Ev_lost e \<Rightarrow> if sr_listen s = Li_waiting then Some (s\<lparr>sr_listen := Li_pause, sr_inbox := []\<rparr>) else None
      | _ \<Rightarrow> None)"

definition runListen :: "listen_ev \<Rightarrow> seq_run \<Rightarrow> seq_run option" where
  "runListen ev s =
     (case ev of
        Ev_backoff \<Rightarrow> if sr_listen s = Li_pause then Some (s\<lparr>sr_listen := Li_head\<rparr>) else None
      | Ev_stop \<Rightarrow>
          if sr_listen s \<in> {Li_head, Li_pause} \<and> listen_done s then Some (s\<lparr>sr_listen := Li_stopped\<rparr>) else None
      | _ \<Rightarrow> listenOnce ev s)"

text \<open>What the other processes do: a transaction commits new rows, with a notification or without, and only a
  connection that listens receives it; the caller cancels.\<close>

datatype seq_ev = Ev_main main_ev | Ev_listener listen_ev | Ev_commit "file_row list" bool | Ev_cancel

definition commit_rows :: "file_row list \<Rightarrow> bool \<Rightarrow> seq_run \<Rightarrow> seq_run option" where
  "commit_rows rows notify s =
     (if (\<forall>r \<in> set rows. f_feed_seq r = None) \<and> distinct (map f_file_id (c_files (sr_db s) @ rows)) then
        Some (s\<lparr>sr_db := (sr_db s)\<lparr>c_files := c_files (sr_db s) @ rows\<rparr>,
           sr_inbox := (if notify \<and> sr_listen s = Li_waiting then sr_inbox s @ [map f_file_id rows] else sr_inbox s)\<rparr>)
      else None)"

definition seq_event :: "seq_config \<Rightarrow> seq_ev \<Rightarrow> seq_run \<Rightarrow> seq_run option" where
  "seq_event r ev s =
     (case ev of
        Ev_main e \<Rightarrow> main_event r e s
      | Ev_listener e \<Rightarrow> runListen e s
      | Ev_commit rows notify \<Rightarrow> commit_rows rows notify s
      | Ev_cancel \<Rightarrow> Some (s\<lparr>sr_cancelled := True\<rparr>))"

fun seq_events :: "seq_config \<Rightarrow> seq_ev list \<Rightarrow> seq_run \<Rightarrow> seq_run option" where
  "seq_events r [] s = Some s"
| "seq_events r (ev # evs) s = (case seq_event r ev s of None \<Rightarrow> None | Some s' \<Rightarrow> seq_events r evs s')"

text \<open>The rows of other sessions are events of their own, so a pass has none in it.\<close>

definition alone :: "seq_ev \<Rightarrow> bool" where
  "alone ev \<longleftrightarrow> (case ev of Ev_main (Ev_pass env) \<Rightarrow> q_others env = (\<lambda>db. db) | _ \<Rightarrow> True)"

section \<open>No wake-up is lost\<close>

definition numbered_id :: "catalog \<Rightarrow> int \<Rightarrow> bool" where
  "numbered_id db i \<longleftrightarrow> (\<exists>r \<in> set (c_files db). f_file_id r = i \<and> f_feed_seq r \<noteq> None)"

definition known_id :: "catalog \<Rightarrow> int \<Rightarrow> bool" where
  "known_id db i \<longleftrightarrow> i \<in> f_file_id ` set (c_files db)"

text \<open>The invariant of the two goroutines: the listener exists from the end of the initial drain, and is gone
  when \<open>Run\<close> has returned.\<close>

fun pcs_ok :: "main_pc \<Rightarrow> listen_pc \<Rightarrow> bool" where
  "pcs_ok Sm_initial l = (l = Li_off)"
| "pcs_ok Sm_select l = (l \<noteq> Li_off)"
| "pcs_ok Sm_drain l = (l \<noteq> Li_off)"
| "pcs_ok (Sm_leave e) l = (l \<noteq> Li_off)"
| "pcs_ok (Sm_returned e) l = (l = Li_off \<or> l = Li_stopped)"

definition run_inv :: "seq_run \<Rightarrow> bool" where
  "run_inv s \<longleftrightarrow> ids_distinct (sr_db s) \<and> gap_free (sr_db s)
     \<and> (\<forall>i \<in> set (sr_forwarded s). known_id (sr_db s) i)
     \<and> (\<forall>ids \<in> set (sr_inbox s). \<forall>i \<in> set ids. known_id (sr_db s) i)
     \<and> (sr_main s = Sm_select \<and> \<not> sr_wake s \<and> \<not> sr_failed s \<longrightarrow> (\<forall>i \<in> set (sr_forwarded s). numbered_id (sr_db s) i))
     \<and> pcs_ok (sr_main s) (sr_listen s)"

lemma run_inv_start: "ids_distinct db \<Longrightarrow> gap_free db \<Longrightarrow> run_inv (run_start db)"
  by (simp add: run_inv_def run_start_def)

lemma alone_others_ok: "q_others env = (\<lambda>db. db) \<Longrightarrow> others_ok env"
  by (simp add: others_ok_def)

lemma pass_known:
  assumes "runOnceWithMetrics r env db = ((n, err), db')" "q_others env = (\<lambda>db. db)"
  shows "known_id db' i = known_id db i"
proof -
  have "map f_file_id (c_files (snd (sql_assign now limit db))) = map f_file_id (c_files db)" for now limit
    by (simp add: comp_def)
  then have "f_file_id ` set (c_files (snd (sql_assign now limit db))) = f_file_id ` set (c_files db)" for now limit
    by (metis list.set_map)
  with assms show ?thesis by (auto elim!: RunOnce_cases simp: known_id_def)
qed

text \<open>A pass that numbers fewer rows than a batch has numbered all there were.\<close>

lemma short_pass_numbers:
  assumes run: "runOnceWithMetrics r env db = ((n, None), db')" and "q_others env = (\<lambda>db. db)" "ids_distinct db"
    and "int n < sc_batch_size r" "known_id db' i"
  shows "numbered_id db' i"
proof -
  have ids: "ids_distinct (q_others env db)" using assms(2,3) by simp
  note p = pass_quiet [OF run ids]
  have "length (unsequenced db') = 0" using p(2,3) assms(4) by linarith
  then show ?thesis using assms(5) by (auto simp: unsequenced_def known_id_def numbered_id_def filter_empty_conv)
qed

lemma run_inv_pass:
  assumes inv: "run_inv s" and run: "runOnceWithMetrics r env (sr_db s) = ((n, err), db')"
    and alone: "q_others env = (\<lambda>db. db)" and pc: "sr_main s = Sm_initial \<or> sr_main s = Sm_drain"
  shows "run_inv (after_pass r n err (s\<lparr>sr_db := db'\<rparr>))"
proof -
  have d: "ids_distinct db'" "gap_free db'"
    using RunOnce_keeps [OF run _ _ alone_others_ok [OF alone]] inv by (auto simp: run_inv_def)
  have k: "known_id db' i = known_id (sr_db s) i" for i by (rule pass_known [OF run alone])
  have full: "numbered_id db' i" if "err = None" "int n < sc_batch_size r" "known_id db' i" for i
    using short_pass_numbers [OF run [unfolded that(1)] alone _ that(2,3)] inv by (simp add: run_inv_def)
  show ?thesis
    using inv d pc full by (auto simp: run_inv_def after_pass_def k split: option.splits)
qed

lemma run_inv_commit:
  assumes "run_inv s" "commit_rows rows notify s = Some s'"
  shows "run_inv s'"
proof -
  let ?db = "(sr_db s)\<lparr>c_files := c_files (sr_db s) @ rows\<rparr>"
  have new: "\<forall>r \<in> set rows. f_feed_seq r = None" "distinct (map f_file_id (c_files (sr_db s) @ rows))"
    and s': "s' = s\<lparr>sr_db := ?db, sr_inbox := (if notify \<and> sr_listen s = Li_waiting
        then sr_inbox s @ [map f_file_id rows] else sr_inbox s)\<rparr>"
    using assms(2) by (auto simp: commit_rows_def split: if_splits)
  have 1: "gap_free ?db" using assms(1) new(1) by (simp add: run_inv_def gap_free_def sequenced_none)
  have 2: "ids_distinct ?db" using new(2) by (simp add: ids_distinct_def)
  have 3: "known_id (sr_db s) i \<Longrightarrow> known_id ?db i" "numbered_id (sr_db s) i \<Longrightarrow> numbered_id ?db i" for i
    by (auto simp: known_id_def numbered_id_def)
  have 4: "known_id ?db (f_file_id r)" if "r \<in> set rows" for r using that by (simp add: known_id_def)
  have inbox: "\<forall>ids \<in> set (if notify \<and> sr_listen s = Li_waiting then sr_inbox s @ [map f_file_id rows] else sr_inbox s).
      \<forall>i \<in> set ids. known_id ?db i"
    using assms(1) 3(1) 4 by (auto simp: run_inv_def)
  show ?thesis unfolding s' run_inv_def
    using assms(1) [unfolded run_inv_def] 1 2 3 inbox by (simp del: set_append)
qed

lemma run_inv_main:
  assumes "run_inv s" "alone (Ev_main e)" "main_event r e s = Some s'"
  shows "run_inv s'"
proof (cases e)
  case (Ev_pass env)
  then have pc: "sr_main s = Sm_initial \<or> sr_main s = Sm_drain" and alone: "q_others env = (\<lambda>db. db)"
    using assms(2,3) by (auto simp: main_event_def alone_def split: if_splits)
  obtain n err db' where run: "runOnceWithMetrics r env (sr_db s) = ((n, err), db')" by (metis prod.collapse)
  then have "s' = after_pass r n err (s\<lparr>sr_db := db'\<rparr>)" using assms(3) Ev_pass pc by (auto simp: main_event_def)
  then show ?thesis using run_inv_pass [OF assms(1) run alone pc] by simp
next
  case Ev_tick
  with assms show ?thesis by (simp add: main_event_def run_inv_def split: if_splits) auto
next
  case Ev_wake
  with assms show ?thesis by (simp add: main_event_def run_inv_def split: if_splits) auto
next
  case Ev_ctx_done
  with assms show ?thesis by (simp add: main_event_def run_inv_def split: if_splits) auto
next
  case Ev_return
  with assms show ?thesis by (simp add: main_event_def run_inv_def split: if_splits main_pc.splits) auto
qed

lemma run_inv_listener:
  assumes "run_inv s" "runListen e s = Some s'"
  shows "run_inv s'"
proof -
  have off: "pcs_ok (sr_main s) l" if "sr_listen s \<noteq> Li_off" "sr_listen s \<noteq> Li_stopped" "l \<noteq> Li_off" for l
    using assms(1) that by (cases "sr_main s") (auto simp: run_inv_def)
  show ?thesis
  proof (cases e)
    case Ev_notification
    then obtain ids rest where w: "sr_listen s = Li_waiting" "sr_inbox s = ids # rest"
      and s': "s' = s\<lparr>sr_inbox := rest, sr_wake := True, sr_forwarded := sr_forwarded s @ ids\<rparr>"
      using assms(2) by (auto simp: runListen_def listenOnce_def split: listen_pc.splits list.splits)
    show ?thesis using assms(1) w unfolding s' run_inv_def by auto
  next
    case (Ev_acquire err)
    with assms off show ?thesis by (auto simp: runListen_def listenOnce_def run_inv_def split: if_splits)
  next
    case (Ev_listen err)
    with assms off show ?thesis by (auto simp: runListen_def listenOnce_def run_inv_def split: if_splits)
  next
    case (Ev_lost err)
    with assms off show ?thesis by (auto simp: runListen_def listenOnce_def run_inv_def split: if_splits)
  next
    case Ev_backoff
    with assms off show ?thesis by (auto simp: runListen_def listenOnce_def run_inv_def split: if_splits)
  next
    case Ev_stop
    with assms off show ?thesis by (auto simp: runListen_def listenOnce_def run_inv_def split: if_splits)
  qed
qed

lemma run_inv_event:
  assumes "run_inv s" "alone ev" "seq_event r ev s = Some s'"
  shows "run_inv s'"
proof (cases ev)
  case (Ev_main e)
  with assms show ?thesis by (simp add: seq_event_def run_inv_main)
next
  case (Ev_listener e)
  with assms show ?thesis by (simp add: seq_event_def run_inv_listener)
next
  case (Ev_commit rows notify)
  with assms show ?thesis by (simp add: seq_event_def run_inv_commit)
next
  case Ev_cancel
  with assms show ?thesis by (auto simp: seq_event_def run_inv_def)
qed

lemma run_inv_events: "seq_events r evs s = Some s' \<Longrightarrow> run_inv s \<Longrightarrow> \<forall>ev \<in> set evs. alone ev \<Longrightarrow> run_inv s'"
  by (induction evs arbitrary: s) (auto split: option.splits dest: run_inv_event)

text \<open>C18.  Whatever the writers, the ticker, the LISTEN connection and the two goroutines do, in any order:
  the feed stays gap-free; a row whose notification the listener has forwarded is numbered whenever the sequencer sits in
  its \<open>select\<close> with no wake-up pending and the last drain did not fail, so coalescing on the channel of capacity
  one loses nothing; and \<open>Run\<close> returns only when the listener has stopped.\<close>

theorem wakeups_kept:
  assumes "seq_events r evs (run_start db) = Some s" "\<forall>ev \<in> set evs. alone ev"
    and "ids_distinct db" "gap_free db"
  shows "gap_free (sr_db s)
    \<and> (sr_main s = Sm_select \<and> \<not> sr_wake s \<and> \<not> sr_failed s \<longrightarrow> (\<forall>i \<in> set (sr_forwarded s). numbered_id (sr_db s) i))
    \<and> (\<forall>e. sr_main s = Sm_returned e \<longrightarrow> sr_listen s \<in> {Li_off, Li_stopped})"
proof -
  have "run_inv s" by (rule run_inv_events [OF assms(1) run_inv_start [OF assms(3,4)] assms(2)])
  then show ?thesis by (auto simp: run_inv_def)
qed

text \<open>From a \<open>select\<close> that is left, the goroutines can always come to an end.\<close>

lemma leave_returns:
  assumes "sr_main s = Sm_leave e" "sr_listen s \<noteq> Li_off"
  shows "\<exists>evs s'. length evs \<le> 3 \<and> seq_events r evs s = Some s' \<and> sr_main s' = Sm_returned e"
proof -
  let ?stop = "[Ev_listener Ev_stop, Ev_main Ev_return]"
  note d = seq_event_def main_event_def runListen_def listenOnce_def listen_done_def
  consider "sr_listen s = Li_stopped" | "sr_listen s = Li_head \<or> sr_listen s = Li_pause" | "sr_listen s = Li_acquired"
    | "sr_listen s = Li_waiting" using assms(2) by (cases "sr_listen s") auto
  then show ?thesis
  proof cases
    case 1
    with assms(1) show ?thesis by (intro exI [of _ "[Ev_main Ev_return]"]) (simp add: d)
  next
    case 2
    with assms(1) show ?thesis by (intro exI [of _ ?stop]) (auto simp: d)
  next
    case 3
    with assms(1) show ?thesis
      by (intro exI [of _ "Ev_listener (Ev_listen (Some Bad_argument)) # ?stop"]) (auto simp: d)
  next
    case 4
    with assms(1) show ?thesis
      by (intro exI [of _ "Ev_listener (Ev_lost Bad_argument) # ?stop"]) (auto simp: d)
  qed
qed

section \<open>A notification between two drains\<close>

definition demo_drain :: "seq_ev list" where
  "demo_drain = replicate 3 (Ev_main (Ev_pass quiet_seq))"

definition demo_events :: "seq_ev list" where
  "demo_events = demo_drain @ [Ev_listener (Ev_acquire None), Ev_listener (Ev_listen None),
     Ev_commit [blank_file 8 50] True, Ev_commit [blank_file 9 51] True, Ev_listener Ev_notification,
     Ev_listener Ev_notification, Ev_main Ev_wake] @ demo_drain"

theorem wakeups_kept_witness:
  "sr_forwarded (the (seq_events demo_seq demo_events (run_start demo_catalog))) = [8, 9]
   \<and> numbered_id (sr_db (the (seq_events demo_seq demo_events (run_start demo_catalog)))) 9"
proof -
  have "map_option (\<lambda>s. (sr_main s, sr_wake s, sr_failed s, sr_forwarded s)) (seq_events demo_seq demo_events (run_start demo_catalog))
      = Some (Sm_select, False, False, [8, 9])" by code_simp
  then obtain s where run: "seq_events demo_seq demo_events (run_start demo_catalog) = Some s"
    and s: "sr_main s = Sm_select" "\<not> sr_wake s" "\<not> sr_failed s" "sr_forwarded s = [8, 9]" by auto
  have "\<forall>ev \<in> set demo_events. alone ev" by (simp add: demo_events_def demo_drain_def alone_def quiet_seq_def)
  from wakeups_kept [OF run this demo_feed] s run show ?thesis by simp
qed

end
