(* ===== verification/Executor.thy ===== *)
theory Executor
  imports Write_Path
begin

text \<open>
  \<open>executor.go\<close>: the transaction a context carries and the default executor over a connection pool.
  A callback is a function on the state it works on, which it leaves with nil, an error or a panic;
  \<open>undo w w'\<close> is what a rollback makes of the state \<open>w'\<close> of a transaction begun in \<open>w\<close>.  The transactions of the write path
  are those of this executor.
\<close>

section \<open>Contexts\<close>

text \<open>A context: the transaction under \<open>txCtxKey\<close>, whether it is cancelled, and its other values.\<close>

record 'tx go_ctx =
  cx_tx :: "'tx option"
  cx_cancelled :: bool
  cx_values :: "string \<Rightarrow> string option"

definition WithTx :: "'tx go_ctx \<Rightarrow> 'tx \<Rightarrow> 'tx go_ctx" where
  "WithTx ctx tx = ctx\<lparr>cx_tx := Some tx\<rparr>"

definition txFromContext :: "'tx go_ctx \<Rightarrow> 'tx option" where
  "txFromContext ctx = cx_tx ctx"

definition DetachTx :: "'tx go_ctx \<Rightarrow> 'tx go_ctx" where
  "DetachTx ctx = ctx\<lparr>cx_tx := None\<rparr>"

section \<open>The pool executor\<close>

datatype 'tx dbtx = Host_tx 'tx | Pool_conn | Pool_tx

datatype 'e fn_exit = Fn_nil | Fn_error 'e | Fn_panic string

datatype 'e exec_error =
    ErrNilPool
  | Ex_acquire sql_error
  | Ex_begin sql_error
  | Ex_fn 'e
  | Ex_commit string

text \<open>How a call ends: nil, an error, or the panic of the callback, raised again.\<close>

datatype 'e exec_exit = Ex_nil | Ex_error "'e exec_error" | Ex_panic string

fun fn_result :: "'e fn_exit \<Rightarrow> 'e exec_exit" where
  "fn_result Fn_nil = Ex_nil"
| "fn_result (Fn_error e) = Ex_error (Ex_fn e)"
| "fn_result (Fn_panic p) = Ex_panic p"

record exec_env =
  x_pool :: bool  \<comment> \<open>non-nil\<close>
  x_acquire :: "sql_error option"
  x_begin :: "sql_error option"
  x_commit :: commit_outcome

definition Run :: "exec_env \<Rightarrow> 'tx go_ctx \<Rightarrow> ('tx dbtx \<Rightarrow> 'w \<Rightarrow> 'e fn_exit \<times> 'w) \<Rightarrow> 'w \<Rightarrow> 'e exec_exit \<times> 'w" where
  "Run env ctx fn w =
     (case txFromContext ctx of
        Some tx \<Rightarrow> (case fn (Host_tx tx) w of (x, w') \<Rightarrow> (fn_result x, w'))
      | None \<Rightarrow>
          if \<not> x_pool env then (Ex_error ErrNilPool, w)
          else (case x_acquire env of
                  Some e \<Rightarrow> (Ex_error (Ex_acquire e), w)
                | None \<Rightarrow> (case fn Pool_conn w of (x, w') \<Rightarrow> (fn_result x, w'))))"

text \<open>\<open>RunInTx\<close> with its deferred function: after an error or a panic the transaction is rolled back, a rollback that fails
  is only logged (the server then rolls back when the connection is gone), and a panic goes on.\<close>

definition RunInTx ::
  "exec_env \<Rightarrow> ('w \<Rightarrow> 'w \<Rightarrow> 'w) \<Rightarrow> 'tx go_ctx \<Rightarrow> ('tx dbtx \<Rightarrow> 'w \<Rightarrow> 'e fn_exit \<times> 'w) \<Rightarrow> 'w \<Rightarrow> 'e exec_exit \<times> 'w" where
  "RunInTx env undo ctx fn w =
     (case txFromContext ctx of
        Some tx \<Rightarrow> (case fn (Host_tx tx) w of (x, w') \<Rightarrow> (fn_result x, w'))
      | None \<Rightarrow>
          if \<not> x_pool env then (Ex_error ErrNilPool, w)
          else (case x_begin env of
                  Some e \<Rightarrow> (Ex_error (Ex_begin e), w)
                | None \<Rightarrow>
                    (case fn Pool_tx w of
                       (Fn_panic p, w') \<Rightarrow> (Ex_panic p, undo w w')
                     | (Fn_error e, w') \<Rightarrow> (Ex_error (Ex_fn e), undo w w')
                     | (Fn_nil, w') \<Rightarrow>
                         (case x_commit env of
                            Commit_ok \<Rightarrow> (Ex_nil, w')
                          | Commit_failed m \<Rightarrow> (Ex_error (Ex_commit m), undo w w')
                          | Commit_lost m \<Rightarrow> (Ex_error (Ex_commit m), w')))))"

lemma ctx_tx_simps [simp]:
  "txFromContext (WithTx ctx tx) = Some tx" "txFromContext (DetachTx ctx) = None"
  "cx_cancelled (DetachTx ctx) = cx_cancelled ctx" "cx_values (DetachTx ctx) = cx_values ctx"
  "cx_cancelled (WithTx ctx tx) = cx_cancelled ctx" "cx_values (WithTx ctx tx) = cx_values ctx"
  "DetachTx (WithTx ctx tx) = DetachTx ctx"
  by (simp_all add: WithTx_def txFromContext_def DetachTx_def)

text \<open>In a host transaction nothing is begun, committed or rolled back; detached from it, the call is the one of the pool.\<close>

lemma RunInTx_host: "txFromContext ctx = Some tx \<Longrightarrow> RunInTx env undo ctx fn w = Run env ctx fn w"
  by (simp add: RunInTx_def Run_def)

lemma RunInTx_atomic:
  assumes "RunInTx env undo ctx fn w = (res, w')" "txFromContext ctx = None"
  shows "res = Ex_nil \<and> fn Pool_tx w = (Fn_nil, w')
    \<or> res \<noteq> Ex_nil \<and> (w' = w \<or> w' = undo w (snd (fn Pool_tx w)))
    \<or> (\<exists>m. x_commit env = Commit_lost m \<and> res = Ex_error (Ex_commit m) \<and> fn Pool_tx w = (Fn_nil, w'))"
  using assms unfolding RunInTx_def
  by (auto split: if_splits option.splits prod.splits fn_exit.splits commit_outcome.splits)

section \<open>The transaction of the write path\<close>

text \<open>The state of the callback of \<open>writePartition\<close>: the world, and the variables it sets.\<close>

definition undo_world :: "world \<times> 'v \<Rightarrow> world \<times> 'v \<Rightarrow> world \<times> 'v" where
  "undo_world s s' = ((fst s)\<lparr>wd_db := rollback (wd_db (fst s)) (wd_db (fst s')), wd_s3 := wd_s3 (fst s')\<rparr>, snd s')"

definition tx_callback ::
  "(world \<Rightarrow> tx_state) \<Rightarrow> 'tx dbtx \<Rightarrow> world \<times> (int \<times> int \<times> int) \<times> bool
   \<Rightarrow> tx_error fn_exit \<times> world \<times> (int \<times> int \<times> int) \<times> bool" where
  "tx_callback body d = (\<lambda>(w, vars, _).
     (let t = body w; w' = w\<lparr>wd_db := tx_db t, wd_s3 := tx_s3 t\<rparr> in
      case tx_res t of
        Inl e \<Rightarrow> (Fn_error e, w', vars, tx_put_attempted t)
      | Inr (version, fileID, writtenAt, ns) \<Rightarrow>
          (Fn_nil, w'\<lparr>wd_notified := wd_notified w @ ns\<rparr>, (version, fileID, writtenAt), tx_put_attempted t)))"

definition tx_env :: "'a env \<Rightarrow> exec_env" where
  "tx_env env = \<lparr>x_pool = True, x_acquire = None, x_begin = e_begin env, x_commit = e_commit env\<rparr>"

fun write_tx_result :: "tx_error exec_exit \<times> world \<times> (int \<times> int \<times> int) \<times> bool \<Rightarrow> (tx_error + int \<times> int \<times> int) \<times> bool \<times> world" where
  "write_tx_result (Ex_nil, w, vars, attempted) = (Inr vars, attempted, w)"
| "write_tx_result (Ex_error (Ex_begin e), w, vars, attempted) = (Inl (Tx_begin e), attempted, w)"
| "write_tx_result (Ex_error (Ex_commit m), w, vars, attempted) = (Inl (Tx_commit m), attempted, w)"
| "write_tx_result (Ex_error (Ex_fn e), w, vars, attempted) = (Inl e, attempted, w)"
| "write_tx_result (_, w, vars, attempted) = (Inl Tx_version_conflict, attempted, w)"

text \<open>The write path's transaction is \<open>RunInTx\<close> on a context without a transaction.\<close>

lemma write_tx_runs:
  assumes "txFromContext ctx = None"
  shows "run_write_tx env body w
    = write_tx_result (RunInTx (tx_env env) undo_world ctx (tx_callback body) (w, (0, 0, 0), False))"
  using assms
  by (simp add: run_write_tx_def RunInTx_def tx_env_def tx_callback_def undo_world_def Let_def
      split: option.splits sum.splits prod.splits commit_outcome.splits)

end
