(* ===== verification/Host_Tx.thy ===== *)
theory Host_Tx
  imports Executor Write_Backed
begin

text \<open>
  Writes inside a transaction of the caller (\<open>WithTx\<close>): the tracking row commits on its own through
  \<open>DetachTx\<close>, everything else happens in the caller's transaction, which sees it, and takes effect only when the caller
  commits.  PostgreSQL refuses every statement of a transaction after one of its statements
  failed, and its COMMIT is then a ROLLBACK.  Other sessions are idle here; the faults of each write are those of its environment.
\<close>

section \<open>A transaction of the caller\<close>

text \<open>The committed world and the world as the transaction sees it; the bucket is the same in both.\<close>

record host =
  hs_committed :: world
  hs_view :: world
  hs_aborted :: bool

definition host_begin :: "world \<Rightarrow> host" where
  "host_begin w = \<lparr>hs_committed = w, hs_view = w, hs_aborted = False\<rparr>"

definition host_rollback :: "host \<Rightarrow> world" where
  "host_rollback h = (hs_committed h)\<lparr>wd_db := rollback (wd_db (hs_committed h)) (wd_db (hs_view h))\<rparr>"

definition host_commit :: "host \<Rightarrow> world" where
  "host_commit h = (if hs_aborted h then host_rollback h else hs_view h)"

text \<open>The errors that come from a statement of the transaction.\<close>

definition sql_aborts :: "tx_error \<Rightarrow> bool" where
  "sql_aborts e = (case e of Tx_sql _ _ \<Rightarrow> True | Tx_token_race \<Rightarrow> True | Tx_mv (Mv_exec _ _ _) \<Rightarrow> True | _ \<Rightarrow> False)"

definition in_failed_tx :: sql_error where
  "in_failed_tx = Server_error ''25P02''"

definition host_tracked :: "'a env \<Rightarrow> string \<Rightarrow> world \<Rightarrow> world" where
  "host_tracked env s3Key w =
     w\<lparr>wd_db := (wd_db w)\<lparr>c_pending := c_pending (wd_db w) @ [\<lparr>w_s3_key = s3Key, w_intended_at = e_now env\<rparr>]\<rparr>\<rparr>"

text \<open>\<open>writePartition\<close> after the token check, on a context that carries the transaction.\<close>

definition host_fresh ::
  "'a store \<Rightarrow> 'a env \<Rightarrow> 'tx go_ctx \<Rightarrow> 'a write_opts \<Rightarrow> string \<Rightarrow> string list \<Rightarrow> string \<Rightarrow> 'a list \<Rightarrow> host
   \<Rightarrow> (write_error + file_ref) \<times> host" where
  "host_fresh st env ctx o1 partitionKey partValues token records h =
     (case prepare_write st env partitionKey records (hs_committed h) of
        Inl e \<Rightarrow> (Inl e, h)
      | Inr (mvRows, body, uncompressedSize, s3Key, db0) \<Rightarrow>
     (let recordCount = int (length records); com = (hs_committed h)\<lparr>wd_db := db0\<rparr> in
      case write_tx_result (RunInTx (tx_env env) undo_world ctx
             (tx_callback (write_tx_body st env o1 partitionKey partValues token s3Key body uncompressedSize
                recordCount mvRows)) (host_tracked env s3Key (hs_view h), (0, 0, 0), False)) of
        (Inr (version, fileID, writtenAt), _, view) \<Rightarrow>
          (Inr \<lparr>FileID = fileID, PartitionKey = partitionKey, S3Key = s3Key, Version = version,
               WrittenAt = writtenAt, RecordCount = recordCount, FileSize = int (length body),
               UncompressedSize = uncompressedSize, Extensions = wo_metadata o1, Offset = OffsetNone\<rparr>,
           \<lparr>hs_committed = com\<lparr>wd_s3 := wd_s3 view\<rparr>, hs_view = view, hs_aborted = False\<rparr>)
      | (Inl e, putAttempted, view) \<Rightarrow>
          (let clean = (if putAttempted \<or> e_pending_cleanup env \<noteq> None then id else sql_pending_delete s3Key);
               aborted = sql_aborts e
           in (translateWriteTxErr st (env\<lparr>e_relookup := (if aborted then Some in_failed_tx else e_relookup env)\<rparr>)
                 e partitionKey token (wd_db view),
               \<lparr>hs_committed = com\<lparr>wd_db := clean db0, wd_s3 := wd_s3 view\<rparr>,
                hs_view = view\<lparr>wd_db := clean (wd_db view)\<rparr>, hs_aborted = aborted\<rparr>))))"

definition host_write ::
  "'a store \<Rightarrow> 'a env \<Rightarrow> 'tx go_ctx \<Rightarrow> string \<Rightarrow> string list \<Rightarrow> 'a list \<Rightarrow> 'a write_opts \<Rightarrow> host
   \<Rightarrow> (write_error + file_ref) \<times> host" where
  "host_write st env ctx partitionKey partValues records o1 h =
     (case resolveTokenForPartition records o1 of
        Inl e \<Rightarrow> (Inl e, h)
      | Inr token \<Rightarrow>
          if token = [] then host_fresh st env ctx o1 partitionKey partValues token records h
          else (case lookupTokenFileRef st (e_lookup env) (wd_db (hs_view h)) partitionKey token of
                  Inl (Inl e) \<Rightarrow> (Inl (Wr_lookup e), h\<lparr>hs_aborted := True\<rparr>)
                | Inl (Inr e) \<Rightarrow> (Inl (Wr_lookup_scan e), h)
                | Inr (Some existing) \<Rightarrow> (Inr existing, h)
                | Inr None \<Rightarrow> host_fresh st env ctx o1 partitionKey partValues token records h))"

text \<open>What a caller does who returns at the first error: the writes of its transaction, and the files they returned.\<close>

type_synonym 'a host_op = "'a env \<times> string \<times> string list \<times> 'a list \<times> 'a write_opts"

fun host_writes :: "'a store \<Rightarrow> 'tx go_ctx \<Rightarrow> 'a host_op list \<Rightarrow> host \<Rightarrow> (write_error + file_ref list) \<times> host" where
  "host_writes st ctx [] h = (Inr [], h)"
| "host_writes st ctx ((env, key, vals, recs, o1) # ops) h =
     (case host_write st env ctx key vals recs o1 h of
        (Inl e, h') \<Rightarrow> (Inl e, h')
      | (Inr ref, h') \<Rightarrow>
          (case host_writes st ctx ops h' of
             (Inl e, h'') \<Rightarrow> (Inl e, h'')
           | (Inr refs, h'') \<Rightarrow> (Inr (ref # refs), h'')))"

section \<open>All or nothing\<close>

text \<open>On a context with a transaction the write's transaction neither begins nor ends: it is the body.\<close>

lemma host_tx_result:
  assumes "txFromContext ctx = Some tx"
  shows "write_tx_result (RunInTx (tx_env env) undo_world ctx (tx_callback body) (w, (0, 0, 0), False))
    = (case tx_res (body w) of
         Inl e \<Rightarrow> (Inl e, tx_put_attempted (body w), w\<lparr>wd_db := tx_db (body w), wd_s3 := tx_s3 (body w)\<rparr>)
       | Inr (version, fileID, writtenAt, ns) \<Rightarrow> (Inr (version, fileID, writtenAt), tx_put_attempted (body w),
           w\<lparr>wd_db := tx_db (body w), wd_s3 := tx_s3 (body w), wd_notified := wd_notified w @ ns\<rparr>))"
  using assms by (simp add: RunInTx_def tx_callback_def Let_def split: sum.splits prod.splits)

text \<open>Both worlds are consistent; the transaction has the committed files and more, and its objects are tracked outside it.\<close>

definition host_inv :: "world \<Rightarrow> host \<Rightarrow> bool" where
  "host_inv w h \<longleftrightarrow> world_ok (hs_committed h) \<and> c_files (wd_db (hs_committed h)) = c_files (wd_db w)
     \<and> c_next_id (wd_db (hs_committed h)) \<le> c_next_id (wd_db (hs_view h))"

definition view_inv :: "host \<Rightarrow> bool" where
  "view_inv h \<longleftrightarrow> \<not> hs_aborted h \<and> world_ok (hs_view h) \<and> wd_s3 (hs_view h) = wd_s3 (hs_committed h)
     \<and> file_keys (hs_committed h) \<subseteq> file_keys (hs_view h) \<and> pending_keys (hs_view h) \<subseteq> pending_keys (hs_committed h)"

lemma host_tracked_ok:
  assumes "world_ok w" "s3Key \<notin> pending_keys w"
  shows "world_ok (host_tracked env s3Key w)" "s3Key \<in> pending_keys (host_tracked env s3Key w)"
    "file_keys (host_tracked env s3Key w) = file_keys w" "wd_s3 (host_tracked env s3Key w) = wd_s3 w"
    "c_next_id (wd_db (host_tracked env s3Key w)) = c_next_id (wd_db w)"
    "pending_keys (host_tracked env s3Key w) = insert s3Key (pending_keys w)"
    "c_files (wd_db (host_tracked env s3Key w)) = c_files (wd_db w)"
proof -
  have ins: "sql_pending_insert (e_now env) s3Key (wd_db w) = Inr (wd_db (host_tracked env s3Key w))"
    using assms(2) by (auto simp: sql_pending_insert_def pending_keys_def host_tracked_def)
  have eq: "w\<lparr>wd_db := wd_db (host_tracked env s3Key w)\<rparr> = host_tracked env s3Key w" by (simp add: host_tracked_def)
  note p = world_ok_pending_insert [OF assms(1) ins, unfolded eq]
  show "world_ok (host_tracked env s3Key w)" by (rule p(1))
  show "s3Key \<in> pending_keys (host_tracked env s3Key w)" by (rule p(2))
  show "file_keys (host_tracked env s3Key w) = file_keys w" by (rule p(4))
qed (simp_all add: host_tracked_def pending_keys_def)

text \<open>The committed world after the body: the object is an orphan, or nothing, and tracked.\<close>

lemma committed_after:
  assumes "world_ok com" "s3Key \<in> pending_keys com" "s3Key \<notin> f_s3_key ` set (c_files (wd_db v)) \<longrightarrow> s3Key \<notin> file_keys com"
    and "s3 = wd_s3 com \<or> s3 = (wd_s3 com)(s3Key \<mapsto> obj) \<and> s3Key \<notin> f_s3_key ` set (c_files (wd_db v))"
  shows "world_ok (com\<lparr>wd_s3 := s3\<rparr>)"
proof -
  have "com\<lparr>wd_db := (wd_db com)\<lparr>c_next_id := c_next_id (wd_db com)\<rparr>, wd_s3 := s3\<rparr> = com\<lparr>wd_s3 := s3\<rparr>"
    by simp
  then show ?thesis using world_ok_orphan [OF assms(1) order_refl, of s3 s3Key obj] assms(2-4) by auto
qed

lemma view_after:
  assumes "wf_store st" "length vals = length (st_parts st)" "world_ok v" "s3Key \<in> pending_keys v"
    and "tx_res (write_tx_body st env o1 key vals token s3Key body us rc mvRows v) = Inr (ver, fid, at, ns)"
  defines "t \<equiv> write_tx_body st env o1 key vals token s3Key body us rc mvRows v"
  shows "world_ok (v\<lparr>wd_db := tx_db t, wd_s3 := tx_s3 t, wd_notified := wd_notified v @ ns\<rparr>)"
    "file_keys v \<subseteq> f_s3_key ` set (c_files (tx_db t))" "w_s3_key ` set (c_pending (tx_db t)) \<subseteq> pending_keys v"
proof -
  let ?env = "env\<lparr>e_begin := None, e_commit := Commit_ok\<rparr>"
  have body: "write_tx_body st ?env o1 key vals token s3Key body us rc mvRows = write_tx_body st env o1 key vals token s3Key body us rc mvRows"
    by (simp add: fun_eq_iff write_tx_body_def tx_upload_def tx_finish_def
        cong: sum.case_cong prod.case_cong option.case_cong)
  have "run_write_tx ?env (write_tx_body st ?env o1 key vals token s3Key body us rc mvRows) v
      = (Inr (ver, fid, at), tx_put_attempted t, v\<lparr>wd_db := tx_db t, wd_s3 := tx_s3 t, wd_notified := wd_notified v @ ns\<rparr>)"
    unfolding body t_def using assms(5) by (simp add: run_write_tx_def Let_def)
  note s = run_write_tx_safe [OF assms(1,2) this assms(3,4)]
  show "world_ok (v\<lparr>wd_db := tx_db t, wd_s3 := tx_s3 t, wd_notified := wd_notified v @ ns\<rparr>)" by (rule s(1))
  show "file_keys v \<subseteq> f_s3_key ` set (c_files (tx_db t))" using s(2) by (simp add: file_keys_def)
  show "w_s3_key ` set (c_pending (tx_db t)) \<subseteq> pending_keys v"
    using write_tx_body_ok [OF assms(1,2,5)] by (auto simp: t_def committed_def pending_keys_def)
qed


lemma pending_delete_sets [simp]:
  "c_files (sql_pending_delete k db) = c_files db" "c_next_id (sql_pending_delete k db) = c_next_id db"
  by (simp_all add: sql_pending_delete_def)

text \<open>After an error the write reports an error: the re-lookup of a lost token race runs in the failed transaction.\<close>

lemma host_error:
  "sql_aborts e \<Longrightarrow> isl (translateWriteTxErr st (env\<lparr>e_relookup := Some in_failed_tx\<rparr>) e key token db)"
  "\<not> sql_aborts e \<Longrightarrow> isl (translateWriteTxErr st env e key token db)"
  by (cases e; simp add: translateWriteTxErr_def sql_aborts_def lookupTokenFileRef_def)+

lemma host_fresh_inv:
  assumes "wf_store st" "length vals = length (st_parts st)" "txFromContext ctx = Some tx"
    and "host_inv w h" "view_inv h"
    and run: "host_fresh st env ctx o1 key vals token recs h = (res, h')"
  shows "host_inv w h' \<and> (isl res \<or> view_inv h')"
proof (cases "prepare_write st env key recs (hs_committed h)")
  case (Inl e)
  with run assms(4,5) show ?thesis by (auto simp: host_fresh_def)
next
  case (Inr prep)
  then obtain mvRows body us uuid db0 where prep: "prep = (mvRows, body, us, dataKey st key uuid, db0)"
    and ins: "sql_pending_insert (e_now env) (dataKey st key uuid) (wd_db (hs_committed h)) = Inr db0"
    by (rule prepare_write_Inr)
  let ?k = "dataKey st key uuid" and ?com = "(hs_committed h)\<lparr>wd_db := db0\<rparr>"
  let ?v = "host_tracked env ?k (hs_view h)"
  let ?t = "write_tx_body st env o1 key vals token ?k body us (int (length recs)) mvRows ?v"
  have com: "world_ok ?com" "?k \<in> pending_keys ?com" "file_keys ?com = file_keys (hs_committed h)"
    using world_ok_pending_insert [OF _ ins] assms(4) by (simp_all add: host_inv_def)
  have db0: "c_files db0 = c_files (wd_db (hs_committed h))" "c_next_id db0 = c_next_id (wd_db (hs_committed h))"
    "w_s3_key ` set (c_pending db0) = insert ?k (pending_keys (hs_committed h))"
    using ins by (auto simp: sql_pending_insert_def pending_keys_def split: if_splits)
  have new: "?k \<notin> pending_keys (hs_view h)"
    using ins assms(5) by (auto simp: sql_pending_insert_def pending_keys_def view_inv_def split: if_splits)
  note v = host_tracked_ok [OF _ new, of env]
  have v0: "world_ok (hs_view h)" using assms(5) by (simp add: view_inv_def)
  note frame = write_tx_body_frame [OF assms(1,2), where w = ?v and env = env and opts = o1 and key = key and
      token = token and s3Key = ?k and body = body and us = us and rc = "int (length recs)" and mvRows = mvRows]
  have s3: "wd_s3 ?v = wd_s3 ?com" using v(4) [OF v0] assms(5) by (simp add: view_inv_def)
  have sub: "file_keys ?com \<subseteq> file_keys ?v" using com(3) v(3) [OF v0] assms(5) by (simp add: view_inv_def)
  have orphan: "world_ok (?com\<lparr>wd_s3 := tx_s3 ?t\<rparr>)"
  proof -
    obtain obj where "tx_s3 ?t = wd_s3 ?com \<or> tx_s3 ?t = (wd_s3 ?com)(?k \<mapsto> obj) \<and> ?k \<notin> f_s3_key ` set (c_files (wd_db ?v))"
      using frame(2) s3 by metis
    then show ?thesis using sub by (intro committed_after [OF com(1,2), of ?v]) (auto simp: file_keys_def)
  qed
  have ids: "c_next_id db0 \<le> c_next_id (tx_db ?t)"
    using frame(1) v(5) [OF v0] db0(2) assms(4) by (simp add: host_inv_def)
  note unfold = host_fresh_def Inr prep host_tx_result [OF assms(3)] Let_def
  show ?thesis
  proof (cases "tx_res ?t")
    case (Inl e)
    have clean: "world_ok (?com\<lparr>wd_db := sql_pending_delete ?k db0, wd_s3 := tx_s3 ?t\<rparr>)" if "\<not> tx_put_attempted ?t"
    proof -
      have "tx_s3 ?t = wd_s3 (hs_committed h)" using frame(2) that s3 by simp
      then have "?k \<in> dom (tx_s3 ?t) \<Longrightarrow> ?k \<in> file_keys (?com\<lparr>wd_s3 := tx_s3 ?t\<rparr>)"
        using world_ok_pending_insert(3) [OF _ ins] assms(4) com(3) by (simp add: host_inv_def file_keys_def)
      then have "world_ok (?com\<lparr>wd_s3 := tx_s3 ?t, wd_db := sql_pending_delete ?k db0\<rparr>)"
        using world_ok_pending_delete [OF orphan, of ?k] by simp
      then show ?thesis by (cases "hs_committed h") simp
    qed
    have "isl res" using run Inl by (cases "sql_aborts e") (auto simp: unfold host_error)
    moreover have "host_inv w h'"
      using run Inl orphan clean ids db0 assms(4) by (auto simp: unfold host_inv_def)
    ultimately show ?thesis by simp
  next
    case (Inr vals')
    then obtain ver fid at ns where r: "tx_res ?t = Inr (ver, fid, at, ns)" by (metis prod_cases4)
    note a = view_after [OF assms(1,2) v(1,2) [OF v0] r]
    have h': "h' = \<lparr>hs_committed = ?com\<lparr>wd_s3 := tx_s3 ?t\<rparr>,
        hs_view = ?v\<lparr>wd_db := tx_db ?t, wd_s3 := tx_s3 ?t, wd_notified := wd_notified ?v @ ns\<rparr>, hs_aborted = False\<rparr>"
      using run r by (simp add: unfold)
    have "file_keys (hs_committed h') \<subseteq> file_keys (hs_view h')"
      using a(2) sub unfolding h' by (simp add: file_keys_def)
    moreover have "pending_keys (hs_view h') \<subseteq> pending_keys (hs_committed h')"
    proof -
      have "pending_keys (hs_view h') \<subseteq> insert ?k (pending_keys (hs_view h))"
        using a(3) unfolding v(6) [OF v0] by (simp add: h' pending_keys_def)
      also have "\<dots> \<subseteq> insert ?k (pending_keys (hs_committed h))" using assms(5) by (auto simp: view_inv_def)
      also have "\<dots> = pending_keys (hs_committed h')" using db0(3) by (simp add: h' pending_keys_def)
      finally show ?thesis .
    qed
    ultimately have "view_inv h'" using a(1) by (simp add: view_inv_def h')
    moreover have "host_inv w h'" using orphan ids db0 assms(4) by (simp add: host_inv_def h')
    ultimately show ?thesis by simp
  qed
qed

lemma host_write_inv:
  assumes "wf_store st" "length vals = length (st_parts st)" "txFromContext ctx = Some tx" "host_inv w h" "view_inv h"
    and "host_write st env ctx key vals recs o1 h = (res, h')"
  shows "host_inv w h' \<and> (isl res \<or> view_inv h')"
  using assms(4-6) host_fresh_inv [OF assms(1-5)]
  by (auto simp: host_write_def host_inv_def split: sum.splits option.splits if_splits)

text \<open>Nothing that the transaction saw gets lost.\<close>

definition view_grows :: "world \<Rightarrow> world \<Rightarrow> bool" where
  "view_grows v v' \<longleftrightarrow> set (c_files (wd_db v)) \<subseteq> set (c_files (wd_db v')) \<and> (\<forall>k \<in> file_keys v. wd_s3 v' k = wd_s3 v k)"

lemma view_grows_refl [simp]: "view_grows v v"
  by (simp add: view_grows_def)

lemma view_grows_trans: "view_grows u v \<Longrightarrow> view_grows v w \<Longrightarrow> view_grows u w"
  unfolding view_grows_def file_keys_def by (metis image_mono subset_trans subsetD)

text \<open>A write is stored: its row is there, under its partition, and a write without a token has its own records in the object.\<close>

definition op_stored :: "world \<Rightarrow> 'a host_op \<Rightarrow> file_ref \<Rightarrow> bool" where
  "op_stored w op ref \<longleftrightarrow>
     (case op of (env, key, vals, recs, o1) \<Rightarrow>
        has_row (wd_db w) (S3Key ref) key \<and> S3Key ref \<in> dom (wd_s3 w)
        \<and> (resolveTokenForPartition recs o1 = Inr []
           \<longrightarrow> (\<exists>body us. e_encode env recs = Inr (body, us) \<and> map_option so_body (wd_s3 w (S3Key ref)) = Some body)))"

lemma op_stored_grows: "op_stored v op ref \<Longrightarrow> view_grows v v' \<Longrightarrow> op_stored v' op ref"
proof -
  assume st: "op_stored v op ref" and gr: "view_grows v v'"
  obtain env key vals recs o1 where op: "op = (env, key, vals, recs, o1)" by (metis prod_cases5)
  have row: "has_row (wd_db v) (S3Key ref) key" using st by (simp add: op_stored_def op)
  then have "S3Key ref \<in> file_keys v" by (auto simp: has_row_def file_keys_def intro: rev_image_eqI)
  then have "wd_s3 v' (S3Key ref) = wd_s3 v (S3Key ref)" using gr by (simp add: view_grows_def)
  moreover have "has_row (wd_db v') (S3Key ref) key" using row gr unfolding has_row_def view_grows_def by blast
  ultimately show ?thesis using st by (simp add: op_stored_def op domIff)
qed

definition op_ok :: "'a store \<Rightarrow> 'a host_op \<Rightarrow> bool" where
  "op_ok st op \<longleftrightarrow> (case op of (env, key, vals, recs, o1) \<Rightarrow> length vals = length (st_parts st))"

lemma host_fresh_stored:
  assumes "wf_store st" "length vals = length (st_parts st)" "txFromContext ctx = Some tx" "view_inv h"
    and run: "host_fresh st env ctx o1 key vals token recs h = (Inr ref, h')"
  shows "view_grows (hs_view h) (hs_view h') \<and> file_keys (hs_view h') = insert (S3Key ref) (file_keys (hs_view h))
    \<and> has_row (wd_db (hs_view h')) (S3Key ref) key
    \<and> (\<exists>body us. e_encode env recs = Inr (body, us) \<and> map_option so_body (wd_s3 (hs_view h') (S3Key ref)) = Some body)"
proof (cases "prepare_write st env key recs (hs_committed h)")
  case (Inl e)
  with run show ?thesis by (simp add: host_fresh_def)
next
  case (Inr prep)
  then obtain mvRows body us k db0 where prep: "prep = (mvRows, body, us, k, db0)" by (cases prep) auto
  let ?v = "host_tracked env k (hs_view h)"
  let ?t = "write_tx_body st env o1 key vals token k body us (int (length recs)) mvRows ?v"
  note unfold = host_fresh_def Inr prep host_tx_result [OF assms(3)] Let_def
  show ?thesis
  proof (cases "tx_res ?t")
    case (Inl e)
    then have "isl (fst (host_fresh st env ctx o1 key vals token recs h))"
      by (cases "sql_aborts e") (simp_all add: unfold host_error)
    then show ?thesis by (simp add: run)
  next
    case (Inr vals')
    then obtain ver fid at ns where r: "tx_res ?t = Inr (ver, fid, at, ns)" by (metis prod_cases4)
    have h': "S3Key ref = k" "hs_view h' = ?v\<lparr>wd_db := tx_db ?t, wd_s3 := tx_s3 ?t, wd_notified := wd_notified ?v @ ns\<rparr>"
      using run r by (auto simp: unfold)
    let ?r = "new_row st (e_pgx env) (c_next_id (wd_db ?v)) (e_now env) (fi_of o1 key vals token k body us (int (length recs)) ver)"
    obtain ps m md where ok: "\<forall>s \<in> set (c_files (wd_db ?v)). f_s3_key s \<noteq> k" "tx_db ?t = committed (wd_db ?v) ?r ps m"
      "tx_s3 ?t = (wd_s3 ?v)(k \<mapsto> \<lparr>so_body = body, so_meta = md\<rparr>)"
      using write_tx_body_ok [OF assms(1,2) r] by blast
    have v: "c_files (wd_db ?v) = c_files (wd_db (hs_view h))" "wd_s3 ?v = wd_s3 (hs_view h)" by (simp_all add: host_tracked_def)
    have row: "f_s3_key ?r = k" "f_partition_key ?r = key" by (simp_all add: fi_of_def)
    have files: "c_files (wd_db (hs_view h')) = c_files (wd_db (hs_view h)) @ [?r]" by (simp add: h'(2) ok(2) committed_def v)
    have s3: "wd_s3 (hs_view h') = (wd_s3 (hs_view h))(k \<mapsto> \<lparr>so_body = body, so_meta = md\<rparr>)" by (simp add: h'(2) ok(3) v)
    have "k \<notin> file_keys (hs_view h)" using ok(1) v(1) by (auto simp: file_keys_def)
    then have "view_grows (hs_view h) (hs_view h')" by (auto simp: view_grows_def files s3)
    moreover have "e_encode env recs = Inr (body, us)" using prepare_encodes Inr prep \<open>prepare_write st env key recs (hs_committed h) = Inr prep\<close> by blast
    ultimately show ?thesis using row by (simp add: h'(1) files s3 has_row_def file_keys_def)
  qed
qed

text \<open>Before and after a write that succeeds.\<close>

definition write_kept :: "'a host_op \<Rightarrow> file_ref \<Rightarrow> host \<Rightarrow> host \<Rightarrow> bool" where
  "write_kept op ref h h' \<longleftrightarrow> view_grows (hs_view h) (hs_view h') \<and> op_stored (hs_view h') op ref
     \<and> file_keys (hs_view h') = insert (S3Key ref) (file_keys (hs_view h))"

lemma host_write_kept:
  assumes "wf_store st" "length vals = length (st_parts st)" "txFromContext ctx = Some tx" "view_inv h"
    and "host_write st env ctx key vals recs o1 h = (Inr ref, h')"
  shows "write_kept (env, key, vals, recs, o1) ref h h'"
proof -
  obtain token where tok: "resolveTokenForPartition recs o1 = Inr token"
    using assms(5) by (cases "resolveTokenForPartition recs o1") (auto simp: host_write_def)
  consider (fresh) "host_fresh st env ctx o1 key vals token recs h = (Inr ref, h')"
    | (old) "token \<noteq> []" "lookupTokenFileRef st (e_lookup env) (wd_db (hs_view h)) key token = Inr (Some ref)" "h' = h"
    using assms(5) tok by (auto simp: host_write_def split: sum.splits option.splits if_splits)
  then show ?thesis
  proof cases
    case fresh
    from host_fresh_stored [OF assms(1-4) fresh] show ?thesis
      by (auto simp: write_kept_def op_stored_def)
  next
    case old
    have row: "has_row (wd_db (hs_view h)) (S3Key ref) key" by (rule lookup_ref_row [OF old(2)])
    then have key: "S3Key ref \<in> file_keys (hs_view h)" by (auto simp: has_row_def file_keys_def intro: rev_image_eqI)
    then have "S3Key ref \<in> dom (wd_s3 (hs_view h))" using assms(4) by (auto simp: view_inv_def world_ok_def file_keys_def)
    with row key old(1,3) tok show ?thesis by (simp add: write_kept_def op_stored_def insert_absorb)
  qed
qed

text \<open>What the writes of a transaction have done when all of them succeeded.\<close>

lemma host_writes_inv:
  assumes "wf_store st" "txFromContext ctx = Some tx"
  shows "host_inv w h \<Longrightarrow> view_inv h \<Longrightarrow> \<forall>op \<in> set ops. op_ok st op \<Longrightarrow> host_writes st ctx ops h = (out, h')
    \<Longrightarrow> host_inv w h' \<and> (\<forall>refs. out = Inr refs \<longrightarrow> view_inv h' \<and> view_grows (hs_view h) (hs_view h')
          \<and> list_all2 (op_stored (hs_view h')) ops refs \<and> file_keys (hs_view h') = file_keys (hs_view h) \<union> S3Key ` set refs)"
proof (induction ops arbitrary: h h' out)
  case (Cons op ops)
  obtain env key vals recs o1 where op: "op = (env, key, vals, recs, o1)" by (metis prod_cases5)
  obtain res h1 where one: "host_write st env ctx key vals recs o1 h = (res, h1)" by (metis prod.collapse)
  have len: "length vals = length (st_parts st)" using Cons.prems(3) by (simp add: op op_ok_def)
  note inv = host_write_inv [OF assms(1) len assms(2) Cons.prems(1,2) one]
  show ?case
  proof (cases res)
    case (Inl e)
    with Cons.prems(4) one inv show ?thesis by (auto simp: op)
  next
    case (Inr ref)
    obtain out1 h2 where rest: "host_writes st ctx ops h1 = (out1, h2)" by (metis prod.collapse)
    have kept: "write_kept op ref h h1" unfolding op by (rule host_write_kept [OF assms(1) len assms(2) Cons.prems(2)]) (use one Inr in simp)
    have "host_inv w h1" "view_inv h1" using inv Inr by simp_all
    note IH = Cons.IH [OF this _ rest]
    have h': "h' = h2" "out = (case out1 of Inl e \<Rightarrow> Inl e | Inr refs \<Rightarrow> Inr (ref # refs))"
      using Cons.prems(4) one Inr rest by (auto simp: op split: sum.splits)
    show ?thesis
      using IH Cons.prems(3) kept unfolding h'
      by (auto simp: write_kept_def split: sum.splits intro: view_grows_trans op_stored_grows)
  qed
qed auto

text \<open>C33.  Writes inside a transaction of the caller are all or nothing, whatever fails in them.  A caller that
  rolls back, at any point, has the files it had before, and every object that was uploaded meanwhile is tracked for the garbage
  collector.  A caller that commits after writes without an error has a consistent catalog: all the rows it had before, unchanged; for
  each write the row of the file it returned, in its partition and with its object, which is the encoding of the records of the call
  unless an idempotency token may have brought back an earlier file; and no file but these.  Other sessions are idle meanwhile, and
  each write has a value for every part of its key.\<close>

theorem host_tx_safe:
  assumes "wf_store st" "txFromContext ctx = Some tx" "world_ok w" "\<forall>op \<in> set ops. op_ok st op"
    and "host_writes st ctx ops (host_begin w) = (out, h)"
  shows "world_ok (host_rollback h) \<and> c_files (wd_db (host_rollback h)) = c_files (wd_db w)
    \<and> (\<forall>refs. out = Inr refs \<longrightarrow> world_ok (host_commit h) \<and> set (c_files (wd_db w)) \<subseteq> set (c_files (wd_db (host_commit h)))
         \<and> list_all2 (op_stored (host_commit h)) ops refs \<and> file_keys (host_commit h) = file_keys w \<union> S3Key ` set refs)"
proof -
  have "host_inv w (host_begin w)" "view_inv (host_begin w)"
    using assms(3) by (simp_all add: host_inv_def view_inv_def host_begin_def)
  note inv = host_writes_inv [OF assms(1,2) this assms(4,5)]
  have "host_rollback h = (hs_committed h)\<lparr>wd_db := (wd_db (hs_committed h))\<lparr>c_next_id := c_next_id (wd_db (hs_view h))\<rparr>,
      wd_s3 := wd_s3 (hs_committed h)\<rparr>" by (simp add: host_rollback_def rollback_def)
  then have "world_ok (host_rollback h)" "c_files (wd_db (host_rollback h)) = c_files (wd_db w)"
    using world_ok_orphan [of "hs_committed h" _ "wd_s3 (hs_committed h)"] inv by (auto simp: host_inv_def)
  then show ?thesis using inv by (auto simp: host_commit_def view_inv_def view_grows_def host_begin_def)
qed


section \<open>Two writes in one transaction\<close>

definition host_ctx :: "nat go_ctx" where
  "host_ctx = WithTx \<lparr>cx_tx = None, cx_cancelled = False, cx_values = (\<lambda>_. None)\<rparr> 1"

definition demo_op :: "string \<Rightarrow> string \<Rightarrow> string \<Rightarrow> string host_op" where
  "demo_op uuid token x = (quiet_env uuid, ''p='' @ x, [x], [x], no_opts\<lparr>wo_token := Some token\<rparr>)"

theorem host_tx_safe_witness:
  "\<exists>h refs. host_writes demo_store host_ctx [demo_op ''u'' ''t'' ''x'', demo_op ''v'' ''t'' ''y''] (host_begin empty_world) = (Inr refs, h)
     \<and> map f_partition_key (c_files (wd_db (host_commit h))) = [''p=x'', ''p=y''] \<and> world_ok (host_commit h)
     \<and> list_all2 (op_stored (host_commit h)) [demo_op ''u'' ''t'' ''x'', demo_op ''v'' ''t'' ''y''] refs
     \<and> c_files (wd_db (host_rollback h)) = []"
proof -
  let ?ops = "[demo_op ''u'' ''t'' ''x'', demo_op ''v'' ''t'' ''y'']"
  have e: "(case host_writes demo_store host_ctx ?ops (host_begin empty_world) of
      (out, h) \<Rightarrow> \<not> isl out \<and> map f_partition_key (c_files (wd_db (host_commit h))) = [''p=x'', ''p=y''])"
    by code_simp
  obtain refs h where run: "host_writes demo_store host_ctx ?ops (host_begin empty_world) = (Inr refs, h)"
    using e by (cases "host_writes demo_store host_ctx ?ops (host_begin empty_world)"; cases "fst (host_writes demo_store host_ctx ?ops (host_begin empty_world))") auto
  have ops: "\<forall>op \<in> set ?ops. op_ok demo_store op" by (simp add: demo_op_def op_ok_def demo_store_def)
  have tx: "txFromContext host_ctx = Some 1" by (simp add: host_ctx_def)
  have parts: "map f_partition_key (c_files (wd_db (host_commit h))) = [''p=x'', ''p=y'']" using e unfolding run by simp
  from host_tx_safe [OF demo_wf tx empty_world_ok ops run] parts run show ?thesis
    by (intro exI [of _ h] exI [of _ refs]) (simp add: empty_world_def)
qed

text \<open>A lost token race inside a transaction of the caller is not resolved: the unique violation has
  aborted the transaction, the re-lookup runs in it and fails, and the caller can only roll back, where the same
  race outside a transaction returns the file of the winner.\<close>

theorem host_token_race:
  "\<exists>winner w h ref. writePartition demo_store (quiet_env ''u'') ''p=x'' [''x''] [''x''] (no_opts\<lparr>wo_token := Some ''t''\<rparr>) empty_world = (Inr winner, w)
     \<and> host_fresh demo_store (quiet_env ''v'') host_ctx no_opts ''p=x'' [''x''] ''t'' [''x''] (host_begin w) = (Inl (Wr_relookup in_failed_tx), h)
     \<and> host_commit h = host_rollback h
     \<and> fst (write_fresh demo_store (quiet_env ''v'') no_opts ''p=x'' [''x''] ''t'' [''x''] w) = Inr ref \<and> FileID ref = FileID winner"
proof -
  let ?w = "snd (writePartition demo_store (quiet_env ''u'') ''p=x'' [''x''] [''x''] (no_opts\<lparr>wo_token := Some ''t''\<rparr>) empty_world)"
  let ?h = "host_fresh demo_store (quiet_env ''v'') host_ctx no_opts ''p=x'' [''x''] ''t'' [''x''] (host_begin ?w)"
  have h: "fst ?h = Inl (Wr_relookup in_failed_tx) \<and> hs_aborted (snd ?h)" by code_simp
  have ids: "map_sum (\<lambda>_. ()) FileID (fst (write_fresh demo_store (quiet_env ''v'') no_opts ''p=x'' [''x''] ''t'' [''x''] ?w))
      = Inr (FileID (projr (fst (writePartition demo_store (quiet_env ''u'') ''p=x'' [''x''] [''x''] (no_opts\<lparr>wo_token := Some ''t''\<rparr>) empty_world))))"
    by code_simp
  obtain winner w where win: "writePartition demo_store (quiet_env ''u'') ''p=x'' [''x''] [''x''] (no_opts\<lparr>wo_token := Some ''t''\<rparr>) empty_world = (Inr winner, w)"
    using demo_write_ok by (metis prod.collapse sum.collapse(2))
  obtain ref where "fst (write_fresh demo_store (quiet_env ''v'') no_opts ''p=x'' [''x''] ''t'' [''x''] w) = Inr ref" "FileID ref = FileID winner"
    using ids win by (cases "fst (write_fresh demo_store (quiet_env ''v'') no_opts ''p=x'' [''x''] ''t'' [''x''] w)") auto
  moreover obtain h where "?h = (Inl (Wr_relookup in_failed_tx), h)" "hs_aborted h" using h by (cases ?h) auto
  ultimately show ?thesis using win by (auto simp: host_commit_def)
qed

text \<open>A caller that commits although an upload failed has a row without its object: the error must end the transaction.\<close>

lemma host_ignores_error:
  "case host_write demo_store ((quiet_env ''u'')\<lparr>e_put := Put_absent ''timeout''\<rparr>) host_ctx ''p=x'' [''x''] [''x''] no_opts (host_begin empty_world) of
     (res, h) \<Rightarrow> isl res \<and> map (\<lambda>r. wd_s3 (host_commit h) (f_s3_key r)) (c_files (wd_db (host_commit h))) = [None]"
  by code_simp

end
