(* ===== verification/Partition_Lock.thy ===== *)
theory Partition_Lock
  imports Executor
begin

text \<open>
  \<open>lock.go\<close>: \<open>LockPartition\<close> with its options, its statements and its errors, and many transactions that call it.
  The step relation is what PostgreSQL documents of the statements a call sends, read from their text and arguments:
  \<open>pg_advisory_xact_lock\<close> and its shared variant take the key they are given to the end of the transaction, and wait while
  another transaction holds it and one of the two is exclusive; \<open>SET LOCAL lock_timeout\<close> bounds every later wait of the transaction.
\<close>

section \<open>The key\<close>

text \<open>\<open>hash/fnv\<close>'s 64-bit FNV-1a, and the conversion of the sum to \<open>int64\<close>.\<close>

definition fnv64a :: "string \<Rightarrow> 64 word" where
  "fnv64a s = fold (\<lambda>c h. (xor h (word_of_nat (byte_val c))) * 1099511628211) s 14695981039346656037"

definition lockKey :: "string \<Rightarrow> int" where
  "lockKey partitionKey = sint (fnv64a partitionKey)"

lemma lockKey_range: "- (2 ^ 63) \<le> lockKey p \<and> lockKey p < 2 ^ 63"
  using sint_range_size [of "fnv64a p"] by (simp add: lockKey_def word_size)

lemma lockKey_vectors: "fnv64a [] = 0xcbf29ce484222325" "fnv64a ''a'' = 0xaf63dc4c8601ec8c" "fnv64a ''foobar'' = 0x85944171f73967e8"
  by code_simp+

section \<open>LockPartition\<close>

datatype lock_option = WithLockTimeout int  \<comment> \<open>nanoseconds\<close>

fun applyLock :: "lock_option \<Rightarrow> int \<Rightarrow> int" where
  "applyLock (WithLockTimeout d) timeout = d"

definition lock_timeout :: "lock_option list \<Rightarrow> int" where
  "lock_timeout opts = fold applyLock opts 0"

text \<open>\<open>max(o.timeout.Milliseconds(), 1)\<close>, when the timeout is positive.\<close>

definition lock_timeout_ms :: "lock_option list \<Rightarrow> int option" where
  "lock_timeout_ms opts = (if lock_timeout opts > 0 then Some (max (lock_timeout opts div 1000000) 1) else None)"

datatype pg_error = Pg_error string string  \<comment> \<open>SQLSTATE, message\<close> | Conn_error string

definition isLockTimeoutErr :: "pg_error \<Rightarrow> bool" where
  "isLockTimeoutErr e = (case e of Pg_error code _ \<Rightarrow> code = ''55P03'' | _ \<Rightarrow> False)"

datatype lock_error = ErrLockNotInTransaction | ErrLockTimeout | Lock_set pg_error | Lock_acquire pg_error

record statement =
  sm_text :: string
  sm_args :: "int list"

definition set_timeout_stmt :: "int \<Rightarrow> statement" where
  "set_timeout_stmt ms = \<lparr>sm_text = ''SET LOCAL lock_timeout = '' @ [CHR 0x27] @ itoa ms @ ''ms'' @ [CHR 0x27], sm_args = []\<rparr>"

definition lock_stmt :: "string \<Rightarrow> statement" where
  "lock_stmt partitionKey = \<lparr>sm_text = ''SELECT pg_advisory_xact_lock($1)'', sm_args = [lockKey partitionKey]\<rparr>"

text \<open>The callback of the executor: the statements sent so far, then the result; \<open>exec\<close> is what the server answers.\<close>

definition lock_body ::
  "(statement \<Rightarrow> pg_error option) \<Rightarrow> lock_option list \<Rightarrow> string \<Rightarrow> 'tx dbtx \<Rightarrow> statement list \<Rightarrow> lock_error fn_exit \<times> statement list" where
  "lock_body exec opts partitionKey d sent =
     (let lock = (\<lambda>sent. case exec (lock_stmt partitionKey) of
                    None \<Rightarrow> (Fn_nil, sent @ [lock_stmt partitionKey])
                  | Some e \<Rightarrow> (Fn_error (if isLockTimeoutErr e then ErrLockTimeout else Lock_acquire e),
                               sent @ [lock_stmt partitionKey]))
      in case lock_timeout_ms opts of
           None \<Rightarrow> lock sent
         | Some ms \<Rightarrow>
             (case exec (set_timeout_stmt ms) of
                Some e \<Rightarrow> (Fn_error (Lock_set e), sent @ [set_timeout_stmt ms])
              | None \<Rightarrow> lock (sent @ [set_timeout_stmt ms])))"

definition LockPartition ::
  "exec_env \<Rightarrow> (statement \<Rightarrow> pg_error option) \<Rightarrow> 'tx go_ctx \<Rightarrow> string \<Rightarrow> lock_option list
   \<Rightarrow> lock_error exec_exit \<times> statement list" where
  "LockPartition env exec ctx partitionKey opts =
     (if txFromContext ctx = None then (Ex_error (Ex_fn ErrLockNotInTransaction), [])
      else Run env ctx (lock_body exec opts partitionKey) [])"

lemma lock_not_in_tx: "txFromContext ctx = None \<Longrightarrow> LockPartition env exec ctx p opts = (Ex_error (Ex_fn ErrLockNotInTransaction), [])"
  by (simp add: LockPartition_def)

text \<open>A call in a transaction: what it sends, and nil exactly when the lock was granted.\<close>

lemma LockPartition_in_tx:
  assumes "txFromContext ctx = Some tx"
  shows "snd (LockPartition env exec ctx p opts) =
      (case lock_timeout_ms opts of
         None \<Rightarrow> [lock_stmt p]
       | Some ms \<Rightarrow> set_timeout_stmt ms # (if exec (set_timeout_stmt ms) = None then [lock_stmt p] else []))"
    and "fst (LockPartition env exec ctx p opts) = Ex_nil \<longleftrightarrow>
      lock_stmt p \<in> set (snd (LockPartition env exec ctx p opts)) \<and> exec (lock_stmt p) = None"
proof -
  have ne: "lock_stmt p \<noteq> set_timeout_stmt ms" for ms by (simp add: lock_stmt_def set_timeout_stmt_def)
  show "snd (LockPartition env exec ctx p opts) =
      (case lock_timeout_ms opts of
         None \<Rightarrow> [lock_stmt p]
       | Some ms \<Rightarrow> set_timeout_stmt ms # (if exec (set_timeout_stmt ms) = None then [lock_stmt p] else []))"
    using assms by (auto simp: LockPartition_def Run_def lock_body_def Let_def split: option.splits)
  show "fst (LockPartition env exec ctx p opts) = Ex_nil \<longleftrightarrow>
      lock_stmt p \<in> set (snd (LockPartition env exec ctx p opts)) \<and> exec (lock_stmt p) = None"
    using assms ne by (auto simp: LockPartition_def Run_def lock_body_def Let_def split: option.splits)
qed

lemma lock_timeout_ms_pos: "lock_timeout_ms opts = Some ms \<Longrightarrow> 1 \<le> ms"
  by (auto simp: lock_timeout_ms_def split: if_splits)

section \<open>What the server makes of a statement\<close>

text \<open>PostgreSQL's documentation of the functions \<open>pg_advisory_xact_lock(key)\<close> and \<open>pg_advisory_xact_lock_shared(key)\<close>, a lock on
  the key to the end of the transaction, exclusive or shared, and of \<open>SET LOCAL lock_timeout\<close>.\<close>

datatype pg_request = Take_lock bool int  \<comment> \<open>exclusive, key\<close> | Set_timeout int

definition timeout_prefix :: string where
  "timeout_prefix = ''SET LOCAL lock_timeout = '' @ [CHR 0x27]"

definition pg_reads :: "statement \<Rightarrow> pg_request option" where
  "pg_reads sm =
     (if sm_text sm = ''SELECT pg_advisory_xact_lock($1)'' then (case sm_args sm of [k] \<Rightarrow> Some (Take_lock True k) | _ \<Rightarrow> None)
      else if sm_text sm = ''SELECT pg_advisory_xact_lock_shared($1)'' then (case sm_args sm of [k] \<Rightarrow> Some (Take_lock False k) | _ \<Rightarrow> None)
      else if has_prefix (sm_text sm) timeout_prefix then
        (let rest = drop (length timeout_prefix) (sm_text sm); n = length rest - 3
         in if drop n rest = ''ms'' @ [CHR 0x27] then map_option (\<lambda>ms. Set_timeout (int ms)) (parse_nat (take n rest)) else None)
      else None)"

fun lock_asked :: "statement list \<Rightarrow> (bool \<times> int) option" where
  "lock_asked [] = None"
| "lock_asked (sm # sms) = (case pg_reads sm of Some (Take_lock x k) \<Rightarrow> Some (x, k) | _ \<Rightarrow> lock_asked sms)"

fun timeout_after :: "statement list \<Rightarrow> int option \<Rightarrow> int option" where
  "timeout_after [] m = m"
| "timeout_after (sm # sms) m =
     timeout_after sms (case pg_reads sm of Some (Set_timeout ms) \<Rightarrow> (if ms = 0 then None else Some ms) | _ \<Rightarrow> m)"

lemma pg_reads_lock [simp]: "pg_reads (lock_stmt p) = Some (Take_lock True (lockKey p))"
  by (simp add: pg_reads_def lock_stmt_def)

lemma pg_reads_timeout [simp]: "0 \<le> ms \<Longrightarrow> pg_reads (set_timeout_stmt ms) = Some (Set_timeout ms)"
  by (simp add: pg_reads_def set_timeout_stmt_def timeout_prefix_def has_prefix_conv itoa_def Let_def)

section \<open>Transactions that lock\<close>

text \<open>\<open>lw_holds\<close>: transaction, exclusive, key.\<close>

record lock_world =
  lw_holds :: "(nat \<times> bool \<times> int) list"
  lw_timeout :: "nat \<Rightarrow> int option"
  lw_waiting :: "nat \<Rightarrow> (string \<times> lock_option list) option"
  lw_got :: "(nat \<times> string) list"
  lw_log :: "(nat \<times> string \<times> lock_option list \<times> lock_error exec_exit) list"

definition lock_start :: lock_world where
  "lock_start = \<lparr>lw_holds = [], lw_timeout = (\<lambda>_. None), lw_waiting = (\<lambda>_. None), lw_got = [], lw_log = []\<rparr>"

definition tx_ctx :: "nat \<Rightarrow> nat go_ctx" where
  "tx_ctx t = WithTx \<lparr>cx_tx = None, cx_cancelled = False, cx_values = (\<lambda>_. None)\<rparr> t"

definition pool_env :: exec_env where
  "pool_env = \<lparr>x_pool = True, x_acquire = None, x_begin = None, x_commit = Commit_ok\<rparr>"

text \<open>The statements of a call whose statements succeed, and what it returns when the server answers \<open>r\<close> to the one for the lock.\<close>

definition call_stmts :: "nat \<Rightarrow> string \<Rightarrow> lock_option list \<Rightarrow> statement list" where
  "call_stmts t p opts = snd (LockPartition pool_env (\<lambda>_. None) (tx_ctx t) p opts)"

definition lock_result :: "nat \<Rightarrow> string \<Rightarrow> lock_option list \<Rightarrow> pg_error option \<Rightarrow> lock_error exec_exit" where
  "lock_result t p opts r = fst (LockPartition pool_env (\<lambda>st. if st = lock_stmt p then r else None) (tx_ctx t) p opts)"

definition answered :: "nat \<Rightarrow> string \<Rightarrow> lock_option list \<Rightarrow> pg_error option \<Rightarrow> lock_world \<Rightarrow> lock_world" where
  "answered t p opts r s = s\<lparr>lw_waiting := (lw_waiting s)(t := None),
     lw_got := (if lock_result t p opts r = Ex_nil then (t, p) # lw_got s else lw_got s),
     lw_log := (t, p, opts, lock_result t p opts r) # lw_log s\<rparr>"

definition asked :: "nat \<Rightarrow> string \<Rightarrow> lock_option list \<Rightarrow> lock_world \<Rightarrow> lock_world" where
  "asked t p opts s = s\<lparr>lw_waiting := (lw_waiting s)(t \<mapsto> (p, opts)),
     lw_timeout := (lw_timeout s)(t := timeout_after (call_stmts t p opts) (lw_timeout s t))\<rparr>"

definition granted :: "nat \<Rightarrow> string \<Rightarrow> lock_option list \<Rightarrow> lock_world \<Rightarrow> lock_world" where
  "granted t p opts s = (answered t p opts None s)\<lparr>lw_holds :=
     (case lock_asked (call_stmts t p opts) of None \<Rightarrow> lw_holds s | Some (x, k) \<Rightarrow> (t, x, k) # lw_holds s)\<rparr>"

text \<open>Another transaction holds the key, and one of the two is exclusive.\<close>

definition blocked :: "nat \<Rightarrow> string \<Rightarrow> lock_option list \<Rightarrow> lock_world \<Rightarrow> bool" where
  "blocked t p opts s =
     (case lock_asked (call_stmts t p opts) of
        None \<Rightarrow> False
      | Some (x, k) \<Rightarrow> list_ex (\<lambda>(u, y, k'). u \<noteq> t \<and> k' = k \<and> (x \<or> y)) (lw_holds s))"

definition finished :: "nat \<Rightarrow> lock_world \<Rightarrow> lock_world" where
  "finished t s = s\<lparr>lw_holds := filter (\<lambda>h. fst h \<noteq> t) (lw_holds s),
     lw_timeout := (lw_timeout s)(t := None), lw_got := filter (\<lambda>g. fst g \<noteq> t) (lw_got s)\<rparr>"

inductive lock_step :: "lock_world \<Rightarrow> lock_world \<Rightarrow> bool" where
  call: "lw_waiting s t = None \<Longrightarrow> lock_step s (asked t p opts s)"
| grant: "lw_waiting s t = Some (p, opts) \<Longrightarrow> \<not> blocked t p opts s \<Longrightarrow> lock_step s (granted t p opts s)"
| expire: "lw_waiting s t = Some (p, opts) \<Longrightarrow> blocked t p opts s \<Longrightarrow> lw_timeout s t = Some ms
    \<Longrightarrow> lock_step s (answered t p opts (Some (Pg_error ''55P03'' m)) s)"
| refuse: "lw_waiting s t = Some (p, opts) \<Longrightarrow> \<not> isLockTimeoutErr e \<Longrightarrow> lock_step s (answered t p opts (Some e) s)"
| finish: "lw_waiting s t = None \<Longrightarrow> lock_step s (finished t s)"

lemma lock_result_simps [simp]:
  "lock_result t p opts None = Ex_nil"
  "lock_result t p opts (Some e) = Ex_error (Ex_fn (if isLockTimeoutErr e then ErrLockTimeout else Lock_acquire e))"
proof -
  have ne: "set_timeout_stmt ms \<noteq> lock_stmt p" for ms by (simp add: lock_stmt_def set_timeout_stmt_def)
  show "lock_result t p opts None = Ex_nil"
    "lock_result t p opts (Some e) = Ex_error (Ex_fn (if isLockTimeoutErr e then ErrLockTimeout else Lock_acquire e))"
    by (simp_all add: lock_result_def LockPartition_def Run_def lock_body_def tx_ctx_def Let_def ne split: option.splits)
qed

lemma call_stmts: "call_stmts t p opts = (case lock_timeout_ms opts of None \<Rightarrow> [lock_stmt p] | Some ms \<Rightarrow> [set_timeout_stmt ms, lock_stmt p])"
proof -
  have "txFromContext (tx_ctx t) = Some t" by (simp add: tx_ctx_def)
  from LockPartition_in_tx(1) [OF this] show ?thesis by (simp add: call_stmts_def split: option.split)
qed

text \<open>A call asks for the exclusive lock on the key of its partition, and sets the timeout it was given.\<close>

lemma call_requests [simp]:
  "lock_asked (call_stmts t p opts) = Some (True, lockKey p)"
  "timeout_after (call_stmts t p opts) m = (case lock_timeout_ms opts of None \<Rightarrow> m | Some ms \<Rightarrow> Some ms)"
  using lock_timeout_ms_pos [of opts] by (auto simp: call_stmts split: option.split)

lemma blocked_iff: "blocked t p opts s \<longleftrightarrow> (\<exists>u y. (u, y, lockKey p) \<in> set (lw_holds s) \<and> u \<noteq> t)"
  by (auto simp: blocked_def list_ex_iff)

lemma lock_world_simps [simp]:
  "lw_holds (asked t p opts s) = lw_holds s" "lw_got (asked t p opts s) = lw_got s" "lw_log (asked t p opts s) = lw_log s"
  "lw_waiting (asked t p opts s) = (lw_waiting s)(t \<mapsto> (p, opts))"
  "lw_holds (answered t p opts r s) = lw_holds s" "lw_timeout (answered t p opts r s) = lw_timeout s"
  "lw_waiting (answered t p opts r s) = (lw_waiting s)(t := None)"
  "lw_log (answered t p opts r s) = (t, p, opts, lock_result t p opts r) # lw_log s"
  "lw_got (answered t p opts (Some e) s) = lw_got s" "lw_got (answered t p opts None s) = (t, p) # lw_got s"
  "lw_got (granted t p opts s) = (t, p) # lw_got s" "lw_holds (granted t p opts s) = (t, True, lockKey p) # lw_holds s"
  "lw_timeout (granted t p opts s) = lw_timeout s" "lw_waiting (granted t p opts s) = (lw_waiting s)(t := None)"
  "lw_log (granted t p opts s) = (t, p, opts, Ex_nil) # lw_log s"
  "lw_log (finished t s) = lw_log s" "lw_waiting (finished t s) = lw_waiting s"
  "lw_timeout (finished t s) = (lw_timeout s)(t := None)"
  by (simp_all add: asked_def answered_def granted_def finished_def)

section \<open>Exclusion\<close>

text \<open>Whoever got a lock holds its key, exclusively, and nobody else does.\<close>

definition own_inv :: "lock_world \<Rightarrow> bool" where
  "own_inv s \<longleftrightarrow> (\<forall>t p. (t, p) \<in> set (lw_got s) \<longrightarrow> (t, True, lockKey p) \<in> set (lw_holds s))
     \<and> (\<forall>t x k. (t, x, k) \<in> set (lw_holds s) \<longrightarrow> (\<exists>p. (t, p) \<in> set (lw_got s) \<and> lockKey p = k))
     \<and> (\<forall>t u x y k. (t, x, k) \<in> set (lw_holds s) \<longrightarrow> (u, y, k) \<in> set (lw_holds s) \<longrightarrow> t = u)"

lemma own_inv_unique: "own_inv s \<Longrightarrow> (t, p) \<in> set (lw_got s) \<Longrightarrow> (u, q) \<in> set (lw_got s) \<Longrightarrow> lockKey p = lockKey q \<Longrightarrow> t = u"
  unfolding own_inv_def by metis

lemma own_inv_step: "lock_step s s' \<Longrightarrow> own_inv s \<Longrightarrow> own_inv s'"
proof (induction rule: lock_step.induct)
  case (grant s t p opts)
  then show ?case unfolding own_inv_def blocked_iff by (auto; metis)
next
  case (finish s t)
  then show ?case unfolding own_inv_def by (auto simp: finished_def)
qed (simp_all add: own_inv_def)

text \<open>The calls of a transaction, with their options.\<close>

definition lock_calls :: "lock_world \<Rightarrow> nat \<Rightarrow> (string \<times> lock_option list) set" where
  "lock_calls s t = {c. lw_waiting s t = Some c} \<union> {(p, opts). \<exists>res. (t, p, opts, res) \<in> set (lw_log s)}"

definition asked_timeout :: "lock_world \<Rightarrow> nat \<Rightarrow> bool" where
  "asked_timeout s t \<longleftrightarrow> (\<exists>c \<in> lock_calls s t. lock_timeout_ms (snd c) \<noteq> None)"

lemma lock_calls_mono: "lock_step s s' \<Longrightarrow> lock_calls s t \<subseteq> lock_calls s' t"
  by (induction rule: lock_step.induct) (auto simp: lock_calls_def split: if_splits)

definition time_inv :: "lock_world \<Rightarrow> bool" where
  "time_inv s \<longleftrightarrow> (\<forall>t. lw_timeout s t \<noteq> None \<longrightarrow> asked_timeout s t)
     \<and> (\<forall>t p opts. (t, p, opts, Ex_error (Ex_fn ErrLockTimeout)) \<in> set (lw_log s) \<longrightarrow> asked_timeout s t)"

lemma asked_timeout_now: "lock_timeout_ms opts = Some ms \<Longrightarrow> asked_timeout (asked t p opts s) t"
  unfolding asked_timeout_def lock_calls_def by (rule bexI [of _ "(p, opts)"]) simp_all

lemma time_inv_step:
  assumes "lock_step s s'" "time_inv s"
  shows "time_inv s'"
proof -
  have mono: "asked_timeout s' t" if "asked_timeout s t" for t
    using that lock_calls_mono [OF assms(1)] unfolding asked_timeout_def by blast
  have timed: "asked_timeout s' t" if "lw_timeout s t = Some ms" for t ms
    using that assms(2) mono unfolding time_inv_def by blast
  have logged: "asked_timeout s' t" if "(t, p, opts, Ex_error (Ex_fn ErrLockTimeout)) \<in> set (lw_log s)" for t p opts
    using that assms(2) mono unfolding time_inv_def by blast
  from assms(1) show ?thesis
  proof cases
    case (call t p opts)
    have "asked_timeout s' u" if "lw_timeout s' u = Some ms" for u ms
      using that timed asked_timeout_now unfolding call(1)
      by (auto simp: asked_def split: option.splits if_splits)
    then show ?thesis using logged unfolding time_inv_def call(1) by auto
  next
    case (grant t p opts)
    then show ?thesis using timed logged unfolding time_inv_def by auto
  next
    case (expire t p opts ms m)
    then show ?thesis using timed logged unfolding time_inv_def by auto
  next
    case (refuse t p opts e)
    then show ?thesis using timed logged unfolding time_inv_def by auto
  next
    case (finish t)
    then show ?thesis using timed logged unfolding time_inv_def by (auto split: if_splits)
  qed
qed

lemma finite_waiting_step: "lock_step s s' \<Longrightarrow> finite {t. lw_waiting s t \<noteq> None} \<Longrightarrow> finite {t. lw_waiting s' t \<noteq> None}"
proof (induction rule: lock_step.induct)
  case (call s t p opts)
  then show ?case by (rule_tac finite_subset [of _ "insert t {t. lw_waiting s t \<noteq> None}"]) auto
qed (rule finite_subset [rotated], assumption, auto split: if_splits)+

definition lock_inv :: "lock_world \<Rightarrow> bool" where
  "lock_inv s \<longleftrightarrow> own_inv s \<and> time_inv s \<and> finite {t. lw_waiting s t \<noteq> None}"

lemma lock_inv_start: "lock_inv lock_start"
  by (simp add: lock_inv_def own_inv_def time_inv_def lock_start_def)

lemma lock_inv_step: "lock_step s s' \<Longrightarrow> lock_inv s \<Longrightarrow> lock_inv s'"
  unfolding lock_inv_def by (blast intro: own_inv_step time_inv_step finite_waiting_step)

lemma lock_inv_reach: "lock_step\<^sup>*\<^sup>* lock_start s \<Longrightarrow> lock_inv s"
  by (induction rule: rtranclp_induct) (auto intro: lock_inv_start lock_inv_step)

text \<open>However many transactions lock, wait, time out, fail and end, in any order: two of them never hold the lock
  of one partition, nor of two partitions whose keys collide; and a call returns
  \<open>ErrLockTimeout\<close> only in a transaction that asked for a timeout, in this call or in one before.\<close>

theorem lock_exclusive:
  assumes "lock_step\<^sup>*\<^sup>* lock_start s"
  shows "((t, p) \<in> set (lw_got s) \<and> (u, q) \<in> set (lw_got s) \<and> lockKey p = lockKey q \<longrightarrow> t = u)
    \<and> ((v, r, opts, Ex_error (Ex_fn ErrLockTimeout)) \<in> set (lw_log s) \<longrightarrow> asked_timeout s v)"
proof -
  have inv: "own_inv s" "time_inv s" using lock_inv_reach [OF assms] by (simp_all add: lock_inv_def)
  have "t = u" if "(t, p) \<in> set (lw_got s)" "(u, q) \<in> set (lw_got s)" "lockKey p = lockKey q"
    using own_inv_unique [OF inv(1) that] .
  with inv(2) show ?thesis unfolding time_inv_def by blast
qed

section \<open>Deadlocks\<close>


section \<open>The timeout stays\<close>

lemma lock_now:
  assumes "lw_waiting s t = None" "\<not> blocked t p opts s"
  shows "lock_step\<^sup>*\<^sup>* s (granted t p opts (asked t p opts s))"
proof -
  have "lock_step s (asked t p opts s)" by (rule lock_step.call [OF assms(1)])
  moreover have "lock_step (asked t p opts s) (granted t p opts (asked t p opts s))"
    using assms(2) by (intro lock_step.grant) (simp_all add: blocked_iff)
  ultimately show ?thesis by (meson converse_rtranclp_into_rtranclp r_into_rtranclp)
qed

definition two_holders :: "lock_option list \<Rightarrow> lock_world" where
  "two_holders opts = granted 2 ''a'' opts (asked 2 ''a'' opts (granted 1 ''b'' [] (asked 1 ''b'' [] lock_start)))"

lemma keys_differ [simp]: "lockKey ''a'' \<noteq> lockKey ''b''" "lockKey ''b'' \<noteq> lockKey ''a''"
  by code_simp+

lemma two_holders_reached: "lock_step\<^sup>*\<^sup>* lock_start (two_holders opts)"
proof -
  have 1: "lock_step\<^sup>*\<^sup>* lock_start (granted 1 ''b'' [] (asked 1 ''b'' [] lock_start))"
    by (rule lock_now) (simp_all add: lock_start_def blocked_iff)
  have "lock_step\<^sup>*\<^sup>* (granted 1 ''b'' [] (asked 1 ''b'' [] lock_start)) (two_holders opts)"
    unfolding two_holders_def by (rule lock_now) (simp_all add: lock_start_def blocked_iff)
  with 1 show ?thesis by simp
qed

text \<open>The timeout of one call governs the calls after it: in a transaction whose first call asked for a timeout, a second call
  without an option, which by its documentation waits indefinitely, can return \<open>ErrLockTimeout\<close>, since \<open>SET LOCAL\<close>
  lasts to the end of the transaction.\<close>

theorem lock_timeout_stays:
  assumes "lock_timeout_ms opts = Some ms"
  shows "\<exists>s. lock_step\<^sup>*\<^sup>* lock_start s \<and> lw_log s = [(2, ''b'', [], Ex_error (Ex_fn ErrLockTimeout)), (2, ''a'', opts, Ex_nil), (1, ''b'', [], Ex_nil)]
    \<and> lock_timeout_ms [] = None"
proof -
  let ?s = "asked 2 ''b'' [] (two_holders opts)"
  have none: "lock_timeout_ms [] = None" by (simp add: lock_timeout_ms_def lock_timeout_def)
  have "lock_step (two_holders opts) ?s"
    by (rule lock_step.call) (simp add: two_holders_def lock_start_def)
  moreover have "lock_step ?s (answered 2 ''b'' [] (Some (Pg_error ''55P03'' [])) ?s)"
  proof (rule lock_step.expire [where ms = ms])
    show "lw_timeout ?s 2 = Some ms"
      using assms none by (simp add: two_holders_def asked_def granted_def answered_def)
  qed (auto simp: two_holders_def lock_start_def blocked_iff)
  ultimately have "lock_step\<^sup>*\<^sup>* lock_start (answered 2 ''b'' [] (Some (Pg_error ''55P03'' [])) ?s)"
    using two_holders_reached [of opts] by simp
  moreover have "isLockTimeoutErr (Pg_error ''55P03'' [])" by (simp add: isLockTimeoutErr_def)
  ultimately show ?thesis using none
    by (intro exI [of _ "answered 2 ''b'' [] (Some (Pg_error ''55P03'' [])) ?s"]) (simp add: two_holders_def lock_start_def)
qed

theorem lock_timeout_stays_witness:
  "\<exists>s. lock_step\<^sup>*\<^sup>* lock_start s \<and> (2, ''b'', [], Ex_error (Ex_fn ErrLockTimeout)) \<in> set (lw_log s)"
proof -
  have "lock_timeout_ms [WithLockTimeout 5000000] = Some 5" by (simp add: lock_timeout_ms_def lock_timeout_def)
  from lock_timeout_stays [OF this] show ?thesis by auto
qed

theorem lock_exclusive_witness:
  "(2, ''a'') \<in> set (lw_got (two_holders [])) \<and> (2 :: nat, ''a'') \<in> set (lw_got (two_holders [])) \<and> asked_timeout (two_holders []) 2 = False
   \<and> (2, ''a'', [], Ex_error (Ex_fn ErrLockTimeout)) \<notin> set (lw_log (two_holders []))"
proof -
  have "\<not> asked_timeout (two_holders []) 2"
    by (auto simp: asked_timeout_def lock_calls_def two_holders_def lock_start_def lock_timeout_ms_def lock_timeout_def)
  with lock_exclusive [OF two_holders_reached [of "[]"], of 2 "''a''" 2 "''a''" 2 "''a''" "[]"] show ?thesis
    by (simp add: two_holders_def)
qed


end
