(* ===== verification/Parquet_Pool.thy ===== *)
theory Parquet_Pool
  imports Go_Prelude
begin

text \<open>
  \<open>parquet.go\<close>: the encoder of a store with its two pools, and the decoder.  The parquet library is
  third-party code and a parameter, \<open>parquet_lib\<close>: what its writer appends to the output for a batch of records and at
  \<open>Close\<close>, and what \<open>Reset\<close> leaves.  What \<open>sync.Pool\<close> keeps is not
  determined: a \<open>Get\<close> returns any object that was put back and is not in use, or none.
\<close>

section \<open>The writer of the library\<close>

datatype pq_exit = Pq_ok | Pq_error string | Pq_panic string

record ('a, 'pw) parquet_lib =
  pq_new :: 'pw
  pq_reset :: "'pw \<Rightarrow> 'pw"
  pq_write :: "'pw \<Rightarrow> 'a list \<Rightarrow> pq_exit \<times> string \<times> 'pw"
  pq_close :: "'pw \<Rightarrow> pq_exit \<times> string \<times> 'pw"
  pq_row_groups :: "'pw \<Rightarrow> int list list option"  \<comment> \<open>sizes of the column chunks\<close>

text \<open>The loops over row groups and columns add up in an \<open>int64\<close>.\<close>

definition uncompressedSizeOf :: "('a, 'pw) parquet_lib \<Rightarrow> 'pw \<Rightarrow> int" where
  "uncompressedSizeOf lib pw =
     (case pq_row_groups lib pw of
        None \<Rightarrow> 0
      | Some rgs \<Rightarrow> fold (\<lambda>columns total. fold (\<lambda>c t. wrap64 (t + c)) columns total) rgs 0)"

text \<open>How an encode ends: the bytes and the size, an error, or a panic.\<close>

datatype enc_result = Enc_bytes string int | Enc_error string | Enc_panicked string

text \<open>\<open>Write\<close> and \<open>Close\<close> on a writer whose output holds \<open>sofar\<close>: the result, the output and the writer.\<close>

definition write_close ::
  "('a, 'pw) parquet_lib \<Rightarrow> 'pw \<Rightarrow> string \<Rightarrow> 'a list \<Rightarrow> enc_result \<times> string \<times> 'pw" where
  "write_close lib pw sofar records =
     (case pq_write lib pw records of
        (Pq_error e, b, pw1) \<Rightarrow> (Enc_error e, sofar @ b, pw1)
      | (Pq_panic p, b, pw1) \<Rightarrow> (Enc_panicked p, sofar @ b, pw1)
      | (Pq_ok, b, pw1) \<Rightarrow>
          (case pq_close lib pw1 of
             (Pq_error e, c, pw2) \<Rightarrow> (Enc_error e, sofar @ b @ c, pw2)
           | (Pq_panic p, c, pw2) \<Rightarrow> (Enc_panicked p, sofar @ b @ c, pw2)
           | (Pq_ok, c, pw2) \<Rightarrow> (Enc_bytes (sofar @ b @ c) (uncompressedSizeOf lib pw2), sofar @ b @ c, pw2)))"

definition encodeParquetUnpooled :: "('a, 'pw) parquet_lib \<Rightarrow> 'a list \<Rightarrow> enc_result" where
  "encodeParquetUnpooled lib records = fst (write_close lib (pq_new lib) [] records)"

section \<open>The pooled encoder\<close>

record buffer =
  bf_bytes :: string
  bf_cap :: nat

record ('a, 'pw) job =
  jb_records :: "'a list"
  jb_buf :: buffer
  jb_writer :: 'pw

record ('a, 'pw) parquetEncoder =
  en_bufCap :: nat
  en_writers :: "'pw list"
  en_bufs :: "buffer list"
  en_dropped :: nat  \<comment> \<open>calls of \<open>onBufDropped\<close>\<close>
  en_jobs :: "('a, 'pw) job list"
  en_results :: "('a list \<times> enc_result) list"

definition newParquetEncoder :: "nat \<Rightarrow> ('a, 'pw) parquetEncoder" where
  "newParquetEncoder bufCap = \<lparr>en_bufCap = bufCap, en_writers = [], en_bufs = [], en_dropped = 0, en_jobs = [], en_results = []\<rparr>"

text \<open>\<open>Get\<close> of a pool: one of its objects, or none; the others may be lost to the collector.\<close>

inductive pool_get :: "'x list \<Rightarrow> 'x option \<Rightarrow> 'x list \<Rightarrow> bool" where
  found: "x \<in> set xs \<Longrightarrow> set ys \<subseteq> set (remove1 x xs) \<Longrightarrow> pool_get xs (Some x) ys"
| none: "set ys \<subseteq> set xs \<Longrightarrow> pool_get xs None ys"

text \<open>The first half of \<open>encode\<close>: a buffer, emptied, and a writer, reset.\<close>

definition fresh_buf :: "buffer option \<Rightarrow> buffer" where
  "fresh_buf b = (case b of None \<Rightarrow> \<lparr>bf_bytes = [], bf_cap = 0\<rparr> | Some buf \<Rightarrow> buf\<lparr>bf_bytes := []\<rparr>)"

definition fresh_writer :: "('a, 'pw) parquet_lib \<Rightarrow> 'pw option \<Rightarrow> 'pw" where
  "fresh_writer lib w = (case w of None \<Rightarrow> pq_new lib | Some pw \<Rightarrow> pq_reset lib pw)"

text \<open>The deferred function: the buffer goes back unless it has grown above the cap, the writer only after a clean exit.\<close>

definition clean_exit :: "enc_result \<Rightarrow> bool" where
  "clean_exit r = (case r of Enc_bytes _ _ \<Rightarrow> True | _ \<Rightarrow> False)"

definition put_back :: "enc_result \<Rightarrow> buffer \<Rightarrow> 'pw \<Rightarrow> ('a, 'pw) parquetEncoder \<Rightarrow> ('a, 'pw) parquetEncoder" where
  "put_back r buf pw e =
     e\<lparr>en_bufs := (if bf_cap buf \<le> en_bufCap e then buf # en_bufs e else en_bufs e),
       en_dropped := (if bf_cap buf \<le> en_bufCap e then en_dropped e else en_dropped e + 1),
       en_writers := (if clean_exit r then pw # en_writers e else en_writers e)\<rparr>"

text \<open>Calls of \<open>encode\<close> by any number of goroutines; \<open>cap\<close> is what the buffer has grown to.\<close>

inductive encode_step :: "('a, 'pw) parquet_lib \<Rightarrow> ('a, 'pw) parquetEncoder \<Rightarrow> ('a, 'pw) parquetEncoder \<Rightarrow> bool"
  for lib where
  start: "pool_get (en_bufs e) b bufs \<Longrightarrow> pool_get (en_writers e) w writers \<Longrightarrow>
    encode_step lib e (e\<lparr>en_bufs := bufs, en_writers := writers,
      en_jobs := \<lparr>jb_records = records, jb_buf = fresh_buf b, jb_writer = fresh_writer lib w\<rparr> # en_jobs e\<rparr>)"
| finish: "job \<in> set (en_jobs e) \<Longrightarrow> write_close lib (jb_writer job) (bf_bytes (jb_buf job)) (jb_records job) = (r, bytes, pw)
    \<Longrightarrow> bf_cap (jb_buf job) \<le> cap \<Longrightarrow>
    encode_step lib e (put_back r \<lparr>bf_bytes = bytes, bf_cap = cap\<rparr> pw
      (e\<lparr>en_jobs := remove1 job (en_jobs e), en_results := (jb_records job, r) # en_results e\<rparr>))"

section \<open>Pooling does not change the bytes\<close>

text \<open>A writer that cannot be told from a new one; what \<open>Reset\<close> is documented to do after a file was written and closed.\<close>

definition like_new :: "('a, 'pw) parquet_lib \<Rightarrow> 'pw \<Rightarrow> bool" where
  "like_new lib pw \<longleftrightarrow> (\<forall>records. fst (write_close lib pw [] records) = encodeParquetUnpooled lib records)"

definition reset_renews :: "('a, 'pw) parquet_lib \<Rightarrow> bool" where
  "reset_renews lib \<longleftrightarrow> (\<forall>pw records r bytes pw'. like_new lib pw \<longrightarrow> write_close lib pw [] records = (r, bytes, pw') \<longrightarrow> clean_exit r
     \<longrightarrow> like_new lib (pq_reset lib pw'))"

definition enc_inv :: "('a, 'pw) parquet_lib \<Rightarrow> nat \<Rightarrow> ('a, 'pw) parquetEncoder \<Rightarrow> bool" where
  "enc_inv lib bufCap e \<longleftrightarrow> en_bufCap e = bufCap
     \<and> (\<forall>buf \<in> set (en_bufs e). bf_cap buf \<le> bufCap)
     \<and> (\<forall>pw \<in> set (en_writers e). like_new lib (pq_reset lib pw))
     \<and> (\<forall>job \<in> set (en_jobs e). bf_bytes (jb_buf job) = [] \<and> like_new lib (jb_writer job))
     \<and> (\<forall>(records, r) \<in> set (en_results e). r = encodeParquetUnpooled lib records)"

lemma pool_get_members: "pool_get xs o' ys \<Longrightarrow> set ys \<subseteq> set xs \<and> (\<forall>x. o' = Some x \<longrightarrow> x \<in> set xs)"
  by (induction rule: pool_get.induct) (auto dest: in_mono [THEN mp, OF set_remove1_subset] subsetD)

lemma enc_inv_step:
  assumes "encode_step lib e e'" "enc_inv lib n e" "reset_renews lib"
  shows "enc_inv lib n e'"
  using assms(1)
proof cases
  case (start b bufs w writers records)
  note g = pool_get_members [OF start(2)] pool_get_members [OF start(3)]
  have "bf_bytes (fresh_buf b) = []" by (simp add: fresh_buf_def split: option.splits)
  moreover have "like_new lib (fresh_writer lib w)"
    using g(2) assms(2) by (auto simp: fresh_writer_def enc_inv_def like_new_def encodeParquetUnpooled_def split: option.splits)
  ultimately show ?thesis using g assms(2) unfolding start(1) by (auto simp: enc_inv_def)
next
  case (finish job r bytes pw cap)
  have job: "bf_bytes (jb_buf job) = []" "like_new lib (jb_writer job)" using assms(2) finish(2) by (auto simp: enc_inv_def)
  have "r = encodeParquetUnpooled lib (jb_records job)" using job finish(3) by (auto simp: like_new_def dest: arg_cong [of _ _ fst])
  moreover have "like_new lib (pq_reset lib pw)" if "clean_exit r"
    using assms(3) job finish(3) that unfolding reset_renews_def by metis
  moreover have "set (remove1 job (en_jobs e)) \<subseteq> set (en_jobs e)" by (rule set_remove1_subset)
  ultimately show ?thesis using assms(2) unfolding finish(1) enc_inv_def put_back_def by auto
qed

text \<open>C37.  However many goroutines encode at once and whatever the pools return, every call of the
  pooled encoder ends exactly as the unpooled one on the same records: the same bytes, the same size, the same error; so a
  retry under an idempotency token writes the same file.  A writer that failed or panicked is never used
  again, and no pooled buffer is larger than the cap.\<close>

theorem encode_pooled:
  assumes "(encode_step lib)\<^sup>*\<^sup>* (newParquetEncoder bufCap) e" "reset_renews lib"
  shows "(\<forall>(records, r) \<in> set (en_results e). r = encodeParquetUnpooled lib records)
    \<and> (\<forall>buf \<in> set (en_bufs e). bf_cap buf \<le> bufCap)"
proof -
  have "enc_inv lib bufCap e"
    using assms(1)
  proof (induction rule: rtranclp_induct)
    case base
    show ?case by (simp add: enc_inv_def newParquetEncoder_def)
  next
    case (step e e')
    then show ?case using enc_inv_step assms(2) by blast
  qed
  then show ?thesis by (simp add: enc_inv_def)
qed

text \<open>A writer that counts its records, so that only \<open>Reset\<close> makes it new again; its second use is a reuse.\<close>

definition counting_lib :: "(string, nat) parquet_lib" where
  "counting_lib = \<lparr>pq_new = 0, pq_reset = (\<lambda>_. 0), pq_write = (\<lambda>pw rs. (Pq_ok, concat rs, pw + length rs)),
     pq_close = (\<lambda>pw. (Pq_ok, dec pw, pw)), pq_row_groups = (\<lambda>pw. Some [[int pw]])\<rparr>"

theorem encode_pooled_witness:
  "\<exists>e. (encode_step counting_lib)\<^sup>*\<^sup>* (newParquetEncoder 64) e
     \<and> en_results e = [([''a'', ''b''], encodeParquetUnpooled counting_lib [''a'', ''b'']), ([''a''], Enc_bytes ''a1'' 1)]"
proof -
  let ?e0 = "newParquetEncoder 64 :: (string, nat) parquetEncoder"
  let ?j1 = "\<lparr>jb_records = [''a''], jb_buf = fresh_buf None, jb_writer = fresh_writer counting_lib None\<rparr>"
  let ?e1 = "?e0\<lparr>en_bufs := [], en_writers := [], en_jobs := [?j1]\<rparr>"
  let ?e2 = "put_back (Enc_bytes ''a1'' 1) \<lparr>bf_bytes = ''a1'', bf_cap = 9\<rparr> 1 (?e1\<lparr>en_jobs := [], en_results := [([''a''], Enc_bytes ''a1'' 1)]\<rparr>)"
  let ?j2 = "\<lparr>jb_records = [''a'', ''b''], jb_buf = fresh_buf None, jb_writer = fresh_writer counting_lib (Some 1)\<rparr>"
  let ?e3 = "?e2\<lparr>en_bufs := [], en_writers := [], en_jobs := [?j2]\<rparr>"
  let ?e4 = "put_back (Enc_bytes ''ab2'' 2) \<lparr>bf_bytes = ''ab2'', bf_cap = 9\<rparr> 2
    (?e3\<lparr>en_jobs := [], en_results := [([''a'', ''b''], Enc_bytes ''ab2'' 2), ([''a''], Enc_bytes ''a1'' 1)]\<rparr>)"
  note d = newParquetEncoder_def put_back_def clean_exit_def
  have empty: "pool_get xs None []" for xs :: "'x list" by (rule pool_get.none) simp
  have 1: "encode_step counting_lib ?e0 ?e1"
    using encode_step.start [OF empty empty, where e = ?e0 and lib = counting_lib and records = "[''a'']"] by (simp add: d)
  have "write_close counting_lib (jb_writer ?j1) (bf_bytes (jb_buf ?j1)) (jb_records ?j1) = (Enc_bytes ''a1'' 1, ''a1'', 1)"
    by code_simp
  from encode_step.finish [of ?j1 ?e1, OF _ this, of 9] have 2: "encode_step counting_lib ?e1 ?e2"
    by (simp add: newParquetEncoder_def fresh_buf_def)
  have "pool_get (en_writers ?e2) (Some 1) []" by (rule pool_get.found) (simp_all add: d)
  from encode_step.start [OF empty this, where lib = counting_lib and records = "[''a'', ''b'']"]
  have 3: "encode_step counting_lib ?e2 ?e3" by (simp add: d)
  have "write_close counting_lib (jb_writer ?j2) (bf_bytes (jb_buf ?j2)) (jb_records ?j2) = (Enc_bytes ''ab2'' 2, ''ab2'', 2)"
    by code_simp
  from encode_step.finish [of ?j2 ?e3, OF _ this, of 9] have 4: "encode_step counting_lib ?e3 ?e4"
    by (simp add: fresh_buf_def d)
  have run: "(encode_step counting_lib)\<^sup>*\<^sup>* ?e0 ?e4" using 1 2 3 4 by (meson rtranclp.rtrancl_refl rtranclp.rtrancl_into_rtrancl)
  have "like_new counting_lib 0" by (simp add: like_new_def encodeParquetUnpooled_def counting_lib_def)
  then have renews: "reset_renews counting_lib" by (simp add: reset_renews_def counting_lib_def)
  have "en_results ?e4 = [([''a'', ''b''], Enc_bytes ''ab2'' 2), ([''a''], Enc_bytes ''a1'' 1)]" by (simp add: put_back_def)
  with encode_pooled [OF run renews] run show ?thesis by (intro exI [of _ ?e4]) simp
qed

section \<open>The decoder\<close>

text \<open>The reader of the library: the rows of a file, and how many of them and which error \<open>Read\<close> returns; \<open>io.EOF\<close> is no error.\<close>

datatype read_err = Read_eof | Read_failed string

definition decodeParquet :: "'a list \<Rightarrow> nat \<times> read_err option \<Rightarrow> string + 'a list" where
  "decodeParquet rows read =
     (if rows = [] then Inr []
      else case read of
             (n, Some (Read_failed e)) \<Rightarrow> Inl e
           | (n, _) \<Rightarrow> Inr (take n rows))"

end
