(* ===== verification/S3_Target.thy ===== *)
theory S3_Target
  imports Write_Path
begin

unbundle bit_operations_syntax

text \<open>
  \<open>target.go\<close>: the GET and the PUT of an object, and the integrity check of a PUT by its ETag, with
  \<open>crypto/md5\<close> and \<open>encoding/hex\<close> written out.  What the server answers is a parameter.
\<close>

section \<open>MD5\<close>

definition md5_k :: "32 word list" where
  "md5_k = [
     0xd76aa478, 0xe8c7b756, 0x242070db, 0xc1bdceee, 0xf57c0faf, 0x4787c62a, 0xa8304613, 0xfd469501,
     0x698098d8, 0x8b44f7af, 0xffff5bb1, 0x895cd7be, 0x6b901122, 0xfd987193, 0xa679438e, 0x49b40821,
     0xf61e2562, 0xc040b340, 0x265e5a51, 0xe9b6c7aa, 0xd62f105d, 0x02441453, 0xd8a1e681, 0xe7d3fbc8,
     0x21e1cde6, 0xc33707d6, 0xf4d50d87, 0x455a14ed, 0xa9e3e905, 0xfcefa3f8, 0x676f02d9, 0x8d2a4c8a,
     0xfffa3942, 0x8771f681, 0x6d9d6122, 0xfde5380c, 0xa4beea44, 0x4bdecfa9, 0xf6bb4b60, 0xbebfbc70,
     0x289b7ec6, 0xeaa127fa, 0xd4ef3085, 0x04881d05, 0xd9d4d039, 0xe6db99e5, 0x1fa27cf8, 0xc4ac5665,
     0xf4292244, 0x432aff97, 0xab9423a7, 0xfc93a039, 0x655b59c3, 0x8f0ccc92, 0xffeff47d, 0x85845dd1,
     0x6fa87e4f, 0xfe2ce6e0, 0xa3014314, 0x4e0811a1, 0xf7537e82, 0xbd3af235, 0x2ad7d2bb, 0xeb86d391]"

definition md5_shifts :: "nat list" where
  "md5_shifts = concat (map (\<lambda>row. concat (replicate 4 row)) [[7, 12, 17, 22], [5, 9, 14, 20], [4, 11, 16, 23], [6, 10, 15, 21]])"

text \<open>\<open>n\<close> bytes of a number, least significant first, and back.\<close>

fun le_bytes :: "nat \<Rightarrow> int \<Rightarrow> int list" where
  "le_bytes 0 x = []"
| "le_bytes (Suc n) x = x mod 256 # le_bytes n (x div 256)"

fun le_value :: "int list \<Rightarrow> int" where
  "le_value [] = 0"
| "le_value (b # bs) = b + 256 * le_value bs"

definition md5_pad :: "int list \<Rightarrow> int list" where
  "md5_pad bs = (let n = length bs in bs @ [128] @ replicate ((119 - n mod 64) mod 64) 0 @ le_bytes 8 (8 * int n mod 2 ^ 64))"

fun chunks :: "nat \<Rightarrow> nat \<Rightarrow> 'x list \<Rightarrow> 'x list list" where
  "chunks 0 k xs = []"
| "chunks (Suc n) k xs = take k xs # chunks n k (drop k xs)"

type_synonym md5_state = "32 word \<times> 32 word \<times> 32 word \<times> 32 word"

definition md5_round :: "32 word list \<Rightarrow> nat \<Rightarrow> md5_state \<Rightarrow> md5_state" where
  "md5_round m i = (\<lambda>(a, b, c, d).
     let (f, g) =
           (if i < 16 then ((b AND c) OR (NOT b AND d), i)
            else if i < 32 then ((d AND b) OR (NOT d AND c), (5 * i + 1) mod 16)
            else if i < 48 then (b XOR c XOR d, (3 * i + 5) mod 16)
            else (c XOR (b OR NOT d), (7 * i) mod 16))
     in (d, b + word_rotl (md5_shifts ! i) (a + f + md5_k ! i + m ! g), b, c))"

definition md5_block :: "int list \<Rightarrow> md5_state \<Rightarrow> md5_state" where
  "md5_block bs = (\<lambda>(a, b, c, d).
     let m = map (\<lambda>w. word_of_int (le_value w)) (chunks 16 4 bs);
         (a', b', c', d') = fold (md5_round m) [0..<64] (a, b, c, d)
     in (a + a', b + b', c + c', d + d'))"

definition md5 :: "string \<Rightarrow> int list" where
  "md5 s =
     (let bs = md5_pad (map (\<lambda>c. int (byte_val c)) s);
          (a, b, c, d) = fold md5_block (chunks (length bs div 64) 64 bs) (0x67452301, 0xefcdab89, 0x98badcfe, 0x10325476)
      in concat (map (\<lambda>w. le_bytes 4 (uint w)) [a, b, c, d]))"

definition hex_digit :: "int \<Rightarrow> char" where
  "hex_digit d = (if d < 10 then char_of (48 + nat d) else char_of (87 + nat d))"

definition hex_encode :: "int list \<Rightarrow> string" where
  "hex_encode bs = concat (map (\<lambda>b. [hex_digit (b div 16), hex_digit (b mod 16)]) bs)"

section \<open>The check of a PUT\<close>

datatype sse = Sse_none | Sse_aes256 | Sse_kms | Sse_kms_dsse

record put_output =
  po_sse :: sse
  po_ssec_algorithm :: string
  po_etag :: string

definition integrity_error :: string where
  "integrity_error = ''PUT body integrity check failed''"

definition verifyPutObjectETag :: "put_output option \<Rightarrow> string \<Rightarrow> string option" where
  "verifyPutObjectETag out expectedETagHex =
     (case out of
        None \<Rightarrow> None
      | Some out \<Rightarrow>
          if po_sse out = Sse_kms \<or> po_sse out = Sse_kms_dsse then None
          else if po_ssec_algorithm out \<noteq> [] then None
          else (let gotETag = trim_char (CHR 0x22) (po_etag out) in
                if gotETag = [] then None
                else if CHR ''-'' \<in> set gotETag then None
                else if \<not> equal_fold gotETag expectedETagHex then Some integrity_error
                else None))"

text \<open>What a PUT comes to after the retries of the SDK: an error, with the object stored or not, or an answer.\<close>

datatype put_response = Put_rejected string | Put_unanswered string | Put_answered "put_output option"

definition target_put :: "string \<Rightarrow> put_response \<Rightarrow> put_outcome" where
  "target_put data resp =
     (case resp of
        Put_rejected e \<Rightarrow> Put_absent e
      | Put_unanswered e \<Rightarrow> Put_stored e
      | Put_answered out \<Rightarrow>
          (case verifyPutObjectETag out (hex_encode (md5 data)) of None \<Rightarrow> Put_ok | Some e \<Rightarrow> Put_stored e))"

section \<open>GET\<close>

record get_response =
  gr_length :: "int option"  \<comment> \<open>Content-Length\<close>
  gr_body :: string  \<comment> \<open>what arrives\<close>
  gr_err :: "string option"  \<comment> \<open>how the body ends, if not with \<open>io.EOF\<close>\<close>

text \<open>\<open>io.ReadFull\<close> into a slice of the announced length, which it leaves filled up with zeros when the body is short, or
  \<open>io.ReadAll\<close>.\<close>

definition target_get :: "string + get_response \<Rightarrow> string \<times> string option" where
  "target_get resp =
     (case resp of
        Inl e \<Rightarrow> ([], Some e)
      | Inr r \<Rightarrow>
          (case gr_length r of
             Some n \<Rightarrow>
               if 0 < n then
                 if nat n \<le> length (gr_body r) then (take (nat n) (gr_body r), None)
                 else (gr_body r @ replicate (nat n - length (gr_body r)) (CHR 0x00),
                       Some (case gr_err r of
                               Some e \<Rightarrow> e
                             | None \<Rightarrow> if gr_body r = [] then ''EOF'' else ''unexpected EOF''))
               else (gr_body r, gr_err r)
           | None \<Rightarrow> (gr_body r, gr_err r)))"

text \<open>A GET without an error has the announced number of bytes, and all that arrived when none was announced.\<close>

lemma target_get_complete:
  assumes "target_get (Inr r) = (data, None)"
  shows "data = gr_body r \<or> (\<exists>n. gr_length r = Some n \<and> int (length data) = n \<and> data = take (nat n) (gr_body r))"
  using assms by (auto simp: target_get_def split: option.splits if_splits)

section \<open>Damaged uploads\<close>

lemma trim_char_quoted:
  assumes "c \<notin> set s"
  shows "trim_char c (c # s @ [c]) = s"
proof -
  have d: "dropWhile ((=) c) t = t" if "c \<notin> set t" for t using that by (cases t) auto
  show ?thesis
  proof (cases s)
    case Nil
    then show ?thesis by (simp add: trim_char_def)
  next
    case (Cons x xs)
    then have "dropWhile ((=) c) (s @ [c]) = s @ [c]" using assms by auto
    then show ?thesis using d [of "rev s"] assms by (simp add: trim_char_def)
  qed
qed

lemma hex_digit_range:
  assumes "0 \<le> d" "d < 16"
  shows "byte_val (hex_digit d) \<in> {48..57} \<union> {97..102}"
proof -
  have "nat d \<le> 9 \<or> 10 \<le> nat d \<and> nat d \<le> 15" using assms by linarith
  then show ?thesis using assms by (auto simp: hex_digit_def byte_val_def)
qed

lemma le_bytes_range: "b \<in> set (le_bytes n x) \<Longrightarrow> 0 \<le> b \<and> b < 256"
  by (induction n arbitrary: x) auto

lemma hex_encode_chars:
  assumes "\<forall>b \<in> set bs. 0 \<le> b \<and> b < 256" "c \<in> set (hex_encode bs)"
  shows "byte_val c \<in> {48..57} \<union> {97..102}"
proof -
  obtain b where b: "b \<in> set bs" "c = hex_digit (b div 16) \<or> c = hex_digit (b mod 16)"
    using assms(2) by (auto simp: hex_encode_def)
  have "0 \<le> b div 16 \<and> b div 16 < 16 \<and> 0 \<le> b mod 16 \<and> b mod 16 < 16" using assms(1) b(1) by auto
  with b(2) hex_digit_range show ?thesis by blast
qed

lemma md5_bytes: "\<forall>b \<in> set (md5 s). 0 \<le> b \<and> b < 256" "md5 s \<noteq> []"
proof -
  obtain n bs where md5: "md5 s = (case fold md5_block (chunks n 64 bs) (0x67452301, 0xefcdab89, 0x98badcfe, 0x10325476) of
      (a, b, c, d) \<Rightarrow> concat (map (\<lambda>w. le_bytes 4 (uint w)) [a, b, c, d]))"
    unfolding md5_def Let_def by blast
  obtain a b c d where "fold md5_block (chunks n 64 bs) (0x67452301, 0xefcdab89, 0x98badcfe, 0x10325476) = (a, b, c, d)"
    by (metis prod_cases4)
  then have eq: "md5 s = concat (map (\<lambda>w. le_bytes 4 (uint w)) [a, b, c, d])" using md5 by simp
  show "\<forall>b \<in> set (md5 s). 0 \<le> b \<and> b < 256" unfolding eq by (auto dest: le_bytes_range)
  show "md5 s \<noteq> []" unfolding eq by (simp add: eval_nat_numeral)
qed

lemma md5_chars: "c \<in> set (hex_encode (md5 s)) \<Longrightarrow> byte_val c \<in> {48..57} \<union> {97..102}"
  by (rule hex_encode_chars [OF md5_bytes(1)])

lemma md5_nonempty: "hex_encode (md5 s) \<noteq> []"
  using md5_bytes(2) [of s] by (cases "md5 s") (simp_all add: hex_encode_def)

lemma md5_no_char: "byte_val c \<notin> {48..57} \<union> {97..102} \<Longrightarrow> c \<notin> set (hex_encode (md5 s))"
  using md5_chars by blast

lemma low_char_hex:
  assumes "byte_val c \<in> {48..57} \<union> {97..102}"
  shows "low_char c = c" "low_char (up_char c) = c" "up_char c \<noteq> CHR 0x22" "up_char c \<noteq> CHR ''-''"
proof -
  have all: "\<forall>b \<in> set ([48..<58] @ [97..<103]). low_char (char_of b) = char_of b \<and> low_char (up_char (char_of b)) = char_of b
      \<and> up_char (char_of b) \<noteq> CHR 0x22 \<and> up_char (char_of b) \<noteq> CHR ''-''" by code_simp
  have "byte_val c \<in> set ([48..<58] @ [97..<103])" using assms by (simp only: set_append set_upt) auto
  from bspec [OF all this] have c: "low_char (char_of (byte_val c)) = char_of (byte_val c)"
    "low_char (up_char (char_of (byte_val c))) = char_of (byte_val c)"
    "up_char (char_of (byte_val c)) \<noteq> CHR 0x22" "up_char (char_of (byte_val c)) \<noteq> CHR ''-''" by simp_all
  have "char_of (byte_val c) = c" by (simp add: byte_val_def)
  with c show "low_char c = c" "low_char (up_char c) = c" "up_char c \<noteq> CHR 0x22" "up_char c \<noteq> CHR ''-''"
    by simp_all
qed

lemma md5_lower: "to_lower (hex_encode (md5 s)) = hex_encode (md5 s)" "to_lower (to_upper (hex_encode (md5 s))) = hex_encode (md5 s)"
  using low_char_hex [OF md5_chars] by (simp_all add: to_lower_def to_upper_def map_idI)

lemma hex_digit_inj: "hex_digit d = hex_digit e \<Longrightarrow> 0 \<le> d \<Longrightarrow> d < 16 \<Longrightarrow> 0 \<le> e \<Longrightarrow> e < 16 \<Longrightarrow> d = e"
proof -
  assume eq: "hex_digit d = hex_digit e" and r: "0 \<le> d" "d < 16" "0 \<le> e" "e < 16"
  have v: "byte_val (hex_digit x) = (if x < 10 then 48 + nat x else 87 + nat x)" if "0 \<le> x" "x < 16" for x
    using that by (simp add: hex_digit_def byte_val_def)
  have "(if d < 10 then 48 + nat d else 87 + nat d) = (if e < 10 then 48 + nat e else 87 + nat e)"
    using arg_cong [OF eq, of byte_val] unfolding v [OF r(1,2)] v [OF r(3,4)] .
  with r show "d = e" by (cases "d < 10"; cases "e < 10") auto
qed

lemma hex_encode_inj:
  "hex_encode xs = hex_encode ys \<Longrightarrow> \<forall>b \<in> set xs. 0 \<le> b \<and> b < 256 \<Longrightarrow> \<forall>b \<in> set ys. 0 \<le> b \<and> b < 256 \<Longrightarrow> xs = ys"
proof (induction xs arbitrary: ys)
  case Nil
  then show ?case by (cases ys) (simp_all add: hex_encode_def)
next
  case (Cons x xs)
  obtain y ys' where ys: "ys = y # ys'" using Cons.prems(1) by (cases ys) (simp_all add: hex_encode_def)
  have eq: "hex_digit (x div 16) = hex_digit (y div 16)" "hex_digit (x mod 16) = hex_digit (y mod 16)"
    and rest: "hex_encode xs = hex_encode ys'"
    using Cons.prems(1) by (simp_all add: hex_encode_def ys)
  have "0 \<le> x" "x < 256" "0 \<le> y" "y < 256" using Cons.prems(2,3) by (simp_all add: ys)
  then have "x div 16 = y div 16" "x mod 16 = y mod 16"
    by (auto intro: hex_digit_inj [OF eq(1)] hex_digit_inj [OF eq(2)])
  then have "x = y" by (metis div_mult_mod_eq)
  moreover have "xs = ys'" using Cons.IH [OF rest] Cons.prems(2,3) by (simp add: ys)
  ultimately show ?case by (simp add: ys)
qed

text \<open>C38.  A PUT that the server answers with the MD5 of what it stored, quoted and in lower or upper case, as S3 does for every PUT
  without a customer or KMS key, succeeds exactly when the MD5 of what was stored is the MD5 of what was sent: a body that
  was truncated or replaced on the way is an error, never a success, and the object counts as stored, so that it stays tracked.\<close>

theorem put_detects_damage:
  assumes "po_sse out = Sse_none \<or> po_sse out = Sse_aes256" "po_ssec_algorithm out = []"
    and "po_etag out = CHR 0x22 # etag @ [CHR 0x22]" "etag = hex_encode (md5 stored) \<or> etag = to_upper (hex_encode (md5 stored))"
  shows "target_put sent (Put_answered (Some out)) = (if md5 stored = md5 sent then Put_ok else Put_stored integrity_error)"
proof -
  let ?h = "hex_encode (md5 stored)"
  have no: "CHR 0x22 \<notin> set etag" "CHR ''-'' \<notin> set etag"
  proof -
    have h: "CHR 0x22 \<notin> set ?h" "CHR ''-'' \<notin> set ?h" by (rule md5_no_char, simp add: byte_val_def)+
    have "CHR 0x22 \<notin> set (to_upper ?h)" "CHR ''-'' \<notin> set (to_upper ?h)"
      unfolding to_upper_def using low_char_hex(3,4) [OF md5_chars] by (auto simp: image_iff) metis+
    with h assms(4) show "CHR 0x22 \<notin> set etag" "CHR ''-'' \<notin> set etag" by auto
  qed
  have ne: "etag \<noteq> []" using assms(4) md5_nonempty [of stored] by (auto simp: to_upper_def)
  have "to_lower etag = ?h" using assms(4) md5_lower by auto
  then have "equal_fold etag (hex_encode (md5 sent)) \<longleftrightarrow> ?h = hex_encode (md5 sent)"
    by (simp add: equal_fold_def md5_lower)
  also have "\<dots> \<longleftrightarrow> md5 stored = md5 sent" using hex_encode_inj md5_bytes(1) by metis
  finally show ?thesis
    using assms(1-3) no ne trim_char_quoted [OF no(1)] by (auto simp: target_put_def verifyPutObjectETag_def Let_def)
qed

theorem put_detects_damage_witness:
  "target_put ''PAR1'' (Put_answered (Some \<lparr>po_sse = Sse_aes256, po_ssec_algorithm = [],
     po_etag = CHR 0x22 # hex_encode (md5 ''PAR1'') @ [CHR 0x22]\<rparr>)) = Put_ok"
proof -
  have "target_put ''PAR1'' (Put_answered (Some \<lparr>po_sse = Sse_aes256, po_ssec_algorithm = [],
      po_etag = CHR 0x22 # hex_encode (md5 ''PAR1'') @ [CHR 0x22]\<rparr>))
    = (if md5 ''PAR1'' = md5 ''PAR1'' then Put_ok else Put_stored integrity_error)"
    by (rule put_detects_damage [where etag = "hex_encode (md5 ''PAR1'')"]) simp_all
  then show ?thesis by (simp only: if_True simp_thms)
qed

end
