(* ===== verification/S3_Client.thy ===== *)
theory S3_Client
  imports Go_Prelude
begin

text \<open>
  \<open>s3client/\<close>: the retry schedule, the limits that \<open>WithDefaults\<close> installs, the order of its middleware, the options from
  the environment, and what the middleware records of an operation.  The SDK, its adaptive retryer, the
  token bucket and the instruments are third-party code: what they answer is an argument.
\<close>

section \<open>The retry schedule (backoff.go)\<close>

record equalJitterBackoff =
  bo_base :: int
  bo_cap :: int

definition backoffBase :: int where "backoffBase = 200 * 1000000"
definition backoffCap :: int where "backoffCap = 10 * 1000000000"

definition backoff_window :: "equalJitterBackoff \<Rightarrow> int \<Rightarrow> int" where
  "backoff_window b attempt =
     (let attempt = (if attempt < 1 then 1 else attempt);
          shift = (if attempt - 1 > 30 then 30 else attempt - 1);
          window = wrap64 (bo_base b * 2 ^ nat shift)
      in if window > bo_cap b \<or> window \<le> 0 then bo_cap b else window)"

text \<open>\<open>rnd n\<close> is what \<open>rand.Int64N(n)\<close> returns, between 0 and \<open>n - 1\<close>.\<close>

definition BackoffDelay :: "(int \<Rightarrow> int) \<Rightarrow> equalJitterBackoff \<Rightarrow> int \<Rightarrow> int" where
  "BackoffDelay rnd b attempt =
     (let window = backoff_window b attempt; half = window div 2
      in if half \<le> 0 then window else half + rnd half)"

definition rand_ok :: "(int \<Rightarrow> int) \<Rightarrow> bool" where
  "rand_ok rnd \<longleftrightarrow> (\<forall>n. 0 < n \<longrightarrow> 0 \<le> rnd n \<and> rnd n < n)"

lemma backoff_window_range:
  assumes "0 < bo_cap b"
  shows "0 < backoff_window b attempt" "backoff_window b attempt \<le> bo_cap b"
  using assms by (auto simp: backoff_window_def Let_def)

text \<open>C39.  Every wait between two attempts is positive, at least half of its window, rounded down, and at most the cap, for every attempt
  number and every base, also where the shift overflows: there is no immediate retry and no wait beyond the
  cap.\<close>

theorem backoff_between:
  assumes "2 \<le> bo_cap b" "rand_ok rnd"
  shows "0 < BackoffDelay rnd b attempt \<and> backoff_window b attempt div 2 \<le> BackoffDelay rnd b attempt
    \<and> BackoffDelay rnd b attempt \<le> bo_cap b"
proof -
  let ?w = "backoff_window b attempt" and ?h = "backoff_window b attempt div 2"
  have w: "0 < ?w" "?w \<le> bo_cap b" using backoff_window_range [of b attempt] assms(1) by simp_all
  show ?thesis
  proof (cases "?h \<le> 0")
    case True
    with w show ?thesis by (simp add: BackoffDelay_def Let_def)
  next
    case False
    then have "0 \<le> rnd ?h" "rnd ?h < ?h" using assms(2) by (simp_all add: rand_ok_def)
    moreover have "2 * ?h \<le> ?w" by simp
    ultimately show ?thesis using False w by (simp add: BackoffDelay_def Let_def)
  qed
qed

theorem backoff_between_witness:
  "0 < BackoffDelay (\<lambda>n. n - 1) \<lparr>bo_base = backoffBase, bo_cap = backoffCap\<rparr> 40
   \<and> BackoffDelay (\<lambda>n. n - 1) \<lparr>bo_base = backoffBase, bo_cap = backoffCap\<rparr> 40 \<le> backoffCap"
  using backoff_between [of "\<lparr>bo_base = backoffBase, bo_cap = backoffCap\<rparr>" "\<lambda>n. n - 1" 40]
  by (simp add: backoffCap_def rand_ok_def)

text \<open>With the constants of the package the windows are 200 ms, 400 ms and so on, and the four waits of a budget of five attempts
  stay below three seconds.\<close>

lemma default_windows:
  "map (backoff_window \<lparr>bo_base = backoffBase, bo_cap = backoffCap\<rparr>) [1, 2, 3, 4, 5, 6, 7]
     = map (\<lambda>ms. ms * 1000000) [200, 400, 800, 1600, 3200, 6400, 10000]"
  by code_simp

lemma default_total:
  assumes "rand_ok rnd"
  shows "(\<Sum>a \<leftarrow> [1, 2, 3, 4]. BackoffDelay rnd \<lparr>bo_base = backoffBase, bo_cap = backoffCap\<rparr> a) < 3 * 1000000000"
proof -
  let ?b = "\<lparr>bo_base = backoffBase, bo_cap = backoffCap\<rparr>"
  have w: "map (backoff_window ?b) [1, 2, 3, 4] = [200000000, 400000000, 800000000, 1600000000]" by code_simp
  have r: "rnd n < n" if "0 < n" for n using assms that by (simp add: rand_ok_def)
  have "rnd 100000000 < 100000000" "rnd 200000000 < 200000000" "rnd 400000000 < 400000000" "rnd 800000000 < 800000000"
    by (rule r, simp)+
  with w show ?thesis by (simp add: BackoffDelay_def)
qed

section \<open>WithDefaults (s3client.go)\<close>

definition defaultMaxOpenConnections :: int where "defaultMaxOpenConnections = 64"
definition defaultMaxRetryAttempts :: int where "defaultMaxRetryAttempts = 5"

text \<open>A \<open>float64\<close> is abstract: its sign, and the truncation of its tenth.\<close>

datatype 'f float_view = Float_view (float_value: 'f) (float_positive: bool) (float_negative: bool) (float_tenth: int)

record 'f options =
  op_max_open :: int
  op_max_attempts :: int
  op_rate :: "'f float_view option"  \<comment> \<open>\<open>None\<close>: zero\<close>
  op_burst :: int
  op_path_style :: bool

definition rate_positive :: "'f options \<Rightarrow> bool" where
  "rate_positive o1 = (case op_rate o1 of None \<Rightarrow> False | Some f \<Rightarrow> float_positive f)"

text \<open>The token bucket, if there is one: its rate and its burst.\<close>

definition rate_limiter :: "'f options \<Rightarrow> ('f \<times> int) option" where
  "rate_limiter o1 =
     (case op_rate o1 of
        None \<Rightarrow> None
      | Some f \<Rightarrow>
          if \<not> float_positive f then None
          else Some (float_value f,
            if op_burst o1 \<le> 0 then (if float_tenth f < 1 then 1 else float_tenth f) else op_burst o1))"

definition buildHTTPClient :: "int \<Rightarrow> int" where
  "buildHTTPClient maxOpen = (if maxOpen \<le> 0 then defaultMaxOpenConnections else maxOpen)"

definition newAdaptiveRetryer :: "int \<Rightarrow> int \<times> equalJitterBackoff" where
  "newAdaptiveRetryer maxAttempts =
     (if maxAttempts \<le> 0 then defaultMaxRetryAttempts else maxAttempts, \<lparr>bo_base = backoffBase, bo_cap = backoffCap\<rparr>)"

datatype middleware = Mw_metrics | Mw_ratelimit | Mw_other string

text \<open>\<open>stack.Initialize.Add(m, Before)\<close> puts \<open>m\<close> in front.\<close>

definition initialize_stack :: "'f options \<Rightarrow> middleware list \<Rightarrow> middleware list" where
  "initialize_stack o1 stack =
     (let stack1 = Mw_metrics # stack in if rate_limiter o1 \<noteq> None then Mw_ratelimit # stack1 else stack1)"

record 'f client =
  cl_conns :: int
  cl_retry :: "int \<times> equalJitterBackoff"
  cl_limiter :: "('f \<times> int) option"
  cl_path_style :: bool
  cl_initialize :: "middleware list"

definition WithDefaults :: "'f options \<Rightarrow> bool \<Rightarrow> middleware list \<Rightarrow> 'f client" where
  "WithDefaults o1 path_style stack =
     \<lparr>cl_conns = buildHTTPClient (op_max_open o1), cl_retry = newAdaptiveRetryer (op_max_attempts o1),
      cl_limiter = rate_limiter o1, cl_path_style = op_path_style o1 \<or> path_style,
      cl_initialize = initialize_stack o1 stack\<rparr>"

lemma WithDefaults_limits:
  "0 < cl_conns (WithDefaults o1 ps stack)" "0 < fst (cl_retry (WithDefaults o1 ps stack))"
  "cl_limiter (WithDefaults o1 ps stack) = Some (r, burst) \<Longrightarrow> 1 \<le> burst"
  by (auto simp: WithDefaults_def buildHTTPClient_def newAdaptiveRetryer_def rate_limiter_def defaultMaxOpenConnections_def
      defaultMaxRetryAttempts_def split: option.splits if_splits)

section \<open>The rate limiter (ratelimit.go)\<close>

datatype ctx_error = Ctx_canceled | Ctx_deadline

text \<open>\<open>HandleInitialize\<close>: the error of \<open>Wait\<close>, whatever it is, becomes the one of the context.\<close>

definition ratelimit :: "string option \<Rightarrow> ctx_error option \<Rightarrow> (unit \<Rightarrow> 'r) \<Rightarrow> ctx_error + 'r" where
  "ratelimit wait ctx_err next_op =
     (case wait of
        None \<Rightarrow> Inr (next_op ())
      | Some _ \<Rightarrow> Inl (case ctx_err of Some e \<Rightarrow> e | None \<Rightarrow> Ctx_deadline))"

section \<open>Options from the environment (env.go)\<close>

datatype env_error = Env_parse string string | Env_negative string

definition DefaultEnvPrefix :: string where "DefaultEnvPrefix = ''S3PGSTORE''"

definition resolveEnvPrefix :: "string \<Rightarrow> string" where
  "resolveEnvPrefix prefix = (if prefix = [] then DefaultEnvPrefix else to_upper prefix)"

definition envIntNonNeg :: "(string \<Rightarrow> string) \<Rightarrow> string \<Rightarrow> env_error + int" where
  "envIntNonNeg getenv key =
     (let v = getenv key in
      if v = [] then Inr 0
      else case parse_int64 v of
             None \<Rightarrow> Inl (Env_parse key v)
           | Some n \<Rightarrow> if n < 0 then Inl (Env_negative key) else Inr n)"

text \<open>\<open>strconv.ParseFloat\<close> is the argument \<open>parse_float\<close>.\<close>

definition envFloatNonNeg ::
  "(string \<Rightarrow> 'f float_view option) \<Rightarrow> (string \<Rightarrow> string) \<Rightarrow> string \<Rightarrow> env_error + 'f float_view option" where
  "envFloatNonNeg parse_float getenv key =
     (let v = getenv key in
      if v = [] then Inr None
      else case parse_float v of
             None \<Rightarrow> Inl (Env_parse key v)
           | Some f \<Rightarrow> if float_negative f then Inl (Env_negative key) else Inr (Some f))"

text \<open>\<open>strconv.ParseBool\<close>.\<close>

definition parse_bool :: "string \<Rightarrow> bool option" where
  "parse_bool v =
     (if v \<in> {''1'', ''t'', ''T'', ''TRUE'', ''true'', ''True''} then Some True
      else if v \<in> {''0'', ''f'', ''F'', ''FALSE'', ''false'', ''False''} then Some False
      else None)"

definition envBool :: "(string \<Rightarrow> string) \<Rightarrow> string \<Rightarrow> env_error + bool" where
  "envBool getenv key =
     (let v = getenv key in
      if v = [] then Inr False
      else case parse_bool v of None \<Rightarrow> Inl (Env_parse key v) | Some b \<Rightarrow> Inr b)"

definition OptionsFromEnv ::
  "(string \<Rightarrow> 'f float_view option) \<Rightarrow> (string \<Rightarrow> string) \<Rightarrow> string \<Rightarrow> env_error + 'f options" where
  "OptionsFromEnv parse_float getenv prefix =
     (let p = resolveEnvPrefix prefix in
      and_then (envIntNonNeg getenv (p @ ''_S3_MAX_OPEN_CONNECTIONS'')) (\<lambda>conns.
      and_then (envIntNonNeg getenv (p @ ''_S3_MAX_RETRY_ATTEMPTS'')) (\<lambda>own.
      and_then (if own = 0 then envIntNonNeg getenv ''AWS_MAX_ATTEMPTS'' else Inr own) (\<lambda>attempts.
      and_then (envFloatNonNeg parse_float getenv (p @ ''_S3_MAX_REQUESTS_PER_SECOND'')) (\<lambda>rate.
      and_then (envIntNonNeg getenv (p @ ''_S3_MAX_REQUESTS_PER_SECOND_BURST'')) (\<lambda>burst.
      and_then (envBool getenv (p @ ''_S3_USE_PATH_STYLE'')) (\<lambda>path_style.
        Inr \<lparr>op_max_open = conns, op_max_attempts = attempts, op_rate = rate, op_burst = burst,
             op_path_style = path_style\<rparr>)))))))"

lemma envIntNonNeg_ok: "envIntNonNeg getenv key = Inr n \<Longrightarrow> 0 \<le> n \<and> (getenv key = [] \<longrightarrow> n = 0)"
  by (auto simp: envIntNonNeg_def Let_def split: if_splits option.splits)

lemma envFloatNonNeg_ok:
  "envFloatNonNeg parse_float getenv key = Inr r \<Longrightarrow> case r of None \<Rightarrow> True | Some f \<Rightarrow> \<not> float_negative f"
  by (auto simp: envFloatNonNeg_def Let_def split: if_splits option.splits)

text \<open>Accepted options are not negative, and an empty environment gives the defaults.\<close>

lemma OptionsFromEnv_ok:
  assumes "OptionsFromEnv parse_float getenv prefix = Inr o1"
  shows "0 \<le> op_max_open o1 \<and> 0 \<le> op_max_attempts o1 \<and> 0 \<le> op_burst o1
    \<and> (case op_rate o1 of None \<Rightarrow> True | Some f \<Rightarrow> \<not> float_negative f)"
proof -
  let ?p = "resolveEnvPrefix prefix"
  from assms obtain conns own attempts rate burst path_style where
    "envIntNonNeg getenv (?p @ ''_S3_MAX_OPEN_CONNECTIONS'') = Inr conns"
    "envIntNonNeg getenv (?p @ ''_S3_MAX_RETRY_ATTEMPTS'') = Inr own"
    "(if own = 0 then envIntNonNeg getenv ''AWS_MAX_ATTEMPTS'' else Inr own) = Inr attempts"
    "envFloatNonNeg parse_float getenv (?p @ ''_S3_MAX_REQUESTS_PER_SECOND'') = Inr rate"
    "envIntNonNeg getenv (?p @ ''_S3_MAX_REQUESTS_PER_SECOND_BURST'') = Inr burst"
    and o1: "Inr \<lparr>op_max_open = conns, op_max_attempts = attempts, op_rate = rate, op_burst = burst,
             op_path_style = path_style\<rparr> = (Inr o1 :: env_error + 'a options)"
    unfolding OptionsFromEnv_def Let_def and_then_Inr by (elim exE conjE) (rule that)
  then have "0 \<le> conns" "0 \<le> own" "0 \<le> burst" "case rate of None \<Rightarrow> True | Some f \<Rightarrow> \<not> float_negative f" "0 \<le> attempts"
    using envIntNonNeg_ok envFloatNonNeg_ok by (blast, blast, blast, blast, metis sum.inject(2))
  then show ?thesis unfolding sum.inject(2) [THEN iffD1, OF o1, symmetric] by simp
qed

lemma OptionsFromEnv_empty:
  "OptionsFromEnv parse_float (\<lambda>_. []) prefix
     = Inr \<lparr>op_max_open = 0, op_max_attempts = 0, op_rate = None, op_burst = 0, op_path_style = False\<rparr>"
  by (simp add: OptionsFromEnv_def envIntNonNeg_def envFloatNonNeg_def envBool_def Let_def)

text \<open>The budget of the SDK's own variable counts only when the other one is unset or zero.\<close>

lemma retry_attempts_fallback:
  assumes "OptionsFromEnv parse_float getenv prefix = Inr o1"
    and "getenv (resolveEnvPrefix prefix @ ''_S3_MAX_RETRY_ATTEMPTS'') = []"
  shows "envIntNonNeg getenv ''AWS_MAX_ATTEMPTS'' = Inr (op_max_attempts o1)"
  using assms by (auto simp: OptionsFromEnv_def Let_def and_then_Inr envIntNonNeg_def split: if_splits)

section \<open>What an operation records (metrics_s3op.go, metrics.go)\<close>

text \<open>An error, as \<open>errors.Is\<close> and \<open>errors.As\<close> see it.\<close>

record op_error =
  oe_canceled :: bool
  oe_api_code :: "string option"
  oe_status :: "int option"

datatype outcome = Outcome_success | Outcome_canceled | Outcome_error

datatype error_type = Type_none | Type_canceled | Type_slowdown | Type_notfound | Type_server | Type_client | Type_other | Type_transport

definition status_type :: "int \<Rightarrow> error_type" where
  "status_type status =
     (if status = 429 then Type_slowdown else if status \<ge> 500 then Type_server
      else if status \<ge> 400 then Type_client else Type_other)"

definition classifyS3Error :: "op_error option \<Rightarrow> outcome \<times> error_type" where
  "classifyS3Error err =
     (case err of
        None \<Rightarrow> (Outcome_success, Type_none)
      | Some e \<Rightarrow>
          if oe_canceled e then (Outcome_canceled, Type_canceled)
          else if oe_api_code e = Some ''SlowDown'' then (Outcome_error, Type_slowdown)
          else if oe_api_code e \<in> {Some ''NoSuchKey'', Some ''NotFound''} then (Outcome_error, Type_notfound)
          else case oe_status e of
                 Some status \<Rightarrow> (Outcome_error, status_type status)
               | None \<Rightarrow> (Outcome_error, Type_transport))"

text \<open>A row of the attempt-error counter: the attempt, the error type, whether it was the last.\<close>

type_synonym attempt_row = "nat \<times> error_type \<times> bool"

definition recordAttemptError :: "nat \<Rightarrow> op_error \<Rightarrow> bool \<Rightarrow> attempt_row" where
  "recordAttemptError attempt e terminal = (attempt, snd (classifyS3Error (Some e)), terminal)"

text \<open>The loop over the attempts that the SDK reports.\<close>

fun attempt_rows :: "nat \<Rightarrow> nat \<Rightarrow> op_error option list \<Rightarrow> attempt_row list" where
  "attempt_rows n i [] = []"
| "attempt_rows n i (None # rs) = attempt_rows n (i + 1) rs"
| "attempt_rows n i (Some e # rs) = recordAttemptError (i + 1) e (i = n - 1) # attempt_rows n (i + 1) rs"

definition op_attempts :: "op_error option list \<Rightarrow> nat" where
  "op_attempts results = (if results = [] then 1 else length results)"

definition op_rows :: "op_error option list \<Rightarrow> op_error option \<Rightarrow> attempt_row list" where
  "op_rows results err =
     (let rows = attempt_rows (length results) 0 results; fired = (\<exists>r \<in> set rows. snd (snd r))
      in case err of
           Some e \<Rightarrow> if fired then rows else rows @ [recordAttemptError (op_attempts results) e True]
         | None \<Rightarrow> rows)"

lemma attempt_rows_terminal:
  "r \<in> set (attempt_rows n i rs) \<Longrightarrow> snd (snd r) \<longleftrightarrow> fst r = n" if "n = i + length rs" for r
  using that by (induction n i rs rule: attempt_rows.induct) (auto simp: recordAttemptError_def)

lemma attempt_rows_fst:
  "map fst (attempt_rows n i rs) = map (\<lambda>j. i + j + 1) (filter (\<lambda>j. rs ! j \<noteq> None) [0..<length rs])"
proof (induction n i rs rule: attempt_rows.induct)
  case (2 n i rs)
  then show ?case by (simp add: upt_conv_Cons map_Suc_upt [symmetric] filter_map comp_def del: upt_Suc)
next
  case (3 n i e rs)
  then show ?case by (simp add: upt_conv_Cons map_Suc_upt [symmetric] filter_map comp_def recordAttemptError_def del: upt_Suc)
qed simp

text \<open>An operation that ends with an error has exactly one row that is marked as its end.\<close>

lemma distinct_key_filter:
  assumes "distinct (map f xs)"
  shows "length (filter (\<lambda>x. f x = k) xs) \<le> 1"
proof -
  have "map f (filter (\<lambda>x. f x = k) xs) = filter (\<lambda>y. y = k) (map f xs)" by (simp add: filter_map comp_def)
  moreover have "length (filter (\<lambda>y. y = k) (map f xs)) \<le> 1"
    unfolding distinct_length_filter [OF assms] by (rule order_trans [OF card_mono [of "{k}"]]) auto
  ultimately show ?thesis by (metis length_map)
qed

lemma op_rows_one_terminal: "length (filter (\<lambda>r. snd (snd r)) (op_rows results (Some e))) = 1"
proof -
  let ?rows = "attempt_rows (length results) 0 results"
  have "filter (\<lambda>r. snd (snd r)) ?rows = filter (\<lambda>r. fst r = length results) ?rows"
    by (rule filter_cong [OF refl]) (rule attempt_rows_terminal, simp_all)
  moreover have "distinct (map fst ?rows)" unfolding attempt_rows_fst by (simp add: distinct_map inj_on_def)
  ultimately have "length (filter (\<lambda>r. snd (snd r)) ?rows) \<le> 1" using distinct_key_filter by metis
  moreover have "filter (\<lambda>r. snd (snd r)) ?rows = [] \<longleftrightarrow> \<not> (\<exists>r \<in> set ?rows. snd (snd r))" by (auto simp: filter_empty_conv)
  ultimately show ?thesis
    by (cases "filter (\<lambda>r. snd (snd r)) ?rows") (auto simp: op_rows_def Let_def recordAttemptError_def)
qed

section \<open>Connections and labels (metrics_connpool.go, storelabels.go)\<close>

text \<open>A tracked connection is counted once when it is dialled and once when it is closed first.\<close>

datatype conn_event = Conn_open nat | Conn_close nat

record conn_gauge =
  cg_open :: int
  cg_live :: "nat set"

definition conn_step :: "conn_event \<Rightarrow> conn_gauge \<Rightarrow> conn_gauge" where
  "conn_step ev g =
     (case ev of
        Conn_open c \<Rightarrow> if c \<in> cg_live g then g else \<lparr>cg_open = cg_open g + 1, cg_live = insert c (cg_live g)\<rparr>
      | Conn_close c \<Rightarrow> if c \<in> cg_live g then \<lparr>cg_open = cg_open g - 1, cg_live = cg_live g - {c}\<rparr> else g)"

lemma conn_gauge_exact:
  "finite (cg_live g) \<Longrightarrow> cg_open g = int (card (cg_live g))
    \<Longrightarrow> cg_open (fold conn_step evs g) = int (card (cg_live (fold conn_step evs g)))"
proof (induction evs arbitrary: g)
  case (Cons ev evs)
  have "finite (cg_live (conn_step ev g)) \<and> cg_open (conn_step ev g) = int (card (cg_live (conn_step ev g)))"
    using Cons.prems card_gt_0_iff [of "cg_live g"]
    by (cases ev) (auto simp: conn_step_def card_Diff_singleton of_nat_diff Suc_leI)
  with Cons.IH show ?case by simp
qed simp

text \<open>The labels that the context of an operation carries; a call nested in another replaces them.\<close>

definition WithStoreLabels :: "(string \<times> string) option \<Rightarrow> string \<Rightarrow> string \<Rightarrow> (string \<times> string) option" where
  "WithStoreLabels labels bucket prefix = Some (bucket, prefix)"

definition storeLabelsFromContext :: "(string \<times> string) option \<Rightarrow> string \<times> string" where
  "storeLabelsFromContext labels = (case labels of Some v \<Rightarrow> v | None \<Rightarrow> ([], []))"

definition storeAttrs :: "(string \<times> string) option \<Rightarrow> (string \<times> string) list" where
  "storeAttrs labels =
     (case storeLabelsFromContext labels of (bucket, prefix) \<Rightarrow>
        if bucket = [] \<and> prefix = [] then []
        else (if bucket = [] then [] else [(''s3pgstore.bucket'', bucket)])
          @ (if prefix = [] then [] else [(''s3pgstore.prefix'', prefix)]))"

lemma storeAttrs_labels:
  "storeAttrs None = []"
  "storeAttrs (WithStoreLabels labels bucket prefix) = filter (\<lambda>(k, v). v \<noteq> []) [(''s3pgstore.bucket'', bucket), (''s3pgstore.prefix'', prefix)]"
  by (simp_all add: storeAttrs_def WithStoreLabels_def storeLabelsFromContext_def)

end
