(* ===== verification/Commands.thy ===== *)
theory Commands
  imports S3_Client Feed_Sequencer Orphan_Gc Rebuild_Correct
begin

text \<open>
  \<open>cmd/\<close>: the three commands.  What they read from the environment, in which order they fail, and what they
  run.  \<open>getenv\<close> is the environment, empty for an unset variable; \<open>time.ParseDuration\<close> and
  \<open>strconv.ParseFloat\<close> are arguments; opening the telemetry, the connection pool and the AWS configuration
  either fails or not.
\<close>

section \<open>Reading the environment\<close>

datatype cmd_error =
    Cmd_required string
  | Cmd_env env_error
  | Cmd_duration string string
  | Cmd_otel string
  | Cmd_pool string
  | Cmd_aws string
  | Cmd_gc gc_error
  | Cmd_sequencer seq_error
  | Cmd_rebuild rebuild_error

record 'f resources =
  su_duration :: "string \<Rightarrow> int option"
  su_float :: "string \<Rightarrow> 'f float_view option"
  su_otel :: "string option"
  su_pool :: "string option"
  su_aws :: "string option"

definition required :: "(string \<Rightarrow> string) \<Rightarrow> string \<Rightarrow> cmd_error + string" where
  "required getenv key = (if getenv key = [] then Inl (Cmd_required key) else Inr (getenv key))"

definition env_duration :: "'f resources \<Rightarrow> (string \<Rightarrow> string) \<Rightarrow> string \<Rightarrow> cmd_error + int" where
  "env_duration su getenv key =
     (if getenv key = [] then Inr 0
      else case su_duration su (getenv key) of None \<Rightarrow> Inl (Cmd_duration key (getenv key)) | Some d \<Rightarrow> Inr d)"

definition env_int :: "(string \<Rightarrow> string) \<Rightarrow> string \<Rightarrow> cmd_error + int" where
  "env_int getenv key =
     (if getenv key = [] then Inr 0
      else case parse_int64 (getenv key) of None \<Rightarrow> Inl (Cmd_env (Env_parse key (getenv key))) | Some n \<Rightarrow> Inr n)"

definition fails :: "'e option \<Rightarrow> 'e + unit" where
  "fails e = (case e of None \<Rightarrow> Inr () | Some e \<Rightarrow> Inl e)"

text \<open>\<open>otelinit.Setup\<close> does nothing, and cannot fail, unless one of three variables is set.\<close>

definition otel_enabled :: "(string \<Rightarrow> string) \<Rightarrow> bool" where
  "otel_enabled getenv \<longleftrightarrow> (\<exists>k \<in> {''OTEL_METRICS_EXPORTER'', ''OTEL_EXPORTER_OTLP_ENDPOINT'',
     ''OTEL_EXPORTER_OTLP_METRICS_ENDPOINT''}. getenv k \<noteq> [])"

definition otelinit_Setup :: "'f resources \<Rightarrow> (string \<Rightarrow> string) \<Rightarrow> cmd_error + unit" where
  "otelinit_Setup su getenv =
     (if otel_enabled getenv then fails (map_option Cmd_otel (su_otel su)) else Inr ())"

definition NewClientFromEnv :: "'f resources \<Rightarrow> (string \<Rightarrow> string) \<Rightarrow> string \<Rightarrow> middleware list \<Rightarrow> cmd_error + 'f client" where
  "NewClientFromEnv su getenv prefix stack =
     (case OptionsFromEnv (su_float su) getenv prefix of
        Inl e \<Rightarrow> Inl (Cmd_env e)
      | Inr o1 \<Rightarrow> and_then (fails (map_option Cmd_aws (su_aws su))) (\<lambda>_. Inr (S3_Client.WithDefaults o1 False stack)))"

section \<open>s3pgstore-gc\<close>

definition gc_loadConfig :: "'f resources \<Rightarrow> (string \<Rightarrow> string) \<Rightarrow> cmd_error + gc_config" where
  "gc_loadConfig su getenv =
     and_then (env_duration su getenv ''S3PGSTORE_GRACE'') (\<lambda>grace.
     and_then (env_duration su getenv ''S3PGSTORE_INTERVAL'') (\<lambda>interval.
     and_then (env_int getenv ''S3PGSTORE_BATCH_SIZE'') (\<lambda>batch.
       Inr \<lparr>gc_pool = False, gc_s3_client = False, gc_bucket = [], gc_schema = getenv ''S3PGSTORE_SCHEMA'',
            gc_prefix = getenv ''S3PGSTORE_TABLE_PREFIX'', gc_grace = grace, gc_interval = interval,
            gc_batch_size = batch\<rparr>)))"

text \<open>What \<open>run\<close> does before it sweeps: the configuration, and whether it sweeps once.\<close>

definition gc_prepare :: "'f resources \<Rightarrow> (string \<Rightarrow> string) \<Rightarrow> cmd_error + gc_config \<times> bool" where
  "gc_prepare su getenv =
     and_then (required getenv ''S3PGSTORE_DATABASE_URL'') (\<lambda>dsn.
     and_then (required getenv ''S3PGSTORE_S3_BUCKET'') (\<lambda>bucket.
     and_then (gc_loadConfig su getenv) (\<lambda>cfg.
     and_then (otelinit_Setup su getenv) (\<lambda>_.
     and_then (fails (map_option Cmd_pool (su_pool su))) (\<lambda>_.
     and_then (NewClientFromEnv su getenv [] []) (\<lambda>_.
     and_then (case envBool getenv ''S3PGSTORE_ONESHOT'' of Inl e \<Rightarrow> Inl (Cmd_env e) | Inr b \<Rightarrow> Inr b) (\<lambda>oneshot.
       Inr (cfg\<lparr>gc_bucket := bucket, gc_pool := True, gc_s3_client := True\<rparr>, oneshot))))))))"

definition gc_command ::
  "'f resources \<Rightarrow> (string \<Rightarrow> string) \<Rightarrow> gc_env \<Rightarrow> (gc_env \<times> string option) list \<Rightarrow> world \<Rightarrow> cmd_error option \<times> world" where
  "gc_command su getenv once sweeps w =
     (case gc_prepare su getenv of
        Inl e \<Rightarrow> (Some e, w)
      | Inr (cfg, oneshot) \<Rightarrow>
          if oneshot then (case gc_RunOnce cfg once w of ((n, err), w') \<Rightarrow> (map_option Cmd_gc err, w'))
          else (case gc_Run cfg sweeps w of
                  (Some e, w') \<Rightarrow> (if gc_cancelled e then None else Some (Cmd_gc e), w')
                | (None, w') \<Rightarrow> (None, w')))"

text \<open>\<open>main\<close>: the exit code.\<close>

definition exit_code :: "cmd_error option \<Rightarrow> int" where
  "exit_code err = (if err = None then 0 else 1)"

text \<open>What \<open>run\<close> hands over is valid: the sweep never fails on its configuration.\<close>

lemma gc_prepare_valid:
  assumes "gc_prepare su getenv = Inr (cfg, oneshot)"
  shows "gc_validate cfg = Inr () \<and> gc_bucket cfg = getenv ''S3PGSTORE_S3_BUCKET''"
proof -
  from assms obtain bucket cfg0 once where "required getenv ''S3PGSTORE_S3_BUCKET'' = Inr bucket"
    and "Inr (cfg0\<lparr>gc_bucket := bucket, gc_pool := True, gc_s3_client := True\<rparr>, once) = (Inr (cfg, oneshot) :: cmd_error + gc_config \<times> bool)"
    unfolding gc_prepare_def and_then_Inr by (elim exE conjE) (rule that)
  then show ?thesis by (auto simp: gc_validate_def required_def split: if_splits)
qed

section \<open>s3pgstore-sequencer\<close>

definition seq_loadConfig :: "'f resources \<Rightarrow> (string \<Rightarrow> string) \<Rightarrow> cmd_error + seq_config" where
  "seq_loadConfig su getenv =
     and_then (env_duration su getenv ''S3PGSTORE_POLL_INTERVAL'') (\<lambda>interval.
     and_then (env_int getenv ''S3PGSTORE_BATCH_SIZE'') (\<lambda>batch.
       if batch < 0 then Inl (Cmd_env (Env_negative ''S3PGSTORE_BATCH_SIZE''))
       else Inr \<lparr>sc_pool = False, sc_schema = getenv ''S3PGSTORE_SCHEMA'', sc_prefix = getenv ''S3PGSTORE_TABLE_PREFIX'',
            sc_poll_interval = interval, sc_batch_size = batch, sc_notify_channel = getenv ''S3PGSTORE_NOTIFY_CHANNEL''\<rparr>))"

definition seq_prepare :: "'f resources \<Rightarrow> (string \<Rightarrow> string) \<Rightarrow> cmd_error + seq_config" where
  "seq_prepare su getenv =
     and_then (required getenv ''S3PGSTORE_DATABASE_URL'') (\<lambda>dsn.
     and_then (seq_loadConfig su getenv) (\<lambda>cfg.
     and_then (otelinit_Setup su getenv) (\<lambda>_.
     and_then (fails (map_option Cmd_pool (su_pool su))) (\<lambda>_. Inr (cfg\<lparr>sc_pool := True\<rparr>)))))"

definition seq_command ::
  "'f resources \<Rightarrow> (string \<Rightarrow> string) \<Rightarrow> (nat \<Rightarrow> seq_env) \<Rightarrow> (wake \<times> (catalog \<Rightarrow> catalog) \<times> (nat \<Rightarrow> seq_env)) list \<Rightarrow> catalog
   \<Rightarrow> (cmd_error option \<times> catalog) option" where
  "seq_command su getenv envs wakes db =
     (case seq_prepare su getenv of
        Inl e \<Rightarrow> Some (Some e, db)
      | Inr cfg \<Rightarrow>
          (case seq_Run cfg envs wakes db of
             None \<Rightarrow> None
           | Some (Some e, db') \<Rightarrow> Some (if is_cancelled e then None else Some (Cmd_sequencer e), db')
           | Some (None, db') \<Rightarrow> Some (None, db')))"

section \<open>s3pgstore-rebuild\<close>

definition getenvOr :: "(string \<Rightarrow> string) \<Rightarrow> string \<Rightarrow> string \<Rightarrow> string" where
  "getenvOr getenv key fallback = (if getenv key \<noteq> [] then getenv key else fallback)"

definition rebuild_prepare :: "'f resources \<Rightarrow> (string \<Rightarrow> string) \<Rightarrow> cmd_error + rebuild_config" where
  "rebuild_prepare su getenv =
     and_then (required getenv ''S3PGSTORE_DATABASE_URL'') (\<lambda>dsn.
     and_then (required getenv ''S3PGSTORE_S3_BUCKET'') (\<lambda>bucket.
     and_then (required getenv ''S3PGSTORE_PARTITION_KEY_PARTS'') (\<lambda>partsRaw.
     and_then (otelinit_Setup su getenv) (\<lambda>_.
     and_then (fails (map_option Cmd_pool (su_pool su))) (\<lambda>_.
     and_then (NewClientFromEnv su getenv [] []) (\<lambda>_.
       Inr \<lparr>rb_pool = True, rb_client = True, rb_bucket = bucket, rb_prefix = getenv ''S3PGSTORE_S3_PREFIX'',
            rb_schema = getenvOr getenv ''S3PGSTORE_SCHEMA'' ''public'',
            rb_table_prefix = getenvOr getenv ''S3PGSTORE_TABLE_PREFIX'' ''s3pgstore_'',
            rb_parts = map trim_space (split_on CHR '','' partsRaw), rb_exts = []\<rparr>))))))"

definition rebuild_command ::
  "'f resources \<Rightarrow> (string \<Rightarrow> string) \<Rightarrow> rebuild_env \<Rightarrow> catalog \<Rightarrow> (cmd_error option \<times> catalog) option" where
  "rebuild_command su getenv env db =
     (case rebuild_prepare su getenv of
        Inl e \<Rightarrow> Some (Some e, db)
      | Inr cfg \<Rightarrow> map_option (\<lambda>(err, res, db'). (map_option Cmd_rebuild err, db')) (Rebuild cfg env db))"

section \<open>The rebuild of extension columns\<close>

definition no_ext_col :: "string \<Rightarrow> bool" where
  "no_ext_col c \<longleftrightarrow> has_prefix c PartColumnPrefix \<or> \<not> has_prefix c ExtColumnPrefix"

definition keeps_ext :: "file_row \<Rightarrow> file_row option \<Rightarrow> bool" where
  "keeps_ext r res \<longleftrightarrow> (\<forall>r'. res = Some r' \<longrightarrow> f_ext r' = f_ext r)"

lemma keeps_ext_if: "keeps_ext r a \<Longrightarrow> keeps_ext r c \<Longrightarrow> keeps_ext r (if b then a else c)"
  by simp

lemma keeps_ext_leaf:
  "keeps_ext r None" "keeps_ext r (Some (r\<lparr>f_s3_key := s\<rparr>))" "keeps_ext r (Some (r\<lparr>f_partition_key := s\<rparr>))"
  "keeps_ext r (Some (r\<lparr>f_file_size := i\<rparr>))" "keeps_ext r (Some (r\<lparr>f_uncompressed_size := i\<rparr>))"
  "keeps_ext r (Some (r\<lparr>f_record_count := c\<rparr>))" "keeps_ext r (Some (r\<lparr>f_written_at_version := c\<rparr>))"
  "keeps_ext r (Some (r\<lparr>f_written_at := t\<rparr>))" "keeps_ext r (Some (r\<lparr>f_token := u\<rparr>))" "keeps_ext r (Some (r\<lparr>f_part := p\<rparr>))"
  by (simp_all add: keeps_ext_def)

lemma keeps_ext_last:
  assumes "no_ext_col c" "keeps_ext r a"
  shows "keeps_ext r (if has_prefix c PartColumnPrefix then a else if has_prefix c ExtColumnPrefix then b else None)"
  using assms by (cases "has_prefix c PartColumnPrefix") (simp_all add: no_ext_col_def keeps_ext_leaf)

lemma keeps_ext_case:
  "(\<And>s. keeps_ext r (f s)) \<Longrightarrow> (\<And>i. keeps_ext r (g i)) \<Longrightarrow> (\<And>t. keeps_ext r (h t)) \<Longrightarrow> (\<And>x. keeps_ext r (k x))
   \<Longrightarrow> keeps_ext r n \<Longrightarrow> keeps_ext r (case v of TextV s \<Rightarrow> f s | BigInt i \<Rightarrow> g i | TimeV t \<Rightarrow> h t | ExtV x \<Rightarrow> k x | Null \<Rightarrow> n)"
  by (cases v) simp_all

lemma set_col_keeps_ext: "no_ext_col c \<Longrightarrow> keeps_ext r (set_file_col c v r)"
  unfolding set_file_col_def
  by ((erule keeps_ext_last | rule keeps_ext_if), (rule keeps_ext_case; rule keeps_ext_leaf))+

lemma assign_keeps_ext: "list_all no_ext_col cs \<Longrightarrow> assign_cols cs vs r = Some r' \<Longrightarrow> f_ext r' = f_ext r"
proof (induction cs vs r arbitrary: r' rule: assign_cols.induct)
  case (2 c cs v vs r)
  from "2.prems"(2) obtain r1 where one: "set_file_col c v r = Some r1" and rest: "assign_cols cs vs r1 = Some r'"
    unfolding assign_cols.simps by (cases "set_file_col c v r") simp_all
  from "2.prems"(1) have "no_ext_col c" "list_all no_ext_col cs" by simp_all
  from set_col_keeps_ext [OF this(1), of r v] one have "f_ext r1 = f_ext r" by (simp add: keeps_ext_def)
  with "2.IH" [OF one \<open>list_all no_ext_col cs\<close> rest] show ?case by simp
qed simp_all

lemma recovered_cols_no_ext:
  assumes "rb_exts cfg = []"
  shows "list_all no_ext_col (recovered_cols cfg head rec exts)"
proof -
  have "no_ext_col (part_col p)" for p by (simp add: no_ext_col_def part_col_def has_prefix_def PartColumnPrefix_def)
  moreover have "list_all no_ext_col [''partition_key'', ''s3_key'', ''written_at_version'', ''file_size'', ''uncompressed_size'',
      ''record_count'', ''written_at'', ''idempotency_token'']" by code_simp
  ultimately show ?thesis using assms by (auto simp: recovered_cols_def list_all_iff split: option.splits)
qed

text \<open>Every row that was not there before has no extension value.\<close>

definition new_rows_plain :: "catalog \<Rightarrow> catalog \<Rightarrow> bool" where
  "new_rows_plain db db' \<longleftrightarrow> (\<forall>r \<in> set (c_files db'). r \<in> set (c_files db) \<or> f_ext r = (\<lambda>_. GNil))"

lemma new_rows_plain_trans: "new_rows_plain a b \<Longrightarrow> new_rows_plain b c \<Longrightarrow> new_rows_plain a c"
  unfolding new_rows_plain_def by blast

lemma insertFileRow_plain:
  assumes "rb_exts cfg = []" "insertFileRow cfg env k pk vals fb db = (res, db')"
  shows "new_rows_plain db db'"
proof -
  have "new_rows_plain db (snd (sql_files_recover now (recovered_cols cfg head rec exts) args db))" for now head rec exts args
    using assign_keeps_ext [OF recovered_cols_no_ext [OF assms(1)]]
    by (auto simp: sql_files_recover_def new_rows_plain_def blank_file_def Let_def split: option.splits)
  then show ?thesis using assms(2)
    by (auto simp: insertFileRow_def Let_def new_rows_plain_def split: sum.splits option.splits if_splits prod.splits) (metis snd_conv)+
qed

lemma file_loop_plain:
  "rb_exts cfg = [] \<Longrightarrow> file_loop cfg env g i ks acc db = (res, db') \<Longrightarrow> new_rows_plain db db'"
proof (induction cfg env g i ks acc db arbitrary: res db' rule: file_loop.induct)
  case (2 cfg env g i k ks n v db)
  obtain r1 db1 where one: "insertFileRow cfg env k (gr_key g) (gr_values g) (int i + 1) db = (r1, db1)" by (metis prod.collapse)
  note p = insertFileRow_plain [OF "2.prems"(1) one]
  show ?case
  proof (cases r1)
    case (Inl e)
    with "2.prems"(2) one p show ?thesis by simp
  next
    case (Inr x)
    then obtain ver ok where x: "r1 = Inr (ver, ok)" by (cases x) auto
    have "new_rows_plain db1 db'"
      by (rule "2.IH" [OF one [symmetric] x refl "2.prems"(1)]) (use "2.prems"(2) one x in simp)
    with p show ?thesis by (rule new_rows_plain_trans)
  qed
qed (simp add: new_rows_plain_def)

lemma upsert_plain: "upsertPartitionRow cfg env pk vals v n db = (res, db') \<Longrightarrow> new_rows_plain db db'"
  by (auto simp: upsertPartitionRow_def sql_partition_recover_def new_rows_plain_def split: option.splits)

lemma group_inserts_plain:
  "rb_exts cfg = [] \<Longrightarrow> group_inserts cfg env gs res db = (err, res', db') \<Longrightarrow> new_rows_plain db db'"
proof (induction gs arbitrary: res db)
  case Nil
  then show ?case by (simp add: new_rows_plain_def)
next
  case (Cons g gs)
  obtain r1 db1 where files: "file_loop cfg env g 0 (sort (gr_keys g)) (0, 0) db = (r1, db1)" by (metis prod.collapse)
  note p1 = file_loop_plain [OF Cons.prems(1) files]
  show ?case
  proof (cases r1)
    case (Inl e)
    with Cons.prems(2) files p1 show ?thesis by simp
  next
    case (Inr x)
    then obtain added mx where x: "r1 = Inr (added, mx)" by (cases x) auto
    obtain r2 db2 where up: "upsertPartitionRow cfg env (gr_key g) (gr_values g) mx (int (length (gr_keys g))) db1 = (r2, db2)"
      by (metis prod.collapse)
    note p2 = new_rows_plain_trans [OF p1 upsert_plain [OF up]]
    show ?thesis
    proof (cases r2)
      case (Inl e)
      with Cons.prems(2) files x up p2 show ?thesis by (simp add: Let_def)
    next
      case (Inr ok)
      with Cons.prems(2) files x up obtain res1 where "group_inserts cfg env gs res1 db2 = (err, res', db')" by (auto simp: Let_def)
      from new_rows_plain_trans [OF p2 Cons.IH [OF Cons.prems(1) this]] show ?thesis .
    qed
  qed
qed

text \<open>The rebuild command restores no extension column: it never passes the extension columns to
  \<open>Rebuild\<close>, so every row it inserts has NULL in all of them, whatever the user-metadata of the objects
  says.\<close>

theorem rebuild_command_plain:
  assumes "rebuild_command su getenv env db = Some (err, db')"
  shows "\<forall>r \<in> set (c_files db'). r \<in> set (c_files db) \<or> f_ext r = (\<lambda>_. GNil)"
proof (cases "rebuild_prepare su getenv")
  case (Inl e)
  with assms show ?thesis by (auto simp: rebuild_command_def)
next
  case (Inr cfg)
  from Inr have ext: "rb_exts cfg = []" unfolding rebuild_prepare_def and_then_Inr by (elim exE conjE) auto
  obtain err0 res where run: "Rebuild cfg env db = Some (err0, res, db')"
    using assms Inr by (auto simp: rebuild_command_def)
  have "new_rows_plain db db'"
    using run group_inserts_plain [OF ext] unfolding Rebuild_def
    by (auto simp: Let_def new_rows_plain_def split: option.splits sum.splits)
  then show ?thesis by (simp add: new_rows_plain_def)
qed

definition demo_resources :: "int resources" where
  "demo_resources = \<lparr>su_duration = (\<lambda>_. None), su_float = (\<lambda>_. None), su_otel = None, su_pool = None, su_aws = None\<rparr>"

definition demo_getenv :: "string \<Rightarrow> string" where
  "demo_getenv k = (if k = ''S3PGSTORE_DATABASE_URL'' then ''dsn'' else if k = ''S3PGSTORE_S3_BUCKET'' then ''b''
     else if k = ''S3PGSTORE_PARTITION_KEY_PARTS'' then ''p'' else [])"

lemma demo_prepare: "rebuild_prepare demo_resources demo_getenv = Inr \<lparr>rb_pool = True, rb_client = True, rb_bucket = ''b'',
  rb_prefix = [], rb_schema = ''public'', rb_table_prefix = ''s3pgstore_'', rb_parts = [''p''], rb_exts = []\<rparr>"
  by code_simp

theorem rebuild_command_plain_witness:
  "\<exists>db'. rebuild_command demo_resources demo_getenv (bucket_env (wd_s3 lost_world) [''data/p=x/u.parquet'']) no_catalog = Some (None, db')
     \<and> map f_s3_key (c_files db') = [''data/p=x/u.parquet''] \<and> (\<forall>r \<in> set (c_files db'). f_ext r = (\<lambda>_. GNil))"
proof -
  let ?run = "rebuild_command demo_resources demo_getenv (bucket_env (wd_s3 lost_world) [''data/p=x/u.parquet'']) no_catalog"
  have "map_option (\<lambda>(err, db'). (err, map f_s3_key (c_files db'))) ?run = Some (None, [''data/p=x/u.parquet''])"
    by code_simp
  then obtain db' where run: "?run = Some (None, db')" "map f_s3_key (c_files db') = [''data/p=x/u.parquet'']" by auto
  from rebuild_command_plain [OF run(1)] run show ?thesis by (simp add: empty_world_def)
qed

end
