(* ===== verification/Metrics.thy ===== *)
theory Metrics
  imports S3_Client Feed_Correct
begin

text \<open>
  The metrics of all packages (\<open>metrics.go\<close> in the root, \<open>s3client\<close>, \<open>sequencer\<close>, \<open>gc\<close> and \<open>pool\<close>): the
  instruments and the order in which they are registered, what every \<open>record\<close> function tells the meter, the
  scope of a public method, the middleware of an S3 operation, and the three observable gauges.  The
  OpenTelemetry SDK is a parameter: a meter may refuse an instrument or a callback.  Bucket boundaries are in
  thousandths of the unit, durations in nanoseconds.
\<close>

section \<open>Registration\<close>

datatype inst_kind = Counter | Up_down | Histogram "int list" | Observable

record instrument =
  in_name :: string
  in_unit :: string
  in_kind :: inst_kind

record meter =
  mt_create :: "instrument \<Rightarrow> string option"
  mt_callback :: "string \<Rightarrow> string option"

datatype registration = Create_inst instrument | Register_callback string

fun refused :: "meter \<Rightarrow> registration \<Rightarrow> string option" where
  "refused mt (Create_inst i) = mt_create mt i"
| "refused mt (Register_callback n) = mt_callback mt n"

text \<open>The constructors register one after the other and return the first error.\<close>

fun register :: "meter \<Rightarrow> registration list \<Rightarrow> registration list \<times> string option" where
  "register mt [] = ([], None)"
| "register mt (r # rs) =
     (case refused mt r of
        Some e \<Rightarrow> ([], Some e)
      | None \<Rightarrow> (case register mt rs of (done', err) \<Rightarrow> (r # done', err)))"

lemma register_prefix:
  "register mt rs = (ok, err) \<Longrightarrow> (err = None \<longrightarrow> ok = rs) \<and> (\<forall>e. err = Some e \<longrightarrow> (\<exists>r rest. rs = ok @ r # rest \<and> refused mt r = Some e))"
  by (induction rs arbitrary: ok) (fastforce split: option.splits prod.splits)+

text \<open>A nil meter is replaced by the one of the global provider.\<close>

definition meter_or :: "meter option \<Rightarrow> meter \<Rightarrow> meter" where
  "meter_or m fallback = (case m of None \<Rightarrow> fallback | Some m \<Rightarrow> m)"

definition durationBuckets :: "int list" where
  "durationBuckets = [5, 10, 25, 50, 100, 250, 500, 1000, 2500, 5000, 10000, 30000]"

definition shortWaitBuckets :: "int list" where
  "shortWaitBuckets = [1, 5, 10, 50, 100, 500, 1000, 5000]"

definition byteBuckets :: "int list" where
  "byteBuckets = map ((*) 1000) [1024, 4096, 16384, 65536, 262144, 1048576, 4194304, 8388608, 16777216, 33554432,
     67108864, 134217728, 1073741824]"

definition recordCountBuckets :: "int list" where
  "recordCountBuckets = map ((*) 1000) [1, 10, 25, 50, 100, 250, 500, 1000, 2500, 10000, 50000, 250000, 1000000]"

definition inst :: "string \<Rightarrow> string \<Rightarrow> inst_kind \<Rightarrow> registration" where
  "inst n u k = Create_inst \<lparr>in_name = n, in_unit = u, in_kind = k\<rparr>"

definition method_instruments :: "registration list" where
  "method_instruments =
     [inst ''s3pgstore.method.duration'' ''s'' (Histogram durationBuckets),
      inst ''s3pgstore.method.calls'' ''{call}'' Counter,
      inst ''s3pgstore.method.in_flight'' ''{call}'' Up_down]"

definition write_instruments :: "registration list" where
  "write_instruments =
     [inst ''s3pgstore.write.bytes'' ''By'' (Histogram byteBuckets),
      inst ''s3pgstore.write.records'' ''{record}'' (Histogram recordCountBuckets),
      inst ''s3pgstore.write.encode_buf_dropped'' ''{event}'' Counter,
      inst ''s3pgstore.write.token_race.retry.count'' ''{event}'' Counter]"

definition catalog_instruments :: "registration list" where
  "catalog_instruments =
     [inst ''s3pgstore.occ.version_conflict.count'' ''{event}'' Counter,
      inst ''s3pgstore.lookup_by_token.count'' ''{lookup}'' Counter]"

definition iter_instruments :: "registration list" where
  "iter_instruments =
     [inst ''s3pgstore.read.iter.body_slot.wait.duration'' ''s'' (Histogram shortWaitBuckets),
      inst ''s3pgstore.read.iter.body_slot.exhausted'' ''{event}'' Counter,
      inst ''s3pgstore.read.iter.byte_budget.wait.duration'' ''s'' (Histogram shortWaitBuckets),
      inst ''s3pgstore.read.iter.byte_budget.exhausted'' ''{event}'' Counter,
      inst ''s3pgstore.read.iter.partition.decode.duration'' ''s'' (Histogram durationBuckets),
      inst ''s3pgstore.read.iter.stall.count'' ''{event}'' Counter]"

definition poll_lag_gauge :: "registration list" where
  "poll_lag_gauge = [inst ''s3pgstore.poll.lag'' ''s'' Observable, Register_callback ''s3pgstore.poll.lag'']"

definition pending_depth_gauge :: "registration list" where
  "pending_depth_gauge =
     [inst ''s3pgstore.pending_writes.depth'' ''{row}'' Observable, Register_callback ''s3pgstore.pending_writes.depth'']"

record metricsConfig =
  mc_meter :: "meter option"
  mc_poll_lag :: bool
  mc_pending_depth :: bool

definition newMetrics :: "meter \<Rightarrow> metricsConfig \<Rightarrow> registration list \<times> string option" where
  "newMetrics global cfg =
     register (meter_or (mc_meter cfg) global)
       (method_instruments @ write_instruments @ catalog_instruments @ iter_instruments
        @ (if mc_poll_lag cfg then poll_lag_gauge else []) @ (if mc_pending_depth cfg then pending_depth_gauge else []))"

definition newS3Metrics :: "meter \<Rightarrow> meter option \<Rightarrow> registration list \<times> string option" where
  "newS3Metrics global meter =
     register (meter_or meter global)
       [inst ''s3pgstore.s3.request.duration'' ''s'' (Histogram durationBuckets),
        inst ''s3pgstore.s3.request.count'' ''{request}'' Counter,
        inst ''s3pgstore.s3.attempt.error.count'' ''{event}'' Counter,
        inst ''s3pgstore.s3.body_size'' ''By'' (Histogram byteBuckets),
        inst ''s3pgstore.s3.ratelimit.wait.duration'' ''s'' (Histogram shortWaitBuckets),
        inst ''s3pgstore.s3.adaptive_retry.wait.duration'' ''s'' (Histogram shortWaitBuckets),
        inst ''s3pgstore.s3.tcp.connections'' ''{connection}'' Up_down,
        inst ''s3pgstore.s3.connection.reuse.count'' ''{request}'' Counter]"

definition seq_newMetrics :: "meter \<Rightarrow> meter option \<Rightarrow> registration list \<times> string option" where
  "seq_newMetrics global meter =
     register (meter_or meter global)
       [inst ''s3pgstore.sequencer.assigned.count'' ''{row}'' Counter,
        inst ''s3pgstore.sequencer.lock_wait'' ''s'' (Histogram shortWaitBuckets)]"

text \<open>Without a meter of its own the sequencer has no backlog gauge, not even on the global provider.\<close>

definition registerUnsequencedGauge :: "meter option \<Rightarrow> registration list \<times> string option" where
  "registerUnsequencedGauge meter =
     (case meter of
        None \<Rightarrow> ([], None)
      | Some mt \<Rightarrow> register mt [inst ''s3pgstore.sequencer.unsequenced'' ''{row}'' Observable,
          Register_callback ''s3pgstore.sequencer.unsequenced''])"

definition gc_newMetrics :: "meter \<Rightarrow> meter option \<Rightarrow> registration list \<times> string option" where
  "gc_newMetrics global meter = register (meter_or meter global) [inst ''s3pgstore.gc.reclaimed.count'' ''{row}'' Counter]"

definition noop_meter :: meter where
  "noop_meter = \<lparr>mt_create = (\<lambda>_. None), mt_callback = (\<lambda>_. None)\<rparr>"

definition pool_newMetrics :: "meter option \<Rightarrow> registration list \<times> string option" where
  "pool_newMetrics meter =
     register (meter_or meter noop_meter)
       [inst ''s3pgstore.pool.in_flight'' ''{task}'' Up_down,
        inst ''s3pgstore.pool.queue.wait.duration'' ''s'' (Histogram shortWaitBuckets)]"

text \<open>With a nil meter the pool has all its instruments, so \<open>pool.New\<close> fails only on its argument.\<close>

lemma pool_newMetrics_nil: "snd (pool_newMetrics None) = None"
  by (simp add: pool_newMetrics_def meter_or_def noop_meter_def inst_def)

fun reg_names :: "registration list \<Rightarrow> string list" where
  "reg_names [] = []"
| "reg_names (Create_inst i # rs) = in_name i # reg_names rs"
| "reg_names (Register_callback n # rs) = reg_names rs"

text \<open>A process that links every package registers each name once, and every boundary list is increasing.\<close>

lemma instrument_names_distinct:
  "distinct (reg_names (fst (newMetrics noop_meter \<lparr>mc_meter = None, mc_poll_lag = True, mc_pending_depth = True\<rparr>)
     @ fst (newS3Metrics noop_meter None) @ fst (seq_newMetrics noop_meter None)
     @ fst (registerUnsequencedGauge (Some noop_meter)) @ fst (gc_newMetrics noop_meter None) @ fst (pool_newMetrics None)))"
  by code_simp

lemma buckets_increasing: "\<forall>bs \<in> {durationBuckets, shortWaitBuckets, byteBuckets, recordCountBuckets}. sorted_wrt (<) bs"
  by code_simp

section \<open>What is recorded\<close>

datatype attr_value = Str string | Num int | Flag bool

type_synonym attrs = "(string \<times> attr_value) list"

datatype measurement = Add string int attrs | Record string int attrs

fun sum_told :: "string \<Rightarrow> attrs \<Rightarrow> measurement list \<Rightarrow> int" where
  "sum_told n as [] = 0"
| "sum_told n as (Add n' v as' # ms) = (if n' = n \<and> as' = as then v else 0) + sum_told n as ms"
| "sum_told n as (Record n' v as' # ms) = sum_told n as ms"

lemma total_append [simp]: "sum_told n as (ms @ ms') = sum_told n as ms + sum_told n as ms'"
  by (induction n as ms rule: sum_told.induct) simp_all

definition outcome_label :: "outcome \<Rightarrow> string" where
  "outcome_label r = (case r of Outcome_success \<Rightarrow> ''success'' | Outcome_canceled \<Rightarrow> ''canceled'' | Outcome_error \<Rightarrow> ''error'')"

lemma outcome_label_inj [simp]: "outcome_label a = outcome_label b \<longleftrightarrow> a = b"
  by (cases a; cases b) (simp_all add: outcome_label_def)

text \<open>A nil receiver records nothing.\<close>

definition emit :: "bool \<Rightarrow> measurement list \<Rightarrow> measurement list \<Rightarrow> measurement list" where
  "emit present new ms = (if present then ms @ new else ms)"

section \<open>The scope of a public method (metrics.go)\<close>

definition method_attr :: "string \<Rightarrow> attrs" where
  "method_attr method = [(''method'', Str method)]"

definition methodScope :: "string \<Rightarrow> measurement list" where
  "methodScope method = [Add ''s3pgstore.method.in_flight'' 1 (method_attr method)]"

definition scope_outcome :: "('e \<Rightarrow> bool) \<Rightarrow> 'e option \<Rightarrow> outcome" where
  "scope_outcome is_ctx err =
     (case err of None \<Rightarrow> Outcome_success | Some e \<Rightarrow> if is_ctx e then Outcome_canceled else Outcome_error)"

definition call_attrs :: "string \<Rightarrow> outcome \<Rightarrow> attrs" where
  "call_attrs method r = method_attr method @ [(''outcome'', Str (outcome_label r))]"

definition scope_end :: "string \<Rightarrow> outcome \<Rightarrow> int \<Rightarrow> measurement list" where
  "scope_end method r elapsed =
     [Add ''s3pgstore.method.in_flight'' (-1) (method_attr method),
      Record ''s3pgstore.method.duration'' elapsed (call_attrs method r),
      Add ''s3pgstore.method.calls'' 1 (call_attrs method r)]"

section \<open>The other records of a store (metrics.go)\<close>

definition recordWriteVolume :: "int \<Rightarrow> int \<Rightarrow> measurement list" where
  "recordWriteVolume bytesPut records = [Record ''s3pgstore.write.bytes'' bytesPut [], Record ''s3pgstore.write.records'' records []]"

definition recordEncodeBufDropped :: "measurement list" where
  "recordEncodeBufDropped = [Add ''s3pgstore.write.encode_buf_dropped'' 1 []]"

definition recordTokenRaceRetry :: "measurement list" where
  "recordTokenRaceRetry = [Add ''s3pgstore.write.token_race.retry.count'' 1 []]"

definition recordOCCConflict :: "measurement list" where
  "recordOCCConflict = [Add ''s3pgstore.occ.version_conflict.count'' 1 []]"

definition recordLookupByToken :: "bool \<Rightarrow> measurement list" where
  "recordLookupByToken hit =
     [Add ''s3pgstore.lookup_by_token.count'' 1 [(''result'', Str (if hit then ''hit'' else ''miss''))]]"

definition recordIterBodySlotWait :: "int \<Rightarrow> measurement list" where
  "recordIterBodySlotWait dur = [Record ''s3pgstore.read.iter.body_slot.wait.duration'' dur [],
     Add ''s3pgstore.read.iter.body_slot.exhausted'' 1 []]"

definition recordIterByteBudgetWait :: "int \<Rightarrow> measurement list" where
  "recordIterByteBudgetWait dur = [Record ''s3pgstore.read.iter.byte_budget.wait.duration'' dur [],
     Add ''s3pgstore.read.iter.byte_budget.exhausted'' 1 []]"

definition recordIterDecodeDuration :: "int \<Rightarrow> measurement list" where
  "recordIterDecodeDuration dur = [Record ''s3pgstore.read.iter.partition.decode.duration'' dur []]"

definition recordIterStall :: "string \<Rightarrow> measurement list" where
  "recordIterStall method = [Add ''s3pgstore.read.iter.stall.count'' 1 (method_attr method)]"

datatype store_event =
    Ev_write_volume int int | Ev_buf_dropped | Ev_token_race | Ev_occ_conflict | Ev_lookup bool
  | Ev_slot_wait int | Ev_budget_wait int | Ev_decoded int | Ev_stalled string

fun measured :: "store_event \<Rightarrow> measurement list" where
  "measured (Ev_write_volume b n) = recordWriteVolume b n"
| "measured Ev_buf_dropped = recordEncodeBufDropped"
| "measured Ev_token_race = recordTokenRaceRetry"
| "measured Ev_occ_conflict = recordOCCConflict"
| "measured (Ev_lookup hit) = recordLookupByToken hit"
| "measured (Ev_slot_wait d) = recordIterBodySlotWait d"
| "measured (Ev_budget_wait d) = recordIterByteBudgetWait d"
| "measured (Ev_decoded d) = recordIterDecodeDuration d"
| "measured (Ev_stalled m) = recordIterStall m"

lemmas record_defs = recordWriteVolume_def recordEncodeBufDropped_def recordTokenRaceRetry_def recordOCCConflict_def
  recordLookupByToken_def recordIterBodySlotWait_def recordIterByteBudgetWait_def recordIterDecodeDuration_def recordIterStall_def

text \<open>Calls of public methods by any number of goroutines, and what they record while they run.\<close>

record scopes =
  sp_live :: "string list"
  sp_ended :: "(string \<times> outcome) list"
  sp_told :: "measurement list"

inductive scope_step :: "bool \<Rightarrow> ('e \<Rightarrow> bool) \<Rightarrow> scopes \<Rightarrow> scopes \<Rightarrow> bool" for present is_ctx where
  enter: "scope_step present is_ctx s
    (s\<lparr>sp_live := m # sp_live s, sp_told := emit present (methodScope m) (sp_told s)\<rparr>)"
| tell: "scope_step present is_ctx s (s\<lparr>sp_told := emit present (measured ev) (sp_told s)\<rparr>)"
| leave: "m \<in> set (sp_live s) \<Longrightarrow> r = scope_outcome is_ctx err \<Longrightarrow> scope_step present is_ctx s
    (s\<lparr>sp_live := remove1 m (sp_live s), sp_ended := (m, r) # sp_ended s,
       sp_told := emit present (scope_end m r elapsed) (sp_told s)\<rparr>)"

definition no_scopes :: scopes where
  "no_scopes = \<lparr>sp_live = [], sp_ended = [], sp_told = []\<rparr>"

definition gauges_exact :: "scopes \<Rightarrow> bool" where
  "gauges_exact s \<longleftrightarrow> (\<forall>m r.
     sum_told ''s3pgstore.method.in_flight'' (method_attr m) (sp_told s) = int (count_list (sp_live s) m)
     \<and> sum_told ''s3pgstore.method.calls'' (call_attrs m r) (sp_told s) = int (count_list (sp_ended s) (m, r)))"

lemma attrs_simps [simp]:
  "method_attr m = method_attr m' \<longleftrightarrow> m = m'" "call_attrs m r = call_attrs m' r' \<longleftrightarrow> m = m' \<and> r = r'"
  by (auto simp: method_attr_def call_attrs_def)

lemma total_scope:
  "sum_told ''s3pgstore.method.in_flight'' as (methodScope m) = (if as = method_attr m then 1 else 0)"
  "sum_told ''s3pgstore.method.calls'' as (methodScope m) = 0"
  "sum_told ''s3pgstore.method.in_flight'' as (scope_end m r d) = (if as = method_attr m then - 1 else 0)"
  "sum_told ''s3pgstore.method.calls'' as (scope_end m r d) = (if as = call_attrs m r then 1 else 0)"
  by (auto simp: methodScope_def scope_end_def)

lemma total_measured:
  "sum_told ''s3pgstore.method.in_flight'' as (measured ev) = 0" "sum_told ''s3pgstore.method.calls'' as (measured ev) = 0"
  by (cases ev; simp add: record_defs)+

lemma count_list_pred: "x \<in> set xs \<Longrightarrow> int (count_list xs x - Suc 0) = int (count_list xs x) - 1"
  by (metis One_nat_def Suc_leI count_list_0_iff neq0_conv of_nat_1 of_nat_diff)

lemma gauges_step:
  assumes "gauges_exact s" "scope_step True is_ctx s s'"
  shows "gauges_exact s'"
  using assms(2)
proof cases
  case (enter m)
  then show ?thesis using assms(1) by (auto simp: gauges_exact_def emit_def total_scope)
next
  case (tell ev)
  then show ?thesis using assms(1) by (auto simp: gauges_exact_def emit_def total_measured)
next
  case (leave m r err elapsed)
  then show ?thesis using assms(1) by (auto simp: gauges_exact_def emit_def total_scope count_list_pred)
qed

text \<open>C40.  However the calls of public methods overlap and whatever they record: the in-flight gauge of a method
  is the number of its calls that have not returned, so it comes back to zero, and each call that returned is
  counted once, under its method and its outcome.  A store without metrics records nothing.\<close>

theorem method_gauges:
  assumes "(scope_step present is_ctx)\<^sup>*\<^sup>* no_scopes s"
  shows "if present then
      sum_told ''s3pgstore.method.in_flight'' [(''method'', Str m)] (sp_told s) = int (count_list (sp_live s) m)
      \<and> sum_told ''s3pgstore.method.calls'' [(''method'', Str m), (''outcome'', Str (outcome_label r))] (sp_told s)
        = int (count_list (sp_ended s) (m, r))
    else sp_told s = []"
proof (cases present)
  case True
  have "gauges_exact s"
    using assms unfolding True
  proof (induction rule: rtranclp_induct)
    case base
    then show ?case by (simp add: gauges_exact_def no_scopes_def)
  next
    case (step s s')
    from gauges_step [of s is_ctx s'] step True show ?case by simp
  qed
  with True show ?thesis by (simp add: gauges_exact_def method_attr_def call_attrs_def)
next
  case False
  have "sp_told s = []"
    using assms unfolding False
  proof (induction rule: rtranclp_induct)
    case base
    then show ?case by (simp add: no_scopes_def)
  next
    case (step s s')
    from step.hyps(2) show ?case using step.IH False by cases (simp_all add: emit_def)
  qed
  with False show ?thesis by simp
qed

text \<open>Two calls overlap, one of them fails with a cancelled context.\<close>

theorem method_gauges_witness:
  "\<exists>s :: scopes. sp_live s = [''Write''] \<and> sum_told ''s3pgstore.method.in_flight'' [(''method'', Str ''Write'')] (sp_told s) = 1
     \<and> sum_told ''s3pgstore.method.calls'' [(''method'', Str ''Read''), (''outcome'', Str ''canceled'')] (sp_told s) = 1"
proof -
  define s1 :: scopes where "s1 = no_scopes\<lparr>sp_live := [''Read''], sp_told := methodScope ''Read''\<rparr>"
  define s2 :: scopes where "s2 = s1\<lparr>sp_live := ''Write'' # sp_live s1, sp_told := sp_told s1 @ methodScope ''Write''\<rparr>"
  define s3 :: scopes where "s3 = s2\<lparr>sp_live := remove1 ''Read'' (sp_live s2), sp_ended := (''Read'', Outcome_canceled) # sp_ended s2,
    sp_told := sp_told s2 @ scope_end ''Read'' Outcome_canceled 7\<rparr>"
  let ?step = "scope_step True (\<lambda>_ :: unit. True)"
  have "?step no_scopes s1" using scope_step.enter [of True _ no_scopes "''Read''"] by (simp add: s1_def no_scopes_def emit_def)
  moreover have "?step s1 s2" using scope_step.enter [of True _ s1 "''Write''"] by (simp add: s2_def emit_def)
  moreover have "?step s2 s3"
    using scope_step.leave [of "''Read''" s2 Outcome_canceled "\<lambda>_. True" "Some ()" True 7]
    by (simp add: s3_def s2_def s1_def scope_outcome_def emit_def)
  ultimately have reach: "?step\<^sup>*\<^sup>* no_scopes s3" by (meson converse_rtranclp_into_rtranclp rtranclp.rtrancl_refl)
  have live: "sp_live s3 = [''Write'']" "sp_ended s3 = [(''Read'', Outcome_canceled)]"
    by (simp_all add: s3_def s2_def s1_def no_scopes_def)
  from method_gauges [OF reach, of "''Write''" Outcome_success] method_gauges [OF reach, of "''Read''" Outcome_canceled]
  have "sp_live s3 = [''Write''] \<and> sum_told ''s3pgstore.method.in_flight'' [(''method'', Str ''Write'')] (sp_told s3) = 1
      \<and> sum_told ''s3pgstore.method.calls'' [(''method'', Str ''Read''), (''outcome'', Str ''canceled'')] (sp_told s3) = 1"
    using live by (simp add: outcome_label_def)
  then show ?thesis by blast
qed

section \<open>The records of the S3 client (s3client/metrics.go, metrics_s3op.go, metrics_retryer.go, metrics_connpool.go)\<close>

definition error_label :: "error_type \<Rightarrow> string" where
  "error_label t = (case t of Type_none \<Rightarrow> [] | Type_canceled \<Rightarrow> ''canceled'' | Type_slowdown \<Rightarrow> ''slowdown'' | Type_notfound \<Rightarrow> ''not_found''
     | Type_server \<Rightarrow> ''server'' | Type_client \<Rightarrow> ''client'' | Type_other \<Rightarrow> ''other'' | Type_transport \<Rightarrow> ''transport'')"

definition store_attrs :: "(string \<times> string) option \<Rightarrow> attrs" where
  "store_attrs labels = map (\<lambda>(k, v). (k, Str v)) (storeAttrs labels)"

definition op_attr :: "string \<Rightarrow> attrs" where
  "op_attr op = [(''s3pgstore.operation'', Str op)]"

definition recordOp :: "string \<Rightarrow> (string \<times> string) option \<Rightarrow> int \<Rightarrow> nat \<Rightarrow> op_error option \<Rightarrow> measurement list" where
  "recordOp op labels elapsed attempts err =
     [Record ''s3pgstore.s3.request.duration'' elapsed (op_attr op @ store_attrs labels),
      Add ''s3pgstore.s3.request.count'' 1
        (op_attr op @ [(''outcome'', Str (outcome_label (fst (classifyS3Error err)))), (''s3pgstore.attempts'', Num (int attempts))]
         @ store_attrs labels)]"

definition tellAttemptError :: "string \<Rightarrow> (string \<times> string) option \<Rightarrow> attempt_row \<Rightarrow> measurement" where
  "tellAttemptError op labels row =
     (case row of (attempt, t, terminal) \<Rightarrow>
        Add ''s3pgstore.s3.attempt.error.count'' 1
          (op_attr op @ [(''error.type'', Str (error_label t)), (''s3pgstore.attempt'', Num (int attempt)), (''terminal'', Flag terminal)]
           @ store_attrs labels))"

definition recordBodySize :: "string \<Rightarrow> (string \<times> string) option \<Rightarrow> int \<Rightarrow> measurement list" where
  "recordBodySize op labels bytes =
     (if bytes \<le> 0 then [] else [Record ''s3pgstore.s3.body_size'' bytes (op_attr op @ store_attrs labels)])"

definition recordRatelimitWait :: "string \<Rightarrow> (string \<times> string) option \<Rightarrow> int \<Rightarrow> measurement list" where
  "recordRatelimitWait op labels waited = [Record ''s3pgstore.s3.ratelimit.wait.duration'' waited (op_attr op @ store_attrs labels)]"

definition recordAdaptiveRetryWait :: "string \<Rightarrow> int \<Rightarrow> measurement list" where
  "recordAdaptiveRetryWait op waited =
     (if waited \<le> 0 then [] else [Record ''s3pgstore.s3.adaptive_retry.wait.duration'' waited (op_attr op)])"

definition recordConnectionReuse :: "bool \<Rightarrow> measurement list" where
  "recordConnectionReuse reused = [Add ''s3pgstore.s3.connection.reuse.count'' 1 [(''reused'', Flag reused)]]"

text \<open>The hook of the trace runs for every connection the base transport takes, that is once per attempt on the wire; the answer is that
  of the base.  The time a retry waits for a token of the adaptive limiter is recorded whatever the limiter answers.\<close>

definition RoundTrip :: "bool list \<Rightarrow> 'a \<Rightarrow> measurement list \<times> 'a" where
  "RoundTrip reused answer = (concat (map recordConnectionReuse reused), answer)"

definition GetAttemptToken :: "string \<Rightarrow> int \<Rightarrow> 'e + 'release \<Rightarrow> measurement list \<times> ('e + 'release)" where
  "GetAttemptToken op waited answer = (recordAdaptiveRetryWait op waited, answer)"

definition tell_conn :: "conn_event \<Rightarrow> conn_gauge \<Rightarrow> measurement list" where
  "tell_conn ev g =
     (case ev of
        Conn_open c \<Rightarrow> if c \<in> cg_live g then [] else [Add ''s3pgstore.s3.tcp.connections'' 1 []]
      | Conn_close c \<Rightarrow> if c \<in> cg_live g then [Add ''s3pgstore.s3.tcp.connections'' (-1) []] else [])"

text \<open>\<open>opCtx.bodySize\<close>: the length of a PUT body, or the content length of the responses that were read.\<close>

definition body_size_output :: "string \<Rightarrow> int \<Rightarrow> int \<Rightarrow> int" where
  "body_size_output op held content = (if op = ''GetObject'' \<and> content > 0 then content else held)"

text \<open>The middleware around one operation.\<close>

definition HandleInitialize ::
  "string \<Rightarrow> (string \<times> string) option \<Rightarrow> int option \<Rightarrow> int list \<Rightarrow> op_error option list \<Rightarrow> op_error option \<Rightarrow> int \<Rightarrow> measurement list" where
  "HandleInitialize op labels put responses results err elapsed =
     (let held = fold (\<lambda>content held. body_size_output op held content) responses (case put of Some n \<Rightarrow> n | None \<Rightarrow> 0)
      in map (tellAttemptError op labels) (op_rows results err)
         @ recordOp op labels elapsed (op_attempts results) err
         @ (if err = None \<and> held > 0 then recordBodySize op labels held else []))"

fun tally :: "string \<Rightarrow> (attrs \<Rightarrow> bool) \<Rightarrow> measurement list \<Rightarrow> int" where
  "tally n P [] = 0"
| "tally n P (Add n' v as # ms) = (if n' = n \<and> P as then v else 0) + tally n P ms"
| "tally n P (Record n' v as # ms) = tally n P ms"

lemma tally_append [simp]: "tally n P (ms @ ms') = tally n P ms + tally n P ms'"
  by (induction n P ms rule: tally.induct) simp_all

lemma tally_attempts:
  "n \<noteq> ''s3pgstore.s3.attempt.error.count'' \<Longrightarrow> tally n P (map (tellAttemptError op labels) rows) = 0"
  "tally ''s3pgstore.s3.attempt.error.count'' (\<lambda>as. (''terminal'', Flag True) \<in> set as) (map (tellAttemptError op labels) rows)
     = int (length (filter (\<lambda>r. snd (snd r)) rows))"
  by (induction rows) (auto simp: tellAttemptError_def op_attr_def store_attrs_def storeAttrs_def)

lemma tally_body: "tally n P (recordBodySize op labels b) = 0"
  by (simp add: recordBodySize_def)

text \<open>Every S3 operation adds exactly one to the request counter, under the outcome of its error, and an
  operation that failed adds exactly one terminal attempt error, whatever the SDK reports about its attempts.\<close>

theorem s3_op_counted:
  "tally ''s3pgstore.s3.request.count'' (\<lambda>_. True) (HandleInitialize op labels put responses results err elapsed) = 1
   \<and> tally ''s3pgstore.s3.request.count'' (\<lambda>as. (''outcome'', Str (outcome_label (fst (classifyS3Error err)))) \<in> set as)
       (HandleInitialize op labels put responses results err elapsed) = 1
   \<and> tally ''s3pgstore.s3.attempt.error.count'' (\<lambda>as. (''terminal'', Flag True) \<in> set as)
       (HandleInitialize op labels put responses results (Some e) elapsed) = 1"
  using op_rows_one_terminal [of results e]
  by (simp add: HandleInitialize_def Let_def tally_attempts tally_body recordOp_def)

text \<open>The gauge of the open connections counts the live ones.\<close>

fun conn_told :: "conn_event list \<Rightarrow> conn_gauge \<Rightarrow> measurement list" where
  "conn_told [] g = []"
| "conn_told (ev # evs) g = tell_conn ev g @ conn_told evs (conn_step ev g)"

lemma conn_told_gauge:
  "cg_open g + sum_told ''s3pgstore.s3.tcp.connections'' [] (conn_told evs g) = cg_open (fold conn_step evs g)"
proof (induction evs arbitrary: g)
  case (Cons ev evs)
  have "cg_open g + sum_told ''s3pgstore.s3.tcp.connections'' [] (tell_conn ev g) = cg_open (conn_step ev g)"
    by (cases ev) (simp_all add: tell_conn_def conn_step_def)
  with Cons.IH [of "conn_step ev g"] show ?case by simp
qed simp

section \<open>The observable gauges\<close>

text \<open>\<open>pollLagFn\<close>: the age of the newest number of the feed; \<open>pgx.ErrNoRows\<close> is no observation.\<close>

definition sql_poll_lag :: "int \<Rightarrow> catalog \<Rightarrow> int option list" where
  "sql_poll_lag now db =
     map (\<lambda>r. map_option (\<lambda>t. now - t) (f_feed_seq_at r))
       (take 1 (rev (sort_key (\<lambda>r. the (f_feed_seq r)) (filter (\<lambda>r. f_feed_seq r \<noteq> None) (c_files db)))))"

definition pollLagFn :: "sql_error option \<Rightarrow> int \<Rightarrow> catalog \<Rightarrow> sql_error + int option" where
  "pollLagFn fail now db =
     (case fail of
        Some e \<Rightarrow> Inl e
      | None \<Rightarrow>
          (case sql_poll_lag now db of
             [] \<Rightarrow> Inr None
           | None # _ \<Rightarrow> Inl Bad_argument
           | Some lag # _ \<Rightarrow> Inr (Some lag)))"

definition pendingWritesDepthFn :: "sql_error option \<Rightarrow> catalog \<Rightarrow> sql_error + int" where
  "pendingWritesDepthFn fail db = (case fail of Some e \<Rightarrow> Inl e | None \<Rightarrow> Inr (int (length (c_pending db))))"

definition unsequenced_depth :: "sql_error option \<Rightarrow> catalog \<Rightarrow> sql_error + int" where
  "unsequenced_depth fail db = (case fail of Some e \<Rightarrow> Inl e | None \<Rightarrow> Inr (int (length (unsequenced db))))"

text \<open>A callback whose query fails observes nothing and reports no error.\<close>

definition observe_poll_lag :: "sql_error + int option \<Rightarrow> int list" where
  "observe_poll_lag res = (case res of Inl e \<Rightarrow> [] | Inr None \<Rightarrow> [] | Inr (Some lag) \<Rightarrow> [lag])"

definition observe_depth :: "sql_error + int \<Rightarrow> int list" where
  "observe_depth res = (case res of Inl e \<Rightarrow> [] | Inr n \<Rightarrow> [n])"

text \<open>After a pass without faults and with room in its batch the backlog gauge shows zero.\<close>

lemma backlog_after_pass:
  assumes "ids_distinct db" "length (unsequenced db) \<le> limit"
  shows "observe_depth (unsequenced_depth None (snd (sql_assign now limit db))) = [0]"
  using unsequenced_assign [OF assms(1), of now limit] assms(2) by (simp add: observe_depth_def unsequenced_depth_def)

text \<open>Before the first number there is no lag to observe.\<close>

lemma poll_lag_cold: "(\<forall>r \<in> set (c_files db). f_feed_seq r = None) \<Longrightarrow> observe_poll_lag (pollLagFn None now db) = []"
  by (simp add: pollLagFn_def sql_poll_lag_def observe_poll_lag_def filter_empty_conv)

section \<open>The sequencer, the collector and the pool\<close>

definition recordAssigned :: "int \<Rightarrow> measurement list" where
  "recordAssigned n = [Add ''s3pgstore.sequencer.assigned.count'' n []]"

definition recordLockWait :: "int \<Rightarrow> measurement list" where
  "recordLockWait waited = [Record ''s3pgstore.sequencer.lock_wait'' waited []]"

text \<open>What one pass tells the meter: the wait for the lock once it has it, the rows it numbered once it is committed.\<close>

definition pass_told :: "seq_config \<Rightarrow> seq_env \<Rightarrow> int \<Rightarrow> catalog \<Rightarrow> measurement list" where
  "pass_told r env waited db =
     (case runOnceWithMetrics r env db of
        ((n, err), db') \<Rightarrow>
          (if q_begin env = None \<and> q_lock env = None then recordLockWait waited else [])
          @ (if err = None \<and> n > 0 then recordAssigned (int n) else []))"

text \<open>A pass that reports no error adds to the counter what it took from the backlog.\<close>

lemma pass_counted:
  assumes "runOnceWithMetrics r env db = ((n, None), db')" "ids_distinct (q_others env db)"
  shows "sum_told ''s3pgstore.sequencer.assigned.count'' [] (pass_told r env waited db)
    = int (length (unsequenced (q_others env db))) - int (length (unsequenced db'))"
  using pass_quiet(2,3) [OF assms] assms(1)
  by (auto simp: pass_told_def recordLockWait_def recordAssigned_def min_def)

definition recordReclaimed :: "int \<Rightarrow> measurement list" where
  "recordReclaimed n = (if n \<le> 0 then [] else [Add ''s3pgstore.gc.reclaimed.count'' n []])"

definition addInFlight :: "int \<Rightarrow> measurement list" where
  "addInFlight delta = [Add ''s3pgstore.pool.in_flight'' delta []]"

definition recordWait :: "int \<Rightarrow> measurement list" where
  "recordWait waited = [Record ''s3pgstore.pool.queue.wait.duration'' waited []]"

end
