(* ===== verification/Write_Read.thy ===== *)
theory Write_Read
  imports Write_Backed Read_Correct
begin

text \<open>
  Writes and reads together.  Any number of calls of \<open>WriteWithKey\<close>, with any faults and with other sessions
  between their steps, fill the catalog and the bucket; a read then returns what they wrote.  \<open>log\<close> names, for
  the key of every object that a call may create, the partition and the records of that call: it stands for
  what the callers meant to write.
\<close>

section \<open>What deduplication keeps of a record\<close>

definition survives :: "'r store \<Rightarrow> bool \<Rightarrow> 'r \<Rightarrow> 'r list \<Rightarrow> bool" where
  "survives st hist x ys \<longleftrightarrow>
     (case (st_entity_key_of st, st_version_of st) of
        (Some ek, Some vo) \<Rightarrow> \<exists>y \<in> set ys. ek y = ek x \<and> (if hist then vo y = vo x else vo x \<le> vo y)
      | _ \<Rightarrow> x \<in> set ys)"

lemma latest_survives:
  "sorted (map (\<lambda>r. (ek r, vo r)) rs) \<Longrightarrow> x \<in> set rs \<Longrightarrow> \<exists>y \<in> set (latest_ref ek rs). ek y = ek x \<and> vo x \<le> (vo y :: int)"
proof (induction ek rs arbitrary: x rule: latest_ref.induct)
  case (3 ek r s rs)
  have srt: "sorted (map (\<lambda>r. (ek r, vo r)) (s # rs))" and le: "ek r = ek s \<Longrightarrow> vo r \<le> vo s" using "3.prems"(1) by auto
  show ?case
  proof (cases "ek r = ek s")
    case True
    have "\<exists>y \<in> set (s # rs). ek y = ek x \<and> vo x \<le> vo y" using "3.prems"(2) True le by auto
    then obtain y where y: "y \<in> set (s # rs)" "ek y = ek x" "vo x \<le> vo y" by blast
    from "3.IH"(1) [OF True srt y(1)] y(2,3) True show ?thesis by (auto intro: order_trans)
  next
    case False
    with "3.IH"(2) [OF False srt] "3.prems"(2) show ?thesis by auto
  qed
qed auto

lemma replicas_survives: "x \<in> set rs \<Longrightarrow> prev = Some (k x) \<or> (\<exists>y \<in> set (replicas_ref k prev rs). k y = k x)"
  by (induction k prev rs rule: replicas_ref.induct) auto

lemma set_latest: "set (latest_ref ek rs) \<subseteq> set rs"
  by (induction ek rs rule: latest_ref.induct) auto

lemma set_replicas: "set (replicas_ref k prev rs) \<subseteq> set rs"
  by (induction k prev rs rule: replicas_ref.induct) auto

lemma dedup_survives: "x \<in> set rs \<Longrightarrow> survives st hist x (sortAndDedup rs (st_entity_key_of st) (st_version_of st) hist)"
  using latest_survives [of "the (st_entity_key_of st)" "the (st_version_of st)"
      "sort_key (\<lambda>r. (the (st_entity_key_of st) r, the (st_version_of st) r)) rs" x]
    replicas_survives [of x "sort_key (\<lambda>r. (the (st_entity_key_of st) r, the (st_version_of st) r)) rs" None
      "\<lambda>r. (the (st_entity_key_of st) r, the (st_version_of st) r)"]
  by (auto simp: survives_def sortAndDedup_def Let_def dedupLatest_ref dedupReplicas_ref split: option.splits)

lemma dedup_subset: "set (sortAndDedup rs ek vo hist) \<subseteq> set rs"
  by (cases ek; cases vo) (auto simp: sortAndDedup_def Let_def dedupLatest_ref dedupReplicas_ref
      dest: subsetD [OF set_latest] subsetD [OF set_replicas])

section \<open>The contents of the bucket\<close>

type_synonym 'r log = "string \<rightharpoonup> string \<times> 'r list"

text \<open>A row's object decodes to the records of the call that made it; its part columns are those of its partition key.\<close>

definition holds_log :: "'r store \<Rightarrow> (string \<Rightarrow> string + 'r list) \<Rightarrow> 'r log \<Rightarrow> s3_object \<Rightarrow> file_row \<Rightarrow> bool" where
  "holds_log st rd log obj r \<longleftrightarrow>
     (\<exists>recs vals. log (f_s3_key r) = Some (f_partition_key r, recs) \<and> rd (so_body obj) = Inr recs
        \<and> PartitionKeyValues (f_partition_key r) (st_parts st) = Inr vals \<and> f_part r = map_of (zip (st_parts st) vals))"

definition log_ok :: "'r store \<Rightarrow> (string \<Rightarrow> string + 'r list) \<Rightarrow> 'r log \<Rightarrow> world \<Rightarrow> bool" where
  "log_ok st rd log w \<longleftrightarrow> world_ok w \<and> backed (holds_log st rd log) w"

lemma log_ok_parts_fixed: "log_ok st rd log w \<Longrightarrow> parts_fixed (wd_db w)"
  unfolding log_ok_def backed_def holds_log_def parts_fixed_def by (metis Inr_inject)

section \<open>Any number of writes\<close>

record 'r write_job =
  wj_env :: "'r env"
  wj_key :: string
  wj_records :: "'r list"
  wj_opts :: "'r write_option list"

text \<open>The key of the object is new and logged, the codec round-trips, other sessions keep what this one keeps.\<close>

definition job_ok :: "'r store \<Rightarrow> (string \<Rightarrow> string + 'r list) \<Rightarrow> 'r log \<Rightarrow> 'r write_job \<Rightarrow> bool" where
  "job_ok st rd log j \<longleftrightarrow>
     neighbours_ok (e_others (wj_env j))
     \<and> (\<forall>n w. backed (holds_log st rd log) w \<longrightarrow> backed (holds_log st rd log) (e_others (wj_env j) n w))
     \<and> (\<forall>uuid. e_uuid (wj_env j) = Inr uuid \<longrightarrow> leaves_alone (e_others (wj_env j)) (dataKey st (wj_key j) uuid)
          \<and> log (dataKey st (wj_key j) uuid) = Some (wj_key j, wj_records j))
     \<and> (\<forall>body us. e_encode (wj_env j) (wj_records j) = Inr (body, us) \<longrightarrow> rd body = Inr (wj_records j))"

definition run_job :: "'r store \<Rightarrow> 'r write_job \<Rightarrow> world \<Rightarrow> (write_error + file_ref) \<times> world" where
  "run_job st j = WriteWithKey st (wj_env j) (wj_key j) (wj_records j) (wj_opts j)"

fun run_jobs :: "'r store \<Rightarrow> 'r write_job list \<Rightarrow> world \<Rightarrow> (write_error + file_ref) list \<times> world" where
  "run_jobs st [] w = ([], w)"
| "run_jobs st (j # js) w =
     (case run_job st j w of (res, w1) \<Rightarrow> case run_jobs st js w1 of (rs, w2) \<Rightarrow> (res # rs, w2))"

lemma job_writes_backed:
  assumes "job_ok st rd log j" "PartitionKeyValues (wj_key j) (st_parts st) = Inr vals"
  shows "writes_backed (holds_log st rd log) st (wj_env j) (wj_key j) vals (wj_records j) o1"
  using assms by (auto simp: writes_backed_def holds_log_def job_ok_def fi_of_def new_row_def)

lemma run_job_log:
  assumes "wf_store st" "job_ok st rd log j" "log_ok st rd log w" "run_job st j w = (res, w')"
  shows "log_ok st rd log w' \<and> file_keys w \<subseteq> file_keys w'
    \<and> (\<forall>ref. res = Inr ref \<longrightarrow> has_row (wd_db w') (S3Key ref) (wj_key j))"
proof (cases "wj_records j = []")
  case True
  with assms(3,4) show ?thesis by (auto simp: run_job_def WriteWithKey_def)
next
  case ne: False
  show ?thesis
  proof (cases "PartitionKeyValues (wj_key j) (st_parts st)")
    case (Inl e)
    with ne assms(3,4) show ?thesis by (auto simp: run_job_def WriteWithKey_def)
  next
    case vals: (Inr vals)
    show ?thesis
    proof (cases "resolveWriteOpts st (wj_opts j)")
      case (Inl e)
      with ne vals assms(3,4) show ?thesis by (auto simp: run_job_def WriteWithKey_def)
    next
      case (Inr o1)
      with ne vals assms(4) have w: "writePartition st (wj_env j) (wj_key j) vals (wj_records j) o1 w = (res, w')"
        by (simp add: run_job_def WriteWithKey_def)
      note len = PartitionKeyValues_len [OF vals]
      have "backed (holds_log st rd log) w' \<and> (\<forall>ref. res = Inr ref \<longrightarrow> has_row (wd_db w') (S3Key ref) (wj_key j))"
        using assms(2,3) by (intro writePartition_backed [OF assms(1) len _ _ job_writes_backed [OF assms(2) vals] w])
          (simp_all add: log_ok_def job_ok_def)
      moreover have "world_ok w' \<and> file_keys w \<subseteq> file_keys w'"
        using writePartition_keeps [OF assms(1) len, of w "wj_env j" "wj_key j" "wj_records j" o1] w assms(2,3)
        by (simp add: log_ok_def job_ok_def)
      ultimately show ?thesis by (simp add: log_ok_def)
    qed
  qed
qed


text \<open>The files of the calls that succeeded are there, with what they were called with.\<close>

lemma run_jobs_log:
  assumes "wf_store st"
  shows "list_all (job_ok st rd log) js \<Longrightarrow> log_ok st rd log w \<Longrightarrow> run_jobs st js w = (rs, w')
    \<Longrightarrow> log_ok st rd log w' \<and> file_keys w \<subseteq> file_keys w' \<and> length rs = length js
      \<and> (\<forall>i < length js. \<forall>ref. rs ! i = Inr ref \<longrightarrow>
           S3Key ref \<in> file_keys w' \<and> (\<exists>recs. log (S3Key ref) = Some (wj_key (js ! i), recs)))"
proof (induction js arbitrary: w rs)
  case (Cons j js)
  obtain res w1 where one: "run_job st j w = (res, w1)" by (metis prod.collapse)
  obtain rs1 where rest: "run_jobs st js w1 = (rs1, w')" and rs: "rs = res # rs1"
    using Cons.prems(3) one by (auto split: prod.splits)
  have j: "job_ok st rd log j" "list_all (job_ok st rd log) js" using Cons.prems(1) by simp_all
  note first = run_job_log [OF assms j(1) Cons.prems(2) one]
  from Cons.IH [OF j(2) _ rest] first have later: "log_ok st rd log w'" "file_keys w1 \<subseteq> file_keys w'" "length rs1 = length js"
    "\<forall>i < length js. \<forall>ref. rs1 ! i = Inr ref \<longrightarrow>
           S3Key ref \<in> file_keys w' \<and> (\<exists>recs. log (S3Key ref) = Some (wj_key (js ! i), recs))" by blast+
  have "S3Key ref \<in> file_keys w' \<and> (\<exists>recs. log (S3Key ref) = Some (wj_key j, recs))" if ref: "res = Inr ref" for ref
  proof -
    obtain r where r: "r \<in> set (c_files (wd_db w1))" "f_s3_key r = S3Key ref" "f_partition_key r = wj_key j"
      using first ref unfolding has_row_def by blast
    then have "S3Key ref \<in> file_keys w1" by (force simp: file_keys_def)
    moreover have "\<exists>recs. log (S3Key ref) = Some (wj_key j, recs)"
      using r first unfolding log_ok_def backed_def holds_log_def by metis
    ultimately show ?thesis using later(2) by blast
  qed
  with first later show ?case by (auto simp: rs nth_Cons split: nat.splits)
qed auto

section \<open>A read of what was written\<close>

definition reads_world :: "'r read_env \<Rightarrow> (string \<Rightarrow> string + 'r list) \<Rightarrow> world \<Rightarrow> bool" where
  "reads_world env rd w \<longleftrightarrow> (\<forall>k \<in> file_keys w. ren_object env k = map_option so_body (wd_s3 w k)) \<and> ren_decode env = rd"

definition logged :: "'r log \<Rightarrow> string \<Rightarrow> 'r list" where
  "logged log k = (case log k of Some (_, recs) \<Rightarrow> recs | None \<Rightarrow> [])"

lemma map_res_Inr_map: "(\<And>x. x \<in> set xs \<Longrightarrow> f x = Inr (g x)) \<Longrightarrow> map_res f xs = Inr (map g xs)"
  by (simp add: map_res_Inr list_all2_conv_all_nth)

lemma catalog_part_logged:
  assumes "log_ok st rd log w" "reads_world env rd w"
  shows "\<exists>p. catalog_part st env hist (wd_db w) k = Inr p \<and> pr_key p = k
    \<and> S3Key ` set (pr_refs p) = f_s3_key ` set (part_files k (wd_db w))
    \<and> pr_records p = sortAndDedup (concat (map (\<lambda>f. logged log (S3Key f)) (pr_refs p))) (st_entity_key_of st) (st_version_of st) hist"
proof -
  let ?ps = "whole_part (ext_names st) (wd_db w) k"
  have fetch: "fetch_file env f = Inr (logged log (S3Key f))" if f: "f \<in> set (ps_files ?ps)" for f
  proof -
    obtain r where r: "r \<in> set (c_files (wd_db w))" "S3Key f = f_s3_key r"
      using f by (auto simp: whole_part_def part_files_def ref_of_def)
    then obtain obj recs where "wd_s3 w (f_s3_key r) = Some obj" "rd (so_body obj) = Inr recs"
      "log (f_s3_key r) = Some (f_partition_key r, recs)"
      using assms(1) unfolding log_ok_def backed_def holds_log_def by blast
    moreover have "f_s3_key r \<in> file_keys w" using r(1) by (simp add: file_keys_def)
    ultimately show ?thesis using r(2) assms(2) by (simp add: fetch_file_def reads_world_def logged_def)
  qed
  have "S3Key ` set (ps_files ?ps) = f_s3_key ` set (part_files k (wd_db w))"
    by (force simp: whole_part_def ref_of_def)
  moreover have "ps_key ?ps = k" by (simp add: whole_part_def)
  ultimately show ?thesis
    using map_res_Inr_map [of "ps_files ?ps" "fetch_file env" "\<lambda>f. logged log (S3Key f)", OF fetch] by (simp add: catalog_part_def stored_part_def)
qed


text \<open>Whether the filters select a partition, by its key.\<close>

definition key_matches :: "'r store \<Rightarrow> (string \<Rightarrow> string \<Rightarrow> bool) \<Rightarrow> pfilter list \<Rightarrow> string \<Rightarrow> bool" where
  "key_matches st clt filters key \<longleftrightarrow>
     (case PartitionKeyValues key (st_parts st) of
        Inl e \<Rightarrow> False
      | Inr vals \<Rightarrow> list_all (holds clt (\<lambda>p. case map_of (zip (st_parts st) vals) p of None \<Rightarrow> [] | Some s \<Rightarrow> s)) filters)"

lemma matches_key:
  assumes "log_ok st rd log w" "r \<in> set (c_files (wd_db w))"
  shows "matches clt filters r = key_matches st clt filters (f_partition_key r)"
proof -
  obtain vals where v: "PartitionKeyValues (f_partition_key r) (st_parts st) = Inr vals" "f_part r = map_of (zip (st_parts st) vals)"
    using assms unfolding log_ok_def backed_def holds_log_def by blast
  have "(\<lambda>p. file_text r (part_col p)) = (\<lambda>p. case map_of (zip (st_parts st) vals) p of None \<Rightarrow> [] | Some s \<Rightarrow> s)"
    using v(2) by (simp add: file_text_def fun_eq_iff split: option.splits)
  with v(1) show ?thesis by (simp add: matches_def key_matches_def)
qed

text \<open>The partitions of a sequential read, against the log.\<close>

lemma read_has_logged:
  assumes "log_ok st rd log w" "reads_world env rd w" "map Inr ps = map (catalog_part st env hist (wd_db w)) keys"
    "key \<in> set keys" "k \<in> file_keys w" "log k = Some (key, recs)"
  shows "\<exists>p \<in> set ps. pr_key p = key \<and> k \<in> S3Key ` set (pr_refs p) \<and> (\<forall>x \<in> set recs. survives st hist x (pr_records p))"
proof -
  have "catalog_part st env hist (wd_db w) key \<in> set (map Inr ps)" unfolding assms(3) using assms(4) by simp
  with catalog_part_logged [OF assms(1,2), of hist key] obtain p where p: "p \<in> set ps" "pr_key p = key"
    "S3Key ` set (pr_refs p) = f_s3_key ` set (part_files key (wd_db w))"
    "pr_records p = sortAndDedup (concat (map (\<lambda>f. logged log (S3Key f)) (pr_refs p))) (st_entity_key_of st) (st_version_of st) hist"
    by auto
  obtain r where r: "r \<in> set (c_files (wd_db w))" "f_s3_key r = k" using assms(5) by (auto simp: file_keys_def)
  then have "f_partition_key r = key" using assms(1,6) unfolding log_ok_def backed_def holds_log_def by fastforce
  with r have mem: "k \<in> S3Key ` set (pr_refs p)" unfolding p(3) by (force simp: part_files_def)
  have "survives st hist x (pr_records p)" if "x \<in> set recs" for x
    unfolding p(4) using mem that assms(6) by (intro dedup_survives) (force simp: logged_def)
  with p(1,2) mem show ?thesis by blast
qed

lemma read_only_logged:
  assumes "log_ok st rd log w" "reads_world env rd w" "map Inr ps = map (catalog_part st env hist (wd_db w)) keys"
    "p \<in> set ps" "x \<in> set (pr_records p)"
  shows "\<exists>k \<in> file_keys w. \<exists>recs. log k = Some (pr_key p, recs) \<and> x \<in> set recs"
proof -
  have "Inr p \<in> set (map (catalog_part st env hist (wd_db w)) keys)" using assms(4) unfolding assms(3) [symmetric] by simp
  then obtain key where "catalog_part st env hist (wd_db w) key = Inr p" by force
  with catalog_part_logged [OF assms(1,2), of hist key] have p: "pr_key p = key"
    "S3Key ` set (pr_refs p) = f_s3_key ` set (part_files key (wd_db w))"
    "pr_records p = sortAndDedup (concat (map (\<lambda>f. logged log (S3Key f)) (pr_refs p))) (st_entity_key_of st) (st_version_of st) hist"
    by auto
  from assms(5) have "x \<in> set (concat (map (\<lambda>f. logged log (S3Key f)) (pr_refs p)))"
    unfolding p(3) by (rule subsetD [OF dedup_subset])
  then obtain f where f: "f \<in> set (pr_refs p)" "x \<in> set (logged log (S3Key f))" by auto
  then have "S3Key f \<in> f_s3_key ` set (part_files key (wd_db w))" unfolding p(2) [symmetric] by simp
  then obtain r where r: "r \<in> set (c_files (wd_db w))" "f_s3_key r = S3Key f" "f_partition_key r = key" by (auto simp: part_files_def)
  then obtain recs where "log (S3Key f) = Some (key, recs)" using assms(1) unfolding log_ok_def backed_def holds_log_def by metis
  moreover have "S3Key f \<in> file_keys w" using r by (force simp: file_keys_def)
  ultimately show ?thesis using f(2) p(1) by (auto simp: logged_def)
qed

text \<open>What a read returns, in terms of the log.\<close>

lemma read_of_log:
  assumes "log_ok st rd log w" "reads_world env rd w" "wf_store st" "0 < ren_pool env" "\<not> ren_timeouts env" "filters \<noteq> []"
    and "\<forall>f \<in> set filters. filter_cols f \<subseteq> set (st_parts st) \<and> ordered f" "server_evaluates server clt filters"
    and "ReadPartition st env server None (wd_db w) filters opts (ps, None)"
  shows "\<And>k key recs. k \<in> file_keys w \<Longrightarrow> log k = Some (key, recs) \<Longrightarrow> key_matches st clt filters key
      \<Longrightarrow> \<exists>p \<in> set ps. pr_key p = key \<and> k \<in> S3Key ` set (pr_refs p)
            \<and> (\<forall>x \<in> set recs. survives st (ro_history (resolveIterOpts opts)) x (pr_records p))"
    and "\<And>p x. p \<in> set ps \<Longrightarrow> x \<in> set (pr_records p) \<Longrightarrow> \<exists>k \<in> file_keys w. \<exists>recs. log k = Some (pr_key p, recs) \<and> x \<in> set recs"
proof -
  let ?hist = "ro_history (resolveIterOpts opts)" and ?keys = "selected_keys (matches clt filters) (wd_db w)"
  have "read_ready st (wd_db w) env filters server clt"
    using assms log_ok_parts_fixed [OF assms(1)] by (simp add: read_ready_def log_ok_def world_ok_def)
  from ReadPartition_complete [OF this assms(9)]
  have ps: "map Inr ps = map (catalog_part st env ?hist (wd_db w)) ?keys" by simp
  show "\<exists>p \<in> set ps. pr_key p = key \<and> k \<in> S3Key ` set (pr_refs p) \<and> (\<forall>x \<in> set recs. survives st ?hist x (pr_records p))"
    if k: "k \<in> file_keys w" "log k = Some (key, recs)" "key_matches st clt filters key" for k key recs
  proof -
    obtain r where r: "r \<in> set (c_files (wd_db w))" "f_s3_key r = k" "f_partition_key r = key"
      using k(1,2) assms(1) unfolding log_ok_def backed_def holds_log_def by (fastforce simp: file_keys_def)
    then have "key \<in> set ?keys" using matches_key [OF assms(1) r(1)] k(3) by (force simp: selected_keys_def)
    from read_has_logged [OF assms(1,2) ps this k(1,2)] show ?thesis .
  qed
  show "\<exists>k \<in> file_keys w. \<exists>recs. log k = Some (pr_key p, recs) \<and> x \<in> set recs" if "p \<in> set ps" "x \<in> set (pr_records p)" for p x
    using read_only_logged [OF assms(1,2) ps that] .
qed

text \<open>C4.  What is written is read, and nothing else.  Let any number of calls of \<open>WriteWithKey\<close> have run, with any
  faults and other sessions between their steps.  A \<open>ReadPartition\<close> that then returns without an error has, for
  each call that succeeded in a partition the filters select, the file of the call, and each record of it survives:
  it is there, or, under deduplication, a record of its entity that is no older.  Every record it returns was written by
  a call to that partition.
  Assumed is that no GET of the read fails with a context error of its own
  while its context lives, such as a transport timeout: the code would then leave the records of that file out and report
  no error (\<open>read_timeout_partial\<close>).  Further, the read has a filter and its pool a worker; the server evaluates the
  \<open>WHERE\<close> clause as PostgreSQL does; the decoder gives back what a call's encoder was given; the other sessions keep the world
  consistent and leave the object of the running call alone; and the first world holds for each file the records the log has for it.\<close>

theorem writes_read_back:
  assumes "list_all (job_ok st rd log) js" "log_ok st rd log w0" "run_jobs st js w0 = (rs, w)"
    and "reads_world env rd w" "wf_store st" "0 < ren_pool env" "\<not> ren_timeouts env" "filters \<noteq> []"
    and "\<forall>f \<in> set filters. filter_cols f \<subseteq> set (st_parts st) \<and> ordered f" "server_evaluates server clt filters"
    and "ReadPartition st env server None (wd_db w) filters opts (ps, None)"
  shows "let hist = ro_history (resolveIterOpts opts) in
    (\<forall>i < length js. \<forall>ref. rs ! i = Inr ref \<longrightarrow> key_matches st clt filters (wj_key (js ! i)) \<longrightarrow>
       (\<exists>p \<in> set ps. pr_key p = wj_key (js ! i) \<and> S3Key ref \<in> S3Key ` set (pr_refs p)
          \<and> (\<forall>x \<in> set (logged log (S3Key ref)). survives st hist x (pr_records p))))
    \<and> (\<forall>p \<in> set ps. \<forall>x \<in> set (pr_records p). \<exists>k \<in> file_keys w. \<exists>recs. log k = Some (pr_key p, recs) \<and> x \<in> set recs)"
proof -
  note run = run_jobs_log [OF assms(5,1,2,3)]
  have ok: "log_ok st rd log w" using run by blast
  note read = read_of_log [OF ok assms(4-11)]
  have "\<exists>p \<in> set ps. pr_key p = wj_key (js ! i) \<and> S3Key ref \<in> S3Key ` set (pr_refs p)
      \<and> (\<forall>x \<in> set (logged log (S3Key ref)). survives st (ro_history (resolveIterOpts opts)) x (pr_records p))"
    if i: "i < length js" "rs ! i = Inr ref" "key_matches st clt filters (wj_key (js ! i))" for i ref
  proof -
    from run i(1,2) obtain recs where k: "S3Key ref \<in> file_keys w" "log (S3Key ref) = Some (wj_key (js ! i), recs)" by blast
    from read(1) [OF k i(3)] k(2) show ?thesis by (simp add: logged_def)
  qed
  then show ?thesis using read(2) by (simp add: Let_def)
qed

section \<open>An instance\<close>

text \<open>A pipeline of one file: the fetcher, the worker and the consumer, one after the other.\<close>

definition solo ::
  "fetch_pc \<Rightarrow> nat \<Rightarrow> (nat \<times> nat) set \<Rightarrow> string option \<Rightarrow> nat \<Rightarrow> 'r worker_pc \<Rightarrow> nat \<Rightarrow> int \<Rightarrow> 'r part_result list \<Rightarrow> nat
   \<Rightarrow> 'r part_result list \<Rightarrow> ending option \<Rightarrow> cause \<Rightarrow> 'r read_state" where
  "solo fe slots fl body done' pc nxt b q pi out en c =
     \<lparr>rs_cause = c, rs_gerr = False, rs_slots = slots, rs_fetch = fe, rs_flight = fl,
      rs_bodies = (\<lambda>_. None)((0, 0) := body), rs_completed = (\<lambda>_. 0)(0 := done'), rs_worker = (\<lambda>_. W_wait)(0 := pc),
      rs_next = (\<lambda>w. w)(0 := nxt), rs_bytes = (\<lambda>_. 0)(0 := b), rs_queue = (\<lambda>_. [])(0 := q), rs_pi = pi, rs_out = out, rs_end = en\<rparr>"

lemma solo_run:
  assumes c: "n_parts cfg = 1" "n_files cfg 0 = 1" "rc_body_cap cfg = 1" "rc_workers cfg = 1" "rc_ahead cfg = 1" "rc_pool cfg = 1"
    and r: "rc_object cfg (file_key cfg 0 0) = Some body" "rc_decode cfg body = Inr recs" "rc_budget cfg = 0"
  shows "\<exists>s. rtranclp (rstep cfg) read_start s \<and> rs_end s = Some Ended \<and> read_returned cfg s \<and> rs_out s = [batch_of cfg 0 recs]"
proof -
  let ?B = "batch_of cfg 0 recs" and ?k = "max (fst (fileRefStats (pr_refs (batch_of cfg 0 recs)))) 0"
  have s0: "read_start = solo (F_acquire 0 0) 0 {} None 0 W_wait 0 0 [] 0 [] None None"
    by (simp add: read_start_def solo_def fun_eq_iff)
  have 1: "rstep cfg read_start (solo (F_submit 0 0) 1 {} None 0 W_wait 0 0 [] 0 [] None None)" (is "rstep _ _ ?s1")
    using rstep.fetch_acquire [of read_start 0 0 cfg 1] c by (simp add: s0 solo_def slot_acquire_def)
  have 2: "rstep cfg ?s1 (solo (F_acquire 1 0) 1 {(0, 0)} None 0 W_wait 0 0 [] 0 [] None None)" (is "rstep _ _ ?s2")
    using rstep.fetch_submit [of ?s1 0 0 cfg] c by (simp add: solo_def next_file_def)
  have 3: "rstep cfg ?s2 (solo F_stopped 1 {(0, 0)} None 0 W_wait 0 0 [] 0 [] None None)" (is "rstep _ _ ?s3")
    using rstep.fetch_end [of ?s2 1 0 cfg] c by (simp add: solo_def)
  have 4: "rstep cfg ?s3 (solo F_stopped 1 {} (Some body) 1 W_wait 0 0 [] 0 [] None None)" (is "rstep _ _ ?s4")
    using rstep.get_ok [of 0 0 ?s3 cfg body] r by (simp add: solo_def markComplete_def)
  have 5: "rstep cfg ?s4 (solo F_stopped 1 {} (Some body) 1 W_reserve 0 0 [] 0 [] None None)" (is "rstep _ _ ?s5")
    using rstep.worker_ready [of 0 cfg ?s4] c by (simp add: solo_def set_worker_def waitOrCancel_def part_done_def)
  have 6: "rstep cfg ?s5 (solo F_stopped 1 {} (Some body) 1 (W_decode 0 []) 0 0 [] 0 [] None None)" (is "rstep _ _ ?s6")
    using rstep.worker_reserved [of 0 cfg ?s5 0] c r by (simp add: solo_def set_worker_def add_bytes_def reserveBytes_def)
  have 7: "rstep cfg ?s6 (solo F_stopped 0 {} None 1 (W_decode 1 recs) 0 0 [] 0 [] None None)" (is "rstep _ _ ?s7")
    using rstep.decode_file [of 0 cfg ?s6 0 "[]" body recs 0] c r by (simp add: solo_def set_worker_def slot_release_def)
  have 8: "rstep cfg ?s7 (solo F_stopped 0 {} None 1 (W_send ?B) 0 0 [] 0 [] None None)" (is "rstep _ _ ?s8")
    using rstep.decode_end [of 0 cfg ?s7 1 recs] c by (simp add: solo_def set_worker_def)
  have 9: "rstep cfg ?s8 (solo F_stopped 0 {} None 1 W_wait 1 0 [?B] 0 [] None None)" (is "rstep _ _ ?s9")
    using rstep.worker_send [of 0 cfg ?s8 ?B "[?B]"] c by (simp add: solo_def set_worker_def sendBatch_def)
  have 10: "rstep cfg ?s9 (solo F_stopped 0 {} None 1 W_stopped 1 0 [?B] 0 [] None None)" (is "rstep _ _ ?s10")
    using rstep.worker_end [of 0 cfg ?s9] c by (simp add: solo_def set_worker_def)
  have 11: "rstep cfg ?s10 (solo F_stopped 0 {} None 1 W_stopped 1 (- ?k) [] 1 [?B] None None)" (is "rstep _ _ ?s11")
    using rstep.emit_receive [of ?s10 cfg 0 ?B "[]" True] c by (simp add: solo_def emitted_batch_def yielded_to_def release_bytes)
  have 12: "rstep cfg ?s11 (finish Ended ?s11)" (is "rstep _ _ ?s12")
    using rstep.emit_end [of ?s11 cfg] c by (simp add: solo_def)
  have "rtranclp (rstep cfg) read_start ?s12"
    by (rule run_step [OF run_step [OF run_step [OF run_step [OF run_step [OF run_step [OF run_step [OF run_step [OF run_step
      [OF run_step [OF run_step [OF run_one [OF 1] 2] 3] 4] 5] 6] 7] 8] 9] 10] 11] 12])
  then show ?thesis
    by (intro exI conjI) (assumption, simp_all add: solo_def finish_def read_returned_def c)
qed

definition round_env :: "string env" where
  "round_env = (quiet_env ''u'')\<lparr>e_encode := (\<lambda>rs. Inr (hd rs, 10))\<rparr>"

definition round_job :: "string write_job" where
  "round_job = \<lparr>wj_env = round_env, wj_key = ''p=1'', wj_records = [''r''], wj_opts = []\<rparr>"

definition round_log :: "string log" where
  "round_log = [''data/p=1/u.parquet'' \<mapsto> (''p=1'', [''r''])]"

definition round_world :: world where
  "round_world = snd (run_jobs demo_store [round_job] empty_world)"

definition round_read :: "string read_env" where
  "round_read = \<lparr>ren_pool = 1, ren_procs = 1, ren_object = (\<lambda>k. map_option so_body (wd_s3 round_world k)),
     ren_decode = (\<lambda>b. Inr [b]), ren_timeouts = False\<rparr>"

definition round_opts :: "read_option list" where
  "round_opts = [ReadIter_option (WithDecodeAheadBytes 0)]"

definition round_ref :: file_ref where
  "round_ref = ref_of [] (hd (c_files (wd_db round_world)))"

definition round_batch :: "string part_result" where
  "round_batch = \<lparr>pr_key = ''p=1'', pr_records = [''r''], pr_version = 1, pr_refs = [round_ref]\<rparr>"

lemma round_run:
  "map_option S3Key (case fst (run_jobs demo_store [round_job] empty_world) of [Inr ref] \<Rightarrow> Some ref | _ \<Rightarrow> None) = Some ''data/p=1/u.parquet''"
  "map (\<lambda>r. (f_s3_key r, f_partition_key r, f_part r ''p'')) (c_files (wd_db round_world)) = [(''data/p=1/u.parquet'', ''p=1'', Some ''1'')]"
  "map_option so_body (wd_s3 round_world ''data/p=1/u.parquet'') = Some ''r''"
  by code_simp+

lemma round_job_ok: "job_ok demo_store (\<lambda>b. Inr [b]) round_log round_job"
proof -
  have "dataKey demo_store ''p=1'' ''u'' = ''data/p=1/u.parquet''" by code_simp
  then show ?thesis
    by (simp add: job_ok_def round_job_def round_env_def quiet_env_def round_log_def neighbours_ok_def leaves_alone_def)
qed

lemma round_ok: "log_ok demo_store (\<lambda>b. Inr [b]) round_log round_world"
proof -
  have "log_ok demo_store (\<lambda>b. Inr [b]) round_log empty_world"
    using empty_world_ok by (simp add: log_ok_def backed_def empty_world_def)
  from run_jobs_log [OF demo_wf _ this prod.collapse [symmetric], of "[round_job]"] round_job_ok show ?thesis
    by (simp add: round_world_def)
qed

lemma round_files: "c_files (wd_db round_world) = [hd (c_files (wd_db round_world))]"
  using round_run(2) by (cases "c_files (wd_db round_world)") auto

lemma round_row:
  "f_s3_key (hd (c_files (wd_db round_world))) = ''data/p=1/u.parquet''" "f_partition_key (hd (c_files (wd_db round_world))) = ''p=1''"
  "f_part (hd (c_files (wd_db round_world))) ''p'' = Some ''1''"
  using round_run(2) by (cases "c_files (wd_db round_world)"; simp)+

lemma round_keys: "selected_keys (matches (<) [Eq ''p'' ''1'']) (wd_db round_world) = [''p=1'']"
proof -
  have "{r \<in> set (c_files (wd_db round_world)). matches (<) [Eq ''p'' ''1''] r} = {hd (c_files (wd_db round_world))}"
    by (subst round_files) (use round_row(3) in \<open>auto simp: matches_def file_text_def\<close>)
  then show ?thesis by (simp add: selected_keys_def round_row)
qed

lemma round_whole: "whole_part (ext_names demo_store) (wd_db round_world) ''p=1'' = \<lparr>ps_key = ''p=1'', ps_files = [round_ref], ps_version = 1\<rparr>"
proof -
  have "part_files ''p=1'' (wd_db round_world) = [hd (c_files (wd_db round_world))]"
    unfolding part_files_def by (subst round_files) (simp add: round_row)
  then show ?thesis by (simp add: whole_part_def round_ref_def demo_store_def ext_names_def)
qed

lemma round_reads: "ReadPartition demo_store round_read demo_server None (wd_db round_world) [Eq ''p'' ''1''] round_opts ([round_batch], None)"
proof -
  let ?parts = "[\<lparr>ps_key = ''p=1'', ps_files = [round_ref], ps_version = 1\<rparr>]"
  let ?cfg = "read_config demo_store round_read (readBatchDefaults 1 1 1 (resolveIterOpts round_opts)) ?parts"
  have key: "S3Key round_ref = ''data/p=1/u.parquet''" by (simp add: round_ref_def ref_of_def round_row)
  obtain rows where rows: "ResolveFileRefs demo_store demo_server None (wd_db round_world) [Eq ''p'' ''1''] = Inr rows" "preparePartitions rows = ?parts"
    using resolve_whole [OF demo_wf _ log_ok_parts_fixed [OF round_ok] _ demo_filter demo_evaluates] round_ok
    by (auto simp: round_keys round_whole log_ok_def world_ok_def)
  have cfg: "n_parts ?cfg = 1" "n_files ?cfg 0 = 1" "rc_body_cap ?cfg = 1" "rc_workers ?cfg = 1" "rc_ahead ?cfg = 1" "rc_pool ?cfg = 1"
    "rc_decode ?cfg ''r'' = Inr [''r'']" "rc_budget ?cfg = 0" "file_key ?cfg 0 0 = ''data/p=1/u.parquet''"
    "batch_of ?cfg 0 [''r''] = round_batch"
    by (simp_all add: n_parts_def n_files_def file_key_def read_config_def round_read_def body_cap_def round_opts_def resolveIterOpts_def
        readBatchDefaults_def Let_def key batch_of_def round_batch_def demo_store_def sortAndDedup_def)
  have obj: "rc_object ?cfg (file_key ?cfg 0 0) = Some ''r''"
    unfolding cfg(9) by (simp add: read_config_def round_read_def round_run(3))
  have "readFetchAndDecodeIter demo_store round_read rows (resolveIterOpts round_opts)
      (readBatchDefaults (ren_pool round_read) (ren_procs round_read)) [round_batch] Ended"
    using solo_run [OF cfg(1-6) obj cfg(7,8)] reach_run rows(2) unfolding cfg(10)
    by (auto simp: readFetchAndDecodeIter_def Let_def round_read_def)
  with rows(1) show ?thesis by (fastforce simp: ReadPartition_def partitionCollectEmit_def collected_def)
qed

theorem writes_read_back_witness:
  "\<exists>ref p. run_jobs demo_store [round_job] empty_world = ([Inr ref], round_world) \<and> S3Key ref = ''data/p=1/u.parquet''
     \<and> ReadPartition demo_store round_read demo_server None (wd_db round_world) [Eq ''p'' ''1''] round_opts ([p], None)
     \<and> S3Key ref \<in> S3Key ` set (pr_refs p) \<and> survives demo_store False ''r'' (pr_records p)"
proof -
  obtain ref where run: "run_jobs demo_store [round_job] empty_world = ([Inr ref], round_world)" "S3Key ref = ''data/p=1/u.parquet''"
    using round_run(1) unfolding round_world_def
    by (cases "run_jobs demo_store [round_job] empty_world") (auto split: list.splits sum.splits)
  have jobs: "list_all (job_ok demo_store (\<lambda>b. Inr [b]) round_log) [round_job]" using round_job_ok by simp
  have start: "log_ok demo_store (\<lambda>b. Inr [b]) round_log empty_world"
    using empty_world_ok by (simp add: log_ok_def backed_def empty_world_def)
  have world: "reads_world round_read (\<lambda>b. Inr [b]) round_world" "0 < ren_pool round_read" "\<not> ren_timeouts round_read" "[Eq ''p'' ''1''] \<noteq> []"
    by (simp_all add: reads_world_def round_read_def)
  have key: "key_matches demo_store (<) [Eq ''p'' ''1''] ''p=1''" by code_simp
  have hist: "ro_history (resolveIterOpts round_opts) = False" by (simp add: resolveIterOpts_def round_opts_def)
  from writes_read_back [OF jobs start run(1) world(1) demo_wf world(2-4) demo_filter demo_evaluates round_reads]
  have "S3Key ref \<in> S3Key ` set (pr_refs round_batch) \<and> (\<forall>x \<in> set (logged round_log (S3Key ref)). survives demo_store False x (pr_records round_batch))"
    using key by (simp add: Let_def hist round_job_def)
  then show ?thesis using run round_reads by (intro exI [of _ ref] exI [of _ round_batch]) (simp add: logged_def round_log_def)
qed

end
