(* ===== verification/Write_Poll.thy ===== *)
theory Write_Poll
  imports Write_Read Poll_Records
begin

text \<open>
  Writes, the sequencer and the feed together.  Any number of calls of \<open>WriteWithKey\<close> fill the catalog, the
  sequencer drains it, and a consumer polls the feed from its start.
\<close>

section \<open>Writes leave the feed alone\<close>

text \<open>A write inserts rows without a number, so the feed depends on the other sessions only.\<close>

interpretation feed_inv: file_invariant "\<lambda>w. gap_free (wd_db w)" "\<lambda>obj r. f_feed_seq r = None"
  by unfold_locales (simp_all add: gap_free_def)

definition keeps_feed :: "'r write_job \<Rightarrow> bool" where
  "keeps_feed j \<longleftrightarrow> (\<forall>n w. gap_free (wd_db w) \<longrightarrow> gap_free (wd_db (e_others (wj_env j) n w)))"

lemma new_row_unnumbered: "writes_backed (\<lambda>obj r. f_feed_seq r = None) st env key vals recs o1"
  by (simp add: writes_backed_def new_row_def)

lemma run_job_feed:
  assumes "wf_store st" "keeps_feed j" "gap_free (wd_db w)" "run_job st j w = (res, w')"
  shows "gap_free (wd_db w')"
proof -
  have "gap_free (wd_db w')" if "PartitionKeyValues (wj_key j) (st_parts st) = Inr vals"
      "writePartition st (wj_env j) (wj_key j) vals (wj_records j) o1 w = (res, w')" for vals o1
    using feed_inv.writePartition_inv [OF assms(1) PartitionKeyValues_len [OF that(1)] assms(3) _ new_row_unnumbered that(2)] assms(2)
    by (simp add: keeps_feed_def)
  with assms(3,4) show ?thesis by (auto simp: run_job_def WriteWithKey_def split: if_splits sum.splits)
qed

lemma run_jobs_feed:
  "wf_store st \<Longrightarrow> list_all keeps_feed js \<Longrightarrow> gap_free (wd_db w) \<Longrightarrow> run_jobs st js w = (rs, w') \<Longrightarrow> gap_free (wd_db w')"
  by (induction js arbitrary: w rs) (auto dest: run_job_feed split: prod.splits)

section \<open>A drain changes the numbers only\<close>

definition unnumbered :: "file_row \<Rightarrow> file_row" where
  "unnumbered r = r\<lparr>f_feed_seq := None, f_feed_seq_at := None\<rparr>"

lemma pass_rows:
  assumes "runOnceWithMetrics r env db = (res, db')" "q_others env db = db"
  shows "map unnumbered (c_files db') = map unnumbered (c_files db)"
proof -
  have "unnumbered (assigned now limit d x) = unnumbered x" for now limit d x
    by (simp add: assigned_def assign_row_def unnumbered_def split: option.splits)
  moreover obtain n err where "res = (n, err)" by (cases res)
  ultimately show ?thesis using assms by (auto elim!: RunOnce_cases)
qed

lemma drain_rows:
  assumes "drainAll cfg envs i db = Some res"
  shows "(\<forall>i d. q_others (envs i) d = d) \<longrightarrow> map unnumbered (c_files (snd res)) = map unnumbered (c_files db)"
    (is "?quiet envs \<longrightarrow> ?same db res")
proof (rule drainAll.raw_induct [where P = "\<lambda>cfg envs i db res. ?quiet envs \<longrightarrow> ?same db res"])
  fix drain and cfg' :: seq_config and envs' :: "nat \<Rightarrow> seq_env" and i :: nat and db :: catalog and res
  assume IH: "\<And>c e i d r. drain c e i d = Some r \<Longrightarrow> ?quiet e \<longrightarrow> ?same d r"
    and step: "(case runOnceWithMetrics (seq_resolved cfg') (envs' i) db of
        ((n, Some e), db') \<Rightarrow> Some (Some e, db')
      | ((n, None), db') \<Rightarrow> if int n < sc_batch_size (seq_resolved cfg') then Some (None, db')
          else drain cfg' envs' (i + 1) db') = Some res"
  obtain n err db1 where run: "runOnceWithMetrics (seq_resolved cfg') (envs' i) db = ((n, err), db1)"
    by (metis prod.collapse)
  show "?quiet envs' \<longrightarrow> ?same db res"
  proof
    assume quiet: "?quiet envs'"
    then have pass: "map unnumbered (c_files db1) = map unnumbered (c_files db)" using pass_rows [OF run] by simp
    show "?same db res"
    proof (cases "err = None \<and> \<not> int n < sc_batch_size (seq_resolved cfg')")
      case True
      then have "drain cfg' envs' (i + 1) db1 = Some res" using step run by simp
      from IH [OF this] quiet pass show ?thesis by simp
    next
      case False
      then have "res = (err, db1)" using step run by (cases err) auto
      with pass show ?thesis by simp
    qed
  qed
qed (fact assms)

lemma same_rows:
  assumes "map unnumbered (c_files db') = map unnumbered (c_files db)"
  shows "map f_s3_key (c_files db') = map f_s3_key (c_files db)" "map f_file_id (c_files db') = map f_file_id (c_files db)"
    "length (c_files db') = length (c_files db)"
    "r' \<in> set (c_files db') \<Longrightarrow> \<exists>r \<in> set (c_files db). unnumbered r' = unnumbered r"
    "r \<in> set (c_files db) \<Longrightarrow> \<exists>r' \<in> set (c_files db'). unnumbered r' = unnumbered r"
proof -
  show "map f_s3_key (c_files db') = map f_s3_key (c_files db)" "map f_file_id (c_files db') = map f_file_id (c_files db)"
    using arg_cong [OF assms, of "map f_s3_key"] arg_cong [OF assms, of "map f_file_id"]
    by (simp_all add: unnumbered_def comp_def)
  show "length (c_files db') = length (c_files db)" using arg_cong [OF assms, of length] by simp
  show "r' \<in> set (c_files db') \<Longrightarrow> \<exists>r \<in> set (c_files db). unnumbered r' = unnumbered r"
    "r \<in> set (c_files db) \<Longrightarrow> \<exists>r' \<in> set (c_files db'). unnumbered r' = unnumbered r"
    using arg_cong [OF assms, of set] by (auto simp: set_eq_iff image_iff) metis+
qed

lemma unnumbered_eq:
  "unnumbered r = unnumbered s \<Longrightarrow> f_s3_key r = f_s3_key s \<and> f_partition_key r = f_partition_key s \<and> row_complete r = row_complete s"
  by (cases r; cases s) (simp add: unnumbered_def row_complete_def)

section \<open>A poll of what was written\<close>

lemma drained:
  assumes "drainAll cfg envs 0 db = Some (None, db')" "\<And>i d. q_others (envs i) d = d" "cat_inv db" "gap_free db"
  shows "gap_free db'" "sql_offset_latest db' = int (length (c_files db))" "map unnumbered (c_files db') = map unnumbered (c_files db)"
    "since \<le> 1 \<Longrightarrow> set (feed_rows db' since (sql_offset_latest db' + 1)) = set (c_files db')"
    "distinct (map f_s3_key (feed_rows db' since until))"
proof -
  have ids: "ids_distinct db" using assms(3) by (simp add: ids_distinct_def cat_inv_def)
  have "\<forall>i. others_ok (envs i)" using assms(2) by (simp add: others_ok_def)
  then have d: "gap_free db'" "unsequenced db' = []" using drain_result [OF assms(1)] ids assms(4) by simp_all
  show "gap_free db'" by (rule d)
  show rows: "map unnumbered (c_files db') = map unnumbered (c_files db)" using drain_rows [OF assms(1)] assms(2) by simp
  have all: "\<forall>r \<in> set (c_files db'). f_feed_seq r \<noteq> None" using d(2) by (simp add: unsequenced_def filter_empty_conv)
  then have "length (sequenced (c_files db')) = length (c_files db')" by (simp add: sequenced_def comp_def cong: filter_cong)
  then show "sql_offset_latest db' = int (length (c_files db))" using latest_gap_free [OF d(1)] same_rows(3) [OF rows] by simp
  have seqs: "set (sequenced (c_files db')) = {1..int (length (sequenced (c_files db')))}"
    using d(1) by (metis gap_free_def set_sort set_upto)
  have pos: "1 \<le> s \<and> s \<le> sql_offset_latest db'" if "r \<in> set (c_files db')" "f_feed_seq r = Some s" for r s
  proof -
    have "s \<in> set (sequenced (c_files db'))" using that by (auto simp: set_sequenced)
    with seqs latest_gap_free [OF d(1)] show ?thesis by simp
  qed
  show "set (feed_rows db' since (sql_offset_latest db' + 1)) = set (c_files db')" if "since \<le> 1"
    using all pos that by (fastforce simp: feed_rows_def in_window_def split: option.splits)
  have "distinct (map f_s3_key (c_files db'))" using assms(3) same_rows(1) [OF rows] by (simp add: cat_inv_def)
  then have "distinct (map f_s3_key (filter (in_window since until) (c_files db')))" by (rule distinct_map_filter)
  then show "distinct (map f_s3_key (feed_rows db' since until))"
    by (simp add: feed_rows_def distinct_map)
qed

lemma fetch_logged:
  assumes "log_ok st rd log w" "reads_world env rd w" "map unnumbered (c_files db) = map unnumbered (c_files (wd_db w))" "r \<in> set (c_files db)"
  shows "fetch_result env (ref_of exts r) = Inr \<lparr>fr_file = ref_of exts r, fr_records = logged log (f_s3_key r)\<rparr>"
    and "log (f_s3_key r) = Some (f_partition_key r, logged log (f_s3_key r))"
proof -
  obtain s where s: "s \<in> set (c_files (wd_db w))" "unnumbered r = unnumbered s" using same_rows(4) [OF assms(3,4)] by blast
  then obtain obj recs where o: "wd_s3 w (f_s3_key s) = Some obj" "rd (so_body obj) = Inr recs" "log (f_s3_key s) = Some (f_partition_key s, recs)"
    using assms(1) unfolding log_ok_def backed_def holds_log_def by blast
  moreover have "f_s3_key r = f_s3_key s" "f_partition_key r = f_partition_key s" using unnumbered_eq [OF s(2)] by simp_all
  moreover have "f_s3_key s \<in> file_keys w" using s(1) by (simp add: file_keys_def)
  ultimately show "fetch_result env (ref_of exts r) = Inr \<lparr>fr_file = ref_of exts r, fr_records = logged log (f_s3_key r)\<rparr>"
    "log (f_s3_key r) = Some (f_partition_key r, logged log (f_s3_key r))"
    using assms(2) by (simp_all add: fetch_result_def fetch_file_def ref_of_def reads_world_def logged_def)
qed

lemma poll_of_drained:
  assumes "wf_store st" "log_ok st rd log w" "gap_free (wd_db w)"
    and "drainAll cfg envs 0 (wd_db w) = Some (None, db)" "\<And>i d. q_others (envs i) d = d"
    and "reads_world env rd w" "0 < ren_pool env" "\<not> ren_timeouts env" "int (length (c_files (wd_db w))) < 2 ^ 63 - 1" "since \<le> 0"
    and "PollRecords st env fail db since (sql_offset_latest db + 1) opts (out, next, None)"
  shows "out = map (\<lambda>r. \<lparr>fr_file = ref_of (ext_names st) r, fr_records = logged log (f_s3_key r)\<rparr>) (feed_rows db since (sql_offset_latest db + 1))"
    and "next = (if out = [] then since else sql_offset_latest db + 1)"
proof -
  have inv: "cat_inv (wd_db w)" using assms(2) by (simp add: log_ok_def world_ok_def)
  note d = drained [OF assms(4,5) inv assms(3)]
  have "rows_complete db"
    unfolding rows_complete_def
    using same_rows(4) [OF d(3)] unnumbered_eq inv by (metis cat_inv_def)
  then have good: "good_feed st db" using assms(1,9) d(1,2) by (simp add: good_feed_def wf_store_def)
  have win: "since < sql_offset_latest db + 1" using assms(10) d(2) by simp
  have "if (None :: records_error option) = None
      then map Inr out = map (fetch_result env) (refs st db since (sql_offset_latest db + 1))
        \<and> next = (if out = [] then since else sql_offset_latest db + 1)
      else out = [] \<and> next = since"
    by (rule PollRecords_result [OF good win assms(7,8) _ assms(11)]) simp
  then have out: "map Inr out = map (fetch_result env) (refs st db since (sql_offset_latest db + 1))"
    and nx: "next = (if out = [] then since else sql_offset_latest db + 1)" by simp_all
  have "set (feed_rows db since (sql_offset_latest db + 1)) = set (c_files db)" using d(4) assms(10) by simp
  then have "(map Inr out :: (string + _) list) = map Inr (map (\<lambda>r. \<lparr>fr_file = ref_of (ext_names st) r, fr_records = logged log (f_s3_key r)\<rparr>)
      (feed_rows db since (sql_offset_latest db + 1)))"
    unfolding out using fetch_logged(1) [OF assms(2,6) d(3)] by simp
  then show "out = map (\<lambda>r. \<lparr>fr_file = ref_of (ext_names st) r, fr_records = logged log (f_s3_key r)\<rparr>) (feed_rows db since (sql_offset_latest db + 1))"
    by (simp add: inj_map_eq_map del: map_map)
  show "next = (if out = [] then since else sql_offset_latest db + 1)" by (rule nx)
qed

text \<open>C5.  What is written reaches the consumers of the feed, once and unchanged.  Let any number of calls of
  \<open>WriteWithKey\<close> have run, with any faults and other sessions between their steps, and let the sequencer drain the catalog
  while the writers pause.  A consumer that polls from the start up to the latest offset, and gets no error, gets the numbers
  \<open>1, ..., n\<close> without a gap, no object twice, every file of a call that succeeded, and for each file exactly the records of
  the call that wrote it, undeduplicated; the offset to go on from is the one behind the last file.
  Assumed is that no GET of the poll fails with a context error of its own while its context lives, such as a transport
  timeout: the code would then drop that file and all later ones and report no error (\<open>PollRecords_timeout_loses\<close>).  Further,
  the pool of the poll has a worker; the decoder gives back what a call's encoder was given; the other sessions keep the world
  consistent, leave the object of the running call alone and the feed without a gap; the first world holds for each file the
  records the log has for it; and the offsets fit 64 signed bits.\<close>

theorem writes_polled:
  assumes "list_all (job_ok st rd log) js" "list_all keeps_feed js" "log_ok st rd log w0" "gap_free (wd_db w0)"
    and "run_jobs st js w0 = (rs, w)" "wf_store st"
    and "drainAll cfg envs 0 (wd_db w) = Some (None, db)" "\<And>i d. q_others (envs i) d = d"
    and "reads_world env rd w" "0 < ren_pool env" "\<not> ren_timeouts env" "int (length (c_files (wd_db w))) < 2 ^ 63 - 1" "since \<le> 0"
    and "PollRecords st env fail db since (sql_offset_latest db + 1) opts (out, next, None)"
  shows "map (\<lambda>fr. Offset (fr_file fr)) out = [1..int (length (c_files (wd_db w)))]
    \<and> distinct (map (\<lambda>fr. S3Key (fr_file fr)) out)
    \<and> (\<forall>i < length js. \<forall>ref. rs ! i = Inr ref \<longrightarrow>
         (\<exists>fr \<in> set out. S3Key (fr_file fr) = S3Key ref \<and> PartitionKey (fr_file fr) = wj_key (js ! i)))
    \<and> (\<forall>fr \<in> set out. log (S3Key (fr_file fr)) = Some (PartitionKey (fr_file fr), fr_records fr))
    \<and> next = (if out = [] then since else int (length out) + 1)"
proof -
  let ?rows = "feed_rows db since (sql_offset_latest db + 1)"
  from run_jobs_log [OF assms(6,1,3,5)] have ok: "log_ok st rd log w" and keys: "\<forall>i < length js. \<forall>ref. rs ! i = Inr ref \<longrightarrow>
      S3Key ref \<in> file_keys w \<and> (\<exists>recs. log (S3Key ref) = Some (wj_key (js ! i), recs))" by blast+
  have gap: "gap_free (wd_db w)" by (rule run_jobs_feed [OF assms(6,2,4,5)])
  have inv: "cat_inv (wd_db w)" using ok by (simp add: log_ok_def world_ok_def)
  note d = drained [OF assms(7,8) inv gap]
  note out = poll_of_drained [OF assms(6) ok gap assms(7-14)]
  have set: "set ?rows = set (c_files db)" using d(4) assms(13) by simp
  have logs: "\<forall>fr \<in> set out. log (S3Key (fr_file fr)) = Some (PartitionKey (fr_file fr), fr_records fr)"
    unfolding out(1) using fetch_logged(2) [OF ok assms(9) d(3)] set by (auto simp: ref_of_def)
  have offs: "map (\<lambda>fr. Offset (fr_file fr)) out = [1..int (length (c_files (wd_db w)))]"
    using offsets [OF d(1), of "ext_names st" since "sql_offset_latest db + 1"] assms(13) by (simp add: out(1) comp_def d(2))
  have "\<exists>fr \<in> set out. S3Key (fr_file fr) = S3Key ref \<and> PartitionKey (fr_file fr) = wj_key (js ! i)"
    if i: "i < length js" "rs ! i = Inr ref" for i ref
  proof -
    from keys i obtain recs where k: "S3Key ref \<in> file_keys w" "log (S3Key ref) = Some (wj_key (js ! i), recs)" by blast
    then obtain r where "r \<in> set (c_files (wd_db w))" "f_s3_key r = S3Key ref" by (auto simp: file_keys_def)
    with same_rows(5) [OF d(3)] unnumbered_eq obtain r' where r': "r' \<in> set (c_files db)" "f_s3_key r' = S3Key ref" by metis
    then have "\<exists>fr \<in> set out. S3Key (fr_file fr) = S3Key ref" by (auto simp: out(1) set ref_of_def)
    with logs k(2) show ?thesis by force
  qed
  moreover have "distinct (map (\<lambda>fr. S3Key (fr_file fr)) out)" using d(5) by (simp add: out(1) comp_def ref_of_def)
  moreover have "next = (if out = [] then since else int (length out) + 1)"
    using out(2) arg_cong [OF offs, of length] by (simp add: d(2))
  ultimately show ?thesis using offs logs by simp
qed

text \<open>One write, one pass, one poll.\<close>

definition polled_db :: catalog where
  "polled_db = snd (the (drainAll demo_seq (\<lambda>i. quiet_seq) 0 (wd_db round_world)))"

definition polled_file :: file_ref where
  "polled_file = ref_of [] (hd (c_files polled_db))"

lemma polled_run:
  "map_option fst (drainAll demo_seq (\<lambda>i. quiet_seq) 0 (wd_db round_world)) = Some None"
  "map (\<lambda>r. (f_s3_key r, f_partition_key r, f_feed_seq r)) (c_files polled_db) = [(''data/p=1/u.parquet'', ''p=1'', Some 1)]"
  "sql_offset_latest polled_db = 1" "length (c_files (wd_db round_world)) = 1" "gap_free (wd_db round_world)"
  by code_simp+

lemma polled_poll: "Poll demo_store None polled_db 0 2 = ([polled_file], 2, None)"
  by code_simp

lemma polled_row:
  "f_s3_key (hd (c_files polled_db)) = ''data/p=1/u.parquet''" "f_partition_key (hd (c_files polled_db)) = ''p=1''"
  using polled_run(2) by (cases "c_files polled_db"; simp)+

lemma polled_records:
  "PollRecords demo_store round_read None polled_db 0 2 [] ([\<lparr>fr_file = polled_file, fr_records = [''r'']\<rparr>], 2, None)"
proof -
  let ?opts = "pollCollectDefaults 1 1 1 (resolvePollOpts [])" and ?out = "[\<lparr>fr_file = polled_file, fr_records = [''r'']\<rparr>]"
  let ?cfg = "poll_config round_read ?opts (sliceToSeq2 [polled_file])"
  have one: "one_file ?cfg polled_file"
    by (simp add: one_file_def poll_config_def sliceToSeq2_def round_read_def pollCollectDefaults_def resolvePollOpts_def Let_def)
  have "pc_object ?cfg (S3Key polled_file) = Some ''r''"
    by (simp add: round_read_def polled_file_def ref_of_def polled_row round_run(3))
  from one_file_good [OF one this, of "[''r'']"] obtain s where s: "rtranclp (pstep ?cfg) poll_start s" "poll_returned ?cfg s"
    "pl_end s = Some Ended" "pl_out s = ?out" by (auto simp: round_read_def)
  have "pollFetchAndDecodeIter round_read ?opts (sliceToSeq2 [polled_file]) ?out Ended"
    using s poll_reach_run by (auto simp: pollFetchAndDecodeIter_def Let_def)
  moreover have "emit_run pollCollectEmit ([], None) ?out Ended = Some (?out, None)"
    using collect_all [of "[]" ?out] by (simp only: append_Nil)
  moreover have "ren_pool round_read = 1" "ren_procs round_read = 1" by (simp_all add: round_read_def)
  ultimately show ?thesis
    unfolding PollRecords_def polled_poll by (simp, intro exI [of _ ?out] exI [of _ Ended]) simp
qed

theorem writes_polled_witness:
  "\<exists>ref out. run_jobs demo_store [round_job] empty_world = ([Inr ref], round_world)
     \<and> drainAll demo_seq (\<lambda>i. quiet_seq) 0 (wd_db round_world) = Some (None, polled_db)
     \<and> PollRecords demo_store round_read None polled_db 0 2 [] (out, 2, None)
     \<and> map (\<lambda>fr. Offset (fr_file fr)) out = [1] \<and> (\<exists>fr \<in> set out. S3Key (fr_file fr) = S3Key ref)"
proof -
  let ?out = "[\<lparr>fr_file = polled_file, fr_records = [''r'']\<rparr>]"
  obtain ref where run: "run_jobs demo_store [round_job] empty_world = ([Inr ref], round_world)"
    using round_run(1) unfolding round_world_def
    by (cases "run_jobs demo_store [round_job] empty_world") (auto split: list.splits sum.splits)
  have jobs: "list_all (job_ok demo_store (\<lambda>b. Inr [b]) round_log) [round_job]" "list_all keeps_feed [round_job]"
    using round_job_ok by (simp_all add: keeps_feed_def round_job_def round_env_def quiet_env_def)
  have start: "log_ok demo_store (\<lambda>b. Inr [b]) round_log empty_world" "gap_free (wd_db empty_world)"
    using empty_world_ok by (simp_all add: log_ok_def backed_def empty_world_def gap_free_def)
  have drain: "drainAll demo_seq (\<lambda>i. quiet_seq) 0 (wd_db round_world) = Some (None, polled_db)"
    using polled_run(1) by (cases "drainAll demo_seq (\<lambda>i. quiet_seq) 0 (wd_db round_world)") (auto simp: polled_db_def)
  have quiet: "q_others quiet_seq d = d" for d by (simp add: quiet_seq_def)
  have world: "reads_world round_read (\<lambda>b. Inr [b]) round_world" "0 < ren_pool round_read" "\<not> ren_timeouts round_read"
    by (simp_all add: reads_world_def round_read_def)
  have poll: "PollRecords demo_store round_read None polled_db 0 (sql_offset_latest polled_db + 1) [] (?out, 2, None)"
    using polled_records by (simp add: polled_run(3))
  from writes_polled [OF jobs start run demo_wf drain quiet world _ _ poll]
  have "map (\<lambda>fr. Offset (fr_file fr)) ?out = [1] \<and> (\<exists>fr \<in> set ?out. S3Key (fr_file fr) = S3Key ref)"
    by (simp add: polled_run(4))
  then show ?thesis using run drain polled_records by (intro exI [of _ ref] exI [of _ ?out]) simp
qed

end
