(* ===== verification/System_Safe.thy ===== *)
theory System_Safe
  imports Write_Poll Orphan_Gc
begin

text \<open>
  The whole system: any number of writers, sequencers and garbage collectors on one catalog and one bucket, in every
  interleaving of their transactions.  A step is one atomic piece of the code, a transaction of the server with the S3 call
  inside it: the tracking INSERT, the write transaction, the clean-up, a sequencer pass, the scan of a sweep, one object
  DELETE, one row DELETE.  The steps are the definitions of \<open>Write_Path\<close>, \<open>Feed_Sequencer\<close> and \<open>Orphan_Gc\<close>,
  with every fault these have; \<open>write_fresh\<close>, \<open>gc_RunOnce\<close> and \<open>seq_RunOnce\<close> are runs of such steps.
\<close>

section \<open>The state of the system\<close>

text \<open>The arguments of \<open>write_fresh\<close>.\<close>

record 'r call =
  cl_env :: "'r env"
  cl_o1 :: "'r write_opts"
  cl_key :: string
  cl_vals :: "string list"
  cl_token :: string
  cl_recs :: "'r list"

text \<open>Where a writer is: after the tracking INSERT, after a failed transaction, after the clean-up, back with its result.\<close>

datatype 'r writer =
    Idle_writer
  | Prepared "'r call" "mv_write_rows list" string int string
  | Unresolved "'r call" tx_error bool string
  | Resolving "'r call" tx_error
  | Answered "write_error + file_ref"

datatype sweeper = Sweep_idle | Sweeping "string list" | Object_gone string "string list"

text \<open>\<open>sy_used\<close> are the data keys so far and \<open>sy_calls\<close> the calls that took them: a record for the statements, no state of the program.\<close>

record 'r system =
  sy_world :: world
  sy_writers :: "nat \<Rightarrow> 'r writer"
  sy_sweepers :: "nat \<Rightarrow> sweeper"
  sy_used :: "string set"
  sy_calls :: "string \<rightharpoonup> 'r call"

definition at_writer :: "nat \<Rightarrow> 'r writer \<Rightarrow> world \<Rightarrow> 'r system \<Rightarrow> 'r system" where
  "at_writer i pc w s = s\<lparr>sy_world := w, sy_writers := (sy_writers s)(i := pc)\<rparr>"

definition at_sweeper :: "nat \<Rightarrow> sweeper \<Rightarrow> world \<Rightarrow> 'r system \<Rightarrow> 'r system" where
  "at_sweeper j pc w s = s\<lparr>sy_world := w, sy_sweepers := (sy_sweepers s)(j := pc)\<rparr>"

definition took_key :: "string \<Rightarrow> 'r call \<Rightarrow> 'r system \<Rightarrow> 'r system" where
  "took_key k c s = s\<lparr>sy_used := insert k (sy_used s), sy_calls := (sy_calls s)(k \<mapsto> c)\<rparr>"

definition call_tx :: "'r store \<Rightarrow> 'r call \<Rightarrow> mv_write_rows list \<Rightarrow> string \<Rightarrow> int \<Rightarrow> string \<Rightarrow> world
    \<Rightarrow> (tx_error + int \<times> int \<times> int) \<times> bool \<times> world" where
  "call_tx st c mvRows body us k =
     run_write_tx (cl_env c) (write_tx_body st (cl_env c) (cl_o1 c) (cl_key c) (cl_vals c) (cl_token c) k body us
       (int (length (cl_recs c))) mvRows)"

definition call_ref :: "'r call \<Rightarrow> string \<Rightarrow> int \<Rightarrow> string \<Rightarrow> int \<times> int \<times> int \<Rightarrow> file_ref" where
  "call_ref c body us k r =
     (case r of (version, fileID, writtenAt) \<Rightarrow>
       \<lparr>FileID = fileID, PartitionKey = cl_key c, S3Key = k, Version = version, WrittenAt = writtenAt,
        RecordCount = int (length (cl_recs c)), FileSize = int (length body), UncompressedSize = us,
        Extensions = wo_metadata (cl_o1 c), Offset = OffsetNone\<rparr>)"

text \<open>The promise of the grace period: a sweep at \<open>cutoff\<close> meets no writer that is still to run its transaction and whose
  tracking row is older.\<close>

definition in_grace :: "int \<Rightarrow> 'r system \<Rightarrow> bool" where
  "in_grace cutoff s \<longleftrightarrow> (\<forall>i c m b us k. sy_writers s i = Prepared c m b us k \<longrightarrow> cutoff \<le> e_now (cl_env c))"

section \<open>The steps\<close>

inductive sys_step :: "'r store \<Rightarrow> 'r system \<Rightarrow> 'r system \<Rightarrow> bool" for st where
  refuse: "sy_writers s i = Idle_writer \<Longrightarrow> prepare_write st (cl_env (c :: 'r call)) (cl_key c) (cl_recs c) (sy_world s) = Inl e
    \<Longrightarrow> sys_step st s (at_writer i (Answered (Inl e)) (sy_world s) s)"
| prepare: "sy_writers s i = Idle_writer \<Longrightarrow> PartitionKeyValues (cl_key c) (st_parts st) = Inr (cl_vals c)
    \<Longrightarrow> prepare_write st (cl_env c) (cl_key c) (cl_recs c) (sy_world s) = Inr (mvRows, body, us, k, db) \<Longrightarrow> k \<notin> sy_used s
    \<Longrightarrow> sys_step st s (at_writer i (Prepared c mvRows body us k) ((sy_world s)\<lparr>wd_db := db\<rparr>) (took_key k c s))"
| transact: "sy_writers s i = Prepared c mvRows body us k \<Longrightarrow> call_tx st c mvRows body us k (sy_world s) = (Inr r, put, w)
    \<Longrightarrow> sys_step st s (at_writer i (Answered (Inr (call_ref c body us k r))) w s)"
| transact_failed: "sy_writers s i = Prepared c mvRows body us k \<Longrightarrow> call_tx st c mvRows body us k (sy_world s) = (Inl e, put, w)
    \<Longrightarrow> sys_step st s (at_writer i (Unresolved c e put k) w s)"
| clean: "sy_writers s i = Unresolved c e put k
    \<Longrightarrow> w = (if put \<or> e_pending_cleanup (cl_env c) \<noteq> None then sy_world s
             else (sy_world s)\<lparr>wd_db := sql_pending_delete k (wd_db (sy_world s))\<rparr>)
    \<Longrightarrow> sys_step st s (at_writer i (Resolving c e) w s)"
| resolve: "sy_writers s i = Resolving c e
    \<Longrightarrow> sys_step st s (at_writer i (Answered (translateWriteTxErr st (cl_env c) e (cl_key c) (cl_token c) (wd_db (sy_world s)))) (sy_world s) s)"
| again: "sy_writers s i = Answered res \<Longrightarrow> sys_step st s (at_writer i Idle_writer (sy_world s) s)"
| seq_pass: "runOnceWithMetrics cfg env (wd_db (sy_world s)) = (res, db) \<Longrightarrow> (\<forall>d. q_others env d = d)
    \<Longrightarrow> sys_step st s (s\<lparr>sy_world := (sy_world s)\<lparr>wd_db := db\<rparr>\<rparr>)"
| gc_scan: "sy_sweepers s j = Sweep_idle \<Longrightarrow> scanPending env cutoff lim (wd_db (sy_world s)) = Inr keys \<Longrightarrow> in_grace cutoff s
    \<Longrightarrow> sys_step st s (at_sweeper j (Sweeping keys) (sy_world s) s)"
| gc_object_kept: "sy_sweepers s j = Sweeping (k # keys) \<Longrightarrow> sys_step st s (at_sweeper j (Sweeping keys) (sy_world s) s)"
| gc_object_lost: "sy_sweepers s j = Sweeping (k # keys)
    \<Longrightarrow> sys_step st s (at_sweeper j (Sweeping keys) ((sy_world s)\<lparr>wd_s3 := (wd_s3 (sy_world s))(k := None)\<rparr>) s)"
| gc_object: "sy_sweepers s j = Sweeping (k # keys)
    \<Longrightarrow> sys_step st s (at_sweeper j (Object_gone k keys) ((sy_world s)\<lparr>wd_s3 := (wd_s3 (sy_world s))(k := None)\<rparr>) s)"
| gc_row: "sy_sweepers s j = Object_gone k keys
    \<Longrightarrow> sys_step st s (at_sweeper j (Sweeping keys) (snd (delete_row fail commit k (sy_world s))) s)"
| gc_stop: "sy_sweepers s j = Sweeping keys \<Longrightarrow> sys_step st s (at_sweeper j Sweep_idle (sy_world s) s)"

section \<open>The invariant\<close>

fun prepared_key :: "'r writer \<Rightarrow> string set" where
  "prepared_key (Prepared c m b us k) = {k}"
| "prepared_key _ = {}"

text \<open>The writer is about to delete its tracking row, its PUT was not tried.\<close>

fun cleaning_key :: "'r writer \<Rightarrow> string set" where
  "cleaning_key (Unresolved c e put k) = (if put then {} else {k})"
| "cleaning_key _ = {}"

fun swept :: "sweeper \<Rightarrow> string set" where
  "swept Sweep_idle = {}"
| "swept (Sweeping keys) = set keys"
| "swept (Object_gone k keys) = insert k (set keys)"

fun gone_key :: "sweeper \<Rightarrow> string set" where
  "gone_key (Object_gone k keys) = {k}"
| "gone_key _ = {}"

definition prepared_keys :: "'r system \<Rightarrow> string set" where
  "prepared_keys s = (\<Union>i. prepared_key (sy_writers s i))"

definition cleaning_keys :: "'r system \<Rightarrow> string set" where
  "cleaning_keys s = (\<Union>i. cleaning_key (sy_writers s i))"

definition swept_keys :: "'r system \<Rightarrow> string set" where
  "swept_keys s = (\<Union>j. swept (sy_sweepers s j))"

definition gone_keys :: "'r system \<Rightarrow> string set" where
  "gone_keys s = (\<Union>j. gone_key (sy_sweepers s j))"

text \<open>Files and tracking rows are apart, every key in use is known, and nobody touches the key of another: the keys of the files,
  the tracking rows, the objects, all keys so far, and those of writers before their transaction and before their clean-up, of
  sweepers, and of sweepers between object and row.\<close>

definition keys_ok :: "string set \<Rightarrow> string set \<Rightarrow> string set \<Rightarrow> string set \<Rightarrow> string set \<Rightarrow> string set \<Rightarrow> string set \<Rightarrow> string set \<Rightarrow> bool" where
  "keys_ok files pend objs used prep cleaning swp gone \<longleftrightarrow> (\<forall>k.
     (k \<in> files \<longrightarrow> k \<notin> pend \<and> k \<in> used) \<and> (k \<in> pend \<longrightarrow> k \<in> used) \<and> (k \<in> prep \<longrightarrow> k \<in> pend \<and> k \<notin> objs)
     \<and> (k \<in> cleaning \<longrightarrow> k \<in> used \<and> k \<notin> objs \<and> k \<notin> files \<and> k \<notin> prep)
     \<and> (k \<in> swp \<longrightarrow> k \<in> used \<and> k \<notin> files \<and> k \<notin> prep) \<and> (k \<in> gone \<longrightarrow> k \<in> swp \<and> k \<notin> objs))"

definition keys_inv :: "'r system \<Rightarrow> bool" where
  "keys_inv s \<longleftrightarrow> keys_ok (file_keys (sy_world s)) (pending_keys (sy_world s)) (dom (wd_s3 (sy_world s))) (sy_used s)
     (prepared_keys s) (cleaning_keys s) (swept_keys s) (gone_keys s)"

definition writer_ok :: "'r store \<Rightarrow> world \<Rightarrow> 'r writer \<Rightarrow> bool" where
  "writer_ok st w pc \<longleftrightarrow>
     (case pc of
        Prepared c m b us k \<Rightarrow> length (cl_vals c) = length (st_parts st)
          \<and> \<lparr>w_s3_key = k, w_intended_at = e_now (cl_env c)\<rparr> \<in> set (c_pending (wd_db w))
      | Answered (Inr ref) \<Rightarrow> S3Key ref \<in> file_keys w
      | _ \<Rightarrow> True)"

definition writers_inv :: "'r store \<Rightarrow> 'r system \<Rightarrow> bool" where
  "writers_inv st s \<longleftrightarrow> (\<forall>i. writer_ok st (sy_world s) (sy_writers s i))
     \<and> (\<forall>i i'. i \<noteq> i' \<longrightarrow> prepared_key (sy_writers s i) \<inter> prepared_key (sy_writers s i') = {})"

definition sys_inv :: "'r store \<Rightarrow> 'r system \<Rightarrow> bool" where
  "sys_inv st s \<longleftrightarrow> world_ok (sy_world s) \<and> gap_free (wd_db (sy_world s)) \<and> keys_inv s \<and> writers_inv st s"

text \<open>What is committed stays: the row, but for the number it has not got yet, and the object.\<close>

definition durable :: "world \<Rightarrow> world \<Rightarrow> bool" where
  "durable w w' \<longleftrightarrow> (\<forall>r \<in> set (c_files (wd_db w)). \<exists>r' \<in> set (c_files (wd_db w')).
     unnumbered r' = unnumbered r \<and> (f_feed_seq r \<noteq> None \<longrightarrow> r' = r) \<and> wd_s3 w' (f_s3_key r) = wd_s3 w (f_s3_key r))"

lemma durable_row:
  assumes "durable w w'" "r \<in> set (c_files (wd_db w))"
  obtains r' where "r' \<in> set (c_files (wd_db w'))" "unnumbered r' = unnumbered r" "f_s3_key r' = f_s3_key r"
    "f_feed_seq r \<noteq> None \<longrightarrow> r' = r" "wd_s3 w' (f_s3_key r) = wd_s3 w (f_s3_key r)"
  using assms unnumbered_eq unfolding durable_def by blast

lemma durable_trans:
  assumes "durable w1 w2" "durable w2 w3"
  shows "durable w1 w3"
  unfolding durable_def
proof
  fix r assume "r \<in> set (c_files (wd_db w1))"
  with assms(1) obtain r2 where r2: "r2 \<in> set (c_files (wd_db w2))" "unnumbered r2 = unnumbered r" "f_s3_key r2 = f_s3_key r"
    "f_feed_seq r \<noteq> None \<longrightarrow> r2 = r" "wd_s3 w2 (f_s3_key r) = wd_s3 w1 (f_s3_key r)" by (rule durable_row)
  from assms(2) r2(1) obtain r3 where r3: "r3 \<in> set (c_files (wd_db w3))" "unnumbered r3 = unnumbered r2"
    "f_feed_seq r2 \<noteq> None \<longrightarrow> r3 = r2" "wd_s3 w3 (f_s3_key r2) = wd_s3 w2 (f_s3_key r2)" by (rule durable_row)
  have "f_feed_seq r \<noteq> None \<longrightarrow> r3 = r" using r2(4) r3(3) by auto
  with r2 r3 show "\<exists>r' \<in> set (c_files (wd_db w3)). unnumbered r' = unnumbered r \<and> (f_feed_seq r \<noteq> None \<longrightarrow> r' = r)
      \<and> wd_s3 w3 (f_s3_key r) = wd_s3 w1 (f_s3_key r)" by (intro bexI [of _ r3]) simp_all
qed

lemma durable_frame:
  assumes "set (c_files (wd_db w)) \<subseteq> set (c_files (wd_db w'))" "\<And>k. k \<in> file_keys w \<Longrightarrow> wd_s3 w' k = wd_s3 w k"
  shows "durable w w'"
  using assms unfolding durable_def file_keys_def by blast

lemma durable_keys:
  assumes "durable w w'"
  shows "file_keys w \<subseteq> file_keys w'"
proof
  fix k assume "k \<in> file_keys w"
  then obtain r where "r \<in> set (c_files (wd_db w))" "k = f_s3_key r" by (auto simp: file_keys_def)
  moreover from assms this(1) obtain r' where "r' \<in> set (c_files (wd_db w'))" "f_s3_key r' = f_s3_key r" by (rule durable_row)
  ultimately show "k \<in> file_keys w'" unfolding file_keys_def by (metis imageI)
qed

section \<open>Sets after a step\<close>

lemma UN_upd: "(\<Union>i. f ((h(i0 := x)) i)) = f x \<union> (\<Union>i \<in> - {i0}. f (h i))"
  by (auto split: if_splits)

lemma UN_split: "(\<Union>i. f (h i)) = f (h i0) \<union> (\<Union>i \<in> - {i0}. f (h i))"
  by auto

lemma keys_at_writer:
  "prepared_keys (at_writer i pc w s) = prepared_key pc \<union> (\<Union>i' \<in> - {i}. prepared_key (sy_writers s i'))"
  "cleaning_keys (at_writer i pc w s) = cleaning_key pc \<union> (\<Union>i' \<in> - {i}. cleaning_key (sy_writers s i'))"
  "swept_keys (at_writer i pc w s) = swept_keys s" "gone_keys (at_writer i pc w s) = gone_keys s"
  "sy_world (at_writer i pc w s) = w" "sy_used (at_writer i pc w s) = sy_used s"
  by (simp_all add: at_writer_def prepared_keys_def cleaning_keys_def swept_keys_def gone_keys_def UN_upd del: fun_upd_apply)

lemma keys_at_sweeper:
  "prepared_keys (at_sweeper j pc w s) = prepared_keys s" "cleaning_keys (at_sweeper j pc w s) = cleaning_keys s"
  "swept_keys (at_sweeper j pc w s) = swept pc \<union> (\<Union>j' \<in> - {j}. swept (sy_sweepers s j'))"
  "gone_keys (at_sweeper j pc w s) = gone_key pc \<union> (\<Union>j' \<in> - {j}. gone_key (sy_sweepers s j'))"
  "sy_world (at_sweeper j pc w s) = w" "sy_used (at_sweeper j pc w s) = sy_used s"
  by (simp_all add: at_sweeper_def prepared_keys_def cleaning_keys_def swept_keys_def gone_keys_def UN_upd del: fun_upd_apply)

lemma keys_split:
  "prepared_keys s = prepared_key (sy_writers s i) \<union> (\<Union>i' \<in> - {i}. prepared_key (sy_writers s i'))"
  "cleaning_keys s = cleaning_key (sy_writers s i) \<union> (\<Union>i' \<in> - {i}. cleaning_key (sy_writers s i'))"
  "swept_keys s = swept (sy_sweepers s j) \<union> (\<Union>j' \<in> - {j}. swept (sy_sweepers s j'))"
  "gone_keys s = gone_key (sy_sweepers s j) \<union> (\<Union>j' \<in> - {j}. gone_key (sy_sweepers s j'))"
  unfolding prepared_keys_def cleaning_keys_def swept_keys_def gone_keys_def by (rule UN_split)+

lemma keys_ok_mono:
  "keys_ok F T Ob U A C S G \<Longrightarrow> U \<subseteq> U' \<Longrightarrow> A' \<subseteq> A \<Longrightarrow> C' \<subseteq> C \<Longrightarrow> S' \<subseteq> S \<Longrightarrow> G' \<subseteq> G \<Longrightarrow> G' \<subseteq> S'
    \<Longrightarrow> keys_ok F T Ob U' A' C' S' G'"
  unfolding keys_ok_def by (auto simp: subset_iff)

lemma keys_ok_prepare:
  "keys_ok F T Ob U A C S G \<Longrightarrow> k \<notin> U \<Longrightarrow> Ob \<subseteq> F \<union> T \<Longrightarrow> A' \<subseteq> insert k A \<Longrightarrow> C' \<subseteq> C \<Longrightarrow> keys_ok F (insert k T) Ob (insert k U) A' C' S G"
  unfolding keys_ok_def by (auto simp: subset_iff)

lemma keys_ok_commit:
  "keys_ok F T Ob U A C S G \<Longrightarrow> k \<in> A \<Longrightarrow> A' \<subseteq> A - {k} \<Longrightarrow> C' \<subseteq> C \<Longrightarrow> keys_ok (insert k F) (T - {k}) (insert k Ob) U A' C' S G"
  unfolding keys_ok_def by (auto simp: subset_iff)

lemma keys_ok_rollback:
  "keys_ok F T Ob U A C S G \<Longrightarrow> k \<in> A \<Longrightarrow> A' \<subseteq> A - {k} \<Longrightarrow> C' \<subseteq> C \<Longrightarrow> keys_ok F T (insert k Ob) U A' C' S G"
  "keys_ok F T Ob U A C S G \<Longrightarrow> k \<in> A \<Longrightarrow> A' \<subseteq> A - {k} \<Longrightarrow> C' \<subseteq> insert k C \<Longrightarrow> keys_ok F T Ob U A' C' S G"
  unfolding keys_ok_def by (auto simp: subset_iff)

lemma keys_ok_untrack:
  "keys_ok F T Ob U A C S G \<Longrightarrow> k \<in> C \<union> S \<Longrightarrow> A' \<subseteq> A \<Longrightarrow> C' \<subseteq> C \<Longrightarrow> S' \<subseteq> S \<Longrightarrow> G' \<subseteq> G \<Longrightarrow> G' \<subseteq> S' \<Longrightarrow> keys_ok F (T - {k}) Ob U A' C' S' G'"
  unfolding keys_ok_def by (auto simp: subset_iff)

lemma keys_ok_object:
  "keys_ok F T Ob U A C S G \<Longrightarrow> k \<in> S \<Longrightarrow> S' \<subseteq> S \<Longrightarrow> G' \<subseteq> insert k G \<Longrightarrow> G' \<subseteq> S' \<Longrightarrow> keys_ok F T (Ob - {k}) U A C S' G'"
  unfolding keys_ok_def by (auto simp: subset_iff)

lemma keys_ok_scan:
  "keys_ok F T Ob U A C S G \<Longrightarrow> K \<subseteq> T \<Longrightarrow> K \<inter> A = {} \<Longrightarrow> S' \<subseteq> S \<union> K \<Longrightarrow> G' \<subseteq> G \<Longrightarrow> G' \<subseteq> S' \<Longrightarrow> keys_ok F T Ob U A C S' G'"
  unfolding keys_ok_def by (auto simp: subset_iff)

lemma gone_swept: "gone_keys s \<subseteq> swept_keys s"
proof -
  have "gone_key pc \<subseteq> swept pc" for pc by (cases pc) auto
  then show ?thesis unfolding gone_keys_def swept_keys_def by blast
qed

lemma keys_shrink:
  assumes "keys_inv s" "sy_world s' = sy_world s" "sy_used s \<subseteq> sy_used s'" "prepared_keys s' \<subseteq> prepared_keys s"
    "cleaning_keys s' \<subseteq> cleaning_keys s" "swept_keys s' \<subseteq> swept_keys s" "gone_keys s' \<subseteq> gone_keys s"
  shows "keys_inv s'"
  using assms(1,3-7) unfolding keys_inv_def assms(2) by (rule keys_ok_mono [OF _ _ _ _ _ _ gone_swept])

lemma writers_at_writer:
  assumes "writers_inv st s" "writer_ok st w pc" "prepared_key pc \<inter> (\<Union>i' \<in> - {i}. prepared_key (sy_writers s i')) = {}"
    "\<And>i'. i' \<noteq> i \<Longrightarrow> writer_ok st (sy_world s) (sy_writers s i') \<Longrightarrow> writer_ok st w (sy_writers s i')"
  shows "writers_inv st (at_writer i pc w s)"
proof -
  have "prepared_key pc \<inter> prepared_key (sy_writers s i') = {}" if "i' \<noteq> i" for i' using assms(3) that by blast
  moreover have "writer_ok st w (sy_writers s i')" if "i' \<noteq> i" for i'
    using assms(1,4) that unfolding writers_inv_def by blast
  ultimately show ?thesis using assms(1,2) unfolding writers_inv_def by (auto simp: at_writer_def Int_commute)
qed

lemma writers_world:
  assumes "writers_inv st s" "\<And>pc. pc \<in> range (sy_writers s) \<Longrightarrow> writer_ok st (sy_world s) pc \<Longrightarrow> writer_ok st (sy_world s') pc"
    "sy_writers s' = sy_writers s"
  shows "writers_inv st s'"
  using assms unfolding writers_inv_def by auto

lemma writer_ok_mono:
  assumes "writer_ok st w pc" "file_keys w \<subseteq> file_keys w'" "\<And>k t. k \<in> prepared_key pc \<Longrightarrow>
     \<lparr>w_s3_key = k, w_intended_at = t\<rparr> \<in> set (c_pending (wd_db w)) \<Longrightarrow> \<lparr>w_s3_key = k, w_intended_at = t\<rparr> \<in> set (c_pending (wd_db w'))"
  shows "writer_ok st w' pc"
  using assms by (cases pc) (auto simp: writer_ok_def split: sum.splits)

section \<open>The write transaction as a step\<close>

lemma run_write_tx_cases:
  assumes run: "run_write_tx env body w = (res, put, w2)"
  obtains (untouched) "w2 = w" "\<exists>e. res = Inl e"
    | (undone) "w2 = w\<lparr>wd_db := rollback (wd_db w) (tx_db (body w)), wd_s3 := tx_s3 (body w)\<rparr>" "\<exists>e. res = Inl e"
        "put = tx_put_attempted (body w)"
    | (landed) v fid at ns where "tx_res (body w) = Inr (v, fid, at, ns)" "put = tx_put_attempted (body w)"
        "w2 = w\<lparr>wd_db := tx_db (body w), wd_s3 := tx_s3 (body w), wd_notified := wd_notified w @ ns\<rparr>"
proof (cases "e_begin env")
  case (Some e)
  with run untouched show thesis by (auto simp: run_write_tx_def)
next
  case b: None
  show thesis
  proof (cases "tx_res (body w)")
    case (Inl e)
    with b run undone show thesis by (auto simp: run_write_tx_def Let_def)
  next
    case (Inr r)
    obtain v fid at ns where r: "tx_res (body w) = Inr (v, fid, at, ns)" using Inr by (cases r) auto
    show thesis
    proof (cases "e_commit env")
      case Commit_ok
      with b r run landed [OF r] show thesis by (simp add: run_write_tx_def Let_def)
    next
      case (Commit_failed e)
      with b r run undone show thesis by (auto simp: run_write_tx_def Let_def)
    next
      case (Commit_lost e)
      with b r run landed [OF r] show thesis by (simp add: run_write_tx_def Let_def)
    qed
  qed
qed

lemma call_tx_effect:
  assumes "wf_store st" "length (cl_vals c) = length (st_parts st)" "call_tx st c m body us k w = (res, put, w2)"
    and "world_ok w" "k \<in> pending_keys w" "k \<notin> dom (wd_s3 w)"
  obtains (rolled) "\<exists>e. res = Inl e" "c_files (wd_db w2) = c_files (wd_db w)" "c_pending (wd_db w2) = c_pending (wd_db w)"
      "wd_s3 w2 = wd_s3 w \<or> put \<and> (\<exists>obj. wd_s3 w2 = (wd_s3 w)(k \<mapsto> obj))"
  | (committed) r obj where "put" "c_files (wd_db w2) = c_files (wd_db w) @ [r]" "f_s3_key r = k" "f_feed_seq r = None"
      "f_partition_key r = cl_key c" "f_part r = map_of (zip (st_parts st) (cl_vals c))" "so_body obj = body"
      "c_pending (wd_db w2) = filter (\<lambda>p. w_s3_key p \<noteq> k) (c_pending (wd_db w))" "wd_s3 w2 = (wd_s3 w)(k \<mapsto> obj)"
proof -
  let ?t = "write_tx_body st (cl_env c) (cl_o1 c) (cl_key c) (cl_vals c) (cl_token c) k body us (int (length (cl_recs c))) m w"
  note frame = write_tx_body_frame [OF assms(1,2), where w = w and env = "cl_env c" and opts = "cl_o1 c" and key = "cl_key c" and
      token = "cl_token c" and s3Key = k and body = body and us = us and rc = "int (length (cl_recs c))" and mvRows = m]
  have run: "run_write_tx (cl_env c) (write_tx_body st (cl_env c) (cl_o1 c) (cl_key c) (cl_vals c) (cl_token c) k body us
      (int (length (cl_recs c))) m) w = (res, put, w2)" using assms(3) by (simp add: call_tx_def)
  from run show thesis
  proof (cases rule: run_write_tx_cases)
    case untouched
    then show ?thesis using rolled by simp
  next
    case undone
    then show ?thesis using rolled frame(2) by (auto simp: rollback_def)
  next
    case (landed v fid at ns)
    let ?r = "new_row st (e_pgx (cl_env c)) (c_next_id (wd_db w)) (e_now (cl_env c))
      (fi_of (cl_o1 c) (cl_key c) (cl_vals c) (cl_token c) k body us (int (length (cl_recs c))) v)"
    obtain ps mv md where *: "tx_db ?t = committed (wd_db w) ?r ps mv" "tx_s3 ?t = (wd_s3 w)(k \<mapsto> \<lparr>so_body = body, so_meta = md\<rparr>)"
      using write_tx_body_ok [OF assms(1,2) landed(1)] by blast
    have "tx_s3 ?t \<noteq> wd_s3 w" using *(2) assms(6) by (metis domIff fun_upd_same option.discI)
    then have "put" using frame(2) landed(2) by blast
    moreover have "f_s3_key ?r = k" "f_feed_seq ?r = None" "f_partition_key ?r = cl_key c"
      "f_part ?r = map_of (zip (st_parts st) (cl_vals c))" by (simp_all add: new_row_def fi_of_def)
    ultimately show ?thesis
      using committed [of ?r "\<lparr>so_body = body, so_meta = md\<rparr>"] * landed(3) by (simp add: committed_def)
  qed
qed

section \<open>Every step keeps the invariant\<close>

definition step_ok :: "'r store \<Rightarrow> 'r system \<Rightarrow> 'r system \<Rightarrow> bool" where
  "step_ok st s s' \<longleftrightarrow> sys_inv st s' \<and> durable (sy_world s) (sy_world s')"

lemma durable_refl [simp]: "durable w w"
  by (rule durable_frame) simp_all

lemma gap_free_files: "gap_free (wd_db w) \<Longrightarrow> sequenced (c_files db) = sequenced (c_files (wd_db w)) \<Longrightarrow> gap_free db"
  by (simp add: gap_free_def)

lemma sys_invD:
  assumes "sys_inv st s"
  shows "world_ok (sy_world s)" "gap_free (wd_db (sy_world s))" "keys_inv s" "writers_inv st s"
    "dom (wd_s3 (sy_world s)) \<subseteq> file_keys (sy_world s) \<union> pending_keys (sy_world s)"
  using assms by (simp_all add: sys_inv_def world_ok_alt)

text \<open>A writer that moves on and changes nothing.\<close>

lemma step_ok_writer:
  assumes "sys_inv st s" "writer_ok st (sy_world s) pc" "prepared_key pc = {}" "cleaning_key pc = {}"
  shows "step_ok st s (at_writer i pc (sy_world s) s)"
proof -
  have "keys_inv (at_writer i pc (sy_world s) s)"
    using keys_shrink [of s "at_writer i pc (sy_world s) s"] sys_invD(3) [OF assms(1)] assms(3,4)
      keys_split(1,2) [of s i] by (auto simp: keys_at_writer)
  moreover have "writers_inv st (at_writer i pc (sy_world s) s)"
    by (rule writers_at_writer [OF sys_invD(4) [OF assms(1)] assms(2)]) (simp_all add: assms(3))
  ultimately show ?thesis using assms(1) by (simp add: step_ok_def sys_inv_def keys_at_writer)
qed

lemma prepared_alone:
  assumes "sys_inv st s" "sy_writers s i = Prepared c m b us k"
  shows "k \<in> prepared_keys s" "(\<Union>i' \<in> - {i}. prepared_key (sy_writers s i')) \<subseteq> prepared_keys s - {k}"
    "(\<Union>i' \<in> - {i}. cleaning_key (sy_writers s i')) \<subseteq> cleaning_keys s"
    "length (cl_vals c) = length (st_parts st)" "k \<in> pending_keys (sy_world s)" "k \<notin> dom (wd_s3 (sy_world s))" "k \<notin> file_keys (sy_world s)"
proof -
  show k: "k \<in> prepared_keys s" using assms(2) keys_split(1) [of s i] by simp
  have "k \<notin> prepared_key (sy_writers s i')" if "i' \<noteq> i" for i'
    using sys_invD(4) [OF assms(1)] assms(2) that unfolding writers_inv_def by (metis disjoint_iff insertI1 prepared_key.simps(1))
  then show "(\<Union>i' \<in> - {i}. prepared_key (sy_writers s i')) \<subseteq> prepared_keys s - {k}" by (auto simp: prepared_keys_def)
  show "(\<Union>i' \<in> - {i}. cleaning_key (sy_writers s i')) \<subseteq> cleaning_keys s" by (auto simp: cleaning_keys_def)
  have "writer_ok st (sy_world s) (Prepared c m b us k)" using sys_invD(4) [OF assms(1)] assms(2) unfolding writers_inv_def by metis
  then show "length (cl_vals c) = length (st_parts st)" by (simp add: writer_ok_def)
  show "k \<in> pending_keys (sy_world s)" "k \<notin> dom (wd_s3 (sy_world s))" "k \<notin> file_keys (sy_world s)"
    using sys_invD(3) [OF assms(1)] k unfolding keys_inv_def keys_ok_def by blast+
qed

lemma step_ok_transact:
  assumes "wf_store st" "sys_inv st s" "sy_writers s i = Prepared c m b us k" "call_tx st c m b us k (sy_world s) = (res, put, w)"
    and pc: "pc = (case res of Inr r \<Rightarrow> Answered (Inr (call_ref c b us k r)) | Inl e \<Rightarrow> Unresolved c e put k)"
  shows "step_ok st s (at_writer i pc w s)"
proof -
  note p = prepared_alone [OF assms(2,3)] and inv = sys_invD [OF assms(2)]
  have world: "world_ok w"
    using run_write_tx_safe(1) [OF assms(1) p(4) assms(4) [unfolded call_tx_def] inv(1) p(5)] .
  have no_prep: "prepared_key pc = {}" by (simp add: pc split: sum.splits)
  have keys0: "keys_ok (file_keys (sy_world s)) (pending_keys (sy_world s)) (dom (wd_s3 (sy_world s))) (sy_used s)
     (prepared_keys s) (cleaning_keys s) (swept_keys s) (gone_keys s)" using inv(3) by (simp add: keys_inv_def)
  from assms(1) p(4) assms(4) inv(1) p(5,6)
  have "gap_free (wd_db w) \<and> keys_inv (at_writer i pc w s) \<and> durable (sy_world s) w \<and> writer_ok st w pc
      \<and> (\<forall>k' t. k' \<noteq> k \<longrightarrow> \<lparr>w_s3_key = k', w_intended_at = t\<rparr> \<in> set (c_pending (wd_db (sy_world s)))
           \<longrightarrow> \<lparr>w_s3_key = k', w_intended_at = t\<rparr> \<in> set (c_pending (wd_db w)))"
  proof (cases rule: call_tx_effect)
    case rolled
    have same: "file_keys w = file_keys (sy_world s)" "pending_keys w = pending_keys (sy_world s)"
      using rolled(2,3) by (simp_all add: file_keys_def pending_keys_def)
    have ck: "cleaning_key pc = (if put then {} else {k})" using rolled(1) by (auto simp: pc)
    have "keys_inv (at_writer i pc w s)"
      unfolding keys_inv_def keys_at_writer same no_prep ck
      using rolled(4)
    proof
      assume "wd_s3 w = wd_s3 (sy_world s)"
      then show "keys_ok (file_keys (sy_world s)) (pending_keys (sy_world s)) (dom (wd_s3 w)) (sy_used s)
         ({} \<union> (\<Union>i' \<in> - {i}. prepared_key (sy_writers s i'))) ((if put then {} else {k}) \<union> (\<Union>i' \<in> - {i}. cleaning_key (sy_writers s i')))
         (swept_keys s) (gone_keys s)"
        using p(2,3) by (auto intro!: keys_ok_rollback(2) [OF keys0 p(1)])
    next
      assume "put \<and> (\<exists>obj. wd_s3 w = (wd_s3 (sy_world s))(k \<mapsto> obj))"
      then show "keys_ok (file_keys (sy_world s)) (pending_keys (sy_world s)) (dom (wd_s3 w)) (sy_used s)
         ({} \<union> (\<Union>i' \<in> - {i}. prepared_key (sy_writers s i'))) ((if put then {} else {k}) \<union> (\<Union>i' \<in> - {i}. cleaning_key (sy_writers s i')))
         (swept_keys s) (gone_keys s)"
        using keys_ok_rollback(1) [OF keys0 p(1,2,3)] by auto
    qed
    moreover have "durable (sy_world s) w"
      using rolled(2,4) p(7) by (intro durable_frame) auto
    moreover have "writer_ok st w pc" using rolled(1) by (auto simp: pc writer_ok_def)
    ultimately show ?thesis using rolled(2,3) inv(2) by (simp add: gap_free_def)
  next
    case (committed r obj)
    have keys: "file_keys w = insert k (file_keys (sy_world s))" "pending_keys w = pending_keys (sy_world s) - {k}"
      "dom (wd_s3 w) = insert k (dom (wd_s3 (sy_world s)))"
      using committed by (auto simp: file_keys_def pending_keys_def)
    have ck: "cleaning_key pc = {}" using committed(1) by (simp add: pc split: sum.splits)
    have "keys_inv (at_writer i pc w s)"
      unfolding keys_inv_def keys_at_writer keys no_prep ck using keys_ok_commit [OF keys0 p(1,2,3)] by simp
    moreover have "durable (sy_world s) w"
      using committed(2,9) p(7) by (intro durable_frame) auto
    moreover have "writer_ok st w pc" by (auto simp: pc writer_ok_def keys call_ref_def split: sum.splits)
    ultimately show ?thesis using committed inv(2) by (simp add: gap_free_def)
  qed
  moreover have "writer_ok st w (sy_writers s i')"
    if "i' \<noteq> i" "durable (sy_world s) w" "writer_ok st (sy_world s) (sy_writers s i')"
      "\<forall>k' t. k' \<noteq> k \<longrightarrow> \<lparr>w_s3_key = k', w_intended_at = t\<rparr> \<in> set (c_pending (wd_db (sy_world s)))
           \<longrightarrow> \<lparr>w_s3_key = k', w_intended_at = t\<rparr> \<in> set (c_pending (wd_db w))" for i'
  proof (rule writer_ok_mono [OF that(3) durable_keys [OF that(2)]])
    fix k' t assume k': "k' \<in> prepared_key (sy_writers s i')" "\<lparr>w_s3_key = k', w_intended_at = t\<rparr> \<in> set (c_pending (wd_db (sy_world s)))"
    have "k' \<noteq> k" using p(2) that(1) k'(1) by blast
    with that(4) k'(2) show "\<lparr>w_s3_key = k', w_intended_at = t\<rparr> \<in> set (c_pending (wd_db w))" by blast
  qed
  ultimately show ?thesis
    using world writers_at_writer [OF inv(4), of w pc i] no_prep by (auto simp: step_ok_def sys_inv_def keys_at_writer)
qed

lemma step_ok_prepare:
  assumes "sys_inv st s" "sy_writers s i = Idle_writer" "length (cl_vals c) = length (st_parts st)"
    and "prepare_write st (cl_env c) (cl_key c) (cl_recs c) (sy_world s) = Inr (m, b, us, k, db)" "k \<notin> sy_used s"
  shows "step_ok st s (at_writer i (Prepared c m b us k) ((sy_world s)\<lparr>wd_db := db\<rparr>) (took_key k c s))"
proof -
  let ?w = "(sy_world s)\<lparr>wd_db := db\<rparr>" and ?s = "took_key k c s"
  note inv = sys_invD [OF assms(1)]
  have ins: "sql_pending_insert (e_now (cl_env c)) k (wd_db (sy_world s)) = Inr db"
    using assms(4) by (rule prepare_write_Inr) simp
  then have db: "db = (wd_db (sy_world s))\<lparr>c_pending := c_pending (wd_db (sy_world s)) @ [\<lparr>w_s3_key = k, w_intended_at = e_now (cl_env c)\<rparr>]\<rparr>"
    by (auto simp: sql_pending_insert_def split: if_splits)
  have keys: "file_keys ?w = file_keys (sy_world s)" "pending_keys ?w = insert k (pending_keys (sy_world s))"
    by (auto simp: db file_keys_def pending_keys_def)
  have keys0: "keys_ok (file_keys (sy_world s)) (pending_keys (sy_world s)) (dom (wd_s3 (sy_world s))) (sy_used s)
     (prepared_keys s) (cleaning_keys s) (swept_keys s) (gone_keys s)" using inv(3) by (simp add: keys_inv_def)
  have s3: "wd_s3 ?w = wd_s3 (sy_world s)" by simp
  have sets: "(\<Union>i' \<in> - {i}. prepared_key (sy_writers ?s i')) \<subseteq> prepared_keys s" "(\<Union>i' \<in> - {i}. cleaning_key (sy_writers ?s i')) \<subseteq> cleaning_keys s"
    "swept_keys ?s = swept_keys s" "gone_keys ?s = gone_keys s" "sy_used ?s = insert k (sy_used s)"
    by (auto simp: took_key_def prepared_keys_def cleaning_keys_def swept_keys_def gone_keys_def)
  have "keys_inv (at_writer i (Prepared c m b us k) ?w ?s)"
    unfolding keys_inv_def keys_at_writer keys sets(3-5) s3
    by (rule keys_ok_prepare [OF keys0 assms(5) inv(5)]) (use sets(1,2) in auto)
  moreover have "writers_inv st (at_writer i (Prepared c m b us k) ?w ?s)"
  proof (rule writers_at_writer)
    show "writers_inv st ?s" using inv(4) by (simp add: took_key_def writers_inv_def)
    show "writer_ok st ?w (Prepared c m b us k)" using assms(3) by (simp add: writer_ok_def db)
    have "k \<notin> prepared_keys s" using keys0 assms(5) unfolding keys_ok_def by blast
    with sets(1) show "prepared_key (Prepared c m b us k) \<inter> (\<Union>i' \<in> - {i}. prepared_key (sy_writers ?s i')) = {}" by auto
    show "writer_ok st ?w (sy_writers ?s i')" if "writer_ok st (sy_world ?s) (sy_writers ?s i')" for i'
      by (rule writer_ok_mono [OF that]) (auto simp: took_key_def file_keys_def db)
  qed
  moreover have "world_ok ?w" using world_ok_pending_insert(1) [OF inv(1) ins] .
  moreover have "durable (sy_world s) ?w" by (rule durable_frame) (simp_all add: db)
  ultimately show ?thesis using inv(2) by (simp add: step_ok_def sys_inv_def keys_at_writer gap_free_def db)
qed

text \<open>A tracking row whose key nobody is going to use goes away.\<close>

lemma untracked:
  assumes "sys_inv st s" "k \<in> cleaning_keys s \<union> swept_keys s" "k \<notin> dom (wd_s3 (sy_world s))"
    and w: "w = (sy_world s)\<lparr>wd_db := sql_pending_delete k (wd_db (sy_world s))\<rparr>"
  shows "world_ok w" "gap_free (wd_db w)" "durable (sy_world s) w" "file_keys w = file_keys (sy_world s)"
    "pending_keys w = pending_keys (sy_world s) - {k}" "wd_s3 w = wd_s3 (sy_world s)"
    "pc \<in> range (sy_writers s) \<Longrightarrow> writer_ok st (sy_world s) pc \<Longrightarrow> writer_ok st w pc"
proof -
  note inv = sys_invD [OF assms(1)]
  show "world_ok w" unfolding w using inv(1) assms(3) by (intro world_ok_pending_delete) auto
  show "gap_free (wd_db w)" using inv(2) by (simp add: w sql_pending_delete_def gap_free_def)
  show "durable (sy_world s) w" by (rule durable_frame) (simp_all add: w sql_pending_delete_def)
  show fk: "file_keys w = file_keys (sy_world s)" by (simp add: w file_keys_def sql_pending_delete_def)
  show "pending_keys w = pending_keys (sy_world s) - {k}" "wd_s3 w = wd_s3 (sy_world s)"
    by (auto simp: w pending_keys_def sql_pending_delete_def)
  have "k \<notin> prepared_keys s" using inv(3) assms(2) unfolding keys_inv_def keys_ok_def by blast
  then show "writer_ok st w pc" if "pc \<in> range (sy_writers s)" "writer_ok st (sy_world s) pc"
    using that fk by (intro writer_ok_mono [OF that(2)]) (auto simp: w sql_pending_delete_def prepared_keys_def)
qed

lemma step_ok_clean:
  assumes "sys_inv st s" "sy_writers s i = Unresolved c e put k"
    and w: "w = (if put \<or> e_pending_cleanup (cl_env c) \<noteq> None then sy_world s
             else (sy_world s)\<lparr>wd_db := sql_pending_delete k (wd_db (sy_world s))\<rparr>)"
  shows "step_ok st s (at_writer i (Resolving c e) w s)"
proof (cases "put \<or> e_pending_cleanup (cl_env c) \<noteq> None")
  case True
  then show ?thesis unfolding w using step_ok_writer [OF assms(1), of "Resolving c e" i] by (simp add: writer_ok_def)
next
  case False
  note inv = sys_invD [OF assms(1)]
  have keys0: "keys_ok (file_keys (sy_world s)) (pending_keys (sy_world s)) (dom (wd_s3 (sy_world s))) (sy_used s)
     (prepared_keys s) (cleaning_keys s) (swept_keys s) (gone_keys s)" using inv(3) by (simp add: keys_inv_def)
  have k: "k \<in> cleaning_keys s \<union> swept_keys s" using assms(2) False keys_split(2) [of s i] by simp
  have "k \<in> cleaning_keys s" using assms(2) False keys_split(2) [of s i] by simp
  then have "k \<notin> dom (wd_s3 (sy_world s))" using keys0 unfolding keys_ok_def by blast
  note u = untracked [OF assms(1) k this, of w]
  have w': "w = (sy_world s)\<lparr>wd_db := sql_pending_delete k (wd_db (sy_world s))\<rparr>" using w False by simp
  have "keys_inv (at_writer i (Resolving c e) w s)"
    unfolding keys_inv_def keys_at_writer u(4) [OF w'] u(5) [OF w'] u(6) [OF w']
    by (rule keys_ok_untrack [OF keys0 k _ _ subset_refl subset_refl gone_swept]) (auto simp: prepared_keys_def cleaning_keys_def)
  moreover have "writers_inv st (at_writer i (Resolving c e) w s)"
    by (rule writers_at_writer [OF inv(4)]) (use u(7) [OF w'] in \<open>auto simp: writer_ok_def\<close>)
  ultimately show ?thesis using u(1-3) [OF w'] by (simp add: step_ok_def sys_inv_def keys_at_writer)
qed

text \<open>The sequencer touches the numbers only, on which the consistency of the catalog does not depend.\<close>

lemma cat_inv_unnumbered: "cat_inv (db\<lparr>c_files := map unnumbered (c_files db)\<rparr>) = cat_inv db"
proof -
  have [simp]: "f_s3_key (unnumbered r) = f_s3_key r" "f_file_id (unnumbered r) = f_file_id r" "row_complete (unnumbered r) = row_complete r"
    "f_partition_key (unnumbered r) = f_partition_key r" "f_written_at_version (unnumbered r) = f_written_at_version r"
    "token_clash (unnumbered r) (unnumbered s) = token_clash r s" for r s
    by (simp_all add: unnumbered_def row_complete_def token_clash_def)
  have "part_files key (db\<lparr>c_files := map unnumbered (c_files db)\<rparr>) = map unnumbered (part_files key db)" for key
    by (simp add: part_files_def filter_map comp_def)
  then have "versions_ok (db\<lparr>c_files := map unnumbered (c_files db)\<rparr>) key = versions_ok db key" for key
    by (simp add: versions_ok_def Let_def comp_def del: upt_Suc split: option.split)
  then show ?thesis by (simp add: cat_inv_def comp_def sorted_wrt_map)
qed

lemma world_ok_renumbered:
  assumes "world_ok w" "map unnumbered (c_files db) = map unnumbered (c_files (wd_db w))"
    and "c_partitions db = c_partitions (wd_db w)" "c_pending db = c_pending (wd_db w)" "c_next_id db = c_next_id (wd_db w)" "c_mv db = c_mv (wd_db w)"
  shows "world_ok (w\<lparr>wd_db := db\<rparr>)"
proof -
  have "db\<lparr>c_files := map unnumbered (c_files db)\<rparr> = (wd_db w)\<lparr>c_files := map unnumbered (c_files (wd_db w))\<rparr>"
    using assms(2-6) by simp
  then have "cat_inv db" using assms(1) cat_inv_unnumbered [of db] cat_inv_unnumbered [of "wd_db w"] by (simp add: world_ok_def)
  moreover have "f_s3_key ` set (c_files db) = f_s3_key ` set (c_files (wd_db w))"
    using same_rows(1) [OF assms(2)] by (metis set_map)
  moreover have "\<exists>obj. wd_s3 w (f_s3_key r) = Some obj \<and> int (length (so_body obj)) = f_file_size r" if r: "r \<in> set (c_files db)" for r
  proof -
    obtain r0 where r0: "r0 \<in> set (c_files (wd_db w))" "unnumbered r = unnumbered r0" using same_rows(4) [OF assms(2) r] by blast
    have "f_s3_key (unnumbered x) = f_s3_key x" "f_file_size (unnumbered x) = f_file_size x" for x by (simp_all add: unnumbered_def)
    then have "f_s3_key r = f_s3_key r0" "f_file_size r = f_file_size r0" using r0(2) by metis+
    with r0(1) assms(1) show ?thesis by (simp add: world_ok_def)
  qed
  ultimately show ?thesis using assms(1,4) by (simp add: world_ok_def)
qed


lemma step_ok_seq:
  assumes "sys_inv st s" "runOnceWithMetrics cfg env (wd_db (sy_world s)) = (res, db)" "\<forall>d. q_others env d = d"
  shows "step_ok st s (s\<lparr>sy_world := (sy_world s)\<lparr>wd_db := db\<rparr>\<rparr>)"
proof -
  let ?d = "wd_db (sy_world s)"
  note inv = sys_invD [OF assms(1)]
  obtain n err where res: "res = (n, err)" by (cases res)
  have ids: "ids_distinct ?d" using inv(1) by (simp add: world_ok_def cat_inv_def ids_distinct_def)
  have ok: "others_ok env" using assms(3) by (simp add: others_ok_def)
  note run = assms(2) [unfolded res]
  have gap: "gap_free db" by (rule RunOnce_keeps(2) [OF run ids inv(2) ok])
  have "\<exists>f. c_files db = map f (c_files ?d) \<and> (\<forall>r \<in> set (c_files ?d). unnumbered (f r) = unnumbered r \<and> (f_feed_seq r \<noteq> None \<longrightarrow> f r = r))
      \<and> c_partitions db = c_partitions ?d \<and> c_pending db = c_pending ?d \<and> c_next_id db = c_next_id ?d \<and> c_mv db = c_mv ?d"
  proof -
    have as: "unnumbered (assigned now lim ?d r) = unnumbered r" for now lim r
      by (simp add: assigned_def assign_row_def unnumbered_def split: option.splits)
    have keep: "assigned now lim ?d r = r" if "r \<in> set (c_files ?d)" "f_feed_seq r \<noteq> None" for now lim r
      using assigned_other [OF ids that(1)] numbered_subset [of r lim ?d] that(2) by blast
    have one: ?thesis if "db = snd (sql_assign now lim ?d)" for now lim
      using that as keep by (intro exI [of _ "assigned now lim ?d"]) (simp add: sql_assign_def Let_def assigned_def numbering_def)
    from run show ?thesis
      by (cases rule: RunOnce_cases) (use one assms(3) in \<open>auto intro: exI [of _ "\<lambda>r. r"]\<close>)
  qed
  then obtain f where f: "c_files db = map f (c_files ?d)"
    "\<forall>r \<in> set (c_files ?d). unnumbered (f r) = unnumbered r \<and> (f_feed_seq r \<noteq> None \<longrightarrow> f r = r)"
    and same: "c_partitions db = c_partitions ?d" "c_pending db = c_pending ?d" "c_next_id db = c_next_id ?d" "c_mv db = c_mv ?d" by blast
  let ?w = "(sy_world s)\<lparr>wd_db := db\<rparr>"
  have dur: "durable (sy_world s) ?w" using f by (auto simp: durable_def)
  have rows: "\<forall>r \<in> set (c_files ?d). f_s3_key (f r) = f_s3_key r" using f(2) unnumbered_eq by blast
  have keys: "file_keys ?w = file_keys (sy_world s)" "pending_keys ?w = pending_keys (sy_world s)"
    using rows f(1) same(2) by (simp_all add: file_keys_def pending_keys_def image_image)
  have "keys_inv (s\<lparr>sy_world := ?w\<rparr>)"
    using inv(3) by (simp add: keys_inv_def keys prepared_keys_def cleaning_keys_def swept_keys_def gone_keys_def)
  moreover have "writers_inv st (s\<lparr>sy_world := ?w\<rparr>)"
  proof (rule writers_world [OF inv(4)])
    show "writer_ok st (sy_world (s\<lparr>sy_world := ?w\<rparr>)) pc" if "writer_ok st (sy_world s) pc" for pc
      by (rule writer_ok_mono [OF that]) (simp_all add: keys same(2))
  qed simp
  moreover have "world_ok ?w" using f by (intro world_ok_renumbered [OF inv(1) _ same]) simp
  ultimately show ?thesis using gap dur by (simp add: step_ok_def sys_inv_def)
qed

text \<open>A sweep takes stale rows, and by the grace period no writer is about to use one.\<close>

lemma scan_stale:
  assumes "scanPending env cutoff lim db = Inr keys" "k \<in> set keys"
  shows "\<exists>p \<in> set (c_pending db). w_s3_key p = k \<and> w_intended_at p < cutoff"
proof -
  have "keys = map w_s3_key (take (nat lim) (sort_key w_intended_at (filter (\<lambda>w. w_intended_at w < cutoff) (c_pending db))))"
    using assms(1) by (auto simp: scanPending_def sql_pending_scan_def split: option.splits)
  then show ?thesis
    using assms(2) sort_key_take_set [of "nat lim" w_intended_at "filter (\<lambda>w. w_intended_at w < cutoff) (c_pending db)"] by auto
qed

lemma scanned_not_prepared:
  assumes "sys_inv st s" "scanPending env cutoff lim (wd_db (sy_world s)) = Inr keys" "in_grace cutoff s"
  shows "set keys \<subseteq> pending_keys (sy_world s)" "set keys \<inter> prepared_keys s = {}"
proof -
  note inv = sys_invD [OF assms(1)]
  show "set keys \<subseteq> pending_keys (sy_world s)" using scan_stale [OF assms(2)] by (auto simp: pending_keys_def)
  have False if k: "k \<in> set keys" "k \<in> prepared_keys s" for k
  proof -
    obtain i where "k \<in> prepared_key (sy_writers s i)" using k(2) by (auto simp: prepared_keys_def)
    then obtain c m b us where pc: "sy_writers s i = Prepared c m b us k" by (cases "sy_writers s i") auto
    let ?p = "\<lparr>w_s3_key = k, w_intended_at = e_now (cl_env c)\<rparr>"
    have "?p \<in> set (c_pending (wd_db (sy_world s)))"
    proof -
      have "writer_ok st (sy_world s) (sy_writers s i)" using inv(4) unfolding writers_inv_def by blast
      then show ?thesis by (simp add: pc writer_ok_def)
    qed
    moreover obtain q where q: "q \<in> set (c_pending (wd_db (sy_world s)))" "w_s3_key q = k" "w_intended_at q < cutoff"
      using scan_stale [OF assms(2) k(1)] by blast
    moreover have "distinct (map w_s3_key (c_pending (wd_db (sy_world s))))" using inv(1) by (simp add: world_ok_def cat_inv_def)
    ultimately have "q = ?p" using distinct_key_inj by (metis pending_row.select_convs(1))
    moreover have "cutoff \<le> e_now (cl_env c)" using assms(3) pc unfolding in_grace_def by blast
    ultimately show False using q(3) by simp
  qed
  then show "set keys \<inter> prepared_keys s = {}" by blast
qed

text \<open>A sweeper that changes the world to one in which everybody still finds what he needs.\<close>

lemma step_ok_sweeper:
  assumes "sys_inv st s" "world_ok w" "gap_free (wd_db w)" "durable (sy_world s) w"
    and "\<And>pc. pc \<in> range (sy_writers s) \<Longrightarrow> writer_ok st (sy_world s) pc \<Longrightarrow> writer_ok st w pc"
    and "keys_ok (file_keys w) (pending_keys w) (dom (wd_s3 w)) (sy_used s) (prepared_keys s) (cleaning_keys s)
      (swept_keys (at_sweeper j pc w s)) (gone_keys (at_sweeper j pc w s))"
  shows "step_ok st s (at_sweeper j pc w s)"
proof -
  have "writers_inv st (at_sweeper j pc w s)"
    by (rule writers_world [OF sys_invD(4) [OF assms(1)]]) (use assms(5) in \<open>auto simp: at_sweeper_def\<close>)
  with assms show ?thesis by (simp add: step_ok_def sys_inv_def keys_inv_def keys_at_sweeper)
qed

lemma sweeper_sets:
  assumes "swept pc \<subseteq> swept (sy_sweepers s j) \<union> K"
  shows "swept_keys (at_sweeper j pc w s) \<subseteq> swept_keys s \<union> K" "gone_keys (at_sweeper j pc w s) \<subseteq> gone_key pc \<union> gone_keys s"
  using assms unfolding keys_at_sweeper by (auto simp: swept_keys_def gone_keys_def)

lemma step_ok_sweeper_still:
  assumes "sys_inv st s" "swept pc \<subseteq> swept (sy_sweepers s j) \<union> K" "gone_key pc = {}"
    and "K \<subseteq> pending_keys (sy_world s)" "K \<inter> prepared_keys s = {}"
  shows "step_ok st s (at_sweeper j pc (sy_world s) s)"
proof (rule step_ok_sweeper [OF assms(1)])
  note inv = sys_invD [OF assms(1)]
  show "world_ok (sy_world s)" "gap_free (wd_db (sy_world s))" using inv by simp_all
  show "keys_ok (file_keys (sy_world s)) (pending_keys (sy_world s)) (dom (wd_s3 (sy_world s))) (sy_used s) (prepared_keys s)
     (cleaning_keys s) (swept_keys (at_sweeper j pc (sy_world s) s)) (gone_keys (at_sweeper j pc (sy_world s) s))"
    by (rule keys_ok_scan [OF inv(3) [unfolded keys_inv_def] assms(4,5) _ _ gone_swept]) (use sweeper_sets [OF assms(2)] assms(3) in auto)
qed simp_all

lemma step_ok_object:
  assumes "sys_inv st s" "sy_sweepers s j = Sweeping (k # keys)" "pc = Sweeping keys \<or> pc = Object_gone k keys"
  shows "step_ok st s (at_sweeper j pc ((sy_world s)\<lparr>wd_s3 := (wd_s3 (sy_world s))(k := None)\<rparr>) s)" (is "step_ok st s (at_sweeper j pc ?w s)")
proof (rule step_ok_sweeper [OF assms(1)])
  note inv = sys_invD [OF assms(1)]
  have k: "k \<in> swept_keys s" using assms(2) keys_split(3) [of s j] by simp
  then have nf: "k \<notin> file_keys (sy_world s)" using inv(3) unfolding keys_inv_def keys_ok_def by blast
  show "world_ok ?w" by (rule world_ok_delete_object [OF inv(1) nf])
  show "gap_free (wd_db ?w)" using inv(2) by simp
  show "durable (sy_world s) ?w" using nf by (intro durable_frame) auto
  show "writer_ok st ?w p" if "writer_ok st (sy_world s) p" for p
    by (rule writer_ok_mono [OF that]) (simp_all add: file_keys_def)
  have same: "file_keys ?w = file_keys (sy_world s)" "pending_keys ?w = pending_keys (sy_world s)" "dom (wd_s3 ?w) = dom (wd_s3 (sy_world s)) - {k}"
    by (auto simp: file_keys_def pending_keys_def split: if_splits)
  have "swept pc \<subseteq> swept (sy_sweepers s j) \<union> {}" "gone_key pc \<subseteq> {k}" using assms(2,3) by auto
  then show "keys_ok (file_keys ?w) (pending_keys ?w) (dom (wd_s3 ?w)) (sy_used s) (prepared_keys s)
     (cleaning_keys s) (swept_keys (at_sweeper j pc ?w s)) (gone_keys (at_sweeper j pc ?w s))"
    unfolding same using sweeper_sets [of pc s j "{}" ?w]
    by (intro keys_ok_object [OF inv(3) [unfolded keys_inv_def] k _ _ gone_swept]) auto
qed

lemma step_ok_row:
  assumes "sys_inv st s" "sy_sweepers s j = Object_gone k keys"
  shows "step_ok st s (at_sweeper j (Sweeping keys) (snd (delete_row fail commit k (sy_world s))) s)"
proof -
  note inv = sys_invD [OF assms(1)]
  have sets: "swept (Sweeping keys) \<subseteq> swept (sy_sweepers s j) \<union> {}" "gone_key (Sweeping keys) = {}" using assms(2) by auto
  consider "snd (delete_row fail commit k (sy_world s)) = sy_world s"
    | "snd (delete_row fail commit k (sy_world s)) = (sy_world s)\<lparr>wd_db := sql_pending_delete k (wd_db (sy_world s))\<rparr>"
    by (cases fail; cases commit) (auto simp: delete_row_def)
  then show ?thesis
  proof cases
    case 1
    with step_ok_sweeper_still [OF assms(1) sets] show ?thesis by simp
  next
    case 2
    let ?w = "(sy_world s)\<lparr>wd_db := sql_pending_delete k (wd_db (sy_world s))\<rparr>"
    have k: "k \<in> cleaning_keys s \<union> swept_keys s" "k \<in> gone_keys s" using assms(2) keys_split(3,4) [of s j] by simp_all
    then have "k \<notin> dom (wd_s3 (sy_world s))" using inv(3) unfolding keys_inv_def keys_ok_def by blast
    note u = untracked [OF assms(1) k(1) this refl]
    have "step_ok st s (at_sweeper j (Sweeping keys) ?w s)"
    proof (rule step_ok_sweeper [OF assms(1) u(1-3) u(7)])
      show "keys_ok (file_keys ?w) (pending_keys ?w) (dom (wd_s3 ?w)) (sy_used s) (prepared_keys s)
         (cleaning_keys s) (swept_keys (at_sweeper j (Sweeping keys) ?w s)) (gone_keys (at_sweeper j (Sweeping keys) ?w s))"
        unfolding u(4-6) using sweeper_sets [OF sets(1), of ?w] sets(2)
        by (intro keys_ok_untrack [OF inv(3) [unfolded keys_inv_def] k(1) _ _ _ _ gone_swept]) auto
    qed
    with 2 show ?thesis by simp
  qed
qed

lemma sys_step_ok:
  assumes "wf_store st" "sys_inv st s" "sys_step st s s'"
  shows "step_ok st s s'"
  using assms(3)
proof cases
  case (refuse i c e)
  then show ?thesis using step_ok_writer [OF assms(2)] by (simp add: writer_ok_def)
next
  case (prepare i c m b us k db)
  then show ?thesis using step_ok_prepare [OF assms(2) _ PartitionKeyValues_len] by blast
next
  case (transact i c m b us k r put w)
  then show ?thesis using step_ok_transact [OF assms(1,2) transact(2,3)] by simp
next
  case (transact_failed i c m b us k e put w)
  then show ?thesis using step_ok_transact [OF assms(1,2) transact_failed(2,3)] by simp
next
  case (clean i c e put k w)
  then show ?thesis using step_ok_clean [OF assms(2) clean(2,3)] by simp
next
  case (resolve i c e)
  have "writer_ok st (sy_world s) (Answered (translateWriteTxErr st (cl_env c) e (cl_key c) (cl_token c) (wd_db (sy_world s))))"
    by (auto simp: writer_ok_def translateWriteTxErr_def file_keys_def has_row_def dest!: lookup_ref_row intro: rev_image_eqI [OF _ sym]
        split: tx_error.split sum.split option.split)
  then show ?thesis using resolve step_ok_writer [OF assms(2)] by simp
next
  case (again i res)
  then show ?thesis using step_ok_writer [OF assms(2)] by (simp add: writer_ok_def)
next
  case (seq_pass cfg env res db)
  then show ?thesis using step_ok_seq [OF assms(2)] by simp
next
  case (gc_scan j env cutoff lim keys)
  then show ?thesis using step_ok_sweeper_still [OF assms(2) _ _ scanned_not_prepared [OF assms(2) gc_scan(3,4)]] by simp
next
  case (gc_object_kept j k keys)
  then show ?thesis using step_ok_sweeper_still [OF assms(2), of "Sweeping keys" j "{}"] by auto
next
  case (gc_object_lost j k keys)
  then show ?thesis using step_ok_object [OF assms(2)] by blast
next
  case (gc_object j k keys)
  then show ?thesis using step_ok_object [OF assms(2)] by blast
next
  case (gc_row j k keys fail commit)
  then show ?thesis using step_ok_row [OF assms(2)] by simp
next
  case (gc_stop j keys)
  then show ?thesis using step_ok_sweeper_still [OF assms(2), of Sweep_idle j "{}"] by simp
qed

section \<open>The executable operations are runs\<close>

text \<open>\<open>write_fresh\<close> with nobody in between is a run of its writer's steps, one interleaving among all.\<close>

lemma write_fresh_call:
  assumes "prepare_write st (cl_env c) (cl_key c) (cl_recs c) w = Inr (m, b, us, k, db)" "\<And>n w. e_others (cl_env c) n w = w"
  shows "call_tx st c m b us k (w\<lparr>wd_db := db\<rparr>) = (Inr r, put, w2) \<Longrightarrow>
      write_fresh st (cl_env c) (cl_o1 c) (cl_key c) (cl_vals c) (cl_token c) (cl_recs c) w = (Inr (call_ref c b us k r), w2)"
    "call_tx st c m b us k (w\<lparr>wd_db := db\<rparr>) = (Inl e, put, w2) \<Longrightarrow>
      w3 = (if put \<or> e_pending_cleanup (cl_env c) \<noteq> None then w2 else w2\<lparr>wd_db := sql_pending_delete k (wd_db w2)\<rparr>) \<Longrightarrow>
      write_fresh st (cl_env c) (cl_o1 c) (cl_key c) (cl_vals c) (cl_token c) (cl_recs c) w
        = (translateWriteTxErr st (cl_env c) e (cl_key c) (cl_token c) (wd_db w3), w3)"
  using assms by (cases r; simp add: write_fresh_def call_tx_def call_ref_def Let_def)+

lemma four_steps: "R a b \<Longrightarrow> R b c \<Longrightarrow> R c d \<Longrightarrow> R d e \<Longrightarrow> R\<^sup>*\<^sup>* a e"
  by (meson converse_rtranclp_into_rtranclp r_into_rtranclp)

lemma write_fresh_run:
  fixes c :: "'r call"
  assumes "write_fresh st (cl_env c) (cl_o1 c) (cl_key c) (cl_vals c) (cl_token c) (cl_recs c) (sy_world s) = (res, w')"
    and idle: "sy_writers s i = Idle_writer" and vals: "PartitionKeyValues (cl_key c) (st_parts st) = Inr (cl_vals c)"
    and quiet: "\<And>n w. e_others (cl_env c) n w = w"
    and fresh: "\<And>m b us k db. prepare_write st (cl_env c) (cl_key c) (cl_recs c) (sy_world s) = Inr (m, b, us, k, db) \<Longrightarrow> k \<notin> sy_used s"
  shows "\<exists>s'. (sys_step st)\<^sup>*\<^sup>* s s' \<and> sy_world s' = w' \<and> sy_writers s' i = Answered res
    \<and> (sy_calls s' = sy_calls s \<or> (\<exists>m b us k db. prepare_write st (cl_env c) (cl_key c) (cl_recs c) (sy_world s) = Inr (m, b, us, k, db)
          \<and> sy_calls s' = (sy_calls s)(k \<mapsto> c)))"
proof (cases "prepare_write st (cl_env c) (cl_key c) (cl_recs c) (sy_world s)")
  case (Inl e)
  with assms(1) have "res = Inl e" "w' = sy_world s" by (simp_all add: write_fresh_def)
  with refuse [OF idle Inl] show ?thesis
    by (intro exI [of _ "at_writer i (Answered (Inl e)) (sy_world s) s"]) (simp add: at_writer_def)
next
  case (Inr p)
  then obtain m b us k db where p: "prepare_write st (cl_env c) (cl_key c) (cl_recs c) (sy_world s) = Inr (m, b, us, k, db)"
    by (cases p) auto
  let ?w1 = "(sy_world s)\<lparr>wd_db := db\<rparr>"
  let ?s1 = "at_writer i (Prepared c m b us k) ?w1 (took_key k c s)"
  have step1: "sys_step st s ?s1" by (rule prepare [OF idle vals p fresh [OF p]])
  have pc1: "sy_writers ?s1 i = Prepared c m b us k" "sy_world ?s1 = ?w1" by (simp_all add: at_writer_def)
  obtain r put w2 where tx: "call_tx st c m b us k ?w1 = (r, put, w2)" by (cases "call_tx st c m b us k ?w1") auto
  show ?thesis
  proof (cases r)
    case (Inr v)
    let ?s2 = "at_writer i (Answered (Inr (call_ref c b us k v))) w2 ?s1"
    have "sys_step st ?s1 ?s2" using transact [OF pc1(1)] tx pc1(2) Inr by simp
    moreover have "res = Inr (call_ref c b us k v)" "w' = w2"
      using assms(1) write_fresh_call(1) [OF p quiet] tx Inr by simp_all
    ultimately show ?thesis using step1 by (intro exI [of _ ?s2]) (simp add: at_writer_def took_key_def p)
  next
    case (Inl e)
    define w3 where w3: "w3 = (if put \<or> e_pending_cleanup (cl_env c) \<noteq> None then w2
      else w2\<lparr>wd_db := sql_pending_delete k (wd_db w2)\<rparr>)"
    define pc4 :: "'r writer" where "pc4 = Answered (translateWriteTxErr st (cl_env c) e (cl_key c) (cl_token c) (wd_db w3))"
    let ?s2 = "at_writer i (Unresolved c e put k) w2 ?s1"
    let ?s3 = "at_writer i (Resolving c e) w3 ?s2"
    have step2: "sys_step st ?s1 ?s2" using transact_failed [OF pc1(1)] tx pc1(2) Inl by simp
    have at2: "sy_writers ?s2 i = Unresolved c e put k" "sy_world ?s2 = w2" by (simp_all add: at_writer_def)
    have step3: "sys_step st ?s2 ?s3" by (rule clean [OF at2(1)]) (simp only: at2(2) w3)
    have step4: "sys_step st ?s3 (at_writer i pc4 w3 ?s3)"
      using resolve [of ?s3 i c e st] by (simp add: at_writer_def pc4_def)
    have "(res, w') = (translateWriteTxErr st (cl_env c) e (cl_key c) (cl_token c) (wd_db w3), w3)"
      by (rule trans [OF sym [OF assms(1)] write_fresh_call(2) [OF p quiet tx [unfolded Inl] w3]])
    then have "pc4 = Answered res" "w' = w3" by (simp_all add: pc4_def)
    with four_steps [of "sys_step st", OF step1 step2 step3 step4] show ?thesis
      by (intro exI [of _ "at_writer i pc4 w3 ?s3"]) (simp add: at_writer_def took_key_def p)
  qed
qed

text \<open>And so is a sweep, once its scan is done.\<close>

lemma reclaim_loop_run:
  assumes "reclaim_loop env n keys acc (sy_world s) = (out, w')" "sy_sweepers s j = Sweeping keys"
    and quiet: "\<And>n w. g_others env n w = w"
  shows "\<exists>s'. (sys_step st)\<^sup>*\<^sup>* s s' \<and> sy_world s' = w' \<and> sy_sweepers s' j = Sweep_idle \<and> sy_writers s' = sy_writers s"
  using assms(1,2)
proof (induction keys arbitrary: n acc s)
  case Nil
  then show ?case using gc_stop [of s j "[]" st] by (intro exI [of _ "at_sweeper j Sweep_idle (sy_world s) s"]) (simp add: at_sweeper_def)
next
  case (Cons k keys)
  let ?gone = "(sy_world s)\<lparr>wd_s3 := (wd_s3 (sy_world s))(k := None)\<rparr>"
  show ?case
  proof (cases "g_ctx env n")
    case (Some e)
    with Cons.prems gc_stop [of s j "k # keys" st] show ?thesis
      by (intro exI [of _ "at_sweeper j Sweep_idle (sy_world s) s"]) (simp add: at_sweeper_def)
  next
    case None
    obtain err w1 where one: "reclaimOne env n k (sy_world s) = (err, w1)" by (cases "reclaimOne env n k (sy_world s)")
    have "\<exists>s1. (sys_step st)\<^sup>*\<^sup>* s s1 \<and> sy_world s1 = w1 \<and> sy_sweepers s1 j = Sweeping keys \<and> sy_writers s1 = sy_writers s"
    proof (cases "g_delete_object env n")
      case (Del_kept e)
      with one gc_object_kept [OF Cons.prems(2), of st] show ?thesis
        by (intro exI [of _ "at_sweeper j (Sweeping keys) (sy_world s) s"]) (auto simp: reclaimOne_def quiet at_sweeper_def Let_def)
    next
      case (Del_gone e)
      with one gc_object_lost [OF Cons.prems(2), of st] show ?thesis
        by (intro exI [of _ "at_sweeper j (Sweeping keys) ?gone s"]) (auto simp: reclaimOne_def quiet at_sweeper_def Let_def)
    next
      case Del_ok
      let ?s1 = "at_sweeper j (Object_gone k keys) ?gone s"
      let ?s2 = "at_sweeper j (Sweeping keys) (snd (delete_row (g_delete_row env n) (g_row_commit env n) k (sy_world ?s1))) ?s1"
      have "sys_step st ?s1 ?s2" by (rule gc_row) (simp add: at_sweeper_def)
      with Del_ok one gc_object [OF Cons.prems(2), of st] show ?thesis
        by (intro exI [of _ ?s2]) (auto simp: reclaimOne_def quiet at_sweeper_def Let_def)
    qed
    then obtain s1 where s1: "(sys_step st)\<^sup>*\<^sup>* s s1" "sy_world s1 = w1" "sy_sweepers s1 j = Sweeping keys" "sy_writers s1 = sy_writers s" by blast
    have "\<exists>n acc. reclaim_loop env n keys acc (sy_world s1) = (out, w')"
      using Cons.prems(1) None one s1(2) by (auto split: option.splits)
    then obtain s2 where "(sys_step st)\<^sup>*\<^sup>* s1 s2" "sy_world s2 = w'" "sy_sweepers s2 j = Sweep_idle" "sy_writers s2 = sy_writers s1"
      using Cons.IH s1(3) by blast
    with s1 show ?thesis by (intro exI [of _ s2]) (auto intro: rtranclp_trans)
  qed
qed

lemma sweep_run:
  assumes "gc_runOnceWithMetrics r env (sy_world s) = (out, w')" "sy_sweepers s j = Sweep_idle"
    and "in_grace (g_now env - gc_grace r) s" and quiet: "\<And>n w. g_others env n w = w"
  shows "\<exists>s'. (sys_step st)\<^sup>*\<^sup>* s s' \<and> sy_world s' = w' \<and> sy_sweepers s' j = Sweep_idle \<and> sy_writers s' = sy_writers s"
proof (cases "scanPending env (g_now env - gc_grace r) (gc_batch_size r) (wd_db (sy_world s))")
  case (Inl e)
  with assms(1,2) show ?thesis by (intro exI [of _ s]) (simp add: gc_runOnceWithMetrics_def quiet)
next
  case (Inr keys)
  let ?s1 = "at_sweeper j (Sweeping keys) (sy_world s) s"
  have "sys_step st s ?s1" by (rule gc_scan [OF assms(2) Inr assms(3)])
  moreover have "reclaim_loop env 0 keys 0 (sy_world ?s1) = (out, w')" "sy_sweepers ?s1 j = Sweeping keys" "sy_writers ?s1 = sy_writers s"
    using assms(1) Inr by (simp_all add: gc_runOnceWithMetrics_def quiet at_sweeper_def)
  moreover obtain s' where "(sys_step st)\<^sup>*\<^sup>* ?s1 s' \<and> sy_world s' = w' \<and> sy_sweepers s' j = Sweep_idle \<and> sy_writers s' = sy_writers ?s1"
    using reclaim_loop_run [OF calculation(2,3) quiet] by blast
  ultimately show ?thesis by (intro exI [of _ s']) (auto intro: converse_rtranclp_into_rtranclp)
qed

section \<open>The system is safe\<close>

definition start_of :: "world \<Rightarrow> 'r system" where
  "start_of w = \<lparr>sy_world = w, sy_writers = (\<lambda>_. Idle_writer), sy_sweepers = (\<lambda>_. Sweep_idle),
     sy_used = file_keys w \<union> pending_keys w, sy_calls = (\<lambda>_. None)\<rparr>"

lemma start_inv:
  assumes "world_ok w" "gap_free (wd_db w)" "file_keys w \<inter> pending_keys w = {}"
  shows "sys_inv st (start_of w)"
  using assms
  by (auto simp: sys_inv_def start_of_def keys_inv_def keys_ok_def writers_inv_def writer_ok_def prepared_keys_def
      cleaning_keys_def swept_keys_def gone_keys_def)

lemma sys_steps_ok:
  assumes "wf_store st" "sys_inv st s0" "(sys_step st)\<^sup>*\<^sup>* s0 s"
  shows "sys_inv st s \<and> durable (sy_world s0) (sy_world s)"
  using assms(3)
proof (induction rule: rtranclp_induct)
  case base
  with assms(2) show ?case by simp
next
  case (step s s')
  then show ?case using sys_step_ok [OF assms(1) _ step(2)] durable_trans by (auto simp: step_ok_def)
qed

text \<open>The invariant rule of the runs: a second invariant may lean on \<open>sys_inv\<close>.\<close>

lemma sys_run_inv [consumes 3, case_names start step]:
  assumes "wf_store st" "sys_inv st s0" "(sys_step st)\<^sup>*\<^sup>* s0 s" "P s0"
    and "\<And>s s'. sys_inv st s \<Longrightarrow> sys_step st s s' \<Longrightarrow> P s \<Longrightarrow> P s'"
  shows "P s"
  using assms(3)
proof (induction rule: rtranclp_induct)
  case base
  show ?case by (rule assms(4))
next
  case (step s s')
  then show ?case using sys_steps_ok [OF assms(1,2) step(1)] assms(5) by blast
qed

lemma answered_there:
  assumes "sys_inv st s" "sy_writers s i = Answered (Inr ref)"
  shows "S3Key ref \<in> file_keys (sy_world s)"
proof -
  have "writer_ok st (sy_world s) (sy_writers s i)" using sys_invD(4) [OF assms(1)] unfolding writers_inv_def by blast
  then show ?thesis by (simp add: assms(2) writer_ok_def)
qed

text \<open>C2.  Any number of writers, sequencers and orphan sweepers work on one store, and their transactions interleave in any way; every
  transaction, commit, PUT, clean-up and DELETE can fail in every way its model allows, a lost reply to a COMMIT included.  As long
  as data keys are new (the UUID) and no sweep looks back to before the start of a write still under way (the grace period), then at
  every moment: each catalog row has its object, each object is named by a row or by a tracking row, versions are gapless in every
  partition and feed numbers gapless overall; each file a writer was told of is in the catalog; and whatever is committed at one
  moment is still there at every later one, its object untouched and its row changed by nothing but its first feed number.
\<close>

theorem system_safe:
  assumes "wf_store st" "world_ok w" "gap_free (wd_db w)" "file_keys w \<inter> pending_keys w = {}"
    and "(sys_step st)\<^sup>*\<^sup>* (start_of w) s" "(sys_step st)\<^sup>*\<^sup>* s s'"
  shows "world_ok (sy_world s) \<and> gap_free (wd_db (sy_world s)) \<and> durable (sy_world s) (sy_world s')
    \<and> (\<forall>i ref. sy_writers s i = Answered (Inr ref) \<longrightarrow> S3Key ref \<in> file_keys (sy_world s))"
proof -
  have inv: "sys_inv st s" using sys_steps_ok [OF assms(1) start_inv [OF assms(2-4)] assms(5)] by blast
  have "durable (sy_world s) (sy_world s')" using sys_steps_ok [OF assms(1) inv assms(6)] by blast
  moreover have "S3Key ref \<in> file_keys (sy_world s)" if "sy_writers s i = Answered (Inr ref)" for i ref
    using answered_there [OF inv that] .
  ultimately show ?thesis using sys_invD(1,2) [OF inv] by blast
qed

text \<open>A sweep and a sequencer pass overlap a write: the sweep looks between the tracking row and the transaction.\<close>

definition demo_call :: "string call" where
  "demo_call = \<lparr>cl_env = quiet_env ''u'', cl_o1 = no_opts, cl_key = ''p=x'', cl_vals = [''x''], cl_token = [], cl_recs = [''x'']\<rparr>"

definition demo_tracked :: world where
  "demo_tracked = empty_world\<lparr>wd_db := (wd_db empty_world)\<lparr>c_pending := [\<lparr>w_s3_key = dataKey demo_store ''p=x'' ''u'', w_intended_at = 5\<rparr>]\<rparr>\<rparr>"

lemma demo_call_prepared:
  "prepare_write demo_store (cl_env demo_call) (cl_key demo_call) (cl_recs demo_call) empty_world
     = Inr ([], ''PAR1'', 10, dataKey demo_store ''p=x'' ''u'', wd_db demo_tracked)"
  by (simp add: prepare_write_def demo_call_def quiet_env_def demo_store_def resolveMVRows_def sql_pending_insert_def
      empty_world_def demo_tracked_def)

lemma demo_call_tx:
  "\<exists>r put w. call_tx demo_store demo_call [] ''PAR1'' 10 (dataKey demo_store ''p=x'' ''u'') demo_tracked = (Inr r, put, w)"
proof -
  have "\<not> isl (fst (call_tx demo_store demo_call [] ''PAR1'' 10 (dataKey demo_store ''p=x'' ''u'') demo_tracked))"
    by code_simp
  then show ?thesis by (metis prod.collapse sum.collapse(2))
qed

theorem system_safe_witness:
  "\<exists>s s' ref. (sys_step demo_store)\<^sup>*\<^sup>* (start_of empty_world) s \<and> (sys_step demo_store)\<^sup>*\<^sup>* s s'
     \<and> sy_sweepers s 0 = Sweeping [] \<and> sy_writers s 0 = Answered (Inr ref) \<and> S3Key ref \<in> file_keys (sy_world s)
     \<and> world_ok (sy_world s) \<and> gap_free (wd_db (sy_world s)) \<and> durable (sy_world s) (sy_world s')"
proof -
  let ?k = "dataKey demo_store ''p=x'' ''u''"
  let ?s0 = "start_of empty_world :: string system"
  let ?s1 = "at_writer 0 (Prepared demo_call [] ''PAR1'' 10 ?k) demo_tracked (took_key ?k demo_call ?s0)"
  let ?s2 = "at_sweeper 0 (Sweeping []) demo_tracked ?s1"
  obtain r put w where tx: "call_tx demo_store demo_call [] ''PAR1'' 10 ?k demo_tracked = (Inr r, put, w)" using demo_call_tx by blast
  let ?ref = "call_ref demo_call ''PAR1'' 10 ?k r"
  let ?s3 = "at_writer 0 (Answered (Inr ?ref)) w ?s2"
  let ?db = "snd (runOnceWithMetrics demo_seq quiet_seq (wd_db w))"
  let ?s4 = "?s3\<lparr>sy_world := w\<lparr>wd_db := ?db\<rparr>\<rparr>"
  have w0: "(empty_world :: world)\<lparr>wd_db := wd_db demo_tracked\<rparr> = demo_tracked" by (simp add: demo_tracked_def)
  have s0: "sy_world ?s0 = empty_world" by (simp add: start_of_def)
  have "sys_step demo_store ?s0 (at_writer 0 (Prepared demo_call [] ''PAR1'' 10 ?k) ((sy_world ?s0)\<lparr>wd_db := wd_db demo_tracked\<rparr>)
      (took_key ?k demo_call ?s0))"
  proof (rule prepare)
    show "prepare_write demo_store (cl_env demo_call) (cl_key demo_call) (cl_recs demo_call) (sy_world ?s0)
      = Inr ([], ''PAR1'', 10, ?k, wd_db demo_tracked)" unfolding s0 by (rule demo_call_prepared)
    show "PartitionKeyValues (cl_key demo_call) (st_parts demo_store) = Inr (cl_vals demo_call)" by code_simp
  qed (simp_all add: start_of_def file_keys_def pending_keys_def empty_world_def)
  then have 1: "sys_step demo_store ?s0 ?s1" unfolding s0 w0 .
  have 2: "sys_step demo_store ?s1 ?s2"
    using gc_scan [of ?s1 0 "quiet_gc 5" 5 10 "[]" demo_store]
    by (simp add: at_writer_def took_key_def start_of_def in_grace_def demo_call_def quiet_env_def quiet_gc_def scanPending_def sql_pending_scan_def
        demo_tracked_def)
  have 3: "sys_step demo_store ?s2 ?s3" using transact [of ?s2 0 demo_call] tx by (simp add: at_writer_def at_sweeper_def)
  have 4: "sys_step demo_store ?s3 ?s4"
    using seq_pass [of demo_seq quiet_seq ?s3 _ ?db demo_store] by (simp add: at_writer_def quiet_seq_def prod_eq_iff)
  have reach: "(sys_step demo_store)\<^sup>*\<^sup>* ?s0 ?s3" "(sys_step demo_store)\<^sup>*\<^sup>* ?s3 ?s4" using 1 2 3 4 by auto
  have start: "world_ok empty_world" "gap_free (wd_db empty_world)" "file_keys empty_world \<inter> pending_keys empty_world = {}"
    using empty_world_ok by (simp_all add: empty_world_def gap_free_def file_keys_def)
  have pcs: "sy_sweepers ?s3 0 = Sweeping []" "sy_writers ?s3 0 = Answered (Inr ?ref)" by (simp_all add: at_writer_def at_sweeper_def)
  from system_safe [OF demo_wf start reach] pcs reach show ?thesis by blast
qed

end
