(* ===== verification/System_Read.thy ===== *)
theory System_Read
  imports System_Safe
begin

text \<open>
  Reads while the system of \<open>System_Safe\<close> runs.  A read takes the rows of one moment and fetches each object at a later one;
  meanwhile writers, sequencers and sweepers go on.  It still returns what a read of the first moment alone would: what the
  calls up to then wrote.  \<open>log\<close> is that of \<open>Write_Read\<close>, the partition and the records behind each data key.
\<close>

section \<open>The contents of the bucket in a running system\<close>

text \<open>A writer before its transaction carries the body of its own call.\<close>

definition call_inv :: "'r store \<Rightarrow> 'r system \<Rightarrow> bool" where
  "call_inv st s \<longleftrightarrow> dom (sy_calls s) \<subseteq> sy_used s \<and> (\<forall>i c m b us k. sy_writers s i = Prepared c m b us k \<longrightarrow>
     sy_calls s k = Some c \<and> e_encode (cl_env c) (cl_recs c) = Inr (b, us) \<and> PartitionKeyValues (cl_key c) (st_parts st) = Inr (cl_vals c))"

text \<open>The log tells what the calls wrote, and the decoder inverts their encoders.\<close>

definition calls_logged :: "(string \<Rightarrow> string + 'r list) \<Rightarrow> 'r log \<Rightarrow> 'r system \<Rightarrow> bool" where
  "calls_logged rd log s \<longleftrightarrow> (\<forall>k c. sy_calls s k = Some c \<longrightarrow>
     log k = Some (cl_key c, cl_recs c) \<and> (\<forall>b us. e_encode (cl_env c) (cl_recs c) = Inr (b, us) \<longrightarrow> rd b = Inr (cl_recs c)))"

lemma sy_calls_at [simp]:
  "sy_calls (at_writer i pc w s) = sy_calls s" "sy_calls (at_sweeper j sp w s) = sy_calls s"
  "sy_calls (took_key k c s) = (sy_calls s)(k \<mapsto> c)" "sy_used (took_key k c s) = insert k (sy_used s)"
  "sy_used (at_writer i pc w s) = sy_used s" "sy_used (at_sweeper j sp w s) = sy_used s"
  by (simp_all add: at_writer_def at_sweeper_def took_key_def)

lemma sy_writers_at [simp]:
  "sy_writers (at_writer i pc w s) = (sy_writers s)(i := pc)" "sy_writers (at_sweeper j sp w s) = sy_writers s"
  "sy_writers (took_key k c s) = sy_writers s"
  by (simp_all add: at_writer_def at_sweeper_def took_key_def)

lemma calls_new: "sys_inv st s \<Longrightarrow> sy_writers s i = Prepared c m b us k \<Longrightarrow> k \<in> sy_used s"
  using prepared_alone(1) [of st s i] sys_invD(3) [of st s] unfolding keys_inv_def keys_ok_def by blast

lemma call_inv_same:
  assumes "call_inv st s" "sy_calls s' = sy_calls s" "sy_used s' = sy_used s"
    "\<And>i. prepared_key (sy_writers s' i) = {} \<or> sy_writers s' i = sy_writers s i"
  shows "call_inv st s'"
proof -
  have "sy_writers s i = Prepared c m b us k" if "sy_writers s' i = Prepared c m b us k" for i c m b us k
    using assms(4) [of i] that by auto
  then show ?thesis using assms(1) unfolding call_inv_def assms(2,3) by blast
qed

lemma call_inv_at:
  "call_inv st s \<Longrightarrow> prepared_key pc = {} \<Longrightarrow> call_inv st (at_writer i pc w s)"
  "call_inv st s \<Longrightarrow> call_inv st (at_sweeper j sp w s)" "call_inv st s \<Longrightarrow> call_inv st (s\<lparr>sy_world := w\<rparr>)"
  by (erule call_inv_same; simp)+

lemma call_inv_step:
  assumes "sys_inv st s" "call_inv st s" "sys_step st s s'"
  shows "call_inv st s' \<and> sy_calls s \<subseteq>\<^sub>m sy_calls s'"
  using assms(3)
proof cases
  case (prepare i c m b us k db)
  have fresh: "k' \<noteq> k" if "sy_writers s i' = Prepared c' m' b' us' k'" for i' c' m' b' us' k'
    using calls_new [OF assms(1) that] prepare(5) by blast
  have "call_inv st s'"
    using assms(2) prepare(1,3) prepare_encodes [OF prepare(4)] fresh unfolding call_inv_def by (auto split: if_splits)
  moreover have "k \<notin> dom (sy_calls s)" using assms(2) prepare(5) by (auto simp: call_inv_def)
  ultimately show ?thesis using prepare(1) by (auto simp: map_le_def)
qed (use assms(2) in \<open>simp_all add: call_inv_at\<close>)

section \<open>Every step keeps the contents\<close>

lemma holds_log_unnumbered: "unnumbered r = unnumbered r' \<Longrightarrow> holds_log st rd log obj r = holds_log st rd log obj r'"
  by (cases r; cases r') (simp add: unnumbered_def holds_log_def)

lemma backed_durable:
  assumes "backed P w" "durable w w'" "c_files (wd_db w') = c_files (wd_db w)"
  shows "backed P w'"
  using assms(1,3)
proof (rule backed_frame)
  show "wd_s3 w' k = wd_s3 w k" if "k \<in> file_keys w" for k
    using assms(2) that by (auto simp: file_keys_def elim: durable_row)
qed

lemma backed_renumbered:
  assumes "backed (holds_log st rd log) w" "map unnumbered (c_files (wd_db w')) = map unnumbered (c_files (wd_db w))" "wd_s3 w' = wd_s3 w"
  shows "backed (holds_log st rd log) w'"
  unfolding backed_def assms(3)
proof
  fix r assume "r \<in> set (c_files (wd_db w'))"
  then obtain r0 where r0: "r0 \<in> set (c_files (wd_db w))" "unnumbered r = unnumbered r0" using same_rows(4) [OF assms(2)] by blast
  with assms(1) show "\<exists>obj. wd_s3 w (f_s3_key r) = Some obj \<and> holds_log st rd log obj r"
    unfolding backed_def using unnumbered_eq [OF r0(2)] holds_log_unnumbered [OF r0(2)] by metis
qed

lemma backed_call_tx:
  assumes "wf_store st" "sys_inv st s" "call_inv st s" "calls_logged rd log s" "backed (holds_log st rd log) (sy_world s)"
    and pc: "sy_writers s i = Prepared c m b us k" and tx: "call_tx st c m b us k (sy_world s) = (res, put, w)"
  shows "backed (holds_log st rd log) w"
proof -
  note p = prepared_alone [OF assms(2) pc] and inv = sys_invD [OF assms(2)]
  have call: "sy_calls s k = Some c" "e_encode (cl_env c) (cl_recs c) = Inr (b, us)" "PartitionKeyValues (cl_key c) (st_parts st) = Inr (cl_vals c)"
    using assms(3) pc unfolding call_inv_def by blast+
  have log: "log k = Some (cl_key c, cl_recs c)" "rd b = Inr (cl_recs c)" using assms(4) call(1,2) unfolding calls_logged_def by blast+
  from assms(1) p(4) tx inv(1) p(5,6) show ?thesis
  proof (cases rule: call_tx_effect)
    case rolled
    show ?thesis using rolled(4) p(7) by (intro backed_frame [OF assms(5) rolled(2)]) auto
  next
    case (committed r obj)
    have "holds_log st rd log obj r" using committed log call(3) by (simp add: holds_log_def)
    then show ?thesis by (rule backed_commit [OF assms(5) p(7) committed(2,3,9)])
  qed
qed

text \<open>The files table changes in a write transaction and in a sequencer pass only.\<close>

lemma catalog_step:
  assumes "sys_step st s s'"
  obtains (still) "c_files (wd_db (sy_world s')) = c_files (wd_db (sy_world s))"
    | (tx) i c m b us k res put where "sy_writers s i = Prepared c m b us k" "call_tx st c m b us k (sy_world s) = (res, put, sy_world s')"
    | (pass) cfg env res db where "runOnceWithMetrics cfg env (wd_db (sy_world s)) = (res, db)" "\<forall>d. q_others env d = d"
        "sy_world s' = (sy_world s)\<lparr>wd_db := db\<rparr>"
  using assms
proof cases
  case (transact i c m b us k r put w)
  then show ?thesis using tx [OF transact(2)] by (simp add: keys_at_writer)
next
  case (transact_failed i c m b us k e put w)
  then show ?thesis using tx [OF transact_failed(2)] by (simp add: keys_at_writer)
next
  case (seq_pass cfg env res db)
  then show ?thesis using pass [OF seq_pass(2,3)] by simp
next
  case (prepare i c m b us k db)
  have "sql_pending_insert (e_now (cl_env c)) k (wd_db (sy_world s)) = Inr db" using prepare(4) by (rule prepare_write_Inr) simp
  then have "c_files db = c_files (wd_db (sy_world s))" by (auto simp: sql_pending_insert_def split: if_splits)
  then show ?thesis using still prepare(1) by (simp add: keys_at_writer)
next
  case (gc_row j k keys fail commit)
  have "c_files (wd_db (snd (delete_row fail commit k (sy_world s)))) = c_files (wd_db (sy_world s))"
    by (simp add: delete_row_def sql_pending_delete_def Let_def split: option.split commit_outcome.split)
  then show ?thesis using still gc_row(1) by (simp add: keys_at_sweeper)
qed (use still in \<open>simp_all add: keys_at_writer keys_at_sweeper sql_pending_delete_def\<close>)

lemma log_step:
  assumes "wf_store st" "sys_inv st s" "call_inv st s" "calls_logged rd log s" "log_ok st rd log (sy_world s)" "sys_step st s s'"
  shows "log_ok st rd log (sy_world s')"
proof -
  have b: "backed (holds_log st rd log) (sy_world s)" using assms(5) by (simp add: log_ok_def)
  have ok: "world_ok (sy_world s')" "durable (sy_world s) (sy_world s')"
    using sys_step_ok [OF assms(1,2,6)] by (simp_all add: step_ok_def sys_inv_def)
  from assms(6) have "backed (holds_log st rd log) (sy_world s')"
  proof (cases rule: catalog_step)
    case still
    then show ?thesis by (rule backed_durable [OF b ok(2)])
  next
    case (tx i c m b' us k res put)
    then show ?thesis using backed_call_tx [OF assms(1-4) b] by blast
  next
    case (pass cfg env res db)
    then have "map unnumbered (c_files (wd_db (sy_world s'))) = map unnumbered (c_files (wd_db (sy_world s)))"
      using pass_rows [OF pass(1)] by simp
    then show ?thesis using backed_renumbered [OF b] pass(3) by simp
  qed
  with ok show ?thesis by (simp add: log_ok_def)
qed

lemma calls_logged_mono: "calls_logged rd log s' \<Longrightarrow> sy_calls s \<subseteq>\<^sub>m sy_calls s' \<Longrightarrow> calls_logged rd log s"
  unfolding calls_logged_def map_le_def by (metis domI)

lemma sys_steps_logged:
  assumes "wf_store st" "sys_inv st s0" "call_inv st s0" "log_ok st rd log (sy_world s0)" "(sys_step st)\<^sup>*\<^sup>* s0 s" "calls_logged rd log s"
  shows "log_ok st rd log (sy_world s)"
proof -
  from assms(1,2,5) have "call_inv st s \<and> (calls_logged rd log s \<longrightarrow> log_ok st rd log (sy_world s))"
  proof (induction rule: sys_run_inv)
    case start
    with assms(3,4) show ?case by blast
  next
    case (step s s')
    then show ?case using call_inv_step [OF step(1)] log_step [OF assms(1) step(1)] calls_logged_mono by blast
  qed
  with assms(6) show ?thesis by blast
qed

section \<open>A read while the system runs\<close>

text \<open>C3.  Reads are snapshots.  Let writers, sequencers and sweepers run in any interleaving, and let a \<open>ReadPartition\<close> select its
  rows at one moment and fetch each object at a moment of its own later on.  Then every object it needs is there; and if it
  returns without an error, it has, for every file that was in the catalog at the first moment and whose partition the filters select
  (the files of all writers that had returned among them), each record of the call that made it or a record of the same entity that is
  no older, and no record but those of such calls.
  Assumed is that no GET of the read fails with a context error of its own
  while its context lives, such as a transport timeout: the code would then leave the records of that file out and report
  no error (\<open>read_timeout_partial\<close>).  Further, the read has a filter and its pool a worker; the server evaluates the
  \<open>WHERE\<close> clause as PostgreSQL does; the decoder gives back what a call's encoder was given; and the system starts from a catalog
  whose files are all there, with the records the log has for them, whose feed has no gap, and where no file is tracked as pending.\<close>

theorem system_reads:
  assumes "wf_store st" "log_ok st rd log w" "gap_free (wd_db w)" "file_keys w \<inter> pending_keys w = {}"
    and "(sys_step st)\<^sup>*\<^sup>* (start_of w) s" "calls_logged rd log s"
    and "\<And>k. (sys_step st)\<^sup>*\<^sup>* s (at k)" "\<And>k. ren_object env k = map_option so_body (wd_s3 (sy_world (at k)) k)"
    and "ren_decode env = rd" "0 < ren_pool env" "\<not> ren_timeouts env" "filters \<noteq> []"
    and "\<forall>f \<in> set filters. filter_cols f \<subseteq> set (st_parts st) \<and> ordered f" "server_evaluates server clt filters"
    and "ReadPartition st env server None (wd_db (sy_world s)) filters opts (ps, None)"
  shows "(\<forall>i ref. sy_writers s i = Answered (Inr ref) \<longrightarrow> S3Key ref \<in> file_keys (sy_world s))
    \<and> (\<forall>k \<in> file_keys (sy_world s). ren_object env k \<noteq> None \<and>
         (\<forall>key recs. log k = Some (key, recs) \<longrightarrow> key_matches st clt filters key \<longrightarrow>
           (\<exists>p \<in> set ps. pr_key p = key \<and> k \<in> S3Key ` set (pr_refs p)
              \<and> (\<forall>x \<in> set recs. survives st (ro_history (resolveIterOpts opts)) x (pr_records p)))))
    \<and> (\<forall>p \<in> set ps. \<forall>x \<in> set (pr_records p). \<exists>k \<in> file_keys (sy_world s). \<exists>recs. log k = Some (pr_key p, recs) \<and> x \<in> set recs)"
proof -
  have start: "sys_inv st (start_of w)" "call_inv st (start_of w)" "log_ok st rd log (sy_world (start_of w))"
    using start_inv [of w st] assms(2-4) by (simp_all add: log_ok_def call_inv_def start_of_def)
  have inv: "sys_inv st s" using sys_steps_ok [OF assms(1) start(1) assms(5)] by blast
  have ok: "log_ok st rd log (sy_world s)" using sys_steps_logged [OF assms(1) start assms(5,6)] .
  have same: "wd_s3 (sy_world (at k)) k = wd_s3 (sy_world s) k" if "k \<in> file_keys (sy_world s)" for k
    using sys_steps_ok [OF assms(1) inv assms(7) [of k]] that by (auto simp: file_keys_def elim: durable_row)
  then have reads: "reads_world env rd (sy_world s)" using assms(8,9) by (simp add: reads_world_def)
  have there: "ren_object env k \<noteq> None" if "k \<in> file_keys (sy_world s)" for k
    using ok that same [OF that] assms(8) [of k] by (auto simp: log_ok_def backed_def file_keys_def)
  have "S3Key ref \<in> file_keys (sy_world s)" if "sy_writers s i = Answered (Inr ref)" for i ref
    using answered_there [OF inv that] .
  with there read_of_log [OF ok reads assms(1) assms(10-15)] show ?thesis by blast
qed

text \<open>The object is fetched after a pass of the sequencer that came between.\<close>

definition round_call :: "string call" where
  "round_call = \<lparr>cl_env = round_env, cl_o1 = no_opts, cl_key = ''p=1'', cl_vals = [''1''], cl_token = [], cl_recs = [''r'']\<rparr>"

lemma round_call_world:
  "snd (write_fresh demo_store (cl_env round_call) (cl_o1 round_call) (cl_key round_call) (cl_vals round_call) (cl_token round_call)
     (cl_recs round_call) empty_world) = round_world"
proof -
  have "PartitionKeyValues ''p=1'' (st_parts demo_store) = Inr [''1'']" by code_simp
  moreover have "validateMetadata [] (st_exts demo_store) = Inr ()" by code_simp
  then have "resolveWriteOpts demo_store [] = Inr no_opts" by (simp add: resolveWriteOpts_def no_opts_def)
  moreover have "resolveTokenForPartition [''r''] no_opts = Inr []" by (simp add: resolveTokenForPartition_def no_opts_def)
  ultimately show ?thesis
    by (simp add: round_world_def round_job_def run_job_def WriteWithKey_def writePartition_def round_call_def split: prod.split)
qed

lemma round_prepared:
  assumes "prepare_write demo_store (cl_env round_call) (cl_key round_call) (cl_recs round_call) empty_world = Inr (m, b, us, k, db)"
  shows "k = ''data/p=1/u.parquet''"
proof -
  have "dataKey demo_store ''p=1'' ''u'' = ''data/p=1/u.parquet''" by code_simp
  with assms show ?thesis by (auto simp: prepare_write_def round_call_def round_env_def quiet_env_def split: sum.splits)
qed

lemma round_system:
  obtains s :: "string system" where "(sys_step demo_store)\<^sup>*\<^sup>* (start_of empty_world) s" "sy_world s = round_world"
    "calls_logged (\<lambda>b. Inr [b]) round_log s"
    "sys_step demo_store s (s\<lparr>sy_world := round_world\<lparr>wd_db := snd (runOnceWithMetrics demo_seq quiet_seq (wd_db round_world))\<rparr>\<rparr>)"
proof -
  let ?s0 = "start_of empty_world :: string system"
  obtain res where run: "write_fresh demo_store (cl_env round_call) (cl_o1 round_call) (cl_key round_call) (cl_vals round_call)
      (cl_token round_call) (cl_recs round_call) (sy_world ?s0) = (res, round_world)"
    using round_call_world by (metis prod.collapse start_of_def system.select_convs(1))
  have vals: "PartitionKeyValues (cl_key round_call) (st_parts demo_store) = Inr (cl_vals round_call)" by code_simp
  have sy0: "sy_world ?s0 = empty_world" "sy_calls ?s0 = (\<lambda>_. None)" "sy_writers ?s0 0 = Idle_writer" "sy_used ?s0 = {}"
    by (simp_all add: start_of_def file_keys_def pending_keys_def empty_world_def)
  obtain s where s: "(sys_step demo_store)\<^sup>*\<^sup>* ?s0 s" "sy_world s = round_world"
    "sy_calls s = sy_calls ?s0 \<or> (\<exists>m b us k db. prepare_write demo_store (cl_env round_call) (cl_key round_call) (cl_recs round_call) (sy_world ?s0)
        = Inr (m, b, us, k, db) \<and> sy_calls s = (sy_calls ?s0)(k \<mapsto> round_call))"
    using write_fresh_run [OF run sy0(3) vals] sy0(4) by (auto simp: round_call_def round_env_def quiet_env_def)
  then have "sy_calls s = (\<lambda>_. None) \<or> sy_calls s = [''data/p=1/u.parquet'' \<mapsto> round_call]" using round_prepared unfolding sy0(1,2) by blast
  then have logged: "calls_logged (\<lambda>b. Inr [b]) round_log s"
    by (auto simp: calls_logged_def round_log_def round_call_def round_env_def)
  have "sys_step demo_store s (s\<lparr>sy_world := (sy_world s)\<lparr>wd_db := snd (runOnceWithMetrics demo_seq quiet_seq (wd_db (sy_world s)))\<rparr>\<rparr>)"
    by (rule seq_pass [where cfg = demo_seq and env = quiet_seq]) (simp_all add: quiet_seq_def prod_eq_iff)
  with that s(1,2) logged show thesis by simp
qed

lemma round_start:
  "log_ok demo_store (\<lambda>b. Inr [b]) round_log empty_world" "world_ok empty_world" "gap_free (wd_db empty_world)"
  "file_keys empty_world \<inter> pending_keys empty_world = {}"
  using empty_world_ok by (simp_all add: log_ok_def backed_def empty_world_def gap_free_def file_keys_def)

theorem system_reads_witness:
  "\<exists>s s' :: string system. (sys_step demo_store)\<^sup>*\<^sup>* (start_of empty_world) s \<and> sys_step demo_store s s' \<and> sy_world s = round_world
     \<and> (\<exists>p \<in> {round_batch}. ''data/p=1/u.parquet'' \<in> S3Key ` set (pr_refs p) \<and> survives demo_store False ''r'' (pr_records p))"
proof -
  obtain s :: "string system" where s: "(sys_step demo_store)\<^sup>*\<^sup>* (start_of empty_world) s" "sy_world s = round_world"
    "calls_logged (\<lambda>b. Inr [b]) round_log s"
    "sys_step demo_store s (s\<lparr>sy_world := round_world\<lparr>wd_db := snd (runOnceWithMetrics demo_seq quiet_seq (wd_db round_world))\<rparr>\<rparr>)"
    (is "sys_step demo_store s ?s'") by (rule round_system)
  have later: "(sys_step demo_store)\<^sup>*\<^sup>* s ?s'" using s(4) by blast
  have fetch: "ren_object round_read k = map_option so_body (wd_s3 (sy_world ?s') k)" for k by (simp add: round_read_def)
  have env: "ren_decode round_read = (\<lambda>b. Inr [b])" "0 < ren_pool round_read" "\<not> ren_timeouts round_read" "[Eq ''p'' ''1''] \<noteq> []"
    by (simp_all add: round_read_def)
  have reads: "ReadPartition demo_store round_read demo_server None (wd_db (sy_world s)) [Eq ''p'' ''1''] round_opts ([round_batch], None)"
    using round_reads by (simp add: s(2))
  have key: "key_matches demo_store (<) [Eq ''p'' ''1''] ''p=1''" by code_simp
  have hist: "ro_history (resolveIterOpts round_opts) = False" by (simp add: resolveIterOpts_def round_opts_def)
  have mem: "''data/p=1/u.parquet'' \<in> file_keys (sy_world s)" unfolding s(2) file_keys_def by (subst round_files) (simp add: round_row)
  from system_reads [OF demo_wf round_start(1,3,4) s(1,3) later fetch env demo_filter demo_evaluates reads] mem key
  have "\<exists>p \<in> {round_batch}. ''data/p=1/u.parquet'' \<in> S3Key ` set (pr_refs p) \<and> survives demo_store False ''r'' (pr_records p)"
    by (auto simp: hist round_log_def)
  with s(1,2,4) show ?thesis by (intro exI [of _ s] exI [of _ ?s']) simp
qed

end
