(* ===== verification/System_Feed.thy ===== *)
theory System_Feed
  imports System_Read
begin

text \<open>
  The feed while the system of \<open>System_Safe\<close> runs: whatever writers, sequencers and sweepers do, the feed only grows, which is what
  \<open>Feed_Log\<close> assumes of the catalogs that the pages of \<open>PollIter\<close> and \<open>TailIter\<close> see.
\<close>

section \<open>The feed grows\<close>

lemma feed_grows_files: "c_files db' = c_files db \<Longrightarrow> feed_grows db db'"
  using feed_grows_append [of db' db "[]"] by simp

lemma feed_step:
  assumes "wf_store st" "sys_inv st s" "sys_step st s s'"
  shows "feed_grows (wd_db (sy_world s)) (wd_db (sy_world s'))"
  using assms(3)
proof (cases rule: catalog_step)
  case still
  then show ?thesis by (rule feed_grows_files)
next
  case (tx i c m b us k res put)
  note p = prepared_alone [OF assms(2) tx(1)]
  from assms(1) p(4) tx(2) sys_invD(1) [OF assms(2)] p(5,6) show ?thesis
  proof (cases rule: call_tx_effect)
    case rolled
    then show ?thesis by (intro feed_grows_files) simp
  next
    case (committed r obj)
    then show ?thesis using feed_grows_append [of "wd_db (sy_world s')" "wd_db (sy_world s)" "[r]"] by simp
  qed
next
  case (pass cfg env res db)
  have ids: "ids_distinct (wd_db (sy_world s))"
    using sys_invD(1) [OF assms(2)] by (simp add: world_ok_def cat_inv_def ids_distinct_def)
  obtain n err where "res = (n, err)" by (cases res)
  with pass(1) have "runOnceWithMetrics cfg env (wd_db (sy_world s)) = ((n, err), db)" by simp
  then have "feed_grows (wd_db (sy_world s)) db"
    by (cases rule: RunOnce_cases) (use pass(2) feed_grows_assign [OF ids] in auto)
  then show ?thesis by (simp add: pass(3))
qed

lemma feed_steps:
  assumes "wf_store st" "sys_inv st s0" "(sys_step st)\<^sup>*\<^sup>* s0 s"
  shows "feed_grows (wd_db (sy_world s0)) (wd_db (sy_world s))"
  using assms
proof (induction rule: sys_run_inv)
  case (step s s')
  with feed_step [OF assms(1) step(1,2)] feed_grows_trans show ?case by blast
qed simp

section \<open>A consumer that tails the feed of a running system\<close>

text \<open>The cycles of \<open>TailIter\<close> see the catalogs of later and later moments and are not interrupted.\<close>

fun watches :: "'r store \<Rightarrow> 'r system \<Rightarrow> (page_env \<times> bool) list \<Rightarrow> bool" where
  "watches st s [] = True"
| "watches st s ((env, wait_done) # cs) =
     (\<not> pg_done env \<and> pg_fail env = None \<and> \<not> wait_done
      \<and> (\<exists>t. (sys_step st)\<^sup>*\<^sup>* s t \<and> pg_db env = wd_db (sy_world t) \<and> watches st t cs))"

lemma watches_grow:
  assumes "wf_store st"
  shows "sys_inv st s \<Longrightarrow> watches st s cs \<Longrightarrow> feed_grows (wd_db (sy_world s)) (last_db (wd_db (sy_world s)) cs)"
proof (induction cs arbitrary: s)
  case (Cons e cs)
  obtain env d where e: "e = (env, d)" by (cases e)
  with Cons.prems(2) obtain t where t: "(sys_step st)\<^sup>*\<^sup>* s t" "pg_db env = wd_db (sy_world t)" "watches st t cs" by auto
  have "sys_inv st t" using sys_steps_ok [OF assms Cons.prems(1) t(1)] by blast
  from Cons.IH [OF this t(3)] feed_steps [OF assms Cons.prems(1) t(1)] show ?case
    by (simp add: e t(2) feed_grows_trans)
qed simp

lemma system_good_feed:
  assumes "wf_store st" "sys_inv st s" "sql_offset_latest (wd_db (sy_world s)) < 2 ^ 63 - 1"
  shows "good_feed st (wd_db (sy_world s))"
  using assms sys_invD(1,2) [OF assms(2)]
  by (simp add: good_feed_def rows_complete_def wf_store_def world_ok_def cat_inv_def)

lemma watches_cycles:
  assumes "wf_store st"
  shows "sys_inv st s \<Longrightarrow> watches st s cs \<Longrightarrow> sql_offset_latest (last_db (wd_db (sy_world s)) cs) < 2 ^ 63 - 1
    \<Longrightarrow> good_feed st (wd_db (sy_world s)) \<and> cycles_ok st (wd_db (sy_world s)) cs"
proof (induction cs arbitrary: s)
  case (Cons e cs)
  obtain env d where e: "e = (env, d)" by (cases e)
  with Cons.prems(2) obtain t where t: "(sys_step st)\<^sup>*\<^sup>* s t" "pg_db env = wd_db (sy_world t)" "watches st t cs"
    and quiet: "\<not> pg_done env" "pg_fail env = None" "\<not> d" by auto
  have "sys_inv st t" using sys_steps_ok [OF assms Cons.prems(1) t(1)] by blast
  with Cons.IH [of t] t Cons.prems(3) have rest: "good_feed st (wd_db (sy_world t)) \<and> cycles_ok st (wd_db (sy_world t)) cs"
    by (simp add: e)
  have "sql_offset_latest (wd_db (sy_world s)) \<le> sql_offset_latest (last_db (wd_db (sy_world s)) (e # cs))"
    using watches_grow [OF assms Cons.prems(1,2)] by (simp add: feed_grows_def)
  then have "good_feed st (wd_db (sy_world s))"
    using Cons.prems(3) by (intro system_good_feed [OF assms Cons.prems(1)]) linarith
  with rest quiet feed_steps [OF assms Cons.prems(1) t(1)] show ?case by (simp add: e t(2) page_ok_def)
qed (simp add: system_good_feed assms)



end
