(* ===== verification/Iter_Watch.thy ===== *)
theory Iter_Watch
  imports Read_Pipeline Metrics
begin

text \<open>
  Two parts of the pipelines that the step relations of \<open>Read_Pipeline\<close> and \<open>Poll_Pipeline\<close> do not show
  as functions: the watchdog of \<open>iter_pipeline_shared.go\<close>, which looks at the body slots from outside, and the
  decode loop of one partition (\<open>decodePartition\<close> in \<open>read.go\<close>), which the decode steps carry out file by file.
\<close>

section \<open>The body slots with their clock\<close>

record body_slots =
  bs_cap :: nat
  bs_occ :: nat
  bs_last :: int

text \<open>\<open>None\<close> is the panic.\<close>

definition newBodySlots :: "int \<Rightarrow> body_slots option" where
  "newBodySlots cap = (if cap \<le> 0 then None else Some \<lparr>bs_cap = nat cap, bs_occ = 0, bs_last = 0\<rparr>)"

definition bumpProgress :: "int \<Rightarrow> body_slots \<Rightarrow> body_slots" where
  "bumpProgress now b = b\<lparr>bs_last := now\<rparr>"

definition lastProgress :: "body_slots \<Rightarrow> int" where "lastProgress b = bs_last b"
definition occupancy :: "body_slots \<Rightarrow> nat" where "occupancy b = bs_occ b"
definition capacity :: "body_slots \<Rightarrow> nat" where "capacity b = bs_cap b"

definition bs_acquire :: "body_slots \<Rightarrow> body_slots option" where
  "bs_acquire b = map_option (\<lambda>n. b\<lparr>bs_occ := n\<rparr>) (slot_acquire (bs_cap b) (bs_occ b))"

definition bs_release :: "int \<Rightarrow> body_slots \<Rightarrow> body_slots option" where
  "bs_release now b = map_option (\<lambda>n. bumpProgress now (b\<lparr>bs_occ := n\<rparr>)) (slot_release (bs_occ b))"

section \<open>The watchdog\<close>

text \<open>What happens to the slots while it runs, and its ticks, until its context is done.  An operation that blocks does not happen.\<close>

datatype watch_event = Acquired | Released int | Progressed int | Watch_tick int

definition slots_after :: "watch_event \<Rightarrow> body_slots \<Rightarrow> body_slots" where
  "slots_after ev b =
     (case ev of
        Acquired \<Rightarrow> (case bs_acquire b of None \<Rightarrow> b | Some b' \<Rightarrow> b')
      | Released now \<Rightarrow> (case bs_release now b of None \<Rightarrow> b | Some b' \<Rightarrow> b')
      | Progressed now \<Rightarrow> bumpProgress now b
      | Watch_tick now \<Rightarrow> b)"

record stall_warning =
  sw_stale :: int
  sw_occupancy :: nat
  sw_capacity :: nat

fun runDeadlockObserver :: "int \<Rightarrow> body_slots \<Rightarrow> watch_event list \<Rightarrow> stall_warning list" where
  "runDeadlockObserver threshold b [] = []"
| "runDeadlockObserver threshold b (ev # evs) =
     (case ev of
        Watch_tick now \<Rightarrow>
          if observer_warns threshold (lastProgress b) (occupancy b) now
          then [\<lparr>sw_stale = now - lastProgress b, sw_occupancy = occupancy b, sw_capacity = capacity b\<rparr>]
          else []
      | _ \<Rightarrow> [])
     @ runDeadlockObserver threshold (slots_after ev b) evs"

definition stalls_told :: "string \<Rightarrow> stall_warning list \<Rightarrow> measurement list" where
  "stalls_told method warnings = concat (map (\<lambda>_. recordIterStall method) warnings)"

lemma stalls_counted: "sum_told ''s3pgstore.read.iter.stall.count'' (method_attr m) (stalls_told m ws) = int (length ws)"
  by (induction ws) (simp_all add: stalls_told_def recordIterStall_def)

lemma slots_bounded: "bs_occ b \<le> bs_cap b \<Longrightarrow> bs_occ (slots_after ev b) \<le> bs_cap (slots_after ev b) \<and> bs_cap (slots_after ev b) = bs_cap b"
  by (cases ev) (auto simp: slots_after_def bs_acquire_def bs_release_def bumpProgress_def slot_acquire_def slot_release_def)

text \<open>A pipeline that makes progress, or holds nothing, or has not begun, is never reported.\<close>

fun progressing :: "int \<Rightarrow> body_slots \<Rightarrow> watch_event list \<Rightarrow> bool" where
  "progressing threshold b [] = True"
| "progressing threshold b (ev # evs) =
     ((case ev of Watch_tick now \<Rightarrow> now < bs_last b + threshold \<or> bs_occ b = 0 \<or> bs_last b = 0 | _ \<Rightarrow> True)
      \<and> progressing threshold (slots_after ev b) evs)"

lemma silent_iff: "runDeadlockObserver threshold b evs = [] \<longleftrightarrow> progressing threshold b evs"
  by (induction threshold b evs rule: runDeadlockObserver.induct)
    (auto simp: observer_warns_def lastProgress_def occupancy_def split: watch_event.splits)

text \<open>A stall is reported at the first tick that comes \<open>threshold\<close> after the last progress, and at every later one.\<close>

lemma ticks_reported:
  assumes "bs_last b \<noteq> 0" "bs_occ b \<noteq> 0"
  shows "runDeadlockObserver threshold b (map Watch_tick ts) =
    map (\<lambda>t. \<lparr>sw_stale = t - bs_last b, sw_occupancy = bs_occ b, sw_capacity = bs_cap b\<rparr>) (filter (\<lambda>t. bs_last b + threshold \<le> t) ts)"
  using assms by (induction ts) (auto simp: observer_warns_def lastProgress_def occupancy_def capacity_def slots_after_def)

lemma first_late_tick:
  fixes p t0 tick threshold :: int
  assumes "0 < tick" "tick \<le> threshold" "t0 \<le> p + tick" "p + threshold \<le> t0 + int n * tick"
  shows "\<exists>t ts. filter (\<lambda>t. p + threshold \<le> t) (map (\<lambda>k. t0 + int k * tick) [0..<Suc n]) = t # ts
    \<and> p + threshold \<le> t \<and> t < p + threshold + tick"
  using assms(4)
proof (induction n)
  case 0
  then show ?case using assms(1-3) by simp
next
  case (Suc n)
  show ?case
  proof (cases "p + threshold \<le> t0 + int n * tick")
    case True
    then obtain t ts where "filter (\<lambda>t. p + threshold \<le> t) (map (\<lambda>k. t0 + int k * tick) [0..<Suc n]) = t # ts"
      "p + threshold \<le> t" "t < p + threshold + tick" using Suc.IH by blast
    then show ?thesis unfolding upt_Suc [of 0 "Suc n"] by (simp del: upt_Suc)
  next
    case False
    have none: "filter (\<lambda>t. p + threshold \<le> t) (map (\<lambda>k. t0 + int k * tick) [0..<Suc n]) = []"
    proof -
      have "\<not> p + threshold \<le> t0 + int k * tick" if "k \<le> n" for k
        using False that mult_right_mono [of "int k" "int n" tick] assms(1) by linarith
      then show ?thesis by (auto simp: filter_empty_conv)
    qed
    have "t0 + int (Suc n) * tick < p + threshold + tick" using False by (simp add: algebra_simps)
    with Suc.prems none False show ?thesis by (simp add: upt_Suc)
  qed
qed

lemma stall_reported:
  assumes "bs_last b = p" "p \<noteq> 0" "bs_occ b \<noteq> 0" "t0 \<le> p + stallTickInterval" "p + stallThreshold \<le> t0 + int n * stallTickInterval"
  shows "\<exists>w ws. runDeadlockObserver stallThreshold b (map (\<lambda>k. Watch_tick (t0 + int k * stallTickInterval)) [0..<Suc n]) = w # ws
    \<and> stallThreshold \<le> sw_stale w \<and> sw_stale w < stallThreshold + stallTickInterval"
proof -
  let ?ts = "map (\<lambda>k. t0 + int k * stallTickInterval) [0..<Suc n]"
  obtain t ts where "filter (\<lambda>t. p + stallThreshold \<le> t) ?ts = t # ts" "p + stallThreshold \<le> t" "t < p + stallThreshold + stallTickInterval"
    using first_late_tick [of stallTickInterval stallThreshold t0 p n] assms(4,5) by (auto simp: stallTickInterval_def stallThreshold_def)
  with ticks_reported [of b stallThreshold ?ts] assms(1-3) show ?thesis by (simp add: comp_def del: upt_Suc)
qed

section \<open>The decode loop of a partition\<close>

text \<open>The records so far, the bodies of the files still to do; the result, the bodies afterwards and the slots given back.\<close>

fun decode_loop :: "(string \<Rightarrow> string + 'r list) \<Rightarrow> string option list \<Rightarrow> 'r list \<Rightarrow> (string + 'r list) \<times> string option list \<times> nat" where
  "decode_loop rd [] out = (Inr out, [], 0)"
| "decode_loop rd (body # bodies) out =
     (case body of
        None \<Rightarrow> (case decode_loop rd bodies out of (res, bodies', n) \<Rightarrow> (res, None # bodies', n))
      | Some b \<Rightarrow>
          (case rd b of
             Inl e \<Rightarrow> (Inl e, None # bodies, 1)
           | Inr recs \<Rightarrow> (case decode_loop rd bodies (out @ recs) of (res, bodies', n) \<Rightarrow> (res, None # bodies', Suc n))))"

definition decodePartition :: "'r read_cfg \<Rightarrow> string option list \<Rightarrow> (string + 'r list) \<times> string option list \<times> nat" where
  "decodePartition cfg bodies =
     (case decode_loop (rc_decode cfg) bodies [] of
        (Inl e, bodies', n) \<Rightarrow> (Inl e, bodies', n)
      | (Inr out, bodies', n) \<Rightarrow> (Inr (rc_dedup cfg out), bodies', n))"

text \<open>The worker \<open>w\<close> at file \<open>f\<close> of its partition, without other goroutines between its steps.\<close>

definition bodies_of :: "'r read_cfg \<Rightarrow> nat \<Rightarrow> nat \<Rightarrow> 'r read_state \<Rightarrow> string option list" where
  "bodies_of cfg p f s = map (\<lambda>i. rs_bodies s (p, i)) [f..<n_files cfg p]"

definition put_bodies :: "nat \<Rightarrow> nat \<Rightarrow> string option list \<Rightarrow> (nat \<times> nat \<Rightarrow> string option) \<Rightarrow> nat \<times> nat \<Rightarrow> string option" where
  "put_bodies p f bodies B = (\<lambda>(q, i). if q = p \<and> f \<le> i \<and> i < f + length bodies then bodies ! (i - f) else B (q, i))"

definition decoded_to :: "nat \<Rightarrow> nat \<Rightarrow> string option list \<Rightarrow> nat \<Rightarrow> 'r read_state \<Rightarrow> 'r read_state" where
  "decoded_to p f bodies n s = s\<lparr>rs_bodies := put_bodies p f bodies (rs_bodies s), rs_slots := rs_slots s - n\<rparr>"

lemma put_bodies_simps:
  "put_bodies p f [] B = B" "put_bodies p (Suc f) bodies (B((p, f) := b)) = put_bodies p f (b # bodies) B"
  "put_bodies p f (map (\<lambda>i. B (p, i)) [f..<m]) B = B"
  by (auto simp: put_bodies_def fun_eq_iff nth_Cons')

text \<open>The worker goes on with the batch, or stops with the error recorded and its reservation returned.\<close>

definition after_decode :: "'r read_cfg \<Rightarrow> nat \<Rightarrow> nat \<Rightarrow> string + 'r list \<Rightarrow> 'r read_state \<Rightarrow> 'r read_state" where
  "after_decode cfg w p res s =
     (case res of
        Inr out \<Rightarrow> set_worker w (W_send (batch_of cfg p out)) s
      | Inl e \<Rightarrow> set_worker w W_stopped (add_bytes w (releaseBytes (uncomp_of cfg p) (rs_bytes s w))
          (s\<lparr>rs_cause := record_unless_ctx (Pipe_error e) (rs_cause s)\<rparr>)))"

lemma decoded_to_Cons:
  "decoded_to p (Suc f) bodies n (s\<lparr>rs_bodies := (rs_bodies s)((p, f) := b), rs_slots := rs_slots s - k\<rparr>) = decoded_to p f (b # bodies) (n + k) s"
  by (simp add: decoded_to_def put_bodies_simps add.commute)

lemma after_decode_worker [simp]:
  "after_decode cfg w p res (decoded_to p f bodies n (set_worker w pc s)) = after_decode cfg w p res (decoded_to p f bodies n s)"
  by (cases res) (simp_all add: after_decode_def decoded_to_def set_worker_def add_bytes_def)

lemma decode_loop_length: "decode_loop rd bodies out = (res, bodies', n) \<Longrightarrow> length bodies' = length bodies"
  by (induction rd bodies out arbitrary: res bodies' n rule: decode_loop.induct) (auto split: option.splits sum.splits prod.splits)

lemma bodies_of_Cons:
  assumes "bodies_of cfg p f s = b # bodies"
  shows "f < n_files cfg p" "rs_bodies s (p, f) = b" "bodies_of cfg p (Suc f) s = bodies"
proof -
  show f: "f < n_files cfg p" using assms by (cases "f < n_files cfg p") (simp_all add: bodies_of_def)
  show "rs_bodies s (p, f) = b" "bodies_of cfg p (Suc f) s = bodies"
    using assms f by (simp_all add: bodies_of_def upt_conv_Cons)
qed

lemma bodies_of_frame [simp]:
  "bodies_of cfg p (Suc f) (set_worker w pc s) = bodies_of cfg p (Suc f) s"
  "bodies_of cfg p (Suc f) (s\<lparr>rs_bodies := (rs_bodies s)((p, f) := b), rs_slots := n\<rparr>) = bodies_of cfg p (Suc f) s"
  by (simp_all add: bodies_of_def set_worker_def)

lemma rtrancl_step: "rstep cfg s s1 \<Longrightarrow> rtranclp (rstep cfg) s1 t \<Longrightarrow> rtranclp (rstep cfg) s t"
  by (rule converse_rtranclp_into_rtranclp)

lemma decode_loop_runs:
  "decode_loop (rc_decode cfg) bodies out = (res, bodies', n) \<Longrightarrow> bodies_of cfg p f s = bodies \<Longrightarrow> w < rc_workers cfg
    \<Longrightarrow> rs_worker s w = W_decode f out \<Longrightarrow> rs_next s w = p \<Longrightarrow> n \<le> rs_slots s
    \<Longrightarrow> rtranclp (rstep cfg) s (after_decode cfg w p res (decoded_to p f bodies' n s))"
proof (induction bodies arbitrary: out res bodies' n f s)
  case Nil
  have "\<not> f < n_files cfg p" using Nil.prems(2) by (auto simp: bodies_of_def)
  with rstep.decode_end [of w cfg s f out] Nil.prems show ?case by (auto simp: after_decode_def decoded_to_def put_bodies_simps)
next
  case (Cons b bodies)
  note b = bodies_of_Cons [OF Cons.prems(2)]
  show ?case
  proof (cases b)
    case None
    obtain bodies1 where one: "decode_loop (rc_decode cfg) bodies out = (res, bodies1, n)" "bodies' = None # bodies1"
      using Cons.prems(1) None by (auto split: prod.splits)
    let ?s = "set_worker w (W_decode (Suc f) out) s"
    have step: "rstep cfg s ?s" using rstep.decode_absent [of w cfg s f out] Cons.prems(3-5) b(1,2) None by simp
    have same: "s\<lparr>rs_bodies := (rs_bodies s)((p, f) := None), rs_slots := rs_slots s - 0\<rparr> = s"
      using b(2) None by (simp add: fun_upd_idem)
    have "rtranclp (rstep cfg) ?s (after_decode cfg w p res (decoded_to p (Suc f) bodies1 n ?s))"
      by (rule Cons.IH [OF one(1) _ Cons.prems(3)]) (use b(3) Cons.prems(5,6) in \<open>simp_all add: set_worker_def [of w "W_decode (Suc f) out"] bodies_of_def\<close>)
    moreover have "decoded_to p (Suc f) bodies1 n s = decoded_to p f bodies' n s"
      using decoded_to_Cons [of p f bodies1 n s 0 None] same one(2) by simp
    ultimately show ?thesis using rtrancl_step [OF step] by simp
  next
    case (Some body)
    show ?thesis
    proof (cases "rc_decode cfg body")
      case (Inl e)
      have r: "res = Inl e" "bodies' = None # bodies" "n = 1" using Cons.prems(1) Some Inl by simp_all
      let ?t = "s\<lparr>rs_bodies := (rs_bodies s)((p, f) := None), rs_slots := rs_slots s - 1\<rparr>"
      have "rstep cfg s (after_decode cfg w p res ?t)"
        using rstep.decode_err [of w cfg s f out body e "rs_slots s - 1"] Cons.prems(3-6) b(1,2) Some Inl r
        by (simp add: after_decode_def add_bytes_def set_worker_def)
      moreover have "bodies_of cfg p (Suc f) ?t = bodies" using b(3) by simp
      then have "put_bodies p (Suc f) bodies (rs_bodies ?t) = rs_bodies ?t" using put_bodies_simps(3) unfolding bodies_of_def by metis
      then have "decoded_to p (Suc f) bodies 0 ?t = ?t" by (simp add: decoded_to_def)
      then have "?t = decoded_to p f bodies' n s" using decoded_to_Cons [of p f bodies 0 s 1 None] r by simp
      ultimately show ?thesis by auto
    next
      case (Inr recs)
      obtain bodies1 m where one: "decode_loop (rc_decode cfg) bodies (out @ recs) = (res, bodies1, m)" "bodies' = None # bodies1" "n = Suc m"
        using Cons.prems(1) Some Inr by (auto split: prod.splits)
      let ?t = "s\<lparr>rs_bodies := (rs_bodies s)((p, f) := None), rs_slots := rs_slots s - 1\<rparr>"
      let ?s = "set_worker w (W_decode (Suc f) (out @ recs)) ?t"
      have step: "rstep cfg s ?s"
        using rstep.decode_file [of w cfg s f out body recs "rs_slots s - 1"] Cons.prems(3-6) b(1,2) Some Inr one(3) by simp
      have "rtranclp (rstep cfg) ?s (after_decode cfg w p res (decoded_to p (Suc f) bodies1 m ?s))"
      proof (rule Cons.IH [OF one(1) _ Cons.prems(3)])
        show "bodies_of cfg p (Suc f) ?s = bodies" using b(3) by simp
        show "rs_worker ?s w = W_decode (Suc f) (out @ recs)" "rs_next ?s w = p" "m \<le> rs_slots ?s"
          using Cons.prems(5,6) one(3) by (simp_all add: set_worker_def)
      qed
      moreover have "decoded_to p (Suc f) bodies1 m ?t = decoded_to p f bodies' n s"
        using decoded_to_Cons [of p f bodies1 m s 1 None] one(2,3) by simp
      ultimately show ?thesis using rtrancl_step [OF step] by simp
    qed
  qed
qed

text \<open>A worker whose bodies are there runs \<open>decodePartition\<close>: the batch has its records, every body it touched is dropped and
  its slot is free.\<close>

lemma decodePartition_runs:
  assumes "decodePartition cfg (bodies_of cfg p 0 s) = (res, bodies', n)" "w < rc_workers cfg" "rs_worker s w = W_decode 0 []"
    "rs_next s w = p" "n \<le> rs_slots s"
  shows "\<exists>t. rtranclp (rstep cfg) s t \<and> rs_slots t = rs_slots s - n \<and> bodies_of cfg p 0 t = bodies'
    \<and> (case res of Inl e \<Rightarrow> rs_worker t w = W_stopped | Inr recs \<Rightarrow> \<exists>b. rs_worker t w = W_send b \<and> pr_records b = recs)"
proof -
  obtain res' where loop: "decode_loop (rc_decode cfg) (bodies_of cfg p 0 s) [] = (res', bodies', n)"
    and res: "res = (case res' of Inl e \<Rightarrow> Inl e | Inr out \<Rightarrow> Inr (rc_dedup cfg out))"
    using assms(1) by (auto simp: decodePartition_def split: prod.splits sum.splits)
  have len: "length bodies' = n_files cfg p" using decode_loop_length [OF loop] by (simp add: bodies_of_def)
  let ?t = "after_decode cfg w p res' (decoded_to p 0 bodies' n s)"
  have "rtranclp (rstep cfg) s ?t" by (rule decode_loop_runs [OF loop refl assms(2-5)])
  moreover have "rs_slots ?t = rs_slots s - n" "bodies_of cfg p 0 ?t = bodies'"
    using len by (cases res'; auto simp: after_decode_def decoded_to_def put_bodies_def set_worker_def add_bytes_def bodies_of_def intro!: nth_equalityI)+
  moreover have "case res of Inl e \<Rightarrow> rs_worker ?t w = W_stopped | Inr recs \<Rightarrow> \<exists>b. rs_worker ?t w = W_send b \<and> pr_records b = recs"
    by (cases res') (simp_all add: res after_decode_def set_worker_def batch_of_def Let_def)
  ultimately show ?thesis by blast
qed

end
